(* ===== verification/Onedis_Prelude.thy ===== *)
theory Onedis_Prelude
  imports
    Main
    "HOL-Library.Word"
    "HOL-Library.Char_ord"
    "HOL-Library.List_Lexorder"
    "HOL-Library.AList"
begin

text \<open>
  Shared vocabulary of the development: what the sources use of the Rust language and of its
  standard library, and the generic facts about it.

  \<^item> A byte string (\<^verbatim>\<open>Vec<u8>\<close>, \<^verbatim>\<open>&[u8]\<close>, \<^verbatim>\<open>String\<close>, \<^verbatim>\<open>&str\<close>) is a \<^typ>\<open>string\<close>: a
    \<^typ>\<open>char\<close> of HOL is one byte, and the order of \<^theory_text>\<open>List_Lexorder\<close> over
    \<^theory_text>\<open>Char_ord\<close> is the byte-wise order of Rust slices and of the storage engine's keys.
    A Rust \<^verbatim>\<open>String\<close> is a byte string with \<open>utf8_valid\<close>.
  \<^item> \<^verbatim>\<open>usize\<close> positions are natural numbers; \<open>checked_add\<close>, \<open>checked_mul\<close> and
    \<open>saturating_add\<close> write out the width where the code does.
  \<^item> \<open>be_bytes\<close> and \<open>be_nat\<close> are \<^verbatim>\<open>to_be_bytes\<close> and \<^verbatim>\<open>from_be_bytes\<close>.
  \<^item> \<open>get_range\<close> is \<^verbatim>\<open>slice.get(a..b)\<close>, \<open>strip_prefix\<close> is \<^verbatim>\<open>slice.strip_prefix\<close>,
    \<open>find_crlf\<close> is \<^verbatim>\<open>windows(2).position(|w| w == b"\r\n")\<close>.
  \<^item> \<open>show_nat\<close>, \<open>show_int\<close>, \<open>parse_nat\<close>, \<open>parse_int\<close> are \<^verbatim>\<open>to_string\<close> and
    \<^verbatim>\<open>str::parse\<close> on integers.
  \<^item> \<open>utf8_valid\<close> and \<open>from_utf8_lossy\<close> are \<^verbatim>\<open>std::str::from_utf8\<close> and
    \<^verbatim>\<open>String::from_utf8_lossy\<close>.
\<close>

named_theorems codec_simps \<open>length and inverse laws of the fixed-width byte codecs\<close>
named_theorems text_simps \<open>laws of decimal text and UTF-8\<close>

type_synonym bytes = "char list"
type_synonym u64 = "64 word"
type_synonym u16 = "16 word"

section \<open>usize arithmetic\<close>

abbreviation usize_max :: nat where
  "usize_max \<equiv> 18446744073709551615"

definition checked_add :: "nat \<Rightarrow> nat \<Rightarrow> nat option" where
  "checked_add a b = (if a + b \<le> usize_max then Some (a + b) else None)"

definition checked_mul :: "nat \<Rightarrow> nat \<Rightarrow> nat option" where
  "checked_mul a b = (if a * b \<le> usize_max then Some (a * b) else None)"

definition checked_sub :: "nat \<Rightarrow> nat \<Rightarrow> nat option" where
  "checked_sub a b = (if b \<le> a then Some (a - b) else None)"

definition saturating_add :: "nat \<Rightarrow> nat \<Rightarrow> nat" where
  "saturating_add a b = min (a + b) usize_max"

lemma checked_add_Some_iff [simp]:
  "checked_add a b = Some c \<longleftrightarrow> c = a + b \<and> a + b \<le> usize_max"
  by (auto simp: checked_add_def)

lemma checked_mul_Some_iff [simp]:
  "checked_mul a b = Some c \<longleftrightarrow> c = a * b \<and> a * b \<le> usize_max"
  by (auto simp: checked_mul_def)

lemma checked_sub_Some_iff [simp]:
  "checked_sub a b = Some c \<longleftrightarrow> b \<le> a \<and> c = a - b"
  by (auto simp: checked_sub_def)

section \<open>Association lists\<close>

lemma map_of_update [simp]: "map_of (AList.update k v al) = (map_of al)(k \<mapsto> v)"
  by (rule ext) (simp add: update_conv)

lemma map_of_delete [simp]: "map_of (AList.delete k al) = (map_of al)(k := None)"
  by (rule ext) (simp add: delete_conv)

section \<open>Runs\<close>

lemma foldl_invariant:
  "(\<And>s x. x \<in> set xs \<Longrightarrow> P s \<Longrightarrow> P (f s x)) \<Longrightarrow> P s \<Longrightarrow> P (foldl f s xs)"
  by (induction xs arbitrary: s) auto

text \<open>An invariant of a step relation holds in every state that a run reaches.\<close>

locale inductive_invariant =
  fixes init :: "'s \<Rightarrow> bool"
    and step :: "'s \<Rightarrow> 's \<Rightarrow> bool"
    and inv :: "'s \<Rightarrow> bool"
  assumes init_inv: "init s \<Longrightarrow> inv s"
    and step_inv: "inv s \<Longrightarrow> step s s' \<Longrightarrow> inv s'"
begin

lemma run_inv: "step\<^sup>*\<^sup>* s s' \<Longrightarrow> inv s \<Longrightarrow> inv s'"
  by (induction rule: rtranclp_induct) (auto intro: step_inv)

lemma reach_inv: "init s \<Longrightarrow> step\<^sup>*\<^sup>* s s' \<Longrightarrow> inv s'"
  using run_inv init_inv by blast

end

section \<open>Slices\<close>

definition get_range :: "'a list \<Rightarrow> nat \<Rightarrow> nat \<Rightarrow> 'a list option" where
  "get_range xs a b = (if a \<le> b \<and> b \<le> length xs then Some (take (b - a) (drop a xs)) else None)"

definition slice_of :: "'a list \<Rightarrow> nat \<Rightarrow> nat \<Rightarrow> 'a list" where
  "slice_of xs a b = take (b - a) (drop a xs)"

definition get_at :: "'a list \<Rightarrow> nat \<Rightarrow> 'a option" where
  "get_at xs i = (if i < length xs then Some (xs ! i) else None)"

fun strip_prefix :: "'a list \<Rightarrow> 'a list \<Rightarrow> 'a list option" where
  "strip_prefix [] ys = Some ys"
| "strip_prefix (x # xs) [] = None"
| "strip_prefix (x # xs) (y # ys) = (if x = y then strip_prefix xs ys else None)"

definition starts_with :: "'a list \<Rightarrow> 'a list \<Rightarrow> bool" where
  "starts_with xs p \<longleftrightarrow> strip_prefix p xs \<noteq> None"

lemma strip_prefix_iff: "strip_prefix p xs = Some r \<longleftrightarrow> xs = p @ r"
  by (induction p xs rule: strip_prefix.induct) auto

lemma strip_prefix_append [simp]: "strip_prefix p (p @ r) = Some r"
  by (simp add: strip_prefix_iff)

lemma starts_with_iff: "starts_with xs p \<longleftrightarrow> (\<exists>r. xs = p @ r)"
  by (auto simp: starts_with_def strip_prefix_iff)

lemma starts_with_append [simp]: "starts_with (p @ r) p"
  by (auto simp: starts_with_iff)

fun iter_position :: "('a \<Rightarrow> bool) \<Rightarrow> 'a list \<Rightarrow> nat option" where
  "iter_position P [] = None"
| "iter_position P (x # xs) = (if P x then Some 0 else map_option Suc (iter_position P xs))"

lemma iter_position_append_first:
  "\<forall>x \<in> set xs. \<not> P x \<Longrightarrow> P y \<Longrightarrow> iter_position P (xs @ y # ys) = Some (length xs)"
  by (induction xs) auto

lemma iter_position_None_iff: "iter_position P xs = None \<longleftrightarrow> (\<forall>x \<in> set xs. \<not> P x)"
  by (induction xs) auto

lemma iter_position_Some:
  "iter_position P xs = Some i \<Longrightarrow> i < length xs \<and> P (xs ! i) \<and> (\<forall>x \<in> set (take i xs). \<not> P x)"
  by (induction xs arbitrary: i) (auto split: if_splits)

lemma get_range_Some_iff:
  "get_range xs a b = Some ys \<longleftrightarrow> a \<le> b \<and> b \<le> length xs \<and> ys = take (b - a) (drop a xs)"
  by (auto simp: get_range_def)

lemma get_range_middle:
  "length p = a \<Longrightarrow> length p + length m = b \<Longrightarrow> get_range (p @ m @ r) a b = Some m"
  by (auto simp: get_range_def)

lemma slice_append_left [simp]: "length p = a \<Longrightarrow> slice_of (p @ m @ r) a (a + length m) = m"
  by (simp add: slice_of_def)

lemma length_slice_of [simp]: "b \<le> length xs \<Longrightarrow> length (slice_of xs a b) = b - a"
  by (simp add: slice_of_def)

section \<open>Big-endian integers\<close>

primrec be_bytes :: "nat \<Rightarrow> nat \<Rightarrow> bytes" where
  "be_bytes 0 n = []"
| "be_bytes (Suc k) n = char_of (n div 256 ^ k) # be_bytes k n"

primrec be_nat :: "bytes \<Rightarrow> nat" where
  "be_nat [] = 0"
| "be_nat (c # cs) = of_char c * 256 ^ length cs + be_nat cs"

lemma length_be_bytes [simp, codec_simps]: "length (be_bytes k n) = k"
  by (induction k) auto

lemma of_char_less_256: "of_char c < (256::nat)"
  by (metis of_char_mod_256 mod_less_divisor zero_less_numeral)

lemma be_nat_less: "be_nat bs < 256 ^ length bs"
proof (induction bs)
  case (Cons c cs)
  have "of_char c + 1 \<le> (256::nat)"
    using of_char_less_256 [of c] by linarith
  then have "(of_char c + 1) * 256 ^ length cs \<le> (256::nat) * 256 ^ length cs"
    by (rule mult_le_mono1)
  then have "of_char c * 256 ^ length cs + 256 ^ length cs \<le> (256::nat) * 256 ^ length cs"
    by (simp only: add_mult_distrib mult_1)
  with Cons.IH show ?case
    unfolding be_nat.simps length_Cons power_Suc by linarith
qed simp

lemma be_nat_be_bytes [codec_simps]: "be_nat (be_bytes k n) = n mod 256 ^ k"
proof (induction k)
  case (Suc k)
  have "n mod 256 ^ Suc k = n div 256 ^ k mod 256 * 256 ^ k + n mod 256 ^ k"
    using mod_mult2_eq [of n "256 ^ k" 256] by (simp add: mult.commute)
  then show ?case using Suc by (simp add: of_char_of)
qed simp

lemma be_bytes_cong: "n mod 256 ^ k = m mod 256 ^ k \<Longrightarrow> be_bytes k n = be_bytes k m"
proof (induction k)
  case (Suc k)
  have *: "x mod 256 ^ k = x mod 256 ^ Suc k mod 256 ^ k" for x :: nat
    by (simp add: mod_mod_cancel)
  have "x div 256 ^ k mod 256 = x mod 256 ^ Suc k div 256 ^ k" for x :: nat
    using mod_mult2_eq [of x "256 ^ k" 256] by (simp add: mult.commute)
  then have "char_of (n div 256 ^ k) = (char_of (m div 256 ^ k) :: char)"
    using Suc.prems by (metis char_of_mod_256)
  then show ?case using Suc * by (metis be_bytes.simps(2))
qed simp

lemma be_bytes_mod: "be_bytes k (n mod 256 ^ k) = be_bytes k n"
  by (rule be_bytes_cong) simp

lemma be_bytes_be_nat [codec_simps]: "k = length bs \<Longrightarrow> be_bytes k (be_nat bs) = bs"
proof (induction bs arbitrary: k)
  case (Cons c cs)
  have "be_nat cs < 256 ^ length cs" by (rule be_nat_less)
  then have hd: "(of_char c * 256 ^ length cs + be_nat cs) div 256 ^ length cs = of_char c"
    by simp
  have "be_bytes (length cs) (of_char c * 256 ^ length cs + be_nat cs) = be_bytes (length cs) (be_nat cs)"
    by (rule be_bytes_cong) simp
  then show ?case using Cons hd by simp
qed simp

lemma be_bytes_inj:
  "be_bytes k n = be_bytes k m \<longleftrightarrow> n mod 256 ^ k = m mod 256 ^ k"
  by (metis be_nat_be_bytes be_bytes_cong)

lemma take_be_bytes: "take k (be_bytes (k + m) n) = be_bytes k (n div 256 ^ m)"
proof (induction k)
  case (Suc k)
  have "n div 256 ^ (k + m) = n div 256 ^ m div 256 ^ k"
    by (metis add.commute power_add div_mult2_eq)
  then show ?case using Suc by simp
qed simp

lemma be_bytes_8: "be_bytes 8 n = char_of (n div 256 ^ 7) # be_bytes 7 n"
  using be_bytes.simps(2) [of 7 n] by (simp del: be_bytes.simps)

section \<open>The byte-wise order\<close>

lemma char_less_of_char: "(c :: char) < d \<longleftrightarrow> (of_char c :: nat) < of_char d"
  by (simp add: less_char_def)

lemma list_less_append_same [simp]: "(p @ xs :: bytes) < p @ ys \<longleftrightarrow> xs < ys"
  by (induction p) auto

lemma list_le_append_same [simp]: "(p @ xs :: bytes) \<le> p @ ys \<longleftrightarrow> xs \<le> ys"
  by (induction p) auto

lemma list_le_append [simp]: "(p :: bytes) \<le> p @ x"
  by (induction p) auto

lemma be_nat_less_iff:
  "length xs = length ys \<Longrightarrow> xs < ys \<longleftrightarrow> be_nat xs < be_nat ys"
proof (induction xs ys rule: list_induct2)
  case (Cons x xs y ys)
  let ?k = "256 ^ length ys :: nat"
  have b: "be_nat xs < ?k" "be_nat ys < ?k" using be_nat_less Cons.hyps by metis+
  consider "(of_char x :: nat) < of_char y" | "x = y" | "(of_char y :: nat) < of_char x"
    by (metis linorder_neqE_nat of_char_eq_iff)
  then show ?case
  proof cases
    case 1
    then have "(of_char x + 1) * ?k \<le> of_char y * ?k" by (intro mult_le_mono1) simp
    then show ?thesis using 1 b Cons by (simp add: char_less_of_char)
  next
    case 2
    then show ?thesis using Cons by simp
  next
    case 3
    then have "(of_char y + 1) * ?k \<le> of_char x * ?k" by (intro mult_le_mono1) simp
    then show ?thesis using 3 b Cons by (auto simp: char_less_of_char)
  qed
qed simp

lemma be_bytes_less_iff:
  "n < 256 ^ k \<Longrightarrow> m < 256 ^ k \<Longrightarrow> be_bytes k n < be_bytes k m \<longleftrightarrow> n < m"
  by (simp add: be_nat_less_iff be_nat_be_bytes)

lemma list_less_append_first:
  "length xs = length ys \<Longrightarrow> xs < ys \<Longrightarrow> (xs @ us :: bytes) < ys @ vs"
  by (induction xs ys rule: list_induct2) auto

lemma list_between_prefix: "(p :: bytes) \<le> x \<Longrightarrow> x < p @ s \<Longrightarrow> \<exists>r. x = p @ r"
proof (induction p arbitrary: x)
  case (Cons c p)
  then obtain d y where x: "x = d # y" by (cases x) auto
  have "d = c" "p \<le> y" "y < p @ s" using Cons.prems by (auto simp: x)
  with Cons.IH show ?case by (auto simp: x)
qed simp

lemma list_less_append_iff:
  "length xs = length ys \<Longrightarrow>
   (xs @ us :: bytes) < ys @ vs \<longleftrightarrow> xs < ys \<or> (xs = ys \<and> us < vs)"
  by (induction xs ys rule: list_induct2) auto


section \<open>Words as bytes\<close>

definition be64 :: "u64 \<Rightarrow> bytes" where
  "be64 w = be_bytes 8 (unat w)"

definition from_be64 :: "bytes \<Rightarrow> u64" where
  "from_be64 bs = word_of_nat (be_nat bs)"

definition be16 :: "u16 \<Rightarrow> bytes" where
  "be16 w = be_bytes 2 (unat w)"

definition from_be16 :: "bytes \<Rightarrow> u16" where
  "from_be16 bs = word_of_nat (be_nat bs)"

lemma length_be64 [simp, codec_simps]: "length (be64 w) = 8" "length (be16 v) = 2"
  by (simp_all add: be64_def be16_def)

lemma unat_be64_bound: "unat (w :: u64) < 256 ^ 8"
  using unsigned_less [where 'a = nat, of w] by simp

lemma from_be64_be64 [simp, codec_simps]: "from_be64 (be64 w) = w"
  using unat_be64_bound [of w] by (simp add: be64_def from_be64_def be_nat_be_bytes)

lemma from_be16_be16 [simp, codec_simps]: "from_be16 (be16 w) = w"
  using unsigned_less [where 'a = nat, of w] by (simp add: be16_def from_be16_def be_nat_be_bytes)

lemma be64_from_be64: "length bs = 8 \<Longrightarrow> be64 (from_be64 bs) = bs"
  using be_nat_less [of bs]
  by (simp add: be64_def from_be64_def unat_of_nat be_bytes_be_nat)

lemma be64_eq_iff [simp]: "be64 v = be64 w \<longleftrightarrow> v = w"
  using from_be64_be64 by metis

lemma be16_from_be16: "length bs = 2 \<Longrightarrow> be16 (from_be16 bs) = bs"
  using be_nat_less [of bs] by (simp add: be16_def from_be16_def unat_of_nat be_bytes_be_nat)

lemma be16_less_iff: "be16 v < be16 w \<longleftrightarrow> v < w"
  using unsigned_less [where 'a = nat, of v] unsigned_less [where 'a = nat, of w]
  by (simp add: be16_def be_bytes_less_iff word_less_nat_alt)

lemma be16_eq_iff [simp]: "be16 v = be16 w \<longleftrightarrow> v = w"
  using from_be16_be16 by metis

lemma be64_nonempty [simp]: "be64 w \<noteq> []" "[] \<noteq> be64 w"
  using length_be64(1) [of w] by fastforce+

lemma be64_less_iff: "be64 v < be64 w \<longleftrightarrow> v < w"
  using be_bytes_less_iff [OF unat_be64_bound unat_be64_bound, of v w]
  by (simp add: be64_def word_less_nat_alt)

lemma append_same_length: "length xs = length ys \<Longrightarrow> xs @ us = ys @ vs \<longleftrightarrow> xs = ys \<and> us = vs"
  by auto

lemma be64_append_eq [simp]: "be64 v @ r = be64 w @ s \<longleftrightarrow> v = w \<and> r = s"
  by (subst append_same_length) auto

section \<open>Lines\<close>

abbreviation CR :: char where "CR \<equiv> CHR 0x0D"
abbreviation LF :: char where "LF \<equiv> CHR 0x0A"
abbreviation CRLF :: bytes where "CRLF \<equiv> [CR, LF]"

fun find_crlf :: "bytes \<Rightarrow> nat option" where
  "find_crlf (x # y # r) =
     (if x = CR \<and> y = LF then Some 0 else map_option Suc (find_crlf (y # r)))"
| "find_crlf _ = None"

lemma find_crlf_Some:
  "find_crlf bs = Some i \<Longrightarrow>
   i + 2 \<le> length bs \<and> bs ! i = CR \<and> bs ! Suc i = LF \<and> find_crlf (take (i + 2) bs) = Some i"
proof (induction bs arbitrary: i rule: find_crlf.induct)
  case (1 x y r)
  show ?case
  proof (cases "x = CR \<and> y = LF")
    case True
    then show ?thesis using 1 by simp
  next
    case False
    then obtain j where j: "find_crlf (y # r) = Some j" "i = Suc j" using 1 by auto
    then show ?thesis using False 1(1) [OF False j(1)] by auto
  qed
qed auto

lemma find_crlf_append_stable:
  "find_crlf bs = Some i \<Longrightarrow> find_crlf (bs @ r) = Some i"
  by (induction bs arbitrary: i rule: find_crlf.induct) (auto split: if_splits)

lemma find_crlf_split:
  "find_crlf bs = Some i \<Longrightarrow> bs = take i bs @ CRLF @ drop (i + 2) bs"
proof (induction bs arbitrary: i rule: find_crlf.induct)
  case (1 x y r)
  then show ?case by (cases "x = CR \<and> y = LF") auto
qed auto

text \<open>A line without the two control characters ends at the terminator appended to it.\<close>

lemma find_crlf_line:
  "CR \<notin> set l \<Longrightarrow> find_crlf (l @ CRLF @ r) = Some (length l)"
proof (induction l)
  case (Cons c l)
  then show ?case by (cases l) auto
qed simp

lemma find_crlf_none_line: "CR \<notin> set l \<Longrightarrow> find_crlf l = None"
  by (induction l rule: find_crlf.induct) auto

lemma find_crlf_first_cr: "find_crlf bs = Some i \<Longrightarrow> bs \<noteq> [] \<and> i < length bs"
  using find_crlf_Some by fastforce

lemma find_crlf_prefix_pos: "find_crlf (c # bs) = Some i \<Longrightarrow> c \<noteq> CR \<Longrightarrow> 0 < i"
  by (cases bs) (auto split: if_splits)

section \<open>Decimal text\<close>

definition is_ascii_digit :: "char \<Rightarrow> bool" where
  "is_ascii_digit c \<longleftrightarrow> CHR ''0'' \<le> c \<and> c \<le> CHR ''9''"

definition digit_char :: "nat \<Rightarrow> char" where
  "digit_char d = char_of (48 + d)"

definition digit_val :: "char \<Rightarrow> nat" where
  "digit_val c = of_char c - 48"

fun show_nat :: "nat \<Rightarrow> string" where
  "show_nat n = (if n < 10 then [digit_char n] else show_nat (n div 10) @ [digit_char (n mod 10)])"

declare show_nat.simps [simp del]

definition show_int :: "int \<Rightarrow> string" where
  "show_int i = (if i < 0 then ''-'' @ show_nat (nat (- i)) else show_nat (nat i))"

definition digits_value :: "string \<Rightarrow> nat" where
  "digits_value s = foldl (\<lambda>acc c. acc * 10 + digit_val c) 0 s"

text \<open>\<^verbatim>\<open>str::parse\<close> for an unsigned type with largest value \<open>m\<close>, and for \<^verbatim>\<open>i64\<close>.\<close>

definition parse_nat :: "nat \<Rightarrow> string \<Rightarrow> nat option" where
  "parse_nat m s =
     (let d = (case s of c # r \<Rightarrow> if c = CHR ''+'' then r else s | [] \<Rightarrow> s)
      in if d \<noteq> [] \<and> list_all is_ascii_digit d \<and> digits_value d \<le> m
         then Some (digits_value d) else None)"

definition i64_range :: "int \<Rightarrow> bool" where
  "i64_range i \<longleftrightarrow> - 9223372036854775808 \<le> i \<and> i \<le> 9223372036854775807"

definition parse_i64 :: "string \<Rightarrow> int option" where
  "parse_i64 s =
     (let (neg, d) = (case s of c # r \<Rightarrow> if c = CHR ''-'' then (True, r)
                                          else if c = CHR ''+'' then (False, r) else (False, s)
                      | [] \<Rightarrow> (False, s));
          v = (if neg then - int (digits_value d) else int (digits_value d))
      in if d \<noteq> [] \<and> list_all is_ascii_digit d \<and> i64_range v then Some v else None)"

lemma is_ascii_digit_iff: "is_ascii_digit c \<longleftrightarrow> (48::nat) \<le> of_char c \<and> of_char c \<le> (57::nat)"
  by (simp add: is_ascii_digit_def less_eq_char_def)

lemma digit_char_props [simp, text_simps]:
  assumes "d < 10"
  shows "is_ascii_digit (digit_char d)" "digit_val (digit_char d) = d"
  using assms by (simp_all add: is_ascii_digit_iff digit_char_def digit_val_def)

lemma digits_not_special:
  "is_ascii_digit c \<Longrightarrow> c \<noteq> CR \<and> c \<noteq> LF \<and> c \<noteq> CHR ''-'' \<and> c \<noteq> CHR ''+'' \<and> of_char c < (128::nat)"
  by (auto simp: is_ascii_digit_iff)

lemma digits_value_snoc: "digits_value (s @ [c]) = digits_value s * 10 + digit_val c"
  by (simp add: digits_value_def)

lemma show_nat_props:
  "list_all is_ascii_digit (show_nat n) \<and> show_nat n \<noteq> [] \<and> digits_value (show_nat n) = n"
proof (induction n rule: show_nat.induct)
  case (1 n)
  show ?case
  proof (cases "n < 10")
    case True
    then show ?thesis by (subst (1 2 3) show_nat.simps) (simp add: digits_value_def)
  next
    case False
    then show ?thesis using 1 by (subst (1 2 3) show_nat.simps) (simp add: digits_value_snoc)
  qed
qed

lemma show_nat_digits [simp, text_simps]: "list_all is_ascii_digit (show_nat n)"
  and show_nat_nonempty [simp, text_simps]: "show_nat n \<noteq> []"
  and digits_value_show_nat [simp, text_simps]: "digits_value (show_nat n) = n"
  using show_nat_props by blast+

lemma length_show_nat: "n < 10 ^ k \<Longrightarrow> 0 < k \<Longrightarrow> length (show_nat n) \<le> k"
proof (induction n arbitrary: k rule: show_nat.induct)
  case (1 n)
  show ?case
  proof (cases "n < 10")
    case True
    then show ?thesis using 1 by (subst show_nat.simps) simp
  next
    case False
    then obtain j where j: "k = Suc j" "0 < j"
      using 1 by (cases k) (auto, metis False One_nat_def neq0_conv power_0 less_one mult.right_neutral)
    then have "n div 10 < 10 ^ j" using 1 by auto
    then show ?thesis using 1(1) [of j] False j by (subst show_nat.simps) simp
  qed
qed

lemma hd_digits_not_sign:
  assumes "list_all is_ascii_digit s" "s \<noteq> []"
  shows "hd s \<noteq> CHR ''-''" "hd s \<noteq> CHR ''+''"
  using assms by (cases s; auto dest: digits_not_special)+

lemma parse_nat_digits:
  assumes "list_all is_ascii_digit s" "s \<noteq> []"
  shows "parse_nat m s = (if digits_value s \<le> m then Some (digits_value s) else None)"
  using assms by (cases s) (auto simp: parse_nat_def dest: digits_not_special)

lemma parse_nat_show_nat [simp, text_simps]: "n \<le> m \<Longrightarrow> parse_nat m (show_nat n) = Some n"
  by (simp add: parse_nat_digits)

lemma parse_nat_bound: "parse_nat m s = Some n \<Longrightarrow> n \<le> m"
  by (auto simp: parse_nat_def Let_def split: list.splits if_splits)

lemma parse_i64_range: "parse_i64 s = Some v \<Longrightarrow> i64_range v"
  by (auto simp: parse_i64_def Let_def split: list.splits if_splits prod.splits)

lemma parse_i64_digits:
  assumes "list_all is_ascii_digit s" "s \<noteq> []"
  shows "parse_i64 s =
    (if i64_range (int (digits_value s)) then Some (int (digits_value s)) else None)"
  using assms by (cases s) (auto simp: parse_i64_def dest: digits_not_special)

lemma parse_i64_show_int [simp, text_simps]:
  "i64_range i \<Longrightarrow> parse_i64 (show_int i) = Some i"
  by (cases "i < 0") (simp add: show_int_def parse_i64_def, simp add: parse_i64_digits show_int_def)

lemma show_int_line [simp, text_simps]: "CR \<notin> set (show_int i)" "LF \<notin> set (show_int i)"
proof -
  have "c \<in> set (show_nat n) \<Longrightarrow> is_ascii_digit c" for c n
    using show_nat_digits by (metis list_all_iff)
  then show "CR \<notin> set (show_int i)" "LF \<notin> set (show_int i)"
    by (auto simp: show_int_def dest!: digits_not_special)
qed

lemma show_nat_line [simp, text_simps]: "CR \<notin> set (show_nat n)" "LF \<notin> set (show_nat n)"
  using show_int_line [of "int n"] by (simp_all add: show_int_def)

section \<open>UTF-8\<close>

text \<open>
  \<open>utf8_seq\<close> looks at the first sequence of a non-empty byte string: whether it is a
  well-formed character and how many bytes it takes, or how many bytes belong to the maximal
  malformed chunk (the bytes \<^verbatim>\<open>from_utf8_lossy\<close> replaces by one U+FFFD).
\<close>

definition byte_in :: "nat \<Rightarrow> nat \<Rightarrow> bytes \<Rightarrow> nat \<Rightarrow> bool" where
  "byte_in lo hi bs i \<longleftrightarrow> i < length bs \<and> lo \<le> of_char (bs ! i) \<and> of_char (bs ! i) \<le> hi"

definition utf8_second :: "nat \<Rightarrow> nat \<times> nat" where
  "utf8_second b = (if b = 224 then (160, 191) else if b = 237 then (128, 159)
     else if b = 240 then (144, 191) else if b = 244 then (128, 143) else (128, 191))"

definition utf8_width :: "nat \<Rightarrow> nat" where
  "utf8_width b = (if b < 128 then 1 else if 194 \<le> b \<and> b \<le> 223 then 2
     else if 224 \<le> b \<and> b \<le> 239 then 3 else if 240 \<le> b \<and> b \<le> 244 then 4 else 0)"

definition utf8_seq :: "bytes \<Rightarrow> bool \<times> nat" where
  "utf8_seq bs =
     (let b = of_char (hd bs); w = utf8_width b; (lo, hi) = utf8_second b
      in if w = 0 then (False, 1)
         else if w = 1 then (True, 1)
         else if \<not> byte_in lo hi bs 1 then (False, 1)
         else if w = 2 then (True, 2)
         else if \<not> byte_in 128 191 bs 2 then (False, 2)
         else if w = 3 then (True, 3)
         else if \<not> byte_in 128 191 bs 3 then (False, 3)
         else (True, 4))"

lemma utf8_seq_pos: "0 < snd (utf8_seq bs)"
  by (auto simp: utf8_seq_def Let_def split: prod.splits)

function utf8_valid :: "bytes \<Rightarrow> bool" where
  "utf8_valid bs =
     (if bs = [] then True else fst (utf8_seq bs) \<and> utf8_valid (drop (snd (utf8_seq bs)) bs))"
  by pat_completeness auto
termination
  by (relation "measure length") (auto simp: utf8_seq_pos)

function from_utf8_lossy :: "bytes \<Rightarrow> string" where
  "from_utf8_lossy bs =
     (if bs = [] then []
      else if fst (utf8_seq bs)
      then take (snd (utf8_seq bs)) bs @ from_utf8_lossy (drop (snd (utf8_seq bs)) bs)
      else [CHR 0xEF, CHR 0xBF, CHR 0xBD] @ from_utf8_lossy (drop (snd (utf8_seq bs)) bs))"
  by pat_completeness auto
termination
  by (relation "measure length") (auto simp: utf8_seq_pos)

declare utf8_valid.simps [simp del] from_utf8_lossy.simps [simp del]

lemma utf8_valid_Nil [simp, text_simps]: "utf8_valid []"
  by (subst utf8_valid.simps) simp

lemma utf8_seq_ascii: "of_char c < (128::nat) \<Longrightarrow> utf8_seq (c # bs) = (True, 1)"
  by (simp add: utf8_seq_def utf8_width_def split: prod.split)

lemma utf8_valid_ascii_Cons [text_simps]:
  "of_char c < (128::nat) \<Longrightarrow> utf8_valid (c # bs) = utf8_valid bs"
  by (subst utf8_valid.simps) (simp add: utf8_seq_ascii)

lemma utf8_valid_ascii: "\<forall>c \<in> set s. of_char c < (128::nat) \<Longrightarrow> utf8_valid s"
  by (induction s) (auto simp: utf8_valid_ascii_Cons)

lemma utf8_valid_digits [text_simps]: "list_all is_ascii_digit s \<Longrightarrow> utf8_valid s"
  by (rule utf8_valid_ascii) (auto simp: list_all_iff dest: digits_not_special)

lemma utf8_valid_show_int [simp, text_simps]: "utf8_valid (show_int i)"
  by (simp add: show_int_def utf8_valid_ascii_Cons utf8_valid_digits)

lemma from_utf8_lossy_Nil [simp, text_simps]: "from_utf8_lossy [] = []"
  by (subst from_utf8_lossy.simps) simp

text \<open>A valid string is kept as it is by the lossy conversion.\<close>

lemma from_utf8_lossy_valid [simp, text_simps]: "utf8_valid s \<Longrightarrow> from_utf8_lossy s = s"
proof (induction s rule: utf8_valid.induct)
  case (1 s)
  then show ?case
    by (cases "s = []") (use 1 in \<open>auto simp: utf8_valid.simps [of s] from_utf8_lossy.simps [of s]\<close>)
qed

text \<open>No byte of a well-formed sequence is \<^verbatim>\<open>0xF5\<close> or above, and none starts one in \<^verbatim>\<open>0x80..0xC1\<close>.\<close>

lemma utf8_seq_valid_cases:
  assumes "fst (utf8_seq bs)" "bs \<noteq> []"
  obtains "snd (utf8_seq bs) = 1" "of_char (hd bs) < (128::nat)"
  | "snd (utf8_seq bs) = 2" "of_char (hd bs) \<le> (244::nat)" "byte_in 128 191 bs 1"
  | "snd (utf8_seq bs) = 3" "of_char (hd bs) \<le> (244::nat)" "byte_in 128 191 bs 1"
      "byte_in 128 191 bs 2"
  | "snd (utf8_seq bs) = 4" "of_char (hd bs) \<le> (244::nat)" "byte_in 128 191 bs 1"
      "byte_in 128 191 bs 2" "byte_in 128 191 bs 3"
proof -
  let ?b = "of_char (hd bs) :: nat"
  have second: "byte_in (fst (utf8_second ?b)) (snd (utf8_second ?b)) bs 1 \<Longrightarrow> byte_in 128 191 bs 1"
    by (auto simp: utf8_second_def byte_in_def split: if_splits)
  have w: "utf8_width ?b = 1 \<Longrightarrow> ?b < 128" "1 < utf8_width ?b \<Longrightarrow> ?b \<le> 244"
    by (auto simp: utf8_width_def split: if_splits)
  show thesis
    using assms that second w
    unfolding utf8_seq_def Let_def case_prod_beta by (auto split: if_splits)
qed

lemma take_numeral_nth:
  "1 \<le> length bs \<Longrightarrow> take 1 bs = [hd bs]"
  "2 \<le> length bs \<Longrightarrow> take 2 bs = [hd bs, bs ! 1]"
  "3 \<le> length bs \<Longrightarrow> take 3 bs = [hd bs, bs ! 1, bs ! 2]"
  "4 \<le> length bs \<Longrightarrow> take 4 bs = [hd bs, bs ! 1, bs ! 2, bs ! 3]"
  by (auto simp: numeral_eq_Suc Suc_le_length_iff)

lemma utf8_valid_take_bytes:
  assumes "fst (utf8_seq bs)" "bs \<noteq> []"
  shows "snd (utf8_seq bs) \<le> length bs \<and> (\<forall>c \<in> set (take (snd (utf8_seq bs)) bs). of_char c \<le> (244::nat))"
  using assms
proof (cases rule: utf8_seq_valid_cases)
  case 1
  then show ?thesis using assms(2) by (cases bs) auto
next
  case 2
  then show ?thesis by (auto simp: byte_in_def take_numeral_nth)
next
  case 3
  then show ?thesis by (auto simp: byte_in_def take_numeral_nth)
next
  case 4
  then show ?thesis by (auto simp: byte_in_def take_numeral_nth)
qed

lemma utf8_valid_bytes: "utf8_valid s \<Longrightarrow> c \<in> set s \<Longrightarrow> of_char c \<le> (244::nat)"
proof (induction s rule: utf8_valid.induct)
  case (1 s)
  show ?case
  proof (cases "s = []")
    case True
    then show ?thesis using 1 by simp
  next
    case False
    then have v: "fst (utf8_seq s)" "utf8_valid (drop (snd (utf8_seq s)) s)"
      using "1.prems"(1) utf8_valid.simps [of s] by auto
    have "c \<in> set (take (snd (utf8_seq s)) s) \<or> c \<in> set (drop (snd (utf8_seq s)) s)"
      using "1.prems"(2) by (metis Un_iff append_take_drop_id set_append)
    then show ?thesis
      using v False "1.IH" utf8_valid_take_bytes by blast
  qed
qed

lemma utf8_valid_no_FF: "utf8_valid s \<Longrightarrow> CHR 0xFF \<notin> set s"
  using utf8_valid_bytes by fastforce

lemma utf8_valid_first:
  "utf8_valid (c # s) \<Longrightarrow> of_char c < (128::nat) \<or> 194 \<le> (of_char c :: nat)"
  by (subst (asm) utf8_valid.simps)
     (auto simp: utf8_seq_def utf8_width_def Let_def split: if_splits prod.splits)

end
