(* ===== verification/Resp_Frame.thy ===== *)
theory Resp_Frame
  imports Onedis_Prelude
begin

text \<open>
  The reply and request frames of the Redis protocol (\<^verbatim>\<open>src/frame/mod.rs\<close>), their wire encoding
  (\<^verbatim>\<open>serialization.rs\<close>) and the argument accessors (\<^verbatim>\<open>accessors.rs\<close>). A serialiser of the source
  only appends to its output buffer; here it returns the bytes it appends. A double is its IEEE
  bit pattern; the decimal text of a double (\<^verbatim>\<open>f64::to_string\<close>, \<^verbatim>\<open>str::parse::<f64>\<close>) is the
  parameter \<open>f64_text\<close>.
\<close>

section \<open>Frames\<close>

datatype resp_version = Resp2 | Resp3

datatype frame =
    Ok
  | Integer int
  | SimpleString string
  | Array "frame list"
  | BulkString bytes
  | Error string
  | Null
  | Boolean bool
  | Double u64
  | BigNumber string
  | BlobError bytes
  | VerbatimString "char \<times> char \<times> char" bytes
  | Map "(frame \<times> frame) list"
  | Set "frame list"
  | Attribute "(frame \<times> frame) list" frame
  | Push "frame list"

section \<open>Doubles\<close>

record f64_text =
  f64_show :: "u64 \<Rightarrow> string"
  f64_parse :: "string \<Rightarrow> u64 option"

definition f64_infinity :: u64 where "f64_infinity = 0x7FF0000000000000"
definition f64_neg_infinity :: u64 where "f64_neg_infinity = 0xFFF0000000000000"
definition f64_nan :: u64 where "f64_nan = 0x7FF8000000000000"

definition f64_is_nan :: "u64 \<Rightarrow> bool" where
  "f64_is_nan b \<longleftrightarrow> unat b mod 2 ^ 63 > 0x7FF0000000000000"

definition resp3_double :: "f64_text \<Rightarrow> u64 \<Rightarrow> string" where
  "resp3_double ft value =
     (if f64_is_nan value then ''nan''
      else if value = f64_infinity then ''inf''
      else if value = f64_neg_infinity then ''-inf''
      else f64_show ft value)"

section \<open>Serialisation\<close>

definition append_line_number :: "char \<Rightarrow> int \<Rightarrow> bytes" where
  "append_line_number prefix value = [prefix] @ show_int value @ CRLF"

definition append_blob :: "char \<Rightarrow> bytes \<Rightarrow> bytes" where
  "append_blob prefix value = [prefix] @ show_nat (length value) @ CRLF @ value @ CRLF"

definition append_sanitized_line :: "char \<Rightarrow> string \<Rightarrow> bytes" where
  "append_sanitized_line prefix value =
     [prefix] @ map (\<lambda>byte. if byte = CR \<or> byte = LF then CHR '' '' else byte) value @ CRLF"

fun append_frame :: "f64_text \<Rightarrow> resp_version \<Rightarrow> frame \<Rightarrow> bytes" where
  "append_frame ft p Ok = ''+OK'' @ CRLF"
| "append_frame ft p (Integer value) = append_line_number (CHR '':'') value"
| "append_frame ft p (SimpleString value) = append_sanitized_line (CHR ''+'') value"
| "append_frame ft p (Error value) = append_sanitized_line (CHR ''-'') value"
| "append_frame ft Resp2 Null = ''$-1'' @ CRLF"
| "append_frame ft Resp3 Null = ''_'' @ CRLF"
| "append_frame ft p (BulkString value) = append_blob (CHR ''$'') value"
| "append_frame ft Resp2 (Boolean value) = append_line_number (CHR '':'') (if value then 1 else 0)"
| "append_frame ft Resp3 (Boolean value) = (if value then ''#t'' else ''#f'') @ CRLF"
| "append_frame ft Resp2 (Double value) = append_blob (CHR ''$'') (resp3_double ft value)"
| "append_frame ft Resp3 (Double value) = append_sanitized_line (CHR '','') (resp3_double ft value)"
| "append_frame ft Resp2 (BigNumber value) = append_blob (CHR ''$'') value"
| "append_frame ft Resp3 (BigNumber value) = append_sanitized_line (CHR ''('') value"
| "append_frame ft Resp2 (BlobError value) =
     append_sanitized_line (CHR ''-'') (from_utf8_lossy value)"
| "append_frame ft Resp3 (BlobError value) = append_blob (CHR ''!'') value"
| "append_frame ft Resp2 (VerbatimString fmt data) = append_blob (CHR ''$'') data"
| "append_frame ft Resp3 (VerbatimString (f0, f1, f2) data) =
     append_blob (CHR ''='') ([f0, f1, f2] @ '':'' @ data)"
| "append_frame ft p (Array values) =
     ''*'' @ show_nat (length values) @ CRLF @ concat (map (append_frame ft p) values)"
| "append_frame ft Resp2 (Set values) =
     ''*'' @ show_nat (length values) @ CRLF @ concat (map (append_frame ft Resp2) values)"
| "append_frame ft Resp2 (Push values) =
     ''*'' @ show_nat (length values) @ CRLF @ concat (map (append_frame ft Resp2) values)"
| "append_frame ft Resp3 (Set values) =
     ''~'' @ show_nat (length values) @ CRLF @ concat (map (append_frame ft Resp3) values)"
| "append_frame ft Resp3 (Push values) =
     ''>'' @ show_nat (length values) @ CRLF @ concat (map (append_frame ft Resp3) values)"
| "append_frame ft Resp2 (Map entries) =
     ''*'' @ show_nat (min (length entries * 2) usize_max) @ CRLF @
     concat (map (\<lambda>(key, value). append_frame ft Resp2 key @ append_frame ft Resp2 value) entries)"
| "append_frame ft Resp3 (Map entries) =
     ''%'' @ show_nat (length entries) @ CRLF @
     concat (map (\<lambda>(key, value). append_frame ft Resp3 key @ append_frame ft Resp3 value) entries)"
| "append_frame ft Resp2 (Attribute attributes data) = append_frame ft Resp2 data"
| "append_frame ft Resp3 (Attribute attributes data) =
     ''|'' @ show_nat (length attributes) @ CRLF @
     concat (map (\<lambda>(key, value). append_frame ft Resp3 key @ append_frame ft Resp3 value) attributes) @
     append_frame ft Resp3 data"

definition as_bytes_for_protocol :: "f64_text \<Rightarrow> resp_version \<Rightarrow> frame \<Rightarrow> bytes" where
  "as_bytes_for_protocol ft protocol f = append_frame ft protocol f"

definition as_bytes :: "f64_text \<Rightarrow> frame \<Rightarrow> bytes" where
  "as_bytes ft f = as_bytes_for_protocol ft Resp2 f"

fun display_sequence :: "bool \<Rightarrow> (bool \<times> string) list \<Rightarrow> string" where
  "display_sequence wrote_item [] = []"
| "display_sequence wrote_item ((is_null, item) # items) =
     (if is_null then display_sequence wrote_item items
      else (if wrote_item then '' '' else []) @ item @ display_sequence True items)"

fun display_frame :: "f64_text \<Rightarrow> frame \<Rightarrow> string" where
  "display_frame ft Ok = ''OK''"
| "display_frame ft (Integer value) = show_int value"
| "display_frame ft (SimpleString value) = value"
| "display_frame ft (Error value) = value"
| "display_frame ft (BigNumber value) = value"
| "display_frame ft (BulkString value) = from_utf8_lossy value"
| "display_frame ft (BlobError value) = from_utf8_lossy value"
| "display_frame ft (VerbatimString fmt data) = from_utf8_lossy data"
| "display_frame ft Null = []"
| "display_frame ft (Boolean value) = (if value then ''true'' else ''false'')"
| "display_frame ft (Double value) = f64_show ft value"
| "display_frame ft (Array values) =
     display_sequence False (map (\<lambda>v. (v = Null, display_frame ft v)) values)"
| "display_frame ft (Set values) =
     display_sequence False (map (\<lambda>v. (v = Null, display_frame ft v)) values)"
| "display_frame ft (Push values) =
     display_sequence False (map (\<lambda>v. (v = Null, display_frame ft v)) values)"
| "display_frame ft (Map entries) =
     display_sequence False (concat (map (\<lambda>(key, value).
       [(key = Null, display_frame ft key), (value = Null, display_frame ft value)]) entries))"
| "display_frame ft (Attribute attributes data) = display_frame ft data"

section \<open>Accessors\<close>

fun as_text :: "f64_text \<Rightarrow> frame \<Rightarrow> string option" where
  "as_text ft (BulkString bs) = (if utf8_valid bs then Some bs else None)"
| "as_text ft (SimpleString text) = Some text"
| "as_text ft (Error text) = Some text"
| "as_text ft (Integer value) = Some (show_int value)"
| "as_text ft Ok = Some ''OK''"
| "as_text ft (Boolean value) = Some (if value then ''true'' else ''false'')"
| "as_text ft (Double value) = Some (f64_show ft value)"
| "as_text ft (BigNumber value) = Some value"
| "as_text ft (VerbatimString fmt data) = (if utf8_valid data then Some data else None)"
| "as_text ft _ = None"

fun as_bytes_arg :: "f64_text \<Rightarrow> frame \<Rightarrow> bytes option" where
  "as_bytes_arg ft (BulkString bs) = Some bs"
| "as_bytes_arg ft (SimpleString text) = Some text"
| "as_bytes_arg ft (Error text) = Some text"
| "as_bytes_arg ft (Integer value) = Some (show_int value)"
| "as_bytes_arg ft Ok = Some ''OK''"
| "as_bytes_arg ft (Boolean value) = Some (if value then ''true'' else ''false'')"
| "as_bytes_arg ft (Double value) = Some (f64_show ft value)"
| "as_bytes_arg ft (BigNumber value) = Some value"
| "as_bytes_arg ft (VerbatimString fmt data) = Some data"
| "as_bytes_arg ft _ = None"

fun get_arg :: "f64_text \<Rightarrow> frame \<Rightarrow> nat \<Rightarrow> string option" where
  "get_arg ft (Array array) index = (if index < length array then as_text ft (array ! index) else None)"
| "get_arg ft (Attribute attributes data) index = get_arg ft data index"
| "get_arg ft _ index = None"

fun arg_len :: "frame \<Rightarrow> nat" where
  "arg_len (Array array) = length array"
| "arg_len (Attribute attributes data) = arg_len data"
| "arg_len _ = 0"

definition texts_or_default :: "f64_text \<Rightarrow> frame list \<Rightarrow> string list" where
  "texts_or_default ft array = (case those (map (as_text ft) array) of Some ts \<Rightarrow> ts | None \<Rightarrow> [])"

fun get_args :: "f64_text \<Rightarrow> frame \<Rightarrow> string list" where
  "get_args ft (Array array) = texts_or_default ft array"
| "get_args ft (Attribute attributes data) = get_args ft data"
| "get_args ft _ = []"

fun get_args_from_index :: "f64_text \<Rightarrow> frame \<Rightarrow> nat \<Rightarrow> string list" where
  "get_args_from_index ft (Array array) start_index =
     (if start_index < length array then texts_or_default ft (drop start_index array) else [])"
| "get_args_from_index ft (Attribute attributes data) start_index =
     get_args_from_index ft data start_index"
| "get_args_from_index ft _ start_index = []"

fun get_arg_bytes :: "f64_text \<Rightarrow> frame \<Rightarrow> nat \<Rightarrow> bytes option" where
  "get_arg_bytes ft (Array array) index =
     (case get_at array index of Some f \<Rightarrow> as_bytes_arg ft f | None \<Rightarrow> None)"
| "get_arg_bytes ft (Attribute attributes data) index = get_arg_bytes ft data index"
| "get_arg_bytes ft _ index = None"

section \<open>Laws of the accessors\<close>

lemma those_map_Some: "those (map f xs) = Some ys \<Longrightarrow> map f xs = map Some ys"
  by (induction xs arbitrary: ys) (auto split: option.splits)

lemma those_map_drop: "those (map f xs) = Some ys \<Longrightarrow> those (map f (drop n xs)) = Some (drop n ys)"
proof (induction xs arbitrary: ys n)
  case (Cons x xs)
  then show ?case by (cases n) (auto split: option.splits)
qed simp

lemma those_map_length: "those (map f xs) = Some ys \<Longrightarrow> length ys = length xs"
  using those_map_Some by (metis length_map)

lemma as_text_imp_bytes: "as_text ft f = Some t \<Longrightarrow> as_bytes_arg ft f = Some t"
  by (cases f) (auto split: if_splits)

lemma get_args_cases:
  "get_args ft f = [] \<or>
   (length (get_args ft f) = arg_len f \<and>
    (\<forall>i < arg_len f. get_arg ft f i = Some (get_args ft f ! i)))"
proof (induction f)
  case (Array xs)
  show ?case
  proof (cases "those (map (as_text ft) xs)")
    case (Some ts)
    then have "as_text ft (xs ! i) = Some (ts ! i)" if "i < length xs" for i
      using those_map_Some [OF Some] those_map_length [OF Some] that by (metis nth_map)
    then show ?thesis using Some those_map_length [OF Some] by (simp add: texts_or_default_def)
  qed (simp add: texts_or_default_def)
qed auto

lemma get_args_from_index_drop:
  "get_args ft f \<noteq> [] \<Longrightarrow> get_args_from_index ft f n = drop n (get_args ft f)"
proof (induction f)
  case (Array xs)
  then obtain ts where ts: "those (map (as_text ft) xs) = Some ts"
    by (auto simp: texts_or_default_def split: option.splits)
  then show ?case
    using those_map_drop [OF ts, of n] those_map_length [OF ts] by (simp add: texts_or_default_def)
qed simp_all

lemma get_arg_bytes_of_text: "get_arg ft f i = Some t \<Longrightarrow> get_arg_bytes ft f i = Some t"
  by (induction f) (simp_all add: get_at_def as_text_imp_bytes split: if_splits)

lemma find_crlf_sanitized:
  assumes "pfx \<noteq> CR"
  shows "find_crlf (append_sanitized_line pfx v @ rest) = Some (Suc (length v))"
proof -
  have "CR \<notin> set (pfx # map (\<lambda>b. if b = CR \<or> b = LF then CHR '' '' else b) v)"
    using assms by auto
  from find_crlf_line [OF this, of rest] show ?thesis
    by (simp add: append_sanitized_line_def)
qed

end
