(* ===== verification/Resp_Parse.thy ===== *)
theory Resp_Parse
  imports Resp_Frame
begin

text \<open>
  The request parser (\<^verbatim>\<open>src/frame/parsing_*.rs\<close>). It has two passes over the same bytes: a
  boundary scan (\<open>frame_boundary\<close>) that decides whether a whole frame is buffered and where it
  ends, under limits on size, nesting and node count, and a parser (\<open>parse_validated_frame\<close>)
  that builds the frame. The two mutual recursions of the source (a frame is an aggregate of
  frames) are recursions on the nesting depth: \<open>aggregate_frame_boundary\<close> and
  \<open>parse_aggregate\<close> take the function they call for an element as an argument, and call it at
  depth + 1 only below the depth limit, which is the termination argument.

  The source's mutable node budget is a value that is returned with the result; the mutable
  cursor of a loop is a parameter of the recursive function that models the loop.
\<close>

section \<open>Limits, results, errors\<close>

definition MAX_FRAME_BYTES :: nat where "MAX_FRAME_BYTES = 64 * 1024 * 1024"
definition MAX_BULK_STRING_BYTES :: nat where "MAX_BULK_STRING_BYTES = MAX_FRAME_BYTES"
definition MAX_ARRAY_ELEMENTS :: nat where "MAX_ARRAY_ELEMENTS = 1000000"
definition MAX_ARRAY_NESTING_DEPTH :: nat where "MAX_ARRAY_NESTING_DEPTH = 128"
definition MAX_FRAME_NODES :: nat where "MAX_FRAME_NODES = MAX_ARRAY_ELEMENTS + 1"
definition MAX_LENGTH_HEADER_BYTES :: nat where "MAX_LENGTH_HEADER_BYTES = 20"

lemmas limit_defs = MAX_FRAME_BYTES_def MAX_BULK_STRING_BYTES_def MAX_ARRAY_ELEMENTS_def
  MAX_ARRAY_NESTING_DEPTH_def MAX_FRAME_NODES_def MAX_LENGTH_HEADER_BYTES_def

datatype boundary_result = Complete nat | Incomplete | Invalid string

datatype frame_scan_result = Scan_Ready nat | Scan_Incomplete | Scan_Invalid string

record frame_batch_scan =
  complete_len :: nat
  command_count :: nat
  limit_reached :: bool

text \<open>An error is a message of the source's own or the UTF-8 error of the standard library.\<close>

datatype frame_error = Msg string | Utf8_error

section \<open>Protocol integers and length headers\<close>

definition parse_protocol_usize :: "string \<Rightarrow> nat option" where
  "parse_protocol_usize value =
     (if value = [] \<or> \<not> list_all is_ascii_digit value then None else parse_nat usize_max value)"

definition sign_stripped :: "string \<Rightarrow> string" where
  "sign_stripped value =
     (case strip_prefix ''-'' value of Some r \<Rightarrow> r
      | None \<Rightarrow> (case strip_prefix ''+'' value of Some r \<Rightarrow> r | None \<Rightarrow> value))"

definition parse_protocol_i64 :: "string \<Rightarrow> int option" where
  "parse_protocol_i64 value =
     (let digits = sign_stripped value
      in if digits = [] \<or> \<not> list_all is_ascii_digit digits then None else parse_i64 value)"

definition prefixed_length_line :: "bytes \<Rightarrow> string + (nat \<times> string) option" where
  "prefixed_length_line bs =
     (let search_end = min (length bs) MAX_LENGTH_HEADER_BYTES
      in case find_crlf (slice_of bs 1 search_end) of
           Some offset \<Rightarrow>
             (let line_end = 1 + offset + 2; value = slice_of bs 1 (line_end - 2)
              in if utf8_valid value then Inr (Some (line_end, value))
                 else Inl ''invalid UTF-8 in length header'')
         | None \<Rightarrow>
             if length bs \<ge> MAX_LENGTH_HEADER_BYTES
             then Inl ''length header exceeds protocol limit'' else Inr None)"

section \<open>Frame boundaries\<close>

definition is_double_text :: "f64_text \<Rightarrow> string \<Rightarrow> bool" where
  "is_double_text ft value \<longleftrightarrow>
     value \<in> {''inf'', ''+inf'', ''-inf'', ''nan''} \<or> f64_parse ft value \<noteq> None"

definition line_frame_boundary :: "f64_text \<Rightarrow> bytes \<Rightarrow> boundary_result" where
  "line_frame_boundary ft bs =
     (case find_crlf bs of
        None \<Rightarrow> Incomplete
      | Some idx \<Rightarrow>
          (let line_end = idx + 2
           in if line_end > MAX_FRAME_BYTES then Invalid ''line frame exceeds configured limit''
              else
                (let payload = slice_of bs 1 (line_end - 2); b0 = hd bs;
                     textual = b0 \<in> {CHR ''+'', CHR ''-'', CHR '','', CHR ''(''}
                 in if textual \<and> (CR \<in> set payload \<or> LF \<in> set payload)
                    then Invalid ''invalid control character in line frame''
                    else if textual \<and> \<not> utf8_valid payload
                    then Invalid ''invalid UTF-8 in line frame''
                    else if b0 = CHR '':'' \<and>
                            (if utf8_valid payload then parse_protocol_i64 payload else None) = None
                    then Invalid ''invalid integer frame''
                    else if b0 = CHR ''#'' \<and> payload \<notin> {''t'', ''f''}
                    then Invalid ''invalid boolean frame''
                    else if b0 = CHR '','' \<and> \<not> (utf8_valid payload \<and> is_double_text ft payload)
                    then Invalid ''invalid double frame''
                    else if b0 = CHR ''('' \<and>
                            (sign_stripped payload = [] \<or>
                             \<not> list_all is_ascii_digit (sign_stripped payload))
                    then Invalid ''invalid big number frame''
                    else if b0 = CHR ''_'' \<and> payload \<noteq> [] then Invalid ''invalid null frame''
                    else Complete line_end)))"

definition payload_frame_boundary :: "bytes \<Rightarrow> bool \<Rightarrow> string \<Rightarrow> boundary_result" where
  "payload_frame_boundary bs null_allowed frame_name =
     (case prefixed_length_line bs of
        Inl message \<Rightarrow> Invalid message
      | Inr None \<Rightarrow> Incomplete
      | Inr (Some (line_end, line)) \<Rightarrow>
          if null_allowed \<and> line = ''-1'' then Complete line_end
          else (case parse_protocol_usize line of
              None \<Rightarrow> Invalid (''invalid '' @ frame_name @ '' length'')
            | Some payload_len \<Rightarrow>
                if payload_len > MAX_BULK_STRING_BYTES
                then Invalid (frame_name @ '' exceeds configured limit'')
                else (case Option.bind (checked_add line_end payload_len) (\<lambda>end. checked_add end 2) of
                    None \<Rightarrow> Invalid (frame_name @ '' length overflow'')
                  | Some frame_end \<Rightarrow>
                      if frame_end > MAX_FRAME_BYTES
                      then Invalid (frame_name @ '' exceeds configured limit'')
                      else if frame_end > length bs then Incomplete
                      else if slice_of bs (frame_end - 2) frame_end \<noteq> CRLF
                      then Invalid (''invalid '' @ frame_name @ '' terminator'')
                      else Complete frame_end)))"

definition inline_ascii_whitespace :: "char \<Rightarrow> bool" where
  "inline_ascii_whitespace byte \<longleftrightarrow> byte \<in> {CHR '' '', CHR 0x09, CHR 0x0B, CHR 0x0C}"

definition inline_frame_boundary :: "bytes \<Rightarrow> boundary_result" where
  "inline_frame_boundary bs =
     (case find_crlf bs of
        None \<Rightarrow> if length bs \<ge> MAX_FRAME_BYTES
                then Invalid ''inline frame exceeds configured limit'' else Incomplete
      | Some idx \<Rightarrow>
          (let end = idx + 2
           in if end > MAX_FRAME_BYTES then Invalid ''inline frame exceeds configured limit''
              else
                (let line = take (end - 2) bs
                 in if CR \<in> set line \<or> LF \<in> set line
                    then Invalid ''invalid control character in inline command''
                    else if list_all inline_ascii_whitespace line
                    then Invalid ''empty inline command''
                    else Complete end)))"

text \<open>The element loop of an aggregate: \<open>n\<close> elements from position \<open>current_pos\<close>.\<close>

fun boundary_elements ::
  "(bytes \<Rightarrow> nat \<Rightarrow> boundary_result \<times> nat) \<Rightarrow> bytes \<Rightarrow> nat \<Rightarrow> nat \<Rightarrow> nat \<Rightarrow> boundary_result \<times> nat"
where
  "boundary_elements elem bs 0 current_pos remaining_nodes = (Complete current_pos, remaining_nodes)"
| "boundary_elements elem bs (Suc n) current_pos remaining_nodes =
     (if current_pos \<ge> length bs then (Incomplete, remaining_nodes)
      else (case elem (drop current_pos bs) remaining_nodes of
          (Complete element_end, remaining) \<Rightarrow>
            (let pos = current_pos + element_end
             in if pos > MAX_FRAME_BYTES
                then (Invalid ''aggregate frame exceeds configured limit'', remaining)
                else boundary_elements elem bs n pos remaining)
        | (Incomplete, remaining) \<Rightarrow> (Incomplete, remaining)
        | (Invalid message, remaining) \<Rightarrow> (Invalid message, remaining)))"

definition aggregate_element_count :: "char \<Rightarrow> nat \<Rightarrow> nat option" where
  "aggregate_element_count pfx logical_len =
     Option.bind
       (checked_mul logical_len (if pfx = CHR ''%'' \<or> pfx = CHR ''|'' then 2 else 1))
       (\<lambda>count. checked_add count (if pfx = CHR ''|'' then 1 else 0))"

definition aggregate_frame_boundary ::
  "(bytes \<Rightarrow> nat \<Rightarrow> nat \<Rightarrow> boundary_result \<times> nat) \<Rightarrow> bytes \<Rightarrow> nat \<Rightarrow> nat \<Rightarrow> char
   \<Rightarrow> boundary_result \<times> nat"
where
  "aggregate_frame_boundary elem bs depth remaining_nodes pfx =
     (if depth \<ge> MAX_ARRAY_NESTING_DEPTH
      then (Invalid ''aggregate nesting exceeds configured limit'', remaining_nodes)
      else (case prefixed_length_line bs of
          Inl message \<Rightarrow> (Invalid message, remaining_nodes)
        | Inr None \<Rightarrow> (Incomplete, remaining_nodes)
        | Inr (Some (line_end, line)) \<Rightarrow>
            if pfx = CHR ''*'' \<and> line = ''-1'' then (Complete line_end, remaining_nodes)
            else (case parse_protocol_usize line of
                None \<Rightarrow> (Invalid ''invalid aggregate length'', remaining_nodes)
              | Some logical_len \<Rightarrow>
                  if logical_len > MAX_ARRAY_ELEMENTS
                  then (Invalid ''aggregate exceeds configured limit'', remaining_nodes)
                  else (case aggregate_element_count pfx logical_len of
                      None \<Rightarrow> (Invalid ''aggregate length overflow'', remaining_nodes)
                    | Some element_count \<Rightarrow>
                        if element_count > MAX_FRAME_NODES
                        then (Invalid ''aggregate element count exceeds configured limit'',
                              remaining_nodes)
                        else boundary_elements (\<lambda>rest remaining. elem rest (depth + 1) remaining)
                               bs element_count line_end remaining_nodes))))"

lemma aggregate_frame_boundary_cong [fundef_cong]:
  assumes "bs = bs'" "depth = depth'" "r = r'" "pfx = pfx'"
    and "\<And>rest remaining. depth' < MAX_ARRAY_NESTING_DEPTH \<Longrightarrow>
           elem rest (depth' + 1) remaining = elem' rest (depth' + 1) remaining"
  shows "aggregate_frame_boundary elem bs depth r pfx = aggregate_frame_boundary elem' bs' depth' r' pfx'"
proof (cases "depth' < MAX_ARRAY_NESTING_DEPTH")
  case True
  then have eq: "(\<lambda>rest. elem rest (depth' + 1)) = (\<lambda>rest. elem' rest (depth' + 1))"
    using assms(5) by blast
  show ?thesis unfolding aggregate_frame_boundary_def assms(1-4) eq ..
next
  case False
  then show ?thesis using assms(1-4) by (simp add: aggregate_frame_boundary_def)
qed

definition is_aggregate_prefix :: "char \<Rightarrow> bool" where
  "is_aggregate_prefix c \<longleftrightarrow> c \<in> {CHR ''*'', CHR ''~'', CHR ''>'', CHR ''%'', CHR ''|''}"

definition is_line_prefix :: "char \<Rightarrow> bool" where
  "is_line_prefix c \<longleftrightarrow>
     c \<in> {CHR ''+'', CHR ''-'', CHR '':'', CHR ''_'', CHR ''#'', CHR '','', CHR ''(''}"

function frame_boundary_with_budget ::
  "f64_text \<Rightarrow> bytes \<Rightarrow> bool \<Rightarrow> nat \<Rightarrow> nat \<Rightarrow> boundary_result \<times> nat"
where
  "frame_boundary_with_budget ft bs top_level depth remaining_nodes =
     (if bs = [] then (Incomplete, remaining_nodes)
      else (case checked_sub remaining_nodes 1 of
          None \<Rightarrow> (Invalid ''frame element count exceeds configured limit'', remaining_nodes)
        | Some remaining \<Rightarrow>
            if is_aggregate_prefix (hd bs)
            then aggregate_frame_boundary
                   (\<lambda>rest d r. frame_boundary_with_budget ft rest False d r)
                   bs depth remaining (hd bs)
            else if is_line_prefix (hd bs) then (line_frame_boundary ft bs, remaining)
            else if hd bs = CHR ''$''
            then (payload_frame_boundary bs True ''bulk string'', remaining)
            else if hd bs = CHR ''!''
            then (payload_frame_boundary bs False ''blob error'', remaining)
            else if hd bs = CHR ''=''
            then (payload_frame_boundary bs False ''verbatim string'', remaining)
            else if top_level then (inline_frame_boundary bs, remaining)
            else (Invalid ''invalid array element type'', remaining)))"
  by pat_completeness auto
termination
  by (relation "measure (\<lambda>(ft, bs, top, depth, r). MAX_ARRAY_NESTING_DEPTH - depth)") auto

declare frame_boundary_with_budget.simps [simp del]

definition frame_boundary :: "f64_text \<Rightarrow> bytes \<Rightarrow> bool \<Rightarrow> boundary_result" where
  "frame_boundary ft bs top_level =
     fst (frame_boundary_with_budget ft bs top_level 0 MAX_FRAME_NODES)"

definition find_frame_end :: "f64_text \<Rightarrow> bytes \<Rightarrow> nat option" where
  "find_frame_end ft bs =
     (case frame_boundary ft bs True of Complete end \<Rightarrow> Some end | _ \<Rightarrow> None)"

section \<open>Inline commands\<close>

definition inline_hex_value :: "char \<Rightarrow> nat option" where
  "inline_hex_value byte =
     (if CHR ''0'' \<le> byte \<and> byte \<le> CHR ''9'' then Some (of_char byte - of_char CHR ''0'')
      else if CHR ''a'' \<le> byte \<and> byte \<le> CHR ''f'' then Some (of_char byte - of_char CHR ''a'' + 10)
      else if CHR ''A'' \<le> byte \<and> byte \<le> CHR ''F'' then Some (of_char byte - of_char CHR ''A'' + 10)
      else None)"

definition inline_escape :: "char \<Rightarrow> char" where
  "inline_escape c =
     (if c = CHR ''n'' then LF else if c = CHR ''r'' then CR else if c = CHR ''t'' then CHR 0x09
      else if c = CHR ''b'' then CHR 0x08 else if c = CHR ''a'' then CHR 0x07 else c)"

definition inline_hex_pair :: "bytes \<Rightarrow> char option" where
  "inline_hex_pair r =
     (case r of
        x # h # l # _ \<Rightarrow>
          if x = CHR ''x'' then
            (case (inline_hex_value h, inline_hex_value l) of
               (Some high, Some low) \<Rightarrow> Some (char_of (high * 16 + low))
             | _ \<Rightarrow> None)
          else None
      | _ \<Rightarrow> None)"

text \<open>
  The inner loop over one argument: \<open>rest\<close> is \<^verbatim>\<open>line[index..]\<close>. It returns the argument and
  the bytes that follow it.
\<close>

function inline_argument ::
  "bytes \<Rightarrow> bytes \<Rightarrow> bool \<Rightarrow> bool \<Rightarrow> frame_error + bytes \<times> bytes"
where
  "inline_argument rest argument double_quoted single_quoted =
     (case rest of
        [] \<Rightarrow> if double_quoted \<or> single_quoted
              then Inl (Msg ''ERR unbalanced quotes in inline request'') else Inr (argument, [])
      | byte # r \<Rightarrow>
          if double_quoted then
            (if byte = CHR 0x5C \<and> r \<noteq> [] then
               (case inline_hex_pair r of
                  Some value \<Rightarrow> inline_argument (drop 3 r) (argument @ [value]) double_quoted single_quoted
                | None \<Rightarrow>
                    inline_argument (tl r) (argument @ [inline_escape (hd r)]) double_quoted single_quoted)
             else if byte = CHR 0x5C then Inl (Msg ''ERR invalid escape in inline request'')
             else if byte = CHR 0x22 then
               (if r \<noteq> [] \<and> \<not> inline_ascii_whitespace (hd r)
                then Inl (Msg ''ERR quoted argument must be followed by whitespace'')
                else Inr (argument, r))
             else inline_argument r (argument @ [byte]) double_quoted single_quoted)
          else if single_quoted then
            (if byte = CHR 0x5C \<and> r \<noteq> [] \<and> hd r = CHR 0x27
             then inline_argument (tl r) (argument @ [CHR 0x27]) double_quoted single_quoted
             else if byte = CHR 0x27 then
               (if r \<noteq> [] \<and> \<not> inline_ascii_whitespace (hd r)
                then Inl (Msg ''ERR quoted argument must be followed by whitespace'')
                else Inr (argument, r))
             else inline_argument r (argument @ [byte]) double_quoted single_quoted)
          else
            (if byte = CHR 0x22 then inline_argument r argument True single_quoted
             else if byte = CHR 0x27 then inline_argument r argument double_quoted True
             else if inline_ascii_whitespace byte then Inr (argument, rest)
             else if byte = CR \<or> byte = LF
             then Inl (Msg ''ERR invalid control character in inline request'')
             else inline_argument r (argument @ [byte]) double_quoted single_quoted))"
  by pat_completeness auto
termination
  by (relation "measure (\<lambda>(rest, argument, dq, sq). length rest)") auto

declare inline_argument.simps [simp del]

lemma inline_argument_rest_le:
  "inline_argument rest argument dq sq = Inr (a, r) \<Longrightarrow> length r \<le> length rest"
proof (induction rest arbitrary: argument dq sq rule: length_induct)
  case (1 rest)
  have rec: "length rs < length rest \<longrightarrow> length r \<le> length rest"
    if "inline_argument rs arg d s = Inr (a, r)" for rs arg d s
    using 1(1) that by (meson le_trans less_imp_le)
  show ?case
    using "1"(2)
    by (subst (asm) inline_argument.simps)
       (auto split: if_splits option.splits list.splits dest!: rec)
qed

lemma inline_argument_consumes:
  assumes "inline_argument rest argument False False = Inr (a, r)"
    and "rest \<noteq> []" "\<not> inline_ascii_whitespace (hd rest)"
  shows "length r < length rest"
proof (cases rest)
  case (Cons byte rs)
  have "inline_argument rs arg dq sq = Inr (a, r) \<Longrightarrow> ?thesis" for arg dq sq
    using inline_argument_rest_le [of rs arg dq sq a r] Cons by simp
  then show ?thesis using assms Cons
    by (subst (asm) inline_argument.simps) (auto split: if_splits)
qed (use assms in simp)

function parse_inline_arguments_from ::
  "bytes list \<Rightarrow> bytes \<Rightarrow> frame_error + bytes list"
where
  "parse_inline_arguments_from arguments line =
     (let rest = dropWhile inline_ascii_whitespace line
      in if rest = [] then Inr arguments
         else (case inline_argument rest [] False False of
             Inl e \<Rightarrow> Inl e
           | Inr (argument, r) \<Rightarrow>
               if length (arguments @ [argument]) > MAX_ARRAY_ELEMENTS
               then Inl (Msg ''ERR inline argument count exceeds configured limit'')
               else parse_inline_arguments_from (arguments @ [argument])
                      (dropWhile inline_ascii_whitespace r)))"
  by pat_completeness auto
termination
proof (relation "measure (\<lambda>(arguments, line). length line)", goal_cases)
  case (2 arguments line rest x2 argument r)
  then have "length r < length rest"
    using inline_argument_consumes [of rest "[]" argument r] hd_dropWhile [of inline_ascii_whitespace line]
    by simp
  then show ?case
    using 2 length_dropWhile_le [of inline_ascii_whitespace r]
      length_dropWhile_le [of inline_ascii_whitespace line] by simp
qed simp

declare parse_inline_arguments_from.simps [simp del]

definition parse_inline_arguments :: "bytes \<Rightarrow> frame_error + bytes list" where
  "parse_inline_arguments line = parse_inline_arguments_from [] line"

definition parse_inline_command :: "bytes \<Rightarrow> frame_error + frame" where
  "parse_inline_command bs =
     (case find_crlf bs of
        None \<Rightarrow> Inl (Msg ''Invalid inline command: missing terminator'')
      | Some end \<Rightarrow>
          (case parse_inline_arguments (take end bs) of
             Inl e \<Rightarrow> Inl e
           | Inr parts \<Rightarrow>
               if parts = [] then Inl (Msg ''Empty inline command'')
               else Inr (Array (map BulkString parts))))"

section \<open>Values\<close>

definition scalar_payload :: "bytes \<Rightarrow> string \<Rightarrow> frame_error + bytes" where
  "scalar_payload bs frame_type =
     (case find_crlf bs of
        None \<Rightarrow> Inl (Msg (''Invalid '' @ frame_type @ '': missing terminator''))
      | Some end \<Rightarrow> Inr (slice_of bs 1 end))"

definition from_utf8 :: "bytes \<Rightarrow> frame_error + string" where
  "from_utf8 bs = (if utf8_valid bs then Inr bs else Inl Utf8_error)"

definition bind_res :: "'e + 'a \<Rightarrow> ('a \<Rightarrow> 'e + 'b) \<Rightarrow> 'e + 'b" where
  "bind_res r f = (case r of Inl e \<Rightarrow> Inl e | Inr a \<Rightarrow> f a)"

definition parse_simple_string :: "bytes \<Rightarrow> frame_error + frame" where
  "parse_simple_string bs =
     bind_res (scalar_payload bs ''simple string'') (\<lambda>p. bind_res (from_utf8 p) (\<lambda>t. Inr (SimpleString t)))"

definition parse_error :: "bytes \<Rightarrow> frame_error + frame" where
  "parse_error bs =
     bind_res (scalar_payload bs ''error'') (\<lambda>p. bind_res (from_utf8 p) (\<lambda>t. Inr (Error t)))"

definition parse_integer :: "bytes \<Rightarrow> frame_error + frame" where
  "parse_integer bs =
     bind_res (scalar_payload bs ''integer'') (\<lambda>p. bind_res (from_utf8 p) (\<lambda>t.
       case parse_protocol_i64 t of None \<Rightarrow> Inl (Msg ''Invalid integer frame'') | Some v \<Rightarrow> Inr (Integer v)))"

definition parse_resp3_double :: "f64_text \<Rightarrow> bytes \<Rightarrow> frame_error + u64" where
  "parse_resp3_double ft bs =
     bind_res (from_utf8 bs) (\<lambda>value.
       if value = ''inf'' \<or> value = ''+inf'' then Inr f64_infinity
       else if value = ''-inf'' then Inr f64_neg_infinity
       else if value = ''nan'' then Inr f64_nan
       else (case f64_parse ft value of
           Some d \<Rightarrow> Inr d | None \<Rightarrow> Inl (Msg ''ERR invalid RESP3 double'')))"

definition parse_resp3_blob :: "bytes \<Rightarrow> bool \<Rightarrow> frame_error + frame \<times> nat" where
  "parse_resp3_blob bs verbatim =
     (case find_crlf bs of
        None \<Rightarrow> Inl (Msg ''ERR incomplete RESP3 blob header'')
      | Some header_end \<Rightarrow>
          bind_res (from_utf8 (slice_of bs 1 header_end)) (\<lambda>len_str.
            case parse_protocol_usize len_str of
              None \<Rightarrow> Inl (Msg ''ERR invalid RESP3 blob length'')
            | Some payload_len \<Rightarrow>
                (let data_start = header_end + 2
                 in case checked_add data_start payload_len of
                      None \<Rightarrow> Inl (Msg ''ERR RESP3 blob length overflow'')
                    | Some data_end \<Rightarrow>
                        (case checked_add data_end 2 of
                           None \<Rightarrow> Inl (Msg ''ERR RESP3 blob length overflow'')
                         | Some frame_end \<Rightarrow>
                             (case get_range bs data_start data_end of
                                None \<Rightarrow> Inl (Msg ''ERR incomplete RESP3 blob'')
                              | Some payload \<Rightarrow>
                                  if verbatim then
                                    (if length payload < 4 \<or> payload ! 3 \<noteq> CHR '':''
                                     then Inl (Msg ''ERR invalid RESP3 verbatim string'')
                                     else Inr (VerbatimString (payload ! 0, payload ! 1, payload ! 2)
                                                 (drop 4 payload), frame_end))
                                  else Inr (BlobError payload, frame_end))))))"

definition parse_bulk_string :: "bytes \<Rightarrow> frame_error + frame" where
  "parse_bulk_string bs =
     (case find_crlf bs of
        None \<Rightarrow> Inl (Msg ''Invalid bulk string: missing length terminator'')
      | Some len_end \<Rightarrow>
          bind_res (from_utf8 (slice_of bs 1 len_end)) (\<lambda>len_str.
            if len_str = ''-1'' then Inr Null
            else (case parse_protocol_usize len_str of
                None \<Rightarrow> Inl (Msg ''Invalid bulk string length'')
              | Some data_len \<Rightarrow>
                  if data_len > MAX_BULK_STRING_BYTES
                  then Inl (Msg ''ERR bulk string length exceeds configured limit'')
                  else (case checked_add len_end 2 of
                      None \<Rightarrow> Inl (Msg ''Bulk string header length overflow'')
                    | Some data_start \<Rightarrow>
                        (case checked_add data_start data_len of
                           None \<Rightarrow> Inl (Msg ''Bulk string data length overflow'')
                         | Some data_end \<Rightarrow>
                             (case checked_add data_end 2 of
                                None \<Rightarrow> Inl (Msg ''Bulk string frame length overflow'')
                              | Some frame_end \<Rightarrow>
                                  if length bs < frame_end then Inl (Msg ''Bulk string incomplete'')
                                  else if bs ! data_end \<noteq> CR \<or> bs ! (data_end + 1) \<noteq> LF
                                  then Inl (Msg ''Invalid bulk string terminator'')
                                  else Inr (BulkString (slice_of bs data_start data_end))))))))"

fun pair_loop :: "frame list \<Rightarrow> frame_error + (frame \<times> frame) list" where
  "pair_loop [] = Inr []"
| "pair_loop [key] = Inl (Msg ''ERR RESP3 map is missing a value'')"
| "pair_loop (key # value # frames) = bind_res (pair_loop frames) (\<lambda>pairs. Inr ((key, value) # pairs))"

definition pair_frames :: "frame list \<Rightarrow> frame_error + (frame \<times> frame) list" where
  "pair_frames frames =
     (if odd (length frames) then Inl (Msg ''ERR RESP3 map has an odd number of elements'')
      else pair_loop frames)"

fun parse_elements ::
  "(bytes \<Rightarrow> frame_error + frame \<times> nat) \<Rightarrow> bytes \<Rightarrow> nat \<Rightarrow> nat \<Rightarrow> frame_error + frame list \<times> nat"
where
  "parse_elements elem bs 0 current_pos = Inr ([], current_pos)"
| "parse_elements elem bs (Suc n) current_pos =
     (if current_pos > length bs then Inl (Msg ''Incomplete aggregate element'')
      else bind_res (elem (drop current_pos bs)) (\<lambda>(f, element_end).
        case checked_add current_pos element_end of
          None \<Rightarrow> Inl (Msg ''Aggregate frame length overflow'')
        | Some pos \<Rightarrow> bind_res (parse_elements elem bs n pos) (\<lambda>(fs, end). Inr (f # fs, end))))"

definition build_aggregate :: "char \<Rightarrow> frame list \<Rightarrow> frame_error + frame" where
  "build_aggregate pfx frames =
     (if pfx = CHR ''*'' then Inr (Array frames)
      else if pfx = CHR ''~'' then Inr (Set frames)
      else if pfx = CHR ''>'' then Inr (Push frames)
      else if pfx = CHR ''%'' then bind_res (pair_frames frames) (\<lambda>entries. Inr (Map entries))
      else if pfx = CHR ''|'' then
        (if frames = [] then Inl (Msg ''RESP3 attribute missing data frame'')
         else bind_res (pair_frames (butlast frames)) (\<lambda>attributes. Inr (Attribute attributes (last frames))))
      else Inl (Msg ''ERR invalid aggregate type''))"

definition parse_aggregate ::
  "(bytes \<Rightarrow> nat \<Rightarrow> frame_error + frame \<times> nat) \<Rightarrow> bytes \<Rightarrow> nat \<Rightarrow> frame_error + frame \<times> nat"
where
  "parse_aggregate elem bs depth =
     (if depth \<ge> MAX_ARRAY_NESTING_DEPTH
      then Inl (Msg ''ERR aggregate nesting exceeds configured limit'')
      else (case find_crlf bs of
          None \<Rightarrow> Inl (Msg ''Invalid aggregate: missing length terminator'')
        | Some header_end \<Rightarrow>
            bind_res (from_utf8 (slice_of bs 1 header_end)) (\<lambda>len_str.
              case checked_add header_end 2 of
                None \<Rightarrow> Inl (Msg ''Aggregate header length overflow'')
              | Some header_len \<Rightarrow>
                  if hd bs = CHR ''*'' \<and> len_str = ''-1'' then Inr (Null, header_len)
                  else (case parse_protocol_usize len_str of
                      None \<Rightarrow> Inl (Msg ''Invalid aggregate length'')
                    | Some logical_len \<Rightarrow>
                        if logical_len > MAX_ARRAY_ELEMENTS
                        then Inl (Msg ''ERR aggregate length exceeds configured limit'')
                        else (case aggregate_element_count (hd bs) logical_len of
                            None \<Rightarrow> Inl (Msg ''Aggregate element count overflow'')
                          | Some total_count \<Rightarrow>
                              if total_count > MAX_FRAME_NODES
                              then Inl (Msg ''ERR aggregate element count exceeds configured limit'')
                              else bind_res
                                (parse_elements (\<lambda>rest. elem rest (depth + 1)) bs total_count header_len)
                                (\<lambda>(frames, current_pos).
                                  bind_res (build_aggregate (hd bs) frames)
                                    (\<lambda>f. Inr (f, current_pos))))))))"

lemma parse_aggregate_cong [fundef_cong]:
  assumes "bs = bs'" "depth = depth'"
    and "\<And>rest. depth' < MAX_ARRAY_NESTING_DEPTH \<Longrightarrow> elem rest (depth' + 1) = elem' rest (depth' + 1)"
  shows "parse_aggregate elem bs depth = parse_aggregate elem' bs' depth'"
proof (cases "depth' < MAX_ARRAY_NESTING_DEPTH")
  case True
  then have eq: "(\<lambda>rest. elem rest (depth' + 1)) = (\<lambda>rest. elem' rest (depth' + 1))"
    using assms(3) by blast
  show ?thesis unfolding parse_aggregate_def assms(1-2) eq ..
next
  case False
  then show ?thesis using assms(1-2) by (simp add: parse_aggregate_def)
qed

definition parse_line_value :: "f64_text \<Rightarrow> bytes \<Rightarrow> nat \<Rightarrow> frame_error + frame" where
  "parse_line_value ft bs frame_end =
     (let b0 = hd bs
      in if b0 = CHR ''+'' then parse_simple_string (take frame_end bs)
         else if b0 = CHR ''-'' then parse_error (take frame_end bs)
         else if b0 = CHR '':'' then parse_integer (take frame_end bs)
         else if b0 = CHR ''_'' then Inr Null
         else if b0 = CHR ''#'' then Inr (Boolean (get_at bs 1 = Some (CHR ''t'')))
         else if b0 = CHR '','' then
           bind_res (parse_resp3_double ft (slice_of bs 1 (frame_end - 2))) (\<lambda>d. Inr (Double d))
         else bind_res (from_utf8 (slice_of bs 1 (frame_end - 2))) (\<lambda>t. Inr (BigNumber t)))"

function parse_validated_frame_prefix ::
  "f64_text \<Rightarrow> bytes \<Rightarrow> nat \<Rightarrow> frame_error + frame \<times> nat"
where
  "parse_validated_frame_prefix ft bs depth =
     (if bs = [] then Inl (Msg ''Empty frame'')
      else if is_line_prefix (hd bs) then
        (case find_crlf bs of
           None \<Rightarrow> Inl (Msg ''ERR incomplete line frame'')
         | Some position \<Rightarrow>
             bind_res (parse_line_value ft bs (position + 2)) (\<lambda>f. Inr (f, position + 2)))
      else if hd bs = CHR ''$'' then
        (case payload_frame_boundary bs True ''bulk string'' of
           Complete frame_end \<Rightarrow>
             bind_res (parse_bulk_string (take frame_end bs)) (\<lambda>f. Inr (f, frame_end))
         | Incomplete \<Rightarrow> Inl (Msg ''ERR incomplete bulk string'')
         | Invalid message \<Rightarrow> Inl (Msg message))
      else if hd bs = CHR ''!'' then parse_resp3_blob bs False
      else if hd bs = CHR ''='' then parse_resp3_blob bs True
      else if is_aggregate_prefix (hd bs)
      then parse_aggregate (\<lambda>rest d. parse_validated_frame_prefix ft rest d) bs depth
      else (case find_crlf bs of
           None \<Rightarrow> Inl (Msg ''ERR incomplete inline frame'')
         | Some position \<Rightarrow>
             bind_res (parse_inline_command (take (position + 2) bs)) (\<lambda>f. Inr (f, position + 2))))"
  by pat_completeness auto
termination
  by (relation "measure (\<lambda>(ft, bs, depth). MAX_ARRAY_NESTING_DEPTH - depth)") auto

declare parse_validated_frame_prefix.simps [simp del]

definition parse_validated_frame :: "f64_text \<Rightarrow> bytes \<Rightarrow> nat \<Rightarrow> frame_error + frame" where
  "parse_validated_frame ft bs depth =
     bind_res (parse_validated_frame_prefix ft bs depth) (\<lambda>(f, consumed).
       if consumed \<noteq> length bs then Inl (Msg ''ERR trailing data after protocol frame'') else Inr f)"

definition parse_from_bytes :: "f64_text \<Rightarrow> bytes \<Rightarrow> frame_error + frame" where
  "parse_from_bytes ft bs =
     (if bs = [] then Inl (Msg ''Empty frame'')
      else (case frame_boundary ft bs True of
          Complete frame_end \<Rightarrow>
            if frame_end = length bs then parse_validated_frame ft bs 0
            else Inl (Msg ''ERR trailing data after protocol frame'')
        | Incomplete \<Rightarrow> Inl (Msg ''ERR incomplete protocol frame'')
        | Invalid message \<Rightarrow> Inl (Msg message)))"

section \<open>A complete frame is a non-empty prefix of the buffer\<close>

lemma prefixed_length_line_header:
  assumes "prefixed_length_line bs = Inr (Some (line_end, line))"
  shows "3 \<le> line_end \<and> line_end \<le> length bs \<and> line_end \<le> MAX_LENGTH_HEADER_BYTES \<and>
         line = slice_of bs 1 (line_end - 2) \<and> utf8_valid line"
proof -
  let ?m = "min (length bs) MAX_LENGTH_HEADER_BYTES"
  obtain i where i: "find_crlf (slice_of bs 1 ?m) = Some i" "line_end = 1 + i + 2"
    "line = slice_of bs 1 (line_end - 2)" "utf8_valid line"
    using assms by (auto simp: prefixed_length_line_def Let_def split: option.splits if_splits)
  then have "i + 2 \<le> ?m - 1" using find_crlf_Some [OF i(1)] by (simp add: slice_of_def)
  then have "line_end \<le> ?m" using i(2) by linarith
  then show ?thesis using i by simp
qed

lemma line_frame_boundary_Complete:
  "line_frame_boundary ft bs = Complete n \<Longrightarrow> \<exists>i. find_crlf bs = Some i \<and> n = i + 2 \<and> n \<le> MAX_FRAME_BYTES"
  by (auto simp: line_frame_boundary_def Let_def split: option.splits if_splits)

lemma inline_frame_boundary_Complete:
  "inline_frame_boundary bs = Complete n \<Longrightarrow> \<exists>i. find_crlf bs = Some i \<and> n = i + 2 \<and> n \<le> MAX_FRAME_BYTES"
  by (auto simp: inline_frame_boundary_def Let_def split: option.splits if_splits)

lemma line_end_bounds:
  assumes "\<exists>i. find_crlf bs = Some i \<and> n = i + 2 \<and> n \<le> MAX_FRAME_BYTES"
  shows "0 < n \<and> n \<le> length bs \<and> n \<le> MAX_FRAME_BYTES"
  using assms find_crlf_Some by auto

lemmas line_frame_bounds = line_frame_boundary_Complete [THEN line_end_bounds]
lemmas inline_frame_bounds = inline_frame_boundary_Complete [THEN line_end_bounds]

lemma payload_frame_boundary_Complete:
  assumes "payload_frame_boundary bs na name = Complete n"
  shows "0 < n \<and> n \<le> length bs \<and> n \<le> MAX_FRAME_BYTES"
  using assms prefixed_length_line_header [of bs]
  by (fastforce simp: payload_frame_boundary_def limit_defs
        split: sum.splits option.splits if_splits bind_splits)

lemma boundary_elements_Complete:
  assumes "boundary_elements elem bs n pos r = (Complete m, r')"
    and "pos \<le> length bs" "pos \<le> MAX_FRAME_BYTES"
    and "\<And>rest q k q'. elem rest q = (Complete k, q') \<Longrightarrow> k \<le> length rest"
  shows "pos \<le> m \<and> m \<le> length bs \<and> m \<le> MAX_FRAME_BYTES"
  using assms(1-3)
proof (induction n arbitrary: pos r)
  case (Suc n)
  then obtain k q where k: "elem (drop pos bs) r = (Complete k, q)" "pos + k \<le> MAX_FRAME_BYTES"
    "boundary_elements elem bs n (pos + k) q = (Complete m, r')"
    by (auto simp: Let_def split: prod.splits boundary_result.splits if_splits)
  have "pos + k \<le> length bs" using assms(4) [OF k(1)] Suc.prems(2) by simp
  then show ?case using Suc.IH [OF k(3)] k(2) by simp
qed simp

lemma aggregate_frame_boundary_cases:
  assumes "aggregate_frame_boundary elem bs depth r pfx = (Complete n, r')"
  obtains (null) "depth < MAX_ARRAY_NESTING_DEPTH" "pfx = CHR ''*''" "r' = r"
      "prefixed_length_line bs = Inr (Some (n, ''-1''))"
  | (elements) line_end line logical_len count where
      "depth < MAX_ARRAY_NESTING_DEPTH" "prefixed_length_line bs = Inr (Some (line_end, line))"
      "\<not> (pfx = CHR ''*'' \<and> line = ''-1'')"
      "parse_protocol_usize line = Some logical_len" "logical_len \<le> MAX_ARRAY_ELEMENTS"
      "aggregate_element_count pfx logical_len = Some count" "count \<le> MAX_FRAME_NODES"
      "boundary_elements (\<lambda>rest. elem rest (depth + 1)) bs count line_end r = (Complete n, r')"
proof -
  have d: "depth < MAX_ARRAY_NESTING_DEPTH"
    using assms by (auto simp: aggregate_frame_boundary_def split: if_splits)
  obtain line_end line where h: "prefixed_length_line bs = Inr (Some (line_end, line))"
    using assms by (auto simp: aggregate_frame_boundary_def split: if_splits sum.splits option.splits)
  show thesis
  proof (cases "pfx = CHR ''*'' \<and> line = ''-1''")
    case True
    then show ?thesis using null assms d h by (simp add: aggregate_frame_boundary_def)
  next
    case False
    then show ?thesis
      using elements [OF d h] assms d h
      unfolding aggregate_frame_boundary_def by (auto split: if_splits option.splits)
  qed
qed

lemma frame_boundary_with_budget_start:
  "frame_boundary_with_budget ft bs lvl depth r = (Complete n, r') \<Longrightarrow> bs \<noteq> [] \<and> 0 < r"
  by (cases "bs = []"; cases "r = 0")
     (simp_all add: frame_boundary_with_budget.simps [of ft bs]
        frame_boundary_with_budget.simps [of ft "[]"] checked_sub_def)

lemma frame_boundary_with_budget_Complete:
  "frame_boundary_with_budget ft bs lvl depth r = (Complete n, r') \<Longrightarrow>
   0 < n \<and> n \<le> length bs \<and> n \<le> MAX_FRAME_BYTES"
proof (induction ft bs lvl depth r arbitrary: n r' rule: frame_boundary_with_budget.induct)
  case (1 ft bs lvl depth r)
  have ne: "bs \<noteq> []" and rem: "r \<noteq> 0"
    using frame_boundary_with_budget_start [OF "1.prems"] by simp_all
  show ?case
  proof (cases "is_aggregate_prefix (hd bs)")
    case True
    let ?elem = "\<lambda>rest d q. frame_boundary_with_budget ft rest False d q"
    have agg: "aggregate_frame_boundary ?elem bs depth (r - 1) (hd bs) = (Complete n, r')"
      using "1.prems" ne rem True by (simp add: frame_boundary_with_budget.simps [of ft bs] checked_sub_def)
    then have dep: "depth < MAX_ARRAY_NESTING_DEPTH"
      by (auto simp: aggregate_frame_boundary_def split: if_splits)
    have IH: "k \<le> length rest" if "?elem rest (depth + 1) q = (Complete k, q')" for rest q k q'
      using "1.IH" [OF ne _ True dep] rem that by (auto simp: checked_sub_def)
    from agg show ?thesis
    proof (cases rule: aggregate_frame_boundary_cases)
      case null
      then show ?thesis using prefixed_length_line_header [OF null(4)] by (simp add: limit_defs)
    next
      case (elements line_end line logical_len count)
      have hh: "3 \<le> line_end" "line_end \<le> length bs" "line_end \<le> MAX_FRAME_BYTES"
        using prefixed_length_line_header [OF elements(2)] by (auto simp: limit_defs)
      have "line_end \<le> n \<and> n \<le> length bs \<and> n \<le> MAX_FRAME_BYTES"
        by (rule boundary_elements_Complete [OF elements(8) hh(2,3)]) (rule IH)
      then show ?thesis using hh(1) by simp
    qed
  next
    case False
    then show ?thesis
      using "1.prems" ne rem
      by (auto simp: frame_boundary_with_budget.simps [of ft bs] checked_sub_def
          dest!: line_frame_bounds payload_frame_boundary_Complete inline_frame_bounds
          split: if_splits)
  qed
qed

lemma frame_boundary_Complete:
  assumes "frame_boundary ft bs lvl = Complete n"
  shows "0 < n" "n \<le> length bs" "n \<le> MAX_FRAME_BYTES"
  using frame_boundary_with_budget_Complete [of ft bs lvl 0 MAX_FRAME_NODES n] assms
  by (metis frame_boundary_def prod.collapse)+

section \<open>Scanning and parsing a buffer\<close>

text \<open>The scanning loops are over the absolute position in the buffer, as in the source.\<close>

function parse_multiple_from :: "f64_text \<Rightarrow> bytes \<Rightarrow> nat \<Rightarrow> frame list \<Rightarrow> frame_error + frame list" where
  "parse_multiple_from ft bs position frames =
     (if position < length bs then
        (if starts_with (drop position bs) CRLF
         then parse_multiple_from ft bs (position + 2) frames
         else (case frame_boundary ft (drop position bs) True of
             Complete frame_end \<Rightarrow>
               (case parse_validated_frame ft (slice_of bs position (position + frame_end)) 0 of
                  Inl e \<Rightarrow> Inl e
                | Inr f \<Rightarrow> parse_multiple_from ft bs (position + frame_end) (frames @ [f]))
           | Incomplete \<Rightarrow> Inr frames
           | Invalid message \<Rightarrow> Inl (Msg message)))
      else Inr frames)"
  by pat_completeness auto
termination
  by (relation "measure (\<lambda>(ft, bs, position, frames). length bs - position)")
     (auto dest!: frame_boundary_Complete(1))

definition parse_multiple_frames :: "f64_text \<Rightarrow> bytes \<Rightarrow> frame_error + frame list" where
  "parse_multiple_frames ft bs = parse_multiple_from ft bs 0 []"

function scan_complete_from :: "f64_text \<Rightarrow> bytes \<Rightarrow> nat \<Rightarrow> frame_scan_result" where
  "scan_complete_from ft bs position =
     (if position < length bs then
        (if starts_with (drop position bs) CRLF then scan_complete_from ft bs (position + 2)
         else (case frame_boundary ft (drop position bs) True of
             Complete frame_end \<Rightarrow> scan_complete_from ft bs (position + frame_end)
           | Incomplete \<Rightarrow> if position > 0 then Scan_Ready position else Scan_Incomplete
           | Invalid message \<Rightarrow> if position > 0 then Scan_Ready position else Scan_Invalid message))
      else if position > 0 then Scan_Ready position else Scan_Incomplete)"
  by pat_completeness auto
termination
  by (relation "measure (\<lambda>(ft, bs, position). length bs - position)")
     (auto dest!: frame_boundary_Complete(1))

definition scan_complete_frames :: "f64_text \<Rightarrow> bytes \<Rightarrow> frame_scan_result" where
  "scan_complete_frames ft bs = scan_complete_from ft bs 0"

definition complete_frames_len :: "f64_text \<Rightarrow> bytes \<Rightarrow> nat" where
  "complete_frames_len ft bs =
     (case scan_complete_frames ft bs of Scan_Ready len \<Rightarrow> len | _ \<Rightarrow> 0)"

function scan_bounded_from ::
  "f64_text \<Rightarrow> bytes \<Rightarrow> nat \<Rightarrow> nat \<Rightarrow> nat \<Rightarrow> nat \<Rightarrow> frame_scan_result + frame_batch_scan"
where
  "scan_bounded_from ft bs max_commands max_bytes position count =
     (if position < length bs then
        (if starts_with (drop position bs) CRLF
         then scan_bounded_from ft bs max_commands max_bytes (position + 2) count
         else if count \<ge> max_commands \<or> (position \<ge> max_bytes \<and> count > 0)
         then Inr \<lparr>complete_len = position, command_count = count, limit_reached = True\<rparr>
         else (case frame_boundary ft (drop position bs) True of
             Complete frame_end \<Rightarrow>
               if count > 0 \<and> saturating_add position frame_end > max_bytes
               then Inr \<lparr>complete_len = position, command_count = count, limit_reached = True\<rparr>
               else scan_bounded_from ft bs max_commands max_bytes (position + frame_end) (count + 1)
           | Incomplete \<Rightarrow>
               if count > 0
               then Inr \<lparr>complete_len = position, command_count = count, limit_reached = False\<rparr>
               else Inl Scan_Incomplete
           | Invalid message \<Rightarrow>
               if count > 0
               then Inr \<lparr>complete_len = position, command_count = count, limit_reached = False\<rparr>
               else Inl (Scan_Invalid message)))
      else if count > 0
      then Inr \<lparr>complete_len = position, command_count = count,
                limit_reached = (count \<ge> max_commands \<or> position \<ge> max_bytes)\<rparr>
      else Inl Scan_Incomplete)"
  by pat_completeness auto
termination
  by (relation "measure (\<lambda>(ft, bs, mc, mb, position, count). length bs - position)")
     (auto dest!: frame_boundary_Complete(1))

definition scan_complete_frames_bounded ::
  "f64_text \<Rightarrow> bytes \<Rightarrow> nat \<Rightarrow> nat \<Rightarrow> frame_scan_result + frame_batch_scan"
where
  "scan_complete_frames_bounded ft bs max_commands max_bytes =
     scan_bounded_from ft bs max_commands max_bytes 0 0"

declare parse_multiple_from.simps [simp del] scan_complete_from.simps [simp del]
  scan_bounded_from.simps [simp del]

end
