(* ===== verification/Resp_Roundtrip.thy ===== *)
theory Resp_Roundtrip
  imports Resp_Parse
begin

text \<open>
  The serialiser and the two passes of the parser agree: a frame within the protocol limits is
  found whole by the boundary scan and parsed back to its canonical form, whatever follows it in
  the buffer. The facts are stated once for all five aggregates through \<open>children\<close>, the frames
  an aggregate encodes one after the other.
\<close>

section \<open>Shape of a frame\<close>

definition flatten_pairs :: "('a \<times> 'a) list \<Rightarrow> 'a list" where
  "flatten_pairs es = concat (map (\<lambda>(k, v). [k, v]) es)"

fun children :: "frame \<Rightarrow> frame list" where
  "children (Array xs) = xs"
| "children (Set xs) = xs"
| "children (Push xs) = xs"
| "children (Map es) = flatten_pairs es"
| "children (Attribute es d) = flatten_pairs es @ [d]"
| "children _ = []"

fun is_aggregate :: "frame \<Rightarrow> bool" where
  "is_aggregate (Array xs) = True"
| "is_aggregate (Set xs) = True"
| "is_aggregate (Push xs) = True"
| "is_aggregate (Map es) = True"
| "is_aggregate (Attribute es d) = True"
| "is_aggregate _ = False"

fun aggregate_prefix :: "frame \<Rightarrow> char" where
  "aggregate_prefix (Set xs) = CHR ''~''"
| "aggregate_prefix (Push xs) = CHR ''>''"
| "aggregate_prefix (Map es) = CHR ''%''"
| "aggregate_prefix (Attribute es d) = CHR ''|''"
| "aggregate_prefix _ = CHR ''*''"

fun aggregate_len :: "frame \<Rightarrow> nat" where
  "aggregate_len (Array xs) = length xs"
| "aggregate_len (Set xs) = length xs"
| "aggregate_len (Push xs) = length xs"
| "aggregate_len (Map es) = length es"
| "aggregate_len (Attribute es d) = length es"
| "aggregate_len _ = 0"

lemma in_flatten_pairs: "x \<in> set (flatten_pairs es) \<longleftrightarrow> (\<exists>k v. (k, v) \<in> set es \<and> (x = k \<or> x = v))"
  by (auto simp: flatten_pairs_def)

lemma flatten_pairs_simps [simp]:
  "flatten_pairs [] = []" "flatten_pairs ((k, v) # es) = k # v # flatten_pairs es"
  by (simp_all add: flatten_pairs_def)

lemma length_flatten_pairs [simp]: "length (flatten_pairs es) = 2 * length es"
  by (induction es) auto

lemma size_flatten_pairs:
  "x \<in> set (flatten_pairs es) \<Longrightarrow> size x < size_list (size_prod size size) es"
  by (induction es) auto

lemma children_size: "c \<in> set (children f) \<Longrightarrow> size c < size f"
proof (cases f)
  case (Attribute es d)
  then show "c \<in> set (children f) \<Longrightarrow> ?thesis" using size_flatten_pairs [of c es] by auto
next
  case (Map es)
  then show "c \<in> set (children f) \<Longrightarrow> ?thesis" using size_flatten_pairs [of c es] by auto
qed (auto dest!: size_list_estimation' [OF _ order_refl, of _ _ size] simp: less_Suc_eq_le)

function frame_nodes :: "frame \<Rightarrow> nat" where
  "frame_nodes f = Suc (sum_list (map frame_nodes (children f)))"
  by pat_completeness auto
termination by (relation "measure size") (auto simp: children_size)

function frame_nesting :: "frame \<Rightarrow> nat" where
  "frame_nesting f =
     (if is_aggregate f then Suc (foldr max (map frame_nesting (children f)) 0) else 0)"
  by pat_completeness auto
termination by (relation "measure size") (auto simp: children_size)

declare frame_nodes.simps [simp del] frame_nesting.simps [simp del]

lemma frame_induct_children [case_names frame]:
  assumes "\<And>f. (\<And>c. c \<in> set (children f) \<Longrightarrow> P c) \<Longrightarrow> P f"
  shows "P f"
  using assms by (induction f rule: measure_induct_rule [of size]) (metis children_size)

lemma foldr_max_ge: "x \<in> set xs \<Longrightarrow> x \<le> foldr max xs (0::nat)"
  by (induction xs) auto

lemma frame_nesting_child:
  "is_aggregate f \<Longrightarrow> c \<in> set (children f) \<Longrightarrow> Suc (frame_nesting c) \<le> frame_nesting f"
  by (subst (2) frame_nesting.simps) (simp add: foldr_max_ge)

lemma aggregate_count_children:
  "is_aggregate f \<Longrightarrow> length (children f) \<le> MAX_FRAME_NODES \<Longrightarrow>
   aggregate_element_count (aggregate_prefix f) (aggregate_len f) = Some (length (children f))"
  by (cases f) (auto simp: aggregate_element_count_def limit_defs Option.bind_eq_Some_conv)

section \<open>Frames that can be sent\<close>

fun leaf_ok :: "f64_text \<Rightarrow> resp_version \<Rightarrow> frame \<Rightarrow> bool" where
  "leaf_ok ft p (Integer i) = i64_range i"
| "leaf_ok ft p (SimpleString s) = (utf8_valid s \<and> CR \<notin> set s \<and> LF \<notin> set s)"
| "leaf_ok ft p (Error s) = (utf8_valid s \<and> CR \<notin> set s \<and> LF \<notin> set s)"
| "leaf_ok ft p (BigNumber s) =
     (p = Resp3 \<and> sign_stripped s \<noteq> [] \<and> list_all is_ascii_digit (sign_stripped s))"
| "leaf_ok ft p (Boolean b) = (p = Resp3)"
| "leaf_ok ft p (Double b) = (p = Resp3)"
| "leaf_ok ft p (BlobError b) = (p = Resp3)"
| "leaf_ok ft p (VerbatimString f d) = (p = Resp3)"
| "leaf_ok ft p (Map es) = (p = Resp3)"
| "leaf_ok ft p (Set xs) = (p = Resp3)"
| "leaf_ok ft p (Attribute es d) = (p = Resp3)"
| "leaf_ok ft p (Push xs) = (p = Resp3)"
| "leaf_ok ft p _ = True"

function wire_ok :: "f64_text \<Rightarrow> resp_version \<Rightarrow> frame \<Rightarrow> bool" where
  "wire_ok ft p f = (leaf_ok ft p f \<and> list_all (wire_ok ft p) (children f))"
  by pat_completeness auto
termination by (relation "measure (\<lambda>(ft, p, f). size f)") (auto simp: children_size)

declare wire_ok.simps [simp del]

text \<open>What the code relies on of the decimal text of a finite double.\<close>

definition is_finite_f64 :: "u64 \<Rightarrow> bool" where
  "is_finite_f64 b \<longleftrightarrow> \<not> f64_is_nan b \<and> b \<noteq> f64_infinity \<and> b \<noteq> f64_neg_infinity"

definition f64_text_ok :: "f64_text \<Rightarrow> bool" where
  "f64_text_ok ft \<longleftrightarrow> (\<forall>b. is_finite_f64 b \<longrightarrow>
     f64_parse ft (f64_show ft b) = Some b \<and>
     (\<forall>c \<in> set (f64_show ft b). is_ascii_digit c \<or> c = CHR ''-'' \<or> c = CHR ''.''))"

fun canonical :: "frame \<Rightarrow> frame" where
  "canonical Ok = SimpleString ''OK''"
| "canonical (Double b) = Double (if f64_is_nan b then f64_nan else b)"
| "canonical (Array xs) = Array (map canonical xs)"
| "canonical (Set xs) = Set (map canonical xs)"
| "canonical (Push xs) = Push (map canonical xs)"
| "canonical (Map es) = Map (map (\<lambda>(k, v). (canonical k, canonical v)) es)"
| "canonical (Attribute es d) = Attribute (map (\<lambda>(k, v). (canonical k, canonical v)) es) (canonical d)"
| "canonical f = f"

lemma concat_flatten_pairs:
  "concat (map (\<lambda>(k, v). g k @ g v) es) = concat (map g (flatten_pairs es))"
  by (induction es) auto

lemma append_frame_aggregate:
  assumes "is_aggregate f" "leaf_ok ft p f"
  shows "append_frame ft p f =
    aggregate_prefix f # show_nat (aggregate_len f) @ CRLF @
    concat (map (append_frame ft p) (children f))"
  using assms by (cases f; cases p) (auto simp: concat_flatten_pairs)

section \<open>Length headers and blobs\<close>

lemma slice_of_Cons_1: "slice_of (c # l) 1 (Suc n) = take n l"
  by (simp add: slice_of_def)

lemma prefixed_length_line_header_ok:
  assumes "CR \<notin> set l" "utf8_valid l" "length l \<le> 17"
  shows "prefixed_length_line (c # l @ CRLF @ rest) = Inr (Some (length l + 3, l))"
proof -
  let ?bs = "c # l @ CRLF @ rest"
  obtain k where k: "min (length ?bs) MAX_LENGTH_HEADER_BYTES = Suc (length l + 2 + k)"
    using assms(3) by (intro that [of "min (length ?bs) MAX_LENGTH_HEADER_BYTES - Suc (length l + 2)"])
       (simp add: limit_defs)
  have "slice_of ?bs 1 (Suc (length l + 2 + k)) = l @ CRLF @ take k rest"
    unfolding slice_of_Cons_1 by (simp add: numeral_2_eq_2)
  then have "find_crlf (slice_of ?bs 1 (min (length ?bs) MAX_LENGTH_HEADER_BYTES)) = Some (length l)"
    unfolding k using find_crlf_line [OF assms(1), of "take k rest"] by simp
  moreover have "slice_of ?bs 1 (1 + length l + 2 - 2) = l"
    by (simp add: slice_of_def)
  ultimately show ?thesis
    using assms(2) by (simp add: prefixed_length_line_def)
qed

lemma show_nat_header:
  assumes "n \<le> MAX_FRAME_BYTES"
  shows "prefixed_length_line (c # show_nat n @ CRLF @ rest) = Inr (Some (length (show_nat n) + 3, show_nat n))"
proof -
  have "length (show_nat n) \<le> 17"
    using assms by (intro length_show_nat) (simp_all add: limit_defs)
  then show ?thesis
    by (intro prefixed_length_line_header_ok) (simp_all add: utf8_valid_digits)
qed

lemma show_nat_not_minus_one [simp]: "show_nat n \<noteq> ''-1''"
  using hd_digits_not_sign(1) [of "show_nat n"] by auto

lemma parse_protocol_usize_show_nat [simp]:
  "n \<le> usize_max \<Longrightarrow> parse_protocol_usize (show_nat n) = Some n"
  by (simp add: parse_protocol_usize_def)

lemma find_crlf_header [simp]:
  "c \<noteq> CR \<Longrightarrow> find_crlf (c # show_nat n @ CRLF @ rest) = Some (Suc (length (show_nat n)))"
  using find_crlf_line [of "c # show_nat n" rest] by simp

lemma header_text [simp]: "slice_of (c # l @ r) 1 (Suc (length l)) = l"
  by (simp add: slice_of_def)

lemma length_append_blob [simp]: "length (append_blob c v) = length (show_nat (length v)) + length v + 5"
  by (simp add: append_blob_def)

lemma append_blob_nonempty [simp]: "append_blob c v \<noteq> []"
  by (simp add: append_blob_def)

lemma payload_boundary_blob:
  assumes "length (append_blob c v) \<le> MAX_FRAME_BYTES"
  shows "payload_frame_boundary (append_blob c v @ rest) na name = Complete (length (append_blob c v))"
proof -
  let ?h = "length (show_nat (length v)) + 3"
  have bs: "append_blob c v @ rest = c # show_nat (length v) @ CRLF @ (v @ CRLF @ rest)"
    by (simp add: append_blob_def)
  have small: "length v \<le> MAX_FRAME_BYTES" using assms by simp
  have "slice_of ((c # show_nat (length v) @ CRLF @ v) @ CRLF @ rest) (?h + length v) (?h + length v + 2) = CRLF"
    using slice_append_left [of "c # show_nat (length v) @ CRLF @ v" "?h + length v" CRLF rest]
    by (simp add: numeral_2_eq_2)
  then have t: "slice_of (append_blob c v @ rest) (?h + length v + 2 - 2) (?h + length v + 2) = CRLF"
    by (simp add: append_blob_def ac_simps)
  have add: "Option.bind (checked_add ?h (length v)) (\<lambda>end. checked_add end 2) = Some (?h + length v + 2)"
    using assms by (simp add: checked_add_def limit_defs)
  have hdr: "prefixed_length_line (append_blob c v @ rest) = Inr (Some (?h, show_nat (length v)))"
    unfolding bs by (rule show_nat_header [OF small])
  show ?thesis
    using small assms t unfolding payload_frame_boundary_def hdr
    by (simp add: add limit_defs)
qed

lemma parse_bulk_string_blob:
  assumes "length (append_blob c v) \<le> MAX_FRAME_BYTES" "c \<noteq> CR"
  shows "parse_bulk_string (append_blob c v) = Inr (BulkString v)"
proof -
  let ?l = "length (show_nat (length v))"
  have bs: "append_blob c v = c # show_nat (length v) @ CRLF @ (v @ CRLF)"
    by (simp add: append_blob_def)
  have f: "find_crlf (append_blob c v) = Some (Suc ?l)"
    unfolding bs using assms(2) by (rule find_crlf_header)
  have d: "slice_of (append_blob c v) (Suc ?l + 2) (Suc ?l + 2 + length v) = v"
    by (simp add: append_blob_def slice_of_def)
  have t: "append_blob c v ! (Suc ?l + 2 + length v) = CR" "append_blob c v ! (Suc ?l + 2 + length v + 1) = LF"
    by (simp_all add: append_blob_def nth_append)
  have h: "slice_of (append_blob c v) 1 (Suc ?l) = show_nat (length v)"
    unfolding bs by (rule header_text)
  show ?thesis
    unfolding parse_bulk_string_def f using assms(1) d t h
    by (simp add: bind_res_def from_utf8_def utf8_valid_digits limit_defs checked_add_def)
qed

lemma parse_blob_ok:
  assumes "length (append_blob c v) \<le> MAX_FRAME_BYTES" "c \<noteq> CR"
  shows "parse_resp3_blob (append_blob c v @ rest) False = Inr (BlobError v, length (append_blob c v))"
    and "v = [f0, f1, f2] @ '':'' @ d \<Longrightarrow>
      parse_resp3_blob (append_blob c v @ rest) True =
        Inr (VerbatimString (f0, f1, f2) d, length (append_blob c v))"
proof -
  let ?l = "length (show_nat (length v))"
  let ?bs = "append_blob c v @ rest"
  have bs: "?bs = c # show_nat (length v) @ CRLF @ (v @ CRLF @ rest)"
    by (simp add: append_blob_def)
  have f: "find_crlf ?bs = Some (Suc ?l)"
    unfolding bs using assms(2) by (rule find_crlf_header)
  have g: "get_range ?bs (Suc ?l + 2) (Suc ?l + 2 + length v) = Some v"
    by (simp add: append_blob_def get_range_def)
  have h: "slice_of ?bs 1 (Suc ?l) = show_nat (length v)"
    unfolding bs by (rule header_text)
  note facts = f g h assms(1)
  show "parse_resp3_blob ?bs False = Inr (BlobError v, length (append_blob c v))"
    unfolding parse_resp3_blob_def f using g h assms(1)
    by (simp add: bind_res_def from_utf8_def utf8_valid_digits limit_defs checked_add_def)
  show "parse_resp3_blob ?bs True = Inr (VerbatimString (f0, f1, f2) d, length (append_blob c v))"
    if "v = [f0, f1, f2] @ '':'' @ d"
    unfolding parse_resp3_blob_def f using g h assms(1) that
    by (simp add: bind_res_def from_utf8_def utf8_valid_digits limit_defs checked_add_def)
qed

section \<open>Line frames\<close>

definition line_payload_ok :: "f64_text \<Rightarrow> char \<Rightarrow> bytes \<Rightarrow> bool" where
  "line_payload_ok ft c l \<longleftrightarrow>
     is_line_prefix c \<and> CR \<notin> set l \<and> LF \<notin> set l \<and> utf8_valid l \<and>
     (c = CHR '':'' \<longrightarrow> parse_protocol_i64 l \<noteq> None) \<and>
     (c = CHR ''#'' \<longrightarrow> l \<in> {''t'', ''f''}) \<and>
     (c = CHR '','' \<longrightarrow> is_double_text ft l) \<and>
     (c = CHR ''('' \<longrightarrow> sign_stripped l \<noteq> [] \<and> list_all is_ascii_digit (sign_stripped l)) \<and>
     (c = CHR ''_'' \<longrightarrow> l = [])"

lemma line_prefix_not_CR [simp]: "is_line_prefix c \<Longrightarrow> c \<noteq> CR"
  by (auto simp: is_line_prefix_def)

lemma find_crlf_line_frame:
  assumes "line_payload_ok ft c l"
  shows "find_crlf (c # l @ CRLF @ rest) = Some (Suc (length l))"
proof -
  have "c \<noteq> CR" "CR \<notin> set l" using assms line_prefix_not_CR [of c] by (simp_all add: line_payload_ok_def)
  then have "CR \<notin> set (c # l)" by (metis set_ConsD)
  from find_crlf_line [OF this, of rest] show ?thesis by simp
qed

lemma line_boundary_ok:
  assumes "line_payload_ok ft c l" "length l + 3 \<le> MAX_FRAME_BYTES"
  shows "line_frame_boundary ft (c # l @ CRLF @ rest) = Complete (length l + 3)"
  using assms header_text [of c l "CRLF @ rest"]
  unfolding line_frame_boundary_def find_crlf_line_frame [OF assms(1)]
  by (auto simp: Let_def line_payload_ok_def)

lemma append_sanitized_line_id:
  "CR \<notin> set v \<Longrightarrow> LF \<notin> set v \<Longrightarrow> append_sanitized_line c v = c # v @ CRLF"
  by (auto simp: append_sanitized_line_def intro!: map_idI)

lemma scalar_payload_line:
  "line_payload_ok ft c l \<Longrightarrow> scalar_payload (c # l @ CRLF) name = Inr l"
  using find_crlf_line_frame [of ft c l "[]"] header_text [of c l CRLF]
  by (simp add: scalar_payload_def)

lemma sign_stripped_show_int: "sign_stripped (show_int i) = show_nat (nat \<bar>i\<bar>)"
proof (cases "i < 0")
  case False
  have "strip_prefix [c] s = None" if "s = [] \<or> hd s \<noteq> c" for c :: char and s
    using that by (cases s) auto
  then show ?thesis
    using False hd_digits_not_sign [of "show_nat (nat i)"] by (simp add: sign_stripped_def show_int_def)
qed (simp add: sign_stripped_def show_int_def)

lemma parse_protocol_i64_show_int [simp]: "i64_range i \<Longrightarrow> parse_protocol_i64 (show_int i) = Some i"
  by (simp add: parse_protocol_i64_def sign_stripped_show_int)

lemma sign_stripped_ascii:
  assumes "list_all is_ascii_digit (sign_stripped l)"
  shows "utf8_valid l \<and> CR \<notin> set l \<and> LF \<notin> set l"
proof -
  have "c \<in> set l \<Longrightarrow> c = CHR ''-'' \<or> c = CHR ''+'' \<or> is_ascii_digit c" for c
    using assms by (cases l) (auto simp: sign_stripped_def list_all_iff split: if_splits option.splits)
  then have "\<forall>c \<in> set l. of_char c < (128::nat) \<and> c \<noteq> CR \<and> c \<noteq> LF"
    using digits_not_special by fastforce
  then show ?thesis using utf8_valid_ascii by blast
qed

lemma f64_text_payload:
  assumes "f64_text_ok ft"
  shows "line_payload_ok ft (CHR '','') (resp3_double ft b)" (is ?A)
    and "parse_resp3_double ft (resp3_double ft b) = Inr (if f64_is_nan b then f64_nan else b)" (is ?B)
proof -
  have "?A \<and> ?B"
  proof (cases "is_finite_f64 b")
    case True
    let ?t = "f64_show ft b"
    have p: "f64_parse ft ?t = Some b"
      and c: "\<forall>c \<in> set ?t. is_ascii_digit c \<or> c = CHR ''-'' \<or> c = CHR ''.''"
      using assms True by (auto simp: f64_text_ok_def)
    have "\<forall>c \<in> set ?t. of_char c < (128::nat) \<and> c \<noteq> CR \<and> c \<noteq> LF \<and> c \<noteq> CHR ''n''"
      using c by (auto simp: is_ascii_digit_iff)
    then have ascii: "utf8_valid ?t" "CR \<notin> set ?t" "LF \<notin> set ?t" "CHR ''n'' \<notin> set ?t"
      using utf8_valid_ascii by blast+
    then have "?t \<noteq> ''inf''" "?t \<noteq> ''+inf''" "?t \<noteq> ''-inf''" "?t \<noteq> ''nan''" by auto
    then show ?thesis using True p ascii
      by (simp add: line_payload_ok_def is_line_prefix_def is_double_text_def resp3_double_def
          is_finite_f64_def parse_resp3_double_def from_utf8_def bind_res_def)
  next
    case False
    then consider "f64_is_nan b" | "\<not> f64_is_nan b" "b = f64_infinity"
      | "\<not> f64_is_nan b" "b = f64_neg_infinity"
      by (auto simp: is_finite_f64_def)
    then show ?thesis
      by cases (auto simp: line_payload_ok_def is_line_prefix_def is_double_text_def resp3_double_def
          parse_resp3_double_def from_utf8_def bind_res_def utf8_valid_ascii_Cons
          f64_infinity_def f64_neg_infinity_def)
  qed
  then show ?A ?B by simp_all
qed

fun is_line_frame :: "resp_version \<Rightarrow> frame \<Rightarrow> bool" where
  "is_line_frame p (BulkString b) = False"
| "is_line_frame p (BlobError b) = False"
| "is_line_frame p (VerbatimString f d) = False"
| "is_line_frame p Null = (p = Resp3)"
| "is_line_frame p f = (\<not> is_aggregate f)"

lemma line_frame_encoding:
  assumes "is_line_frame p f" "leaf_ok ft p f" "f64_text_ok ft"
  obtains c l where "append_frame ft p f = c # l @ CRLF" "line_payload_ok ft c l"
    "\<And>rest. parse_line_value ft (c # l @ CRLF @ rest) (length l + 3) = Inr (canonical f)"
proof -
  have tk: "take (length l + 3) (c # l @ CRLF @ rest) = c # l @ CRLF" for c l and rest :: bytes
    by (simp add: numeral_3_eq_3)
  have sl: "slice_of (c # l @ r) 1 (length l + 3 - 2) = l" for c l and r :: bytes
    by (simp add: slice_of_def)
  note defs = parse_line_value_def parse_simple_string_def parse_error_def parse_integer_def
    bind_res_def from_utf8_def
  show thesis
  proof (cases f)
    case Ok
    have "line_payload_ok ft (CHR ''+'') ''OK''"
      by (simp add: line_payload_ok_def is_line_prefix_def utf8_valid_ascii_Cons)
    moreover from scalar_payload_line [OF this]
    have "parse_line_value ft (CHR ''+'' # ''OK'' @ CRLF @ rest) (length ''OK'' + 3) = Inr (canonical f)" for rest
      unfolding defs tk using Ok by (simp add: utf8_valid_ascii_Cons)
    ultimately show ?thesis using that [of "CHR ''+''" "''OK''"] Ok by simp
  next
    case (Integer i)
    have "line_payload_ok ft (CHR '':'') (show_int i)"
      using assms Integer by (simp add: line_payload_ok_def is_line_prefix_def)
    moreover from scalar_payload_line [OF this]
    have "parse_line_value ft (CHR '':'' # show_int i @ CRLF @ rest) (length (show_int i) + 3) = Inr (canonical f)" for rest
      unfolding defs tk using Integer assms by simp
    ultimately show ?thesis using that Integer by (simp add: append_line_number_def)
  next
    case (SimpleString s)
    have "line_payload_ok ft (CHR ''+'') s"
      using assms SimpleString by (simp add: line_payload_ok_def is_line_prefix_def)
    moreover from scalar_payload_line [OF this]
    have "parse_line_value ft (CHR ''+'' # s @ CRLF @ rest) (length s + 3) = Inr (canonical f)" for rest
      unfolding defs tk using SimpleString assms by simp
    ultimately show ?thesis using that SimpleString assms by (simp add: append_sanitized_line_id)
  next
    case (Error s)
    have "line_payload_ok ft (CHR ''-'') s"
      using assms Error by (simp add: line_payload_ok_def is_line_prefix_def)
    moreover from scalar_payload_line [OF this]
    have "parse_line_value ft (CHR ''-'' # s @ CRLF @ rest) (length s + 3) = Inr (canonical f)" for rest
      unfolding defs tk using Error assms by simp
    ultimately show ?thesis using that Error assms by (simp add: append_sanitized_line_id)
  next
    case Null
    then show ?thesis using that [of "CHR ''_''" "[]"] assms
      by (simp add: line_payload_ok_def is_line_prefix_def parse_line_value_def)
  next
    case (Boolean b)
    then show ?thesis using that [of "CHR ''#''" "if b then ''t'' else ''f''"] assms
      by (simp add: line_payload_ok_def is_line_prefix_def parse_line_value_def get_at_def
          utf8_valid_ascii_Cons split: if_splits)
  next
    case (Double b)
    let ?t = "resp3_double ft b"
    have ok: "line_payload_ok ft (CHR '','') ?t" using f64_text_payload assms by blast
    moreover have "parse_line_value ft (CHR '','' # ?t @ CRLF @ rest) (length ?t + 3) = Inr (canonical f)" for rest
      unfolding parse_line_value_def sl using Double f64_text_payload(2) [OF assms(3)]
      by (simp add: bind_res_def)
    ultimately show ?thesis using that Double assms
      by (simp add: append_sanitized_line_id line_payload_ok_def)
  next
    case (BigNumber s)
    have ok: "line_payload_ok ft (CHR ''('') s"
      using assms BigNumber sign_stripped_ascii [of s] by (simp add: line_payload_ok_def is_line_prefix_def)
    moreover have "parse_line_value ft (CHR ''('' # s @ CRLF @ rest) (length s + 3) = Inr (canonical f)" for rest
      unfolding parse_line_value_def sl using BigNumber ok
      by (simp add: bind_res_def from_utf8_def line_payload_ok_def)
    ultimately show ?thesis using that BigNumber assms
      by (simp add: append_sanitized_line_id line_payload_ok_def)
  qed (use assms in simp_all)
qed

section \<open>The boundary scan finds a sent frame\<close>

lemma append_frame_nonempty [simp]: "append_frame ft p f \<noteq> []"
  by (induction f; cases p)
     (auto simp: append_line_number_def append_blob_def append_sanitized_line_def)

lemma boundary_elements_sent:
  assumes "drop pos bs = concat (map enc fs) @ rest" "pos \<le> length bs"
    and "pos + length (concat (map enc fs)) \<le> MAX_FRAME_BYTES"
    and "sum_list (map weight fs) \<le> r"
    and "\<And>f rest r. f \<in> set fs \<Longrightarrow> weight f \<le> r \<Longrightarrow>
           elem (enc f @ rest) r = (Complete (length (enc f)), r - weight f)"
    and "\<And>f. f \<in> set fs \<Longrightarrow> enc f \<noteq> []"
  shows "boundary_elements elem bs (length fs) pos r =
           (Complete (pos + length (concat (map enc fs))), r - sum_list (map weight fs))"
  using assms
proof (induction fs arbitrary: pos r)
  case (Cons f fs)
  let ?tail = "concat (map enc fs) @ rest"
  have dp: "drop pos bs = enc f @ ?tail" using Cons.prems(1) by simp
  have lt: "pos < length bs" using dp Cons.prems(6) [of f] by (cases "pos < length bs") auto
  have el: "elem (drop pos bs) r = (Complete (length (enc f)), r - weight f)"
    unfolding dp using Cons.prems(4) Cons.prems(5) [of f r ?tail] by simp
  have dp': "drop (pos + length (enc f)) bs = ?tail"
    using dp by (metis add.commute append_eq_conv_conj drop_drop)
  have le': "pos + length (enc f) \<le> length bs"
    using dp Cons.prems(2) by (metis add_leD1 le_add_diff_inverse length_append length_drop nat_add_left_cancel_le le_add1)
  show ?case
    using Cons.IH [OF dp' le'] Cons.prems(3-6) lt el by simp
qed simp

lemma length_children_nodes: "length (children f) < frame_nodes f"
proof -
  have "length xs \<le> sum_list (map frame_nodes xs)" for xs
  proof (induction xs)
    case (Cons x xs)
    then show ?case using frame_nodes.simps [of x] by simp
  qed simp
  then show ?thesis by (subst frame_nodes.simps) (simp add: less_Suc_eq_le)
qed

lemma aggregate_len_le: "is_aggregate f \<Longrightarrow> aggregate_len f \<le> length (children f)"
  by (cases f) auto

lemma concat_map_length_member:
  "x \<in> set xs \<Longrightarrow> length (g x) \<le> length (concat (map g xs))"
  by (induction xs) auto

lemma aggregate_prefix_is [simp]: "is_aggregate_prefix (aggregate_prefix f)"
  by (cases f) (auto simp: is_aggregate_prefix_def)

lemma aggregate_prefix_not_CR [simp]: "aggregate_prefix f \<noteq> CR"
  by (cases f) auto

definition sendable :: "f64_text \<Rightarrow> resp_version \<Rightarrow> nat \<Rightarrow> frame \<Rightarrow> bool" where
  "sendable ft p depth f \<longleftrightarrow>
     wire_ok ft p f \<and> depth + frame_nesting f \<le> MAX_ARRAY_NESTING_DEPTH \<and>
     frame_nodes f \<le> MAX_FRAME_NODES \<and> length (append_frame ft p f) \<le> MAX_FRAME_BYTES"

lemma sendable_leaf_ok: "sendable ft p depth f \<Longrightarrow> leaf_ok ft p f"
  by (simp add: sendable_def wire_ok.simps [of ft p f])

lemma sendable_child:
  assumes "sendable ft p depth f" "is_aggregate f" "c \<in> set (children f)"
  shows "sendable ft p (depth + 1) c"
proof -
  have "wire_ok ft p c"
    using assms by (auto simp: sendable_def wire_ok.simps [of ft p f] list_all_iff)
  moreover have "frame_nodes c \<le> sum_list (map frame_nodes (children f))"
    using assms(3) by (simp add: member_le_sum_list)
  then have "frame_nodes c \<le> frame_nodes f" by (simp add: frame_nodes.simps [of f])
  moreover have "length (append_frame ft p c) \<le> length (append_frame ft p f)"
    using concat_map_length_member [OF assms(3), of "append_frame ft p"]
      append_frame_aggregate [OF assms(2) sendable_leaf_ok [OF assms(1)]] by simp
  ultimately show ?thesis
    using assms frame_nesting_child [OF assms(2,3)] by (auto simp: sendable_def)
qed

lemma sendable_aggregate:
  assumes "sendable ft p depth f" "is_aggregate f"
  shows "depth < MAX_ARRAY_NESTING_DEPTH" "aggregate_len f \<le> MAX_ARRAY_ELEMENTS"
    and "aggregate_element_count (aggregate_prefix f) (aggregate_len f) = Some (length (children f))"
    and "length (children f) \<le> MAX_FRAME_NODES" "aggregate_len f \<le> MAX_FRAME_BYTES"
proof -
  have n: "length (children f) < MAX_FRAME_NODES"
    using assms length_children_nodes [of f] by (simp add: sendable_def)
  show "depth < MAX_ARRAY_NESTING_DEPTH"
    using assms frame_nesting.simps [of f] by (simp add: sendable_def)
  show "aggregate_len f \<le> MAX_ARRAY_ELEMENTS" "aggregate_len f \<le> MAX_FRAME_BYTES"
    using aggregate_len_le [OF assms(2)] n by (simp_all add: limit_defs)
  show "aggregate_element_count (aggregate_prefix f) (aggregate_len f) = Some (length (children f))"
    using aggregate_count_children [OF assms(2)] n by simp
  show "length (children f) \<le> MAX_FRAME_NODES" using n by simp
qed

lemma sent_frame_boundary:
  assumes "f64_text_ok ft"
  shows "sendable ft p depth f \<Longrightarrow> frame_nodes f \<le> r \<Longrightarrow>
    frame_boundary_with_budget ft (append_frame ft p f @ rest) lvl depth r =
      (Complete (length (append_frame ft p f)), r - frame_nodes f)"
proof (induction f arbitrary: depth r rest lvl rule: frame_induct_children)
  case (frame f)
  have r: "0 < r" using frame.prems(2) frame_nodes.simps [of f] by simp
  have leaf: "leaf_ok ft p f" by (rule sendable_leaf_ok [OF frame.prems(1)])
  have small: "length (append_frame ft p f) \<le> MAX_FRAME_BYTES"
    using frame.prems(1) by (simp add: sendable_def)
  note step = frame_boundary_with_budget.simps [of ft "append_frame ft p f @ rest" lvl depth r]
  show ?case
  proof (cases "is_aggregate f")
    case True
    let ?enc = "append_frame ft p" and ?h = "length (show_nat (aggregate_len f)) + 3"
    note ok = sendable_aggregate [OF frame.prems(1) True]
    note enc = append_frame_aggregate [OF True leaf]
    let ?bs = "append_frame ft p f @ rest"
    have bs: "?bs = aggregate_prefix f # show_nat (aggregate_len f) @ CRLF @ (concat (map ?enc (children f)) @ rest)"
      using enc by simp
    have hdr: "prefixed_length_line ?bs = Inr (Some (?h, show_nat (aggregate_len f)))"
      unfolding bs by (rule show_nat_header [OF ok(5)])
    have total: "length (append_frame ft p f) = ?h + length (concat (map ?enc (children f)))"
      by (simp only: enc) simp
    have sum: "sum_list (map frame_nodes (children f)) \<le> r - 1"
      using frame.prems(2) frame_nodes.simps [of f] by simp
    have loop: "boundary_elements (\<lambda>rest. frame_boundary_with_budget ft rest False (depth + 1)) ?bs
        (length (children f)) ?h (r - 1) =
        (Complete (?h + length (concat (map ?enc (children f)))),
         r - 1 - sum_list (map frame_nodes (children f)))"
    proof (rule boundary_elements_sent)
      show "drop ?h ?bs = concat (map ?enc (children f)) @ rest"
        unfolding bs by (simp add: numeral_3_eq_3)
      show "?h \<le> length ?bs" unfolding bs by simp
      show "?h + length (concat (map ?enc (children f))) \<le> MAX_FRAME_BYTES"
        using small total by simp
      show "sum_list (map frame_nodes (children f)) \<le> r - 1" by (rule sum)
      show "frame_boundary_with_budget ft (?enc c @ rest') False (depth + 1) q =
          (Complete (length (?enc c)), q - frame_nodes c)"
        if "c \<in> set (children f)" "frame_nodes c \<le> q" for c rest' q
        using frame.IH [OF that(1) sendable_child [OF frame.prems(1) True that(1)] that(2)] .
    qed simp
    have "aggregate_frame_boundary (\<lambda>rest. frame_boundary_with_budget ft rest False) ?bs depth (r - 1) (aggregate_prefix f)
        = (Complete (length (append_frame ft p f)), r - 1 - sum_list (map frame_nodes (children f)))"
      unfolding aggregate_frame_boundary_def hdr using ok loop total
      by (simp add: limit_defs)
    moreover have "hd ?bs = aggregate_prefix f" unfolding bs by simp
    ultimately show ?thesis
      using r by (simp add: step checked_sub_def frame_nodes.simps [of f])
  next
    case False
    then have nodes: "frame_nodes f = 1" by (cases f) (simp_all add: frame_nodes.simps)
    show ?thesis
    proof (cases "is_line_frame p f")
      case True
      from line_frame_encoding [OF True leaf assms] obtain c l where
        cl: "append_frame ft p f = c # l @ CRLF" "line_payload_ok ft c l" by metis
      have "line_frame_boundary ft (append_frame ft p f @ rest) = Complete (length (append_frame ft p f))"
        using line_boundary_ok [OF cl(2), of rest] small cl(1) by simp
      moreover have "is_line_prefix c" "\<not> is_aggregate_prefix c"
        using cl(2) by (auto simp: line_payload_ok_def is_line_prefix_def is_aggregate_prefix_def)
      ultimately show ?thesis using r nodes unfolding step unfolding cl(1) by (simp add: checked_sub_def)
    next
      case blob: False
      show ?thesis
      proof (cases "f = Null")
        case True
        have "prefixed_length_line (''$-1'' @ CRLF @ rest) = Inr (Some (length ''-1'' + 3, ''-1''))"
          using prefixed_length_line_header_ok [of "''-1''" "CHR ''$''" rest]
          by (simp add: utf8_valid_ascii_Cons)
        moreover have "append_frame ft p f = ''$-1'' @ CRLF" using True blob by (cases p) simp_all
        ultimately show ?thesis using True r nodes unfolding step
          by (simp add: checked_sub_def is_aggregate_prefix_def is_line_prefix_def
              payload_frame_boundary_def)
      next
        case notnull: False
        obtain c v where cv: "append_frame ft p f = append_blob c v" "c \<in> {CHR ''$'', CHR ''!'', CHR ''=''}"
          using False blob notnull leaf by (cases f; cases p) auto
        have "hd (append_frame ft p f @ rest) = c" by (simp add: cv(1) append_blob_def)
        then show ?thesis
          using cv r nodes payload_boundary_blob [of c v rest] small unfolding step
          by (auto simp: checked_sub_def is_aggregate_prefix_def is_line_prefix_def)
      qed
    qed
  qed
qed

section \<open>The parser rebuilds a sent frame\<close>

lemma pair_frames_flatten: "pair_frames (flatten_pairs es) = Inr es"
proof -
  have "pair_loop (flatten_pairs es) = Inr es"
    by (induction es) (auto simp: bind_res_def)
  then show ?thesis by (simp add: pair_frames_def)
qed

lemma map_flatten_pairs:
  "map g (flatten_pairs es) = flatten_pairs (map (\<lambda>(k, v). (g k, g v)) es)"
  by (induction es) auto

lemma build_aggregate_canonical:
  "is_aggregate f \<Longrightarrow>
   build_aggregate (aggregate_prefix f) (map canonical (children f)) = Inr (canonical f)"
  by (cases f) (auto simp: build_aggregate_def map_flatten_pairs pair_frames_flatten bind_res_def
      case_prod_unfold)

lemma parse_elements_sent:
  assumes "drop pos bs = concat (map enc fs) @ rest" "pos \<le> length bs"
    and "pos + length (concat (map enc fs)) \<le> MAX_FRAME_BYTES"
    and "\<And>f rest. f \<in> set fs \<Longrightarrow> elem (enc f @ rest) = Inr (g f, length (enc f))"
  shows "parse_elements elem bs (length fs) pos = Inr (map g fs, pos + length (concat (map enc fs)))"
  using assms
proof (induction fs arbitrary: pos)
  case (Cons f fs)
  let ?tail = "concat (map enc fs) @ rest"
  have dp: "drop pos bs = enc f @ ?tail" using Cons.prems(1) by simp
  have el: "elem (drop pos bs) = Inr (g f, length (enc f))"
    unfolding dp using Cons.prems(4) [of f ?tail] by simp
  have dp': "drop (pos + length (enc f)) bs = ?tail"
    using dp by (metis add.commute append_eq_conv_conj drop_drop)
  have le': "pos + length (enc f) \<le> length bs"
    using dp Cons.prems(2) by (metis add_leD1 le_add_diff_inverse length_append length_drop nat_add_left_cancel_le le_add1)
  show ?case
    using Cons.IH [OF dp' le'] Cons.prems(2-4) el
    by (simp add: bind_res_def checked_add_def limit_defs)
qed simp

lemma sent_frame_parse:
  assumes "f64_text_ok ft"
  shows "sendable ft p depth f \<Longrightarrow>
    parse_validated_frame_prefix ft (append_frame ft p f @ rest) depth =
      Inr (canonical f, length (append_frame ft p f))"
proof (induction f arbitrary: depth rest rule: frame_induct_children)
  case (frame f)
  have leaf: "leaf_ok ft p f" by (rule sendable_leaf_ok [OF frame.prems(1)])
  have small: "length (append_frame ft p f) \<le> MAX_FRAME_BYTES"
    using frame.prems(1) by (simp add: sendable_def)
  note step = parse_validated_frame_prefix.simps [of ft "append_frame ft p f @ rest" depth]
  show ?case
  proof (cases "is_aggregate f")
    case True
    let ?enc = "append_frame ft p" and ?h = "length (show_nat (aggregate_len f)) + 3"
    note ok = sendable_aggregate [OF frame.prems(1) True]
    note enc = append_frame_aggregate [OF True leaf]
    let ?bs = "append_frame ft p f @ rest"
    have bs: "?bs = aggregate_prefix f # show_nat (aggregate_len f) @ CRLF @ (concat (map ?enc (children f)) @ rest)"
      using enc by simp
    have crlf: "find_crlf ?bs = Some (Suc (length (show_nat (aggregate_len f))))"
      unfolding bs by (rule find_crlf_header) simp
    have len_text: "slice_of ?bs 1 (Suc (length (show_nat (aggregate_len f)))) = show_nat (aggregate_len f)"
      unfolding bs by (rule header_text)
    have total: "length (append_frame ft p f) = ?h + length (concat (map ?enc (children f)))"
      by (simp only: enc) simp
    have loop: "parse_elements (\<lambda>rest. parse_validated_frame_prefix ft rest (depth + 1)) ?bs
        (length (children f)) ?h = Inr (map canonical (children f), ?h + length (concat (map ?enc (children f))))"
    proof (rule parse_elements_sent)
      show "drop ?h ?bs = concat (map ?enc (children f)) @ rest"
        unfolding bs by (simp add: numeral_3_eq_3)
      show "?h \<le> length ?bs" unfolding bs by simp
      show "?h + length (concat (map ?enc (children f))) \<le> MAX_FRAME_BYTES"
        using small total by simp
      show "parse_validated_frame_prefix ft (?enc c @ rest') (depth + 1) = Inr (canonical c, length (?enc c))"
        if "c \<in> set (children f)" for c rest'
        using frame.IH [OF that sendable_child [OF frame.prems(1) True that]] .
    qed
    have h: "hd ?bs = aggregate_prefix f" unfolding bs by simp
    have add: "checked_add (Suc (length (show_nat (aggregate_len f)))) 2 = Some ?h"
      using small total by (simp add: limit_defs)
    have "parse_aggregate (\<lambda>rest. parse_validated_frame_prefix ft rest) ?bs depth
        = Inr (canonical f, length (append_frame ft p f))"
      unfolding parse_aggregate_def crlf using ok loop total len_text h build_aggregate_canonical [OF True]
      by (simp add: add bind_res_def from_utf8_def utf8_valid_digits limit_defs)
    moreover have "\<not> is_line_prefix (aggregate_prefix f)" "aggregate_prefix f \<notin> {CHR ''$'', CHR ''!'', CHR ''=''}"
      by (cases f; simp add: is_line_prefix_def)+
    ultimately show ?thesis unfolding step using h by simp
  next
    case False
    show ?thesis
    proof (cases "is_line_frame p f")
      case True
      from line_frame_encoding [OF True leaf assms] obtain c l where
        cl: "append_frame ft p f = c # l @ CRLF" "line_payload_ok ft c l" and
        v: "\<And>rest. parse_line_value ft (c # l @ CRLF @ rest) (length l + 3) = Inr (canonical f)" by metis
      have "is_line_prefix c" using cl(2) by (simp add: line_payload_ok_def)
      then show ?thesis
        using find_crlf_line_frame [OF cl(2), of rest] v [of rest] unfolding step unfolding cl(1)
        by (simp add: bind_res_def numeral_3_eq_3)
    next
      case blob: False
      show ?thesis
      proof (cases "f = Null")
        case True
        have "prefixed_length_line (''$-1'' @ CRLF @ rest) = Inr (Some (length ''-1'' + 3, ''-1''))"
          using prefixed_length_line_header_ok [of "''-1''" "CHR ''$''" rest]
          by (simp add: utf8_valid_ascii_Cons)
        moreover have "append_frame ft p f = ''$-1'' @ CRLF" using True blob by (cases p) simp_all
        ultimately show ?thesis using True unfolding step
          by (simp add: is_line_prefix_def payload_frame_boundary_def parse_bulk_string_def
              bind_res_def from_utf8_def slice_of_def utf8_valid_ascii_Cons)
      next
        case notnull: False
        consider (bulk) v where "f = BulkString v" | (err) v where "f = BlobError v" "p = Resp3"
          | (verb) f0 f1 f2 d where "f = VerbatimString (f0, f1, f2) d" "p = Resp3"
          using False blob notnull leaf by (cases f; cases p) auto
        then show ?thesis
        proof cases
          case bulk
          then have "append_frame ft p f = append_blob (CHR ''$'') v" by simp
          moreover have "hd (append_blob (CHR ''$'') v @ rest) = CHR ''$''" by (simp add: append_blob_def)
          ultimately show ?thesis
            using bulk small payload_boundary_blob [of "CHR ''$''" v rest]
              parse_bulk_string_blob [of "CHR ''$''" v] unfolding step
            by (simp add: is_line_prefix_def bind_res_def)
        next
          case err
          then have "append_frame ft p f = append_blob (CHR ''!'') v" by simp
          moreover have "hd (append_blob (CHR ''!'') v @ rest) = CHR ''!''" by (simp add: append_blob_def)
          ultimately show ?thesis
            using err small parse_blob_ok(1) [of "CHR ''!''" v rest] unfolding step
            by (simp add: is_line_prefix_def)
        next
          case verb
          let ?v = "[f0, f1, f2] @ '':'' @ d"
          have "append_frame ft p f = append_blob (CHR ''='') ?v" using verb by simp
          moreover have "hd (append_blob (CHR ''='') ?v @ rest) = CHR ''=''" by (simp add: append_blob_def)
          ultimately show ?thesis
            using verb small parse_blob_ok(2) [of "CHR ''=''" ?v f0 f1 f2 d rest] unfolding step
            by (simp add: is_line_prefix_def)
        qed
      qed
    qed
  qed
qed

section \<open>Whole requests and pipelines\<close>

lemma append_frame_not_CRLF: "\<not> starts_with (append_frame ft p f @ rest) CRLF"
proof -
  have "hd (append_frame ft p f) \<noteq> CR"
    by (induction f; cases p)
       (auto simp: append_line_number_def append_blob_def append_sanitized_line_def)
  then show ?thesis by (cases "append_frame ft p f") (auto simp: starts_with_iff)
qed

lemma sent_top_level:
  assumes "f64_text_ok ft" "sendable ft p 0 f"
  shows "frame_boundary ft (append_frame ft p f @ rest) True = Complete (length (append_frame ft p f))"
    and "parse_validated_frame ft (append_frame ft p f) 0 = Inr (canonical f)"
proof -
  show "frame_boundary ft (append_frame ft p f @ rest) True = Complete (length (append_frame ft p f))"
    using sent_frame_boundary [OF assms, of MAX_FRAME_NODES rest True] assms(2)
    by (simp add: frame_boundary_def sendable_def)
  show "parse_validated_frame ft (append_frame ft p f) 0 = Inr (canonical f)"
    using sent_frame_parse [OF assms, of "[]"] by (simp add: parse_validated_frame_def bind_res_def)
qed

lemma drop_append_exact: "drop pos bs = xs @ ys \<Longrightarrow> drop (pos + length xs) bs = ys"
  by (metis add.commute append_eq_conv_conj drop_drop)

lemma parse_multiple_sent:
  assumes "f64_text_ok ft" "frame_boundary ft tail True = Incomplete" "\<not> starts_with tail CRLF"
  shows "\<forall>f \<in> set fs. sendable ft p 0 f \<Longrightarrow>
    drop pos bs = concat (map (append_frame ft p) fs) @ tail \<Longrightarrow>
    parse_multiple_from ft bs pos acc = Inr (acc @ map canonical fs)"
proof (induction fs arbitrary: pos acc)
  case Nil
  then show ?case using assms(2,3) by (subst parse_multiple_from.simps) (auto simp: starts_with_iff)
next
  case (Cons f fs)
  let ?e = "append_frame ft p f" and ?rest = "concat (map (append_frame ft p) fs) @ tail"
  have dp: "drop pos bs = ?e @ ?rest" using Cons.prems(2) by simp
  have lt: "pos < length bs" using dp by (cases "pos < length bs") auto
  have sl: "slice_of bs pos (pos + length ?e) = ?e" using dp by (simp add: slice_of_def)
  note top = sent_top_level [OF assms(1), of p f]
  show ?case
    using Cons.IH [OF _ drop_append_exact [OF dp]] Cons.prems(1) lt sl
      top(1) [of ?rest] top(2) append_frame_not_CRLF [of ft p f ?rest]
    by (subst parse_multiple_from.simps) (simp add: dp)
qed

lemma scan_sent:
  assumes "f64_text_ok ft" "frame_boundary ft tail True = Incomplete" "\<not> starts_with tail CRLF"
  shows "\<forall>f \<in> set fs. sendable ft p 0 f \<Longrightarrow>
    drop pos bs = concat (map (append_frame ft p) fs) @ tail \<Longrightarrow> pos \<le> length bs \<Longrightarrow>
    scan_complete_from ft bs pos =
      (if pos + length (concat (map (append_frame ft p) fs)) > 0
       then Scan_Ready (pos + length (concat (map (append_frame ft p) fs))) else Scan_Incomplete)"
proof (induction fs arbitrary: pos)
  case Nil
  then show ?case using assms(2,3) by (subst scan_complete_from.simps) (auto simp: starts_with_iff)
next
  case (Cons f fs)
  let ?e = "append_frame ft p f" and ?rest = "concat (map (append_frame ft p) fs) @ tail"
  have dp: "drop pos bs = ?e @ ?rest" using Cons.prems(2) by simp
  have lt: "pos < length bs" using dp by (cases "pos < length bs") auto
  have "pos + length ?e \<le> length bs"
    using dp Cons.prems(3) by (metis add_leD1 le_add_diff_inverse length_append length_drop nat_add_left_cancel_le le_add1)
  then show ?case
    using Cons.IH [OF _ drop_append_exact [OF dp]] Cons.prems(1) lt
      sent_top_level(1) [OF assms(1), of p f ?rest] append_frame_not_CRLF [of ft p f ?rest]
    by (subst scan_complete_from.simps) (simp add: dp)
qed

end
