(* ===== verification/Resp_Stream.thy ===== *)
theory Resp_Stream
  imports Resp_Roundtrip
begin

text \<open>
  Reading requests from a byte stream. The boundary of a frame depends on the bytes of that frame
  only, so it does not matter how the network cut the stream into reads; what the boundary scan
  accepts, the parser consumes up to the same position, or rejects for a reason the scan does not
  look at (\<open>late_error\<close>); the scans advance by whole frames and respect their limits.
\<close>

section \<open>The boundary of a frame depends on its own bytes\<close>

lemma slice_of_take_append:
  "b \<le> n \<Longrightarrow> n \<le> length bs \<Longrightarrow> slice_of (take n bs @ x) a b = slice_of bs a b"
  by (auto simp: slice_of_def drop_take min_def)

lemma hd_take_append: "0 < n \<Longrightarrow> n \<le> length bs \<Longrightarrow> hd (take n bs @ x) = hd bs"
  by (cases bs) auto

lemma find_crlf_take_append:
  assumes "find_crlf bs = Some i" "i + 2 \<le> n"
  shows "find_crlf (take n bs @ x) = Some i"
proof -
  have "find_crlf (take (i + 2) bs) = Some i" using find_crlf_Some [OF assms(1)] by blast
  then have "find_crlf (take (i + 2) bs @ drop (i + 2) (take n bs) @ x) = Some i"
    by (rule find_crlf_append_stable)
  moreover have "take (i + 2) bs @ drop (i + 2) (take n bs) = take n bs"
    using append_take_drop_id [of "i + 2" "take n bs"] assms(2) by (simp add: min_def)
  ultimately show ?thesis by (metis append_assoc)
qed

lemma prefixed_length_line_find:
  assumes "prefixed_length_line bs = Inr (Some (line_end, line))" "hd bs \<noteq> CR"
  shows "find_crlf bs = Some (line_end - 2)" "line = slice_of bs 1 (line_end - 2)"
proof -
  let ?m = "min (length bs) MAX_LENGTH_HEADER_BYTES"
  obtain i where i: "find_crlf (slice_of bs 1 ?m) = Some i" "line_end = 1 + i + 2"
    using assms by (auto simp: prefixed_length_line_def Let_def split: option.splits if_splits)
  have ne: "bs \<noteq> []" using prefixed_length_line_header [OF assms(1)] by auto
  have "drop 1 bs = slice_of bs 1 ?m @ drop (?m - 1) (drop 1 bs)"
    unfolding slice_of_def by (simp only: append_take_drop_id)
  then have "find_crlf (drop 1 bs) = Some i"
    using find_crlf_append_stable [OF i(1)] by metis
  then have "find_crlf (hd bs # drop 1 bs) = Some (Suc i)"
    using assms(2) by (cases "drop 1 bs") auto
  then show "find_crlf bs = Some (line_end - 2)" using ne i(2) by (cases bs) auto
  show "line = slice_of bs 1 (line_end - 2)" using prefixed_length_line_header [OF assms(1)] by simp
qed

lemma prefixed_length_line_local:
  assumes "prefixed_length_line bs = Inr (Some (line_end, line))" "line_end \<le> n" "n \<le> length bs"
  shows "prefixed_length_line (take n bs @ x) = Inr (Some (line_end, line))"
proof -
  let ?m = "min (length bs) MAX_LENGTH_HEADER_BYTES"
  let ?bs = "take n bs @ x" and ?m' = "min (length (take n bs @ x)) MAX_LENGTH_HEADER_BYTES"
  obtain i where i: "find_crlf (slice_of bs 1 ?m) = Some i" "line_end = 1 + i + 2"
    using assms by (auto simp: prefixed_length_line_def Let_def split: option.splits if_splits)
  note h = prefixed_length_line_header [OF assms(1)]
  have m': "i + 3 \<le> ?m'" "i + 3 \<le> ?m" using h i(2) assms by simp_all
  have pre: "take (i + 2) (slice_of ys 1 k) = slice_of ys 1 (i + 3)" if "i + 3 \<le> k"
    for k and ys :: bytes
    using that by (simp add: slice_of_def min_def)
  have "slice_of ?bs 1 (i + 3) = slice_of bs 1 (i + 3)"
    using slice_of_take_append [of "i + 3" n bs x 1] assms(2,3) i(2) by simp
  then have "find_crlf (take (i + 2) (slice_of ?bs 1 ?m')) = Some i"
    using find_crlf_Some [OF i(1)] pre [OF m'(1)] pre [OF m'(2)] by metis
  from find_crlf_append_stable [OF this, of "drop (i + 2) (slice_of ?bs 1 ?m')"]
  have "find_crlf (slice_of ?bs 1 ?m') = Some i" by simp
  moreover have "slice_of ?bs 1 (1 + i + 2 - 2) = line"
    using slice_of_take_append [of "line_end - 2" n bs x 1] assms h i(2) by simp
  ultimately show ?thesis using h i(2) by (auto simp: prefixed_length_line_def Let_def)
qed

lemma line_frame_boundary_local:
  assumes "line_frame_boundary ft bs = Complete n"
  shows "line_frame_boundary ft (take n bs @ x) = Complete n"
proof -
  obtain i where i: "find_crlf bs = Some i" "n = i + 2" using line_frame_boundary_Complete [OF assms] by auto
  have n: "n \<le> length bs" using line_frame_bounds [OF assms] by simp
  have f: "find_crlf (take n bs @ x) = Some i" using find_crlf_take_append [OF i(1)] i(2) by simp
  have sl: "slice_of (take n bs @ x) 1 (i + 2 - 2) = slice_of bs 1 (i + 2 - 2)"
    using n i(2) by (intro slice_of_take_append) simp_all
  have h: "hd (take n bs @ x) = hd bs" using n i(2) by (intro hd_take_append) simp_all
  have "line_frame_boundary ft (take n bs @ x) = line_frame_boundary ft bs"
    unfolding line_frame_boundary_def f i(1) option.case Let_def sl h ..
  then show ?thesis using assms by simp
qed

lemma inline_frame_boundary_local:
  assumes "inline_frame_boundary bs = Complete n"
  shows "inline_frame_boundary (take n bs @ x) = Complete n"
proof -
  obtain i where i: "find_crlf bs = Some i" "n = i + 2" using inline_frame_boundary_Complete [OF assms] by auto
  have n: "n \<le> length bs" using inline_frame_bounds [OF assms] by simp
  have f: "find_crlf (take n bs @ x) = Some i" using find_crlf_take_append [OF i(1)] i(2) by simp
  have tk: "take (i + 2 - 2) (take n bs @ x) = take (i + 2 - 2) bs" using n i(2) by simp
  have "inline_frame_boundary (take n bs @ x) = inline_frame_boundary bs"
    unfolding inline_frame_boundary_def f i(1) option.case Let_def tk ..
  then show ?thesis using assms by simp
qed

lemma payload_frame_boundary_cases:
  assumes "payload_frame_boundary bs na name = Complete n"
  obtains (null) "na" "prefixed_length_line bs = Inr (Some (n, ''-1''))"
  | (blob) line_end line len where "prefixed_length_line bs = Inr (Some (line_end, line))"
      "\<not> (na \<and> line = ''-1'')" "parse_protocol_usize line = Some len" "len \<le> MAX_BULK_STRING_BYTES"
      "n = line_end + len + 2" "n \<le> MAX_FRAME_BYTES" "n \<le> length bs" "slice_of bs (n - 2) n = CRLF"
proof -
  obtain line_end line where h: "prefixed_length_line bs = Inr (Some (line_end, line))"
    using assms by (auto simp: payload_frame_boundary_def split: sum.splits option.splits)
  show thesis
  proof (cases "na \<and> line = ''-1''")
    case True
    then show ?thesis using null assms h by (simp add: payload_frame_boundary_def)
  next
    case False
    then show ?thesis
      using blob [OF h False] assms h unfolding payload_frame_boundary_def
      by (auto split: option.splits if_splits bind_splits)
  qed
qed

lemma payload_frame_boundary_local:
  assumes "payload_frame_boundary bs na name = Complete n"
  shows "payload_frame_boundary (take n bs @ x) na name = Complete n"
  using assms
proof (cases rule: payload_frame_boundary_cases)
  case null
  then have "n \<le> length bs" using prefixed_length_line_header [OF null(2)] by simp
  then have "prefixed_length_line (take n bs @ x) = Inr (Some (n, ''-1''))"
    using prefixed_length_line_local [OF null(2)] by simp
  then show ?thesis using null(1) by (simp add: payload_frame_boundary_def)
next
  case (blob line_end line len)
  have h: "prefixed_length_line (take n bs @ x) = Inr (Some (line_end, line))"
    using prefixed_length_line_local [OF blob(1)] blob(5,7) by simp
  have "slice_of (take n bs @ x) (n - 2) n = CRLF"
    using slice_of_take_append [of n n bs x "n - 2"] blob(7,8) by simp
  moreover have "n \<le> usize_max" using blob(6) by (simp add: limit_defs)
  ultimately show ?thesis
    using blob h unfolding payload_frame_boundary_def
    by (auto simp: checked_add_def)
qed

lemma boundary_elements_local:
  assumes "boundary_elements elem bs c pos r = (Complete m, r')" "pos \<le> length bs" "pos \<le> MAX_FRAME_BYTES"
    and bound: "\<And>rest q k q'. elem rest q = (Complete k, q') \<Longrightarrow> k \<le> length rest"
    and loc: "\<And>rest q k q' y. elem rest q = (Complete k, q') \<Longrightarrow> elem (take k rest @ y) q = (Complete k, q')"
    and pos: "\<And>rest q k q'. elem rest q = (Complete k, q') \<Longrightarrow> 0 < k"
  shows "boundary_elements elem (take m bs @ x) c pos r = (Complete m, r')"
  using assms(1-3)
proof (induction c arbitrary: pos r)
  case (Suc c)
  then obtain k q where k: "elem (drop pos bs) r = (Complete k, q)" "pos + k \<le> MAX_FRAME_BYTES"
    "boundary_elements elem bs c (pos + k) q = (Complete m, r')"
    by (auto simp: Let_def split: prod.splits boundary_result.splits if_splits)
  have pk: "pos + k \<le> length bs" using bound [OF k(1)] Suc.prems(2) by simp
  have m: "pos + k \<le> m" "m \<le> length bs"
    using boundary_elements_Complete [OF k(3) pk k(2) bound] by auto
  let ?y = "drop k (take (m - pos) (drop pos bs)) @ x"
  have "drop pos (take m bs @ x) = take k (drop pos bs) @ ?y"
  proof -
    have "drop pos (take m bs @ x) = take (m - pos) (drop pos bs) @ x"
      using m by (simp add: drop_take)
    also have "take (m - pos) (drop pos bs) = take k (drop pos bs) @ drop k (take (m - pos) (drop pos bs))"
    proof -
      have "min k (m - pos) = k" using m(1) by simp
      then show ?thesis using append_take_drop_id [of k "take (m - pos) (drop pos bs)"] by simp
    qed
    finally show ?thesis by simp
  qed
  then have "elem (drop pos (take m bs @ x)) r = (Complete k, q)" using loc [OF k(1), of ?y] by simp
  moreover have "pos < m" using pos [OF k(1)] m(1) by simp
  ultimately show ?case using Suc.IH [OF k(3) pk k(2)] k(2) m by simp
qed simp

lemma frame_boundary_with_budget_local:
  "frame_boundary_with_budget ft bs lvl depth r = (Complete n, r') \<Longrightarrow>
   frame_boundary_with_budget ft (take n bs @ x) lvl depth r = (Complete n, r')"
proof (induction ft bs lvl depth r arbitrary: n r' x rule: frame_boundary_with_budget.induct)
  case (1 ft bs lvl depth r)
  note b = frame_boundary_with_budget_Complete [OF "1.prems"]
  have ne: "bs \<noteq> []" and rem: "0 < r" using frame_boundary_with_budget_start [OF "1.prems"] by auto
  have ne': "take n bs @ x \<noteq> []" and hd': "hd (take n bs @ x) = hd bs"
    using b ne hd_take_append by auto
  note step = frame_boundary_with_budget.simps
  show ?case
  proof (cases "is_aggregate_prefix (hd bs)")
    case True
    let ?elem = "\<lambda>rest d q. frame_boundary_with_budget ft rest False d q"
    have agg: "aggregate_frame_boundary ?elem bs depth (r - 1) (hd bs) = (Complete n, r')"
      using "1.prems" ne rem True by (simp add: step [of ft bs] checked_sub_def)
    from agg have "aggregate_frame_boundary ?elem (take n bs @ x) depth (r - 1) (hd bs) = (Complete n, r')"
    proof (cases rule: aggregate_frame_boundary_cases)
      case null
      then show ?thesis
        using prefixed_length_line_local [OF null(4)] b by (simp add: aggregate_frame_boundary_def)
    next
      case (elements line_end line logical_len count)
      have IH: "?elem (take k rest @ y) (depth + 1) q = (Complete k, q')"
        if "?elem rest (depth + 1) q = (Complete k, q')" for rest q k q' y
        using "1.IH" [OF ne _ True elements(1)] rem that by (auto simp: checked_sub_def)
      have le: "line_end \<le> length bs" "line_end \<le> MAX_FRAME_BYTES"
        using prefixed_length_line_header [OF elements(2)] by (auto simp: limit_defs)
      have "line_end \<le> n"
        using boundary_elements_Complete [OF elements(8) le] frame_boundary_with_budget_Complete by blast
      then have "prefixed_length_line (take n bs @ x) = Inr (Some (line_end, line))"
        using prefixed_length_line_local [OF elements(2)] b by simp
      moreover have "boundary_elements (\<lambda>rest. ?elem rest (depth + 1)) (take n bs @ x) count line_end (r - 1)
          = (Complete n, r')"
        by (rule boundary_elements_local [OF elements(8) le])
           (use frame_boundary_with_budget_Complete IH in blast)+
      ultimately show ?thesis
        using elements by (auto simp: aggregate_frame_boundary_def)
    qed
    then show ?thesis
      using ne' rem True unfolding step [of ft "take n bs @ x"] hd' by (simp add: checked_sub_def)
  next
    case False
    then show ?thesis
      using "1.prems" ne rem ne'
      unfolding step [of ft "take n bs @ x"] step [of ft bs] hd'
      by (auto simp: checked_sub_def line_frame_boundary_local payload_frame_boundary_local
          inline_frame_boundary_local split: if_splits)
  qed
qed

lemma frame_boundary_local:
  "frame_boundary ft bs lvl = Complete n \<Longrightarrow> frame_boundary ft (take n bs @ x) lvl = Complete n"
  using frame_boundary_with_budget_local [of ft bs lvl 0 MAX_FRAME_NODES n _ x]
  by (metis frame_boundary_def fst_conv prod.collapse)

section \<open>The parser agrees with the boundary scan\<close>

text \<open>The reasons for which a frame with a complete boundary can still be refused.\<close>

definition late_error :: "frame_error \<Rightarrow> bool" where
  "late_error e \<longleftrightarrow> e \<in> Msg ` {''ERR invalid RESP3 verbatim string'',
     ''ERR unbalanced quotes in inline request'',
     ''ERR invalid escape in inline request'',
     ''ERR quoted argument must be followed by whitespace'',
     ''ERR invalid control character in inline request'',
     ''ERR inline argument count exceeds configured limit''}"

lemma inline_argument_error: "inline_argument rest a dq sq = Inl e \<Longrightarrow> late_error e"
proof (induction rest arbitrary: a dq sq rule: length_induct)
  case (1 rest)
  have rec: "length rs < length rest \<longrightarrow> late_error e"
    if "inline_argument rs arg d s = Inl e" for rs arg d s
    using 1(1) that by blast
  show ?case
    using "1"(2)
    by (subst (asm) inline_argument.simps)
       (auto simp: late_error_def [of "Msg _"] split: if_splits option.splits list.splits dest!: rec)
qed

lemma parse_inline_arguments_from_error:
  "parse_inline_arguments_from args line = Inl e \<Longrightarrow> late_error e"
proof (induction args line rule: parse_inline_arguments_from.induct)
  case (1 args line)
  show ?case
    using "1.prems" "1.IH" inline_argument_error
    by (subst (asm) parse_inline_arguments_from.simps)
       (auto simp: Let_def late_error_def [of "Msg _"] split: if_splits sum.splits)
qed

lemma parse_inline_arguments_from_grows:
  "parse_inline_arguments_from args line = Inr parts \<Longrightarrow> length args \<le> length parts"
proof (induction args line rule: parse_inline_arguments_from.induct)
  case (1 args line)
  show ?case
    using "1.prems" "1.IH"
    by (subst (asm) parse_inline_arguments_from.simps)
       (fastforce simp: Let_def split: if_splits sum.splits)
qed

lemma parse_inline_arguments_nonempty:
  assumes "parse_inline_arguments line = Inr parts" "\<not> list_all inline_ascii_whitespace line"
  shows "parts \<noteq> []"
proof -
  have "dropWhile inline_ascii_whitespace line \<noteq> []"
    using assms(2) by (simp add: list_all_iff dropWhile_eq_Nil_conv)
  with assms(1) obtain a r where
    "parse_inline_arguments_from [a] (dropWhile inline_ascii_whitespace r) = Inr parts"
    unfolding parse_inline_arguments_def
    by (subst (asm) parse_inline_arguments_from.simps)
       (auto simp: Let_def split: if_splits sum.splits)
  then show ?thesis using parse_inline_arguments_from_grows by fastforce
qed

lemma inline_agrees:
  assumes "inline_frame_boundary bs = Complete n"
  shows "\<exists>i. find_crlf bs = Some i \<and> n = i + 2 \<and>
    (case parse_inline_command (take n bs) of Inl e \<Rightarrow> late_error e | Inr f \<Rightarrow> True)"
proof -
  obtain i where i: "find_crlf bs = Some i" "n = i + 2" using inline_frame_boundary_Complete [OF assms] by auto
  have ws: "\<not> list_all inline_ascii_whitespace (take i bs)"
    using assms i by (auto simp: inline_frame_boundary_def Let_def split: if_splits)
  have f: "find_crlf (take n bs) = Some i" using find_crlf_Some [OF i(1)] i(2) by simp
  have tk: "take i (take n bs) = take i bs" using i(2) by simp
  have "case parse_inline_command (take n bs) of Inl e \<Rightarrow> late_error e | Inr f \<Rightarrow> True"
    using parse_inline_arguments_nonempty [OF _ ws] parse_inline_arguments_from_error
    unfolding parse_inline_command_def f
    by (auto simp: i(2) parse_inline_arguments_def split: sum.splits)
  then show ?thesis using i by blast
qed

lemma line_agrees:
  assumes "line_frame_boundary ft bs = Complete n" "is_line_prefix (hd bs)" "bs \<noteq> []"
  shows "\<exists>i f. find_crlf bs = Some i \<and> n = i + 2 \<and> parse_line_value ft bs n = Inr f"
proof -
  obtain i where i: "find_crlf bs = Some i" "n = i + 2" using line_frame_boundary_Complete [OF assms(1)] by auto
  have n: "n \<le> length bs" using line_frame_bounds [OF assms(1)] by simp
  have f: "find_crlf (take n bs) = Some i" using find_crlf_Some [OF i(1)] i(2) by simp
  have sl: "slice_of (take n bs) 1 i = slice_of bs 1 i"
    using slice_of_take_append [of i n bs "[]" 1] n i(2) by simp
  let ?p = "slice_of bs 1 i"
  have bnd: "line_frame_boundary ft bs = Complete (i + 2)" using assms(1) i(2) by simp
  have textual: "hd bs \<in> {CHR ''+'', CHR ''-'', CHR ''(''} \<Longrightarrow> utf8_valid ?p"
    and int: "hd bs = CHR '':'' \<Longrightarrow> utf8_valid ?p \<and> parse_protocol_i64 ?p \<noteq> None"
    and dbl: "hd bs = CHR '','' \<Longrightarrow> utf8_valid ?p \<and> is_double_text ft ?p"
    using bnd i(1) unfolding line_frame_boundary_def by (auto simp: Let_def split: if_splits)
  have sp: "scalar_payload (take n bs) name = Inr ?p" for name
    using f sl by (simp add: scalar_payload_def)
  have "\<exists>f. parse_line_value ft bs n = Inr f"
  proof (cases "hd bs = CHR '',''")
    case True
    then have "\<exists>d. parse_resp3_double ft ?p = Inr d"
      using dbl by (auto simp: parse_resp3_double_def bind_res_def from_utf8_def is_double_text_def)
    then show ?thesis using True i(2) by (auto simp: parse_line_value_def bind_res_def)
  next
    case False
    then consider "hd bs = CHR ''+''" | "hd bs = CHR ''-''" | "hd bs = CHR '':''" | "hd bs = CHR ''_''"
      | "hd bs = CHR ''#''" | "hd bs = CHR ''(''"
      using assms(2) by (auto simp: is_line_prefix_def)
    moreover have n2: "n - 2 = i" using i(2) by simp
    ultimately show ?thesis
      using textual int
      by cases (auto simp: parse_line_value_def parse_simple_string_def parse_error_def
          parse_integer_def sp n2 bind_res_def from_utf8_def)
  qed
  then show ?thesis using i by blast
qed

lemma bulk_agrees:
  assumes "payload_frame_boundary bs True name = Complete n" "hd bs \<noteq> CR"
  shows "\<exists>f. parse_bulk_string (take n bs) = Inr f"
  using assms(1)
proof (cases rule: payload_frame_boundary_cases)
  case null
  note h = prefixed_length_line_header [OF null(2)]
  have e: "n - 2 + 2 = n" using h by linarith
  have f: "find_crlf (take n bs) = Some (n - 2)"
    using find_crlf_take_append [OF prefixed_length_line_find(1) [OF null(2) assms(2)], of n "[]"] h
    unfolding e by simp
  have "slice_of (take n bs) 1 (n - 2) = ''-1''"
    using slice_of_take_append [of "n - 2" n bs "[]" 1] h by simp
  then show ?thesis using f h by (auto simp: parse_bulk_string_def bind_res_def from_utf8_def)
next
  case (blob line_end line len)
  note h = prefixed_length_line_header [OF blob(1)]
  have e: "line_end - 2 + 2 = line_end" using h by linarith
  have f: "find_crlf (take n bs) = Some (line_end - 2)"
    using find_crlf_take_append [OF prefixed_length_line_find(1) [OF blob(1) assms(2)], of n "[]"] h blob(5)
    unfolding e by simp
  have sl: "slice_of (take n bs) 1 (line_end - 2) = line"
    using slice_of_take_append [of "line_end - 2" n bs "[]" 1] h blob(5,7) by simp
  have "bs ! (n - 2) = CR \<and> bs ! Suc (n - 2) = LF"
  proof -
    have "take 2 (drop (n - 2) bs) = CRLF" using blob(5,8) by (simp add: slice_of_def)
    then have "drop (n - 2) bs ! 0 = CR" "drop (n - 2) bs ! 1 = LF"
      by (metis nth_take zero_less_numeral nth_Cons_0, metis nth_take one_less_numeral_iff semiring_norm(76) nth_Cons_0 nth_Cons_Suc One_nat_def)
    then show ?thesis using blob(5,7) by simp
  qed
  then have "take n bs ! (line_end + len) = CR" "take n bs ! Suc (line_end + len) = LF"
    using blob(5) by simp_all
  moreover have "utf8_valid (slice_of bs (Suc 0) (line_end - 2))" using h by auto
  ultimately show ?thesis
    using f sl h e blob by (simp add: parse_bulk_string_def bind_res_def from_utf8_def checked_add_def limit_defs)
qed

lemma resp3_blob_agrees:
  assumes "payload_frame_boundary bs False name = Complete n" "hd bs \<noteq> CR"
  shows "case parse_resp3_blob bs verbatim of Inl e \<Rightarrow> late_error e | Inr (f, m) \<Rightarrow> m = n"
  using assms(1)
proof (cases rule: payload_frame_boundary_cases)
  case (blob line_end line len)
  note h = prefixed_length_line_header [OF blob(1)]
  have f: "find_crlf bs = Some (line_end - 2)" and sl: "slice_of bs 1 (line_end - 2) = line"
    using prefixed_length_line_find [OF blob(1) assms(2)] by simp_all
  have "line_end - 2 + 2 = line_end" using h by linarith
  then show ?thesis
    using f sl h blob
    by (auto simp: parse_resp3_blob_def bind_res_def from_utf8_def checked_add_def limit_defs
        get_range_def late_error_def)
qed simp

lemma parse_elements_agrees:
  assumes "boundary_elements elem bs c pos r = (Complete n, r')" "pos \<le> length bs" "pos \<le> MAX_FRAME_BYTES"
    and bound: "\<And>rest q k q'. elem rest q = (Complete k, q') \<Longrightarrow> k \<le> length rest"
    and agree: "\<And>rest q k q'. elem rest q = (Complete k, q') \<Longrightarrow>
      (case pelem rest of Inl e \<Rightarrow> late_error e | Inr (f, m) \<Rightarrow> m = k)"
  shows "case parse_elements pelem bs c pos of
      Inl e \<Rightarrow> late_error e | Inr (fs, m) \<Rightarrow> m = n \<and> length fs = c"
  using assms(1-3)
proof (induction c arbitrary: pos r)
  case (Suc c)
  then obtain k q where k: "elem (drop pos bs) r = (Complete k, q)" "pos + k \<le> MAX_FRAME_BYTES"
    "boundary_elements elem bs c (pos + k) q = (Complete n, r')"
    by (auto simp: Let_def split: prod.splits boundary_result.splits if_splits)
  have pk: "pos + k \<le> length bs" using bound [OF k(1)] Suc.prems(2) by simp
  have "pos + k \<le> usize_max" using k(2) by (simp add: limit_defs)
  then show ?case
    using agree [OF k(1)] Suc.IH [OF k(3) pk k(2)] Suc.prems(2)
    by (auto simp: bind_res_def checked_add_def split: sum.splits)
qed simp

lemma pair_loop_even: "even (length fs) \<Longrightarrow> \<exists>ps. pair_loop fs = Inr ps"
  by (induction fs rule: pair_loop.induct) (auto simp: bind_res_def)

lemma build_aggregate_total:
  assumes "is_aggregate_prefix pfx" "aggregate_element_count pfx len = Some (length fs)"
  shows "\<exists>f. build_aggregate pfx fs = Inr f"
  using assms pair_loop_even [of fs] pair_loop_even [of "butlast fs"]
  by (auto simp: is_aggregate_prefix_def build_aggregate_def pair_frames_def bind_res_def
      aggregate_element_count_def Option.bind_eq_Some_conv split: sum.splits)

lemma aggregate_prefix_facts:
  assumes "is_aggregate_prefix c"
  shows "c \<noteq> CR" "\<not> is_line_prefix c" "c \<noteq> CHR ''$''" "c \<noteq> CHR ''!''" "c \<noteq> CHR ''=''"
  using assms by (auto simp: is_aggregate_prefix_def is_line_prefix_def)

lemma parse_agrees_with_boundary:
  "frame_boundary_with_budget ft bs lvl depth r = (Complete n, r') \<Longrightarrow>
   (case parse_validated_frame_prefix ft bs depth of Inl e \<Rightarrow> late_error e | Inr (f, m) \<Rightarrow> m = n)"
proof (induction ft bs lvl depth r arbitrary: n r' rule: frame_boundary_with_budget.induct)
  case (1 ft bs lvl depth r)
  have ne: "bs \<noteq> []" and rem: "0 < r" using frame_boundary_with_budget_start [OF "1.prems"] by auto
  note bstep = frame_boundary_with_budget.simps [of ft bs lvl depth r]
  note pstep = parse_validated_frame_prefix.simps [of ft bs depth]
  show ?case
  proof (cases "is_aggregate_prefix (hd bs)")
    case True
    note hdf = aggregate_prefix_facts [OF True]
    let ?elem = "\<lambda>rest d q. frame_boundary_with_budget ft rest False d q"
    have agg: "aggregate_frame_boundary ?elem bs depth (r - 1) (hd bs) = (Complete n, r')"
      using "1.prems" ne rem True by (simp add: bstep checked_sub_def)
    from agg have "case parse_aggregate (parse_validated_frame_prefix ft) bs depth of
        Inl e \<Rightarrow> late_error e | Inr (f, m) \<Rightarrow> m = n"
    proof (cases rule: aggregate_frame_boundary_cases)
      case null
      note h = prefixed_length_line_header [OF null(4)]
      have e: "n - 2 + 2 = n" using h by linarith
      have "n \<le> usize_max" using h by (simp add: limit_defs)
      then show ?thesis
        using null h e prefixed_length_line_find [OF null(4) hdf(1)]
        by (auto simp: parse_aggregate_def bind_res_def from_utf8_def checked_add_def)
    next
      case (elements line_end line logical_len count)
      note h = prefixed_length_line_header [OF elements(2)]
      have e: "line_end - 2 + 2 = line_end" using h by linarith
      have le: "line_end \<le> length bs" "line_end \<le> MAX_FRAME_BYTES" "line_end \<le> usize_max"
        using h by (auto simp: limit_defs)
      have IH: "case parse_validated_frame_prefix ft rest (depth + 1) of
          Inl e \<Rightarrow> late_error e | Inr (f, m) \<Rightarrow> m = k"
        if "?elem rest (depth + 1) q = (Complete k, q')" for rest q k q'
        using "1.IH" [OF ne _ True elements(1)] rem that by (auto simp: checked_sub_def)
      let ?pe = "\<lambda>rest. parse_validated_frame_prefix ft rest (depth + 1)"
      have "case parse_elements ?pe bs count line_end of
          Inl e \<Rightarrow> late_error e | Inr (fs, m) \<Rightarrow> m = n \<and> length fs = count"
        by (rule parse_elements_agrees [OF elements(8) le(1,2)])
           (use frame_boundary_with_budget_Complete IH in blast)+
      then have pe: "(\<exists>err. parse_elements ?pe bs count line_end = Inl err \<and> late_error err) \<or>
          (\<exists>fs. parse_elements ?pe bs count line_end = Inr (fs, n) \<and> length fs = count)"
        by (auto split: sum.splits)
      have fl: "find_crlf bs = Some (line_end - 2)" "slice_of bs 1 (line_end - 2) = line"
        using prefixed_length_line_find [OF elements(2) hdf(1)] by simp_all
      have pa: "parse_aggregate (parse_validated_frame_prefix ft) bs depth =
          bind_res (parse_elements ?pe bs count line_end) (\<lambda>(frames, current_pos).
            bind_res (build_aggregate (hd bs) frames) (\<lambda>f. Inr (f, current_pos)))"
        using elements h e le fl
        by (auto simp: parse_aggregate_def bind_res_def from_utf8_def checked_add_def)
      show ?thesis
        using pe build_aggregate_total [OF True] elements(6) unfolding pa
        by (fastforce simp: bind_res_def)
    qed
    then show ?thesis using ne hdf True by (simp add: pstep)
  next
    case False
    note b = "1.prems" [unfolded bstep]
    show ?thesis
    proof (cases "is_line_prefix (hd bs)")
      case True
      then have "line_frame_boundary ft bs = Complete n"
        using b ne rem False by (simp add: checked_sub_def)
      from line_agrees [OF this True ne] show ?thesis
        using ne True by (auto simp: pstep bind_res_def)
    next
      case nline: False
      consider (bulk) "hd bs = CHR ''$''" | (err) "hd bs = CHR ''!''" | (verb) "hd bs = CHR ''=''"
        | (inline) "hd bs \<notin> {CHR ''$'', CHR ''!'', CHR ''=''}" by blast
      then show ?thesis
      proof cases
        case bulk
        then have p: "payload_frame_boundary bs True ''bulk string'' = Complete n"
          using b ne rem False nline by (simp add: checked_sub_def)
        from bulk_agrees [OF p] bulk show ?thesis
          using ne nline p by (auto simp: pstep bind_res_def)
      next
        case err
        then have p: "payload_frame_boundary bs False ''blob error'' = Complete n"
          using b ne rem False nline by (simp add: checked_sub_def)
        from resp3_blob_agrees [OF p, of False] err show ?thesis
          using ne nline by (simp add: pstep)
      next
        case verb
        then have p: "payload_frame_boundary bs False ''verbatim string'' = Complete n"
          using b ne rem False nline by (simp add: checked_sub_def)
        from resp3_blob_agrees [OF p, of True] verb show ?thesis
          using ne nline by (simp add: pstep)
      next
        case inline
        then have "inline_frame_boundary bs = Complete n"
          using b ne rem False nline by (auto simp: checked_sub_def split: if_splits)
        from inline_agrees [OF this] show ?thesis
          using ne nline inline False by (auto simp: pstep bind_res_def split: sum.splits)
      qed
    qed
  qed
qed

section \<open>Bounded batches\<close>

text \<open>A batch is a sequence of whole frames: parsing its bytes alone gives \<open>command_count\<close> frames.\<close>

lemma parse_validated_frame_agrees:
  assumes "frame_boundary ft bs True = Complete n"
  shows "case parse_validated_frame ft (take n bs) 0 of Inl e \<Rightarrow> late_error e | Inr f \<Rightarrow> True"
proof -
  have "frame_boundary ft (take n bs) True = Complete n" using frame_boundary_local [OF assms, of "[]"] by simp
  then obtain r where "frame_boundary_with_budget ft (take n bs) True 0 MAX_FRAME_NODES = (Complete n, r)"
    by (metis frame_boundary_def prod.collapse)
  from parse_agrees_with_boundary [OF this] show ?thesis
    using frame_boundary_Complete(2) [OF assms]
    by (auto simp: parse_validated_frame_def bind_res_def min_def split: sum.splits)
qed

lemma starts_with_CRLF_room: "starts_with (drop pos bs) CRLF \<Longrightarrow> pos + 2 \<le> length bs"
  by (auto simp: starts_with_iff dest!: arg_cong [where f = length])

lemma scan_bounded_cases:
  assumes "scan_bounded_from ft bs mc mb pos count = Inr b"
  obtains (blank) "pos < length bs" "starts_with (drop pos bs) CRLF" "pos + 2 \<le> length bs"
      "scan_bounded_from ft bs mc mb (pos + 2) count = Inr b"
  | (stop) "complete_len b = pos" "command_count b = count"
  | (frame) n where "pos < length bs" "\<not> starts_with (drop pos bs) CRLF"
      "\<not> (count \<ge> mc \<or> (pos \<ge> mb \<and> count > 0))"
      "frame_boundary ft (drop pos bs) True = Complete n"
      "\<not> (count > 0 \<and> saturating_add pos n > mb)" "0 < n" "pos + n \<le> length bs"
      "scan_bounded_from ft bs mc mb (pos + n) (count + 1) = Inr b"
proof (cases "pos < length bs \<and> starts_with (drop pos bs) CRLF")
  case True
  then show ?thesis using assms blank starts_with_CRLF_room by (subst (asm) scan_bounded_from.simps) simp
next
  case nocr: False
  show ?thesis
  proof (cases "pos < length bs \<and> \<not> (count \<ge> mc \<or> (pos \<ge> mb \<and> count > 0))")
    case True
    show ?thesis
    proof (cases "frame_boundary ft (drop pos bs) True")
      case (Complete n)
      have n: "0 < n" "pos + n \<le> length bs" using frame_boundary_Complete(1,2) [OF Complete] True by auto
      show ?thesis
        using assms nocr True Complete n stop frame
        by (subst (asm) scan_bounded_from.simps) (auto split: if_splits)
    qed (use assms nocr True stop in \<open>subst (asm) scan_bounded_from.simps, auto split: if_splits\<close>)+
  next
    case False
    then show ?thesis
      using assms nocr stop by (subst (asm) scan_bounded_from.simps) (auto split: if_splits)
  qed
qed

lemma scan_bounded_progress:
  "scan_bounded_from ft bs mc mb pos count = Inr b \<Longrightarrow>
   pos \<le> length bs \<Longrightarrow> pos \<le> complete_len b \<and> complete_len b \<le> length bs \<and> count \<le> command_count b"
proof (induction ft bs mc mb pos count rule: scan_bounded_from.induct)
  case (1 ft bs mc mb pos count)
  from "1.prems"(1) show ?case
  proof (cases rule: scan_bounded_cases)
    case blank
    then show ?thesis using "1.IH"(1) by simp
  next
    case stop
    then show ?thesis using "1.prems"(2) by simp
  next
    case (frame n)
    then show ?thesis using "1.IH"(2) [OF frame(1-5,8,7)] by simp
  qed
qed

lemma parse_multiple_agrees:
  "scan_bounded_from ft bs mc mb pos count = Inr b \<Longrightarrow> pos \<le> length bs \<Longrightarrow>
   (case parse_multiple_from ft (take (complete_len b) bs) pos acc of
      Inl e \<Rightarrow> late_error e
    | Inr fs \<Rightarrow> length fs = length acc + (command_count b - count))"
proof (induction ft bs mc mb pos count arbitrary: acc rule: scan_bounded_from.induct)
  case (1 ft bs mc mb pos count)
  let ?tk = "take (complete_len b) bs"
  from "1.prems"(1) show ?case
  proof (cases rule: scan_bounded_cases)
    case blank
    note prog = scan_bounded_progress [OF blank(4,3)]
    have "starts_with (drop pos ?tk) CRLF"
      using blank(2) prog by (auto simp: starts_with_iff drop_take numeral_2_eq_2 Suc_le_eq
          dest!: less_imp_Suc_add)
    then show ?thesis
      using "1.IH"(1) [OF blank(1,2,4,3)] prog by (subst parse_multiple_from.simps) auto
  next
    case stop
    then show ?thesis by (subst parse_multiple_from.simps) simp
  next
    case (frame n)
    note prog = scan_bounded_progress [OF frame(8,7)]
    have room: "n \<le> complete_len b - pos" using prog by linarith
    have dt: "drop pos ?tk = take n (drop pos bs) @ drop n (drop pos ?tk)"
    proof -
      have "take n (drop pos ?tk) = take n (drop pos bs)" using room by (simp add: drop_take min_def)
      then show ?thesis using append_take_drop_id [of n "drop pos ?tk"] by simp
    qed
    have fb: "frame_boundary ft (drop pos ?tk) True = Complete n"
      using frame_boundary_local [OF frame(4)] dt by metis
    have sl: "slice_of ?tk pos (pos + n) = take n (drop pos bs)"
      using room by (simp add: slice_of_def drop_take min_def)
    have nc: "\<not> starts_with (drop pos ?tk) CRLF"
      using frame(2) append_take_drop_id [of "complete_len b - pos" "drop pos bs"]
      unfolding starts_with_iff drop_take by (metis append_assoc)
    note pf = parse_validated_frame_agrees [OF frame(4)]
    have IH: "case parse_multiple_from ft ?tk (pos + n) (acc @ [f]) of Inl e \<Rightarrow> late_error e
        | Inr fs \<Rightarrow> length fs = length (acc @ [f]) + (command_count b - (count + 1))" for f
      by (rule "1.IH"(2) [OF frame(1-5,8,7)])
    show ?thesis
    proof (cases "parse_validated_frame ft (take n (drop pos bs)) 0")
      case (Inl e)
      then show ?thesis
        using pf prog frame(6) nc by (subst parse_multiple_from.simps) (simp add: fb sl)
    next
      case (Inr f)
      then show ?thesis
        using IH [of f] prog frame(6) nc
        by (subst parse_multiple_from.simps) (auto simp: fb sl split: sum.splits)
    qed
  qed
qed

lemma scan_bounded_count:
  "scan_bounded_from ft bs mc mb pos count = Inr b \<Longrightarrow> count \<le> mc \<Longrightarrow> command_count b \<le> mc"
proof (induction ft bs mc mb pos count rule: scan_bounded_from.induct)
  case (1 ft bs mc mb pos count)
  from "1.prems"(1) show ?case
  proof (cases rule: scan_bounded_cases)
    case blank
    then show ?thesis using "1.IH"(1) "1.prems"(2) by simp
  next
    case stop
    then show ?thesis using "1.prems"(2) by simp
  next
    case (frame n)
    show ?thesis using "1.IH"(2) [OF frame(1-5,8)] frame(3) by simp
  qed
qed

end
