(* ===== verification/Resp_Properties.thy ===== *)
theory Resp_Properties
  imports Resp_Stream
begin

text \<open>
  What the protocol layer promises to the server: the properties of the frame codec, the boundary
  scan and the request parser, stated over their definitions, each with an instance at concrete
  bytes. \<open>decimal_bits\<close> is an instance of the decimal conversion of the standard library (a
  double is written as the decimal number of its bit pattern), which shows that the hypothesis
  \<open>f64_text_ok\<close> can be met.
\<close>

definition decimal_bits :: f64_text where
  "decimal_bits = \<lparr>f64_show = (\<lambda>b. show_nat (unat b)),
     f64_parse = (\<lambda>s. map_option word_of_nat (parse_nat usize_max s))\<rparr>"

lemma decimal_bits_ok: "f64_text_ok decimal_bits"
proof -
  have "unat b \<le> usize_max" for b :: u64 using unsigned_less [where 'a = nat, of b] by simp
  moreover have "\<forall>c \<in> set (show_nat n). is_ascii_digit c" for n
    using show_nat_digits [of n] by (simp add: list_all_iff)
  ultimately show ?thesis by (auto simp: f64_text_ok_def decimal_bits_def)
qed

definition set_request :: frame where
  "set_request = Array [BulkString ''SET'', BulkString ''k'', BulkString [CR, LF]]"

lemma set_request_bytes:
  "append_frame ft Resp2 set_request =
    ''*3'' @ CRLF @ ''$3'' @ CRLF @ ''SET'' @ CRLF @ ''$1'' @ CRLF @ ''k'' @ CRLF @ ''$2'' @ CRLF @ CRLF @ CRLF"
  unfolding set_request_def by code_simp

lemma set_request_len: "length (append_frame ft Resp2 set_request) = 28"
  by (simp add: set_request_bytes)

lemma set_request_sendable: "sendable ft Resp2 0 set_request"
proof -
  have "length (append_frame ft Resp2 set_request) \<le> MAX_FRAME_BYTES"
    unfolding set_request_bytes by (simp add: limit_defs)
  then show ?thesis
    by (simp add: sendable_def set_request_def wire_ok.simps frame_nesting.simps frame_nodes.simps
        limit_defs)
qed

lemma set_request_canonical: "canonical set_request = set_request"
  by (simp add: set_request_def)

section \<open>Round trips\<close>

text \<open>C1: A frame that fits the protocol limits and is encoded for a RESP version in which it has an
  encoding of its own is read back by \<open>parse_from_bytes\<close> as the same frame (up to \<open>Ok\<close>, which is
  the simple string OK on the wire, and the bit pattern of a NaN).\<close>

theorem resp_roundtrip:
  assumes "f64_text_ok ft" "sendable ft p 0 f"
  shows "parse_from_bytes ft (as_bytes_for_protocol ft p f) = Inr (canonical f)"
  using sent_top_level(1) [OF assms, of "[]"] sent_top_level(2) [OF assms]
  by (simp add: parse_from_bytes_def as_bytes_for_protocol_def)

theorem resp_roundtrip_witness:
  "parse_from_bytes decimal_bits (as_bytes_for_protocol decimal_bits Resp2 set_request) = Inr set_request"
  using resp_roundtrip [OF decimal_bits_ok set_request_sendable] unfolding set_request_canonical .

text \<open>C29: A pipeline, that is any number of frames sent back to back and followed by the start of a
  frame that is not complete yet, is read as exactly those frames in order, and the scan that decides
  how much of the read buffer to consume stops exactly where the incomplete frame begins.\<close>

theorem pipeline_roundtrip:
  assumes "f64_text_ok ft" "\<forall>f \<in> set fs. sendable ft p 0 f" "fs \<noteq> []"
    and "frame_boundary ft tail True = Incomplete" "\<not> starts_with tail CRLF"
  shows "parse_multiple_frames ft (concat (map (append_frame ft p) fs) @ tail) = Inr (map canonical fs) \<and>
    scan_complete_frames ft (concat (map (append_frame ft p) fs) @ tail) =
      Scan_Ready (length (concat (map (append_frame ft p) fs)))"
proof -
  let ?bs = "concat (map (append_frame ft p) fs) @ tail"
  have d: "drop 0 ?bs = ?bs" by simp
  have "0 < length (concat (map (append_frame ft p) fs))" using assms(3) by (cases fs) auto
  then show ?thesis
    using parse_multiple_sent [OF assms(1,4,5,2) d, of "[]"] scan_sent [OF assms(1,4,5,2) d]
    by (simp add: parse_multiple_frames_def scan_complete_frames_def)
qed

theorem pipeline_roundtrip_witness:
  "parse_multiple_frames decimal_bits
     (concat (map (append_frame decimal_bits Resp2) [set_request, set_request]) @ ''*1'') =
     Inr [set_request, set_request]"
proof -
  have "prefixed_length_line ''*1'' = Inr None"
    by (simp add: prefixed_length_line_def limit_defs slice_of_def)
  then have "frame_boundary decimal_bits ''*1'' True = Incomplete"
    by (simp add: frame_boundary_def frame_boundary_with_budget.simps is_aggregate_prefix_def
        is_line_prefix_def aggregate_frame_boundary_def checked_sub_def limit_defs)
  then show ?thesis
    using pipeline_roundtrip [OF decimal_bits_ok, of "[set_request, set_request]" Resp2 "''*1''"]
      set_request_sendable set_request_canonical by (simp add: starts_with_iff)
qed

section \<open>Reading a byte stream\<close>

text \<open>The boundary of a complete frame depends on the bytes of that frame alone: whatever follows
  it in the buffer (nothing, part of the next request, or other data) gives the same boundary, so
  how the network splits a stream into reads cannot change how it is cut into requests.\<close>

theorem boundary_independent_of_reads:
  assumes "frame_boundary ft bs lvl = Complete n"
  shows "frame_boundary ft (take n bs @ x) lvl = Complete n \<and> 0 < n \<and> n \<le> length bs \<and>
    n \<le> MAX_FRAME_BYTES"
  using frame_boundary_local [OF assms] frame_boundary_Complete [OF assms] by blast

theorem boundary_independent_of_reads_witness:
  "frame_boundary decimal_bits (take 28 (append_frame decimal_bits Resp2 set_request) @ ''*9'') True = Complete 28"
proof -
  have "frame_boundary decimal_bits (append_frame decimal_bits Resp2 set_request @ []) True =
      Complete (length (append_frame decimal_bits Resp2 set_request))"
    by (rule sent_top_level(1) [OF decimal_bits_ok set_request_sendable])
  then show ?thesis
    using boundary_independent_of_reads unfolding set_request_len by (metis append_Nil2)
qed

text \<open>C30: The two passes over a request agree: when the boundary scan says that a frame ends at n, the
  parser consumes exactly n bytes, or refuses the frame for one of the few reasons that only the
  parser checks (\<open>late_error\<close>: the quoting of an inline command, the number of its arguments, the
  format tag of a verbatim string). It never runs past the boundary and never stops short of it.\<close>

theorem parser_agrees_with_boundary:
  assumes "frame_boundary_with_budget ft bs lvl depth r = (Complete n, r')"
  shows "case parse_validated_frame_prefix ft bs depth of
    Inl e \<Rightarrow> late_error e | Inr (f, consumed) \<Rightarrow> consumed = n"
  by (rule parse_agrees_with_boundary [OF assms])

theorem parser_agrees_with_boundary_witness:
  "case parse_validated_frame_prefix decimal_bits (append_frame decimal_bits Resp2 set_request @ ''PING'') 0 of
     Inl e \<Rightarrow> late_error e | Inr (f, consumed) \<Rightarrow> consumed = 28"
proof -
  have "frame_boundary_with_budget decimal_bits (append_frame decimal_bits Resp2 set_request @ ''PING'')
      True 0 MAX_FRAME_NODES = (Complete (length (append_frame decimal_bits Resp2 set_request)),
        MAX_FRAME_NODES - frame_nodes set_request)"
    by (rule sent_frame_boundary [OF decimal_bits_ok set_request_sendable])
       (simp add: set_request_def frame_nodes.simps limit_defs)
  from parser_agrees_with_boundary [OF this] show ?thesis unfolding set_request_len .
qed

text \<open>A bounded scan takes at most \<open>max_commands\<close> requests, stays inside the buffer, and cuts at
  a frame boundary: parsing the bytes it selects gives exactly as many frames as it counted (or a
  request is refused for a reason only the parser checks).\<close>

theorem bounded_scan_selects_whole_frames:
  assumes "scan_complete_frames_bounded ft bs max_commands max_bytes = Inr b"
  shows "command_count b \<le> max_commands \<and> complete_len b \<le> length bs \<and>
    (case parse_multiple_frames ft (take (complete_len b) bs) of
       Inl e \<Rightarrow> late_error e | Inr fs \<Rightarrow> length fs = command_count b)"
  using assms scan_bounded_count [of ft bs max_commands max_bytes 0 0 b]
    scan_bounded_progress [of ft bs max_commands max_bytes 0 0 b]
    parse_multiple_agrees [of ft bs max_commands max_bytes 0 0 b "[]"]
  by (auto simp: scan_complete_frames_bounded_def parse_multiple_frames_def split: sum.splits)

theorem bounded_scan_selects_whole_frames_witness:
  "case parse_multiple_frames decimal_bits (take 28 (append_frame decimal_bits Resp2 set_request)) of
     Inl e \<Rightarrow> late_error e | Inr fs \<Rightarrow> length fs = 1"
proof -
  let ?e = "append_frame decimal_bits Resp2 set_request"
  have fb: "frame_boundary decimal_bits ?e True = Complete (length ?e)"
    using sent_top_level(1) [OF decimal_bits_ok set_request_sendable, of "[]"] by simp
  have nc: "\<not> starts_with ?e CRLF" using append_frame_not_CRLF [of _ _ _ "[]"] by simp
  have "scan_complete_frames_bounded decimal_bits ?e 10 1000 =
      Inr \<lparr>complete_len = length ?e, command_count = 1, limit_reached = False\<rparr>"
    unfolding scan_complete_frames_bounded_def
    by (subst scan_bounded_from.simps, subst scan_bounded_from.simps)
       (use fb nc in \<open>simp add: set_request_bytes\<close>)
  from bounded_scan_selects_whole_frames [OF this] show ?thesis
    by (simp add: set_request_len split: sum.splits)
qed

section \<open>Replies and arguments\<close>

text \<open>Text that reaches a reply line cannot end it early: whatever bytes an error message or a
  simple string holds (user input echoed into an error, say), its encoding has its first CRLF at
  its very end, so one reply is one line for the client.\<close>

theorem no_reply_splitting:
  "find_crlf (append_frame ft p (Error v) @ rest) = Some (length (append_frame ft p (Error v)) - 2) \<and>
   find_crlf (append_frame ft p (SimpleString v) @ rest) =
     Some (length (append_frame ft p (SimpleString v)) - 2)"
  by (simp add: find_crlf_sanitized) (simp add: append_sanitized_line_def)

text \<open>The arguments of a request are never shifted: \<open>get_args\<close> either returns every element of
  the request array in its position, each the text that \<open>get_arg\<close> and \<open>get_arg_bytes\<close> return for
  that position, or nothing at all when one of them is not text, and \<open>get_args_from_index\<close> then is
  a suffix of it.\<close>

theorem arguments_keep_their_positions:
  "get_args ft f = [] \<or>
   (length (get_args ft f) = arg_len f \<and>
    (\<forall>i < arg_len f. get_arg ft f i = Some (get_args ft f ! i) \<and>
       get_arg_bytes ft f i = Some (get_args ft f ! i)) \<and>
    (\<forall>n. get_args_from_index ft f n = drop n (get_args ft f)))"
  using get_args_cases [of ft f] get_args_from_index_drop [of ft f] get_arg_bytes_of_text by metis

theorem arguments_keep_their_positions_witness:
  "get_args decimal_bits set_request = [''SET'', ''k'', [CR, LF]] \<and>
   get_arg decimal_bits set_request 1 = Some ''k''"
proof -
  have g: "get_args decimal_bits set_request = [''SET'', ''k'', [CR, LF]]"
    by (simp add: set_request_def texts_or_default_def) code_simp
  moreover have "arg_len set_request = 3" by (simp add: set_request_def)
  ultimately show ?thesis
    using arguments_keep_their_positions [of decimal_bits set_request] by force
qed

end
