(* ===== verification/Key_Encoding.thy ===== *)
theory Key_Encoding
  imports Onedis_Prelude
begin

text \<open>
  Physical keys (\<^verbatim>\<open>src/store/db/key_encoding.rs\<close>). A logical Redis key owns one main key
  (\<open>main_key_bytes\<close>) and, for a collection type, any number of versioned sub-keys: the internal
  prefix of the layout, a three-byte namespace, the owner, a NUL, the eight bytes of the version,
  and a suffix that belongs to the collection. Everything the store does with an object as a whole
  (scan it, drop it, notice that it changed) is a range over such keys.

  A write batch is the list of its operations, as \<^verbatim>\<open>WriteBatch::iter\<close> yields them. A Rust
  panic (\<^verbatim>\<open>expect\<close>) is \<^term>\<open>None\<close>.
\<close>

section \<open>Constants\<close>

abbreviation NUL :: char where "NUL \<equiv> CHR 0x00"

definition HASH_FIELD_NAMESPACE :: bytes where "HASH_FIELD_NAMESPACE = [CHR 0xFF, CHR ''h'', NUL]"
definition HASH_FIELD_EXPIRE_NAMESPACE :: bytes where "HASH_FIELD_EXPIRE_NAMESPACE = [CHR 0xFF, CHR ''H'', NUL]"
definition LIST_ITEM_NAMESPACE :: bytes where "LIST_ITEM_NAMESPACE = [CHR 0xFF, CHR ''l'', NUL]"
definition SET_MEMBER_NAMESPACE :: bytes where "SET_MEMBER_NAMESPACE = [CHR 0xFF, CHR ''s'', NUL]"
definition ZSET_MEMBER_NAMESPACE :: bytes where "ZSET_MEMBER_NAMESPACE = [CHR 0xFF, CHR ''z'', NUL]"
definition ZSET_RANK_NAMESPACE :: bytes where "ZSET_RANK_NAMESPACE = [CHR 0xFF, CHR ''Z'', NUL]"
definition STREAM_ENTRY_NAMESPACE :: bytes where "STREAM_ENTRY_NAMESPACE = [CHR 0xFF, CHR ''x'', NUL]"
definition STREAM_GROUP_NAMESPACE :: bytes where "STREAM_GROUP_NAMESPACE = [CHR 0xFF, CHR ''g'', NUL]"
definition STREAM_PEL_NAMESPACE :: bytes where "STREAM_PEL_NAMESPACE = [CHR 0xFF, CHR ''p'', NUL]"
definition STREAM_CONSUMER_NAMESPACE :: bytes where "STREAM_CONSUMER_NAMESPACE = [CHR 0xFF, CHR ''c'', NUL]"
definition JSON_NODE_NAMESPACE :: bytes where "JSON_NODE_NAMESPACE = [CHR 0xFF, CHR ''j'', NUL]"
definition FULLTEXT_META_NAMESPACE :: bytes where "FULLTEXT_META_NAMESPACE = [CHR 0xFF, CHR ''f'', NUL]"
definition FULLTEXT_FILE_NAMESPACE :: bytes where "FULLTEXT_FILE_NAMESPACE = [CHR 0xFF, CHR ''f'', CHR 0x01]"
definition FULLTEXT_OUTBOX_NAMESPACE :: bytes where "FULLTEXT_OUTBOX_NAMESPACE = [CHR 0xFF, CHR ''f'', CHR 0x02]"
definition VECTOR_META_NAMESPACE :: bytes where "VECTOR_META_NAMESPACE = [CHR 0xFF, CHR ''v'', NUL]"
definition VECTOR_DOC_NAMESPACE :: bytes where "VECTOR_DOC_NAMESPACE = [CHR 0xFF, CHR ''v'', CHR 0x01]"
definition VECTOR_TAG_NAMESPACE :: bytes where "VECTOR_TAG_NAMESPACE = [CHR 0xFF, CHR ''v'', CHR 0x02]"
definition VECTOR_NUMERIC_NAMESPACE :: bytes where "VECTOR_NUMERIC_NAMESPACE = [CHR 0xFF, CHR ''v'', CHR 0x03]"
definition VECTOR_SEGMENT_NAMESPACE :: bytes where "VECTOR_SEGMENT_NAMESPACE = [CHR 0xFF, CHR ''v'', CHR 0x04]"
definition VECTOR_GRAPH_NAMESPACE :: bytes where "VECTOR_GRAPH_NAMESPACE = [CHR 0xFF, CHR ''v'', CHR 0x05]"
definition VERSION_OWNER_NAMESPACE :: bytes where "VERSION_OWNER_NAMESPACE = [CHR 0xFF, CHR ''o'', NUL]"

lemmas namespace_defs = HASH_FIELD_NAMESPACE_def HASH_FIELD_EXPIRE_NAMESPACE_def
  LIST_ITEM_NAMESPACE_def SET_MEMBER_NAMESPACE_def ZSET_MEMBER_NAMESPACE_def
  ZSET_RANK_NAMESPACE_def STREAM_ENTRY_NAMESPACE_def STREAM_GROUP_NAMESPACE_def
  STREAM_PEL_NAMESPACE_def STREAM_CONSUMER_NAMESPACE_def JSON_NODE_NAMESPACE_def
  FULLTEXT_META_NAMESPACE_def FULLTEXT_FILE_NAMESPACE_def FULLTEXT_OUTBOX_NAMESPACE_def
  VECTOR_META_NAMESPACE_def VECTOR_DOC_NAMESPACE_def VECTOR_TAG_NAMESPACE_def
  VECTOR_NUMERIC_NAMESPACE_def VECTOR_SEGMENT_NAMESPACE_def VECTOR_GRAPH_NAMESPACE_def
  VERSION_OWNER_NAMESPACE_def

definition TYPE_STRING :: char where "TYPE_STRING = CHR 0x01"
definition TYPE_HASH :: char where "TYPE_HASH = CHR 0x02"
definition TYPE_SET :: char where "TYPE_SET = CHR 0x03"
definition TYPE_SORTED_SET :: char where "TYPE_SORTED_SET = CHR 0x04"
definition TYPE_LIST :: char where "TYPE_LIST = CHR 0x05"
definition TYPE_JSON :: char where "TYPE_JSON = CHR 0x06"
definition TYPE_VECTOR :: char where "TYPE_VECTOR = CHR 0x07"
definition TYPE_STREAM :: char where "TYPE_STREAM = CHR 0x08"

lemmas type_tag_defs = TYPE_STRING_def TYPE_HASH_def TYPE_SET_def TYPE_SORTED_SET_def
  TYPE_LIST_def TYPE_JSON_def TYPE_VECTOR_def TYPE_STREAM_def

definition TABLE_LOCAL_INTERNAL_PREFIX :: bytes where
  "TABLE_LOCAL_INTERNAL_PREFIX = [CHR 0x80]"

definition KEY_ENCODING_LAYOUT_META_KEY :: bytes where
  "KEY_ENCODING_LAYOUT_META_KEY = [CHR 0x80, CHR ''m'', NUL] @ ''layout''"

definition DB_PREFIXED_V1_LAYOUT_VALUE :: bytes where
  "DB_PREFIXED_V1_LAYOUT_VALUE = ''db-prefixed-v1''"

definition TABLE_LOCAL_V2_LAYOUT_VALUE :: bytes where
  "TABLE_LOCAL_V2_LAYOUT_VALUE = ''table-local-v2''"

definition NUL_KEY_ENCODING_MARKER :: char where
  "NUL_KEY_ENCODING_MARKER = CHR 0xFF"

section \<open>Layouts and ranges\<close>

datatype key_encoding_layout = DbPrefixedV1 | TableLocalV2

definition CURRENT :: key_encoding_layout where "CURRENT = TableLocalV2"

definition append_versioned_sub_key_owner :: "bytes \<Rightarrow> bytes \<Rightarrow> bytes" where
  "append_versioned_sub_key_owner out key =
     (if NUL \<in> set key then out @ [NUL_KEY_ENCODING_MARKER] @ be_bytes 8 (length key) else out) @ key"

fun upper_bound_from :: "bytes \<Rightarrow> bytes option" where
  "upper_bound_from [] = None"
| "upper_bound_from (c # before) =
     (if c \<noteq> CHR 0xFF then Some (rev before @ [char_of (of_char c + 1 :: nat)])
      else upper_bound_from before)"

definition prefix_exclusive_upper_bound :: "bytes \<Rightarrow> bytes option" where
  "prefix_exclusive_upper_bound pfx = upper_bound_from (rev pfx)"

fun db_prefix :: "key_encoding_layout \<Rightarrow> u16 \<Rightarrow> bytes" where
  "db_prefix DbPrefixedV1 db_index = be16 db_index"
| "db_prefix TableLocalV2 db_index = []"

fun internal_prefix :: "key_encoding_layout \<Rightarrow> u16 \<Rightarrow> bytes" where
  "internal_prefix DbPrefixedV1 db_index = db_prefix DbPrefixedV1 db_index"
| "internal_prefix TableLocalV2 db_index = TABLE_LOCAL_INTERNAL_PREFIX"

fun db_prefix_exclusive_upper_bound :: "key_encoding_layout \<Rightarrow> u16 \<Rightarrow> bytes option" where
  "db_prefix_exclusive_upper_bound DbPrefixedV1 db_index =
     prefix_exclusive_upper_bound (db_prefix DbPrefixedV1 db_index)"
| "db_prefix_exclusive_upper_bound TableLocalV2 db_index = None"

fun main_key_bytes :: "key_encoding_layout \<Rightarrow> u16 \<Rightarrow> bytes \<Rightarrow> bytes" where
  "main_key_bytes DbPrefixedV1 db_index key = db_prefix DbPrefixedV1 db_index @ key"
| "main_key_bytes TableLocalV2 db_index key = key"

definition sub_key_range_start_bytes ::
  "key_encoding_layout \<Rightarrow> u16 \<Rightarrow> bytes \<Rightarrow> bytes \<Rightarrow> u64 \<Rightarrow> bytes"
where
  "sub_key_range_start_bytes layout db_index ns key version =
     append_versioned_sub_key_owner (internal_prefix layout db_index @ ns) key @ [NUL] @ be64 version"

definition sub_key_range_end_bytes ::
  "key_encoding_layout \<Rightarrow> u16 \<Rightarrow> bytes \<Rightarrow> bytes \<Rightarrow> u64 \<Rightarrow> bytes option"
where
  "sub_key_range_end_bytes layout db_index ns key version =
     prefix_exclusive_upper_bound (sub_key_range_start_bytes layout db_index ns key version)"

fun is_db_range_delete_start :: "key_encoding_layout \<Rightarrow> u16 \<Rightarrow> bytes \<Rightarrow> bool" where
  "is_db_range_delete_start DbPrefixedV1 db_index key = (key = db_prefix DbPrefixedV1 db_index)"
| "is_db_range_delete_start TableLocalV2 db_index key = (key = [])"

definition is_known_subkey_namespace :: "bytes \<Rightarrow> bool" where
  "is_known_subkey_namespace rest \<longleftrightarrow>
     starts_with rest HASH_FIELD_NAMESPACE \<or> starts_with rest HASH_FIELD_EXPIRE_NAMESPACE \<or>
     starts_with rest LIST_ITEM_NAMESPACE \<or> starts_with rest SET_MEMBER_NAMESPACE \<or>
     starts_with rest ZSET_MEMBER_NAMESPACE \<or> starts_with rest ZSET_RANK_NAMESPACE \<or>
     starts_with rest STREAM_ENTRY_NAMESPACE \<or> starts_with rest STREAM_GROUP_NAMESPACE \<or>
     starts_with rest STREAM_PEL_NAMESPACE \<or> starts_with rest STREAM_CONSUMER_NAMESPACE \<or>
     starts_with rest JSON_NODE_NAMESPACE \<or> starts_with rest FULLTEXT_META_NAMESPACE \<or>
     starts_with rest FULLTEXT_FILE_NAMESPACE \<or> starts_with rest FULLTEXT_OUTBOX_NAMESPACE \<or>
     starts_with rest VECTOR_META_NAMESPACE \<or> starts_with rest VECTOR_DOC_NAMESPACE \<or>
     starts_with rest VECTOR_TAG_NAMESPACE \<or> starts_with rest VECTOR_NUMERIC_NAMESPACE \<or>
     starts_with rest VECTOR_SEGMENT_NAMESPACE \<or> starts_with rest VECTOR_GRAPH_NAMESPACE \<or>
     starts_with rest VERSION_OWNER_NAMESPACE"

fun logical_main_key_from_raw_key :: "key_encoding_layout \<Rightarrow> u16 \<Rightarrow> bytes \<Rightarrow> bytes option" where
  "logical_main_key_from_raw_key DbPrefixedV1 db_index key =
     (let pfx = internal_prefix DbPrefixedV1 db_index
      in if length key < length pfx \<or> \<not> starts_with key pfx then None
         else (let rest = drop (length pfx) key
               in if is_known_subkey_namespace rest then None else Some rest))"
| "logical_main_key_from_raw_key TableLocalV2 db_index key =
     (if key = KEY_ENCODING_LAYOUT_META_KEY \<or>
         (case strip_prefix (internal_prefix TableLocalV2 db_index) key of
            Some rest \<Rightarrow> is_known_subkey_namespace rest | None \<Rightarrow> False)
      then None else Some key)"

fun logical_main_key_ranges :: "key_encoding_layout \<Rightarrow> u16 \<Rightarrow> (bytes \<times> bytes option) list" where
  "logical_main_key_ranges DbPrefixedV1 db_index =
     [(db_prefix DbPrefixedV1 db_index, Some (db_prefix DbPrefixedV1 db_index @ [CHR 0xFF]))]"
| "logical_main_key_ranges TableLocalV2 db_index =
     [([], Some TABLE_LOCAL_INTERNAL_PREFIX),
      ([char_of (of_char (TABLE_LOCAL_INTERNAL_PREFIX ! 0) + 1 :: nat)], None)]"

fun encode_layout :: "key_encoding_layout \<Rightarrow> bytes" where
  "encode_layout DbPrefixedV1 = DB_PREFIXED_V1_LAYOUT_VALUE"
| "encode_layout TableLocalV2 = TABLE_LOCAL_V2_LAYOUT_VALUE"

definition decode_layout :: "bytes \<Rightarrow> key_encoding_layout option" where
  "decode_layout raw =
     (if raw = DB_PREFIXED_V1_LAYOUT_VALUE then Some DbPrefixedV1
      else if raw = TABLE_LOCAL_V2_LAYOUT_VALUE then Some TableLocalV2 else None)"

text \<open>
  Opening a table: what the store answers (the layout record, whether the table has data, whether it
  is a canonical database table, whether the write succeeds) is the argument; the second component
  of the result says whether the layout record was written.
\<close>

definition try_open_or_initialize_for_table ::
  "'e + bytes option \<Rightarrow> 'e + bool \<Rightarrow> bool \<Rightarrow> 'e + unit \<Rightarrow> ('e option + key_encoding_layout) \<times> bool"
where
  "try_open_or_initialize_for_table get_meta table_has_data canonical put_meta =
     (case get_meta of
        Inl e \<Rightarrow> (Inl (Some e), False)
      | Inr (Some raw) \<Rightarrow>
          (case decode_layout raw of Some layout \<Rightarrow> (Inr layout, False) | None \<Rightarrow> (Inl None, False))
      | Inr None \<Rightarrow>
          (case table_has_data of
             Inl e \<Rightarrow> (Inl (Some e), False)
           | Inr has_data \<Rightarrow>
               if has_data \<and> \<not> canonical then (Inl None, False)
               else (case put_meta of
                   Inl e \<Rightarrow> (Inl (Some e), True)
                 | Inr _ \<Rightarrow> (Inr TableLocalV2, True))))"

definition ttl_key_encoding_for_store :: "'e + bytes option \<Rightarrow> 'e option + key_encoding_layout" where
  "ttl_key_encoding_for_store get_meta =
     (case get_meta of
        Inl e \<Rightarrow> Inl (Some e)
      | Inr None \<Rightarrow> Inr CURRENT
      | Inr (Some raw) \<Rightarrow> (case decode_layout raw of Some layout \<Rightarrow> Inr layout | None \<Rightarrow> Inl None))"

section \<open>Write batches over an object\<close>

datatype write_type = Put | PutBlobMedium | PutBlobExternal | Delete | Merge | RangeDelete

type_synonym batch_op = "write_type \<times> bytes \<times> bytes"

definition delete_sub_range :: "u16 \<Rightarrow> bytes \<Rightarrow> u64 \<Rightarrow> bytes \<Rightarrow> batch_op list option" where
  "delete_sub_range db_index key version ns =
     (case sub_key_range_end_bytes CURRENT db_index ns key version of
        None \<Rightarrow> None
      | Some upper \<Rightarrow> Some [(RangeDelete, sub_key_range_start_bytes CURRENT db_index ns key version, upper)])"

fun delete_sub_ranges ::
  "u16 \<Rightarrow> bytes \<Rightarrow> u64 \<Rightarrow> bytes list \<Rightarrow> batch_op list \<Rightarrow> batch_op list option"
where
  "delete_sub_ranges db_index key version [] batch = Some batch"
| "delete_sub_ranges db_index key version (ns # nss) batch =
     (case delete_sub_range db_index key version ns of
        None \<Rightarrow> None
      | Some ops \<Rightarrow> delete_sub_ranges db_index key version nss (batch @ ops))"

definition delete_sub_keys_to_batch_bytes ::
  "batch_op list \<Rightarrow> u16 \<Rightarrow> bytes \<Rightarrow> u64 \<Rightarrow> char \<Rightarrow> batch_op list option"
where
  "delete_sub_keys_to_batch_bytes batch db_index key version type_tag =
     (let ranges = delete_sub_ranges db_index key version
      in if type_tag = TYPE_HASH
         then ranges [HASH_FIELD_NAMESPACE, HASH_FIELD_EXPIRE_NAMESPACE] batch
         else if type_tag = TYPE_SET then ranges [SET_MEMBER_NAMESPACE] batch
         else if type_tag = TYPE_SORTED_SET
         then ranges [ZSET_MEMBER_NAMESPACE, ZSET_RANK_NAMESPACE] batch
         else if type_tag = TYPE_LIST then ranges [LIST_ITEM_NAMESPACE] batch
         else if type_tag = TYPE_STREAM
         then ranges [STREAM_ENTRY_NAMESPACE, STREAM_GROUP_NAMESPACE, STREAM_PEL_NAMESPACE,
                STREAM_CONSUMER_NAMESPACE] batch
         else if type_tag = TYPE_JSON
         then ranges [JSON_NODE_NAMESPACE]
                (batch @ [(Delete, sub_key_range_start_bytes CURRENT db_index JSON_NODE_NAMESPACE key version, [])])
         else if type_tag = TYPE_VECTOR
         then ranges [VECTOR_META_NAMESPACE, VECTOR_DOC_NAMESPACE, VECTOR_TAG_NAMESPACE,
                VECTOR_NUMERIC_NAMESPACE, VECTOR_SEGMENT_NAMESPACE, VECTOR_GRAPH_NAMESPACE] batch
         else Some batch)"

section \<open>From physical keys back to logical keys\<close>

definition hash_field_key_from_raw_sub_key :: "key_encoding_layout \<Rightarrow> u16 \<Rightarrow> bytes \<Rightarrow> bytes option" where
  "hash_field_key_from_raw_sub_key layout db_index raw_key =
     (let internal = internal_prefix layout db_index
      in case strip_prefix internal raw_key of
           None \<Rightarrow> None
         | Some rest \<Rightarrow>
             if starts_with rest HASH_FIELD_NAMESPACE then Some raw_key
             else if starts_with rest HASH_FIELD_EXPIRE_NAMESPACE
             then Some (raw_key[length internal + 1 := CHR ''h''])
             else None)"

text \<open>The owner part of a sub-key, as the three functions below read it.\<close>

definition decode_owner :: "bytes \<Rightarrow> bytes option" where
  "decode_owner encoded_owner =
     (if get_at encoded_owner 0 = Some NUL_KEY_ENCODING_MARKER
      then (case get_range encoded_owner 1 9 of
          None \<Rightarrow> None
        | Some len_bytes \<Rightarrow> get_range encoded_owner 9 (9 + be_nat len_bytes))
      else (case iter_position (\<lambda>byte. byte = NUL) encoded_owner of
          None \<Rightarrow> None
        | Some delimiter \<Rightarrow> Some (take delimiter encoded_owner)))"

definition hash_owner_from_raw_sub_key :: "key_encoding_layout \<Rightarrow> u16 \<Rightarrow> bytes \<Rightarrow> bytes option" where
  "hash_owner_from_raw_sub_key layout db_index raw_key =
     (case strip_prefix (internal_prefix layout db_index) raw_key of
        None \<Rightarrow> None
      | Some rest \<Rightarrow>
          (case strip_prefix HASH_FIELD_NAMESPACE rest of
             Some encoded_owner \<Rightarrow> decode_owner encoded_owner
           | None \<Rightarrow> (case strip_prefix HASH_FIELD_EXPIRE_NAMESPACE rest of
               Some encoded_owner \<Rightarrow> decode_owner encoded_owner
             | None \<Rightarrow> None)))"

definition zset_owner_from_raw_sub_key :: "key_encoding_layout \<Rightarrow> u16 \<Rightarrow> bytes \<Rightarrow> bytes option" where
  "zset_owner_from_raw_sub_key layout db_index raw_key =
     (case strip_prefix (internal_prefix layout db_index) raw_key of
        None \<Rightarrow> None
      | Some rest \<Rightarrow>
          (case strip_prefix ZSET_MEMBER_NAMESPACE rest of
             Some encoded_owner \<Rightarrow> decode_owner encoded_owner
           | None \<Rightarrow> (case strip_prefix ZSET_RANK_NAMESPACE rest of
               Some encoded_owner \<Rightarrow> decode_owner encoded_owner
             | None \<Rightarrow> None)))"

definition json_owner_from_raw_sub_key :: "key_encoding_layout \<Rightarrow> u16 \<Rightarrow> bytes \<Rightarrow> bytes option" where
  "json_owner_from_raw_sub_key layout db_index raw_key =
     (case strip_prefix (internal_prefix layout db_index) raw_key of
        None \<Rightarrow> None
      | Some rest \<Rightarrow>
          (case strip_prefix JSON_NODE_NAMESPACE rest of
             Some encoded_owner \<Rightarrow> decode_owner encoded_owner
           | None \<Rightarrow> None))"

definition mutated_key :: "key_encoding_layout \<Rightarrow> u16 \<Rightarrow> bytes \<Rightarrow> bytes option" where
  "mutated_key layout db_index key =
     (case logical_main_key_from_raw_key layout db_index key of
        Some k \<Rightarrow> Some k
      | None \<Rightarrow> (case hash_owner_from_raw_sub_key layout db_index key of
          Some k \<Rightarrow> Some k
        | None \<Rightarrow> (case zset_owner_from_raw_sub_key layout db_index key of
            Some k \<Rightarrow> Some k
          | None \<Rightarrow> (case json_owner_from_raw_sub_key layout db_index key of
              Some k \<Rightarrow> Some (main_key_bytes layout db_index k)
            | None \<Rightarrow> None))))"

fun collect_logical_mutations ::
  "key_encoding_layout \<Rightarrow> u16 \<Rightarrow> batch_op list \<Rightarrow> bytes list \<times> u16 list"
where
  "collect_logical_mutations layout db_index [] = ([], [])"
| "collect_logical_mutations layout db_index ((wt, key, value) # ops) =
     (let (keys, dbs) = collect_logical_mutations layout db_index ops
      in case wt of
           RangeDelete \<Rightarrow>
             (keys, if is_db_range_delete_start layout db_index key then db_index # dbs else dbs)
         | _ \<Rightarrow>
             (case mutated_key layout db_index key of
                Some k \<Rightarrow> (k # keys, dbs) | None \<Rightarrow> (keys, dbs)))"

section \<open>A range is exactly the keys with its prefix\<close>

lemma char_below_succ:
  assumes "c \<noteq> CHR 0xFF"
  shows "(y :: char) < char_of (of_char c + 1 :: nat) \<longleftrightarrow> y \<le> c"
proof -
  have "of_char c \<noteq> (of_char (CHR 0xFF) :: nat)" using assms by (metis of_char_eq_iff)
  then have "of_char c \<noteq> (255 :: nat)" by simp
  then have "of_char c + 1 < (256 :: nat)" using of_char_less_256 [of c] by linarith
  then have "of_char (char_of (of_char c + 1 :: nat) :: char) = (of_char c + 1 :: nat)"
    by (simp only: of_char_of mod_less)
  then show ?thesis by (simp add: less_char_def less_eq_char_def less_Suc_eq_le)
qed

lemma all_FF_lower: "\<forall>c \<in> set p. c = CHR 0xFF \<Longrightarrow> p \<le> x \<longleftrightarrow> starts_with x p"
proof (induction p arbitrary: x)
  case (Cons c p)
  have top: "\<not> CHR 0xFF < (y :: char)" for y
  proof -
    have "of_char y \<le> (255 :: nat)" using of_char_less_256 [of y] by linarith
    then show ?thesis by (simp add: less_char_def)
  qed
  show ?case
    using Cons top by (cases x) (auto simp: starts_with_iff)
qed (simp add: starts_with_iff)

lemma upper_bound_from_cases:
  "(upper_bound_from r = None \<and> (\<forall>c \<in> set r. c = CHR 0xFF)) \<or>
   (\<exists>q c ff. rev r = q @ c # ff \<and> c \<noteq> CHR 0xFF \<and> (\<forall>d \<in> set ff. d = CHR 0xFF) \<and>
      upper_bound_from r = Some (q @ [char_of (of_char c + 1 :: nat)]))"
proof (induction r)
  case (Cons c r)
  show ?case
  proof (cases "c = CHR 0xFF")
    case True
    then show ?thesis using Cons by fastforce
  next
    case False
    then show ?thesis by fastforce
  qed
qed simp

lemma bumped_prefix_range:
  assumes "c \<noteq> CHR 0xFF" "\<forall>d \<in> set ff. d = CHR 0xFF"
  shows "q @ c # ff \<le> x \<and> x < q @ [char_of (of_char c + 1 :: nat)] \<longleftrightarrow> starts_with x (q @ c # ff)"
proof (induction q arbitrary: x)
  case Nil
  show ?case
    using char_below_succ [OF assms(1)] all_FF_lower [OF assms(2)] assms(1)
    by (cases x) (auto simp: starts_with_iff)
next
  case (Cons a q)
  show ?case
  proof (cases x)
    case (Cons y ys)
    then show ?thesis using Cons.IH [of ys] by (auto simp: starts_with_iff)
  qed (simp add: starts_with_iff)
qed

lemma prefix_exclusive_upper_bound_Some:
  assumes "prefix_exclusive_upper_bound p = Some upper"
  shows "p \<le> x \<and> x < upper \<longleftrightarrow> starts_with x p"
  using assms upper_bound_from_cases [of "rev p"] bumped_prefix_range
  by (auto simp: prefix_exclusive_upper_bound_def)

lemma prefix_exclusive_upper_bound_None:
  assumes "prefix_exclusive_upper_bound p = None"
  shows "p \<le> x \<longleftrightarrow> starts_with x p"
  using assms upper_bound_from_cases [of "rev p"] all_FF_lower
  by (auto simp: prefix_exclusive_upper_bound_def)

lemma prefix_exclusive_upper_bound_exists:
  "c \<in> set p \<Longrightarrow> c \<noteq> CHR 0xFF \<Longrightarrow> \<exists>upper. prefix_exclusive_upper_bound p = Some upper"
  using upper_bound_from_cases [of "rev p"] by (auto simp: prefix_exclusive_upper_bound_def)

lemma sub_key_range_end_exists:
  "\<exists>upper. sub_key_range_end_bytes layout db ns key version = Some upper"
  unfolding sub_key_range_end_bytes_def
  by (rule prefix_exclusive_upper_bound_exists [of NUL]) (simp_all add: sub_key_range_start_bytes_def)

section \<open>Owners are delimited\<close>

text \<open>
  The contract of an owner encoding: followed by a NUL, it determines the owner and where it ends.
  What the store needs of it (a sub-key determines its namespace, owner, version and suffix) is
  proved once from the contract.
\<close>

locale owner_codec =
  fixes owner :: "bytes \<Rightarrow> bytes" and valid :: "bytes \<Rightarrow> bool"
  assumes delimited:
    "valid k \<Longrightarrow> valid k' \<Longrightarrow> owner k @ NUL # r = owner k' @ NUL # r' \<Longrightarrow> k = k' \<and> r = r'"
begin

lemma sub_key_determines:
  assumes "valid k" "valid k'" "length ns = length ns'"
  shows "ns @ owner k @ NUL # be64 v @ s = ns' @ owner k' @ NUL # be64 v' @ s' \<longleftrightarrow>
    ns = ns' \<and> k = k' \<and> v = v' \<and> s = s'"
proof
  assume "ns @ owner k @ NUL # be64 v @ s = ns' @ owner k' @ NUL # be64 v' @ s'"
  then have "ns = ns'" and o: "owner k @ NUL # be64 v @ s = owner k' @ NUL # be64 v' @ s'"
    unfolding append_same_length [OF assms(3)] by simp_all
  then show "ns = ns' \<and> k = k' \<and> v = v' \<and> s = s'"
    using delimited [OF assms(1,2) o] by simp
qed simp

lemma sub_key_prefix_determines:
  assumes "valid k" "valid k'" "length ns = length ns'"
    and "starts_with x (ns @ owner k @ NUL # be64 v)" "starts_with x (ns' @ owner k' @ NUL # be64 v')"
  shows "ns = ns' \<and> k = k' \<and> v = v'"
proof -
  obtain s where "x = ns @ owner k @ NUL # be64 v @ s" using assms(4) by (auto simp: starts_with_iff)
  moreover obtain s' where "x = ns' @ owner k' @ NUL # be64 v' @ s'"
    using assms(5) by (auto simp: starts_with_iff)
  ultimately show ?thesis using sub_key_determines [OF assms(1-3)] by metis
qed

end

definition valid_owner :: "bytes \<Rightarrow> bool" where
  "valid_owner key \<longleftrightarrow> utf8_valid key \<and> length key \<le> usize_max"

lemma append_owner_split: "append_versioned_sub_key_owner out k = out @ append_versioned_sub_key_owner [] k"
  by (simp add: append_versioned_sub_key_owner_def)

lemma owner_first_FF:
  assumes "utf8_valid k" "NUL \<notin> set k"
  shows "hd (append_versioned_sub_key_owner [] k @ NUL # r) \<noteq> CHR 0xFF"
  using assms utf8_valid_no_FF [OF assms(1)] by (cases k) (auto simp: append_versioned_sub_key_owner_def)

lemma append_delimiter:
  "d \<notin> set xs \<Longrightarrow> d \<notin> set ys \<Longrightarrow> xs @ d # r = ys @ d # s \<Longrightarrow> xs = ys \<and> r = s"
  by (induction xs arbitrary: ys) (auto simp: append_eq_Cons_conv Cons_eq_append_conv)

interpretation owner: owner_codec "append_versioned_sub_key_owner []" valid_owner
proof unfold_locales
  fix k k' r r'
  assume v: "valid_owner k" "valid_owner k'"
    and eq: "append_versioned_sub_key_owner [] k @ NUL # r = append_versioned_sub_key_owner [] k' @ NUL # r'"
  have len: "length k \<le> usize_max" "length k' \<le> usize_max" and utf8: "utf8_valid k" "utf8_valid k'"
    using v by (auto simp: valid_owner_def)
  have hd_eq: "hd (append_versioned_sub_key_owner [] k @ NUL # r) =
      hd (append_versioned_sub_key_owner [] k' @ NUL # r')" using eq by simp
  show "k = k' \<and> r = r'"
  proof (cases "NUL \<in> set k \<longleftrightarrow> NUL \<in> set k'")
    case True
    show ?thesis
    proof (cases "NUL \<in> set k")
      case nul: True
      then have "be_bytes 8 (length k) @ k @ NUL # r = be_bytes 8 (length k') @ k' @ NUL # r'"
        using eq True by (simp add: append_versioned_sub_key_owner_def)
      then have b: "be_bytes 8 (length k) = be_bytes 8 (length k')" "k @ NUL # r = k' @ NUL # r'"
        by (simp_all add: append_same_length)
      then have "length k = length k'" using len by (simp add: be_bytes_inj)
      then show ?thesis using b(2) by (simp add: append_same_length)
    next
      case False
      then show ?thesis
        using eq True append_delimiter [of NUL k k' r r'] by (simp add: append_versioned_sub_key_owner_def)
    qed
  next
    case False
    have marked: "hd (append_versioned_sub_key_owner [] q @ NUL # s) = CHR 0xFF" if "NUL \<in> set q" for q s
      using that by (simp add: append_versioned_sub_key_owner_def NUL_KEY_ENCODING_MARKER_def)
    then show ?thesis using False hd_eq owner_first_FF utf8 by metis
  qed
qed

lemma sub_key_range_start_eq:
  "sub_key_range_start_bytes layout db ns key version =
   internal_prefix layout db @ ns @ append_versioned_sub_key_owner [] key @ NUL # be64 version"
  using append_owner_split [of "internal_prefix layout db @ ns" key]
  by (simp add: sub_key_range_start_bytes_def)

end
