(* ===== verification/Key_Properties.thy ===== *)
theory Key_Properties
  imports Key_Encoding
begin

text \<open>
  What the key encoding promises: a sub-key range is exactly the sub-keys of one object, objects
  never share a physical key, dropping an object touches nothing else, and the logical key can be
  read back from the physical one.
\<close>

section \<open>Specification vocabulary\<close>

definition known_namespaces :: "bytes list" where
  "known_namespaces = [HASH_FIELD_NAMESPACE, HASH_FIELD_EXPIRE_NAMESPACE, LIST_ITEM_NAMESPACE,
     SET_MEMBER_NAMESPACE, ZSET_MEMBER_NAMESPACE, ZSET_RANK_NAMESPACE, STREAM_ENTRY_NAMESPACE,
     STREAM_GROUP_NAMESPACE, STREAM_PEL_NAMESPACE, STREAM_CONSUMER_NAMESPACE, JSON_NODE_NAMESPACE,
     FULLTEXT_META_NAMESPACE, FULLTEXT_FILE_NAMESPACE, FULLTEXT_OUTBOX_NAMESPACE,
     VECTOR_META_NAMESPACE, VECTOR_DOC_NAMESPACE, VECTOR_TAG_NAMESPACE, VECTOR_NUMERIC_NAMESPACE,
     VECTOR_SEGMENT_NAMESPACE, VECTOR_GRAPH_NAMESPACE, VERSION_OWNER_NAMESPACE]"

text \<open>The namespaces that hold the parts of an object of a type.\<close>

definition object_namespaces :: "char \<Rightarrow> bytes list" where
  "object_namespaces tag =
     (if tag = TYPE_HASH then [HASH_FIELD_NAMESPACE, HASH_FIELD_EXPIRE_NAMESPACE]
      else if tag = TYPE_SET then [SET_MEMBER_NAMESPACE]
      else if tag = TYPE_SORTED_SET then [ZSET_MEMBER_NAMESPACE, ZSET_RANK_NAMESPACE]
      else if tag = TYPE_LIST then [LIST_ITEM_NAMESPACE]
      else if tag = TYPE_STREAM then [STREAM_ENTRY_NAMESPACE, STREAM_GROUP_NAMESPACE,
        STREAM_PEL_NAMESPACE, STREAM_CONSUMER_NAMESPACE]
      else if tag = TYPE_JSON then [JSON_NODE_NAMESPACE]
      else if tag = TYPE_VECTOR then [VECTOR_META_NAMESPACE, VECTOR_DOC_NAMESPACE,
        VECTOR_TAG_NAMESPACE, VECTOR_NUMERIC_NAMESPACE, VECTOR_SEGMENT_NAMESPACE, VECTOR_GRAPH_NAMESPACE]
      else [])"

text \<open>The keys that a batch deletes.\<close>

definition deleted_by :: "batch_op list \<Rightarrow> bytes \<Rightarrow> bool" where
  "deleted_by batch x \<longleftrightarrow> (\<exists>(wt, lo, hi) \<in> set batch.
     (wt = Delete \<and> x = lo) \<or> (wt = RangeDelete \<and> lo \<le> x \<and> x < hi))"

definition within :: "(bytes \<times> bytes option) list \<Rightarrow> bytes \<Rightarrow> bool" where
  "within ranges x \<longleftrightarrow> (\<exists>(lo, hi) \<in> set ranges.
     lo \<le> x \<and> (case hi of Some h \<Rightarrow> x < h | None \<Rightarrow> True))"

lemma deleted_by_append [simp]: "deleted_by (a @ b) x \<longleftrightarrow> deleted_by a x \<or> deleted_by b x"
  by (auto simp: deleted_by_def)

lemma deleted_by_Nil [simp]: "\<not> deleted_by [] x"
  by (simp add: deleted_by_def)

lemma known_namespaces_shape: "ns \<in> set known_namespaces \<Longrightarrow> length ns = 3 \<and> hd ns = CHR 0xFF"
  by (auto simp: known_namespaces_def namespace_defs)

lemma is_known_subkey_namespace_iff:
  "is_known_subkey_namespace rest \<longleftrightarrow> (\<exists>ns \<in> set known_namespaces. starts_with rest ns)"
  by (simp add: is_known_subkey_namespace_def known_namespaces_def)

lemma object_namespaces_known: "ns \<in> set (object_namespaces tag) \<Longrightarrow> ns \<in> set known_namespaces"
  by (auto simp: object_namespaces_def known_namespaces_def split: if_splits)

section \<open>Ranges\<close>

lemma sub_key_range_iff:
  assumes "sub_key_range_end_bytes layout db ns key version = Some upper"
  shows "sub_key_range_start_bytes layout db ns key version \<le> x \<and> x < upper \<longleftrightarrow>
    starts_with x (sub_key_range_start_bytes layout db ns key version)"
  using assms unfolding sub_key_range_end_bytes_def by (rule prefix_exclusive_upper_bound_Some)

lemma delete_sub_ranges_exact:
  "\<exists>batch'. delete_sub_ranges db key version nss batch = Some batch' \<and>
    (\<forall>x. deleted_by batch' x \<longleftrightarrow> deleted_by batch x \<or>
      (\<exists>ns \<in> set nss. starts_with x (sub_key_range_start_bytes CURRENT db ns key version)))"
proof (induction nss arbitrary: batch)
  case (Cons ns nss)
  obtain upper where up: "sub_key_range_end_bytes CURRENT db ns key version = Some upper"
    using sub_key_range_end_exists by blast
  let ?op = "(RangeDelete, sub_key_range_start_bytes CURRENT db ns key version, upper)"
  have "deleted_by [?op] x \<longleftrightarrow> starts_with x (sub_key_range_start_bytes CURRENT db ns key version)" for x
    using sub_key_range_iff [OF up] by (auto simp: deleted_by_def)
  then show ?case
    using Cons.IH [of "batch @ [?op]"] up by (auto simp: delete_sub_range_def)
qed simp

lemma sub_keys_disjoint:
  assumes "valid_owner k" "valid_owner k'" "length ns = length ns'"
    and "starts_with x (sub_key_range_start_bytes layout db ns k v)"
    and "starts_with x (sub_key_range_start_bytes layout db ns' k' v')"
  shows "ns = ns' \<and> k = k' \<and> v = v'"
proof -
  obtain y where x: "x = internal_prefix layout db @ y"
    using assms(4) by (auto simp: starts_with_iff sub_key_range_start_eq)
  show ?thesis
    using owner.sub_key_prefix_determines [OF assms(1-3), of y v v'] assms(4,5)
    by (simp add: x starts_with_iff sub_key_range_start_eq)
qed

lemma utf8_not_internal:
  "utf8_valid k \<Longrightarrow> \<not> starts_with k (TABLE_LOCAL_INTERNAL_PREFIX @ r)"
  using utf8_valid_first by (fastforce simp: starts_with_iff TABLE_LOCAL_INTERNAL_PREFIX_def)

text \<open>The half-open range that the store scans or deletes for one part of an object always exists
  (the \<^verbatim>\<open>expect\<close> never fires) and holds exactly the physical keys that begin with the object's
  sub-key prefix.\<close>

theorem sub_key_range_exact:
  "\<exists>upper. sub_key_range_end_bytes layout db ns key version = Some upper \<and>
    (\<forall>x. sub_key_range_start_bytes layout db ns key version \<le> x \<and> x < upper \<longleftrightarrow>
      (\<exists>suffix. x = sub_key_range_start_bytes layout db ns key version @ suffix))"
  using sub_key_range_end_exists [of layout db ns key version] sub_key_range_iff
  by (metis starts_with_iff)

text \<open>C7: Dropping an object never fails and deletes exactly its own parts: every sub-key of that key,
  version and type, and no sub-key of another key or of another version of the same key, and no
  main key.\<close>

theorem drop_object_exact:
  "\<exists>batch'. delete_sub_keys_to_batch_bytes batch db key version tag = Some batch' \<and>
    (\<forall>x. deleted_by batch' x \<longleftrightarrow> deleted_by batch x \<or>
      (\<exists>ns \<in> set (object_namespaces tag).
         starts_with x (sub_key_range_start_bytes CURRENT db ns key version)))"
proof -
  let ?json = "sub_key_range_start_bytes CURRENT db JSON_NODE_NAMESPACE key version"
  have json: "deleted_by [(Delete, ?json, [])] x \<Longrightarrow> starts_with x ?json" for x
    by (auto simp: deleted_by_def starts_with_iff)
  show ?thesis
  proof (cases "tag = TYPE_JSON")
    case True
    then show ?thesis
      using delete_sub_ranges_exact [of db key version "[JSON_NODE_NAMESPACE]" "batch @ [(Delete, ?json, [])]"] json
      by (fastforce simp: delete_sub_keys_to_batch_bytes_def object_namespaces_def type_tag_defs)
  next
    case False
    then have "delete_sub_keys_to_batch_bytes batch db key version tag =
        delete_sub_ranges db key version (object_namespaces tag) batch"
      by (simp add: delete_sub_keys_to_batch_bytes_def object_namespaces_def)
    then show ?thesis using delete_sub_ranges_exact by metis
  qed
qed

theorem drop_object_exact_witness:
  "\<exists>batch'. delete_sub_keys_to_batch_bytes [] 0 ''h'' 7 TYPE_HASH = Some batch' \<and>
    deleted_by batch' (sub_key_range_start_bytes CURRENT 0 HASH_FIELD_NAMESPACE ''h'' 7 @ ''field'')"
  using drop_object_exact [of "[]" 0 "''h''" 7 TYPE_HASH]
  by (fastforce simp: object_namespaces_def)

text \<open>C2: Objects never share a physical key: a sub-key determines its namespace, its owner and its
  version, also for owners that contain NUL bytes, and it is never the main key of any key. So
  dropping an object leaves every other object alone.\<close>

theorem objects_do_not_share_keys:
  assumes "valid_owner k" "valid_owner k'" "ns \<in> set known_namespaces" "ns' \<in> set known_namespaces"
    and "starts_with x (sub_key_range_start_bytes layout db ns k v)"
  shows "(starts_with x (sub_key_range_start_bytes layout db ns' k' v') \<longrightarrow> ns = ns' \<and> k = k' \<and> v = v') \<and>
    x \<noteq> main_key_bytes layout db k'"
proof
  have len: "length ns = length ns'" using assms(3,4) known_namespaces_shape by metis
  show "starts_with x (sub_key_range_start_bytes layout db ns' k' v') \<longrightarrow> ns = ns' \<and> k = k' \<and> v = v'"
    using sub_keys_disjoint [OF assms(1,2) len assms(5)] by blast
  have "utf8_valid k'" using assms(2) by (simp add: valid_owner_def)
  moreover have "ns \<noteq> [] \<and> hd ns = CHR 0xFF" using known_namespaces_shape [OF assms(3)] by auto
  ultimately show "x \<noteq> main_key_bytes layout db k'"
    using assms(5) utf8_not_internal [of k'] utf8_valid_no_FF [of k']
    by (cases layout; cases ns) (auto simp: starts_with_iff sub_key_range_start_eq)
qed

theorem objects_do_not_share_keys_witness:
  "sub_key_range_start_bytes CURRENT 0 HASH_FIELD_NAMESPACE [CHR ''a'', NUL] 1 \<noteq> main_key_bytes CURRENT 0 ''a''"
proof -
  have "valid_owner [CHR ''a'', NUL]" "valid_owner ''a''"
    by (simp_all add: valid_owner_def utf8_valid_ascii_Cons)
  from objects_do_not_share_keys [OF this, of HASH_FIELD_NAMESPACE HASH_FIELD_NAMESPACE
      "sub_key_range_start_bytes CURRENT 0 HASH_FIELD_NAMESPACE [CHR ''a'', NUL] 1" CURRENT 0 1]
  show ?thesis by (simp add: known_namespaces_def starts_with_iff)
qed

section \<open>Reading logical keys back\<close>

lemma main_and_sub_keys:
  assumes "utf8_valid k" "ns \<in> set known_namespaces"
  shows "logical_main_key_from_raw_key layout db (main_key_bytes layout db k) = Some k \<and>
    within (logical_main_key_ranges layout db) (main_key_bytes layout db k) \<and>
    logical_main_key_from_raw_key layout db (sub_key_range_start_bytes layout db ns owner v @ s) = None \<and>
    \<not> within (logical_main_key_ranges layout db) (sub_key_range_start_bytes layout db ns owner v @ s)"
proof -
  obtain n1 n2 where ns: "ns = [CHR 0xFF, n1, n2]"
    using known_namespaces_shape [OF assms(2)]
    by (metis (no_types) length_Suc_conv length_0_conv list.sel(1) numeral_3_eq_3)
  have known: "is_known_subkey_namespace (ns @ r)" for r
    using assms(2) is_known_subkey_namespace_iff starts_with_append by blast
  have not_known: "\<not> is_known_subkey_namespace k"
  proof
    assume "is_known_subkey_namespace k"
    then obtain n r where "n \<in> set known_namespaces" "k = n @ r"
      by (auto simp: is_known_subkey_namespace_iff starts_with_iff)
    moreover from this(1) have "n \<noteq> []" "hd n = CHR 0xFF" using known_namespaces_shape [of n] by auto
    ultimately have "CHR 0xFF \<in> set k" using hd_in_set [of n] by simp
    then show False using utf8_valid_no_FF [OF assms(1)] by simp
  qed
  have first: "k = [] \<or> (\<exists>c r. k = c # r \<and> (c < CHR 0x80 \<or> CHR 0x81 \<le> c) \<and> c < CHR 0xFF)"
  proof (cases k)
    case (Cons c r)
    then have "of_char c < (128::nat) \<or> 194 \<le> (of_char c :: nat)" "of_char c \<le> (244::nat)"
      using utf8_valid_first utf8_valid_bytes assms(1) by (metis, metis list.set_intros(1))
    then show ?thesis using Cons by (auto simp: less_char_def less_eq_char_def)
  qed simp
  show ?thesis
  proof (cases layout)
    case DbPrefixedV1
    have "within (logical_main_key_ranges layout db) (main_key_bytes layout db k)"
      using first DbPrefixedV1 by (auto simp: within_def)
    moreover have "\<not> within (logical_main_key_ranges layout db) (sub_key_range_start_bytes layout db ns owner v @ s)"
      by (simp add: DbPrefixedV1 within_def sub_key_range_start_eq ns)
    ultimately show ?thesis
      using known not_known by (simp add: DbPrefixedV1 sub_key_range_start_eq Let_def)
  next
    case TableLocalV2
    have c81: "char_of (129 :: nat) = CHR 0x81" by code_simp
    have "k \<noteq> KEY_ENCODING_LAYOUT_META_KEY \<and> strip_prefix TABLE_LOCAL_INTERNAL_PREFIX k = None"
      using first by (auto simp: KEY_ENCODING_LAYOUT_META_KEY_def TABLE_LOCAL_INTERNAL_PREFIX_def)
    moreover have "within (logical_main_key_ranges layout db) (main_key_bytes layout db k)"
      using first TableLocalV2 by (auto simp: within_def TABLE_LOCAL_INTERNAL_PREFIX_def c81)
    moreover have "\<not> within (logical_main_key_ranges layout db) (sub_key_range_start_bytes layout db ns owner v @ s)"
      by (simp add: TableLocalV2 within_def sub_key_range_start_eq TABLE_LOCAL_INTERNAL_PREFIX_def c81 less_char_def)
    ultimately show ?thesis
      using known by (simp add: TableLocalV2 sub_key_range_start_eq)
  qed
qed

lemma logical_main_key_read_back:
  "utf8_valid k \<Longrightarrow> logical_main_key_from_raw_key layout db (main_key_bytes layout db k) = Some k"
  using main_and_sub_keys [of k LIST_ITEM_NAMESPACE] by (simp add: known_namespaces_def)

text \<open>The main key of a (UTF-8) logical key is read back as that key and lies in the ranges that a
  keyspace scan visits; a sub-key of any namespace is never taken for a main key and lies outside
  those ranges.\<close>

theorem main_keys_separate_from_sub_keys:
  assumes "utf8_valid k" "ns \<in> set known_namespaces"
  shows "logical_main_key_from_raw_key layout db (main_key_bytes layout db k) = Some k \<and>
    within (logical_main_key_ranges layout db) (main_key_bytes layout db k) \<and>
    logical_main_key_from_raw_key layout db (sub_key_range_start_bytes layout db ns owner v @ s) = None \<and>
    \<not> within (logical_main_key_ranges layout db) (sub_key_range_start_bytes layout db ns owner v @ s)"
  using main_and_sub_keys [OF assms] .

theorem main_keys_separate_from_sub_keys_witness:
  "logical_main_key_from_raw_key CURRENT 3 (main_key_bytes CURRENT 3 ''user:1'') = Some ''user:1''"
  using main_keys_separate_from_sub_keys [of "''user:1''" HASH_FIELD_NAMESPACE CURRENT 3]
  by (simp add: known_namespaces_def utf8_valid_ascii_Cons)

lemma decode_owner_roundtrip:
  assumes "valid_owner k"
  shows "decode_owner (append_versioned_sub_key_owner [] k @ NUL # r) = Some k"
proof (cases "NUL \<in> set k")
  case True
  let ?e = "append_versioned_sub_key_owner [] k @ NUL # r"
  have e: "?e = [NUL_KEY_ENCODING_MARKER] @ be_bytes 8 (length k) @ k @ NUL # r"
    using True by (simp add: append_versioned_sub_key_owner_def)
  have "get_range ?e 1 9 = Some (be_bytes 8 (length k))"
    unfolding e by (rule get_range_middle) simp_all
  moreover have "be_nat (be_bytes 8 (length k)) = length k"
    using assms by (simp add: be_nat_be_bytes valid_owner_def)
  moreover have "get_range ?e 9 (9 + length k) = Some k"
    using get_range_middle [of "[NUL_KEY_ENCODING_MARKER] @ be_bytes 8 (length k)" 9 k "9 + length k" "NUL # r"]
    by (simp add: e)
  moreover have "get_at ?e 0 = Some NUL_KEY_ENCODING_MARKER" by (simp add: e get_at_def)
  ultimately show ?thesis by (simp add: decode_owner_def)
next
  case False
  have e: "append_versioned_sub_key_owner [] k = k"
    using False by (simp add: append_versioned_sub_key_owner_def)
  have "get_at (k @ NUL # r) 0 \<noteq> Some NUL_KEY_ENCODING_MARKER"
    using owner_first_FF [of k r] False assms unfolding e
    by (simp add: get_at_def hd_conv_nth NUL_KEY_ENCODING_MARKER_def valid_owner_def)
  moreover have "iter_position (\<lambda>byte. byte = NUL) (k @ NUL # r) = Some (length k)"
    using False by (intro iter_position_append_first) auto
  ultimately show ?thesis by (simp add: decode_owner_def e)
qed

lemma namespaces_distinct: "distinct known_namespaces"
  unfolding known_namespaces_def namespace_defs by simp

lemma strip_namespace:
  assumes "length ns = length ns'"
  shows "strip_prefix ns (ns' @ r) = (if ns = ns' then Some r else None)"
  using assms strip_prefix_iff [of ns "ns' @ r"]
  by (cases "strip_prefix ns (ns' @ r)") (auto simp: append_same_length)

text \<open>The owner of a hash, sorted-set or JSON sub-key is read back from the physical key, for
  owners with and without NUL bytes and in both layouts.\<close>

theorem owner_read_back:
  assumes "valid_owner k"
  shows "(ns \<in> {HASH_FIELD_NAMESPACE, HASH_FIELD_EXPIRE_NAMESPACE} \<longrightarrow>
      hash_owner_from_raw_sub_key layout db (sub_key_range_start_bytes layout db ns k v @ s) = Some k) \<and>
    (ns \<in> {ZSET_MEMBER_NAMESPACE, ZSET_RANK_NAMESPACE} \<longrightarrow>
      zset_owner_from_raw_sub_key layout db (sub_key_range_start_bytes layout db ns k v @ s) = Some k) \<and>
    json_owner_from_raw_sub_key layout db (sub_key_range_start_bytes layout db JSON_NODE_NAMESPACE k v @ s) = Some k"
proof -
  have "hash_owner_from_raw_sub_key layout db (sub_key_range_start_bytes layout db n k v @ s) = Some k"
    if "n = HASH_FIELD_NAMESPACE \<or> n = HASH_FIELD_EXPIRE_NAMESPACE" for n
    using that decode_owner_roundtrip [OF assms]
    by (auto simp: hash_owner_from_raw_sub_key_def sub_key_range_start_eq strip_namespace namespace_defs)
  moreover have "zset_owner_from_raw_sub_key layout db (sub_key_range_start_bytes layout db n k v @ s) = Some k"
    if "n = ZSET_MEMBER_NAMESPACE \<or> n = ZSET_RANK_NAMESPACE" for n
    using that decode_owner_roundtrip [OF assms]
    by (auto simp: zset_owner_from_raw_sub_key_def sub_key_range_start_eq strip_namespace namespace_defs)
  moreover have "json_owner_from_raw_sub_key layout db (sub_key_range_start_bytes layout db JSON_NODE_NAMESPACE k v @ s) = Some k"
    using decode_owner_roundtrip [OF assms]
    by (simp add: json_owner_from_raw_sub_key_def sub_key_range_start_eq)
  ultimately show ?thesis by blast
qed

theorem owner_read_back_witness:
  "hash_owner_from_raw_sub_key CURRENT 0
     (sub_key_range_start_bytes CURRENT 0 HASH_FIELD_NAMESPACE [CHR ''a'', NUL, CHR ''b''] 1 @ ''f'') =
   Some [CHR ''a'', NUL, CHR ''b'']"
proof -
  have "valid_owner [CHR ''a'', NUL, CHR ''b'']" by (simp add: valid_owner_def utf8_valid_ascii_Cons)
  from owner_read_back [OF this] show ?thesis by blast
qed

end
