(* ===== verification/Key_Watch.thy ===== *)
theory Key_Watch
  imports Key_Properties "HOL-Library.Product_Lexorder"
begin

text \<open>
  WATCH and blocked readers: the mutation tracker (\<^verbatim>\<open>KeyMutationTracker\<close> in
  \<^verbatim>\<open>src/store/db/types.rs\<close>), the snapshots of \<^verbatim>\<open>core_key_watch.rs\<close>, the publication of
  mutations (\<^verbatim>\<open>core_write_batch.rs\<close>), the commit of a transaction (\<^verbatim>\<open>core_lifecycle.rs\<close>) and
  the WATCH part of the handler (\<^verbatim>\<open>src/server/transaction_state_watch.rs\<close>).

  Each operation of the tracker is one atomic step, so an execution is a sequence of operations of
  all the sessions. A waiter's signal (\<^verbatim>\<open>Arc<Notify>\<close>) is a number; \<open>live_signals\<close> are the
  signals whose strong reference still exists (what \<^verbatim>\<open>Weak::upgrade\<close> sees), and \<open>permits\<close> the
  signals that have been notified. Lazy expiry (\<^verbatim>\<open>expire_if_needed\<close>) is a parameter: a state
  change of the tracker or an error.
\<close>

type_synonym wkey = "u16 \<times> bytes"

section \<open>The tracker\<close>

record watched_key_mutation =
  wversion :: u64
  watchers :: nat

record key_mutation_tracker =
  clock :: u64
  key_versions :: "(wkey \<times> watched_key_mutation) list"
  db_versions :: "(u16 \<times> u64) list"
  key_waiters :: "(wkey \<times> nat list) list"
  live_signals :: "nat set"
  permits :: "nat set"

definition empty_tracker :: key_mutation_tracker where
  "empty_tracker = \<lparr>clock = 0, key_versions = [], db_versions = [],
     key_waiters = [], live_signals = {}, permits = {}\<rparr>"

text \<open>Leaving an entry of waiters behind: an empty one is removed from the map.\<close>

definition put_waiters :: "wkey \<Rightarrow> nat list \<Rightarrow> (wkey \<times> nat list) list \<Rightarrow> (wkey \<times> nat list) list" where
  "put_waiters key ws waiters = (if ws = [] then AList.delete key waiters else AList.update key ws waiters)"

definition register_waiter :: "key_mutation_tracker \<Rightarrow> wkey list \<Rightarrow> nat \<Rightarrow> key_mutation_tracker \<times> wkey list" where
  "register_waiter t keys signal =
     (let unique_keys = remdups_adj (sort keys);
          push = (\<lambda>waiters key. AList.update key
            ((case map_of waiters key of None \<Rightarrow> [] | Some ws \<Rightarrow> ws) @ [signal]) waiters)
      in (t\<lparr>key_waiters := foldl push (key_waiters t) unique_keys,
            live_signals := insert signal (live_signals t)\<rparr>, unique_keys))"

definition drop_waiter :: "key_mutation_tracker \<Rightarrow> wkey list \<Rightarrow> nat \<Rightarrow> key_mutation_tracker" where
  "drop_waiter t keys signal =
     (let release = (\<lambda>waiters key.
            case map_of waiters key of
              None \<Rightarrow> waiters
            | Some ws \<Rightarrow> put_waiters key
                (filter (\<lambda>w. w \<in> live_signals t \<and> w \<noteq> signal) ws) waiters)
      in t\<lparr>key_waiters := foldl release (key_waiters t) keys,
           live_signals := live_signals t - {signal}\<rparr>)"

definition notify_key_waiters :: "key_mutation_tracker \<Rightarrow> wkey \<Rightarrow> key_mutation_tracker" where
  "notify_key_waiters t key =
     (case map_of (key_waiters t) key of
        None \<Rightarrow> t
      | Some ws \<Rightarrow>
          (let alive = filter (\<lambda>w. w \<in> live_signals t) ws
           in t\<lparr>permits := permits t \<union> set alive,
                key_waiters := put_waiters key alive (key_waiters t)\<rparr>))"

definition notify_db_waiters :: "key_mutation_tracker \<Rightarrow> u16 \<Rightarrow> key_mutation_tracker" where
  "notify_db_waiters t db_index =
     (let keys = filter (\<lambda>key. fst key = db_index) (map fst (key_waiters t))
      in foldl notify_key_waiters t keys)"

definition notify_all_waiters :: "key_mutation_tracker \<Rightarrow> key_mutation_tracker" where
  "notify_all_waiters t =
     t\<lparr>permits := permits t \<union>
       set (filter (\<lambda>w. w \<in> live_signals t) (concat (map snd (key_waiters t))))\<rparr>"

definition register_key :: "key_mutation_tracker \<Rightarrow> wkey \<Rightarrow> key_mutation_tracker" where
  "register_key t key =
     t\<lparr>key_versions := AList.update key
       (case map_of (key_versions t) key of
          Some entry \<Rightarrow> entry\<lparr>watchers := watchers entry + 1\<rparr>
        | None \<Rightarrow> \<lparr>wversion = clock t, watchers = 1\<rparr>) (key_versions t)\<rparr>"

definition unregister_key :: "key_mutation_tracker \<Rightarrow> wkey \<Rightarrow> key_mutation_tracker" where
  "unregister_key t key =
     (case map_of (key_versions t) key of
        None \<Rightarrow> t
      | Some entry \<Rightarrow>
          t\<lparr>key_versions :=
            (if watchers entry > 1
             then AList.update key (entry\<lparr>watchers := watchers entry - 1\<rparr>) (key_versions t)
             else AList.delete key (key_versions t))\<rparr>)"

definition bump_key :: "key_mutation_tracker \<Rightarrow> wkey \<Rightarrow> key_mutation_tracker" where
  "bump_key t0 key =
     (let t = notify_key_waiters t0 key
      in case map_of (key_versions t) key of
           None \<Rightarrow> t
         | Some entry \<Rightarrow>
             (let version = clock t + 1
              in t\<lparr>clock := version, key_versions := AList.update key (entry\<lparr>wversion := version\<rparr>) (key_versions t)\<rparr>))"

definition has_observers :: "key_mutation_tracker \<Rightarrow> bool" where
  "has_observers t \<longleftrightarrow> key_versions t \<noteq> [] \<or> key_waiters t \<noteq> []"

definition bump_db :: "key_mutation_tracker \<Rightarrow> u16 \<Rightarrow> key_mutation_tracker" where
  "bump_db t0 db_index =
     (let t = notify_db_waiters t0 db_index; version = clock t + 1
      in t\<lparr>clock := version, db_versions := AList.update db_index version (db_versions t)\<rparr>)"

definition key_version :: "key_mutation_tracker \<Rightarrow> wkey \<Rightarrow> u64" where
  "key_version t key = (case map_of (key_versions t) key of Some entry \<Rightarrow> wversion entry | None \<Rightarrow> 0)"

definition db_version :: "key_mutation_tracker \<Rightarrow> u16 \<Rightarrow> u64" where
  "db_version t db_index = (case map_of (db_versions t) db_index of Some v \<Rightarrow> v | None \<Rightarrow> 0)"

section \<open>Publishing mutations\<close>

fun first_occurrences :: "'a list \<Rightarrow> 'a set \<Rightarrow> 'a list" where
  "first_occurrences [] seen = []"
| "first_occurrences (x # xs) seen =
     (if x \<in> seen then first_occurrences xs seen
      else x # first_occurrences xs (insert x seen))"

definition publish_mutations :: "key_mutation_tracker \<Rightarrow> wkey list \<Rightarrow> u16 list \<Rightarrow> key_mutation_tracker" where
  "publish_mutations t keys dbs =
     foldl bump_db (foldl bump_key t (first_occurrences keys {})) (first_occurrences dbs {})"

record mutation_state =
  tracker :: key_mutation_tracker
  pending_keys :: "wkey list"
  pending_dbs :: "u16 list"

definition record_or_publish_collected_mutations ::
  "mutation_state \<Rightarrow> bool \<Rightarrow> u16 \<Rightarrow> bytes list \<Rightarrow> u16 list \<Rightarrow> mutation_state"
where
  "record_or_publish_collected_mutations s transactional db_index keys dbs =
     (if \<not> transactional \<and> \<not> has_observers (tracker s) then s
      else if keys = [] \<and> dbs = [] then s
      else if transactional
      then s\<lparr>pending_keys := pending_keys s @ map (Pair db_index) keys,
             pending_dbs := pending_dbs s @ dbs\<rparr>
      else s\<lparr>tracker := publish_mutations (tracker s) (map (Pair db_index) keys) dbs\<rparr>)"

definition record_or_publish_mutations ::
  "mutation_state \<Rightarrow> bool \<Rightarrow> key_encoding_layout \<Rightarrow> u16 \<Rightarrow> batch_op list \<Rightarrow> mutation_state"
where
  "record_or_publish_mutations s transactional layout db_index batch =
     (if \<not> transactional \<and> \<not> has_observers (tracker s) then s
      else (let (keys, dbs) = collect_logical_mutations layout db_index batch
            in record_or_publish_collected_mutations s transactional db_index keys dbs))"

definition record_external_key_mutation :: "mutation_state \<Rightarrow> bool \<Rightarrow> u16 \<Rightarrow> bytes \<Rightarrow> mutation_state" where
  "record_external_key_mutation s transactional db_index key =
     (if transactional then s\<lparr>pending_keys := pending_keys s @ [(db_index, key)]\<rparr>
      else s\<lparr>tracker := publish_mutations (tracker s) [(db_index, key)] []\<rparr>)"

definition record_or_publish_known_key_mutations ::
  "mutation_state \<Rightarrow> bool \<Rightarrow> key_encoding_layout \<Rightarrow> u16 \<Rightarrow> bytes list \<Rightarrow> mutation_state"
where
  "record_or_publish_known_key_mutations s transactional layout db_index logical_keys =
     (let keys = map (\<lambda>key. (db_index, main_key_bytes layout db_index key)) logical_keys
      in if \<not> transactional \<and> \<not> has_observers (tracker s) then s
         else if transactional then s\<lparr>pending_keys := pending_keys s @ keys\<rparr>
         else s\<lparr>tracker := foldl bump_key (tracker s) keys\<rparr>)"

definition take_pending_mutations :: "mutation_state \<Rightarrow> (wkey list \<times> u16 list) \<times> mutation_state" where
  "take_pending_mutations s =
     ((pending_keys s, pending_dbs s), s\<lparr>pending_keys := [], pending_dbs := []\<rparr>)"

text \<open>
  Committing: what becomes of the storage transaction (\<open>Discarded\<close>, \<open>Committed\<close> or \<open>Not_committed\<close>
  with the engine's error) and the new state. The engine's answer is the argument.
\<close>

datatype storage_outcome = Discarded | Committed | Not_committed

definition commit_transaction ::
  "mutation_state \<Rightarrow> 'e + unit \<Rightarrow> ('e + unit) \<times> storage_outcome \<times> mutation_state"
where
  "commit_transaction s0 store_commit =
     (let ((keys, dbs), s) = take_pending_mutations s0
      in if keys = [] \<and> dbs = [] then (Inr (), Discarded, s)
         else (case store_commit of
             Inl e \<Rightarrow> (Inl e, Not_committed, s)
           | Inr _ \<Rightarrow>
               (Inr (), Committed, s\<lparr>tracker := publish_mutations (tracker s) keys dbs\<rparr>)))"

section \<open>WATCH\<close>

definition mk :: "key_encoding_layout \<Rightarrow> u16 \<Rightarrow> bytes \<Rightarrow> wkey" where
  "mk layout db_index key = (db_index, main_key_bytes layout db_index key)"

definition watch_version_snapshot ::
  "(key_mutation_tracker \<Rightarrow> ('e + unit) \<times> key_mutation_tracker) \<Rightarrow> key_encoding_layout \<Rightarrow> u16 \<Rightarrow>
   key_mutation_tracker \<Rightarrow> bytes \<Rightarrow> ('e + (u64 \<times> u64)) \<times> key_mutation_tracker"
where
  "watch_version_snapshot expire_if_needed layout db_index t key =
     (case expire_if_needed (register_key t (mk layout db_index key)) of
        (Inl e, t') \<Rightarrow> (Inl e, t')
      | (Inr _, t') \<Rightarrow>
          (Inr (key_version t' (mk layout db_index key), db_version t' db_index), t'))"

definition release_watch :: "key_encoding_layout \<Rightarrow> u16 \<Rightarrow> key_mutation_tracker \<Rightarrow> bytes \<Rightarrow> key_mutation_tracker" where
  "release_watch layout db_index t key = unregister_key t (mk layout db_index key)"

definition watch_version_changed ::
  "(key_mutation_tracker \<Rightarrow> ('e + unit) \<times> key_mutation_tracker) \<Rightarrow> key_encoding_layout \<Rightarrow> u16 \<Rightarrow>
   key_mutation_tracker \<Rightarrow> bytes \<Rightarrow> u64 \<Rightarrow> u64 \<Rightarrow> ('e + bool) \<times> key_mutation_tracker"
where
  "watch_version_changed expire_if_needed layout db_index t key kv dv =
     (case expire_if_needed t of
        (Inl e, t') \<Rightarrow> (Inl e, t')
      | (Inr _, t') \<Rightarrow>
          (Inr (key_version t' (mk layout db_index key) \<noteq> kv \<or> db_version t' db_index \<noteq> dv), t'))"

record watched_key =
  wk_db :: u16
  wk_key :: bytes
  wk_key_version :: u64
  wk_db_version :: u64

text \<open>The handler's \<^verbatim>\<open>watch_keys\<close> loop, over the session's list of watched keys.\<close>

fun watch_keys_loop ::
  "(bytes \<Rightarrow> key_mutation_tracker \<Rightarrow> ('e + unit) \<times> key_mutation_tracker) \<Rightarrow> key_encoding_layout \<Rightarrow> u16 \<Rightarrow>
   watched_key list \<Rightarrow> key_mutation_tracker \<Rightarrow> bytes list \<Rightarrow>
   ('e + unit) \<times> watched_key list \<times> key_mutation_tracker"
where
  "watch_keys_loop expire layout db_index watched t [] = (Inr (), watched, t)"
| "watch_keys_loop expire layout db_index watched t (key # keys) =
     (if \<exists>w \<in> set watched. wk_db w = db_index \<and> wk_key w = key
      then watch_keys_loop expire layout db_index watched t keys
      else (case watch_version_snapshot (expire key) layout db_index t key of
          (Inl e, t') \<Rightarrow> (Inl e, watched, t')
        | (Inr (kv, dv), t') \<Rightarrow>
            watch_keys_loop expire layout db_index
              (watched @ [\<lparr>wk_db = db_index, wk_key = key, wk_key_version = kv, wk_db_version = dv\<rparr>])
              t' keys))"

datatype 'e watch_error = Watch_inside_multi | Watch_failed 'e

definition watch_keys ::
  "(bytes \<Rightarrow> key_mutation_tracker \<Rightarrow> ('e + unit) \<times> key_mutation_tracker) \<Rightarrow> key_encoding_layout \<Rightarrow> bool \<Rightarrow> u16 \<Rightarrow>
   watched_key list \<Rightarrow> key_mutation_tracker \<Rightarrow> bytes list \<Rightarrow>
   ('e watch_error + unit) \<times> watched_key list \<times> key_mutation_tracker"
where
  "watch_keys expire layout in_transaction db_index watched t keys =
     (if in_transaction then (Inl Watch_inside_multi, watched, t)
      else (case watch_keys_loop expire layout db_index watched t keys of
          (Inl e, watched', t') \<Rightarrow> (Inl (Watch_failed e), watched', t')
        | (Inr _, watched', t') \<Rightarrow> (Inr (), watched', t')))"

definition wait_for_key_mutations ::
  "key_encoding_layout \<Rightarrow> u16 \<Rightarrow> key_mutation_tracker \<Rightarrow> bytes list \<Rightarrow> nat \<Rightarrow> key_mutation_tracker \<times> wkey list"
where
  "wait_for_key_mutations layout db_index t keys signal = register_waiter t (map (mk layout db_index) keys) signal"

definition clear_watches :: "key_encoding_layout \<Rightarrow> watched_key list \<Rightarrow> key_mutation_tracker \<Rightarrow> key_mutation_tracker" where
  "clear_watches layout watched t =
     foldl (\<lambda>t w. release_watch layout (wk_db w) t (wk_key w)) t watched"

fun watched_keys_modified ::
  "(bytes \<Rightarrow> key_mutation_tracker \<Rightarrow> ('e + unit) \<times> key_mutation_tracker) \<Rightarrow> key_encoding_layout \<Rightarrow>
   watched_key list \<Rightarrow> key_mutation_tracker \<Rightarrow> ('e + bool) \<times> key_mutation_tracker"
where
  "watched_keys_modified expire layout [] t = (Inr False, t)"
| "watched_keys_modified expire layout (w # ws) t =
     (case watch_version_changed (expire (wk_key w)) layout (wk_db w) t (wk_key w)
             (wk_key_version w) (wk_db_version w) of
        (Inl e, t') \<Rightarrow> (Inl e, t')
      | (Inr True, t') \<Rightarrow> (Inr True, t')
      | (Inr False, t') \<Rightarrow> watched_keys_modified expire layout ws t')"

section \<open>Versions only grow\<close>

text \<open>The steps of the tracker that other sessions can take.\<close>

datatype tracker_action = Register wkey | Unregister wkey | Bump wkey | Bump_Db u16

fun tracker_step :: "key_mutation_tracker \<Rightarrow> tracker_action \<Rightarrow> key_mutation_tracker" where
  "tracker_step t (Register k) = register_key t k"
| "tracker_step t (Unregister k) = unregister_key t k"
| "tracker_step t (Bump k) = bump_key t k"
| "tracker_step t (Bump_Db d) = bump_db t d"

lemma notify_key_waiters_frame [simp]:
  "clock (notify_key_waiters t k) = clock t" "key_versions (notify_key_waiters t k) = key_versions t"
  "db_versions (notify_key_waiters t k) = db_versions t" "live_signals (notify_key_waiters t k) = live_signals t"
  by (simp_all add: notify_key_waiters_def Let_def split: option.split)

lemma fold_notify_frame:
  "clock (foldl notify_key_waiters t ks) = clock t \<and>
   key_versions (foldl notify_key_waiters t ks) = key_versions t \<and>
   db_versions (foldl notify_key_waiters t ks) = db_versions t \<and>
   live_signals (foldl notify_key_waiters t ks) = live_signals t"
  by (induction ks arbitrary: t) auto

lemma notify_db_waiters_frame [simp]:
  "clock (notify_db_waiters t d) = clock t" "key_versions (notify_db_waiters t d) = key_versions t"
  "db_versions (notify_db_waiters t d) = db_versions t" "live_signals (notify_db_waiters t d) = live_signals t"
  using fold_notify_frame by (simp_all add: notify_db_waiters_def)

definition tracker_ok :: "key_mutation_tracker \<Rightarrow> bool" where
  "tracker_ok t \<longleftrightarrow>
     (\<forall>k e. map_of (key_versions t) k = Some e \<longrightarrow> wversion e \<le> clock t \<and> 0 < watchers e) \<and>
     (\<forall>d v. map_of (db_versions t) d = Some v \<longrightarrow> v \<le> clock t)"

lemma tracker_ok_empty: "tracker_ok empty_tracker"
  by (simp add: tracker_ok_def empty_tracker_def)

lemma no_wrap:
  assumes "unat (c :: u64) < usize_max"
  shows "c < c + 1" "unat (c + 1) = unat c + 1"
proof -
  show "unat (c + 1) = unat c + 1" using assms by (simp add: unat_word_ariths(1))
  then show "c < c + 1" by (simp add: word_less_nat_alt)
qed

lemma tracker_step_ok:
  assumes "tracker_ok t" "unat (clock t) < usize_max"
  shows "tracker_ok (tracker_step t a) \<and> unat (clock (tracker_step t a)) \<le> unat (clock t) + 1"
proof -
  have grow: "v \<le> clock t \<Longrightarrow> v \<le> clock t + 1" for v using no_wrap [OF assms(2)] by simp
  show ?thesis
  proof (cases a)
    case (Register k)
    then show ?thesis
      using assms(1) by (auto simp: tracker_ok_def register_key_def split: option.splits)
  next
    case (Unregister k)
    then show ?thesis
      using assms(1) by (auto simp: tracker_ok_def unregister_key_def split: option.splits if_splits)
  next
    case (Bump k)
    then show ?thesis
      using assms(1) grow no_wrap [OF assms(2)]
      by (auto simp: tracker_ok_def bump_key_def Let_def split: option.splits)
  next
    case (Bump_Db d)
    then show ?thesis
      using assms(1) grow no_wrap [OF assms(2)] by (auto simp: tracker_ok_def bump_db_def Let_def)
  qed
qed

text \<open>
  \<open>stays_watched n k acts\<close>: with \<open>n\<close> watchers of \<open>k\<close> at the start, one watch of \<open>k\<close> is never
  released by the steps \<open>acts\<close> (every session releases only the watches it registered).
\<close>

fun stays_watched :: "nat \<Rightarrow> wkey \<Rightarrow> tracker_action list \<Rightarrow> bool" where
  "stays_watched n k [] = (0 < n)"
| "stays_watched n k (Register k' # acts) = stays_watched (if k' = k then n + 1 else n) k acts"
| "stays_watched n k (Unregister k' # acts) =
     (if k' = k then 1 < n \<and> stays_watched (n - 1) k acts else stays_watched n k acts)"
| "stays_watched n k (_ # acts) = stays_watched n k acts"

definition touches :: "wkey \<Rightarrow> tracker_action \<Rightarrow> bool" where
  "touches k a \<longleftrightarrow> a = Bump k \<or> a = Bump_Db (fst k)"

lemma watched_step:
  assumes "tracker_ok t" "unat (clock t) < usize_max" "map_of (key_versions t) k = Some e"
    and "stays_watched (watchers e) k (a # acts)"
  shows "\<exists>e'. map_of (key_versions (tracker_step t a)) k = Some e' \<and>
    stays_watched (watchers e') k acts \<and>
    key_version t k \<le> key_version (tracker_step t a) k \<and>
    db_version t (fst k) \<le> db_version (tracker_step t a) (fst k) \<and>
    (touches k a \<longleftrightarrow> key_version t k < key_version (tracker_step t a) k \<or>
      db_version t (fst k) < db_version (tracker_step t a) (fst k))"
proof -
  have c: "clock t < clock t + 1" using no_wrap [OF assms(2)] by simp
  have kv: "wversion e \<le> clock t" using assms(1,3) unfolding tracker_ok_def by blast
  have dv: "db_version t d \<le> clock t" for d
    using assms(1) by (auto simp: tracker_ok_def db_version_def split: option.splits)
  show ?thesis
  proof (cases a)
    case (Register k')
    then show ?thesis
      using assms(3,4)
      by (auto simp: register_key_def key_version_def db_version_def touches_def split: option.splits)
  next
    case (Unregister k')
    show ?thesis
    proof (cases "k' = k")
      case True
      then show ?thesis
        using assms(3,4) Unregister
        by (auto simp: unregister_key_def key_version_def db_version_def touches_def)
    next
      case False
      then show ?thesis
        using assms(3,4) Unregister
        by (auto simp: unregister_key_def key_version_def db_version_def touches_def split: option.splits)
    qed
  next
    case (Bump k')
    show ?thesis
    proof (cases "k' = k")
      case True
      have "wversion e < clock t + 1" using kv c by (rule order_le_less_trans)
      then show ?thesis
        using assms(3,4) Bump True
        by (auto simp: bump_key_def Let_def key_version_def db_version_def touches_def)
    next
      case False
      then show ?thesis
        using assms(3,4) Bump
        by (auto simp: bump_key_def Let_def key_version_def db_version_def touches_def split: option.splits)
    qed
  next
    case (Bump_Db d)
    have "db_version t d < clock t + 1" for d using dv c by (rule order_le_less_trans)
    then show ?thesis
      using assms(3,4) Bump_Db
      by (auto simp: bump_db_def Let_def key_version_def db_version_def [of "_\<lparr>clock := _, db_versions := _\<rparr>"] touches_def
          order_less_imp_le)
         (simp_all add: db_version_def)
  qed
qed

lemma watched_run:
  assumes "tracker_ok t" "unat (clock t) + length acts < usize_max"
    and "map_of (key_versions t) k = Some e" "stays_watched (watchers e) k acts"
  shows "key_version t k \<le> key_version (foldl tracker_step t acts) k \<and>
    db_version t (fst k) \<le> db_version (foldl tracker_step t acts) (fst k) \<and>
    ((\<exists>a \<in> set acts. touches k a) \<longleftrightarrow>
      key_version (foldl tracker_step t acts) k \<noteq> key_version t k \<or>
      db_version (foldl tracker_step t acts) (fst k) \<noteq> db_version t (fst k))"
  using assms
proof (induction acts arbitrary: t e)
  case (Cons a acts)
  have lt: "unat (clock t) < usize_max" using Cons.prems(2) by simp
  note ok = tracker_step_ok [OF Cons.prems(1) lt, of a]
  obtain e' where e': "map_of (key_versions (tracker_step t a)) k = Some e'"
    "stays_watched (watchers e') k acts"
    and grow: "key_version t k \<le> key_version (tracker_step t a) k"
      "db_version t (fst k) \<le> db_version (tracker_step t a) (fst k)"
    and iff: "touches k a \<longleftrightarrow> key_version t k < key_version (tracker_step t a) k \<or>
      db_version t (fst k) < db_version (tracker_step t a) (fst k)"
    using watched_step [OF Cons.prems(1) lt Cons.prems(3,4)] by auto
  have bound: "unat (clock (tracker_step t a)) + length acts < usize_max"
    using ok Cons.prems(2) by simp
  from Cons.IH [OF _ bound e'] ok grow iff show ?case
    by (auto simp: order_antisym_conv)
qed simp

section \<open>WATCH is exact\<close>

lemma register_key_ok: "tracker_ok t \<Longrightarrow> tracker_ok (register_key t k)"
  by (auto simp: tracker_ok_def register_key_def split: option.splits)

lemma register_key_entry: "\<exists>e. map_of (key_versions (register_key t k)) k = Some e"
  by (simp add: register_key_def)

lemma tracker_run_ok:
  assumes "tracker_ok t" "unat (clock t) + length acts < usize_max"
  shows "tracker_ok (foldl tracker_step t acts) \<and>
    unat (clock (foldl tracker_step t acts)) \<le> unat (clock t) + length acts"
  using assms
proof (induction acts arbitrary: t)
  case (Cons a acts)
  have lt: "unat (clock t) < usize_max" using Cons.prems(2) by simp
  show ?case
    using Cons.IH [of "tracker_step t a"] tracker_step_ok [OF Cons.prems(1) lt, of a] Cons.prems(2)
    by fastforce
qed simp

lemma stays_watched_run:
  assumes "map_of (key_versions t) k = Some e" "stays_watched (watchers e) k (acts @ later)"
  shows "\<exists>e'. map_of (key_versions (foldl tracker_step t acts)) k = Some e' \<and>
    stays_watched (watchers e') k later"
  using assms
proof (induction acts arbitrary: t e)
  case (Cons a acts)
  have "\<exists>e'. map_of (key_versions (tracker_step t a)) k = Some e' \<and>
      stays_watched (watchers e') k (acts @ later)"
    using Cons.prems
    by (cases a) (auto simp: register_key_def unregister_key_def bump_key_def bump_db_def Let_def
        split: option.splits if_splits)
  then show ?case using Cons.IH by auto
qed simp

text \<open>C3: WATCH is exact. Let a session WATCH a key, then let any sequence of operations of other
  sessions run on the tracker, of which none releases this session's watch, and let lazy expiry
  do its own tracker steps when the key is watched and when EXEC checks it. The check reports a change if
  and only if one of the steps since the snapshot was a mutation of that key or of its whole
  database: no change is missed and none is invented (as long as the 64-bit clock does not wrap).\<close>

theorem watch_is_exact:
  assumes "tracker_ok t" "k = mk layout db key"
    and "unat (clock t) + length e1 + length acts + length e2 < usize_max"
    and "expire1 (register_key t k) = (Inr (), foldl tracker_step (register_key t k) e1)"
    and "map_of (key_versions (register_key t k)) k = Some e"
    and "stays_watched (watchers e) k (e1 @ acts @ e2)"
    and "watch_version_snapshot expire1 layout db t key = (Inr (kv, dv), t1)"
    and "expire2 (foldl tracker_step t1 acts) = (Inr (), foldl tracker_step (foldl tracker_step t1 acts) e2)"
  shows "fst (watch_version_changed expire2 layout db (foldl tracker_step t1 acts) key kv dv) =
    Inr (\<exists>a \<in> set (acts @ e2). touches k a)"
proof -
  have t1: "t1 = foldl tracker_step (register_key t k) e1" "kv = key_version t1 k" "dv = db_version t1 db"
    using assms(7) unfolding watch_version_snapshot_def assms(2) [symmetric] assms(4) by auto
  have c: "clock (register_key t k) = clock t" by (simp add: register_key_def)
  have ok: "tracker_ok t1" "unat (clock t1) + length (acts @ e2) < usize_max"
    using tracker_run_ok [OF register_key_ok [OF assms(1)], of k e1] assms(3) c t1(1) by auto
  obtain e' where "map_of (key_versions t1) k = Some e'" "stays_watched (watchers e') k (acts @ e2)"
    using stays_watched_run [OF assms(5,6)] t1(1) by auto
  note run = watched_run [OF ok this]
  have db: "fst k = db" by (simp add: assms(2) mk_def)
  show ?thesis
    using run unfolding watch_version_changed_def assms(8) assms(2) [symmetric] t1(2,3) db foldl_append
    by auto
qed

theorem watch_is_exact_witness:
  "fst (watch_version_changed (\<lambda>t. (Inr () :: string + unit, t)) TableLocalV2 0
     (foldl tracker_step (register_key empty_tracker (0, ''k'')) [Bump (0, ''other''), Bump (0, ''k'')]) ''k'' 0 0) =
   Inr True"
  using watch_is_exact [of empty_tracker "(0, ''k'')" TableLocalV2 0 "''k''" "[]"
      "[Bump (0, ''other''), Bump (0, ''k'')]" "[]" "\<lambda>t. (Inr (), t)" "\<lparr>wversion = 0, watchers = 1\<rparr>" 0 0
      "register_key empty_tracker (0, ''k'')" "\<lambda>t. (Inr () :: string + unit, t)"]
    tracker_ok_empty
  by (simp add: mk_def empty_tracker_def register_key_def touches_def
      watch_version_snapshot_def key_version_def db_version_def)

section \<open>Committed writes reach the watchers\<close>

lemma first_occurrences_set: "set (first_occurrences xs seen) = set xs - seen"
  by (induction xs arbitrary: seen) auto

lemma publish_mutations_steps:
  "publish_mutations t keys dbs =
   foldl tracker_step t (map Bump (first_occurrences keys {}) @ map Bump_Db (first_occurrences dbs {}))"
proof -
  have "foldl bump_key t ks = foldl tracker_step t (map Bump ks)" for t ks
    by (induction ks arbitrary: t) auto
  moreover have "foldl bump_db t ds = foldl tracker_step t (map Bump_Db ds)" for t ds
    by (induction ds arbitrary: t) auto
  ultimately show ?thesis by (simp add: publish_mutations_def)
qed

lemma mutated_key_current:
  assumes "valid_owner k"
  shows "mutated_key TableLocalV2 db (main_key_bytes TableLocalV2 db k) = Some k"
    and "ns \<in> {HASH_FIELD_NAMESPACE, HASH_FIELD_EXPIRE_NAMESPACE, ZSET_MEMBER_NAMESPACE,
        ZSET_RANK_NAMESPACE, JSON_NODE_NAMESPACE} \<Longrightarrow>
      mutated_key TableLocalV2 db (sub_key_range_start_bytes TableLocalV2 db ns k v @ s) = Some k"
    and "ns \<in> {LIST_ITEM_NAMESPACE, SET_MEMBER_NAMESPACE, STREAM_ENTRY_NAMESPACE,
        STREAM_GROUP_NAMESPACE, STREAM_PEL_NAMESPACE, STREAM_CONSUMER_NAMESPACE} \<Longrightarrow>
      mutated_key TableLocalV2 db (sub_key_range_start_bytes TableLocalV2 db ns k v @ s) = None"
proof -
  have utf8: "utf8_valid k" using assms by (simp add: valid_owner_def)
  have main: "logical_main_key_from_raw_key TableLocalV2 db k = Some k"
    using utf8_not_internal [OF utf8, of "[]"] utf8_not_internal [OF utf8, of "[CHR ''m'', NUL] @ ''layout''"]
    by (auto simp: starts_with_def starts_with_iff KEY_ENCODING_LAYOUT_META_KEY_def TABLE_LOCAL_INTERNAL_PREFIX_def)
  then show "mutated_key TableLocalV2 db (main_key_bytes TableLocalV2 db k) = Some k"
    by (simp add: mutated_key_def)
  have sub: "logical_main_key_from_raw_key TableLocalV2 db (sub_key_range_start_bytes TableLocalV2 db n k v @ s) = None"
    if "n \<in> set known_namespaces" for n
  proof -
    have "is_known_subkey_namespace (n @ r)" for r
      using that starts_with_append [of n r] unfolding is_known_subkey_namespace_iff by blast
    then show ?thesis by (simp add: sub_key_range_start_eq)
  qed
  let ?raw = "\<lambda>n. sub_key_range_start_bytes TableLocalV2 db n k v @ s"
  have own: "hash_owner_from_raw_sub_key TableLocalV2 db (?raw n) =
      (if n = HASH_FIELD_NAMESPACE \<or> n = HASH_FIELD_EXPIRE_NAMESPACE then Some k else None)"
    "zset_owner_from_raw_sub_key TableLocalV2 db (?raw n) =
      (if n = ZSET_MEMBER_NAMESPACE \<or> n = ZSET_RANK_NAMESPACE then Some k else None)"
    "json_owner_from_raw_sub_key TableLocalV2 db (?raw n) = (if n = JSON_NODE_NAMESPACE then Some k else None)"
    if "n \<in> set known_namespaces" for n
    using known_namespaces_shape [OF that] decode_owner_roundtrip [OF assms]
    by (auto simp: hash_owner_from_raw_sub_key_def zset_owner_from_raw_sub_key_def
        json_owner_from_raw_sub_key_def sub_key_range_start_eq strip_namespace namespace_defs)
  have mut: "mutated_key TableLocalV2 db (?raw n) =
      (if n \<in> {HASH_FIELD_NAMESPACE, HASH_FIELD_EXPIRE_NAMESPACE, ZSET_MEMBER_NAMESPACE,
        ZSET_RANK_NAMESPACE, JSON_NODE_NAMESPACE} then Some k else None)"
    if "n \<in> set known_namespaces" for n
    unfolding mutated_key_def sub [OF that] own [OF that] by simp
  show "mutated_key TableLocalV2 db (?raw ns) = Some k"
    if "ns \<in> {HASH_FIELD_NAMESPACE, HASH_FIELD_EXPIRE_NAMESPACE, ZSET_MEMBER_NAMESPACE,
        ZSET_RANK_NAMESPACE, JSON_NODE_NAMESPACE}"
  proof -
    have "ns \<in> set known_namespaces" using that by (auto simp: known_namespaces_def)
    then show ?thesis using mut that by simp
  qed
  show "mutated_key TableLocalV2 db (?raw ns) = None"
    if "ns \<in> {LIST_ITEM_NAMESPACE, SET_MEMBER_NAMESPACE, STREAM_ENTRY_NAMESPACE,
        STREAM_GROUP_NAMESPACE, STREAM_PEL_NAMESPACE, STREAM_CONSUMER_NAMESPACE}"
  proof -
    have "ns \<in> set known_namespaces" using that by (auto simp: known_namespaces_def)
    then show ?thesis using mut that by (auto simp: namespace_defs)
  qed
qed

lemma collect_mentions:
  assumes "(wt, raw, value) \<in> set batch" "wt \<noteq> RangeDelete" "mutated_key layout db raw = Some k"
  shows "k \<in> set (fst (collect_logical_mutations layout db batch))"
  using assms
proof (induction batch)
  case (Cons op batch)
  then show ?case
    by (cases op) (auto simp: Let_def split: prod.splits write_type.splits option.splits)
qed simp

lemma first_occurrences_length: "length (first_occurrences xs seen) \<le> length xs"
  by (induction xs arbitrary: seen) (auto simp: le_SucI)

lemma collect_length:
  "length (fst (collect_logical_mutations layout db batch)) +
   length (snd (collect_logical_mutations layout db batch)) \<le> length batch"
proof (induction batch)
  case (Cons op batch)
  obtain wt key val keys dbs where "op = (wt, key, val)"
    "collect_logical_mutations layout db batch = (keys, dbs)" by (metis prod_cases3 surj_pair)
  then show ?case using Cons by (cases wt) (auto split: option.split)
qed simp

lemma record_or_publish_steps:
  assumes "(wt, raw, value) \<in> set batch" "wt \<noteq> RangeDelete" "mutated_key layout db raw = Some k"
    and "has_observers (tracker s)"
  obtains acts where
    "tracker (record_or_publish_mutations s False layout db batch) = foldl tracker_step (tracker s) acts"
    "Bump (db, k) \<in> set acts" "\<forall>a \<in> set acts. (\<exists>k. a = Bump k) \<or> (\<exists>d. a = Bump_Db d)"
    "length acts \<le> length batch"
proof -
  obtain keys dbs where kd: "collect_logical_mutations layout db batch = (keys, dbs)" by fastforce
  let ?acts = "map Bump (first_occurrences (map (Pair db) keys) {}) @ map Bump_Db (first_occurrences dbs {})"
  have k: "k \<in> set keys" using collect_mentions [OF assms(1-3)] kd by simp
  then have ne: "keys \<noteq> []" by auto
  have "tracker (record_or_publish_mutations s False layout db batch) = foldl tracker_step (tracker s) ?acts"
    using assms(4) ne
    by (simp add: record_or_publish_mutations_def record_or_publish_collected_mutations_def kd
        publish_mutations_steps)
  moreover have "Bump (db, k) \<in> set ?acts" using k by (auto simp: first_occurrences_set)
  moreover have "length ?acts \<le> length batch"
    using collect_length [of layout db batch] kd first_occurrences_length [of "map (Pair db) keys" "{}"]
      first_occurrences_length [of dbs "{}"] by simp
  ultimately show thesis by (intro that [of ?acts]) auto
qed

lemma stays_watched_bumps:
  "\<forall>a \<in> set acts. (\<exists>k. a = Bump k) \<or> (\<exists>d. a = Bump_Db d) \<Longrightarrow> stays_watched n k acts \<longleftrightarrow> 0 < n"
  by (induction acts) auto

text \<open>C32: A committed write invalidates the watchers of what it wrote: when a key is watched and a batch
  is written that puts, deletes or merges its main key, a field or a field deadline of its hash, a
  member or a rank of its sorted set, or its JSON document, the version that EXEC compares has changed.\<close>

theorem committed_write_invalidates_watch:
  assumes "tracker_ok (tracker s)" "unat (clock (tracker s)) + length batch < usize_max"
    and "valid_owner key" "map_of (key_versions (tracker s)) (mk TableLocalV2 db key) = Some e"
    and "(wt, raw, value) \<in> set batch" "wt \<noteq> RangeDelete"
    and "raw = main_key_bytes TableLocalV2 db key \<or>
      (\<exists>ns v suffix. ns \<in> {HASH_FIELD_NAMESPACE, HASH_FIELD_EXPIRE_NAMESPACE, ZSET_MEMBER_NAMESPACE,
         ZSET_RANK_NAMESPACE, JSON_NODE_NAMESPACE} \<and>
         raw = sub_key_range_start_bytes TableLocalV2 db ns key v @ suffix)"
  shows "key_version (tracker (record_or_publish_mutations s False TableLocalV2 db batch)) (mk TableLocalV2 db key) \<noteq>
      key_version (tracker s) (mk TableLocalV2 db key) \<or>
    db_version (tracker (record_or_publish_mutations s False TableLocalV2 db batch)) db \<noteq> db_version (tracker s) db"
proof -
  have mkd: "mk TableLocalV2 db key = (db, key)" by (simp add: mk_def)
  have mut: "mutated_key TableLocalV2 db raw = Some key"
    using assms(7) mutated_key_current(1,2) [OF assms(3)] by blast
  have obs: "has_observers (tracker s)" using assms(4) by (auto simp: has_observers_def)
  obtain acts where acts:
    "tracker (record_or_publish_mutations s False TableLocalV2 db batch) = foldl tracker_step (tracker s) acts"
    "Bump (db, key) \<in> set acts" "\<forall>a \<in> set acts. (\<exists>k. a = Bump k) \<or> (\<exists>d. a = Bump_Db d)"
    "length acts \<le> length batch"
    using record_or_publish_steps [OF assms(5,6) mut obs] by blast
  have w: "stays_watched (watchers e) (db, key) acts"
    using stays_watched_bumps [OF acts(3)] assms(1,4) unfolding mkd tracker_ok_def by blast
  have bound: "unat (clock (tracker s)) + length acts < usize_max" using assms(2) acts(4) by simp
  have "\<exists>a \<in> set acts. touches (db, key) a" using acts(2) by (auto simp: touches_def)
  then show ?thesis
    using watched_run [OF assms(1) bound assms(4) [unfolded mkd] w] unfolding mkd acts(1) by auto
qed

theorem committed_write_invalidates_watch_witness:
  "\<exists>s. key_version (tracker (record_or_publish_mutations s False TableLocalV2 0
      [(Put, ''k'', ''v'')])) (0, ''k'') \<noteq> key_version (tracker s) (0, ''k'') \<or>
    db_version (tracker (record_or_publish_mutations s False TableLocalV2 0 [(Put, ''k'', ''v'')])) 0 \<noteq>
      db_version (tracker s) 0"
proof -
  let ?s = "\<lparr>tracker = register_key empty_tracker (0, ''k''), pending_keys = [], pending_dbs = []\<rparr>"
  have "valid_owner ''k''" by (simp add: valid_owner_def utf8_valid_ascii_Cons)
  moreover have "tracker_ok (tracker ?s)" using register_key_ok [OF tracker_ok_empty] by simp
  ultimately show ?thesis
    using committed_write_invalidates_watch [of ?s "[(Put, ''k'', ''v'')]" "''k''" 0 "\<lparr>wversion = 0, watchers = 1\<rparr>"
        Put "''k''" "''v''"]
    by (intro exI [of _ ?s]) (simp add: mk_def register_key_def empty_tracker_def)
qed

end
