(* ===== verification/Collection_Keys.thy ===== *)
theory Collection_Keys
  imports Key_Properties
begin

unbundle bit_operations_syntax

text \<open>
  Sub-keys of lists, sets, hashes and sorted sets
  (\<^verbatim>\<open>src/store/db/collection_key_codec.rs\<close>, \<^verbatim>\<open>hash_key_codec.rs\<close>, and the range deletion of
  \<^verbatim>\<open>list_update_trim_remove.rs\<close>). The engine orders keys byte-wise, so each suffix is an
  order-preserving encoding, or the code works around where it is not: list positions are signed
  and stored in two's complement, scores are IEEE doubles.

  A double is its bit pattern. \<open>f64_rank\<close> is the place of a bit pattern on the number line, which
  gives the comparisons of IEEE 754: both zeros have rank 0, a NaN compares with nothing.
\<close>

section \<open>Keys\<close>

definition list_item_prefix :: "u16 \<Rightarrow> bytes \<Rightarrow> u64 \<Rightarrow> bytes" where
  "list_item_prefix db_index key version =
     append_versioned_sub_key_owner (internal_prefix CURRENT db_index @ LIST_ITEM_NAMESPACE) key
       @ [NUL] @ be64 version"

definition list_item_key :: "u16 \<Rightarrow> bytes \<Rightarrow> u64 \<Rightarrow> int \<Rightarrow> bytes" where
  "list_item_key db_index key version index =
     list_item_prefix db_index key version @ be64 (word_of_int index)"

definition set_member_prefix :: "u16 \<Rightarrow> bytes \<Rightarrow> u64 \<Rightarrow> bytes" where
  "set_member_prefix db_index key version =
     append_versioned_sub_key_owner (internal_prefix CURRENT db_index @ SET_MEMBER_NAMESPACE) key
       @ [NUL] @ be64 version"

definition set_member_key :: "u16 \<Rightarrow> bytes \<Rightarrow> u64 \<Rightarrow> bytes \<Rightarrow> bytes" where
  "set_member_key db_index key version member = set_member_prefix db_index key version @ member"

definition zset_member_prefix :: "u16 \<Rightarrow> bytes \<Rightarrow> u64 \<Rightarrow> bytes" where
  "zset_member_prefix db_index key version =
     append_versioned_sub_key_owner (internal_prefix CURRENT db_index @ ZSET_MEMBER_NAMESPACE) key
       @ [NUL] @ be64 version"

definition zset_member_key :: "u16 \<Rightarrow> bytes \<Rightarrow> u64 \<Rightarrow> bytes \<Rightarrow> bytes" where
  "zset_member_key db_index key version member = zset_member_prefix db_index key version @ member"

definition zset_rank_prefix :: "u16 \<Rightarrow> bytes \<Rightarrow> u64 \<Rightarrow> bytes" where
  "zset_rank_prefix db_index key version =
     append_versioned_sub_key_owner (internal_prefix CURRENT db_index @ ZSET_RANK_NAMESPACE) key
       @ [NUL] @ be64 version"

definition hash_field_prefix :: "u16 \<Rightarrow> bytes \<Rightarrow> u64 \<Rightarrow> bytes" where
  "hash_field_prefix db_index key version =
     append_versioned_sub_key_owner (internal_prefix CURRENT db_index @ HASH_FIELD_NAMESPACE) key
       @ [NUL] @ be64 version"

definition hash_field_key :: "u16 \<Rightarrow> bytes \<Rightarrow> u64 \<Rightarrow> bytes \<Rightarrow> bytes" where
  "hash_field_key db_index key version field = hash_field_prefix db_index key version @ field"

definition hash_field_expire_prefix :: "u16 \<Rightarrow> bytes \<Rightarrow> u64 \<Rightarrow> bytes" where
  "hash_field_expire_prefix db_index key version =
     append_versioned_sub_key_owner (internal_prefix CURRENT db_index @ HASH_FIELD_EXPIRE_NAMESPACE) key
       @ [NUL] @ be64 version"

definition hash_field_expire_key :: "u16 \<Rightarrow> bytes \<Rightarrow> u64 \<Rightarrow> bytes \<Rightarrow> bytes" where
  "hash_field_expire_key db_index key version field =
     hash_field_expire_prefix db_index key version @ field"

lemma collection_prefixes:
  "list_item_prefix db key v = sub_key_range_start_bytes CURRENT db LIST_ITEM_NAMESPACE key v"
  "set_member_prefix db key v = sub_key_range_start_bytes CURRENT db SET_MEMBER_NAMESPACE key v"
  "zset_member_prefix db key v = sub_key_range_start_bytes CURRENT db ZSET_MEMBER_NAMESPACE key v"
  "zset_rank_prefix db key v = sub_key_range_start_bytes CURRENT db ZSET_RANK_NAMESPACE key v"
  "hash_field_prefix db key v = sub_key_range_start_bytes CURRENT db HASH_FIELD_NAMESPACE key v"
  "hash_field_expire_prefix db key v = sub_key_range_start_bytes CURRENT db HASH_FIELD_EXPIRE_NAMESPACE key v"
  by (simp_all add: list_item_prefix_def set_member_prefix_def zset_member_prefix_def zset_rank_prefix_def
      hash_field_prefix_def hash_field_expire_prefix_def sub_key_range_start_bytes_def)

section \<open>Deleting a range of list positions\<close>

definition delete_list_storage_range_to_batch ::
  "batch_op list \<Rightarrow> u16 \<Rightarrow> bytes \<Rightarrow> u64 \<Rightarrow> int \<Rightarrow> int \<Rightarrow> batch_op list option"
where
  "delete_list_storage_range_to_batch batch db_index key version start end =
     (if start \<ge> end then Some batch
      else
        (let negative =
           (if start < 0 then
              (let negative_end = min end 0;
                   lower = list_item_key db_index key version start
               in if negative_end = 0
                  then (case prefix_exclusive_upper_bound (list_item_prefix db_index key version) of
                          None \<Rightarrow> None
                        | Some upper \<Rightarrow> Some [(RangeDelete, lower, upper)])
                  else Some [(RangeDelete, lower, list_item_key db_index key version negative_end)])
            else Some []);
           positive =
           (if end > 0 then
              [(RangeDelete, list_item_key db_index key version (max start 0),
                list_item_key db_index key version end)]
            else [])
         in case negative of None \<Rightarrow> None | Some ops \<Rightarrow> Some (batch @ ops @ positive)))"

section \<open>Scores\<close>

definition f64_sign :: "u64 \<Rightarrow> bool" where "f64_sign bits \<longleftrightarrow> drop_bit 63 bits = 1"
definition f64_magnitude :: "u64 \<Rightarrow> u64" where "f64_magnitude bits = bits AND 0x7FFFFFFFFFFFFFFF"
definition f64_isnan :: "u64 \<Rightarrow> bool" where "f64_isnan bits \<longleftrightarrow> f64_magnitude bits > 0x7FF0000000000000"
definition f64_rank :: "u64 \<Rightarrow> int" where
  "f64_rank bits = (if f64_sign bits then - uint (f64_magnitude bits) else uint (f64_magnitude bits))"
definition f64_lt :: "u64 \<Rightarrow> u64 \<Rightarrow> bool" where
  "f64_lt a b \<longleftrightarrow> \<not> f64_isnan a \<and> \<not> f64_isnan b \<and> f64_rank a < f64_rank b"
definition f64_eq :: "u64 \<Rightarrow> u64 \<Rightarrow> bool" where
  "f64_eq a b \<longleftrightarrow> \<not> f64_isnan a \<and> \<not> f64_isnan b \<and> f64_rank a = f64_rank b"

abbreviation f64_zero :: u64 where "f64_zero \<equiv> 0"
abbreviation f64_neg_zero :: u64 where "f64_neg_zero \<equiv> 0x8000000000000000"

definition encode_sorted_f64 :: "u64 \<Rightarrow> bytes" where
  "encode_sorted_f64 bits =
     be64 (if drop_bit 63 bits = 1 then NOT bits else bits XOR push_bit 63 1)"

definition decode_sorted_f64 :: "bytes \<Rightarrow> u64" where
  "decode_sorted_f64 bs =
     (let encoded = from_be64 bs
      in if drop_bit 63 encoded = 1 then encoded XOR push_bit 63 1 else NOT encoded)"

definition decode_zset_score :: "bytes \<Rightarrow> u64 option" where
  "decode_zset_score raw = (if length raw = 8 then Some (from_be64 raw) else None)"

definition zset_rank_key :: "u16 \<Rightarrow> bytes \<Rightarrow> u64 \<Rightarrow> u64 \<Rightarrow> bytes \<Rightarrow> bytes" where
  "zset_rank_key db_index key version score member =
     zset_rank_prefix db_index key version @ encode_sorted_f64 score @ [NUL] @ member"

definition zset_score_scan_bounds ::
  "u16 \<Rightarrow> bytes \<Rightarrow> u64 \<Rightarrow> u64 \<Rightarrow> bool \<Rightarrow> u64 \<Rightarrow> bool \<Rightarrow> (bytes \<times> bytes option) option"
where
  "zset_score_scan_bounds db_index key version mn min_inclusive mx max_inclusive =
     (if f64_isnan mn \<or> f64_isnan mx \<or> f64_lt mx mn \<or>
         (f64_eq mn mx \<and> (\<not> min_inclusive \<or> \<not> max_inclusive))
      then None
      else
        (let min_for_encoding =
               (if f64_eq mn f64_zero \<and> min_inclusive then f64_neg_zero
                else if f64_eq mn f64_zero then f64_zero else mn);
             min_prefix = zset_rank_prefix db_index key version @ encode_sorted_f64 min_for_encoding;
             max_for_encoding =
               (if f64_eq mx f64_zero \<and> \<not> max_inclusive then f64_neg_zero
                else if f64_eq mx f64_zero then f64_zero else mx);
             max_prefix = zset_rank_prefix db_index key version @ encode_sorted_f64 max_for_encoding;
             upper = (if max_inclusive then prefix_exclusive_upper_bound max_prefix else Some max_prefix)
         in if min_inclusive then Some (min_prefix, upper)
            else (case prefix_exclusive_upper_bound min_prefix of
                    None \<Rightarrow> None | Some lower \<Rightarrow> Some (lower, upper))))"

section \<open>The encoded score orders like the score\<close>

lemma top_bit_iff: "drop_bit 63 (w :: u64) = 1 \<longleftrightarrow> 2 ^ 63 \<le> unat w"
proof -
  have "unat (drop_bit 63 w) = unat w div 2 ^ 63"
    by (simp add: drop_bit_eq_div unat_div_distrib)
  moreover have "unat w < 2 ^ 64" using unsigned_less [where 'a = nat, of w] by simp
  then have "unat w div 2 ^ 63 = (if 2 ^ 63 \<le> unat w then 1 else 0)"
    by (auto simp: div_nat_eqI)
  moreover have "drop_bit 63 w = 1 \<longleftrightarrow> unat (drop_bit 63 w) = 1"
    by (metis unsigned_1 unsigned_word_eqI)
  ultimately show ?thesis by simp
qed

lemma unat_low_bits: "unat ((w :: u64) AND 0x7FFFFFFFFFFFFFFF) = unat w mod 2 ^ 63"
proof -
  have "w AND 0x7FFFFFFFFFFFFFFF = take_bit 63 w" by (simp add: take_bit_eq_mask mask_eq_exp_minus_1)
  then show ?thesis by (simp add: take_bit_eq_mod unat_mod_distrib)
qed

lemma unat_complement: "unat (NOT (w :: u64)) = 2 ^ 64 - 1 - unat w"
proof -
  have "NOT w = - 1 - w" by (simp add: not_eq_complement)
  moreover have "w \<le> - 1" by simp
  moreover have "unat (- 1 :: u64) = 2 ^ 64 - 1" by (simp add: unsigned_minus_1_eq_mask mask_eq_exp_minus_1)
  ultimately show ?thesis using unat_sub [of w "- 1"] by metis
qed

lemma unat_set_top_bit: "unat (w :: u64) < 2 ^ 63 \<Longrightarrow> unat (w XOR push_bit 63 1) = unat w + 2 ^ 63"
proof -
  assume a: "unat w < 2 ^ 63"
  have "unat (drop_bit 63 w) = unat w div 2 ^ 63"
    by (simp add: drop_bit_eq_div unat_div_distrib)
  then have "drop_bit 63 w = 0" using a by (simp add: unat_eq_0)
  then have "\<not> bit w 63" by (simp add: bit_iff_odd_drop_bit)
  then have "\<not> bit (w AND push_bit 63 1) n" for n
    unfolding bit_and_iff bit_push_bit_iff bit_1_iff by (cases "n = 63") auto
  then have "w AND push_bit 63 1 = 0" by (intro bit_word_eqI) simp
  then have "w XOR push_bit 63 1 = w + push_bit 63 1" by (simp add: disjunctive_add_eq_xor)
  then show ?thesis using a by (simp add: unat_word_ariths)
qed

lemma f64_split: "unat b = (if f64_sign b then 2 ^ 63 else 0) + unat (f64_magnitude b)"
  "unat (f64_magnitude b) < 2 ^ 63"
proof -
  have lt: "unat b < 2 ^ 64" using unsigned_less [where 'a = nat, of b] by simp
  have m: "unat (f64_magnitude b) = unat b mod 2 ^ 63" by (simp add: f64_magnitude_def unat_low_bits)
  show "unat (f64_magnitude b) < 2 ^ 63" unfolding m by simp
  show "unat b = (if f64_sign b then 2 ^ 63 else 0) + unat (f64_magnitude b)"
  proof (cases "2 ^ 63 \<le> unat b")
    case True
    then have "unat b mod 2 ^ 63 = unat b - 2 ^ 63" using lt by (simp add: le_mod_geq)
    then show ?thesis using True by (simp add: f64_sign_def top_bit_iff m)
  next
    case False
    then show ?thesis by (simp add: f64_sign_def top_bit_iff m)
  qed
qed

definition sorted_word :: "u64 \<Rightarrow> u64" where
  "sorted_word bits = (if drop_bit 63 bits = 1 then NOT bits else bits XOR push_bit 63 1)"

lemma encode_sorted_f64_word: "encode_sorted_f64 b = be64 (sorted_word b)"
  by (simp add: encode_sorted_f64_def sorted_word_def)

lemma sorted_word_rank: "int (unat (sorted_word b)) = 2 ^ 63 + f64_rank b - (if f64_sign b then 1 else 0)"
proof (cases "f64_sign b")
  case True
  then have s: "drop_bit 63 b = 1" by (simp add: f64_sign_def)
  have "unat (sorted_word b) = 2 ^ 64 - 1 - unat b" by (simp add: sorted_word_def s unat_complement)
  also have "\<dots> = 2 ^ 63 - 1 - unat (f64_magnitude b)" using f64_split(1) [of b] True by simp
  finally have "int (unat (sorted_word b)) = 2 ^ 63 - 1 - int (unat (f64_magnitude b))"
    using f64_split(2) [of b] by simp
  then show ?thesis using True by (simp add: f64_rank_def)
next
  case False
  then have s: "drop_bit 63 b \<noteq> 1" by (simp add: f64_sign_def)
  then have "unat b < 2 ^ 63" by (simp add: top_bit_iff)
  then have "unat (sorted_word b) = unat b + 2 ^ 63" using s unat_set_top_bit [of b] by (simp only: sorted_word_def if_False)
  then show ?thesis using False f64_split(1) [of b] by (simp add: f64_rank_def)
qed

text \<open>The position of a score among all encoded scores: its rank, with -0.0 just below 0.0.\<close>

definition f64_order :: "u64 \<Rightarrow> int" where
  "f64_order b = f64_rank b - (if f64_sign b then 1 else 0)"

lemma encode_sorted_less: "encode_sorted_f64 a < encode_sorted_f64 b \<longleftrightarrow> f64_order a < f64_order b"
proof -
  have "sorted_word a < sorted_word b \<longleftrightarrow> int (unat (sorted_word a)) < int (unat (sorted_word b))"
    by (simp only: word_less_nat_alt of_nat_less_iff)
  then have "sorted_word a < sorted_word b \<longleftrightarrow> f64_order a < f64_order b"
    unfolding sorted_word_rank f64_order_def by auto
  then show ?thesis unfolding encode_sorted_f64_word be64_less_iff .
qed

lemma encode_sorted_le: "encode_sorted_f64 a \<le> encode_sorted_f64 b \<longleftrightarrow> f64_order a \<le> f64_order b"
  using encode_sorted_less [of b a] by auto

lemma f64_rank_sign: "f64_sign b \<Longrightarrow> f64_rank b \<le> 0" "\<not> f64_sign b \<Longrightarrow> 0 \<le> f64_rank b"
  by (simp_all add: f64_rank_def)

lemma f64_zero_facts [simp]:
  "f64_order 0 = 0" "f64_order f64_neg_zero = - 1" "f64_rank 0 = 0" "f64_rank f64_neg_zero = 0"
  "\<not> f64_isnan 0" "\<not> f64_isnan f64_neg_zero"
proof -
  have s: "f64_sign f64_neg_zero" "\<not> f64_sign 0" by (simp_all add: f64_sign_def top_bit_iff)
  have m: "f64_magnitude f64_neg_zero = 0" "f64_magnitude 0 = 0" by (simp_all add: f64_magnitude_def)
  show "f64_order 0 = 0" "f64_order f64_neg_zero = - 1" "f64_rank 0 = 0" "f64_rank f64_neg_zero = 0"
    "\<not> f64_isnan 0" "\<not> f64_isnan f64_neg_zero"
    using s m by (simp_all add: f64_order_def f64_rank_def f64_isnan_def)
qed

lemma f64_order_less_iff: "f64_rank a \<noteq> 0 \<or> f64_rank b \<noteq> 0 \<Longrightarrow> f64_order a < f64_order b \<longleftrightarrow> f64_rank a < f64_rank b"
  using f64_rank_sign [of a] f64_rank_sign [of b] by (auto simp: f64_order_def)

lemma length_encode_sorted [simp]: "length (encode_sorted_f64 b) = 8"
  by (simp add: encode_sorted_f64_word)

lemma decode_sorted_encode: "decode_sorted_f64 (encode_sorted_f64 b) = b"
proof -
  have top: "drop_bit 63 (sorted_word b) = 1 \<longleftrightarrow> drop_bit 63 b \<noteq> 1"
  proof -
    have "2 ^ 63 \<le> int (unat (sorted_word b)) \<longleftrightarrow> \<not> f64_sign b"
      using f64_rank_sign [of b] unfolding sorted_word_rank by auto
    moreover have "(2 :: nat) ^ 63 \<le> unat x \<longleftrightarrow> (2 :: int) ^ 63 \<le> int (unat x)" for x :: u64
      by (metis of_nat_le_iff of_nat_numeral of_nat_power)
    ultimately show ?thesis by (simp only: top_bit_iff f64_sign_def)
  qed
  show ?thesis
    unfolding decode_sorted_f64_def encode_sorted_f64_word from_be64_be64 Let_def top
    by (simp add: sorted_word_def xor.assoc)
qed

section \<open>Score ranges\<close>

lemma prefix_bound_fixed:
  assumes "prefix_exclusive_upper_bound (p @ e) = Some u" "length e = length d"
  shows "p @ d @ (r :: bytes) < u \<longleftrightarrow> d \<le> e" "u \<le> p @ d @ r \<longleftrightarrow> e < d"
proof -
  have iff: "p @ e \<le> p @ d @ r \<and> p @ d @ r < u \<longleftrightarrow> d = e"
    using prefix_exclusive_upper_bound_Some [OF assms(1), of "p @ d @ r"] assms(2)
    by (auto simp: starts_with_iff append_same_length)
  have eu: "p @ e < u" using prefix_exclusive_upper_bound_Some [OF assms(1), of "p @ e"]
    by (auto simp: starts_with_iff)
  have le: "p @ e \<le> p @ d @ r \<longleftrightarrow> e < d \<or> e = d"
    using list_less_append_iff [of e d "[]" r] assms(2) by (cases r) (auto simp: order_le_less)
  show lt: "p @ d @ r < u \<longleftrightarrow> d \<le> e"
  proof
    assume "p @ d @ r < u"
    then show "d \<le> e" using iff le by (meson linorder_not_less order_less_imp_le order_refl)
  next
    assume "d \<le> e"
    show "p @ d @ r < u"
    proof (cases "d = e")
      case True
      then show ?thesis using iff by simp
    next
      case False
      then have "p @ d @ r < p @ e" using \<open>d \<le> e\<close> list_less_append_iff [of d e r "[]"] assms(2) by auto
      then show ?thesis using eu by (rule order_less_trans)
    qed
  qed
  show "u \<le> p @ d @ r \<longleftrightarrow> e < d" using lt by (meson linorder_not_less)
qed

text \<open>The scores an interval with inclusive or exclusive ends contains, as IEEE compares.\<close>

definition in_score_interval :: "u64 \<Rightarrow> bool \<Rightarrow> u64 \<Rightarrow> bool \<Rightarrow> u64 \<Rightarrow> bool" where
  "in_score_interval mn min_inclusive mx max_inclusive score \<longleftrightarrow>
     (f64_lt mn score \<or> (min_inclusive \<and> f64_eq mn score)) \<and>
     (f64_lt score mx \<or> (max_inclusive \<and> f64_eq score mx))"

lemma rank_key_bound:
  assumes "prefix_exclusive_upper_bound (zset_rank_prefix db key v @ encode_sorted_f64 e) = Some u"
  shows "zset_rank_key db key v s m < u \<longleftrightarrow> f64_order s \<le> f64_order e"
    "u \<le> zset_rank_key db key v s m \<longleftrightarrow> f64_order e < f64_order s"
  using prefix_bound_fixed [OF assms, of "encode_sorted_f64 s" "NUL # m"]
  by (simp_all add: zset_rank_key_def encode_sorted_le encode_sorted_less)

lemma rank_key_start:
  "zset_rank_prefix db key v @ encode_sorted_f64 e \<le> zset_rank_key db key v s m \<longleftrightarrow> f64_order e \<le> f64_order s"
  "zset_rank_key db key v s m < zset_rank_prefix db key v @ encode_sorted_f64 e \<longleftrightarrow> f64_order s < f64_order e"
proof -
  have lt: "encode_sorted_f64 s @ NUL # m < encode_sorted_f64 e @ [] \<longleftrightarrow> f64_order s < f64_order e"
    by (subst list_less_append_iff) (auto simp: encode_sorted_less)
  then show "zset_rank_key db key v s m < zset_rank_prefix db key v @ encode_sorted_f64 e \<longleftrightarrow> f64_order s < f64_order e"
    by (simp add: zset_rank_key_def)
  with lt show "zset_rank_prefix db key v @ encode_sorted_f64 e \<le> zset_rank_key db key v s m \<longleftrightarrow> f64_order e \<le> f64_order s"
    by (meson linorder_not_less)
qed

lemma rank_prefix_bound_exists:
  "\<exists>u. prefix_exclusive_upper_bound (zset_rank_prefix db key v @ e) = Some u"
  by (rule prefix_exclusive_upper_bound_exists [of NUL]) (simp_all add: zset_rank_prefix_def)

lemma zero_adjusted_order:
  "f64_order (if f64_rank b = 0 then f64_neg_zero else b) \<le> f64_order s \<longleftrightarrow> f64_rank b \<le> f64_rank s"
  "f64_order (if f64_rank b = 0 then 0 else b) < f64_order s \<longleftrightarrow> f64_rank b < f64_rank s"
proof -
  show "f64_order (if f64_rank b = 0 then f64_neg_zero else b) \<le> f64_order s \<longleftrightarrow> f64_rank b \<le> f64_rank s"
    using f64_rank_sign [of s] f64_order_less_iff [of s b]
    by (cases "f64_rank b = 0") (auto simp: f64_order_def [of s] not_less [symmetric])
  show "f64_order (if f64_rank b = 0 then 0 else b) < f64_order s \<longleftrightarrow> f64_rank b < f64_rank s"
    using f64_rank_sign [of s] f64_order_less_iff [of b s]
    by (cases "f64_rank b = 0") (auto simp: f64_order_def [of s])
qed

lemma scan_bound_encodings:
  assumes "\<not> f64_isnan b"
  shows "(if f64_eq b f64_zero \<and> i then f64_neg_zero else if f64_eq b f64_zero then f64_zero else b) =
    (if f64_rank b = 0 then (if i then f64_neg_zero else 0) else b)"
  using assms by (auto simp: f64_eq_def)

text \<open>A score range scan visits exactly the members whose score lies in the interval: for every
  member with a score that is a number, its rank key is inside the scanned key range if and only if the
  score is in the interval as IEEE 754 compares, with inclusive and exclusive ends, infinities and
  the two zeros (which are equal as scores and different as keys); an empty range is reported
  exactly when no score can be in it.\<close>

theorem score_scan_exact:
  "\<not> f64_isnan s \<longrightarrow>
   (case zset_score_scan_bounds db key v mn mi mx xi of
      None \<Rightarrow> \<not> in_score_interval mn mi mx xi s
    | Some (lower, upper) \<Rightarrow>
        (lower \<le> zset_rank_key db key v s m \<and>
         (case upper of None \<Rightarrow> True | Some u \<Rightarrow> zset_rank_key db key v s m < u)) \<longleftrightarrow>
        in_score_interval mn mi mx xi s)"
proof
  assume s: "\<not> f64_isnan s"
  let ?P = "zset_rank_prefix db key v" and ?K = "zset_rank_key db key v s m"
  show "case zset_score_scan_bounds db key v mn mi mx xi of
      None \<Rightarrow> \<not> in_score_interval mn mi mx xi s
    | Some (lower, upper) \<Rightarrow>
        (lower \<le> ?K \<and> (case upper of None \<Rightarrow> True | Some u \<Rightarrow> ?K < u)) \<longleftrightarrow>
        in_score_interval mn mi mx xi s"
  proof (cases "f64_isnan mn \<or> f64_isnan mx \<or> f64_lt mx mn \<or> (f64_eq mn mx \<and> (\<not> mi \<or> \<not> xi))")
    case True
    then have "zset_score_scan_bounds db key v mn mi mx xi = None" by (simp add: zset_score_scan_bounds_def)
    then show ?thesis using True by (auto simp: in_score_interval_def f64_lt_def f64_eq_def)
  next
    case False
    then have n: "\<not> f64_isnan mn" "\<not> f64_isnan mx" by auto
    let ?lo = "if f64_rank mn = 0 then (if mi then f64_neg_zero else 0) else mn"
    let ?hi = "if f64_rank mx = 0 then (if \<not> xi then f64_neg_zero else 0) else mx"
    obtain ul where ul: "prefix_exclusive_upper_bound (?P @ encode_sorted_f64 ?lo) = Some ul"
      using rank_prefix_bound_exists by blast
    obtain uh where uh: "prefix_exclusive_upper_bound (?P @ encode_sorted_f64 ?hi) = Some uh"
      using rank_prefix_bound_exists by blast
    have bounds: "zset_score_scan_bounds db key v mn mi mx xi =
        Some (if mi then ?P @ encode_sorted_f64 ?lo else ul,
              Some (if xi then uh else ?P @ encode_sorted_f64 ?hi))"
      unfolding zset_score_scan_bounds_def if_not_P [OF False] scan_bound_encodings [OF n(1)]
        scan_bound_encodings [OF n(2)] Let_def ul uh by simp
    have lower: "(if mi then ?P @ encode_sorted_f64 ?lo else ul) \<le> ?K \<longleftrightarrow>
        f64_lt mn s \<or> (mi \<and> f64_eq mn s)"
      using rank_key_start(1) [of db key v ?lo s m] rank_key_bound(2) [OF ul, of s m]
        zero_adjusted_order [of mn s] s n by (auto simp: f64_lt_def f64_eq_def)
    have upper: "?K < (if xi then uh else ?P @ encode_sorted_f64 ?hi) \<longleftrightarrow>
        f64_lt s mx \<or> (xi \<and> f64_eq s mx)"
    proof -
      have "f64_order s \<le> f64_order (if f64_rank mx = 0 then 0 else mx) \<longleftrightarrow> f64_rank s \<le> f64_rank mx"
        "f64_order s < f64_order (if f64_rank mx = 0 then f64_neg_zero else mx) \<longleftrightarrow> f64_rank s < f64_rank mx"
        using zero_adjusted_order [of mx s] by auto
      then show ?thesis
        using rank_key_start(2) [of db key v s m ?hi] rank_key_bound(1) [OF uh, of s m] s n
        by (auto simp: f64_lt_def f64_eq_def)
    qed
    show ?thesis unfolding bounds using lower upper by (simp add: in_score_interval_def)
  qed
qed

theorem score_scan_exact_witness:
  "\<not> in_score_interval f64_neg_zero False 0 True 0"
proof -
  have "zset_score_scan_bounds 0 ''z'' 1 f64_neg_zero False 0 True = None"
    by (simp add: zset_score_scan_bounds_def f64_eq_def)
  then show ?thesis
    using score_scan_exact [where s = 0 and db = 0 and key = "''z''" and v = 1 and mn = f64_neg_zero
        and mi = False and mx = 0 and xi = True] by simp
qed

section \<open>List positions\<close>

lemma list_item_order:
  assumes "i64_range i" "i64_range j"
  shows "list_item_key db key v i < list_item_key db key v j \<longleftrightarrow>
    (if (i < 0) = (j < 0) then i < j else 0 \<le> i)"
proof -
  have "uint (word_of_int k :: u64) = (if k < 0 then k + 2 ^ 64 else k)" if "i64_range k" for k
  proof -
    have "k mod 2 ^ 64 = (if k < 0 then k + 2 ^ 64 else k)"
    proof (cases "k < 0")
      case True
      have "(k + 2 ^ 64) mod 2 ^ 64 = k + 2 ^ 64" using that True by (intro mod_pos_pos_trivial) (auto simp: i64_range_def)
      then show ?thesis using True by simp
    next
      case False
      then show ?thesis using that by (simp add: i64_range_def mod_pos_pos_trivial)
    qed
    then show ?thesis by (simp add: uint_word_of_int)
  qed
  then show ?thesis
    using assms by (auto simp: list_item_key_def be64_less_iff word_less_def i64_range_def)
qed

lemma delete_list_range_run:
  assumes "i64_range start" "i64_range end"
  obtains dels where "delete_list_storage_range_to_batch batch db key v start end = Some (batch @ dels)"
    "\<forall>op \<in> set dels. fst op = RangeDelete"
    "\<And>i. i64_range i \<Longrightarrow> deleted_by dels (list_item_key db key v i) \<longleftrightarrow> start \<le> i \<and> i < end"
    "\<And>x. deleted_by dels x \<Longrightarrow> starts_with x (list_item_prefix db key v)"
proof (cases "start < end")
  case False
  then show ?thesis by (intro that [of "[]"]) (auto simp: delete_list_storage_range_to_batch_def)
next
  case True
  let ?P = "list_item_prefix db key v" and ?k = "list_item_key db key v"
  obtain ub where ub: "prefix_exclusive_upper_bound ?P = Some ub"
    using sub_key_range_end_exists unfolding collection_prefixes sub_key_range_end_bytes_def by blast
  note inP = prefix_exclusive_upper_bound_Some [OF ub]
  have kP: "?P \<le> ?k j \<and> ?k j < ub" for j unfolding inP by (simp add: list_item_key_def)
  let ?neg = "if start < 0 then [(RangeDelete, ?k start, if end \<ge> 0 then ub else ?k end)] else []"
  let ?pos = "if end > 0 then [(RangeDelete, ?k (max start 0), ?k end)] else []"
  have eq: "delete_list_storage_range_to_batch batch db key v start end = Some (batch @ ?neg @ ?pos)"
    using True ub by (auto simp: delete_list_storage_range_to_batch_def Let_def min_def)
  have le: "?k a \<le> ?k b \<longleftrightarrow> \<not> ?k b < ?k a" for a b by auto
  have r0: "i64_range (max start 0)" using assms(1) by (simp add: i64_range_def)
  have "deleted_by (?neg @ ?pos) (?k i) \<longleftrightarrow> start \<le> i \<and> i < end" if i: "i64_range i" for i
  proof -
    have neg: "deleted_by ?neg (?k i) \<longleftrightarrow> start < 0 \<and> i < 0 \<and> start \<le> i \<and> i < end"
      using kP [of i] list_item_order [OF i assms(1)] list_item_order [OF i assms(2)]
      by (auto simp: deleted_by_def le)
    have pos: "deleted_by ?pos (?k i) \<longleftrightarrow> end > 0 \<and> 0 \<le> i \<and> max start 0 \<le> i \<and> i < end"
      using list_item_order [OF i r0] list_item_order [OF i assms(2)]
      by (auto simp: deleted_by_def le)
    show ?thesis using neg pos unfolding deleted_by_append by auto
  qed
  moreover have "starts_with x ?P" if "deleted_by (?neg @ ?pos) x" for x
    using that unfolding inP [symmetric] using kP [of start] kP [of "max start 0"] kP [of "end"]
    by (auto simp: deleted_by_def split: if_splits intro: order_trans order_less_trans)
  ultimately show ?thesis by (intro that [OF eq]) auto
qed

text \<open>Deleting the list positions from start up to end (exclusive) deletes exactly those elements of that
  list, although negative positions sort after non-negative ones in the key space; it never panics and
  touches no key outside the list.\<close>

theorem list_range_delete_exact:
  assumes "i64_range start" "i64_range end" "i64_range i"
  shows "\<exists>batch'. delete_list_storage_range_to_batch batch db key v start end = Some batch' \<and>
    (deleted_by batch' (list_item_key db key v i) \<longleftrightarrow>
      deleted_by batch (list_item_key db key v i) \<or> (start \<le> i \<and> i < end)) \<and>
    (\<forall>x. deleted_by batch' x \<longrightarrow> deleted_by batch x \<or> starts_with x (list_item_prefix db key v))"
  using delete_list_range_run [OF assms(1,2)] assms(3) by (metis deleted_by_append)

theorem list_range_delete_exact_witness:
  "\<exists>batch'. delete_list_storage_range_to_batch [] 0 ''l'' 1 (- 2) 3 = Some batch' \<and>
    deleted_by batch' (list_item_key 0 ''l'' 1 (- 1)) \<and> \<not> deleted_by batch' (list_item_key 0 ''l'' 1 3)"
proof -
  have "i64_range (- 2)" "i64_range 3" "i64_range (- 1)" by (simp_all add: i64_range_def)
  from list_range_delete_exact [OF this(1,2,3), of "[]" 0 "''l''" 1] list_range_delete_exact [OF this(1,2,2), of "[]" 0 "''l''" 1]
  show ?thesis by auto
qed

end
