(* ===== verification/List_Ops.thy ===== *)
theory List_Ops
  imports Collection_Keys
begin

text \<open>
  Positions of a split list (\<^verbatim>\<open>src/store/db/native_list_helpers.rs\<close>) and LSET
  (\<^verbatim>\<open>list_update_trim_remove.rs\<close>). The metadata of a list is the half-open interval
  \<open>[head, tail)\<close> of its storage positions.
\<close>

record list_meta =
  lm_expire_ms :: u64
  lm_version :: u64
  lm_head :: int
  lm_tail :: int

definition resolve_list_index :: "list_meta \<Rightarrow> int \<Rightarrow> int option" where
  "resolve_list_index meta index =
     (let len = lm_tail meta - lm_head meta
      in if len \<le> 0 then None
         else (let normalized = (if index < 0 then len + index else index)
               in if normalized < 0 \<or> normalized \<ge> len then None
                  else Some (lm_head meta + normalized)))"

definition resolve_list_range :: "list_meta \<Rightarrow> int \<Rightarrow> int \<Rightarrow> (int \<times> int) option" where
  "resolve_list_range meta start stop =
     (let len = lm_tail meta - lm_head meta
      in if len \<le> 0 then None
         else (let normalized_start = max (if start < 0 then len + start else start) 0;
                   normalized_stop = min (if stop < 0 then len + stop else stop) (len - 1)
               in if normalized_start > normalized_stop \<or> normalized_start \<ge> len \<or> normalized_stop < 0
                  then None
                  else Some (lm_head meta + normalized_start, lm_head meta + normalized_stop)))"

text \<open>
  LSET: the promotion of a packed list and the metadata read are what the store answers; the result
  is the error, or the batch that is written.
\<close>

definition list_set ::
  "string + unit \<Rightarrow> string + list_meta option \<Rightarrow> u16 \<Rightarrow> bytes \<Rightarrow> int \<Rightarrow> bytes \<Rightarrow> string + batch_op list"
where
  "list_set promote_packed_list read_meta db_index key index val =
     (case promote_packed_list of
        Inl e \<Rightarrow> Inl e
      | Inr _ \<Rightarrow>
          (case read_meta of
             Inl e \<Rightarrow> Inl e
           | Inr None \<Rightarrow> Inl ''ERR no such key''
           | Inr (Some meta) \<Rightarrow>
               (case resolve_list_index meta index of
                  None \<Rightarrow> Inl ''ERR index out of range''
                | Some storage_index \<Rightarrow>
                    Inr [(Put, list_item_key db_index key (lm_version meta) storage_index, val)])))"

text \<open>The list that the positions describe: element \<open>j\<close> is stored at \<open>head + j\<close>.\<close>

definition list_positions :: "list_meta \<Rightarrow> int list" where
  "list_positions meta = [lm_head meta .. lm_tail meta - 1]"

lemma length_list_positions: "length (list_positions meta) = nat (lm_tail meta - lm_head meta)"
  by (simp add: list_positions_def)

lemma nth_list_positions:
  "j < nat (lm_tail meta - lm_head meta) \<Longrightarrow> list_positions meta ! j = lm_head meta + int j"
  unfolding list_positions_def by (subst nth_upto) auto

text \<open>A list index denotes the element that Redis means: a non-negative index counts from the head, a
  negative one from the tail, and an index outside the list denotes nothing.\<close>

theorem resolve_list_index_correct:
  "resolve_list_index meta index =
    (let n = int (length (list_positions meta)); j = (if index < 0 then n + index else index)
     in if 0 \<le> j \<and> j < n then Some (list_positions meta ! nat j) else None)"
  by (auto simp: resolve_list_index_def Let_def length_list_positions nth_list_positions)

text \<open>A list range denotes the elements between its clamped ends: the positions from the resolved
  start to the resolved stop are exactly those elements, and the range is empty exactly when no element
  is between them.\<close>

theorem resolve_list_range_correct:
  "(let n = int (length (list_positions meta));
        a = (if start < 0 then n + start else start); b = (if stop < 0 then n + stop else stop)
    in (case resolve_list_range meta start stop of
          None \<Rightarrow> \<forall>j. \<not> (0 \<le> j \<and> j < n \<and> a \<le> j \<and> j \<le> b)
        | Some (lo, hi) \<Rightarrow> \<forall>j. (0 \<le> j \<and> j < n \<and> a \<le> j \<and> j \<le> b) \<longleftrightarrow>
            (0 \<le> j \<and> j < n \<and> lo \<le> list_positions meta ! nat j \<and> list_positions meta ! nat j \<le> hi)))"
  by (auto simp: resolve_list_range_def Let_def length_list_positions nth_list_positions)

end
