(* ===== verification/Watch_Properties.thy ===== *)
theory Watch_Properties
  imports Key_Watch List_Ops
begin

text \<open>
  Properties of mutation tracking that span the key encoding, the tracker, the list commands and the
  commit of a transaction: blocked readers are woken, and what becomes of writes whose
  keys are not reported.
\<close>

section \<open>Blocked readers are woken\<close>

definition waits_for :: "key_mutation_tracker \<Rightarrow> wkey \<Rightarrow> nat \<Rightarrow> bool" where
  "waits_for t key signal \<longleftrightarrow> signal \<in> live_signals t \<and>
     (\<exists>ws. map_of (key_waiters t) key = Some ws \<and> signal \<in> set ws)"

lemma map_of_put_waiters:
  "map_of (put_waiters key ws al) = (map_of al)(key := (if ws = [] then None else Some ws))"
  by (simp add: put_waiters_def)

lemma notify_keeps_waiter: "waits_for t key signal \<Longrightarrow> waits_for (notify_key_waiters t k) key signal"
  by (auto simp: waits_for_def notify_key_waiters_def Let_def map_of_put_waiters filter_empty_conv
      split: option.splits)

lemma notify_all_keep_waiter:
  "waits_for t key signal \<Longrightarrow> waits_for (foldl notify_key_waiters t ks) key signal"
  by (induction ks arbitrary: t) (auto intro: notify_keeps_waiter)

lemma permits_grow: "permits t \<subseteq> permits (notify_key_waiters t k)"
  by (auto simp: notify_key_waiters_def Let_def split: option.splits)

lemma permits_grow_all: "permits t \<subseteq> permits (foldl notify_key_waiters t ks)"
  by (induction ks arbitrary: t) (auto dest: subsetD [OF permits_grow])

lemma notify_wakes: "waits_for t key signal \<Longrightarrow> signal \<in> permits (notify_key_waiters t key)"
  by (auto simp: waits_for_def notify_key_waiters_def Let_def)

lemma notify_all_wakes:
  "waits_for t key signal \<Longrightarrow> key \<in> set ks \<Longrightarrow> signal \<in> permits (foldl notify_key_waiters t ks)"
proof (induction ks arbitrary: t)
  case (Cons k ks)
  show ?case
  proof (cases "k = key")
    case True
    then show ?thesis using notify_wakes [OF Cons.prems(1)] permits_grow_all by auto
  next
    case False
    then show ?thesis using Cons notify_keeps_waiter [OF Cons.prems(1)] by auto
  qed
qed simp

lemma step_keeps_waiter: "waits_for t key signal \<Longrightarrow> waits_for (tracker_step t a) key signal"
proof (cases a)
  case (Bump k)
  assume "waits_for t key signal"
  from notify_keeps_waiter [OF this, of k] show ?thesis
    using Bump by (auto simp: bump_key_def Let_def waits_for_def split: option.splits)
next
  case (Bump_Db d)
  assume "waits_for t key signal"
  from notify_all_keep_waiter [OF this] show ?thesis
    using Bump_Db by (auto simp: bump_db_def Let_def waits_for_def notify_db_waiters_def)
qed (auto simp: waits_for_def register_key_def unregister_key_def split: option.splits)

lemma run_keeps_waiter: "waits_for t key signal \<Longrightarrow> waits_for (foldl tracker_step t acts) key signal"
  by (induction acts arbitrary: t) (auto intro: step_keeps_waiter)

lemma touch_wakes:
  assumes "waits_for t key signal" "touches key a"
  shows "signal \<in> permits (tracker_step t a)"
proof (cases "a = Bump key")
  case True
  then show ?thesis using notify_wakes [OF assms(1)] by (auto simp: bump_key_def Let_def split: option.splits)
next
  case False
  then have a: "a = Bump_Db (fst key)" using assms(2) by (simp add: touches_def)
  have "key \<in> set (filter (\<lambda>k. fst k = fst key) (map fst (key_waiters t)))"
    using assms(1) by (auto simp: waits_for_def dest!: map_of_SomeD) (metis fst_conv image_eqI)
  from notify_all_wakes [OF assms(1) this] show ?thesis
    by (simp add: a bump_db_def notify_db_waiters_def Let_def)
qed

lemma register_waiter_waits:
  assumes "key \<in> set keys"
  shows "waits_for (fst (register_waiter t keys signal)) key signal"
proof -
  let ?push = "\<lambda>waiters k. AList.update k
    ((case map_of waiters k of None \<Rightarrow> [] | Some ws \<Rightarrow> ws) @ [signal]) waiters"
  have "\<exists>ws. map_of (foldl ?push al ks) key = Some ws \<and> signal \<in> set ws"
    if "key \<in> set ks \<or> (\<exists>ws. map_of al key = Some ws \<and> signal \<in> set ws)" for al ks
    using that
  proof (induction ks arbitrary: al)
    case (Cons k ks)
    show ?case
      by (simp, rule Cons.IH) (use Cons.prems in \<open>auto simp: map_of_update\<close>)
  qed auto
  then show ?thesis using assms by (simp add: register_waiter_def waits_for_def Let_def)
qed



section \<open>Writes that are not reported\<close>

lemma list_set_unreported:
  assumes "valid_owner key" "list_set promote meta db key index val = Inr batch"
  shows "collect_logical_mutations TableLocalV2 db batch = ([], []) \<and> batch \<noteq> []"
proof -
  obtain m :: list_meta and i where b: "batch = [(Put, list_item_key db key (lm_version m) i, val)]"
    using assms(2) unfolding list_set_def
    by (auto split: sum.splits option.splits)
  have "mutated_key TableLocalV2 db (list_item_key db key (lm_version m) i) = None"
    using mutated_key_current(3) [OF assms(1), of LIST_ITEM_NAMESPACE]
    by (simp add: list_item_key_def collection_prefixes CURRENT_def)
  then show ?thesis by (simp add: b)
qed

text \<open>C37: A transaction whose only write is an LSET on a split list is thrown away. The batch of LSET holds the
  element alone, and no logical key is recorded for an element of a list, so the commit finds no pending
  mutation, discards the storage transaction and answers success: the element is not written. A
  session that WATCHes the list does not notice an LSET outside a transaction either. (This
  theorem records a defect of the code.)\<close>

theorem lset_only_transaction_is_discarded:
  assumes "valid_owner key" "list_set promote meta db key index val = Inr batch"
    and "pending_keys s = []" "pending_dbs s = []"
  shows "commit_transaction (record_or_publish_mutations s True TableLocalV2 db batch) (Inr ()) =
      (Inr (), Discarded, s) \<and>
    record_or_publish_mutations s False TableLocalV2 db batch = s \<and> batch \<noteq> []"
proof -
  note u = list_set_unreported [OF assms(1,2)]
  have r: "record_or_publish_mutations s tr TableLocalV2 db batch = s" for tr
    using u by (simp add: record_or_publish_mutations_def record_or_publish_collected_mutations_def)
  have "s\<lparr>pending_keys := [], pending_dbs := []\<rparr> = s" using assms(3,4) by simp
  then show ?thesis
    using u assms(3,4) by (simp add: r commit_transaction_def take_pending_mutations_def)
qed

theorem lset_only_transaction_is_discarded_witness:
  "\<exists>batch s. list_set (Inr ()) (Inr (Some \<lparr>lm_expire_ms = 0, lm_version = 5, lm_head = 0, lm_tail = 3\<rparr>))
       0 ''l'' (- 1) ''x'' = Inr batch \<and> batch \<noteq> [] \<and>
     commit_transaction (record_or_publish_mutations s True TableLocalV2 0 batch) (Inr () :: string + unit) =
       (Inr (), Discarded, s)"
proof -
  let ?s = "\<lparr>tracker = empty_tracker, pending_keys = [], pending_dbs = []\<rparr>"
  obtain batch where b: "list_set (Inr ()) (Inr (Some \<lparr>lm_expire_ms = 0, lm_version = 5, lm_head = 0, lm_tail = 3\<rparr>))
       0 ''l'' (- 1) ''x'' = Inr batch"
    by (simp add: list_set_def resolve_list_index_def)
  have "valid_owner ''l''" by (simp add: valid_owner_def utf8_valid_ascii_Cons)
  from lset_only_transaction_is_discarded [OF this b, of ?s] b show ?thesis by auto
qed

end
