(* ===== verification/Value_Codec.thy ===== *)
theory Value_Codec
  imports List_Ops
begin

text \<open>
  Stored values (\<^verbatim>\<open>src/store/db/value_meta_codec.rs\<close>, \<^verbatim>\<open>value_entry_codec.rs\<close>, the codecs of
  \<^verbatim>\<open>stream_key_codec.rs\<close>, and \<^verbatim>\<open>src/store/ttl/meta_header.rs\<close>). The value of a main key
  starts with a header (expiry, version, type tag); a small collection is packed whole behind the
  header, a large one is split into sub-keys and leaves only its metadata there.

  A \<^verbatim>\<open>BTreeSet\<close> is the strictly ascending list of its elements and a \<^verbatim>\<open>BTreeMap\<close> the list of
  its entries with strictly ascending keys, which is the order in which the code iterates over them. The
  decoding loops, which carry an offset into the raw bytes, are instances of \<open>fold_items\<close>.
\<close>

section \<open>Reading at an offset\<close>

definition u32_max :: nat where "u32_max = 4294967295"

definition read_u32 :: "bytes \<Rightarrow> nat \<Rightarrow> (nat \<times> nat) option" where
  "read_u32 raw offset =
     (case checked_add offset 4 of
        None \<Rightarrow> None
      | Some end \<Rightarrow> (case get_range raw offset end of
          None \<Rightarrow> None | Some bs \<Rightarrow> Some (be_nat bs, end)))"

definition read_string :: "bytes \<Rightarrow> nat \<Rightarrow> (bytes \<times> nat) option" where
  "read_string raw offset =
     (case read_u32 raw offset of
        None \<Rightarrow> None
      | Some (len, offset) \<Rightarrow>
          (case checked_add offset len of
             None \<Rightarrow> None
           | Some end \<Rightarrow>
               (case get_range raw offset end of
                  None \<Rightarrow> None
                | Some bs \<Rightarrow> if utf8_valid bs then Some (bs, end) else None)))"

definition decode_u64_be :: "bytes \<Rightarrow> u64 option" where
  "decode_u64_be raw = map_option from_be64 (get_range raw 0 8)"

text \<open>The counted loops: read an item, add it to what has been collected, advance the offset.\<close>

fun fold_items ::
  "(bytes \<Rightarrow> nat \<Rightarrow> ('a \<times> nat) option) \<Rightarrow> ('a \<Rightarrow> 's \<Rightarrow> 's option) \<Rightarrow> nat \<Rightarrow> bytes \<Rightarrow> nat \<Rightarrow> 's
   \<Rightarrow> ('s \<times> nat) option"
where
  "fold_items rd add 0 raw offset s = Some (s, offset)"
| "fold_items rd add (Suc n) raw offset s =
     (case rd raw offset of
        None \<Rightarrow> None
      | Some (x, offset') \<Rightarrow>
          (case add x s of
             None \<Rightarrow> None
           | Some s' \<Rightarrow> fold_items rd add n raw offset' s'))"

fun add_all :: "('a \<Rightarrow> 's \<Rightarrow> 's option) \<Rightarrow> 'a list \<Rightarrow> 's \<Rightarrow> 's option" where
  "add_all add [] s = Some s"
| "add_all add (x # xs) s = (case add x s of None \<Rightarrow> None | Some s' \<Rightarrow> add_all add xs s')"

text \<open>
  The contract between the writer and the reader of one item: a reader placed at a written item
  returns the item and the offset behind it. The loops read back what was written, in order.
\<close>

locale item_codec =
  fixes wr :: "'a \<Rightarrow> bytes" and rd :: "bytes \<Rightarrow> nat \<Rightarrow> ('a \<times> nat) option" and ok :: "'a \<Rightarrow> bool"
  assumes read_written:
    "ok x \<Longrightarrow> length p + length (wr x) \<le> usize_max \<Longrightarrow>
     rd (p @ wr x @ r) (length p) = Some (x, length p + length (wr x))"
begin

lemma fold_items_written:
  assumes "list_all ok xs" "length p + length (concat (map wr xs)) \<le> usize_max"
  shows "fold_items rd add (length xs) (p @ concat (map wr xs) @ r) (length p) s =
    map_option (\<lambda>s'. (s', length p + length (concat (map wr xs)))) (add_all add xs s)"
  using assms
proof (induction xs arbitrary: p s)
  case (Cons x xs)
  have "rd (p @ wr x @ (concat (map wr xs) @ r)) (length p) = Some (x, length p + length (wr x))"
    by (rule read_written) (use Cons.prems in auto)
  moreover have "fold_items rd add (length xs) ((p @ wr x) @ concat (map wr xs) @ r) (length (p @ wr x)) s' =
      map_option (\<lambda>s'. (s', length (p @ wr x) + length (concat (map wr xs)))) (add_all add xs s')" for s'
    by (rule Cons.IH) (use Cons.prems in auto)
  ultimately show ?case by (auto simp: add.assoc split: option.split)
qed simp

lemma fold_items_written_end:
  assumes "list_all ok xs" "length p = off" "off + length (concat (map wr xs)) \<le> usize_max" "n = length xs"
  shows "fold_items rd add n (p @ concat (map wr xs)) off s =
    map_option (\<lambda>s'. (s', off + length (concat (map wr xs)))) (add_all add xs s)"
  using fold_items_written [of xs p add "[]" s] assms by simp

end

lemma get_range_at:
  "length p = a \<Longrightarrow> length m = n \<Longrightarrow> get_range (p @ m @ r) a (a + n) = Some m"
  by (rule get_range_middle) auto

lemma read_u32_written:
  assumes "n \<le> u32_max" "length p + 4 \<le> usize_max"
  shows "read_u32 (p @ be_bytes 4 n @ r) (length p) = Some (n, length p + 4)"
  using assms get_range_at [of p "length p" "be_bytes 4 n" 4 r]
  by (simp add: read_u32_def checked_add_def be_nat_be_bytes u32_max_def)

lemma read_string_written:
  assumes "utf8_valid s" "length s \<le> u32_max" "length p + 4 + length s \<le> usize_max"
  shows "read_string (p @ (be_bytes 4 (length s) @ s) @ r) (length p) = Some (s, length p + 4 + length s)"
proof -
  have "read_u32 (p @ be_bytes 4 (length s) @ (s @ r)) (length p) = Some (length s, length p + 4)"
    by (rule read_u32_written) (use assms in auto)
  moreover have "get_range ((p @ be_bytes 4 (length s)) @ s @ r) (length p + 4) (length p + 4 + length s) = Some s"
    by (rule get_range_at) simp_all
  ultimately show ?thesis using assms by (simp add: read_string_def checked_add_def)
qed

section \<open>Stream identifiers\<close>

datatype stream_id = StreamId (sid_ms: u64) (sid_seq: u64)

instantiation stream_id :: linorder
begin

definition less_eq_stream_id :: "stream_id \<Rightarrow> stream_id \<Rightarrow> bool" where
  "less_eq_stream_id a b \<longleftrightarrow> sid_ms a < sid_ms b \<or> (sid_ms a = sid_ms b \<and> sid_seq a \<le> sid_seq b)"

definition less_stream_id :: "stream_id \<Rightarrow> stream_id \<Rightarrow> bool" where
  "less_stream_id a b \<longleftrightarrow> sid_ms a < sid_ms b \<or> (sid_ms a = sid_ms b \<and> sid_seq a < sid_seq b)"

instance
  by standard (auto simp: less_eq_stream_id_def less_stream_id_def intro: stream_id.expand)

end

definition stream_id_bytes :: "stream_id \<Rightarrow> bytes" where
  "stream_id_bytes sid = be64 (sid_ms sid) @ be64 (sid_seq sid)"

lemma length_stream_id_bytes [simp, codec_simps]: "length (stream_id_bytes sid) = 16"
  by (simp add: stream_id_bytes_def)

lemma stream_id_bytes_less: "stream_id_bytes a < stream_id_bytes b \<longleftrightarrow> a < b"
  unfolding stream_id_bytes_def by (subst list_less_append_iff) (auto simp: less_stream_id_def be64_less_iff)

definition to_redis_id :: "stream_id \<Rightarrow> string" where
  "to_redis_id sid = show_nat (unat (sid_ms sid)) @ ''-'' @ show_nat (unat (sid_seq sid))"

definition parse_stream_id :: "string \<Rightarrow> stream_id option" where
  "parse_stream_id s =
     (case iter_position (\<lambda>c. c = CHR ''-'') s of
        None \<Rightarrow> None
      | Some i \<Rightarrow>
          (case parse_nat usize_max (take i s) of
             None \<Rightarrow> None
           | Some ms \<Rightarrow>
               (case parse_nat usize_max (drop (i + 1) s) of
                  None \<Rightarrow> None
                | Some seq \<Rightarrow> Some (StreamId (word_of_nat ms) (word_of_nat seq)))))"

lemma parse_stream_id_roundtrip: "parse_stream_id (to_redis_id sid) = Some sid"
proof -
  have d: "CHR ''-'' \<notin> set (show_nat n)" for n
    using show_nat_digits [of n] digits_not_special by (fastforce simp: list_all_iff)
  have "iter_position (\<lambda>c. c = CHR ''-'') (to_redis_id sid) = Some (length (show_nat (unat (sid_ms sid))))"
    unfolding to_redis_id_def using d by (auto intro!: iter_position_append_first)
  moreover have "unat w \<le> usize_max" for w :: u64 using unsigned_less [where 'a = nat, of w] by simp
  ultimately show ?thesis by (simp add: parse_stream_id_def to_redis_id_def)
qed

section \<open>Stream keys\<close>

definition stream_entry_prefix :: "u16 \<Rightarrow> bytes \<Rightarrow> u64 \<Rightarrow> bytes" where
  "stream_entry_prefix db_index key version =
     append_versioned_sub_key_owner (internal_prefix CURRENT db_index @ STREAM_ENTRY_NAMESPACE) key
       @ [NUL] @ be64 version"

definition stream_group_prefix :: "u16 \<Rightarrow> bytes \<Rightarrow> u64 \<Rightarrow> bytes" where
  "stream_group_prefix db_index key version =
     append_versioned_sub_key_owner (internal_prefix CURRENT db_index @ STREAM_GROUP_NAMESPACE) key
       @ [NUL] @ be64 version"

definition stream_pel_prefix :: "u16 \<Rightarrow> bytes \<Rightarrow> u64 \<Rightarrow> bytes" where
  "stream_pel_prefix db_index key version =
     append_versioned_sub_key_owner (internal_prefix CURRENT db_index @ STREAM_PEL_NAMESPACE) key
       @ [NUL] @ be64 version"

definition stream_consumer_prefix :: "u16 \<Rightarrow> bytes \<Rightarrow> u64 \<Rightarrow> bytes" where
  "stream_consumer_prefix db_index key version =
     append_versioned_sub_key_owner (internal_prefix CURRENT db_index @ STREAM_CONSUMER_NAMESPACE) key
       @ [NUL] @ be64 version"

definition stream_group_key :: "u16 \<Rightarrow> bytes \<Rightarrow> u64 \<Rightarrow> bytes \<Rightarrow> bytes" where
  "stream_group_key db_index key version grp = stream_group_prefix db_index key version @ grp"

definition stream_pel_group_prefix :: "u16 \<Rightarrow> bytes \<Rightarrow> u64 \<Rightarrow> bytes \<Rightarrow> bytes" where
  "stream_pel_group_prefix db_index key version grp =
     stream_pel_prefix db_index key version @ be_bytes 4 (length grp) @ grp"

definition stream_consumer_group_prefix :: "u16 \<Rightarrow> bytes \<Rightarrow> u64 \<Rightarrow> bytes \<Rightarrow> bytes" where
  "stream_consumer_group_prefix db_index key version grp =
     stream_consumer_prefix db_index key version @ be_bytes 4 (length grp) @ grp"

definition stream_pel_key :: "u16 \<Rightarrow> bytes \<Rightarrow> u64 \<Rightarrow> bytes \<Rightarrow> stream_id \<Rightarrow> bytes" where
  "stream_pel_key db_index key version grp sid =
     stream_pel_group_prefix db_index key version grp @ be64 (sid_ms sid) @ be64 (sid_seq sid)"

definition stream_consumer_key :: "u16 \<Rightarrow> bytes \<Rightarrow> u64 \<Rightarrow> bytes \<Rightarrow> bytes \<Rightarrow> bytes" where
  "stream_consumer_key db_index key version grp consumer =
     stream_consumer_group_prefix db_index key version grp @ consumer"

definition stream_entry_key :: "u16 \<Rightarrow> bytes \<Rightarrow> u64 \<Rightarrow> stream_id \<Rightarrow> bytes" where
  "stream_entry_key db_index key version sid =
     stream_entry_prefix db_index key version @ be64 (sid_ms sid) @ be64 (sid_seq sid)"

definition decode_stream_pel_id :: "bytes \<Rightarrow> bytes \<Rightarrow> stream_id option" where
  "decode_stream_pel_id pfx key =
     (case strip_prefix pfx key of
        None \<Rightarrow> None
      | Some suffix \<Rightarrow>
          if length suffix \<noteq> 16 then None
          else Some (StreamId (from_be64 (slice_of suffix 0 8)) (from_be64 (slice_of suffix 8 16))))"

definition decode_stream_entry_id :: "bytes \<Rightarrow> bytes \<Rightarrow> stream_id option" where
  "decode_stream_entry_id pfx entry_key =
     (case strip_prefix pfx entry_key of
        None \<Rightarrow> None
      | Some suffix \<Rightarrow>
          if length suffix \<noteq> 16 then None
          else Some (StreamId (from_be64 (slice_of suffix 0 8)) (from_be64 (slice_of suffix 8 16))))"

record stream_group_state =
  last_delivered_id :: stream_id
  entries_read :: u64

record stream_pel_state =
  consumer :: bytes
  last_delivery_ms :: u64
  deliveries :: u64

record stream_consumer_state =
  last_seen_ms :: u64

definition encode_stream_group_state :: "stream_group_state \<Rightarrow> bytes" where
  "encode_stream_group_state state =
     be64 (sid_ms (last_delivered_id state)) @ be64 (sid_seq (last_delivered_id state)) @
     be64 (entries_read state)"

definition decode_stream_group_state :: "bytes \<Rightarrow> stream_group_state option" where
  "decode_stream_group_state raw =
     (if length raw \<noteq> 24 then None
      else Some \<lparr>last_delivered_id = StreamId (from_be64 (slice_of raw 0 8)) (from_be64 (slice_of raw 8 16)),
                 entries_read = from_be64 (slice_of raw 16 24)\<rparr>)"

definition encode_stream_pel_state :: "stream_pel_state \<Rightarrow> bytes" where
  "encode_stream_pel_state state =
     be64 (last_delivery_ms state) @ be64 (deliveries state) @
     be_bytes 4 (length (consumer state)) @ consumer state"

definition decode_stream_pel_state :: "bytes \<Rightarrow> stream_pel_state option" where
  "decode_stream_pel_state raw =
     (if length raw < 20 then None
      else (let len = be_nat (slice_of raw 16 20)
            in case get_range raw 20 (20 + len) of
                 None \<Rightarrow> None
               | Some bs \<Rightarrow>
                   if utf8_valid bs
                   then Some \<lparr>consumer = bs, last_delivery_ms = from_be64 (slice_of raw 0 8),
                              deliveries = from_be64 (slice_of raw 8 16)\<rparr>
                   else None))"

definition encode_stream_consumer_state :: "stream_consumer_state \<Rightarrow> bytes" where
  "encode_stream_consumer_state state = be64 (last_seen_ms state)"

definition decode_stream_consumer_state :: "bytes \<Rightarrow> stream_consumer_state option" where
  "decode_stream_consumer_state raw =
     (if length raw \<noteq> 8 then None else Some \<lparr>last_seen_ms = from_be64 raw\<rparr>)"

text \<open>A stream entry is its list of field and value pairs.\<close>

definition write_pair :: "bytes \<times> bytes \<Rightarrow> bytes" where
  "write_pair fv = (case fv of (field, val) \<Rightarrow>
     be_bytes 4 (length field) @ field @ be_bytes 4 (length val) @ val)"

definition read_pair :: "bytes \<Rightarrow> nat \<Rightarrow> ((bytes \<times> bytes) \<times> nat) option" where
  "read_pair raw offset =
     (case read_string raw offset of
        None \<Rightarrow> None
      | Some (field, offset) \<Rightarrow>
          (case read_string raw offset of
             None \<Rightarrow> None
           | Some (val, offset) \<Rightarrow> Some ((field, val), offset)))"

definition encode_stream_entry :: "(bytes \<times> bytes) list \<Rightarrow> bytes" where
  "encode_stream_entry flds = be_bytes 4 (length flds) @ concat (map write_pair flds)"

definition push_item :: "'a \<Rightarrow> 'a list \<Rightarrow> 'a list option" where
  "push_item x xs = Some (xs @ [x])"

definition decode_stream_entry :: "bytes \<Rightarrow> (bytes \<times> bytes) list option" where
  "decode_stream_entry raw =
     (case read_u32 raw 0 of
        None \<Rightarrow> None
      | Some (count, offset) \<Rightarrow>
          (case fold_items read_pair push_item count raw offset [] of
             None \<Rightarrow> None
           | Some (flds, offset) \<Rightarrow> if offset = length raw then Some flds else None))"

lemma add_all_push: "add_all push_item xs acc = Some (acc @ xs)"
  by (induction xs arbitrary: acc) (auto simp: push_item_def)

definition pair_ok :: "bytes \<times> bytes \<Rightarrow> bool" where
  "pair_ok fv \<longleftrightarrow> utf8_valid (fst fv) \<and> utf8_valid (snd fv) \<and>
     length (fst fv) \<le> u32_max \<and> length (snd fv) \<le> u32_max"

interpretation stream_pair: item_codec write_pair read_pair pair_ok
proof unfold_locales
  fix x :: "bytes \<times> bytes" and p r :: bytes
  assume ok: "pair_ok x" and len: "length p + length (write_pair x) \<le> usize_max"
  obtain f v where x: "x = (f, v)" by fastforce
  have "read_string (p @ (be_bytes 4 (length f) @ f) @ ((be_bytes 4 (length v) @ v) @ r)) (length p) =
      Some (f, length p + 4 + length f)"
    by (rule read_string_written) (use ok len in \<open>auto simp: pair_ok_def write_pair_def x\<close>)
  moreover have "read_string ((p @ be_bytes 4 (length f) @ f) @ (be_bytes 4 (length v) @ v) @ r)
      (length (p @ be_bytes 4 (length f) @ f)) = Some (v, length (p @ be_bytes 4 (length f) @ f) + 4 + length v)"
    by (rule read_string_written) (use ok len in \<open>auto simp: pair_ok_def write_pair_def x\<close>)
  ultimately show "read_pair (p @ write_pair x @ r) (length p) = Some (x, length p + length (write_pair x))"
    by (simp add: read_pair_def write_pair_def x add.assoc)
qed

lemma decode_stream_entry_roundtrip:
  assumes "list_all pair_ok flds" "length flds \<le> u32_max"
    and "length (encode_stream_entry flds) \<le> usize_max"
  shows "decode_stream_entry (encode_stream_entry flds) = Some flds"
proof -
  have "read_u32 ([] @ be_bytes 4 (length flds) @ concat (map write_pair flds)) (length ([] :: bytes)) =
      Some (length flds, length ([] :: bytes) + 4)"
    by (rule read_u32_written) (use assms in \<open>auto simp: encode_stream_entry_def\<close>)
  moreover have "fold_items read_pair push_item (length flds)
      (be_bytes 4 (length flds) @ concat (map write_pair flds)) 4 [] =
      map_option (\<lambda>s'. (s', 4 + length (concat (map write_pair flds)))) (add_all push_item flds [])"
    by (rule stream_pair.fold_items_written_end) (use assms in \<open>auto simp: encode_stream_entry_def\<close>)
  ultimately show ?thesis
    by (simp add: decode_stream_entry_def encode_stream_entry_def add_all_push)
qed

lemma slice_of_parts:
  "length a = n \<Longrightarrow> slice_of (a @ r) 0 n = a"
  "length a = n \<Longrightarrow> length b = m \<Longrightarrow> slice_of (a @ b @ r) n (n + m) = b"
  by (simp_all add: slice_of_def)

lemma decode_group_state_roundtrip: "decode_stream_group_state (encode_stream_group_state state) = Some state"
  by (cases state) (simp add: decode_stream_group_state_def encode_stream_group_state_def slice_of_def)

lemma decode_pel_state_roundtrip:
  assumes "utf8_valid (consumer state)" "length (consumer state) \<le> u32_max"
  shows "decode_stream_pel_state (encode_stream_pel_state state) = Some state"
proof -
  let ?c = "consumer state"
  have "get_range ((be64 (last_delivery_ms state) @ be64 (deliveries state) @ be_bytes 4 (length ?c)) @ ?c @ [])
      20 (20 + length ?c) = Some ?c" by (rule get_range_at) simp_all
  moreover have "be_nat (be_bytes 4 (length ?c)) = length ?c"
    using assms by (simp add: be_nat_be_bytes u32_max_def)
  ultimately show ?thesis
    using assms by (cases state) (simp add: decode_stream_pel_state_def encode_stream_pel_state_def slice_of_def Let_def)
qed

lemma decode_consumer_state_roundtrip:
  "decode_stream_consumer_state (encode_stream_consumer_state state) = Some state"
  by (cases state) (simp add: decode_stream_consumer_state_def encode_stream_consumer_state_def)

end
