(* ===== verification/Packed_Codec.thy ===== *)
theory Packed_Codec
  imports Value_Codec
begin

unbundle bit_operations_syntax

text \<open>
  Packed collections (\<^verbatim>\<open>src/store/db/value_meta_codec.rs\<close>): a list, set, sorted set, hash or stream
  that is small enough is stored whole in the value of its main key. For each type the encoder refuses
  what does not fit its limits, and the decoder refuses everything the encoder does not produce
  (a wrong count, trailing bytes, a duplicate, text that is not UTF-8, a NaN score, stream entries out of
  order).
\<close>

section \<open>Shared parts of the encoders and decoders\<close>

fun try_len :: "('a \<Rightarrow> nat option) \<Rightarrow> 'a list \<Rightarrow> nat \<Rightarrow> nat option" where
  "try_len size_of [] len = Some len"
| "try_len size_of (x # xs) len =
     (case size_of x of
        None \<Rightarrow> None
      | Some n \<Rightarrow> (case checked_add len n of None \<Rightarrow> None | Some len' \<Rightarrow> try_len size_of xs len'))"

definition read_len :: "nat \<Rightarrow> bytes \<Rightarrow> nat \<Rightarrow> (nat \<times> nat) option" where
  "read_len width raw offset =
     map_option (\<lambda>bs. (be_nat bs, offset + width)) (get_range raw offset (offset + width))"

definition read_chunk :: "bytes \<Rightarrow> nat \<Rightarrow> nat \<Rightarrow> (bytes \<times> nat) option" where
  "read_chunk raw offset len =
     (case checked_add offset len of
        None \<Rightarrow> None
      | Some end \<Rightarrow> map_option (\<lambda>bs. (bs, end)) (get_range raw offset end))"

definition finish :: "bytes \<Rightarrow> ('s \<times> nat) option \<Rightarrow> 's option" where
  "finish raw res = (case res of None \<Rightarrow> None
     | Some (s, offset) \<Rightarrow> if offset = length raw then Some s else None)"

definition set_insert :: "bytes \<Rightarrow> bytes list \<Rightarrow> bytes list option" where
  "set_insert member members = (if member \<in> set members then None else Some (insort member members))"

definition map_insert :: "bytes \<times> 'v \<Rightarrow> (bytes \<times> 'v) list \<Rightarrow> (bytes \<times> 'v) list option" where
  "map_insert entry entries =
     (if fst entry \<in> fst ` set entries then None else Some (insort_key fst entry entries))"

lemma read_len_written:
  assumes "n < 256 ^ width"
  shows "read_len width (p @ be_bytes width n @ r) (length p) = Some (n, length p + width)"
  using assms get_range_at [of p "length p" "be_bytes width n" width r]
  by (simp add: read_len_def be_nat_be_bytes)

lemma read_chunk_written:
  "length p + length c \<le> usize_max \<Longrightarrow> read_chunk (p @ c @ r) (length p) (length c) = Some (c, length p + length c)"
  using get_range_at [of p "length p" c "length c" r] by (simp add: read_chunk_def checked_add_def)

lemma insort_last: "\<forall>y \<in> set ys. y < x \<Longrightarrow> insort x ys = ys @ [x :: bytes]"
  by (induction ys) (auto simp: not_le)

lemma insort_key_last: "\<forall>y \<in> set ys. fst y < fst x \<Longrightarrow> insort_key fst x ys = ys @ [x :: bytes \<times> 'v]"
  by (induction ys) (auto simp: not_le)

lemma add_all_set:
  "sorted_wrt (<) (acc @ xs) \<Longrightarrow> add_all set_insert xs acc = Some (acc @ xs)"
proof (induction xs arbitrary: acc)
  case (Cons x xs)
  have "\<forall>y \<in> set acc. y < x" using Cons.prems by (auto simp: sorted_wrt_append)
  then show ?case using Cons by (auto simp: set_insert_def insort_last)
qed simp

lemma add_all_map:
  "sorted_wrt (<) (map fst (acc @ xs)) \<Longrightarrow> add_all map_insert xs acc = Some (acc @ xs)"
proof (induction xs arbitrary: acc)
  case (Cons x xs)
  have "\<forall>y \<in> set acc. fst y < fst x" using Cons.prems by (auto simp: sorted_wrt_append)
  then show ?case using Cons by (auto simp: map_insert_def insort_key_last)
qed simp

lemma try_len_Some:
  assumes sz: "\<And>x m. size_of x = Some m \<Longrightarrow> m = length (wr x)"
    and "try_len size_of xs len = Some n"
  shows "n = len + length (concat (map wr xs)) \<and> (\<forall>x \<in> set xs. size_of x \<noteq> None)"
  using assms(2)
proof (induction xs arbitrary: len)
  case (Cons x xs)
  then obtain m where m: "size_of x = Some m" "try_len size_of xs (len + m) = Some n"
    by (auto split: option.splits)
  show ?case using Cons.IH [OF m(2)] m(1) sz [OF m(1)] by simp
qed simp

section \<open>Lists\<close>

definition SMALL_LIST_MAX_ITEMS :: nat where "SMALL_LIST_MAX_ITEMS = 64"
definition SMALL_LIST_MAX_ENCODED_BYTES :: nat where "SMALL_LIST_MAX_ENCODED_BYTES = 8 * 1024"
definition PACKED_LIST_MAGIC :: bytes where "PACKED_LIST_MAGIC = [CHR 0xF1, CHR ''L'', CHR ''P'', CHR 0x01]"
definition PACKED_LIST_HEADER_LEN :: nat where "PACKED_LIST_HEADER_LEN = 17 + length PACKED_LIST_MAGIC + 2"

definition is_packed_list_raw :: "bytes \<Rightarrow> bool" where
  "is_packed_list_raw raw \<longleftrightarrow> length raw \<ge> PACKED_LIST_HEADER_LEN \<and> get_at raw 16 = Some TYPE_LIST \<and>
     slice_of raw 17 (17 + length PACKED_LIST_MAGIC) = PACKED_LIST_MAGIC"

definition read_item :: "bytes \<Rightarrow> nat \<Rightarrow> (bytes \<times> nat) option" where
  "read_item raw offset =
     (case read_len 4 raw offset of None \<Rightarrow> None | Some (len, offset) \<Rightarrow> read_chunk raw offset len)"

definition write_item :: "bytes \<Rightarrow> bytes" where
  "write_item item = be_bytes 4 (length item) @ item"

definition item_size :: "bytes \<Rightarrow> nat option" where
  "item_size item = (if length item \<le> u32_max then Some (4 + length item) else None)"

definition decode_packed_list :: "bytes \<Rightarrow> bytes list option" where
  "decode_packed_list raw =
     (if \<not> is_packed_list_raw raw then None
      else (case read_len 2 raw (17 + length PACKED_LIST_MAGIC) of
          None \<Rightarrow> None
        | Some (count, offset) \<Rightarrow>
            if count > SMALL_LIST_MAX_ITEMS then None
            else finish raw (fold_items read_item push_item count raw offset [])))"

definition encode_packed_list :: "u64 \<Rightarrow> bytes list \<Rightarrow> bytes option" where
  "encode_packed_list expire_ms items =
     (if length items > SMALL_LIST_MAX_ITEMS then None
      else (case try_len item_size items PACKED_LIST_HEADER_LEN of
          None \<Rightarrow> None
        | Some encoded_len \<Rightarrow>
            if encoded_len > SMALL_LIST_MAX_ENCODED_BYTES then None
            else Some (be64 expire_ms @ be64 0 @ [TYPE_LIST] @ PACKED_LIST_MAGIC @
              be_bytes 2 (length items) @ concat (map write_item items))))"

lemmas packed_list_defs = SMALL_LIST_MAX_ITEMS_def SMALL_LIST_MAX_ENCODED_BYTES_def
  PACKED_LIST_MAGIC_def PACKED_LIST_HEADER_LEN_def

interpretation list_item: item_codec write_item read_item "\<lambda>item. length item \<le> u32_max"
proof unfold_locales
  fix x p r :: bytes
  assume ok: "length x \<le> u32_max" and len: "length p + length (write_item x) \<le> usize_max"
  have "read_len 4 (p @ be_bytes 4 (length x) @ (x @ r)) (length p) = Some (length x, length p + 4)"
    by (rule read_len_written) (use ok in \<open>simp add: u32_max_def\<close>)
  moreover have "read_chunk ((p @ be_bytes 4 (length x)) @ x @ r) (length (p @ be_bytes 4 (length x))) (length x) =
      Some (x, length (p @ be_bytes 4 (length x)) + length x)"
    by (rule read_chunk_written) (use len in \<open>simp add: write_item_def\<close>)
  ultimately show "read_item (p @ write_item x @ r) (length p) = Some (x, length p + length (write_item x))"
    by (simp add: read_item_def write_item_def add.assoc)
qed

text \<open>The fixed part of a packed value: what the decoder of the type finds there.\<close>

lemma packed_header:
  assumes "length magic = 4" "n < 256 ^ 2"
    and raw_def: "raw = be64 e @ be64 0 @ [tag] @ magic @ be_bytes 2 n @ body"
  shows "get_at raw 16 = Some tag" "slice_of raw 17 21 = magic" "read_len 2 raw 21 = Some (n, 23)"
    "length raw = 23 + length body" "slice_of raw 0 8 = be64 e"
proof -
  show "get_at raw 16 = Some tag" by (simp add: raw_def get_at_def nth_append)
  show "slice_of raw 17 21 = magic" using assms(1) by (simp add: raw_def slice_of_def)
  show "read_len 2 raw 21 = Some (n, 23)"
    using read_len_written [OF assms(2), of "be64 e @ be64 0 @ [tag] @ magic" body] assms(1)
    by (simp add: raw_def)
  show "length raw = 23 + length body" using assms(1) by (simp add: raw_def)
  show "slice_of raw 0 8 = be64 e" by (simp add: raw_def slice_of_def)
qed

lemma packed_list_roundtrip:
  assumes "encode_packed_list e items = Some raw"
  shows "decode_packed_list raw = Some items \<and> slice_of raw 0 8 = be64 e"
proof -
  obtain n where n: "length items \<le> 64" "try_len item_size items PACKED_LIST_HEADER_LEN = Some n" "n \<le> 8192"
    and raw: "raw = be64 e @ be64 0 @ [TYPE_LIST] @ PACKED_LIST_MAGIC @ be_bytes 2 (length items) @
      concat (map write_item items)"
    using assms by (auto simp: encode_packed_list_def packed_list_defs split: option.splits if_splits)
  have sz: "item_size x = Some m \<Longrightarrow> m = length (write_item x)" for x m
    by (auto simp: item_size_def write_item_def split: if_splits)
  have len: "n = PACKED_LIST_HEADER_LEN + length (concat (map write_item items))"
    and ok: "\<forall>x \<in> set items. item_size x \<noteq> None"
    using try_len_Some [OF sz n(2)] by auto
  note h = packed_header [OF _ _ raw]
  have "fold_items read_item push_item (length items)
      ((be64 e @ be64 0 @ [TYPE_LIST] @ PACKED_LIST_MAGIC @ be_bytes 2 (length items)) @ concat (map write_item items))
      23 [] = map_option (\<lambda>s'. (s', 23 + length (concat (map write_item items)))) (add_all push_item items [])"
    by (rule list_item.fold_items_written_end)
       (use ok len n in \<open>auto simp: list_all_iff item_size_def packed_list_defs split: if_splits\<close>)
  then have f: "fold_items read_item push_item (length items) raw 23 [] = Some (items, length raw)"
    using h(4) n(1) by (simp add: raw add_all_push PACKED_LIST_MAGIC_def)
  show ?thesis
    using h n(1) f by (simp add: decode_packed_list_def is_packed_list_raw_def finish_def packed_list_defs)
qed

section \<open>Sets\<close>

definition SMALL_SET_MAX_MEMBERS :: nat where "SMALL_SET_MAX_MEMBERS = 128"
definition SMALL_SET_MAX_ENCODED_BYTES :: nat where "SMALL_SET_MAX_ENCODED_BYTES = 8 * 1024"
definition PACKED_SET_MAGIC :: bytes where "PACKED_SET_MAGIC = [CHR 0xF1, CHR ''S'', CHR ''P'', CHR 0x01]"
definition PACKED_SET_HEADER_LEN :: nat where "PACKED_SET_HEADER_LEN = 17 + length PACKED_SET_MAGIC + 2"

lemmas packed_set_defs = SMALL_SET_MAX_MEMBERS_def SMALL_SET_MAX_ENCODED_BYTES_def
  PACKED_SET_MAGIC_def PACKED_SET_HEADER_LEN_def

definition is_packed_set_raw :: "bytes \<Rightarrow> bool" where
  "is_packed_set_raw raw \<longleftrightarrow> length raw \<ge> PACKED_SET_HEADER_LEN \<and> get_at raw 16 = Some TYPE_SET \<and>
     slice_of raw 17 (17 + length PACKED_SET_MAGIC) = PACKED_SET_MAGIC"

definition read_member :: "bytes \<Rightarrow> nat \<Rightarrow> (bytes \<times> nat) option" where
  "read_member raw offset =
     (case read_item raw offset of
        None \<Rightarrow> None
      | Some (member, offset) \<Rightarrow> if utf8_valid member then Some (member, offset) else None)"

definition decode_packed_set :: "bytes \<Rightarrow> bytes list option" where
  "decode_packed_set raw =
     (if \<not> is_packed_set_raw raw then None
      else (case read_len 2 raw (17 + length PACKED_SET_MAGIC) of
          None \<Rightarrow> None
        | Some (count, offset) \<Rightarrow>
            if count > SMALL_SET_MAX_MEMBERS then None
            else finish raw (fold_items read_member set_insert count raw offset [])))"

definition encode_packed_set :: "u64 \<Rightarrow> bytes list \<Rightarrow> bytes option" where
  "encode_packed_set expire_ms members =
     (if length members > SMALL_SET_MAX_MEMBERS then None
      else (case try_len item_size members PACKED_SET_HEADER_LEN of
          None \<Rightarrow> None
        | Some encoded_len \<Rightarrow>
            if encoded_len > SMALL_SET_MAX_ENCODED_BYTES then None
            else Some (be64 expire_ms @ be64 0 @ [TYPE_SET] @ PACKED_SET_MAGIC @
              be_bytes 2 (length members) @ concat (map write_item members))))"

interpretation set_member: item_codec write_item read_member
  "\<lambda>m. utf8_valid m \<and> length m \<le> u32_max"
  by unfold_locales (simp add: read_member_def list_item.read_written)

lemma item_size_written: "item_size x = Some m \<Longrightarrow> m = length (write_item x)"
  by (auto simp: item_size_def write_item_def split: if_splits)

lemma packed_set_roundtrip:
  assumes "encode_packed_set e members = Some raw" "sorted_wrt (<) members" "list_all utf8_valid members"
  shows "decode_packed_set raw = Some members \<and> slice_of raw 0 8 = be64 e"
proof -
  obtain n where n: "length members \<le> 128" "try_len item_size members PACKED_SET_HEADER_LEN = Some n" "n \<le> 8192"
    and raw: "raw = be64 e @ be64 0 @ [TYPE_SET] @ PACKED_SET_MAGIC @ be_bytes 2 (length members) @
      concat (map write_item members)"
    using assms by (auto simp: encode_packed_set_def packed_set_defs split: option.splits if_splits)
  have len: "n = PACKED_SET_HEADER_LEN + length (concat (map write_item members))"
    and ok: "\<forall>x \<in> set members. item_size x \<noteq> None"
    using try_len_Some [OF item_size_written n(2)] by auto
  note h = packed_header [OF _ _ raw]
  have "fold_items read_member set_insert (length members)
      ((be64 e @ be64 0 @ [TYPE_SET] @ PACKED_SET_MAGIC @ be_bytes 2 (length members)) @ concat (map write_item members))
      23 [] = map_option (\<lambda>s'. (s', 23 + length (concat (map write_item members)))) (add_all set_insert members [])"
    by (rule set_member.fold_items_written_end)
       (use ok len n assms(3) in \<open>auto simp: list_all_iff item_size_def packed_set_defs split: if_splits\<close>)
  then have f: "fold_items read_member set_insert (length members) raw 23 [] = Some (members, length raw)"
    using h(4) n(1) add_all_set [of "[]" members] assms(2) by (simp add: raw PACKED_SET_MAGIC_def)
  show ?thesis
    using h n(1) f by (simp add: decode_packed_set_def is_packed_set_raw_def finish_def packed_set_defs)
qed

section \<open>Sorted sets\<close>

definition SMALL_ZSET_MAX_MEMBERS :: nat where "SMALL_ZSET_MAX_MEMBERS = 64"
definition SMALL_ZSET_MAX_ENCODED_BYTES :: nat where "SMALL_ZSET_MAX_ENCODED_BYTES = 8 * 1024"
definition PACKED_ZSET_MAGIC :: bytes where "PACKED_ZSET_MAGIC = [CHR 0xF1, CHR ''Z'', CHR ''P'', CHR 0x01]"
definition PACKED_ZSET_HEADER_LEN :: nat where "PACKED_ZSET_HEADER_LEN = 17 + length PACKED_ZSET_MAGIC + 2"

lemmas packed_zset_defs = SMALL_ZSET_MAX_MEMBERS_def SMALL_ZSET_MAX_ENCODED_BYTES_def
  PACKED_ZSET_MAGIC_def PACKED_ZSET_HEADER_LEN_def

definition is_packed_zset_raw :: "bytes \<Rightarrow> bool" where
  "is_packed_zset_raw raw \<longleftrightarrow> length raw \<ge> PACKED_ZSET_HEADER_LEN \<and> get_at raw 16 = Some TYPE_SORTED_SET \<and>
     slice_of raw 17 (17 + length PACKED_ZSET_MAGIC) = PACKED_ZSET_MAGIC"

definition read_scored :: "bytes \<Rightarrow> nat \<Rightarrow> ((bytes \<times> u64) \<times> nat) option" where
  "read_scored raw offset =
     (case read_len 4 raw offset of
        None \<Rightarrow> None
      | Some (member_len, offset) \<Rightarrow>
          (case get_range raw offset (offset + 8) of
             None \<Rightarrow> None
           | Some score_bytes \<Rightarrow>
               (let score = from_be64 score_bytes
                in if f64_isnan score then None
                   else (case read_chunk raw (offset + 8) member_len of
                       None \<Rightarrow> None
                     | Some (member, offset) \<Rightarrow>
                         if utf8_valid member then Some ((member, score), offset) else None))))"

definition write_scored :: "bytes \<times> u64 \<Rightarrow> bytes" where
  "write_scored entry = be_bytes 4 (length (fst entry)) @ be64 (snd entry) @ fst entry"

definition scored_size :: "bytes \<times> u64 \<Rightarrow> nat option" where
  "scored_size entry =
     (if length (fst entry) \<le> u32_max then Some (4 + 8 + length (fst entry)) else None)"

definition decode_packed_zset :: "bytes \<Rightarrow> (bytes \<times> u64) list option" where
  "decode_packed_zset raw =
     (if \<not> is_packed_zset_raw raw then None
      else (case read_len 2 raw (17 + length PACKED_ZSET_MAGIC) of
          None \<Rightarrow> None
        | Some (count, offset) \<Rightarrow>
            if count > SMALL_ZSET_MAX_MEMBERS then None
            else finish raw (fold_items read_scored map_insert count raw offset [])))"

definition encode_packed_zset :: "u64 \<Rightarrow> (bytes \<times> u64) list \<Rightarrow> bytes option" where
  "encode_packed_zset expire_ms entries =
     (if length entries > SMALL_ZSET_MAX_MEMBERS \<or> (\<exists>entry \<in> set entries. f64_isnan (snd entry)) then None
      else (case try_len scored_size entries PACKED_ZSET_HEADER_LEN of
          None \<Rightarrow> None
        | Some encoded_len \<Rightarrow>
            if encoded_len > SMALL_ZSET_MAX_ENCODED_BYTES then None
            else Some (be64 expire_ms @ be64 0 @ [TYPE_SORTED_SET] @ PACKED_ZSET_MAGIC @
              be_bytes 2 (length entries) @ concat (map write_scored entries))))"

interpretation zset_entry: item_codec write_scored read_scored
  "\<lambda>en. utf8_valid (fst en) \<and> length (fst en) \<le> u32_max \<and> \<not> f64_isnan (snd en)"
proof unfold_locales
  fix x :: "bytes \<times> u64" and p r :: bytes
  assume ok: "utf8_valid (fst x) \<and> length (fst x) \<le> u32_max \<and> \<not> f64_isnan (snd x)"
    and len: "length p + length (write_scored x) \<le> usize_max"
  obtain m s where x: "x = (m, s)" by fastforce
  let ?l = "be_bytes 4 (length m)"
  have "read_len 4 (p @ ?l @ (be64 s @ m @ r)) (length p) = Some (length m, length p + 4)"
    by (rule read_len_written) (use ok x in \<open>simp add: u32_max_def\<close>)
  moreover have "get_range ((p @ ?l) @ be64 s @ (m @ r)) (length p + 4) (length p + 4 + 8) = Some (be64 s)"
    by (rule get_range_at) simp_all
  moreover have "read_chunk ((p @ ?l @ be64 s) @ m @ r) (length (p @ ?l @ be64 s)) (length m) =
      Some (m, length (p @ ?l @ be64 s) + length m)"
    by (rule read_chunk_written) (use len x in \<open>simp add: write_scored_def\<close>)
  ultimately show "read_scored (p @ write_scored x @ r) (length p) = Some (x, length p + length (write_scored x))"
    using ok by (simp add: read_scored_def write_scored_def x add.assoc)
qed

lemma scored_size_written: "scored_size x = Some m \<Longrightarrow> m = length (write_scored x)"
  by (auto simp: scored_size_def write_scored_def split: if_splits)

lemma packed_zset_roundtrip:
  assumes "encode_packed_zset e entries = Some raw" "sorted_wrt (<) (map fst entries)"
    and "list_all (\<lambda>en. utf8_valid (fst en)) entries"
  shows "decode_packed_zset raw = Some entries \<and> slice_of raw 0 8 = be64 e"
proof -
  obtain n where n: "length entries \<le> 64" "try_len scored_size entries PACKED_ZSET_HEADER_LEN = Some n"
      "n \<le> 8192" "\<forall>en \<in> set entries. \<not> f64_isnan (snd en)"
    and raw: "raw = be64 e @ be64 0 @ [TYPE_SORTED_SET] @ PACKED_ZSET_MAGIC @ be_bytes 2 (length entries) @
      concat (map write_scored entries)"
    using assms(1) unfolding encode_packed_zset_def packed_zset_defs
    by (simp split: option.splits if_splits)
  have len: "n = PACKED_ZSET_HEADER_LEN + length (concat (map write_scored entries))"
    and ok: "\<forall>x \<in> set entries. scored_size x \<noteq> None"
    using try_len_Some [OF scored_size_written n(2)] by auto
  note h = packed_header [OF _ _ raw]
  have "fold_items read_scored map_insert (length entries)
      ((be64 e @ be64 0 @ [TYPE_SORTED_SET] @ PACKED_ZSET_MAGIC @ be_bytes 2 (length entries)) @ concat (map write_scored entries))
      23 [] = map_option (\<lambda>s'. (s', 23 + length (concat (map write_scored entries)))) (add_all map_insert entries [])"
  proof (rule zset_entry.fold_items_written_end)
    show "list_all (\<lambda>en. utf8_valid (fst en) \<and> length (fst en) \<le> u32_max \<and> \<not> f64_isnan (snd en)) entries"
      using ok n(4) assms(3) by (auto simp: list_all_iff scored_size_def split: if_splits)
  qed (use len n in \<open>simp_all add: packed_zset_defs\<close>)
  then have f: "fold_items read_scored map_insert (length entries) raw 23 [] = Some (entries, length raw)"
    using h(4) n(1) add_all_map [of "[]" entries] assms(2) by (simp add: raw PACKED_ZSET_MAGIC_def)
  show ?thesis
    using h n(1) f by (simp add: decode_packed_zset_def is_packed_zset_raw_def finish_def packed_zset_defs)
qed

section \<open>Hashes\<close>

definition HASH_META_COMPACT_LEN :: nat where "HASH_META_COMPACT_LEN = 18"
definition HASH_META_FLAG_MAY_HAVE_FIELD_TTL :: nat where "HASH_META_FLAG_MAY_HAVE_FIELD_TTL = 1"
definition HASH_META_FLAG_PACKED :: nat where "HASH_META_FLAG_PACKED = 2"
definition SMALL_HASH_MAX_FIELDS :: nat where "SMALL_HASH_MAX_FIELDS = 128"
definition SMALL_HASH_MAX_ENCODED_BYTES :: nat where "SMALL_HASH_MAX_ENCODED_BYTES = 8 * 1024"
definition PACKED_HASH_MAGIC :: bytes where "PACKED_HASH_MAGIC = [CHR 0xF1, CHR ''H'', CHR ''P'', CHR 0x01]"
definition PACKED_HASH_HEADER_LEN :: nat where
  "PACKED_HASH_HEADER_LEN = HASH_META_COMPACT_LEN + length PACKED_HASH_MAGIC + 2"

lemmas packed_hash_defs = HASH_META_COMPACT_LEN_def HASH_META_FLAG_PACKED_def SMALL_HASH_MAX_FIELDS_def
  SMALL_HASH_MAX_ENCODED_BYTES_def PACKED_HASH_MAGIC_def PACKED_HASH_HEADER_LEN_def

text \<open>\<^verbatim>\<open>byte & flag != 0\<close>\<close>

definition has_flag :: "char \<Rightarrow> nat \<Rightarrow> bool" where
  "has_flag c flag \<longleftrightarrow> (of_char c :: nat) AND flag \<noteq> 0"

definition is_packed_hash_raw :: "bytes \<Rightarrow> bool" where
  "is_packed_hash_raw raw \<longleftrightarrow> length raw \<ge> PACKED_HASH_HEADER_LEN \<and> get_at raw 16 = Some TYPE_HASH \<and>
     has_flag (raw ! 17) HASH_META_FLAG_PACKED \<and>
     slice_of raw HASH_META_COMPACT_LEN (HASH_META_COMPACT_LEN + length PACKED_HASH_MAGIC) = PACKED_HASH_MAGIC"

definition read_field :: "bytes \<Rightarrow> nat \<Rightarrow> ((bytes \<times> bytes) \<times> nat) option" where
  "read_field raw offset =
     (case read_len 2 raw offset of
        None \<Rightarrow> None
      | Some (field_len, offset) \<Rightarrow>
          (case read_len 4 raw offset of
             None \<Rightarrow> None
           | Some (value_len, offset) \<Rightarrow>
               (case read_chunk raw offset field_len of
                  None \<Rightarrow> None
                | Some (field, offset) \<Rightarrow>
                    if \<not> utf8_valid field then None
                    else (case read_chunk raw offset value_len of
                        None \<Rightarrow> None
                      | Some (val, offset) \<Rightarrow> Some ((field, val), offset)))))"

definition write_field :: "bytes \<times> bytes \<Rightarrow> bytes" where
  "write_field fv =
     be_bytes 2 (length (fst fv)) @ be_bytes 4 (length (snd fv)) @ fst fv @ snd fv"

definition field_size :: "bytes \<times> bytes \<Rightarrow> nat option" where
  "field_size fv =
     (if length (fst fv) \<le> 65535 \<and> length (snd fv) \<le> u32_max
      then Some (2 + 4 + length (fst fv) + length (snd fv)) else None)"

definition decode_packed_hash :: "bytes \<Rightarrow> (bytes \<times> bytes) list option" where
  "decode_packed_hash raw =
     (if \<not> is_packed_hash_raw raw then None
      else (case read_len 2 raw (HASH_META_COMPACT_LEN + length PACKED_HASH_MAGIC) of
          None \<Rightarrow> None
        | Some (count, offset) \<Rightarrow>
            if count > SMALL_HASH_MAX_FIELDS then None
            else finish raw (fold_items read_field map_insert count raw offset [])))"

definition packed_hash_encoded_len :: "(bytes \<times> bytes) list \<Rightarrow> nat option" where
  "packed_hash_encoded_len flds =
     (if length flds > SMALL_HASH_MAX_FIELDS then None
      else (case try_len field_size flds PACKED_HASH_HEADER_LEN of
          None \<Rightarrow> None
        | Some encoded_len \<Rightarrow>
            if encoded_len > SMALL_HASH_MAX_ENCODED_BYTES then None else Some encoded_len))"

definition hash_uses_packed_layout :: "(bytes \<times> bytes) list \<Rightarrow> bool" where
  "hash_uses_packed_layout flds \<longleftrightarrow> packed_hash_encoded_len flds \<noteq> None"

definition encode_packed_hash :: "u64 \<Rightarrow> (bytes \<times> bytes) list \<Rightarrow> bytes option" where
  "encode_packed_hash expire_ms flds =
     (case packed_hash_encoded_len flds of
        None \<Rightarrow> None
      | Some encoded_len \<Rightarrow>
          Some (be64 expire_ms @ be64 0 @ [TYPE_HASH] @ [char_of HASH_META_FLAG_PACKED] @
            PACKED_HASH_MAGIC @ be_bytes 2 (length flds) @ concat (map write_field flds)))"

interpretation hash_field: item_codec write_field read_field
  "\<lambda>fv. utf8_valid (fst fv) \<and> length (fst fv) \<le> 65535 \<and> length (snd fv) \<le> u32_max"
proof unfold_locales
  fix x :: "bytes \<times> bytes" and p r :: bytes
  assume ok: "utf8_valid (fst x) \<and> length (fst x) \<le> 65535 \<and> length (snd x) \<le> u32_max"
    and len: "length p + length (write_field x) \<le> usize_max"
  obtain f v where x: "x = (f, v)" by fastforce
  let ?a = "be_bytes 2 (length f)" and ?b = "be_bytes 4 (length v)"
  have 1: "read_len 2 (p @ ?a @ (?b @ f @ v @ r)) (length p) = Some (length f, length p + 2)"
    by (rule read_len_written) (use ok x in simp)
  have 2: "read_len 4 ((p @ ?a) @ ?b @ (f @ v @ r)) (length (p @ ?a)) = Some (length v, length (p @ ?a) + 4)"
    by (rule read_len_written) (use ok x in \<open>simp add: u32_max_def\<close>)
  have 3: "read_chunk ((p @ ?a @ ?b) @ f @ (v @ r)) (length (p @ ?a @ ?b)) (length f) =
      Some (f, length (p @ ?a @ ?b) + length f)"
    by (rule read_chunk_written) (use len x in \<open>simp add: write_field_def\<close>)
  have 4: "read_chunk ((p @ ?a @ ?b @ f) @ v @ r) (length (p @ ?a @ ?b @ f)) (length v) =
      Some (v, length (p @ ?a @ ?b @ f) + length v)"
    by (rule read_chunk_written) (use len x in \<open>simp add: write_field_def\<close>)
  show "read_field (p @ write_field x @ r) (length p) = Some (x, length p + length (write_field x))"
    using ok 1 2 3 4 by (simp add: read_field_def write_field_def x ac_simps)
qed

lemma field_size_written: "field_size x = Some m \<Longrightarrow> m = length (write_field x)"
  by (auto simp: field_size_def write_field_def split: if_splits)

lemma packed_hash_roundtrip:
  assumes "encode_packed_hash e flds = Some raw" "sorted_wrt (<) (map fst flds)"
    and "list_all (\<lambda>fv. utf8_valid (fst fv)) flds"
  shows "decode_packed_hash raw = Some flds \<and> slice_of raw 0 8 = be64 e \<and> is_packed_hash_raw raw"
proof -
  obtain n where n: "length flds \<le> 128" "try_len field_size flds PACKED_HASH_HEADER_LEN = Some n" "n \<le> 8192"
    and raw: "raw = be64 e @ be64 0 @ [TYPE_HASH] @ [char_of HASH_META_FLAG_PACKED] @
      PACKED_HASH_MAGIC @ be_bytes 2 (length flds) @ concat (map write_field flds)"
    using assms(1) unfolding encode_packed_hash_def packed_hash_encoded_len_def packed_hash_defs
    by (simp split: option.splits if_splits)
  have len: "n = PACKED_HASH_HEADER_LEN + length (concat (map write_field flds))"
    and ok: "\<forall>x \<in> set flds. field_size x \<noteq> None"
    using try_len_Some [OF field_size_written n(2)] by auto
  have flag: "raw ! 17 = char_of (2 :: nat)" by (simp add: raw nth_append packed_hash_defs)
  have "has_flag (raw ! 17) HASH_META_FLAG_PACKED"
    unfolding flag has_flag_def HASH_META_FLAG_PACKED_def by code_simp
  moreover have "get_at raw 16 = Some TYPE_HASH" by (simp add: raw get_at_def nth_append)
  moreover have "slice_of raw 18 22 = PACKED_HASH_MAGIC" by (simp add: raw slice_of_def PACKED_HASH_MAGIC_def)
  moreover have lr: "length raw = 24 + length (concat (map write_field flds))"
    by (simp add: raw PACKED_HASH_MAGIC_def)
  ultimately have packed: "is_packed_hash_raw raw" by (simp add: is_packed_hash_raw_def packed_hash_defs)
  have cnt: "read_len 2 raw 22 = Some (length flds, 24)"
    using read_len_written [of "length flds" 2 "be64 e @ be64 0 @ [TYPE_HASH] @ [char_of HASH_META_FLAG_PACKED] @
      PACKED_HASH_MAGIC" "concat (map write_field flds)"] n(1) by (simp add: raw PACKED_HASH_MAGIC_def)
  have "fold_items read_field map_insert (length flds)
      ((be64 e @ be64 0 @ [TYPE_HASH] @ [char_of HASH_META_FLAG_PACKED] @ PACKED_HASH_MAGIC @
        be_bytes 2 (length flds)) @ concat (map write_field flds))
      24 [] = map_option (\<lambda>s'. (s', 24 + length (concat (map write_field flds)))) (add_all map_insert flds [])"
  proof (rule hash_field.fold_items_written_end)
    show "list_all (\<lambda>fv. utf8_valid (fst fv) \<and> length (fst fv) \<le> 65535 \<and> length (snd fv) \<le> u32_max) flds"
      using ok assms(3) by (auto simp: list_all_iff field_size_def split: if_splits)
  qed (use len n in \<open>simp_all add: packed_hash_defs\<close>)
  then have f: "fold_items read_field map_insert (length flds) raw 24 [] = Some (flds, length raw)"
    using lr n(1) add_all_map [of "[]" flds] assms(2) by (simp add: raw PACKED_HASH_MAGIC_def)
  have "slice_of raw 0 8 = be64 e" by (simp add: raw slice_of_def)
  then show ?thesis
    using packed cnt n(1) f by (simp add: decode_packed_hash_def finish_def packed_hash_defs)
qed

section \<open>Streams\<close>

record stream_meta =
  sm_expire_ms :: u64
  sm_version :: u64
  sm_last_id :: stream_id
  sm_length :: u64
  sm_entries_added :: u64

definition SMALL_STREAM_MAX_ENTRIES :: nat where "SMALL_STREAM_MAX_ENTRIES = 32"
definition SMALL_STREAM_MAX_ENCODED_BYTES :: nat where "SMALL_STREAM_MAX_ENCODED_BYTES = 8 * 1024"
definition PACKED_STREAM_MAGIC :: bytes where "PACKED_STREAM_MAGIC = [CHR 0xF1, CHR ''X'', CHR ''P'', CHR 0x01]"
definition PACKED_STREAM_HEADER_LEN :: nat where
  "PACKED_STREAM_HEADER_LEN = 17 + length PACKED_STREAM_MAGIC + 32 + 2"

lemmas packed_stream_defs = SMALL_STREAM_MAX_ENTRIES_def SMALL_STREAM_MAX_ENCODED_BYTES_def
  PACKED_STREAM_MAGIC_def PACKED_STREAM_HEADER_LEN_def

definition is_packed_stream_raw :: "bytes \<Rightarrow> bool" where
  "is_packed_stream_raw raw \<longleftrightarrow> length raw \<ge> PACKED_STREAM_HEADER_LEN \<and> get_at raw 16 = Some TYPE_STREAM \<and>
     slice_of raw 17 (17 + length PACKED_STREAM_MAGIC) = PACKED_STREAM_MAGIC"

definition read_id :: "bytes \<Rightarrow> nat \<Rightarrow> (stream_id \<times> nat) option" where
  "read_id raw offset =
     (case get_range raw offset (offset + 8) of
        None \<Rightarrow> None
      | Some ms \<Rightarrow>
          (case get_range raw (offset + 8) (offset + 16) of
             None \<Rightarrow> None
           | Some seq \<Rightarrow> Some (StreamId (from_be64 ms) (from_be64 seq), offset + 16)))"

definition read_entry :: "bytes \<Rightarrow> nat \<Rightarrow> ((stream_id \<times> bytes) \<times> nat) option" where
  "read_entry raw offset =
     (case read_id raw offset of
        None \<Rightarrow> None
      | Some (sid, offset) \<Rightarrow>
          (case read_item raw offset of
             None \<Rightarrow> None
           | Some (val, offset) \<Rightarrow> Some ((sid, val), offset)))"

text \<open>An entry is accepted behind the previous one, not behind the last id, and only when it decodes.\<close>

definition push_entry ::
  "stream_id \<Rightarrow> stream_id \<times> bytes \<Rightarrow> stream_id option \<times> (stream_id \<times> bytes) list \<Rightarrow>
   (stream_id option \<times> (stream_id \<times> bytes) list) option"
where
  "push_entry last_id entry acc =
     (case entry of (sid, val) \<Rightarrow> (case acc of (previous, entries) \<Rightarrow>
        if (case previous of Some p \<Rightarrow> sid \<le> p | None \<Rightarrow> False) \<or> sid > last_id \<or>
           decode_stream_entry val = None
        then None else Some (Some sid, entries @ [(sid, val)])))"

definition decode_packed_stream :: "bytes \<Rightarrow> (stream_meta \<times> (stream_id \<times> bytes) list) option" where
  "decode_packed_stream raw =
     (if \<not> is_packed_stream_raw raw then None
      else (case read_id raw 21 of None \<Rightarrow> None | Some (last_id, _) \<Rightarrow>
           (case get_range raw 37 45 of None \<Rightarrow> None | Some length_bytes \<Rightarrow>
           (case get_range raw 45 53 of None \<Rightarrow> None | Some added_bytes \<Rightarrow>
           (case read_len 2 raw 53 of None \<Rightarrow> None | Some (count, offset) \<Rightarrow>
              (let len = from_be64 length_bytes; entries_added = from_be64 added_bytes
               in if count > SMALL_STREAM_MAX_ENTRIES \<or> len \<noteq> word_of_nat count \<or> entries_added < len
                  then None
                  else (case finish raw (fold_items read_entry (push_entry last_id) count raw offset (None, [])) of
                      None \<Rightarrow> None
                    | Some (_, entries) \<Rightarrow>
                        Some (\<lparr>sm_expire_ms = from_be64 (slice_of raw 0 8), sm_version = 0,
                               sm_last_id = last_id, sm_length = len, sm_entries_added = entries_added\<rparr>,
                              entries))))))))"

definition write_entry :: "stream_id \<times> bytes \<Rightarrow> bytes" where
  "write_entry entry = be64 (sid_ms (fst entry)) @ be64 (sid_seq (fst entry)) @ write_item (snd entry)"

fun stream_encoded_len ::
  "stream_id \<Rightarrow> (stream_id \<times> bytes) list \<Rightarrow> stream_id option \<Rightarrow> nat \<Rightarrow> nat option"
where
  "stream_encoded_len last_id [] previous encoded_len = Some encoded_len"
| "stream_encoded_len last_id ((sid, val) # entries) previous encoded_len =
     (if (case previous of Some p \<Rightarrow> sid \<le> p | None \<Rightarrow> False) \<or> sid > last_id \<or>
         decode_stream_entry val = None
      then None
      else if length val > u32_max then None
      else (case checked_add encoded_len (16 + 4 + length val) of
          None \<Rightarrow> None
        | Some len \<Rightarrow> stream_encoded_len last_id entries (Some sid) len))"

definition encode_packed_stream :: "stream_meta \<Rightarrow> (stream_id \<times> bytes) list \<Rightarrow> bytes option" where
  "encode_packed_stream meta entries =
     (if length entries > SMALL_STREAM_MAX_ENTRIES \<or> sm_length meta \<noteq> word_of_nat (length entries) \<or>
         sm_entries_added meta < sm_length meta
      then None
      else (case stream_encoded_len (sm_last_id meta) entries None PACKED_STREAM_HEADER_LEN of
          None \<Rightarrow> None
        | Some encoded_len \<Rightarrow>
            if encoded_len > SMALL_STREAM_MAX_ENCODED_BYTES then None
            else Some (be64 (sm_expire_ms meta) @ be64 0 @ [TYPE_STREAM] @ PACKED_STREAM_MAGIC @
              be64 (sid_ms (sm_last_id meta)) @ be64 (sid_seq (sm_last_id meta)) @
              be64 (sm_length meta) @ be64 (sm_entries_added meta) @
              be_bytes 2 (length entries) @ concat (map write_entry entries))))"

lemma read_id_written:
  "read_id (p @ (be64 (sid_ms sid) @ be64 (sid_seq sid)) @ r) (length p) = Some (sid, length p + 16)"
proof -
  let ?a = "be64 (sid_ms sid)" and ?b = "be64 (sid_seq sid)"
  have "get_range (p @ ?a @ (?b @ r)) (length p) (length p + 8) = Some ?a"
    by (rule get_range_at) simp_all
  moreover have "get_range ((p @ ?a) @ ?b @ r) (length p + 8) (length p + 8 + 8) = Some ?b"
    by (rule get_range_at) simp_all
  ultimately show ?thesis by (cases sid) (simp add: read_id_def add.commute)
qed

interpretation stream_entry: item_codec write_entry read_entry "\<lambda>en. length (snd en) \<le> u32_max"
proof unfold_locales
  fix x :: "stream_id \<times> bytes" and p r :: bytes
  assume ok: "length (snd x) \<le> u32_max" and len: "length p + length (write_entry x) \<le> usize_max"
  obtain i v where x: "x = (i, v)" by fastforce
  let ?i = "be64 (sid_ms i) @ be64 (sid_seq i)"
  have "read_id (p @ ?i @ (write_item v @ r)) (length p) = Some (i, length p + 16)"
    by (rule read_id_written)
  moreover have "read_item ((p @ ?i) @ write_item v @ r) (length (p @ ?i)) =
      Some (v, length (p @ ?i) + length (write_item v))"
    by (rule list_item.read_written) (use ok len x in \<open>simp_all add: write_entry_def\<close>)
  ultimately show "read_entry (p @ write_entry x @ r) (length p) = Some (x, length p + length (write_entry x))"
    by (simp add: read_entry_def write_entry_def x)
qed

lemma stream_encoded_len_Some:
  assumes "stream_encoded_len last_id entries previous len = Some n"
  shows "n = len + length (concat (map write_entry entries)) \<and>
    (\<forall>en \<in> set entries. length (snd en) \<le> u32_max) \<and>
    (\<exists>prev'. add_all (push_entry last_id) entries (previous, acc) = Some (prev', acc @ entries))"
  using assms
proof (induction last_id entries previous len arbitrary: acc rule: stream_encoded_len.induct)
  case (2 last_id sid val entries previous len)
  note * = 2(2)
  have c: "\<not> ((case previous of Some p \<Rightarrow> sid \<le> p | None \<Rightarrow> False) \<or> sid > last_id \<or> decode_stream_entry val = None)"
    "\<not> length val > u32_max" "checked_add len (16 + 4 + length val) = Some (len + (16 + 4 + length val))"
    and rec: "stream_encoded_len last_id entries (Some sid) (len + (16 + 4 + length val)) = Some n"
    using * by (auto split: if_splits option.splits)
  from 2(1) [OF c rec, of "acc @ [(sid, val)]"] c show ?case
    by (auto simp: push_entry_def write_entry_def write_item_def)
qed simp

lemma packed_stream_roundtrip:
  assumes "encode_packed_stream meta entries = Some raw"
  shows "decode_packed_stream raw = Some (meta\<lparr>sm_version := 0\<rparr>, entries) \<and> length raw \<noteq> 52"
proof -
  let ?body = "concat (map write_entry entries)"
  let ?m = "sm_last_id meta"
  obtain n where n: "length entries \<le> 32" "sm_length meta = word_of_nat (length entries)"
      "\<not> sm_entries_added meta < sm_length meta" "n \<le> 8192"
      "stream_encoded_len ?m entries None PACKED_STREAM_HEADER_LEN = Some n"
    and raw: "raw = be64 (sm_expire_ms meta) @ be64 0 @ [TYPE_STREAM] @ PACKED_STREAM_MAGIC @
              be64 (sid_ms ?m) @ be64 (sid_seq ?m) @ be64 (sm_length meta) @ be64 (sm_entries_added meta) @
              be_bytes 2 (length entries) @ ?body"
    using assms unfolding encode_packed_stream_def packed_stream_defs
    by (simp split: option.splits if_splits)
  obtain prev' where len: "n = PACKED_STREAM_HEADER_LEN + length ?body"
    and ok: "\<forall>en \<in> set entries. length (snd en) \<le> u32_max"
    and adds: "add_all (push_entry ?m) entries (None, []) = Some (prev', entries)"
    using stream_encoded_len_Some [OF n(5), of "[]"] by auto
  let ?h = "be64 (sm_expire_ms meta) @ be64 0 @ [TYPE_STREAM] @ PACKED_STREAM_MAGIC"
  let ?i = "be64 (sid_ms ?m) @ be64 (sid_seq ?m)"
  have hl: "length ?h = 21" by (simp add: PACKED_STREAM_MAGIC_def)
  have lr: "length raw = 55 + length ?body" by (simp add: raw PACKED_STREAM_MAGIC_def)
  have packed: "is_packed_stream_raw raw"
    by (simp add: is_packed_stream_raw_def raw packed_stream_defs get_at_def nth_append slice_of_def)
  have rid: "read_id raw 21 = Some (?m, 37)"
    using read_id_written [of ?h ?m "be64 (sm_length meta) @ be64 (sm_entries_added meta) @
        be_bytes 2 (length entries) @ ?body"] by (simp add: raw PACKED_STREAM_MAGIC_def)
  have rl: "get_range raw 37 45 = Some (be64 (sm_length meta))"
    using get_range_at [of "?h @ ?i" 37 "be64 (sm_length meta)" 8 "be64 (sm_entries_added meta) @
        be_bytes 2 (length entries) @ ?body"] by (simp add: raw PACKED_STREAM_MAGIC_def)
  have ra: "get_range raw 45 53 = Some (be64 (sm_entries_added meta))"
    using get_range_at [of "?h @ ?i @ be64 (sm_length meta)" 45 "be64 (sm_entries_added meta)" 8
        "be_bytes 2 (length entries) @ ?body"] by (simp add: raw PACKED_STREAM_MAGIC_def)
  have rc: "read_len 2 raw 53 = Some (length entries, 55)"
    using read_len_written [of "length entries" 2 "?h @ ?i @ be64 (sm_length meta) @ be64 (sm_entries_added meta)" ?body]
      n(1) by (simp add: raw PACKED_STREAM_MAGIC_def)
  have "fold_items read_entry (push_entry ?m) (length entries)
      ((?h @ ?i @ be64 (sm_length meta) @ be64 (sm_entries_added meta) @ be_bytes 2 (length entries)) @ ?body)
      55 (None, []) = map_option (\<lambda>s'. (s', 55 + length ?body)) (add_all (push_entry ?m) entries (None, []))"
    by (rule stream_entry.fold_items_written_end)
       (use ok len n in \<open>auto simp: list_all_iff packed_stream_defs\<close>)
  then have f: "fold_items read_entry (push_entry ?m) (length entries) raw 55 (None, []) = Some ((prev', entries), length raw)"
    using lr adds by (simp add: raw)
  have "slice_of raw 0 8 = be64 (sm_expire_ms meta)" by (simp add: raw slice_of_def)
  then show ?thesis
    using packed rid rl ra rc f n(1-3) lr
    by (cases meta) (simp add: decode_packed_stream_def finish_def SMALL_STREAM_MAX_ENTRIES_def)
qed

end
