(* ===== verification/Meta_Codec.thy ===== *)
theory Meta_Codec
  imports Packed_Codec
begin

unbundle bit_operations_syntax

text \<open>
  The metadata of a value (\<^verbatim>\<open>src/store/ttl/meta_header.rs\<close>, and the metadata codecs of
  \<^verbatim>\<open>src/store/db/value_meta_codec.rs\<close> and \<^verbatim>\<open>value_entry_codec.rs\<close>). Two formats share the value
  space and are told apart by length and first bytes: the regular one starts with the expiry, the split
  list and split stream start with a magic word.
\<close>

section \<open>The header\<close>

definition LIST_META_MAGIC :: bytes where "LIST_META_MAGIC = ''ULST''"
definition STREAM_META_MAGIC :: bytes where "STREAM_META_MAGIC = ''USTR''"

record meta_header =
  mh_expire_ms :: u64
  mh_version :: u64
  mh_type_tag :: char

definition decode_meta_header :: "bytes \<Rightarrow> meta_header option" where
  "decode_meta_header raw =
     (if length raw = 36 \<and> slice_of raw 0 4 = LIST_META_MAGIC
      then Some \<lparr>mh_expire_ms = from_be64 (slice_of raw 4 12), mh_version = from_be64 (slice_of raw 12 20),
                 mh_type_tag = TYPE_LIST\<rparr>
      else if length raw = 52 \<and> slice_of raw 0 4 = STREAM_META_MAGIC
      then Some \<lparr>mh_expire_ms = from_be64 (slice_of raw 4 12), mh_version = from_be64 (slice_of raw 12 20),
                 mh_type_tag = TYPE_STREAM\<rparr>
      else if length raw < 17 then None
      else Some \<lparr>mh_expire_ms = from_be64 (slice_of raw 0 8), mh_version = from_be64 (slice_of raw 8 16),
                 mh_type_tag = raw ! 16\<rparr>)"

text \<open>\<^verbatim>\<open>copy_from_slice\<close> into a range.\<close>

definition splice :: "bytes \<Rightarrow> nat \<Rightarrow> bytes \<Rightarrow> bytes" where
  "splice raw at new = take at raw @ new @ drop (at + length new) raw"

definition patch_meta_expire_ms :: "bytes \<Rightarrow> u64 \<Rightarrow> bytes option" where
  "patch_meta_expire_ms raw expire_ms =
     (if length raw = 36 \<and> slice_of raw 0 4 = LIST_META_MAGIC then Some (splice raw 4 (be64 expire_ms))
      else if length raw = 52 \<and> slice_of raw 0 4 = STREAM_META_MAGIC then Some (splice raw 4 (be64 expire_ms))
      else if length raw < 8 then None
      else Some (splice raw 0 (be64 expire_ms)))"

section \<open>Metadata of each type\<close>

definition encode_hash_meta_with_field_ttl_flag :: "u64 \<Rightarrow> u64 \<Rightarrow> bool \<Rightarrow> bytes" where
  "encode_hash_meta_with_field_ttl_flag expire_ms version may_have_field_ttl =
     be64 expire_ms @ be64 version @ [TYPE_HASH] @
     [char_of (if may_have_field_ttl then HASH_META_FLAG_MAY_HAVE_FIELD_TTL else 0)]"

definition encode_hash_meta :: "u64 \<Rightarrow> u64 \<Rightarrow> bytes" where
  "encode_hash_meta expire_ms version = encode_hash_meta_with_field_ttl_flag expire_ms version False"

definition encode_set_meta :: "u64 \<Rightarrow> u64 \<Rightarrow> nat \<Rightarrow> bytes" where
  "encode_set_meta expire_ms version len =
     be64 expire_ms @ be64 version @ [TYPE_SET] @ be_bytes 8 len"

definition encode_list_meta :: "u64 \<Rightarrow> u64 \<Rightarrow> int \<Rightarrow> int \<Rightarrow> bytes" where
  "encode_list_meta expire_ms version head tail =
     LIST_META_MAGIC @ be64 expire_ms @ be64 version @ be64 (word_of_int head) @ be64 (word_of_int tail)"

definition encode_stream_meta :: "stream_meta \<Rightarrow> bytes" where
  "encode_stream_meta meta =
     STREAM_META_MAGIC @ be64 (sm_expire_ms meta) @ be64 (sm_version meta) @
     be64 (sid_ms (sm_last_id meta)) @ be64 (sid_seq (sm_last_id meta)) @
     be64 (sm_length meta) @ be64 (sm_entries_added meta)"

definition decode_list_meta :: "bytes \<Rightarrow> list_meta option" where
  "decode_list_meta raw =
     (case decode_packed_list raw of
        Some items \<Rightarrow>
          Some \<lparr>lm_expire_ms = from_be64 (slice_of raw 0 8), lm_version = 0, lm_head = 0,
                lm_tail = int (length items)\<rparr>
      | None \<Rightarrow>
          if length raw \<noteq> 36 \<or> slice_of raw 0 4 \<noteq> LIST_META_MAGIC then None
          else Some \<lparr>lm_expire_ms = from_be64 (slice_of raw 4 12),
                     lm_version = from_be64 (slice_of raw 12 20),
                     lm_head = sint (from_be64 (slice_of raw 20 28)),
                     lm_tail = sint (from_be64 (slice_of raw 28 36))\<rparr>)"

definition decode_stream_meta :: "bytes \<Rightarrow> stream_meta option" where
  "decode_stream_meta raw =
     (case decode_packed_stream raw of
        Some (meta, _) \<Rightarrow> Some meta
      | None \<Rightarrow>
          if length raw \<noteq> 52 \<or> slice_of raw 0 4 \<noteq> STREAM_META_MAGIC then None
          else Some \<lparr>sm_expire_ms = from_be64 (slice_of raw 4 12),
                     sm_version = from_be64 (slice_of raw 12 20),
                     sm_last_id = StreamId (from_be64 (slice_of raw 20 28)) (from_be64 (slice_of raw 28 36)),
                     sm_length = from_be64 (slice_of raw 36 44),
                     sm_entries_added = from_be64 (slice_of raw 44 52)\<rparr>)"

record set_meta =
  stm_expire_ms :: u64
  stm_version :: u64
  stm_len :: nat
  stm_packed :: bool

definition decode_set_meta :: "bytes \<Rightarrow> set_meta option" where
  "decode_set_meta raw =
     (case decode_meta_header raw of
        None \<Rightarrow> None
      | Some header \<Rightarrow>
          if mh_type_tag header \<noteq> TYPE_SET then None
          else (case decode_packed_set raw of
              Some members \<Rightarrow>
                Some \<lparr>stm_expire_ms = mh_expire_ms header, stm_version = 0,
                      stm_len = length members, stm_packed = True\<rparr>
            | None \<Rightarrow>
                if length raw \<noteq> 25 then None
                else Some \<lparr>stm_expire_ms = mh_expire_ms header, stm_version = mh_version header,
                           stm_len = be_nat (slice_of raw 17 25), stm_packed = False\<rparr>))"

record hash_meta =
  hm_expire_ms :: u64
  hm_version :: u64
  hm_may_have_field_ttl :: bool
  hm_packed :: bool

definition decode_hash_meta :: "bytes \<Rightarrow> hash_meta option" where
  "decode_hash_meta raw =
     (case decode_meta_header raw of
        None \<Rightarrow> None
      | Some header \<Rightarrow>
          if mh_type_tag header \<noteq> TYPE_HASH then None
          else (let packed = is_packed_hash_raw raw
                in Some \<lparr>hm_expire_ms = mh_expire_ms header, hm_version = mh_version header,
                   hm_may_have_field_ttl =
                     (if packed then False
                      else if length raw = HASH_META_COMPACT_LEN
                      then has_flag (raw ! 17) HASH_META_FLAG_MAY_HAVE_FIELD_TTL
                      else True),
                   hm_packed = packed\<rparr>))"

datatype hash_meta_error = Decode_failed | Wrong_type

definition decode_hash_meta_checked :: "bytes \<Rightarrow> hash_meta_error + hash_meta" where
  "decode_hash_meta_checked raw =
     (case decode_meta_header raw of
        None \<Rightarrow> Inl Decode_failed
      | Some header \<Rightarrow>
          if mh_type_tag header \<noteq> TYPE_HASH then Inl Wrong_type
          else (case decode_hash_meta raw of None \<Rightarrow> Inl Decode_failed | Some m \<Rightarrow> Inr m))"

definition re_encode_meta_with_version :: "bytes \<Rightarrow> u64 \<Rightarrow> bytes" where
  "re_encode_meta_with_version raw new_version =
     (if length raw \<ge> 16 then splice raw 8 (be64 new_version) else raw)"

section \<open>String values and expiry\<close>

definition encode_raw_string :: "bytes \<Rightarrow> u64 \<Rightarrow> bytes" where
  "encode_raw_string val expire_ms = be64 expire_ms @ be64 0 @ [TYPE_STRING] @ val"

definition decode_string_bytes :: "bytes \<Rightarrow> bytes option" where
  "decode_string_bytes raw =
     (if length raw \<ge> 17 \<and> raw ! 16 = TYPE_STRING then Some (drop 17 raw) else None)"

definition decode_expire_ms :: "bytes \<Rightarrow> u64" where
  "decode_expire_ms raw =
     (case decode_list_meta raw of
        Some meta \<Rightarrow> lm_expire_ms meta
      | None \<Rightarrow>
          (case decode_stream_meta raw of
             Some meta \<Rightarrow> sm_expire_ms meta
           | None \<Rightarrow> if length raw < 8 then 0 else from_be64 (take 8 raw)))"

section \<open>What the encoders write is what the decoders read\<close>

text \<open>An expiry whose first four bytes are below the magic words: a date before the year 194,000,000.\<close>

definition plausible_expiry :: "u64 \<Rightarrow> bool" where
  "plausible_expiry e \<longleftrightarrow> unat e < 0x554C535400000000"

lemma be64_first4: "take 4 (be64 e) = be_bytes 4 (unat e div 2 ^ 32)"
  using take_be_bytes [of 4 4 "unat e"] by (simp add: be64_def)

lemma plausible_not_magic:
  assumes "plausible_expiry e"
  shows "take 4 (be64 e) \<noteq> LIST_META_MAGIC" "take 4 (be64 e) \<noteq> STREAM_META_MAGIC"
proof -
  have lt: "unat e div 2 ^ 32 < 0x554C5354"
    using assms by (simp add: plausible_expiry_def less_mult_imp_div_less)
  have n: "be_nat (take 4 (be64 e)) = unat e div 2 ^ 32"
    using lt by (simp add: be64_first4 be_nat_be_bytes)
  have "be_nat LIST_META_MAGIC = 0x554C5354" "be_nat STREAM_META_MAGIC = 0x55535452"
    by (simp_all add: LIST_META_MAGIC_def STREAM_META_MAGIC_def)
  then show "take 4 (be64 e) \<noteq> LIST_META_MAGIC" "take 4 (be64 e) \<noteq> STREAM_META_MAGIC"
    using n lt by auto
qed

lemma regular_header:
  assumes "plausible_expiry e"
  shows "decode_meta_header (be64 e @ be64 v @ tag # body) =
    Some \<lparr>mh_expire_ms = e, mh_version = v, mh_type_tag = tag\<rparr>"
proof -
  have "slice_of (be64 e @ be64 v @ tag # body) 0 4 = take 4 (be64 e)" by (simp add: slice_of_def)
  then show ?thesis
    using plausible_not_magic [OF assms]
    by (simp add: decode_meta_header_def slice_of_def nth_append)
qed

lemma sint_word_of_int: "i64_range i \<Longrightarrow> sint (word_of_int i :: u64) = i"
  by (simp add: i64_range_def signed_of_int signed_take_bit_int_eq_self)

lemma nat_bounds: "int a \<le> int u \<and> int u < int b \<Longrightarrow> a \<le> u \<and> u < b"
  by simp

lemma list_meta_roundtrip:
  assumes "i64_range head" "i64_range tail" "\<bar>head\<bar> < 2 ^ 56"
  shows "decode_list_meta (encode_list_meta e v head tail) =
      Some \<lparr>lm_expire_ms = e, lm_version = v, lm_head = head, lm_tail = tail\<rparr> \<and>
    decode_meta_header (encode_list_meta e v head tail) =
      Some \<lparr>mh_expire_ms = e, mh_version = v, mh_type_tag = TYPE_LIST\<rparr>"
proof -
  let ?raw = "encode_list_meta e v head tail" and ?h = "be64 (word_of_int head :: u64)"
  have top: "hd ?h = NUL \<or> hd ?h = CHR 0xFF"
  proof -
    have "unat (word_of_int head :: u64) div 256 ^ 7 = 0 \<or> unat (word_of_int head :: u64) div 256 ^ 7 = 255"
    proof (cases "head < 0")
      case True
      have "(head + 2 ^ 64) mod 2 ^ 64 = head + 2 ^ 64" using assms True by (intro mod_pos_pos_trivial) auto
      then have u: "uint (word_of_int head :: u64) = head + 2 ^ 64" by (simp add: uint_word_of_int)
      then have "int (255 * 256 ^ 7) \<le> int (unat (word_of_int head :: u64)) \<and>
          int (unat (word_of_int head :: u64)) < int (256 ^ 8)"
        using assms True by simp
      then have "255 * 256 ^ 7 \<le> unat (word_of_int head :: u64) \<and> unat (word_of_int head :: u64) < 256 ^ 8"
        using nat_bounds [of "255 * 256 ^ 7" _ "256 ^ 8"] by blast
      then have "unat (word_of_int head :: u64) div 256 ^ 7 = 255"
        by (intro div_nat_eqI) auto
      then show ?thesis by simp
    next
      case False
      have "head mod 2 ^ 64 = head" using assms False by (intro mod_pos_pos_trivial) auto
      then have "uint (word_of_int head :: u64) = head" by (simp add: uint_word_of_int)
      then have "int 0 \<le> int (unat (word_of_int head :: u64)) \<and>
          int (unat (word_of_int head :: u64)) < int (256 ^ 7)"
        using assms False by simp
      then have "unat (word_of_int head :: u64) < 256 ^ 7"
        using nat_bounds [of 0 _ "256 ^ 7"] by blast
      then show ?thesis by simp
    qed
    moreover have "be64 w = char_of (unat w div 256 ^ 7) # be_bytes 7 (unat w)" for w :: u64
      by (simp add: be64_def be_bytes_8)
    moreover have "char_of (0 :: nat) = NUL" "char_of (255 :: nat) = CHR 0xFF" by code_simp+
    ultimately show ?thesis by auto
  qed
  have s20: "?raw ! 20 = hd ?h" by (simp add: encode_list_meta_def LIST_META_MAGIC_def nth_append hd_conv_nth)
  have "slice_of ?raw 17 21 ! 3 = ?raw ! 20"
    by (simp add: slice_of_def encode_list_meta_def LIST_META_MAGIC_def nth_append)
  then have "slice_of ?raw 17 21 \<noteq> PACKED_LIST_MAGIC"
    using top s20 by (auto simp: PACKED_LIST_MAGIC_def)
  then have "decode_packed_list ?raw = None"
    by (simp add: decode_packed_list_def is_packed_list_raw_def PACKED_LIST_MAGIC_def)
  then show ?thesis
    using assms sint_word_of_int [of head] sint_word_of_int [of tail]
    by (simp add: decode_list_meta_def decode_meta_header_def encode_list_meta_def LIST_META_MAGIC_def slice_of_def)
qed

lemma stream_meta_roundtrip:
  "decode_stream_meta (encode_stream_meta m) = Some m \<and>
   decode_meta_header (encode_stream_meta m) =
     Some \<lparr>mh_expire_ms = sm_expire_ms m, mh_version = sm_version m, mh_type_tag = TYPE_STREAM\<rparr>"
proof -
  have "decode_packed_stream (encode_stream_meta m) = None"
    by (simp add: decode_packed_stream_def is_packed_stream_raw_def packed_stream_defs encode_stream_meta_def
        STREAM_META_MAGIC_def)
  then show ?thesis
    by (cases m) (simp add: decode_stream_meta_def decode_meta_header_def encode_stream_meta_def
        STREAM_META_MAGIC_def slice_of_def)
qed

lemma set_meta_roundtrip:
  assumes "len < 2 ^ 56"
  shows "decode_set_meta (encode_set_meta e v len) =
    Some \<lparr>stm_expire_ms = e, stm_version = v, stm_len = len, stm_packed = False\<rparr>"
proof -
  let ?raw = "encode_set_meta e v len"
  have "?raw ! 17 = char_of (len div 256 ^ 7)"
    by (simp add: encode_set_meta_def nth_append be_bytes_8)
  moreover have "len div 256 ^ 7 = 0" using assms by simp
  moreover have "char_of (0 :: nat) = NUL" by code_simp
  moreover have "slice_of ?raw 17 21 ! 0 = ?raw ! 17"
    by (simp add: slice_of_def encode_set_meta_def nth_append)
  ultimately have "slice_of ?raw 17 21 \<noteq> PACKED_SET_MAGIC" by (auto simp: PACKED_SET_MAGIC_def)
  then have "decode_packed_set ?raw = None"
    by (simp add: decode_packed_set_def is_packed_set_raw_def PACKED_SET_MAGIC_def)
  moreover have "be_nat (be_bytes 8 len) = len" using assms by (simp add: be_nat_be_bytes)
  ultimately show ?thesis
    by (simp add: decode_set_meta_def decode_meta_header_def encode_set_meta_def slice_of_def nth_append)
qed

lemma hash_meta_roundtrip:
  "decode_hash_meta (encode_hash_meta_with_field_ttl_flag e v ttl) =
    Some \<lparr>hm_expire_ms = e, hm_version = v, hm_may_have_field_ttl = ttl, hm_packed = False\<rparr>"
proof -
  have f: "has_flag (char_of (1 :: nat)) 1" "\<not> has_flag (char_of (0 :: nat)) 1"
    unfolding has_flag_def by code_simp+
  have "\<not> is_packed_hash_raw (encode_hash_meta_with_field_ttl_flag e v ttl)"
    by (simp add: is_packed_hash_raw_def packed_hash_defs encode_hash_meta_with_field_ttl_flag_def)
  then show ?thesis
    using f by (simp add: decode_hash_meta_def decode_meta_header_def encode_hash_meta_with_field_ttl_flag_def
        slice_of_def nth_append HASH_META_COMPACT_LEN_def HASH_META_FLAG_MAY_HAVE_FIELD_TTL_def)
qed

end
