(* ===== verification/Version_Lifecycle.thy ===== *)
theory Version_Lifecycle
  imports Meta_Codec Key_Watch
begin

text \<open>
  Versions: the version counter (\<^verbatim>\<open>src/store/ttl/version_counter.rs\<close>), the owner records that every
  committed metadata record gets, the tracker of live versions and the compaction filter that drops the
  sub-keys of dead versions (\<^verbatim>\<open>src/store/db/version_compaction.rs\<close>).

  A successful \<^verbatim>\<open>compare_exchange\<close> is one step of the counter, so an execution of several threads is a
  sequence of steps; the clock reading of each call is its argument. Batches are lists of operations, and the
  store is read through a function that may return an error.
\<close>

section \<open>The version counter\<close>

definition VERSION_TIMESTAMP_COUNTER_BITS :: nat where "VERSION_TIMESTAMP_COUNTER_BITS = 11"

text \<open>The clock in microseconds is a natural number (\<^verbatim>\<open>as_micros\<close> is 128 bits wide).\<close>

definition version_timestamp_floor :: "nat \<Rightarrow> nat" where
  "version_timestamp_floor micros =
     (let cap = usize_max div 2 ^ VERSION_TIMESTAMP_COUNTER_BITS;
          timestamp_micros = (if micros \<le> usize_max then micros else cap)
      in min timestamp_micros cap * 2 ^ VERSION_TIMESTAMP_COUNTER_BITS)"

text \<open>\<^verbatim>\<open>None\<close> is the panic of the exhausted counter.\<close>

definition version_next :: "nat \<Rightarrow> u64 \<Rightarrow> (u64 \<times> u64) option" where
  "version_next micros current =
     (let next = max (min (unat current + 1) usize_max) (version_timestamp_floor micros)
      in if next > unat current then Some (word_of_nat next, word_of_nat next) else None)"

definition version_observe :: "u64 \<Rightarrow> u64 \<Rightarrow> u64" where
  "version_observe v current = (if v > current then v else current)"

datatype version_action = Next nat | Observe u64

text \<open>The versions handed out by a sequence of calls, and the counter after it.\<close>

fun version_run :: "u64 \<Rightarrow> version_action list \<Rightarrow> (u64 list \<times> u64) option" where
  "version_run c [] = Some ([], c)"
| "version_run c (Next micros # acts) =
     (case version_next micros c of
        None \<Rightarrow> None
      | Some (v, c') \<Rightarrow> map_option (\<lambda>(vs, c''). (v # vs, c'')) (version_run c' acts))"
| "version_run c (Observe v # acts) = version_run (version_observe v c) acts"

section \<open>The tracker of live versions\<close>

record version_compaction_tracker =
  live_versions :: "u64 set"
  owner_scan_next :: "(u16 \<times> u64) list"
  ready :: bool

definition register_live :: "version_compaction_tracker \<Rightarrow> u64 \<Rightarrow> version_compaction_tracker" where
  "register_live tr version =
     (if version \<noteq> 0 then tr\<lparr>live_versions := insert version (live_versions tr)\<rparr> else tr)"

definition retire :: "version_compaction_tracker \<Rightarrow> u64 \<Rightarrow> version_compaction_tracker" where
  "retire tr version =
     (if version \<noteq> 0 then tr\<lparr>live_versions := live_versions tr - {version}\<rparr> else tr)"

definition mark_ready :: "version_compaction_tracker \<Rightarrow> version_compaction_tracker" where
  "mark_ready tr = tr\<lparr>ready := True\<rparr>"

definition owner_scan_start :: "version_compaction_tracker \<Rightarrow> u16 \<Rightarrow> bytes \<Rightarrow> bytes" where
  "owner_scan_start tr db_index pfx =
     (case map_of (owner_scan_next tr) db_index of
        None \<Rightarrow> pfx
      | Some next_version \<Rightarrow> pfx @ be64 next_version)"

definition finish_owner_scan ::
  "version_compaction_tracker \<Rightarrow> u16 \<Rightarrow> u64 option \<Rightarrow> bool \<Rightarrow> version_compaction_tracker"
where
  "finish_owner_scan tr db_index last_version exhausted =
     (if exhausted then tr\<lparr>owner_scan_next := AList.delete db_index (owner_scan_next tr)\<rparr>
      else (case last_version of
          Some version \<Rightarrow>
            if unat version + 1 \<le> usize_max
            then tr\<lparr>owner_scan_next := AList.update db_index (version + 1) (owner_scan_next tr)\<rparr>
            else tr\<lparr>owner_scan_next := AList.delete db_index (owner_scan_next tr)\<rparr>
        | None \<Rightarrow> tr\<lparr>owner_scan_next := AList.delete db_index (owner_scan_next tr)\<rparr>))"

definition versioned_namespaces :: "bytes list" where
  "versioned_namespaces =
     [HASH_FIELD_NAMESPACE, HASH_FIELD_EXPIRE_NAMESPACE, LIST_ITEM_NAMESPACE, SET_MEMBER_NAMESPACE,
      ZSET_MEMBER_NAMESPACE, ZSET_RANK_NAMESPACE, STREAM_ENTRY_NAMESPACE, STREAM_GROUP_NAMESPACE,
      STREAM_PEL_NAMESPACE, STREAM_CONSUMER_NAMESPACE, JSON_NODE_NAMESPACE, VECTOR_META_NAMESPACE,
      VECTOR_DOC_NAMESPACE, VECTOR_TAG_NAMESPACE, VECTOR_NUMERIC_NAMESPACE, VECTOR_SEGMENT_NAMESPACE,
      VECTOR_GRAPH_NAMESPACE]"

definition is_versioned_namespace :: "bytes \<Rightarrow> bool" where
  "is_versioned_namespace ns \<longleftrightarrow> ns \<in> set versioned_namespaces"

definition owner_delimiter :: "bytes \<Rightarrow> nat option" where
  "owner_delimiter encoded_owner =
     (if get_at encoded_owner 0 = Some (CHR 0xFF)
      then (case get_range encoded_owner 1 9 of
          None \<Rightarrow> None
        | Some len_bytes \<Rightarrow>
            (case checked_add 9 (be_nat len_bytes) of
               None \<Rightarrow> None
             | Some delimiter \<Rightarrow> if get_at encoded_owner delimiter = Some NUL then Some delimiter else None))
      else iter_position (\<lambda>byte. byte = NUL) encoded_owner)"

definition version_from_compaction_key :: "bytes \<Rightarrow> u64 option" where
  "version_from_compaction_key key =
     (case strip_prefix TABLE_LOCAL_INTERNAL_PREFIX key of
        None \<Rightarrow> None
      | Some rest \<Rightarrow>
          (case strip_prefix VERSION_OWNER_NAMESPACE rest of
             Some suffix \<Rightarrow> if length suffix = 8 then Some (from_be64 suffix) else None
           | None \<Rightarrow>
               (case get_range rest 0 3 of
                  None \<Rightarrow> None
                | Some ns \<Rightarrow>
                    if \<not> is_versioned_namespace ns then None
                    else (let encoded_owner = drop 3 rest
                          in case owner_delimiter encoded_owner of
                               None \<Rightarrow> None
                             | Some delimiter \<Rightarrow>
                                 (case get_range encoded_owner (delimiter + 1) (delimiter + 9) of
                                    None \<Rightarrow> None
                                  | Some version \<Rightarrow> Some (from_be64 version))))))"

definition should_remove :: "version_compaction_tracker \<Rightarrow> bytes \<Rightarrow> bool" where
  "should_remove tr key =
     (ready tr \<and> (case version_from_compaction_key key of
        None \<Rightarrow> False | Some version \<Rightarrow> version \<notin> live_versions tr))"

datatype compaction_filter_decision = Remove | Keep

definition compaction_filter :: "version_compaction_tracker \<Rightarrow> bytes \<Rightarrow> compaction_filter_decision" where
  "compaction_filter tr key = (if should_remove tr key then Remove else Keep)"

section \<open>Owner records\<close>

definition VERSION_OWNER_VALUE_VERSION :: char where "VERSION_OWNER_VALUE_VERSION = CHR 0x01"
definition VERSION_REFRESH_BATCH_LIMIT :: nat where "VERSION_REFRESH_BATCH_LIMIT = 1024"

record version_owner =
  vo_version :: u64
  vo_type_tag :: char
  vo_key :: bytes

definition version_owner_prefix :: "u16 \<Rightarrow> bytes" where
  "version_owner_prefix db_index = internal_prefix CURRENT db_index @ VERSION_OWNER_NAMESPACE"

definition version_owner_key :: "u16 \<Rightarrow> u64 \<Rightarrow> bytes" where
  "version_owner_key db_index version = version_owner_prefix db_index @ be64 version"

definition put_version_owner_to_batch ::
  "batch_op list \<Rightarrow> u16 \<Rightarrow> bytes \<Rightarrow> u64 \<Rightarrow> char \<Rightarrow> batch_op list"
where
  "put_version_owner_to_batch batch db_index key version type_tag =
     (if version = 0 \<or> type_tag = TYPE_STRING then batch
      else batch @ [(Put, version_owner_key db_index version,
                     [VERSION_OWNER_VALUE_VERSION, type_tag] @ key)])"

definition decode_version_owner :: "bytes \<Rightarrow> bytes \<Rightarrow> bytes \<Rightarrow> version_owner option" where
  "decode_version_owner pfx raw_key raw_value =
     (case strip_prefix pfx raw_key of
        None \<Rightarrow> None
      | Some suffix \<Rightarrow>
          if length suffix \<noteq> 8 \<or> length raw_value < 2 \<or> raw_value ! 0 \<noteq> VERSION_OWNER_VALUE_VERSION then None
          else Some \<lparr>vo_version = from_be64 suffix, vo_type_tag = raw_value ! 1, vo_key = drop 2 raw_value\<rparr>)"

text \<open>The metadata writes of a batch that need an owner record.\<close>

definition owner_of_write :: "key_encoding_layout \<Rightarrow> u16 \<Rightarrow> batch_op \<Rightarrow> (bytes \<times> u64 \<times> char) option" where
  "owner_of_write layout db_index op =
     (case op of (wt, raw_key, raw_value) \<Rightarrow>
        if wt \<notin> {Put, PutBlobMedium, PutBlobExternal} then None
        else (case decode_meta_header raw_value of
            None \<Rightarrow> None
          | Some header \<Rightarrow>
              if mh_type_tag header = TYPE_STRING \<or> mh_version header = 0 then None
              else (case logical_main_key_from_raw_key layout db_index raw_key of
                  None \<Rightarrow> None
                | Some logical_key \<Rightarrow> Some (logical_key, mh_version header, mh_type_tag header))))"

definition mark_owner ::
  "u16 \<Rightarrow> version_compaction_tracker \<times> batch_op list \<Rightarrow> bytes \<times> u64 \<times> char \<Rightarrow>
   version_compaction_tracker \<times> batch_op list"
where
  "mark_owner db_index st owner =
     (case st of (tr, batch) \<Rightarrow> case owner of (logical_key, version, type_tag) \<Rightarrow>
        (register_live tr version, put_version_owner_to_batch batch db_index logical_key version type_tag))"

definition append_version_owner_markers ::
  "key_encoding_layout \<Rightarrow> u16 \<Rightarrow> version_compaction_tracker \<Rightarrow> batch_op list \<Rightarrow>
   version_compaction_tracker \<times> batch_op list"
where
  "append_version_owner_markers layout db_index tr batch =
     foldl (mark_owner db_index) (tr, batch) (List.map_filter (owner_of_write layout db_index) batch)"

text \<open>The second routine copies the batch only when it has something to add.\<close>

definition mark_owner_lazily ::
  "key_encoding_layout \<Rightarrow> u16 \<Rightarrow> batch_op list \<Rightarrow>
   version_compaction_tracker \<times> batch_op list option \<Rightarrow> batch_op \<Rightarrow>
   version_compaction_tracker \<times> batch_op list option"
where
  "mark_owner_lazily layout db_index batch st op =
     (case owner_of_write layout db_index op of
        None \<Rightarrow> st
      | Some (logical_key, version, type_tag) \<Rightarrow>
          (case st of (tr, augmented) \<Rightarrow>
             (register_live tr version,
              Some (put_version_owner_to_batch (case augmented of Some b \<Rightarrow> b | None \<Rightarrow> batch)
                      db_index logical_key version type_tag))))"

definition batch_with_version_owner_markers ::
  "key_encoding_layout \<Rightarrow> u16 \<Rightarrow> version_compaction_tracker \<Rightarrow> batch_op list \<Rightarrow>
   version_compaction_tracker \<times> batch_op list option"
where
  "batch_with_version_owner_markers layout db_index tr batch =
     foldl (mark_owner_lazily layout db_index batch) (tr, None) batch"

section \<open>Retiring versions\<close>

definition INTERNAL_FULLTEXT_VECTOR_PREFIX :: bytes where
  "INTERNAL_FULLTEXT_VECTOR_PREFIX = ''__onedis_fulltext_vector__:''"

definition is_internal_fulltext_vector_index :: "bytes \<Rightarrow> bool" where
  "is_internal_fulltext_vector_index index = starts_with index INTERNAL_FULLTEXT_VECTOR_PREFIX"

definition vector_meta_key :: "key_encoding_layout \<Rightarrow> u16 \<Rightarrow> bytes \<Rightarrow> u64 \<Rightarrow> bytes" where
  "vector_meta_key layout db_index index version =
     sub_key_range_start_bytes layout db_index VECTOR_META_NAMESPACE index version @ ''meta''"

definition vector_internal_marker_key :: "key_encoding_layout \<Rightarrow> u16 \<Rightarrow> bytes \<Rightarrow> bytes" where
  "vector_internal_marker_key layout db_index index = vector_meta_key layout db_index index 0"

definition version_owner_marker_key :: "key_encoding_layout \<Rightarrow> u16 \<Rightarrow> version_owner \<Rightarrow> bytes" where
  "version_owner_marker_key layout db_index owner =
     (if vo_type_tag owner = TYPE_VECTOR \<and> utf8_valid (vo_key owner) \<and>
         is_internal_fulltext_vector_index (vo_key owner)
      then vector_internal_marker_key layout db_index (vo_key owner)
      else main_key_bytes CURRENT db_index (vo_key owner))"

definition version_owner_is_current ::
  "key_encoding_layout \<Rightarrow> u16 \<Rightarrow> (bytes \<Rightarrow> 'e + bytes option) \<Rightarrow> version_owner \<Rightarrow> bool"
where
  "version_owner_is_current layout db_index get_raw owner =
     (case get_raw (version_owner_marker_key layout db_index owner) of
        Inr (Some raw) \<Rightarrow>
          (case decode_meta_header raw of
             None \<Rightarrow> False
           | Some header \<Rightarrow> mh_type_tag header = vo_type_tag owner \<and> mh_version header = vo_version owner)
      | _ \<Rightarrow> False)"

fun refresh_retired_versions ::
  "key_encoding_layout \<Rightarrow> u16 \<Rightarrow> (bytes \<Rightarrow> 'e + bytes option) \<Rightarrow> bytes \<Rightarrow> (bytes \<times> bytes) list \<Rightarrow>
   version_compaction_tracker \<Rightarrow> nat \<Rightarrow> version_compaction_tracker \<times> nat"
where
  "refresh_retired_versions layout db_index get_raw pfx [] tr retired = (tr, retired)"
| "refresh_retired_versions layout db_index get_raw pfx ((owner_key, owner_raw) # owners) tr retired =
     (case decode_version_owner pfx owner_key owner_raw of
        None \<Rightarrow> refresh_retired_versions layout db_index get_raw pfx owners tr retired
      | Some owner \<Rightarrow>
          if version_owner_is_current layout db_index get_raw owner
          then refresh_retired_versions layout db_index get_raw pfx owners
                 (register_live tr (vo_version owner)) retired
          else refresh_retired_versions layout db_index get_raw pfx owners
                 (retire tr (vo_version owner)) (retired + 1))"

definition last_scanned_version :: "bytes \<Rightarrow> (bytes \<times> bytes) list \<Rightarrow> u64 option" where
  "last_scanned_version pfx owners =
     (if owners = [] then None
      else (case strip_prefix pfx (fst (last owners)) of
          None \<Rightarrow> None
        | Some suffix \<Rightarrow> if length suffix = 8 then Some (from_be64 suffix) else None))"

text \<open>\<^verbatim>\<open>scan start end limit\<close> is the store's range scan.\<close>

definition refresh_retired_versions_for_compaction ::
  "key_encoding_layout \<Rightarrow> u16 \<Rightarrow> (bytes \<Rightarrow> 'e + bytes option) \<Rightarrow>
   (bytes \<Rightarrow> bytes option \<Rightarrow> nat \<Rightarrow> 'e + (bytes \<times> bytes) list) \<Rightarrow>
   version_compaction_tracker \<Rightarrow> ('e + nat) \<times> version_compaction_tracker"
where
  "refresh_retired_versions_for_compaction layout db_index get_raw scan tr =
     (let pfx = version_owner_prefix db_index
      in case scan (owner_scan_start tr db_index pfx) (prefix_exclusive_upper_bound pfx)
                VERSION_REFRESH_BATCH_LIMIT of
           Inl e \<Rightarrow> (Inl e, tr)
         | Inr owners \<Rightarrow>
             (let exhausted = length owners < VERSION_REFRESH_BATCH_LIMIT;
                  last_version = last_scanned_version pfx owners;
                  (tr', retired) = refresh_retired_versions layout db_index get_raw pfx owners tr 0
              in (Inr retired, finish_owner_scan tr' db_index last_version exhausted)))"

end
