(* ===== verification/Version_Properties.thy ===== *)
theory Version_Properties
  imports Version_Lifecycle
begin

text \<open>
  Properties of the version life cycle: versions are never reused, the compaction filter reads the version of
  every sub-key and drops only dead ones, the two routines that add owner records agree, and two situations
  in which the data of a live object is dropped.
\<close>

section \<open>Versions are fresh\<close>

lemma unat_less_word: "unat (w :: u64) \<le> usize_max"
  using unsigned_less [where 'a = nat, of w] by simp

lemma version_timestamp_floor_le: "version_timestamp_floor m \<le> usize_max"
  by (simp add: version_timestamp_floor_def VERSION_TIMESTAMP_COUNTER_BITS_def Let_def min_def)

lemma version_next_Some:
  assumes "version_next micros c = Some (v, c')"
  shows "c' = v" "unat v = max (unat c + 1) (version_timestamp_floor micros)" "c < v"
proof -
  let ?n = "max (min (unat c + 1) usize_max) (version_timestamp_floor micros)"
  have gt: "unat c < ?n" and v: "v = word_of_nat ?n" and c': "c' = v"
    using assms by (auto simp: version_next_def Let_def split: if_splits)
  have "?n \<le> usize_max" using version_timestamp_floor_le by simp
  then have u: "unat v = ?n" unfolding v by (simp add: unat_of_nat)
  have "unat c + 1 \<le> usize_max" using gt version_timestamp_floor_le [of micros] by (auto simp: max_def split: if_splits)
  then show "unat v = max (unat c + 1) (version_timestamp_floor micros)" using u by simp
  show "c' = v" by (rule c')
  show "c < v" using gt u by (simp add: word_less_nat_alt)
qed

lemma version_next_defined: "version_next micros c = None \<longleftrightarrow> unat c = usize_max"
  using unat_less_word [of c] version_timestamp_floor_le [of micros]
  by (auto simp: version_next_def Let_def max_def min_def)

lemma version_observe_ge: "c \<le> version_observe w c" "w \<le> version_observe w c"
  by (auto simp: version_observe_def)

lemma version_run_increasing:
  "version_run c acts = Some (vs, c') \<Longrightarrow>
   sorted_wrt (<) vs \<and> c \<le> c' \<and> (\<forall>v \<in> set vs. c < v \<and> v \<le> c')"
proof (induction acts arbitrary: c vs)
  case (Cons a acts)
  show ?case
  proof (cases a)
    case (Next micros)
    then obtain v c1 vs' where n: "version_next micros c = Some (v, c1)"
      and run: "version_run c1 acts = Some (vs', c')" and vs: "vs = v # vs'"
      using Cons.prems by (auto split: option.splits)
    show ?thesis using Cons.IH [OF run] version_next_Some(1,3) [OF n] vs by fastforce
  next
    case (Observe w)
    then have "version_run (version_observe w c) acts = Some (vs, c')" using Cons.prems by simp
    from Cons.IH [OF this] version_observe_ge(1) [of c w] show ?thesis by fastforce
  qed
qed simp

fun next_calls :: "version_action list \<Rightarrow> nat" where
  "next_calls [] = 0"
| "next_calls (Next micros # acts) = Suc (next_calls acts)"
| "next_calls (Observe v # acts) = next_calls acts"

lemma version_run_bound:
  assumes "version_run c acts = Some (vs, c')" "unat c \<le> B"
    and "\<forall>micros. Next micros \<in> set acts \<longrightarrow> version_timestamp_floor micros \<le> B"
    and "\<forall>v. Observe v \<in> set acts \<longrightarrow> unat v \<le> B"
  shows "unat c' \<le> B + next_calls acts"
  using assms
proof (induction acts arbitrary: c vs B)
  case (Cons a acts)
  show ?case
  proof (cases a)
    case (Next micros)
    then obtain v vs' where n: "version_next micros c = Some (v, v)" and run: "version_run v acts = Some (vs', c')"
      using Cons.prems(1) version_next_Some(1) by (fastforce split: option.splits)
    have "unat v \<le> Suc B" using version_next_Some(2) [OF n] Cons.prems Next by auto
    from Cons.IH [OF run this] Cons.prems Next show ?thesis by fastforce
  next
    case (Observe w)
    then have run: "version_run (version_observe w c) acts = Some (vs, c')" using Cons.prems by simp
    have "unat (version_observe w c) \<le> B" using Cons.prems Observe by (auto simp: version_observe_def)
    from Cons.IH [OF run this] Cons.prems Observe show ?thesis by simp
  qed
qed simp

text \<open>C6: Versions are never handed out twice: in every interleaving of allocations and of the
  observations of a restart, the versions handed out are strictly increasing, above the counter they start
  from and above every version observed before; the only failure is the exhausted counter.\<close>

theorem versions_are_fresh:
  assumes "version_run c (Observe w # acts) = Some (vs, c')"
  shows "sorted_wrt (<) vs \<and> distinct vs \<and> (\<forall>v \<in> set vs. c < v \<and> w < v \<and> v \<le> c') \<and>
    (version_next micros c' = None \<longleftrightarrow> unat c' = usize_max)"
proof -
  have "version_run (version_observe w c) acts = Some (vs, c')" using assms by simp
  from version_run_increasing [OF this] version_observe_ge [of c w] version_observe_ge [of w c]
  show ?thesis using version_next_defined
    by (auto simp: strict_sorted_iff intro: order.strict_trans1)
qed

theorem versions_are_fresh_witness:
  "version_run 0 (Observe 5 # [Next 2, Next 1]) = Some ([4096, 4097], 4097) \<and>
   distinct [4096, 4097 :: u64] \<and> (5 :: u64) < 4097"
proof -
  have "version_timestamp_floor 2 = 4096" "version_timestamp_floor 1 = 2048"
    by (simp_all add: version_timestamp_floor_def VERSION_TIMESTAMP_COUNTER_BITS_def Let_def)
  then have run: "version_run 0 (Observe 5 # [Next 2, Next 1]) = Some ([4096, 4097], 4097)"
    by (simp add: version_next_def version_observe_def Let_def)
  have "4097 \<in> set [4096, 4097 :: u64]" by simp
  with versions_are_fresh [OF run] run show ?thesis by blast
qed

text \<open>Versions are not reused after a restart either, even when the owner records are gone and the counter
  starts at zero: if the clock has moved past the clock readings and the number of allocations of
  the previous run (2048 per microsecond), every new version is above every old one.\<close>

theorem restart_versions_fresh:
  assumes "version_run 0 acts = Some (vs, c')" "version_run 0 (Next now # acts') = Some (vs', c'')"
    and "\<forall>micros. Next micros \<in> set acts \<longrightarrow> micros \<le> latest"
    and "\<forall>v. Observe v \<in> set acts \<longrightarrow> unat v \<le> version_timestamp_floor latest"
    and "version_timestamp_floor latest + next_calls acts < version_timestamp_floor now"
  shows "\<forall>v \<in> set vs. \<forall>v' \<in> set vs'. v < v'"
proof -
  have mono: "version_timestamp_floor m \<le> version_timestamp_floor latest" if "m \<le> latest" for m
    using that by (auto simp: version_timestamp_floor_def VERSION_TIMESTAMP_COUNTER_BITS_def Let_def)
  have "unat c' \<le> version_timestamp_floor latest + next_calls acts"
    by (rule version_run_bound [OF assms(1)]) (use assms(3,4) mono in auto)
  then have old: "unat v < version_timestamp_floor now" if "v \<in> set vs" for v
    using version_run_increasing [OF assms(1)] that assms(5) by (fastforce simp: word_le_nat_alt)
  obtain v0 r where n: "version_next now 0 = Some (v0, v0)" and run: "version_run v0 acts' = Some (r, c'')"
    and vs': "vs' = v0 # r"
    using assms(2) version_next_Some(1) by (fastforce split: option.splits)
  have v0: "version_timestamp_floor now \<le> unat v0" using version_next_Some(2) [OF n] by simp
  have "v0 \<le> v'" if "v' \<in> set vs'" for v' using version_run_increasing [OF run] that vs' by auto
  then show ?thesis using old v0 by (fastforce simp: word_less_nat_alt word_le_nat_alt)
qed

theorem restart_versions_fresh_witness:
  "version_run 0 [Next 1, Next 1] = Some ([2048, 2049], 2049) \<and>
   version_run 0 [Next 2] = Some ([4096], 4096) \<and> (2049 :: u64) < 4096"
proof -
  have f: "version_timestamp_floor 2 = 4096" "version_timestamp_floor 1 = 2048"
    by (simp_all add: version_timestamp_floor_def VERSION_TIMESTAMP_COUNTER_BITS_def Let_def)
  have runs: "version_run 0 [Next 1, Next 1] = Some ([2048, 2049], 2049)" "version_run 0 (Next 2 # []) = Some ([4096], 4096)"
    using f by (simp_all add: version_next_def Let_def)
  have "2049 \<in> set [2048, 2049 :: u64]" "4096 \<in> set [4096 :: u64]" by simp_all
  then have "(2049 :: u64) < 4096" using restart_versions_fresh [OF runs, of 1] f by fastforce
  with runs show ?thesis by simp
qed

section \<open>The compaction filter reads versions\<close>

lemma owner_delimiter_written:
  assumes "valid_owner k" "length k + 9 \<le> usize_max"
  shows "owner_delimiter (append_versioned_sub_key_owner [] k @ NUL # r) =
    Some (length (append_versioned_sub_key_owner [] k))"
proof (cases "NUL \<in> set k")
  case True
  let ?e = "append_versioned_sub_key_owner [] k @ NUL # r"
  have e: "append_versioned_sub_key_owner [] k = NUL_KEY_ENCODING_MARKER # be_bytes 8 (length k) @ k"
    using True by (simp add: append_versioned_sub_key_owner_def)
  have "get_range ?e 1 9 = Some (be_bytes 8 (length k))"
    using get_range_middle [of "[NUL_KEY_ENCODING_MARKER]" 1 "be_bytes 8 (length k)" 9 "k @ NUL # r"] by (simp add: e)
  moreover have "be_nat (be_bytes 8 (length k)) = length k"
    using assms by (simp add: be_nat_be_bytes)
  moreover have "get_at ?e (9 + length k) = Some NUL" by (simp add: e get_at_def nth_append)
  ultimately show ?thesis
    using assms(2) by (simp add: owner_delimiter_def e get_at_def NUL_KEY_ENCODING_MARKER_def checked_add_def)
next
  case False
  have e: "append_versioned_sub_key_owner [] k = k"
    using False by (simp add: append_versioned_sub_key_owner_def)
  have "get_at (k @ NUL # r) 0 \<noteq> Some (CHR 0xFF)"
    using owner_first_FF [of k r] False assms unfolding e
    by (simp add: get_at_def hd_conv_nth valid_owner_def)
  moreover have "iter_position (\<lambda>byte. byte = NUL) (k @ NUL # r) = Some (length k)"
    using False by (intro iter_position_append_first) auto
  ultimately show ?thesis by (simp add: owner_delimiter_def e)
qed

lemma versioned_namespaces_known:
  "ns \<in> set versioned_namespaces \<Longrightarrow> length ns = 3 \<and> ns \<noteq> VERSION_OWNER_NAMESPACE"
  by (auto simp: versioned_namespaces_def namespace_defs)

lemma version_from_sub_key:
  assumes "valid_owner k" "length k + 9 \<le> usize_max" "ns \<in> set versioned_namespaces"
  shows "version_from_compaction_key (sub_key_range_start_bytes CURRENT db ns k v @ s) = Some v"
proof -
  let ?o = "append_versioned_sub_key_owner [] k"
  have ns: "length ns = 3" "VERSION_OWNER_NAMESPACE \<noteq> ns" using versioned_namespaces_known [OF assms(3)] by auto
  have key: "sub_key_range_start_bytes CURRENT db ns k v @ s =
      TABLE_LOCAL_INTERNAL_PREFIX @ ns @ ?o @ NUL # be64 v @ s"
    by (simp add: sub_key_range_start_eq CURRENT_def)
  have "strip_prefix VERSION_OWNER_NAMESPACE (ns @ ?o @ NUL # be64 v @ s) = None"
    using ns by (subst strip_namespace) (simp_all add: namespace_defs)
  moreover have "get_range (ns @ ?o @ NUL # be64 v @ s) 0 3 = Some ns"
    using get_range_middle [of "[]" 0 ns 3] ns by simp
  moreover have "get_range ((?o @ [NUL]) @ be64 v @ s) (length ?o + 1) (length ?o + 9) = Some (be64 v)"
    by (rule get_range_middle) simp_all
  ultimately show ?thesis
    unfolding version_from_compaction_key_def key
    using owner_delimiter_written [OF assms(1,2), of "be64 v @ s"] assms(3) ns(1)
    by (simp add: is_versioned_namespace_def Let_def)
qed

lemma version_from_main_key:
  "valid_owner k \<Longrightarrow> version_from_compaction_key (main_key_bytes CURRENT db k) = None"
  using utf8_not_internal [of k "[]"] strip_prefix_iff [of TABLE_LOCAL_INTERNAL_PREFIX k]
  by (cases "strip_prefix TABLE_LOCAL_INTERNAL_PREFIX k")
    (auto simp: version_from_compaction_key_def CURRENT_def valid_owner_def starts_with_iff)

lemma version_from_owner_key: "version_from_compaction_key (version_owner_key db v) = Some v"
  by (simp add: version_from_compaction_key_def version_owner_key_def version_owner_prefix_def CURRENT_def)

text \<open>The compaction filter reads the version of every versioned physical key: sub-keys of all the
  object types, for owners with and without NUL bytes, and owner records; user keys, full-text index files and the other
  unversioned records have no version, so compaction always keeps them.\<close>

theorem compaction_reads_versions:
  assumes "valid_owner k" "length k + 9 \<le> usize_max"
  shows "(ns \<in> set versioned_namespaces \<longrightarrow>
      version_from_compaction_key (sub_key_range_start_bytes CURRENT db ns k v @ s) = Some v) \<and>
    version_from_compaction_key (version_owner_key db v) = Some v \<and>
    compaction_filter tr (main_key_bytes CURRENT db k) = Keep \<and>
    (ns' \<in> {FULLTEXT_META_NAMESPACE, FULLTEXT_FILE_NAMESPACE, FULLTEXT_OUTBOX_NAMESPACE} \<longrightarrow>
      compaction_filter tr (internal_prefix CURRENT db @ ns' @ s) = Keep)"
proof -
  have full: "version_from_compaction_key (internal_prefix CURRENT db @ n @ s) = None"
    if "n \<in> {FULLTEXT_META_NAMESPACE, FULLTEXT_FILE_NAMESPACE, FULLTEXT_OUTBOX_NAMESPACE}" for n
  proof -
    have n: "length n = 3" "VERSION_OWNER_NAMESPACE \<noteq> n" "n \<notin> set versioned_namespaces"
      using that by (auto simp: namespace_defs versioned_namespaces_def)
    have "strip_prefix VERSION_OWNER_NAMESPACE (n @ s) = None"
      using n by (subst strip_namespace) (simp_all add: namespace_defs)
    moreover have "get_range (n @ s) 0 3 = Some n" using get_range_middle [of "[]" 0 n 3 s] n by simp
    ultimately show ?thesis using n(3)
      by (simp add: version_from_compaction_key_def CURRENT_def is_versioned_namespace_def)
  qed
  show ?thesis
    using version_from_sub_key [OF assms] version_from_main_key [OF assms(1)] version_from_owner_key full by (simp add: compaction_filter_def should_remove_def)
qed

theorem compaction_reads_versions_witness:
  "version_from_compaction_key (sub_key_range_start_bytes CURRENT 0 LIST_ITEM_NAMESPACE [CHR ''a'', NUL] 7 @ ''xyz'') = Some 7"
proof -
  have "valid_owner [CHR ''a'', NUL]" by (simp add: valid_owner_def utf8_valid_ascii_Cons)
  moreover have "LIST_ITEM_NAMESPACE \<in> set versioned_namespaces" by (simp add: versioned_namespaces_def)
  ultimately show ?thesis using compaction_reads_versions [of "[CHR ''a'', NUL]"] by simp
qed

section \<open>Owner records\<close>

definition owner_record :: "u16 \<Rightarrow> bytes \<times> u64 \<times> char \<Rightarrow> batch_op" where
  "owner_record db_index owner = (case owner of (logical_key, version, type_tag) \<Rightarrow>
     (Put, version_owner_key db_index version, [VERSION_OWNER_VALUE_VERSION, type_tag] @ logical_key))"

lemma owner_of_write_relevant:
  "owner_of_write layout db op = Some (k, v, tag) \<Longrightarrow> v \<noteq> 0 \<and> tag \<noteq> TYPE_STRING"
  by (auto simp: owner_of_write_def split: prod.splits if_splits option.splits)

lemma mark_owners:
  assumes "\<forall>(k, v, tag) \<in> set owners. v \<noteq> 0 \<and> tag \<noteq> TYPE_STRING"
  shows "foldl (mark_owner db) (tr, batch) owners =
    (tr\<lparr>live_versions := live_versions tr \<union> (\<lambda>(k, v, tag). v) ` set owners\<rparr>, batch @ map (owner_record db) owners)"
  using assms
proof (induction owners arbitrary: tr batch)
  case (Cons o' owners)
  then show ?case
    by (auto simp: mark_owner_def register_live_def put_version_owner_to_batch_def owner_record_def)
qed simp

lemma mark_owners_lazily:
  "foldl (mark_owner_lazily layout db batch) (tr, aug) ops =
     (let owners = List.map_filter (owner_of_write layout db) ops
      in (fst (foldl (mark_owner db) (tr, []) owners),
          if owners = [] then aug
          else Some ((case aug of Some b \<Rightarrow> b | None \<Rightarrow> batch) @ map (owner_record db) owners)))"
proof (induction ops arbitrary: tr aug)
  case (Cons op ops)
  have rel: "\<forall>(k, v, tag) \<in> set (List.map_filter (owner_of_write layout db) xs). v \<noteq> 0 \<and> tag \<noteq> TYPE_STRING" for xs
    using owner_of_write_relevant by (fastforce simp: List.map_filter_def)
  show ?case
  proof (cases "owner_of_write layout db op")
    case (Some o')
    obtain k v tag where o': "o' = (k, v, tag)" by (cases o')
    have r: "v \<noteq> 0" "tag \<noteq> TYPE_STRING" using owner_of_write_relevant Some o' by blast+
    have step: "mark_owner db (tr1, b) (k, v, tag) =
        (tr1\<lparr>live_versions := insert v (live_versions tr1)\<rparr>, b @ [owner_record db (k, v, tag)])" for tr1 b
      using r by (simp add: mark_owner_def register_live_def put_version_owner_to_batch_def owner_record_def)
    show ?thesis
      unfolding foldl.simps Cons.IH [of "fst (mark_owner_lazily layout db batch (tr, aug) op)"
          "snd (mark_owner_lazily layout db batch (tr, aug) op)", simplified]
      using r Some o' mark_owners [OF rel] step
      by (simp add: List.map_filter_simps mark_owner_lazily_def Let_def
          register_live_def put_version_owner_to_batch_def owner_record_def)
  next
    case None
    then have "mark_owner_lazily layout db batch (tr, aug) op = (tr, aug)" by (simp add: mark_owner_lazily_def)
    then show ?thesis using None Cons.IH by (simp add: List.map_filter_simps)
  qed
qed (simp add: List.map_filter_simps)

text \<open>Every committed metadata record has its owner record in the same atomic batch, and its version is live
  before the batch is written: the batch is kept as it is and followed by one owner record per metadata
  write, which decodes to that key, version and type; and the routine that copies the batch only when needed writes the
  same batch and registers the same versions.\<close>

theorem owner_records_complete:
  assumes "append_version_owner_markers layout db tr batch = (tr', batch')"
  shows "(\<exists>records. batch' = batch @ records \<and>
      (\<forall>op \<in> set batch. \<forall>k v tag. owner_of_write layout db op = Some (k, v, tag) \<longrightarrow>
        v \<in> live_versions tr' \<and>
        (\<exists>raw. (Put, version_owner_key db v, raw) \<in> set records \<and>
          decode_version_owner (version_owner_prefix db) (version_owner_key db v) raw =
            Some \<lparr>vo_version = v, vo_type_tag = tag, vo_key = k\<rparr>)) \<and>
      batch_with_version_owner_markers layout db tr batch =
        (tr', if records = [] then None else Some batch'))"
proof -
  let ?owners = "List.map_filter (owner_of_write layout db) batch"
  have rel: "\<forall>(k, v, tag) \<in> set ?owners. v \<noteq> 0 \<and> tag \<noteq> TYPE_STRING"
    using owner_of_write_relevant by (fastforce simp: List.map_filter_def)
  have a: "tr' = tr\<lparr>live_versions := live_versions tr \<union> (\<lambda>(k, v, tag). v) ` set ?owners\<rparr>"
    "batch' = batch @ map (owner_record db) ?owners"
    using assms mark_owners [OF rel] by (simp_all add: append_version_owner_markers_def)
  have mem: "(k, v, tag) \<in> set ?owners" if "op \<in> set batch" "owner_of_write layout db op = Some (k, v, tag)" for op k v tag
    using that by (force simp: List.map_filter_def)
  have dec: "decode_version_owner (version_owner_prefix db) (version_owner_key db v)
      ([VERSION_OWNER_VALUE_VERSION, tag] @ k) = Some \<lparr>vo_version = v, vo_type_tag = tag, vo_key = k\<rparr>" for k v tag
    by (simp add: decode_version_owner_def version_owner_key_def)
  have "batch_with_version_owner_markers layout db tr batch =
      (tr', if map (owner_record db) ?owners = [] then None else Some batch')"
    unfolding batch_with_version_owner_markers_def mark_owners_lazily
    using mark_owners [OF rel] a by (simp add: Let_def)
  moreover have "v \<in> live_versions tr' \<and> (\<exists>raw. (Put, version_owner_key db v, raw) \<in> set (map (owner_record db) ?owners) \<and>
      decode_version_owner (version_owner_prefix db) (version_owner_key db v) raw =
        Some \<lparr>vo_version = v, vo_type_tag = tag, vo_key = k\<rparr>)"
    if "op \<in> set batch" "owner_of_write layout db op = Some (k, v, tag)" for op k v tag
    using mem [OF that] dec [of v tag k] a(1) by (force simp: owner_record_def)
  ultimately show ?thesis using a(2) by blast
qed

definition empty_compaction_tracker :: version_compaction_tracker where
  "empty_compaction_tracker = \<lparr>live_versions = {}, owner_scan_next = [], ready = True\<rparr>"

lemma hash_meta_header:
  assumes "plausible_expiry e"
  shows "decode_meta_header (encode_hash_meta_with_field_ttl_flag e v ttl) =
    Some \<lparr>mh_expire_ms = e, mh_version = v, mh_type_tag = TYPE_HASH\<rparr>"
  using regular_header [OF assms, of v TYPE_HASH] by (simp add: encode_hash_meta_with_field_ttl_flag_def)

theorem owner_records_complete_witness:
  "5 \<in> live_versions (fst (append_version_owner_markers CURRENT 0 empty_compaction_tracker
     [(Put, ''h'', encode_hash_meta 0 5)]))"
proof -
  let ?op = "(Put, ''h'', encode_hash_meta 0 5)"
  have "decode_meta_header (encode_hash_meta 0 5) = Some \<lparr>mh_expire_ms = 0, mh_version = 5, mh_type_tag = TYPE_HASH\<rparr>"
    using hash_meta_header [of 0 5 False] by (simp add: encode_hash_meta_def plausible_expiry_def)
  moreover have "logical_main_key_from_raw_key CURRENT 0 ''h'' = Some ''h''"
    by (simp add: CURRENT_def KEY_ENCODING_LAYOUT_META_KEY_def TABLE_LOCAL_INTERNAL_PREFIX_def)
  ultimately have "owner_of_write CURRENT 0 ?op = Some (''h'', 5, TYPE_HASH)"
    by (simp add: owner_of_write_def type_tag_defs)
  moreover obtain tr' batch' where m: "append_version_owner_markers CURRENT 0 empty_compaction_tracker [?op] = (tr', batch')"
    by fastforce
  ultimately show ?thesis using owner_records_complete [OF m] by auto
qed

section \<open>Live objects survive compaction\<close>

lemma refresh_keeps:
  assumes "\<forall>(owner_key, owner_raw) \<in> set owners. \<forall>ow. decode_version_owner pfx owner_key owner_raw = Some ow \<and>
      vo_version ow = v \<longrightarrow> version_owner_is_current layout db get_raw ow"
    and "v \<in> live_versions tr"
  shows "v \<in> live_versions (fst (refresh_retired_versions layout db get_raw pfx owners tr n))"
  using assms
proof (induction owners arbitrary: tr n)
  case (Cons x owners)
  obtain ok raw where x: "x = (ok, raw)" by fastforce
  have rest: "\<forall>(owner_key, owner_raw) \<in> set owners. \<forall>ow. decode_version_owner pfx owner_key owner_raw = Some ow \<and>
      vo_version ow = v \<longrightarrow> version_owner_is_current layout db get_raw ow"
    using Cons.prems(1) by simp
  show ?case
  proof (cases "decode_version_owner pfx ok raw")
    case (Some ow)
    have "vo_version ow = v \<longrightarrow> version_owner_is_current layout db get_raw ow"
      using Cons.prems(1) Some x by auto
    then show ?thesis
      using Cons.IH [OF rest] Some x Cons.prems(2) by (auto simp: register_live_def retire_def)
  qed (use Cons.IH [OF rest] Cons.prems(2) x in simp)
qed simp

lemma refresh_ready: "ready (fst (refresh_retired_versions layout db get_raw pfx owners tr n)) = ready tr"
  by (induction owners arbitrary: tr n) (auto simp: register_live_def retire_def split: option.splits if_splits)

lemma finish_owner_scan_frame [simp]:
  "live_versions (finish_owner_scan tr db lv ex) = live_versions tr"
  "ready (finish_owner_scan tr db lv ex) = ready tr"
  by (simp_all add: finish_owner_scan_def split: option.split)

lemma refresh_for_compaction_live:
  assumes "refresh_retired_versions_for_compaction layout db get_raw scan tr = (Inr n, tr')"
  shows "\<exists>owners. scan (owner_scan_start tr db (version_owner_prefix db))
      (prefix_exclusive_upper_bound (version_owner_prefix db)) VERSION_REFRESH_BATCH_LIMIT = Inr owners \<and>
    live_versions tr' = live_versions (fst (refresh_retired_versions layout db get_raw (version_owner_prefix db) owners tr 0)) \<and>
    ready tr' = ready tr"
  using assms refresh_ready [of layout db get_raw "version_owner_prefix db" _ tr 0]
  by (auto simp: refresh_retired_versions_for_compaction_def Let_def split: sum.splits prod.splits) (metis fst_conv)+

text \<open>C4: Compaction never removes the data of a live object. When the metadata of a key is readable
  and names a version that is registered as live, and the owner records of that version name that key and
  type, then after a refresh of the retired versions the compaction filter keeps every sub-key of that
  version, its owner record and the main key.\<close>

theorem live_objects_survive_compaction:
  assumes "valid_owner k" "length k + 9 \<le> usize_max" "v \<noteq> 0" "v \<in> live_versions tr"
    and "get_raw (main_key_bytes CURRENT db k) = Inr (Some raw)"
    and "decode_meta_header raw = Some h" "mh_version h = v"
    and "\<not> (mh_type_tag h = TYPE_VECTOR \<and> is_internal_fulltext_vector_index k)"
    and "\<forall>s e n owners. scan s e n = Inr owners \<longrightarrow> (\<forall>(owner_key, owner_raw) \<in> set owners. \<forall>ow.
        decode_version_owner (version_owner_prefix db) owner_key owner_raw = Some ow \<and> vo_version ow = v \<longrightarrow>
        vo_type_tag ow = mh_type_tag h \<and> vo_key ow = k)"
    and "refresh_retired_versions_for_compaction layout db get_raw scan tr = (r, tr')"
  shows "(\<forall>ns \<in> set versioned_namespaces.
      compaction_filter tr' (sub_key_range_start_bytes CURRENT db ns k v @ s) = Keep) \<and>
    compaction_filter tr' (version_owner_key db v) = Keep \<and>
    compaction_filter tr' (main_key_bytes CURRENT db k) = Keep"
proof -
  have cur: "version_owner_is_current layout db get_raw ow"
    if "vo_type_tag ow = mh_type_tag h" "vo_key ow = k" "vo_version ow = v" for ow
  proof -
    have "version_owner_marker_key layout db ow = main_key_bytes CURRENT db k"
      using that assms(8) by (auto simp: version_owner_marker_key_def)
    then show ?thesis using that assms(5-7) by (simp add: version_owner_is_current_def)
  qed
  have live: "v \<in> live_versions tr'"
  proof (cases r)
    case (Inl e)
    then show ?thesis using assms(4,10)
      by (auto simp: refresh_retired_versions_for_compaction_def Let_def split: sum.splits prod.splits)
  next
    case (Inr n)
    then obtain owners where o: "scan (owner_scan_start tr db (version_owner_prefix db))
        (prefix_exclusive_upper_bound (version_owner_prefix db)) VERSION_REFRESH_BATCH_LIMIT = Inr owners"
      "live_versions tr' = live_versions (fst (refresh_retired_versions layout db get_raw (version_owner_prefix db) owners tr 0))"
      using refresh_for_compaction_live assms(10) by blast
    have "\<forall>(owner_key, owner_raw) \<in> set owners. \<forall>ow. decode_version_owner (version_owner_prefix db) owner_key owner_raw = Some ow \<and>
        vo_version ow = v \<longrightarrow> version_owner_is_current layout db get_raw ow"
      using assms(9) o(1) cur by blast
    from refresh_keeps [OF this assms(4)] o(2) show ?thesis by simp
  qed
  show ?thesis
    using version_from_sub_key [OF assms(1,2)] version_from_main_key [OF assms(1)] version_from_owner_key live by (simp add: compaction_filter_def should_remove_def)
qed

definition sample_scan :: "bytes \<Rightarrow> bytes option \<Rightarrow> nat \<Rightarrow> string + (bytes \<times> bytes) list" where
  "sample_scan s e n = Inr [(version_owner_key 0 5, [VERSION_OWNER_VALUE_VERSION, TYPE_HASH] @ ''h'')]"

lemma sample_owner:
  "decode_version_owner (version_owner_prefix 0) (version_owner_key 0 5)
     ([VERSION_OWNER_VALUE_VERSION, TYPE_HASH] @ ''h'') = Some \<lparr>vo_version = 5, vo_type_tag = TYPE_HASH, vo_key = ''h''\<rparr>"
  by (simp add: decode_version_owner_def version_owner_key_def)

theorem live_objects_survive_compaction_witness:
  "compaction_filter (snd (refresh_retired_versions_for_compaction CURRENT 0
       (\<lambda>_. Inr (Some (encode_hash_meta 0 5))) sample_scan
       (empty_compaction_tracker\<lparr>live_versions := {5}\<rparr>)))
     (sub_key_range_start_bytes CURRENT 0 HASH_FIELD_NAMESPACE ''h'' 5 @ ''f'') = Keep"
proof -
  let ?tr = "empty_compaction_tracker\<lparr>live_versions := {5}\<rparr>"
  let ?get = "\<lambda>_. Inr (Some (encode_hash_meta 0 5)) :: string + bytes option"
  have k: "valid_owner ''h''" by (simp add: valid_owner_def utf8_valid_ascii_Cons)
  have h: "decode_meta_header (encode_hash_meta 0 5) = Some \<lparr>mh_expire_ms = 0, mh_version = 5, mh_type_tag = TYPE_HASH\<rparr>"
    using hash_meta_header [of 0 5 False] by (simp add: encode_hash_meta_def plausible_expiry_def)
  obtain r tr' where run: "refresh_retired_versions_for_compaction CURRENT 0 ?get sample_scan ?tr = (r, tr')" by fastforce
  have "HASH_FIELD_NAMESPACE \<in> set versioned_namespaces" by (simp add: versioned_namespaces_def)
  moreover have "\<forall>ns \<in> set versioned_namespaces.
      compaction_filter tr' (sub_key_range_start_bytes CURRENT 0 ns ''h'' 5 @ ''f'') = Keep"
    by (rule live_objects_survive_compaction [OF k _ _ _ _ h _ _ _ run, of 5, THEN conjunct1])
      (use sample_owner in \<open>auto simp: type_tag_defs sample_scan_def\<close>)
  ultimately show ?thesis using run by simp
qed

section \<open>Where live data is lost\<close>

definition tracker_reachable :: "version_compaction_tracker \<Rightarrow> bool" where
  "tracker_reachable tr \<longleftrightarrow> 0 \<notin> live_versions tr"

lemma zero_never_live:
  "tracker_reachable empty_compaction_tracker"
  "tracker_reachable tr \<Longrightarrow> tracker_reachable (register_live tr v)"
  "tracker_reachable tr \<Longrightarrow> tracker_reachable (retire tr v)"
  "tracker_reachable tr \<Longrightarrow> tracker_reachable (mark_ready tr)"
  by (auto simp: tracker_reachable_def empty_compaction_tracker_def register_live_def retire_def mark_ready_def)



text \<open>C36: A failed read of the metadata during the refresh is taken for a dead object: the version of a live hash is
  retired, and the compaction filter then removes its fields.\<close>

theorem read_error_retires_live_version:
  assumes "valid_owner k" "length k + 9 \<le> usize_max" "v \<noteq> 0" "ready tr"
    and "\<forall>x. get_raw x = Inl e"
    and "refresh_retired_versions CURRENT db get_raw (version_owner_prefix db)
        [(version_owner_key db v, [VERSION_OWNER_VALUE_VERSION, TYPE_HASH] @ k)] tr 0 = (tr', n)"
  shows "n = 1 \<and> compaction_filter tr' (sub_key_range_start_bytes CURRENT db HASH_FIELD_NAMESPACE k v @ s) = Remove"
proof -
  have ns: "HASH_FIELD_NAMESPACE \<in> set versioned_namespaces" by (simp add: versioned_namespaces_def)
  have dec: "decode_version_owner (version_owner_prefix db) (version_owner_key db v)
      ([VERSION_OWNER_VALUE_VERSION, TYPE_HASH] @ k) = Some \<lparr>vo_version = v, vo_type_tag = TYPE_HASH, vo_key = k\<rparr>"
    by (simp add: decode_version_owner_def version_owner_key_def)
  have "\<not> version_owner_is_current CURRENT db get_raw ow" for ow
    using assms(5) by (simp add: version_owner_is_current_def)
  then have "tr' = retire tr v" "n = 1" using assms(6) dec by simp_all
  then have "v \<notin> live_versions tr'" "ready tr'" using assms(3,4) by (simp_all add: retire_def)
  then show ?thesis
    using version_from_sub_key [OF assms(1,2) ns] \<open>n = 1\<close> by (simp add: compaction_filter_def should_remove_def)
qed

theorem read_error_retires_live_version_witness:
  "snd (refresh_retired_versions CURRENT 0 (\<lambda>_. Inl ''io'') (version_owner_prefix 0)
     [(version_owner_key 0 5, [VERSION_OWNER_VALUE_VERSION, TYPE_HASH] @ ''h'')] empty_compaction_tracker 0) = 1"
proof -
  have "valid_owner ''h''" by (simp add: valid_owner_def utf8_valid_ascii_Cons)
  moreover obtain tr' n where "refresh_retired_versions CURRENT 0 (\<lambda>_. Inl ''io'' :: string + bytes option)
      (version_owner_prefix 0) [(version_owner_key 0 5, [VERSION_OWNER_VALUE_VERSION, TYPE_HASH] @ ''h'')]
      empty_compaction_tracker 0 = (tr', n)" by fastforce
  ultimately show ?thesis
    using read_error_retires_live_version [of "''h''" 5 empty_compaction_tracker "\<lambda>_. Inl ''io''" "''io''" 0 tr' n]
    by (simp add: empty_compaction_tracker_def)
qed

end
