(* ===== verification/Ttl_Index.thy ===== *)
theory Ttl_Index
  imports Version_Lifecycle
begin

text \<open>
  Expiration: the index of deadlines (\<^verbatim>\<open>src/store/ttl/key_helpers.rs\<close>, \<^verbatim>\<open>manager_index.rs\<close>,
  \<^verbatim>\<open>manager_core.rs\<close>) and the background sweeper (\<^verbatim>\<open>manager_sweeper.rs\<close>).

  The storage engine answers through arguments: a read, a range scan or a compare-and-write that may fail. A
  sweep threads the world through the expiry of each entry, so that what other sessions do between
  two entries is part of it.
\<close>

section \<open>Index keys\<close>

definition TTL_INDEX_PREFIX :: bytes where "TTL_INDEX_PREFIX = [CHR 0xFE, CHR 0xFF] @ ''onedis:ttl:''"
definition TTL_INDEX_VALUE :: bytes where "TTL_INDEX_VALUE = [CHR 0x01]"

definition saturating_add64 :: "u64 \<Rightarrow> u64 \<Rightarrow> u64" where
  "saturating_add64 a b = (if unat a + unat b \<le> usize_max then a + b else - 1)"

definition saturating_sub64 :: "u64 \<Rightarrow> u64 \<Rightarrow> u64" where
  "saturating_sub64 a b = (if b \<le> a then a - b else 0)"

definition ttl_db_prefix :: "u16 \<Rightarrow> bytes" where
  "ttl_db_prefix db_index = TTL_INDEX_PREFIX @ be16 db_index"

definition ttl_db_expire_upper_bound :: "u16 \<Rightarrow> u64 \<Rightarrow> bytes" where
  "ttl_db_expire_upper_bound db_index now = ttl_db_prefix db_index @ be64 (saturating_add64 now 1)"

definition ttl_index_key :: "u64 \<Rightarrow> u16 \<Rightarrow> bytes \<Rightarrow> bytes" where
  "ttl_index_key expire_ms db_index user_key =
     TTL_INDEX_PREFIX @ be16 db_index @ be64 expire_ms @ user_key"

definition parse_ttl_index_key :: "bytes \<Rightarrow> (u64 \<times> u16 \<times> bytes) option" where
  "parse_ttl_index_key key =
     (case strip_prefix TTL_INDEX_PREFIX key of
        None \<Rightarrow> None
      | Some suffix \<Rightarrow>
          if length suffix < 10 then None
          else (let db_index = from_be16 (slice_of suffix 0 2);
                    expire_ms = from_be64 (slice_of suffix 2 10);
                    user_key = drop 10 suffix
                in if utf8_valid user_key then Some (expire_ms, db_index, user_key) else None))"

section \<open>Maintaining the index\<close>

definition try_add_to_batch ::
  "nat \<Rightarrow> batch_op list \<Rightarrow> u64 \<Rightarrow> u16 \<Rightarrow> bytes \<Rightarrow> nat \<times> batch_op list"
where
  "try_add_to_batch db_count batch expire_ms db_index key =
     (if expire_ms = 0 then (db_count, batch)
      else (max db_count (unat db_index + 1),
            batch @ [(Put, ttl_index_key expire_ms db_index key, TTL_INDEX_VALUE)]))"

definition remove_known_to_batch :: "batch_op list \<Rightarrow> u64 \<Rightarrow> u16 \<Rightarrow> bytes \<Rightarrow> batch_op list" where
  "remove_known_to_batch batch expire_ms db_index key =
     (if expire_ms = 0 then batch
      else batch @ [(Delete, ttl_index_key expire_ms db_index key, [])])"

text \<open>\<^verbatim>\<open>remove\<close> and \<^verbatim>\<open>remove_to_batch\<close>, which are given no deadline, leave the index as it is.\<close>

definition remove_to_batch :: "batch_op list \<Rightarrow> u16 \<Rightarrow> bytes \<Rightarrow> batch_op list" where
  "remove_to_batch batch db_index key = batch"

text \<open>\<^verbatim>\<open>scan_prefix\<close> is the store's scan of all keys with a prefix.\<close>

definition remove_db_to_batch ::
  "(bytes \<Rightarrow> 'e + (bytes \<times> bytes) list) \<Rightarrow> batch_op list \<Rightarrow> u16 \<Rightarrow> 'e + batch_op list"
where
  "remove_db_to_batch scan_prefix batch db_index =
     (case scan_prefix (ttl_db_prefix db_index) of
        Inl e \<Rightarrow> Inl e
      | Inr entries \<Rightarrow> Inr (batch @ map (\<lambda>(key, _). (Delete, key, [])) entries))"

definition index_snapshot_for_db ::
  "(bytes \<Rightarrow> 'e + (bytes \<times> bytes) list) \<Rightarrow> u16 \<Rightarrow> u64 \<Rightarrow> 'e + (nat \<times> u64)"
where
  "index_snapshot_for_db scan_prefix db_index now =
     (case scan_prefix (ttl_db_prefix db_index) of
        Inl e \<Rightarrow> Inl e
      | Inr entries \<Rightarrow>
          (let expiries = List.map_filter (\<lambda>(key, _). case parse_ttl_index_key key of
                 None \<Rightarrow> None
               | Some (expire_ms, parsed_db, _) \<Rightarrow> if parsed_db = db_index then Some expire_ms else None) entries;
               total_ttl = foldl (\<lambda>total e. saturating_add64 total (saturating_sub64 e now)) 0 expiries;
               count = length expiries
           in Inr (count, if count = 0 then 0 else word_of_nat (unat total_ttl div count))))"

text \<open>
  The startup scan: the deadlines are only counted, the versions are observed and registered, per database in
  turn. The result is that count, the number of databases the sweeper goes round, the counter and the tracker.
\<close>

definition owner_versions :: "u16 \<Rightarrow> (bytes \<times> bytes) list \<Rightarrow> u64 list" where
  "owner_versions db_index entries =
     List.map_filter (\<lambda>(owner_key, _). case strip_prefix (version_owner_prefix db_index) owner_key of
        Some suffix \<Rightarrow> if length suffix = 8 then Some (from_be64 suffix) else None
      | None \<Rightarrow> None) entries"

fun count_deadlines :: "(u16 \<Rightarrow> bytes \<Rightarrow> 'e + (bytes \<times> bytes) list) \<Rightarrow> u16 list \<Rightarrow> nat \<Rightarrow> 'e + nat" where
  "count_deadlines scan_prefix [] with_ttl = Inr with_ttl"
| "count_deadlines scan_prefix (db_idx # dbs) with_ttl =
     (case scan_prefix db_idx (ttl_db_prefix db_idx) of
        Inl e \<Rightarrow> Inl e
      | Inr entries \<Rightarrow> count_deadlines scan_prefix dbs
          (with_ttl + length (filter (\<lambda>(key, _). parse_ttl_index_key key \<noteq> None) entries)))"

fun rebuild_versions ::
  "(u16 \<Rightarrow> bytes \<Rightarrow> 'e + (bytes \<times> bytes) list) \<Rightarrow> u16 list \<Rightarrow> u64 \<Rightarrow> version_compaction_tracker \<Rightarrow>
   ('e option) \<times> u64 \<times> version_compaction_tracker"
where
  "rebuild_versions scan_prefix [] counter tr = (None, counter, tr)"
| "rebuild_versions scan_prefix (db_idx # dbs) counter tr =
     (case scan_prefix db_idx (version_owner_prefix db_idx) of
        Inl e \<Rightarrow> (Some e, counter, tr)
      | Inr entries \<Rightarrow>
          rebuild_versions scan_prefix dbs
            (foldl (\<lambda>c v. version_observe v c) counter (owner_versions db_idx entries))
            (foldl register_live tr (owner_versions db_idx entries)))"

definition rebuild_from_store ::
  "(u16 \<Rightarrow> bytes \<Rightarrow> 'e + (bytes \<times> bytes) list) \<Rightarrow> nat \<Rightarrow> u64 \<Rightarrow> version_compaction_tracker \<Rightarrow>
   ('e + nat) \<times> nat \<times> u64 \<times> version_compaction_tracker"
where
  "rebuild_from_store scan_prefix num_dbs counter tr =
     (let db_count = max num_dbs 1
      in case count_deadlines scan_prefix (map word_of_nat [0..<num_dbs]) 0 of
           Inl e \<Rightarrow> (Inl e, db_count, counter, tr)
         | Inr with_ttl \<Rightarrow>
             (case rebuild_versions scan_prefix (map word_of_nat [0..<max num_dbs 1]) counter tr of
                (Some e, counter', tr') \<Rightarrow> (Inl e, db_count, counter', tr')
              | (None, counter', tr') \<Rightarrow> (Inr with_ttl, db_count, counter', mark_ready tr')))"

section \<open>Expiring one key\<close>

record ttl_entry =
  te_expire_ms :: u64
  te_db_index :: u16
  te_key :: bytes
  te_key_encoding :: key_encoding_layout

datatype expire_result = Deleted | Stale | NotFound

definition entry_index_key :: "ttl_entry \<Rightarrow> bytes" where
  "entry_index_key entry = ttl_index_key (te_expire_ms entry) (te_db_index entry) (te_key entry)"

definition entry_meta_key :: "ttl_entry \<Rightarrow> bytes" where
  "entry_meta_key entry = main_key_bytes (te_key_encoding entry) (te_db_index entry) (te_key entry)"

text \<open>
  What the sweeper plans after reading the metadata: nothing, because the read or the hook failed, or
  a batch and the result if the compare-and-write of the batch succeeds. The hook, when one is set, may
  add operations to the batch and says whether to go on.
\<close>

definition plan_expire ::
  "(char \<Rightarrow> bool \<times> batch_op list) option \<Rightarrow> ttl_entry \<Rightarrow> 'e + bytes option \<Rightarrow>
   (batch_op list \<times> expire_result \<times> meta_header option) option"
where
  "plan_expire hook entry observed =
     (let index_delete = (Delete, entry_index_key entry, [])
      in case observed of
           Inl e \<Rightarrow> None
         | Inr None \<Rightarrow> Some ([index_delete], NotFound, None)
         | Inr (Some raw) \<Rightarrow>
             (case decode_meta_header raw of
                None \<Rightarrow> Some ([index_delete], Stale, None)
              | Some header \<Rightarrow>
                  if mh_expire_ms header \<noteq> te_expire_ms entry then Some ([index_delete], Stale, None)
                  else (let (go_on, hook_ops) =
                          (case hook of None \<Rightarrow> (True, []) | Some h \<Rightarrow> h (mh_type_tag header))
                        in if \<not> go_on then None
                           else Some (hook_ops @ [(Delete, entry_meta_key entry, []), index_delete],
                                      Deleted, Some header))))"

text \<open>
  The result, the batch that reached the store, and the call of the observer. \<open>compare_and_write\<close> is the
  engine's compare-and-write on the observation.
\<close>

definition expire_key ::
  "(char \<Rightarrow> bool \<times> batch_op list) option \<Rightarrow> ttl_entry \<Rightarrow> 'e + bytes option \<Rightarrow> (batch_op list \<Rightarrow> bool) \<Rightarrow>
   expire_result \<times> batch_op list \<times> (u16 \<times> bytes \<times> char \<times> u64) option"
where
  "expire_key hook entry observed compare_and_write =
     (case plan_expire hook entry observed of
        None \<Rightarrow> (Stale, [], None)
      | Some (batch, planned_result, expired_header) \<Rightarrow>
          if compare_and_write batch
          then (planned_result, batch,
                (if planned_result = Deleted
                 then map_option (\<lambda>header.
                   (te_db_index entry, te_key entry, mh_type_tag header, mh_version header)) expired_header
                 else None))
          else (Stale, [], None))"

section \<open>Sweeping\<close>

text \<open>The entries of one database that are due, at most \<open>remaining\<close> of them.\<close>

definition due_entries :: "key_encoding_layout \<Rightarrow> (bytes \<times> bytes) list \<Rightarrow> ttl_entry list" where
  "due_entries layout entries =
     List.map_filter (\<lambda>(ttl_key, _). map_option
       (\<lambda>(expire_ms, parsed_db, key).
          \<lparr>te_expire_ms = expire_ms, te_db_index = parsed_db, te_key = key, te_key_encoding = layout\<rparr>)
       (parse_ttl_index_key ttl_key)) entries"

text \<open>
  The loop over the databases in ring order. \<open>encoding\<close> and \<open>scan\<close> are the answers of the store of a
  database: its layout record and its limited range scan.
\<close>

fun scan_expired_loop ::
  "(u16 \<Rightarrow> 'e + key_encoding_layout) \<Rightarrow> (u16 \<Rightarrow> bytes \<Rightarrow> bytes option \<Rightarrow> nat \<Rightarrow> 'e + (bytes \<times> bytes) list) \<Rightarrow>
   u64 \<Rightarrow> nat \<Rightarrow> nat list \<Rightarrow> nat \<Rightarrow> ttl_entry list \<Rightarrow> 'e + (ttl_entry list \<times> nat)"
where
  "scan_expired_loop encoding scan now batch_size [] last_db expired = Inr (expired, last_db)"
| "scan_expired_loop encoding scan now batch_size (db_u32 # ring) last_db expired =
     (if length expired \<ge> batch_size then Inr (expired, last_db)
      else (let db_idx = word_of_nat db_u32; remaining = batch_size - length expired
            in case encoding db_idx of
                 Inl e \<Rightarrow> Inl e
               | Inr layout \<Rightarrow>
                   (case scan db_idx (ttl_db_prefix db_idx) (Some (ttl_db_expire_upper_bound db_idx now)) remaining of
                      Inl e \<Rightarrow> Inl e
                    | Inr entries \<Rightarrow>
                        scan_expired_loop encoding scan now batch_size ring db_u32
                          (expired @ take remaining (due_entries layout entries)))))"

definition db_ring :: "nat \<Rightarrow> nat \<Rightarrow> nat list" where
  "db_ring start_db db_count = map (\<lambda>offset. (start_db + offset) mod db_count) [0..<db_count]"

definition scan_expired_batch ::
  "(u16 \<Rightarrow> 'e + key_encoding_layout) \<Rightarrow> (u16 \<Rightarrow> bytes \<Rightarrow> bytes option \<Rightarrow> nat \<Rightarrow> 'e + (bytes \<times> bytes) list) \<Rightarrow>
   nat \<Rightarrow> nat \<Rightarrow> u64 \<Rightarrow> nat \<Rightarrow> ('e + ttl_entry list) \<times> nat"
where
  "scan_expired_batch encoding scan db_count0 next_db now batch_size =
     (let db_count = max db_count0 1; start_db = next_db mod db_count
      in case scan_expired_loop encoding scan now batch_size (db_ring start_db db_count) start_db [] of
           Inl e \<Rightarrow> (Inl e, next_db)
         | Inr (expired, last_db) \<Rightarrow> (Inr expired, (last_db + 1) mod db_count))"

record ttl_stats =
  keys_expired :: nat
  stale_entries_skipped :: nat
  sweep_cycles :: nat

definition count_result :: "ttl_stats \<Rightarrow> expire_result \<Rightarrow> ttl_stats" where
  "count_result st r =
     (if r = Deleted then st\<lparr>keys_expired := keys_expired st + 1\<rparr>
      else st\<lparr>stale_entries_skipped := stale_entries_skipped st + 1\<rparr>)"

fun expire_all :: "(ttl_entry \<Rightarrow> 'w \<Rightarrow> expire_result \<times> 'w) \<Rightarrow> ttl_entry list \<Rightarrow> 'w \<Rightarrow> expire_result list \<times> 'w" where
  "expire_all expire [] w = ([], w)"
| "expire_all expire (entry # entries) w =
     (case expire entry w of (r, w') \<Rightarrow>
        case expire_all expire entries w' of (rs, w'') \<Rightarrow> (r # rs, w''))"

text \<open>The flag says that the batch was full, so that the sweeper loop goes on at once.\<close>

definition sweep_once ::
  "(ttl_entry \<Rightarrow> 'w \<Rightarrow> expire_result \<times> 'w) \<Rightarrow> 'e + ttl_entry list \<Rightarrow> nat \<Rightarrow> ttl_stats \<Rightarrow> 'w \<Rightarrow>
   bool \<times> ttl_stats \<times> 'w"
where
  "sweep_once expire scanned batch_size st w =
     (case scanned of
        Inl e \<Rightarrow> (False, st, w)
      | Inr expired \<Rightarrow>
          if expired = [] then (False, st, w)
          else (case expire_all expire (take batch_size expired) w of (results, w') \<Rightarrow>
              (length expired = batch_size,
               foldl count_result (st\<lparr>sweep_cycles := sweep_cycles st + 1\<rparr>) results, w')))"

end
