(* ===== verification/Ttl_Properties.thy ===== *)
theory Ttl_Properties
  imports Ttl_Index Version_Properties
begin

text \<open>
  Properties of expiration: the index scan finds exactly the deadlines that have passed, the sweeper
  deletes a value only if it still has the deadline of the index entry, a sweep is bounded and misses nothing when it is
  not full, and a restart makes the stored versions live before compaction may drop anything.
\<close>

section \<open>The index\<close>

lemma parse_ttl_index_key_written:
  "utf8_valid k \<Longrightarrow> parse_ttl_index_key (ttl_index_key e db k) = Some (e, db, k)"
  by (simp add: parse_ttl_index_key_def ttl_index_key_def slice_of_def Let_def)

lemma parse_ttl_index_key_Some:
  assumes "parse_ttl_index_key x = Some (e, db, k)"
  shows "x = ttl_index_key e db k" "utf8_valid k"
proof -
  obtain s where st: "strip_prefix TTL_INDEX_PREFIX x = Some s"
    using assms by (auto simp: parse_ttl_index_key_def split: option.splits)
  then have x: "x = TTL_INDEX_PREFIX @ s" using strip_prefix_iff by metis
  have s: "10 \<le> length s" "utf8_valid (drop 10 s)" "e = from_be64 (slice_of s 2 10)"
      "db = from_be16 (slice_of s 0 2)" "k = drop 10 s"
    using assms st by (simp_all add: parse_ttl_index_key_def Let_def split: if_splits)
  have "be16 db @ be64 e @ k = take 2 s @ take 8 (drop 2 s) @ drop 8 (drop 2 s)"
    using s be16_from_be16 [of "slice_of s 0 2"] be64_from_be64 [of "slice_of s 2 10"]
    by (simp add: slice_of_def)
  also have "\<dots> = s" unfolding append_take_drop_id ..
  finally show "x = ttl_index_key e db k" "utf8_valid k" using s x by (simp_all add: ttl_index_key_def)
qed

lemma ttl_scan_range:
  assumes "unat now < usize_max"
  shows "ttl_db_prefix db \<le> ttl_index_key e db' k \<and> ttl_index_key e db' k < ttl_db_expire_upper_bound db now \<longleftrightarrow>
    db' = db \<and> e \<le> now"
proof -
  have s: "saturating_add64 now 1 = now + 1" "unat (now + 1) = unat now + 1"
    using assms by (simp_all add: saturating_add64_def unat_word_ariths)
  have "ttl_db_prefix db \<le> ttl_index_key e db' k \<longleftrightarrow> db \<le> db'"
  proof -
    have "ttl_db_prefix db \<le> ttl_index_key e db' k \<longleftrightarrow> \<not> be16 db' @ (be64 e @ k) < be16 db @ []"
      by (simp add: ttl_db_prefix_def ttl_index_key_def not_less)
    also have "\<dots> \<longleftrightarrow> \<not> db' < db" by (subst list_less_append_iff) (simp_all add: be16_less_iff)
    finally show ?thesis by auto
  qed
  moreover have "ttl_index_key e db' k < ttl_db_expire_upper_bound db now \<longleftrightarrow> db' < db \<or> (db' = db \<and> e \<le> now)"
  proof -
    have "be64 e @ k < be64 (now + 1) @ [] \<longleftrightarrow> e < now + 1"
      by (subst list_less_append_iff) (simp_all add: be64_less_iff)
    moreover have "e < now + 1 \<longleftrightarrow> e \<le> now" using s(2) by (simp add: word_less_nat_alt word_le_nat_alt less_Suc_eq_le)
    ultimately show ?thesis
      by (simp add: ttl_index_key_def ttl_db_expire_upper_bound_def ttl_db_prefix_def s(1) list_less_append_iff
          be16_less_iff)
  qed
  ultimately show ?thesis by auto
qed

text \<open>The deadline index is exact: an index key is parsed back into its deadline, database and key, and
  it lies in the range that the sweeper scans for a database if and only if it belongs to that
  database and its deadline is not after the sweeper's clock; no user key is an index key.\<close>

theorem deadline_index_exact:
  assumes "utf8_valid k" "unat now < usize_max"
  shows "parse_ttl_index_key (ttl_index_key e db' k) = Some (e, db', k) \<and>
    (ttl_db_prefix db \<le> ttl_index_key e db' k \<and> ttl_index_key e db' k < ttl_db_expire_upper_bound db now \<longleftrightarrow>
      db' = db \<and> e \<le> now) \<and>
    (utf8_valid k' \<longrightarrow> main_key_bytes CURRENT db k' \<noteq> ttl_index_key e db' k)"
proof -
  have "k' \<noteq> ttl_index_key e db' k" if "utf8_valid k'" for k'
    using utf8_valid_no_FF [OF that] by (auto simp: ttl_index_key_def TTL_INDEX_PREFIX_def)
  then show ?thesis
    using parse_ttl_index_key_written [OF assms(1)] ttl_scan_range [OF assms(2)] by (simp add: CURRENT_def)
qed

theorem deadline_index_exact_witness:
  "parse_ttl_index_key (ttl_index_key 1700000000000 3 ''k'') = Some (1700000000000, 3, ''k'') \<and>
   ttl_index_key 1700000000000 3 ''k'' < ttl_db_expire_upper_bound 3 1700000000000"
proof -
  have "utf8_valid ''k''" "unat (1700000000000 :: u64) < usize_max"
    by (simp_all add: utf8_valid_ascii_Cons)
  from deadline_index_exact [OF this, of 1700000000000 3 3] show ?thesis by blast
qed

section \<open>Expiring one key\<close>

lemma plan_expire_cases:
  assumes "plan_expire hook entry observed = Some (batch, r, hdr)"
  shows "(r = Deleted \<and> (\<exists>raw h hook_ops. observed = Inr (Some raw) \<and> decode_meta_header raw = Some h \<and>
        mh_expire_ms h = te_expire_ms entry \<and> hdr = Some h \<and>
        batch = hook_ops @ [(Delete, entry_meta_key entry, []), (Delete, entry_index_key entry, [])])) \<or>
    (r \<noteq> Deleted \<and> hdr = None \<and> batch = [(Delete, entry_index_key entry, [])] \<and>
      (\<forall>raw h. observed = Inr (Some raw) \<and> decode_meta_header raw = Some h \<longrightarrow>
        mh_expire_ms h \<noteq> te_expire_ms entry))"
  using assms unfolding plan_expire_def Let_def
  by (simp split: sum.splits option.splits if_splits prod.splits) (auto split: prod.splits if_splits)

text \<open>C19: The sweeper never deletes a value with another deadline. It deletes the main key exactly when the value
  that it read, and on which the compare-and-write depends, still has the deadline of the index entry;
  then the index entry goes with it, in one batch, and the observer is told. In every other case, a changed or
  removed deadline, a missing value, a failed read, a refusing hook or a lost compare-and-write, the
  batch leaves every user key as it is, and nothing at all is written if the read, the hook or the
  compare-and-write failed.\<close>

theorem sweeper_deletes_only_expired:
  assumes "expire_key hook entry observed cas = (r, batch, told)" "te_key_encoding entry = CURRENT"
    and "utf8_valid (te_key entry)" "utf8_valid k"
  shows "(r = Deleted \<longrightarrow> (\<exists>raw h. observed = Inr (Some raw) \<and> decode_meta_header raw = Some h \<and>
        mh_expire_ms h = te_expire_ms entry \<and> cas batch \<and>
        deleted_by batch (entry_meta_key entry) \<and> deleted_by batch (entry_index_key entry) \<and>
        told = Some (te_db_index entry, te_key entry, mh_type_tag h, mh_version h))) \<and>
    (r \<noteq> Deleted \<longrightarrow> \<not> deleted_by batch (main_key_bytes CURRENT db k) \<and> told = None \<and>
        (batch = [] \<or> batch = [(Delete, entry_index_key entry, [])] \<and> cas batch))"
proof -
  have ne: "main_key_bytes CURRENT db k \<noteq> entry_index_key entry"
    using utf8_valid_no_FF [OF assms(4)]
    by (auto simp: entry_index_key_def ttl_index_key_def TTL_INDEX_PREFIX_def CURRENT_def)
  show ?thesis
  proof (cases "plan_expire hook entry observed")
    case None
    then show ?thesis using assms(1) by (simp add: expire_key_def)
  next
    case (Some plan)
    obtain b r0 hdr where p: "plan_expire hook entry observed = Some (b, r0, hdr)" using Some by (cases plan) auto
    show ?thesis
      using plan_expire_cases [OF p] assms(1) p ne
      by (auto simp: expire_key_def deleted_by_def split: if_splits)
  qed
qed

definition sample_entry :: ttl_entry where
  "sample_entry = \<lparr>te_expire_ms = 5, te_db_index = 0, te_key = ''k'', te_key_encoding = CURRENT\<rparr>"

theorem sweeper_deletes_only_expired_witness:
  "\<exists>batch told. expire_key None sample_entry (Inr (Some (encode_raw_string ''v'' 9)) :: string + bytes option) (\<lambda>_. True) =
       (Stale, batch, told) \<and> \<not> deleted_by batch (main_key_bytes CURRENT 0 ''k'')"
proof -
  have "plausible_expiry 9" by (simp add: plausible_expiry_def)
  then have h: "decode_meta_header (encode_raw_string ''v'' 9) =
      Some \<lparr>mh_expire_ms = 9, mh_version = 0, mh_type_tag = TYPE_STRING\<rparr>"
    using regular_header [of 9 0 TYPE_STRING "''v''"] by (simp add: encode_raw_string_def)
  obtain r batch told where e: "expire_key None sample_entry (Inr (Some (encode_raw_string ''v'' 9)) :: string + bytes option)
      (\<lambda>_. True) = (r, batch, told)" by (metis prod_cases3)
  have "r = Stale" using e h by (simp add: expire_key_def plan_expire_def sample_entry_def)
  moreover have "\<not> deleted_by batch (main_key_bytes CURRENT 0 ''k'')"
    using sweeper_deletes_only_expired [OF e, of "''k''" 0] \<open>r = Stale\<close>
    by (simp add: sample_entry_def utf8_valid_ascii_Cons)
  ultimately show ?thesis using e by blast
qed

section \<open>A sweep\<close>

text \<open>What the engine documents of a limited range scan over a table with the keys \<open>T db\<close>.\<close>

definition scan_contract ::
  "(u16 \<Rightarrow> bytes set) \<Rightarrow> (u16 \<Rightarrow> bytes \<Rightarrow> bytes option \<Rightarrow> nat \<Rightarrow> 'e + (bytes \<times> bytes) list) \<Rightarrow> bool"
where
  "scan_contract T scan \<longleftrightarrow> (\<forall>db lo hi n entries. scan db lo (Some hi) n = Inr entries \<longrightarrow>
     length entries \<le> n \<and> (\<forall>x \<in> fst ` set entries. x \<in> T db \<and> lo \<le> x \<and> x < hi) \<and>
     (length entries < n \<longrightarrow> (\<forall>x \<in> T db. lo \<le> x \<and> x < hi \<longrightarrow> x \<in> fst ` set entries)))"

text \<open>The table of a database holds, in the index range, only index keys of that server.\<close>

definition index_well_formed :: "(u16 \<Rightarrow> bytes set) \<Rightarrow> bool" where
  "index_well_formed T \<longleftrightarrow>
     (\<forall>db. \<forall>x \<in> T db. starts_with x (ttl_db_prefix db) \<longrightarrow> parse_ttl_index_key x \<noteq> None)"

definition due_in :: "(u16 \<Rightarrow> bytes set) \<Rightarrow> u64 \<Rightarrow> ttl_entry \<Rightarrow> bool" where
  "due_in T now entry \<longleftrightarrow> te_expire_ms entry \<le> now \<and> entry_index_key entry \<in> T (te_db_index entry)"

lemma range_has_db_prefix:
  assumes "ttl_db_prefix db \<le> x" "x < ttl_db_expire_upper_bound db now"
  shows "starts_with x (ttl_db_prefix db)"
  using list_between_prefix assms unfolding ttl_db_expire_upper_bound_def starts_with_iff by blast

lemma due_entries_members:
  "en \<in> set (due_entries layout entries) \<longleftrightarrow>
   (\<exists>x \<in> fst ` set entries. parse_ttl_index_key x = Some (te_expire_ms en, te_db_index en, te_key en)) \<and>
   te_key_encoding en = layout"
  by (cases en) (force simp: due_entries_def List.map_filter_def)

lemma due_entries_length:
  "length (due_entries layout entries) \<le> length entries"
  "\<forall>x \<in> fst ` set entries. parse_ttl_index_key x \<noteq> None \<Longrightarrow> length (due_entries layout entries) = length entries"
  by (induction entries) (auto simp: due_entries_def List.map_filter_simps split: option.split)

text \<open>One database: what a scan returns is due, and if the batch is not full then it is everything.\<close>

lemma scan_one_db:
  assumes "scan_contract T scan" "index_well_formed T" "unat now < usize_max"
    and "scan db (ttl_db_prefix db) (Some (ttl_db_expire_upper_bound db now)) n = Inr entries"
  shows "length (due_entries layout entries) \<le> n"
    and "\<forall>en \<in> set (due_entries layout entries). due_in T now en \<and> te_db_index en = db"
    and "length (due_entries layout entries) < n \<Longrightarrow> ttl_index_key e db k \<in> T db \<Longrightarrow> e \<le> now \<Longrightarrow> utf8_valid k \<Longrightarrow>
      \<exists>en \<in> set (due_entries layout entries). te_expire_ms en = e \<and> te_db_index en = db \<and> te_key en = k"
proof -
  have c: "length entries \<le> n"
    "\<forall>x \<in> fst ` set entries. x \<in> T db \<and> ttl_db_prefix db \<le> x \<and> x < ttl_db_expire_upper_bound db now"
    "length entries < n \<Longrightarrow> \<forall>x \<in> T db. ttl_db_prefix db \<le> x \<and> x < ttl_db_expire_upper_bound db now \<longrightarrow> x \<in> fst ` set entries"
    using assms(1,4) unfolding scan_contract_def by blast+
  have "\<forall>x \<in> fst ` set entries. parse_ttl_index_key x \<noteq> None"
    using c(2) range_has_db_prefix assms(2) unfolding index_well_formed_def by blast
  then have len: "length (due_entries layout entries) = length entries" by (rule due_entries_length(2))
  then show "length (due_entries layout entries) \<le> n" using c(1) by simp
  show "\<forall>en \<in> set (due_entries layout entries). due_in T now en \<and> te_db_index en = db"
  proof
    fix en assume "en \<in> set (due_entries layout entries)"
    then obtain x where x: "x \<in> fst ` set entries"
      "parse_ttl_index_key x = Some (te_expire_ms en, te_db_index en, te_key en)"
      unfolding due_entries_members by blast
    have "x = entry_index_key en" using parse_ttl_index_key_Some(1) [OF x(2)] by (simp add: entry_index_key_def)
    then show "due_in T now en \<and> te_db_index en = db"
      using c(2) x(1) ttl_scan_range [OF assms(3), of db "te_expire_ms en" "te_db_index en" "te_key en"]
      by (auto simp: due_in_def entry_index_key_def)
  qed
  show "\<exists>en \<in> set (due_entries layout entries). te_expire_ms en = e \<and> te_db_index en = db \<and> te_key en = k"
    if "length (due_entries layout entries) < n" "ttl_index_key e db k \<in> T db" "e \<le> now" "utf8_valid k"
  proof -
    have "ttl_index_key e db k \<in> fst ` set entries"
      using c(3) that len ttl_scan_range [OF assms(3), of db e db k] by auto
    moreover have "parse_ttl_index_key (ttl_index_key e db k) = Some (e, db, k)"
      using that(4) by (rule parse_ttl_index_key_written)
    ultimately have "\<lparr>te_expire_ms = e, te_db_index = db, te_key = k, te_key_encoding = layout\<rparr> \<in> set (due_entries layout entries)"
      unfolding due_entries_members by (auto intro: rev_bexI)
    then show ?thesis by force
  qed
qed

lemma scan_expired_loop_prefix:
  "scan_expired_loop encoding scan now batch_size ring l0 expired = Inr (ex, l) \<Longrightarrow> length expired \<le> length ex"
  by (induction ring arbitrary: l0 expired) (fastforce simp: Let_def split: if_splits sum.splits)+

lemma scan_expired_loop_correct:
  assumes "scan_contract T scan" "index_well_formed T" "unat now < usize_max"
    and "scan_expired_loop encoding scan now batch_size ring l0 expired = Inr (ex, l)"
    and "length expired \<le> batch_size"
  shows "length ex \<le> batch_size" "set expired \<subseteq> set ex" "l \<in> insert l0 (set ring)"
    and "\<forall>en \<in> set ex - set expired. due_in T now en"
    and "length ex < batch_size \<Longrightarrow> d \<in> set ring \<Longrightarrow> ttl_index_key e (word_of_nat d) k \<in> T (word_of_nat d) \<Longrightarrow>
      e \<le> now \<Longrightarrow> utf8_valid k \<Longrightarrow>
      \<exists>en \<in> set ex. te_expire_ms en = e \<and> te_db_index en = word_of_nat d \<and> te_key en = k"
proof -
  have "length ex \<le> batch_size \<and> set expired \<subseteq> set ex \<and> l \<in> insert l0 (set ring) \<and>
      (\<forall>en \<in> set ex - set expired. due_in T now en) \<and>
      (length ex < batch_size \<and> d \<in> set ring \<and> ttl_index_key e (word_of_nat d) k \<in> T (word_of_nat d) \<and>
        e \<le> now \<and> utf8_valid k \<longrightarrow>
        (\<exists>en \<in> set ex. te_expire_ms en = e \<and> te_db_index en = word_of_nat d \<and> te_key en = k))"
    using assms(4,5)
  proof (induction ring arbitrary: l0 expired)
    case (Cons d0 ring)
    let ?db = "word_of_nat d0 :: u16" and ?n = "batch_size - length expired"
    show ?case
    proof (cases "length expired \<ge> batch_size")
      case True
      then show ?thesis using Cons.prems by auto
    next
      case False
      then obtain layout entries where enc: "encoding ?db = Inr layout"
        and sc: "scan ?db (ttl_db_prefix ?db) (Some (ttl_db_expire_upper_bound ?db now)) ?n = Inr entries"
        and run: "scan_expired_loop encoding scan now batch_size ring d0
          (expired @ take ?n (due_entries layout entries)) = Inr (ex, l)"
        using Cons.prems(1) by (auto simp: Let_def split: sum.splits)
      note one = scan_one_db [OF assms(1-3) sc, of layout]
      have take: "take ?n (due_entries layout entries) = due_entries layout entries" using one(1) by simp
      have len: "length (expired @ due_entries layout entries) \<le> batch_size" using one(1) False by auto
      note ih = Cons.IH [OF run [unfolded take] len]
      have "\<exists>en \<in> set ex. te_expire_ms en = e \<and> te_db_index en = word_of_nat d \<and> te_key en = k"
        if "length ex < batch_size" "d \<in> set (d0 # ring)" "ttl_index_key e (word_of_nat d) k \<in> T (word_of_nat d)"
          "e \<le> now" "utf8_valid k"
      proof (cases "d \<in> set ring")
        case True
        then show ?thesis using ih that by blast
      next
        case d: False
        have "length (expired @ due_entries layout entries) \<le> length ex"
          using scan_expired_loop_prefix [OF run] take by simp
        then have "length (due_entries layout entries) < ?n" using that(1) by simp
        then show ?thesis using one(3) [of e k] that d ih by auto
      qed
      moreover have "\<forall>en \<in> set ex - set expired. due_in T now en" using ih one(2) by auto
      ultimately show ?thesis using ih by auto
    qed
  qed auto
  then show "length ex \<le> batch_size" "set expired \<subseteq> set ex" "l \<in> insert l0 (set ring)"
    "\<forall>en \<in> set ex - set expired. due_in T now en"
    "length ex < batch_size \<Longrightarrow> d \<in> set ring \<Longrightarrow> ttl_index_key e (word_of_nat d) k \<in> T (word_of_nat d) \<Longrightarrow>
      e \<le> now \<Longrightarrow> utf8_valid k \<Longrightarrow>
      \<exists>en \<in> set ex. te_expire_ms en = e \<and> te_db_index en = word_of_nat d \<and> te_key en = k"
    by blast+
qed

lemma db_ring_set:
  assumes "s < n"
  shows "set (db_ring s n) = {..<n}"
proof
  show "set (db_ring s n) \<subseteq> {..<n}" using assms by (auto simp: db_ring_def)
  show "{..<n} \<subseteq> set (db_ring s n)"
  proof
    fix d assume d: "d \<in> {..<n}"
    let ?o = "if s \<le> d then d - s else d + n - s"
    have "?o < n" "(s + ?o) mod n = d" using d assms by auto
    then show "d \<in> set (db_ring s n)"
      unfolding db_ring_def unfolding set_map by (intro rev_image_eqI [of ?o]) simp_all
  qed
qed


definition sample_index :: "u16 \<Rightarrow> bytes set" where
  "sample_index db = (if db = 0 then {ttl_index_key 5 0 ''k''} else {})"

definition sample_index_scan :: "u16 \<Rightarrow> bytes \<Rightarrow> bytes option \<Rightarrow> nat \<Rightarrow> string + (bytes \<times> bytes) list" where
  "sample_index_scan db lo hi n =
     (let x = ttl_index_key 5 0 ''k''
      in Inr (take n (if db = 0 \<and> lo \<le> x \<and> (case hi of None \<Rightarrow> True | Some h \<Rightarrow> x < h)
                      then [(x, TTL_INDEX_VALUE)] else [])))"


section \<open>Restart\<close>

lemma observe_all:
  "\<forall>v \<in> set vs. v \<le> foldl (\<lambda>c v. version_observe v c) c vs" "c \<le> foldl (\<lambda>c v. version_observe v c) c vs"
proof (induction vs arbitrary: c)
  case (Cons v vs)
  {
    case 1
    show ?case using Cons.IH [of "version_observe v c"] version_observe_ge(2) [of v c] by force
  next
    case 2
    show ?case using Cons.IH(2) [of "version_observe v c"] version_observe_ge(1) [of c v] by force
  }
qed simp_all

lemma register_all:
  "live_versions (foldl register_live tr vs) = live_versions tr \<union> (set vs - {0})"
  by (induction vs arbitrary: tr) (auto simp: register_live_def)

lemma rebuild_versions_correct:
  assumes "rebuild_versions scan_prefix dbs c tr = (None, c', tr')"
  shows "c \<le> c'" "live_versions tr \<subseteq> live_versions tr'"
    and "d \<in> set dbs \<Longrightarrow> \<exists>entries. scan_prefix d (version_owner_prefix d) = Inr entries \<and>
      (\<forall>v \<in> set (owner_versions d entries). v \<le> c' \<and> (v = 0 \<or> v \<in> live_versions tr'))"
proof -
  have "c \<le> c' \<and> live_versions tr \<subseteq> live_versions tr' \<and>
      (d \<in> set dbs \<longrightarrow> (\<exists>entries. scan_prefix d (version_owner_prefix d) = Inr entries \<and>
        (\<forall>v \<in> set (owner_versions d entries). v \<le> c' \<and> (v = 0 \<or> v \<in> live_versions tr'))))"
    using assms
  proof (induction dbs arbitrary: c tr)
    case (Cons d0 dbs)
    obtain entries where sc: "scan_prefix d0 (version_owner_prefix d0) = Inr entries"
      and run: "rebuild_versions scan_prefix dbs (foldl (\<lambda>c v. version_observe v c) c (owner_versions d0 entries))
        (foldl register_live tr (owner_versions d0 entries)) = (None, c', tr')"
      using Cons.prems by (auto split: sum.splits)
    note ih = Cons.IH [OF run]
    have "c \<le> c'" using ih observe_all(2) [of c "owner_versions d0 entries"] by auto
    moreover have "live_versions tr \<subseteq> live_versions tr'" using ih register_all by fastforce
    moreover have "\<forall>v \<in> set (owner_versions d0 entries). v \<le> c' \<and> (v = 0 \<or> v \<in> live_versions tr')"
      using ih observe_all(1) [of "owner_versions d0 entries" c] register_all [of tr "owner_versions d0 entries"] by force
    ultimately show ?case using ih sc by auto
  qed simp
  then show "c \<le> c'" "live_versions tr \<subseteq> live_versions tr'"
    "d \<in> set dbs \<Longrightarrow> \<exists>entries. scan_prefix d (version_owner_prefix d) = Inr entries \<and>
      (\<forall>v \<in> set (owner_versions d entries). v \<le> c' \<and> (v = 0 \<or> v \<in> live_versions tr'))"
    by blast+
qed

text \<open>C34: Restarting loses no object: when the rebuild succeeds, compaction is enabled and every version that has
  an owner record in one of the databases is live and not above the version counter, so its data is kept and
  new versions are above it; when a scan fails, compaction stays disabled and removes nothing.\<close>

theorem rebuild_makes_versions_live:
  assumes "rebuild_from_store scan_prefix num_dbs c tr = (r, db_count, c', tr')" "\<not> ready tr"
  shows "db_count = max num_dbs 1 \<and> (case r of
      Inl e \<Rightarrow> compaction_filter tr' key = Keep
    | Inr n \<Rightarrow> ready tr' \<and> (d < max num_dbs 1 \<longrightarrow>
        (\<exists>entries. scan_prefix (word_of_nat d) (version_owner_prefix (word_of_nat d)) = Inr entries \<and>
          (\<forall>raw v. (version_owner_key (word_of_nat d) v, raw) \<in> set entries \<and> v \<noteq> 0 \<longrightarrow>
            v \<in> live_versions tr' \<and> v \<le> c'))))"
proof -
  let ?dbs = "map word_of_nat [0..<max num_dbs 1] :: u16 list"
  have not_ready: "\<not> ready tr2" if "rebuild_versions scan_prefix dbs c1 tr1 = (x, c2, tr2)" "\<not> ready tr1" for dbs c1 tr1 x c2 tr2
    using that
  proof (induction dbs arbitrary: c1 tr1)
    case (Cons d0 dbs)
    have "ready (foldl register_live tr vs) = ready tr" for tr vs
      by (induction vs arbitrary: tr) (auto simp: register_live_def)
    then show ?case using Cons by (auto split: sum.splits)
  qed simp
  have count: "db_count = max num_dbs 1"
    using assms(1) by (auto simp: rebuild_from_store_def Let_def split: sum.splits prod.splits option.splits)
  show ?thesis
  proof (cases r)
    case (Inl e)
    then have "\<not> ready tr'" using assms not_ready
      by (auto simp: rebuild_from_store_def Let_def split: sum.splits prod.splits option.splits)
    then show ?thesis using Inl count by (simp add: compaction_filter_def should_remove_def)
  next
    case (Inr n)
    then obtain tr1 where run: "rebuild_versions scan_prefix ?dbs c tr = (None, c', tr1)" and tr': "tr' = mark_ready tr1"
      using assms by (auto simp: rebuild_from_store_def Let_def split: sum.splits prod.splits option.splits)
    have "v \<in> set (owner_versions db entries)" if "(version_owner_key db v, raw) \<in> set entries" for db v raw entries
      using that unfolding owner_versions_def List.map_filter_def set_map
      by (intro rev_image_eqI [of "(version_owner_key db v, raw)"]) (auto simp: version_owner_key_def)
    then show ?thesis
      using Inr count rebuild_versions_correct(3) [OF run, of "word_of_nat d"]
      by (fastforce simp: tr' mark_ready_def)
  qed
qed

definition sample_prefix_scan :: "u16 \<Rightarrow> bytes \<Rightarrow> string + (bytes \<times> bytes) list" where
  "sample_prefix_scan db p = Inr (if p = version_owner_prefix 0 then [(version_owner_key 0 7, [])] else [])"

theorem rebuild_makes_versions_live_witness:
  "7 \<in> live_versions (snd (snd (snd (rebuild_from_store sample_prefix_scan 1 0 (empty_compaction_tracker\<lparr>ready := False\<rparr>)))))"
proof -
  obtain r n c' tr' where run: "rebuild_from_store sample_prefix_scan 1 0 (empty_compaction_tracker\<lparr>ready := False\<rparr>) = (r, n, c', tr')"
    by (metis prod_cases4)
  then have "\<exists>n. r = Inr n"
    by (auto simp: rebuild_from_store_def Let_def sample_prefix_scan_def split: sum.splits prod.splits option.splits if_splits)
  moreover have "(version_owner_key 0 7, []) \<in> set [(version_owner_key 0 7, [])]" by simp
  ultimately have "7 \<in> live_versions tr'"
    using rebuild_makes_versions_live [OF run, of "[]" 0] by (auto simp: sample_prefix_scan_def)
  with run show ?thesis by simp
qed

end
