(* ===== verification/Session_Glob.thy ===== *)
theory Session_Glob
  imports Onedis_Prelude
begin

text \<open>
  Glob patterns of channels and of access rules (\<^verbatim>\<open>src/network/session_glob.rs\<close>): the parser of a
  pattern and the matching loop with its single backtracking point. The indices of the source are kept;
  both loops are functions of them with their termination proofs.
\<close>

datatype glob_token = Star | AnyByte | Never | Literal char | Class bool "(char \<times> char) list"

fun token_matches :: "glob_token \<Rightarrow> char \<Rightarrow> bool" where
  "token_matches AnyByte byte = True"
| "token_matches Never byte = False"
| "token_matches (Literal expected) byte = (expected = byte)"
| "token_matches (Class negated ranges) byte =
     (list_ex (\<lambda>(start, end). start \<le> byte \<and> byte \<le> end) ranges \<noteq> negated)"
| "token_matches Star byte = False"

section \<open>Matching\<close>

function skip_stars :: "glob_token list \<Rightarrow> nat \<Rightarrow> nat" where
  "skip_stars tokens pattern_idx =
     (if get_at tokens pattern_idx = Some Star then skip_stars tokens (pattern_idx + 1) else pattern_idx)"
  by auto
termination
  by (relation "measure (\<lambda>(tokens, p). length tokens - p)") (auto simp: get_at_def split: if_splits)

declare skip_stars.simps [simp del]

text \<open>The loop, from its four variables; \<open>star_idx\<close> and \<open>star_text_idx\<close> are the point to go back to.\<close>

function match_loop ::
  "glob_token list \<Rightarrow> bytes \<Rightarrow> nat \<Rightarrow> nat \<Rightarrow> nat option \<Rightarrow> nat \<Rightarrow> bool"
where
  "match_loop tokens txt pattern_idx text_idx star_idx star_text_idx =
     (if text_idx < length txt
      then (if get_at tokens pattern_idx = Some Star
            then match_loop tokens txt (pattern_idx + 1) text_idx (Some pattern_idx) text_idx
            else if (case get_at tokens pattern_idx of
                Some token \<Rightarrow> token_matches token (txt ! text_idx) | None \<Rightarrow> False)
            then match_loop tokens txt (pattern_idx + 1) (text_idx + 1) star_idx star_text_idx
            else (case star_idx of
                Some star \<Rightarrow>
                  match_loop tokens txt (star + 1) (star_text_idx + 1) star_idx (star_text_idx + 1)
              | None \<Rightarrow> False))
      else skip_stars tokens pattern_idx = length tokens)"
  by pat_completeness auto

text \<open>
  Every star found is to the right of the one before, and between two stars the point to go back to moves
  right. The first two components of the measure are zero from the first step on.
\<close>

termination
  by (relation "measures [
      \<lambda>(tokens, txt, p, t, s, st). (case s of Some star \<Rightarrow> if p \<le> star then 1 else 0 | None \<Rightarrow> 0),
      \<lambda>(tokens, txt, p, t, s, st). (if t < st then 1 else 0),
      \<lambda>(tokens, txt, p, t, s, st). length tokens - (case s of Some star \<Rightarrow> star + 1 | None \<Rightarrow> 0),
      \<lambda>(tokens, txt, p, t, s, st). length txt - st,
      \<lambda>(tokens, txt, p, t, s, st). length txt - t]")
    (auto simp: get_at_def split: if_splits option.splits)

declare match_loop.simps [simp del]

definition glob_match_tokens :: "glob_token list \<Rightarrow> bytes \<Rightarrow> bool" where
  "glob_match_tokens tokens txt = match_loop tokens txt 0 0 None 0"

section \<open>Parsing\<close>

definition parse_class_byte :: "bytes \<Rightarrow> nat \<Rightarrow> (char \<times> nat) option" where
  "parse_class_byte pattern index =
     (case get_at pattern index of
        None \<Rightarrow> None
      | Some byte \<Rightarrow>
          if byte = CHR 0x5C then map_option (\<lambda>escaped. (escaped, index + 2)) (get_at pattern (index + 1))
          else Some (byte, index + 1))"

lemma parse_class_byte_advances: "parse_class_byte pattern index = Some (b, next) \<Longrightarrow> index < next"
  by (auto simp: parse_class_byte_def split: option.splits if_splits)

function parse_class_from :: "bytes \<Rightarrow> nat \<Rightarrow> bool \<Rightarrow> (char \<times> char) list \<Rightarrow> (glob_token \<times> nat) option" where
  "parse_class_from pattern index negated ranges =
     (if index < length pattern
      then (if pattern ! index = CHR '']'' then Some (Class negated ranges, index + 1)
            else (case parse_class_byte pattern index of
                None \<Rightarrow> None
              | Some (range_start, after_start) \<Rightarrow>
                  if get_at pattern after_start = Some (CHR ''-'') \<and> after_start + 1 < length pattern \<and>
                     pattern ! (after_start + 1) \<noteq> CHR '']''
                  then (case parse_class_byte pattern (after_start + 1) of
                      None \<Rightarrow> None
                    | Some (range_end, after_end) \<Rightarrow>
                        parse_class_from pattern after_end negated
                          (ranges @ [(min range_start range_end, max range_start range_end)]))
                  else parse_class_from pattern after_start negated (ranges @ [(range_start, range_start)])))
      else None)"
  by pat_completeness auto
termination
  by (relation "measure (\<lambda>(pattern, index, negated, ranges). length pattern - index)")
    (auto dest!: parse_class_byte_advances)

declare parse_class_from.simps [simp del]

definition parse_class :: "bytes \<Rightarrow> nat \<Rightarrow> (glob_token \<times> nat) option" where
  "parse_class pattern start =
     (let negated = (get_at pattern (start + 1) = Some (CHR ''^''));
          index = (if negated then start + 2 else start + 1)
      in parse_class_from pattern index negated [])"

lemma parse_class_from_advances:
  "parse_class_from pattern index negated ranges = Some (cls, next) \<Longrightarrow> index < next"
proof (induction pattern index negated ranges rule: parse_class_from.induct)
  case (1 pattern index negated ranges)
  then show ?case
    by (subst (asm) (3) parse_class_from.simps)
      (fastforce split: if_splits option.splits prod.splits dest!: parse_class_byte_advances)
qed

lemma parse_class_advances: "parse_class pattern start = Some (cls, next) \<Longrightarrow> start < next"
  by (auto simp: parse_class_def Let_def split: if_splits dest!: parse_class_from_advances)

function parse_glob_from :: "bytes \<Rightarrow> nat \<Rightarrow> glob_token list \<Rightarrow> glob_token list" where
  "parse_glob_from pattern index tokens =
     (if index < length pattern
      then (let byte = pattern ! index
            in if byte = CHR ''*''
               then parse_glob_from pattern (index + 1)
                      (if tokens \<noteq> [] \<and> last tokens = Star then tokens else tokens @ [Star])
               else if byte = CHR ''?'' then parse_glob_from pattern (index + 1) (tokens @ [AnyByte])
               else if byte = CHR 0x5C \<and> index + 1 < length pattern
               then parse_glob_from pattern (index + 2) (tokens @ [Literal (pattern ! (index + 1))])
               else if byte = CHR ''[''
               then (case parse_class pattern index of
                   Some (cls, next_index) \<Rightarrow> parse_glob_from pattern next_index (tokens @ [cls])
                 | None \<Rightarrow> tokens @ [Never])
               else parse_glob_from pattern (index + 1) (tokens @ [Literal byte]))
      else tokens)"
  by pat_completeness auto
termination
  by (relation "measure (\<lambda>(pattern, index, tokens). length pattern - index)")
    (auto dest!: parse_class_advances)

declare parse_glob_from.simps [simp del]

definition parse_glob :: "bytes \<Rightarrow> glob_token list" where
  "parse_glob pattern = parse_glob_from pattern 0 []"

definition glob_match :: "bytes \<Rightarrow> bytes \<Rightarrow> bool" where
  "glob_match pattern txt = glob_match_tokens (parse_glob pattern) txt"

end
