(* ===== verification/Glob_Properties.thy ===== *)
theory Glob_Properties
  imports Session_Glob
begin

text \<open>
  The matching loop, which keeps one point to go back to, is equivalent to the declarative meaning of a
  pattern, in which a star stands for any number of bytes.
\<close>

section \<open>The meaning of a pattern\<close>

fun glob_spec :: "glob_token list \<Rightarrow> bytes \<Rightarrow> bool" where
  "glob_spec [] tx = (tx = [])"
| "glob_spec (Star # ps) tx = (\<exists>i \<le> length tx. glob_spec ps (drop i tx))"
| "glob_spec (p # ps) tx = (case tx of [] \<Rightarrow> False | c # cs \<Rightarrow> token_matches p c \<and> glob_spec ps cs)"

lemma glob_spec_token:
  "p \<noteq> Star \<Longrightarrow> glob_spec (p # ps) tx = (case tx of [] \<Rightarrow> False | c # cs \<Rightarrow> token_matches p c \<and> glob_spec ps cs)"
  by (cases p) auto

lemma glob_spec_empty_text: "glob_spec ps [] \<longleftrightarrow> (\<forall>p \<in> set ps. p = Star)"
proof (induction ps)
  case (Cons p ps)
  then show ?case by (cases "p = Star") (auto simp: glob_spec_token)
qed simp

lemma glob_spec_star_drop: "glob_spec (Star # ps) (drop j tx) \<Longrightarrow> i \<le> j \<Longrightarrow> glob_spec (Star # ps) (drop i tx)"
proof -
  assume "glob_spec (Star # ps) (drop j tx)" "i \<le> j"
  then obtain n where n: "n \<le> length tx - j" "glob_spec ps (drop (n + j) tx)" by auto
  show ?thesis
  proof (cases "j \<le> length tx")
    case True
    then have "n + j - i \<le> length (drop i tx)" "drop (n + j - i) (drop i tx) = drop (n + j) tx"
      using n(1) \<open>i \<le> j\<close> by auto
    then show ?thesis using n(2) by (metis glob_spec.simps(2))
  next
    case False
    then have "glob_spec ps []" using n by simp
    then have "glob_spec ps (drop (length (drop i tx)) (drop i tx))" by simp
    then show ?thesis by auto
  qed
qed

text \<open>A piece of a pattern without stars takes as many bytes as it has tokens.\<close>

lemma glob_spec_piece:
  assumes "Star \<notin> set seg" "glob_spec (seg @ ps) tx"
  shows "length seg \<le> length tx \<and> glob_spec ps (drop (length seg) tx)"
  using assms
proof (induction seg arbitrary: tx)
  case (Cons p seg)
  then show ?case by (cases tx) (auto simp: glob_spec_token)
qed simp

lemma skip_stars_end: "p \<le> length tokens \<Longrightarrow> skip_stars tokens p = length tokens \<longleftrightarrow> (\<forall>x \<in> set (drop p tokens). x = Star)"
proof (induction tokens p rule: skip_stars.induct)
  case (1 tokens p)
  show ?case
  proof (cases "get_at tokens p = Some Star")
    case True
    then have "p < length tokens" "drop p tokens = Star # drop (p + 1) tokens"
      by (auto simp: get_at_def Cons_nth_drop_Suc [symmetric] split: if_splits)
    then show ?thesis using 1 True by (subst skip_stars.simps) auto
  next
    case False
    have "\<not> (\<forall>x \<in> set (drop p tokens). x = Star)" if "p < length tokens"
    proof -
      have "drop p tokens = tokens ! p # drop (p + 1) tokens" using that by (simp add: Cons_nth_drop_Suc)
      then show ?thesis using False that by (auto simp: get_at_def)
    qed
    then show ?thesis using False 1(2) by (subst skip_stars.simps) (auto simp: le_less)
  qed
qed

section \<open>The loop\<close>

text \<open>
  The invariant: the tokens between the last star and the current one have no star and stand against the bytes since
  the point to go back to.
\<close>

definition glob_inv :: "glob_token list \<Rightarrow> bytes \<Rightarrow> nat \<Rightarrow> nat \<Rightarrow> nat option \<Rightarrow> nat \<Rightarrow> bool" where
  "glob_inv tokens tx p t s st \<longleftrightarrow> p \<le> length tokens \<and> t \<le> length tx \<and>
     (case s of None \<Rightarrow> True
      | Some star \<Rightarrow> star < p \<and> st \<le> t \<and> p - (star + 1) = t - st \<and> Star \<notin> set (slice_of tokens (star + 1) p))"

definition later_match :: "glob_token list \<Rightarrow> bytes \<Rightarrow> nat option \<Rightarrow> nat \<Rightarrow> bool" where
  "later_match tokens tx s st \<longleftrightarrow> (case s of None \<Rightarrow> False
     | Some star \<Rightarrow> \<exists>j. st < j \<and> j \<le> length tx \<and> glob_spec (drop (star + 1) tokens) (drop j tx))"

lemma drop_slice: "a \<le> b \<Longrightarrow> drop a xs = slice_of xs a b @ drop b xs"
  unfolding slice_of_def by (metis append_take_drop_id drop_drop le_add_diff_inverse2)

lemma later_match_piece:
  assumes "glob_inv tokens tx p t (Some star) st" "st < j" "j \<le> length tx"
    and "glob_spec (drop (star + 1) tokens) (drop j tx)"
  shows "t - st \<le> length tx - j \<and> glob_spec (drop p tokens) (drop (j + (t - st)) tx)"
proof -
  let ?seg = "slice_of tokens (star + 1) p"
  have i: "star < p" "p - (star + 1) = t - st" "Star \<notin> set ?seg" "p \<le> length tokens"
    using assms(1) by (auto simp: glob_inv_def)
  have len: "length ?seg = t - st" using i by simp
  have "drop (star + 1) tokens = ?seg @ drop p tokens" using i(1) by (intro drop_slice) simp
  then show ?thesis
    using glob_spec_piece [OF i(3), of "drop p tokens" "drop j tx"] assms(4) len
    by (simp add: add.commute)
qed

lemma match_loop_correct:
  assumes "glob_inv tokens tx p t s st"
  shows "match_loop tokens tx p t s st \<longleftrightarrow> glob_spec (drop p tokens) (drop t tx) \<or> later_match tokens tx s st"
  using assms
proof (induction tokens tx p t s st rule: match_loop.induct)
  case (1 tokens tx p t s st)
  note inv = "1.prems"
  have le: "p \<le> length tokens" "t \<le> length tx" using inv by (auto simp: glob_inv_def)
  show ?case
  proof (cases "t < length tx")
    case False
    then have t: "t = length tx" using le by simp
    have "\<not> later_match tokens tx s st"
    proof
      assume "later_match tokens tx s st"
      then obtain star j where s: "s = Some star" and j: "st < j" "j \<le> length tx"
        "glob_spec (drop (star + 1) tokens) (drop j tx)"
        by (auto simp: later_match_def split: option.splits)
      have "t - st \<le> length tx - j" using later_match_piece [OF _ j] inv s by blast
      then show False using j t by linarith
    qed
    then show ?thesis
      using False t skip_stars_end [OF le(1)] by (subst match_loop.simps) (simp add: glob_spec_empty_text)
  next
    case lt: True
    have tx: "drop t tx = tx ! t # drop (t + 1) tx" using lt by (simp add: Cons_nth_drop_Suc)
    show ?thesis
    proof (cases "get_at tokens p = Some Star")
      case star: True
      then have p: "p < length tokens" "drop p tokens = Star # drop (p + 1) tokens"
        by (auto simp: get_at_def Cons_nth_drop_Suc [symmetric] split: if_splits)
      have "glob_inv tokens tx (p + 1) t (Some p) t"
        using p(1) le(2) by (simp add: glob_inv_def slice_of_def)
      note ih = "1.IH"(1) [OF lt star this]
      have "later_match tokens tx s st \<Longrightarrow> glob_spec (drop p tokens) (drop t tx)"
      proof -
        assume "later_match tokens tx s st"
        then obtain st0 j where s: "s = Some st0" and j: "st < j" "j \<le> length tx"
          "glob_spec (drop (st0 + 1) tokens) (drop j tx)"
          by (auto simp: later_match_def split: option.splits)
        have "glob_spec (drop p tokens) (drop (j + (t - st)) tx)" "t \<le> j + (t - st)"
          using later_match_piece [OF _ j, of p t] inv s j(1) by auto
        then show ?thesis using glob_spec_star_drop p(2) by metis
      qed
      moreover have "glob_spec (drop p tokens) (drop t tx) \<longleftrightarrow>
          glob_spec (drop (p + 1) tokens) (drop t tx) \<or> later_match tokens tx (Some p) t"
      proof
        assume "glob_spec (drop p tokens) (drop t tx)"
        then obtain i where i: "i \<le> length tx - t" "glob_spec (drop (p + 1) tokens) (drop (i + t) tx)"
          using p(2) by auto
        then show "glob_spec (drop (p + 1) tokens) (drop t tx) \<or> later_match tokens tx (Some p) t"
          using le(2) by (cases i) (auto simp: later_match_def intro!: exI [of _ "i + t"])
      next
        assume "glob_spec (drop (p + 1) tokens) (drop t tx) \<or> later_match tokens tx (Some p) t"
        then have "\<exists>j. t \<le> j \<and> j \<le> length tx \<and> glob_spec (drop (p + 1) tokens) (drop j tx)"
          using le(2) by (auto simp: later_match_def intro: less_imp_le)
        then obtain j where "t \<le> j" "j \<le> length tx" "glob_spec (drop (p + 1) tokens) (drop j tx)" by blast
        then have "glob_spec (drop (p + 1) tokens) (drop (j - t) (drop t tx))" "j - t \<le> length (drop t tx)" by auto
        then show "glob_spec (drop p tokens) (drop t tx)" unfolding p(2) by auto
      qed
      ultimately show ?thesis using ih star lt by (subst match_loop.simps) auto
    next
      case nostar: False
      show ?thesis
      proof (cases "case get_at tokens p of Some token \<Rightarrow> token_matches token (tx ! t) | None \<Rightarrow> False")
        case m: True
        then have p: "p < length tokens" "token_matches (tokens ! p) (tx ! t)" "tokens ! p \<noteq> Star"
          using nostar by (auto simp: get_at_def split: if_splits)
        have here: "glob_spec (drop p tokens) (drop t tx) \<longleftrightarrow> glob_spec (drop (p + 1) tokens) (drop (t + 1) tx)"
          using p Cons_nth_drop_Suc [OF p(1)] tx by (metis glob_spec_token list.simps(5) Suc_eq_plus1)
        have "glob_inv tokens tx (p + 1) (t + 1) s st"
        proof (cases s)
          case (Some star)
          have i: "star < p" "st \<le> t" "p - (star + 1) = t - st" "Star \<notin> set (slice_of tokens (star + 1) p)"
            using inv Some by (auto simp: glob_inv_def)
          have "slice_of tokens (star + 1) (p + 1) = slice_of tokens (star + 1) p @ [tokens ! p]"
            using i(1) p(1) by (simp add: slice_of_def Suc_diff_Suc [symmetric] take_Suc_conv_app_nth del: Suc_diff_Suc)
          then show ?thesis using i p lt Some by (auto simp: glob_inv_def)
        qed (use p(1) lt in \<open>simp add: glob_inv_def\<close>)
        from "1.IH"(2) [OF lt nostar m this] here show ?thesis
          using m nostar lt by (subst match_loop.simps) simp
      next
        case m: False
        have no: "\<not> glob_spec (drop p tokens) (drop t tx)"
        proof (cases "p < length tokens")
          case True
          then have "tokens ! p \<noteq> Star" "\<not> token_matches (tokens ! p) (tx ! t)"
            using m nostar by (auto simp: get_at_def)
          then show ?thesis using Cons_nth_drop_Suc [OF True] tx by (metis glob_spec_token list.simps(5))
        qed (use tx in simp)
        show ?thesis
        proof (cases s)
          case None
          then show ?thesis using no m nostar lt by (subst match_loop.simps) (simp add: later_match_def)
        next
          case (Some star)
          have i: "star < p" "st \<le> t" using inv Some by (auto simp: glob_inv_def)
          have "glob_inv tokens tx (star + 1) (st + 1) s (st + 1)"
            using i le(1) lt Some by (simp add: glob_inv_def slice_of_def)
          note ih = "1.IH"(3) [OF lt nostar m Some this]
          have "later_match tokens tx s st \<longleftrightarrow>
              glob_spec (drop (star + 1) tokens) (drop (st + 1) tx) \<or> later_match tokens tx s (st + 1)"
            using i lt Some by (auto simp: later_match_def) (metis Suc_lessI, metis Suc_lessD)
          then show ?thesis using ih no m nostar lt Some by (subst match_loop.simps) simp
        qed
      qed
    qed
  qed
qed

lemma glob_matcher_eq: "glob_match pattern tx \<longleftrightarrow> glob_spec (parse_glob pattern) tx"
proof -
  have "glob_inv (parse_glob pattern) tx 0 0 None 0" by (simp add: glob_inv_def)
  from match_loop_correct [OF this] show ?thesis
    by (simp add: glob_match_def glob_match_tokens_def later_match_def)
qed

text \<open>C27: The matcher of channel patterns and access rules is correct and always terminates: the loop with one
  point to go back to accepts exactly the texts that the pattern means, where a star stands for any
  number of bytes and every other token for one byte that it matches.\<close>

theorem glob_matcher_correct: "glob_match pattern tx \<longleftrightarrow> glob_spec (parse_glob pattern) tx"
  by (rule glob_matcher_eq)

section \<open>What the parser gives\<close>

definition glob_special :: "char set" where
  "glob_special = {CHR ''*'', CHR ''?'', CHR 0x5C, CHR ''[''}"

lemma parse_glob_from_literal:
  assumes "\<forall>c \<in> set (drop i pattern). c \<notin> glob_special"
  shows "parse_glob_from pattern i tokens = tokens @ map Literal (drop i pattern)"
  using assms
proof (induction pattern i tokens rule: parse_glob_from.induct)
  case (1 pattern i tokens)
  show ?case
  proof (cases "i < length pattern")
    case True
    have d: "drop i pattern = pattern ! i # drop (i + 1) pattern" using True by (simp add: Cons_nth_drop_Suc)
    then have "pattern ! i \<notin> glob_special" using "1.prems" by simp
    then have c: "pattern ! i \<noteq> CHR ''*''" "pattern ! i \<noteq> CHR ''?''" "pattern ! i \<noteq> CHR 0x5C" "pattern ! i \<noteq> CHR ''[''"
      by (auto simp: glob_special_def)
    have "parse_glob_from pattern (i + 1) (tokens @ [Literal (pattern ! i)]) =
        (tokens @ [Literal (pattern ! i)]) @ map Literal (drop (i + 1) pattern)"
      by (rule "1.IH"(5)) (use True c "1.prems" d in auto)
    then show ?thesis using True c d by (subst parse_glob_from.simps) (simp add: Let_def)
  qed (subst parse_glob_from.simps, simp)
qed

lemma glob_spec_literals: "glob_spec (map Literal p) tx \<longleftrightarrow> tx = p"
  by (induction p arbitrary: tx) (auto split: list.split)

lemma glob_spec_literal_prefix: "glob_spec (map Literal p @ [Star]) tx \<longleftrightarrow> (\<exists>r. tx = p @ r)"
proof (induction p arbitrary: tx)
  case Nil
  then show ?case by (auto intro: exI [of _ "length tx"])
qed (auto split: list.split)

lemma parse_glob_literal_star:
  assumes "\<forall>c \<in> set p. c \<notin> glob_special"
  shows "parse_glob (p @ ''*'') = map Literal p @ [Star]"
proof -
  have "parse_glob_from (p @ ''*'') i tokens = tokens @ map Literal (drop i p) @ [Star]"
    if "i \<le> length p" "i < length p \<or> tokens = [] \<or> last tokens \<noteq> Star" "tokens = [] \<or> last tokens \<noteq> Star" for i tokens
    using that
  proof (induction "length p - i" arbitrary: i tokens)
    case 0
    then have "i = length p" by simp
    then show ?case using 0
      by (subst parse_glob_from.simps, subst parse_glob_from.simps) (auto simp: Let_def)
  next
    case (Suc n)
    then have i: "i < length p" by simp
    then have "p ! i \<notin> glob_special" using assms by simp
    then have c: "p ! i \<noteq> CHR ''*''" "p ! i \<noteq> CHR ''?''" "p ! i \<noteq> CHR 0x5C" "p ! i \<noteq> CHR ''[''"
      by (auto simp: glob_special_def)
    have "parse_glob_from (p @ ''*'') (i + 1) (tokens @ [Literal (p ! i)]) =
        (tokens @ [Literal (p ! i)]) @ map Literal (drop (i + 1) p) @ [Star]"
      by (rule Suc.hyps(1)) (use Suc i in auto)
    then show ?case using i c
      by (subst parse_glob_from.simps) (simp add: Let_def nth_append Cons_nth_drop_Suc [symmetric])
  qed
  from this [of 0 "[]"] show ?thesis by (simp add: parse_glob_def)
qed

text \<open>A pattern without special bytes matches itself and nothing else, and such a pattern followed by a
  star matches exactly the texts that begin with it: an access rule for a key, or for keys with a prefix, grants no
  other key.\<close>

theorem plain_patterns_are_exact:
  assumes "\<forall>c \<in> set p. c \<notin> glob_special"
  shows "(glob_match p tx \<longleftrightarrow> tx = p) \<and> (glob_match (p @ ''*'') tx \<longleftrightarrow> (\<exists>r. tx = p @ r))"
  using parse_glob_from_literal [of 0 p "[]"] assms parse_glob_literal_star [OF assms]
  by (simp add: glob_matcher_eq glob_spec_literals glob_spec_literal_prefix parse_glob_def)

theorem plain_patterns_are_exact_witness:
  "glob_match ''user:*'' ''user:1'' \<and> \<not> glob_match ''user:'' ''user:1''"
  using plain_patterns_are_exact [of "''user:''" "''user:1''"] by (simp add: glob_special_def)

end
