(* ===== verification/Entry_Codec.thy ===== *)
theory Entry_Codec
  imports Meta_Codec
begin

text \<open>
  Whole values (\<^verbatim>\<open>src/store/db/value_entry_codec.rs\<close>): a value of any type is written and read by its type tag
  and layout. The binary format of the older whole-value layout (bincode) and the reader and writer of JSON text
  (serde_json) are arguments.
\<close>

datatype 'v value_structure =
    SString bytes
  | SHash "(bytes \<times> bytes) list"
  | SSortedSet "(bytes \<times> u64) list"
  | SVectorCollection 'v
  | SSet "bytes list"
  | SList "bytes list"
  | SStream "(string \<times> (bytes \<times> bytes) list) list"
  | SJson bytes

fun structure_type_tag :: "'v value_structure \<Rightarrow> char" where
  "structure_type_tag (SString _) = TYPE_STRING"
| "structure_type_tag (SHash _) = TYPE_HASH"
| "structure_type_tag (SSortedSet _) = TYPE_SORTED_SET"
| "structure_type_tag (SVectorCollection _) = TYPE_VECTOR"
| "structure_type_tag (SSet _) = TYPE_SET"
| "structure_type_tag (SList _) = TYPE_LIST"
| "structure_type_tag (SStream _) = TYPE_STREAM"
| "structure_type_tag (SJson _) = TYPE_JSON"

text \<open>\<open>bincode_encode\<close> is \<^verbatim>\<open>bincode::encode_to_vec\<close>.\<close>

definition encode_entry :: "('v value_structure \<Rightarrow> bytes) \<Rightarrow> 'v value_structure \<Rightarrow> u64 \<Rightarrow> u64 \<Rightarrow> bytes" where
  "encode_entry bincode_encode st expire_ms version =
     (case st of
        SString val \<Rightarrow> encode_raw_string val expire_ms
      | _ \<Rightarrow> be64 expire_ms @ be64 version @ [structure_type_tag st] @ bincode_encode st)"

definition PACKED_JSON_MAGIC :: bytes where "PACKED_JSON_MAGIC = [CHR 0xF1, CHR ''J'', CHR ''P'', CHR 0x01]"
definition PACKED_JSON_HEADER_LEN :: nat where "PACKED_JSON_HEADER_LEN = 17 + length PACKED_JSON_MAGIC + 4"

definition is_packed_json_raw :: "bytes \<Rightarrow> bool" where
  "is_packed_json_raw raw \<longleftrightarrow> length raw \<ge> PACKED_JSON_HEADER_LEN \<and> get_at raw 16 = Some TYPE_JSON \<and>
     slice_of raw 17 (17 + length PACKED_JSON_MAGIC) = PACKED_JSON_MAGIC"

text \<open>\<open>json_from\<close> is \<^verbatim>\<open>serde_json::from_slice\<close>.\<close>

definition decode_packed_json :: "(bytes \<Rightarrow> 'j option) \<Rightarrow> bytes \<Rightarrow> 'j option" where
  "decode_packed_json json_from raw =
     (if \<not> is_packed_json_raw raw then None
      else (let offset = 17 + length PACKED_JSON_MAGIC
            in case get_range raw offset (offset + 4) of
                 None \<Rightarrow> None
               | Some len_bytes \<Rightarrow>
                   (let len = be_nat len_bytes
                    in case get_range raw (offset + 4) (offset + 4 + len) of
                         None \<Rightarrow> None
                       | Some payload \<Rightarrow>
                           if offset + 4 + len \<noteq> length raw then None else json_from payload)))"

fun try_map :: "('a \<Rightarrow> 'b option) \<Rightarrow> 'a list \<Rightarrow> 'b list option" where
  "try_map f [] = Some []"
| "try_map f (x # xs) =
     (case f x of None \<Rightarrow> None | Some y \<Rightarrow> map_option (\<lambda>ys. y # ys) (try_map f xs))"

definition utf8_text :: "bytes \<Rightarrow> bytes option" where
  "utf8_text bs = (if utf8_valid bs then Some bs else None)"

definition decode_entry ::
  "(bytes \<Rightarrow> 'v value_structure option) \<Rightarrow> (bytes \<Rightarrow> 'j option) \<Rightarrow> ('j \<Rightarrow> bytes option) \<Rightarrow> bytes \<Rightarrow>
   (u64 \<times> u64 \<times> 'v value_structure) option"
where
  "decode_entry bincode_decode json_from json_text raw =
     (case decode_packed_list raw of
        Some items \<Rightarrow> map_option (\<lambda>l. (decode_expire_ms raw, 0, SList l)) (try_map utf8_text items)
      | None \<Rightarrow>
     if decode_list_meta raw \<noteq> None then None
     else (case decode_packed_stream raw of
        Some (meta, entries) \<Rightarrow>
          map_option (\<lambda>es. (sm_expire_ms meta, 0, SStream es))
            (try_map (\<lambda>(sid, raw). map_option (Pair (to_redis_id sid)) (decode_stream_entry raw)) entries)
      | None \<Rightarrow>
     if decode_stream_meta raw \<noteq> None then None
     else (case (case decode_hash_meta raw of Some meta \<Rightarrow> if hm_packed meta then Some meta else None | None \<Rightarrow> None) of
        Some meta \<Rightarrow>
          map_option (\<lambda>flds. (hm_expire_ms meta, 0, SHash (filter (\<lambda>(field, val). utf8_valid val) flds)))
            (decode_packed_hash raw)
      | None \<Rightarrow>
     (case decode_packed_set raw of
        Some members \<Rightarrow> Some (decode_expire_ms raw, 0, SSet members)
      | None \<Rightarrow>
     (case decode_packed_zset raw of
        Some zset \<Rightarrow> Some (decode_expire_ms raw, 0, SSortedSet zset)
      | None \<Rightarrow>
     (case decode_packed_json json_from raw of
        Some json \<Rightarrow> map_option (\<lambda>text. (decode_expire_ms raw, 0, SJson text)) (json_text json)
      | None \<Rightarrow>
     if length raw < 17 then None
     else (let expire_ms = from_be64 (slice_of raw 0 8); version = from_be64 (slice_of raw 8 16)
           in if raw ! 16 = TYPE_STRING
              then map_option (\<lambda>val. (expire_ms, version, SString val)) (utf8_text (drop 17 raw))
              else map_option (\<lambda>s. (expire_ms, version, s)) (bincode_decode (drop 17 raw)))))))))"

end
