(* ===== verification/Db_State.thy ===== *)
theory Db_State
  imports Ttl_Index Entry_Codec
begin

text \<open>
  The state behind the data commands of one database (\<^verbatim>\<open>src/store/db/core_write_batch.rs\<close>,
  \<^verbatim>\<open>core_lifecycle.rs\<close>, \<^verbatim>\<open>key_expiration_runtime.rs\<close>): committing a batch with its owner records, the
  cache of list metadata, the recording of mutations, and lazy expiry.

  The storage engine is a record of functions on its own world \<open>'w\<close>: what it answers, and what other
  sessions do between two calls, is its choice. A command is an action, a function from the state to an
  error or a result and the new state.
\<close>

section \<open>Actions\<close>

datatype 'e db_error =
    Storage_error 'e
  | Wrong_type_error
  | Decode_failed
  | No_such_key
  | Index_out_of_range
  | Index_space_exhausted
  | Not_utf8
  | Conflict
  | Panic
  | String_too_long
  | Not_an_integer
  | Increment_overflow
  | Bad_bit
  | Corrupt_record
  | Response_too_large

record ('w, 'e) kv_store =
  get_raw :: "bytes \<Rightarrow> 'w \<Rightarrow> ('e + bytes option) \<times> 'w"
  multi_get_raw :: "bytes list \<Rightarrow> 'w \<Rightarrow> ('e + bytes option list) \<times> 'w"
  scan_range_raw_limited :: "bytes \<Rightarrow> bytes option \<Rightarrow> nat \<Rightarrow> 'w \<Rightarrow> ('e + (bytes \<times> bytes) list) \<times> 'w"
  store_write_batch :: "batch_op list \<Rightarrow> 'w \<Rightarrow> ('e + unit) \<times> 'w"
  compare_and_write_batch :: "(bytes \<times> bytes option) list \<Rightarrow> batch_op list \<Rightarrow> 'w \<Rightarrow> ('e + bool) \<times> 'w"
  is_transactional :: bool
  clock_ms :: "'w \<Rightarrow> u64"
  clock_micros :: "'w \<Rightarrow> nat"

text \<open>\<open>compare_and_write_batch\<close> answers \<open>False\<close> when a condition failed or another write got in between.\<close>

record 'w db_state =
  engine :: 'w
  list_meta_cache :: "bytes \<rightharpoonup> list_meta"
  list_meta_cache_maybe_non_empty :: bool
  version_counter :: u64
  compaction :: version_compaction_tracker
  mutations :: mutation_state
  changes :: nat

text \<open>
  The handle of a database. \<open>entry_of\<close> is \<open>decode_entry\<close> at its readers for bincode and JSON, and
  \<open>fulltext_delete\<close> what the full-text subsystem adds to a batch when a hash or a JSON value goes.
\<close>

record ('w, 'e) db =
  kv :: "('w, 'e) kv_store"
  db_no :: u16
  key_layout :: key_encoding_layout
  entry_of :: "bytes \<Rightarrow> (u64 \<times> u64 \<times> bytes value_structure) option"
  fulltext_delete :: "bytes \<Rightarrow> char \<Rightarrow> 'e + batch_op list"

type_synonym ('w, 'e, 'a) action = "'w db_state \<Rightarrow> ('e db_error + 'a) \<times> 'w db_state"

definition return :: "'a \<Rightarrow> ('w, 'e, 'a) action" where
  "return x s = (Inr x, s)"

definition fail :: "'e db_error \<Rightarrow> ('w, 'e, 'a) action" where
  "fail e s = (Inl e, s)"

definition and_then :: "('w, 'e, 'a) action \<Rightarrow> ('a \<Rightarrow> ('w, 'e, 'b) action) \<Rightarrow> ('w, 'e, 'b) action" where
  "and_then m f s = (case m s of (Inl e, s') \<Rightarrow> (Inl e, s') | (Inr x, s') \<Rightarrow> f x s')"

definition modify :: "('w db_state \<Rightarrow> 'w db_state) \<Rightarrow> ('w, 'e, unit) action" where
  "modify f s = (Inr (), f s)"

definition engine_call :: "('w \<Rightarrow> ('e + 'a) \<times> 'w) \<Rightarrow> ('w, 'e, 'a) action" where
  "engine_call call s =
     (case call (engine s) of
        (Inl e, w) \<Rightarrow> (Inl (Storage_error e), s\<lparr>engine := w\<rparr>)
      | (Inr x, w) \<Rightarrow> (Inr x, s\<lparr>engine := w\<rparr>))"

text \<open>\<^verbatim>\<open>for _ in 0..n { body }\<close>: the body returns a value to leave the loop or \<open>None\<close> for another round.\<close>

fun rounds :: "nat \<Rightarrow> ('w, 'e, 'a option) action \<Rightarrow> ('w, 'e, 'a option) action" where
  "rounds 0 body = return None"
| "rounds (Suc n) body = and_then body (\<lambda>r. case r of Some x \<Rightarrow> return (Some x) | None \<Rightarrow> rounds n body)"

section \<open>Reading\<close>

definition mk_key :: "('w, 'e) db \<Rightarrow> bytes \<Rightarrow> bytes" where
  "mk_key db key = main_key_bytes (key_layout db) (db_no db) key"

definition db_get :: "('w, 'e) db \<Rightarrow> bytes \<Rightarrow> ('w, 'e, bytes option) action" where
  "db_get db raw_key = engine_call (get_raw (kv db) raw_key)"

definition now_ms :: "('w, 'e) db \<Rightarrow> ('w, 'e, u64) action" where
  "now_ms db s = (Inr (clock_ms (kv db) (engine s)), s)"

definition next_version :: "('w, 'e) db \<Rightarrow> ('w, 'e, u64) action" where
  "next_version db s =
     (case version_next (clock_micros (kv db) (engine s)) (version_counter s) of
        None \<Rightarrow> (Inl Panic, s)
      | Some (version, counter) \<Rightarrow> (Inr version, s\<lparr>version_counter := counter\<rparr>))"

definition fetch_add_changes :: "nat \<Rightarrow> ('w, 'e, unit) action" where
  "fetch_add_changes n = modify (\<lambda>s. s\<lparr>changes := changes s + n\<rparr>)"

section \<open>The cache of list metadata\<close>

fun is_range_delete :: "batch_op \<Rightarrow> bool" where
  "is_range_delete (wt, _, _) = (wt = RangeDelete)"

definition invalidate_list_meta_cache_for_batch :: "('w, 'e) db \<Rightarrow> batch_op list \<Rightarrow> 'w db_state \<Rightarrow> 'w db_state" where
  "invalidate_list_meta_cache_for_batch db batch s =
     (if is_transactional (kv db) \<or> \<not> list_meta_cache_maybe_non_empty s then s
      else if list_ex is_range_delete batch
      then s\<lparr>list_meta_cache := Map.empty, list_meta_cache_maybe_non_empty := False\<rparr>
      else (let keys = List.map_filter (\<lambda>(_, key, _). logical_main_key_from_raw_key (key_layout db) (db_no db) key) batch
            in s\<lparr>list_meta_cache := (\<lambda>k. if k \<in> set keys then None else list_meta_cache s k)\<rparr>))"

definition cache_list_meta_if_non_transactional :: "('w, 'e) db \<Rightarrow> bytes \<Rightarrow> list_meta \<Rightarrow> 'w db_state \<Rightarrow> 'w db_state" where
  "cache_list_meta_if_non_transactional db key meta s =
     (if is_transactional (kv db) then s
      else s\<lparr>list_meta_cache := (list_meta_cache s)(mk_key db key \<mapsto> meta),
             list_meta_cache_maybe_non_empty := True\<rparr>)"

definition remove_list_meta_cache_if_non_transactional :: "('w, 'e) db \<Rightarrow> bytes \<Rightarrow> 'w db_state \<Rightarrow> 'w db_state" where
  "remove_list_meta_cache_if_non_transactional db key s =
     (if is_transactional (kv db) then s
      else s\<lparr>list_meta_cache := (list_meta_cache s)(mk_key db key := None)\<rparr>)"

section \<open>Committing\<close>

definition with_owner_markers :: "('w, 'e) db \<Rightarrow> batch_op list \<Rightarrow> ('w, 'e, batch_op list) action" where
  "with_owner_markers db batch s =
     (case batch_with_version_owner_markers (key_layout db) (db_no db) (compaction s) batch of
        (tr, augmented) \<Rightarrow> (Inr (case augmented of Some b \<Rightarrow> b | None \<Rightarrow> batch), s\<lparr>compaction := tr\<rparr>))"

definition after_commit :: "('w, 'e) db \<Rightarrow> batch_op list \<Rightarrow> 'w db_state \<Rightarrow> 'w db_state" where
  "after_commit db batch s =
     (let s = invalidate_list_meta_cache_for_batch db batch s
      in s\<lparr>mutations := record_or_publish_mutations (mutations s) (is_transactional (kv db)) (key_layout db) (db_no db) batch\<rparr>)"

definition write_batch_if_not_empty :: "('w, 'e) db \<Rightarrow> batch_op list \<Rightarrow> ('w, 'e, unit) action" where
  "write_batch_if_not_empty db batch =
     (if batch = [] then return ()
      else and_then (with_owner_markers db batch) (\<lambda>batch.
           and_then (engine_call (store_write_batch (kv db) batch)) (\<lambda>_.
           modify (after_commit db batch))))"

definition compare_and_write_batch_if_not_empty ::
  "('w, 'e) db \<Rightarrow> (bytes \<times> bytes option) list \<Rightarrow> batch_op list \<Rightarrow> ('w, 'e, bool) action"
where
  "compare_and_write_batch_if_not_empty db conditions batch =
     (if batch = [] then return True
      else and_then (with_owner_markers db batch) (\<lambda>batch.
           and_then (engine_call (compare_and_write_batch (kv db) conditions batch)) (\<lambda>written.
           if written then and_then (modify (after_commit db batch)) (\<lambda>_. return True) else return False)))"

section \<open>Lazy expiry\<close>

definition delete_main_key_with_ttl_to_batch :: "('w, 'e) db \<Rightarrow> batch_op list \<Rightarrow> bytes \<Rightarrow> u64 \<Rightarrow> batch_op list" where
  "delete_main_key_with_ttl_to_batch db batch key expire_ms =
     remove_known_to_batch (batch @ [(Delete, mk_key db key, [])]) expire_ms (db_no db) key"

definition append_expiration_delete_to_batch ::
  "('w, 'e) db \<Rightarrow> batch_op list \<Rightarrow> bytes \<Rightarrow> meta_header \<Rightarrow> 'e db_error + batch_op list"
where
  "append_expiration_delete_to_batch db batch key header =
     (let batch = remove_known_to_batch (batch @ [(Delete, mk_key db key, [])]) (mh_expire_ms header) (db_no db) key
      in if mh_type_tag header = TYPE_HASH \<or> mh_type_tag header = TYPE_JSON
         then (case fulltext_delete db key (mh_type_tag header) of
             Inl e \<Rightarrow> Inl (Storage_error e) | Inr ops \<Rightarrow> Inr (batch @ ops))
         else Inr batch)"

definition expire_round :: "('w, 'e) db \<Rightarrow> bytes \<Rightarrow> ('w, 'e, unit option) action" where
  "expire_round db key =
     and_then (db_get db (mk_key db key)) (\<lambda>observed.
       case observed of
         None \<Rightarrow> return (Some ())
       | Some raw \<Rightarrow>
           (case decode_meta_header raw of
              None \<Rightarrow> return (Some ())
            | Some header \<Rightarrow>
                and_then (now_ms db) (\<lambda>now.
                  if mh_expire_ms header = 0 \<or> now < mh_expire_ms header then return (Some ())
                  else (case append_expiration_delete_to_batch db [] key header of
                      Inl e \<Rightarrow> fail e
                    | Inr batch \<Rightarrow>
                        and_then (compare_and_write_batch_if_not_empty db [(mk_key db key, observed)] batch)
                          (\<lambda>written. return (if written then Some () else None))))))"

definition expire_if_needed :: "('w, 'e) db \<Rightarrow> bytes \<Rightarrow> ('w, 'e, unit) action" where
  "expire_if_needed db key =
     and_then (rounds 64 (expire_round db key)) (\<lambda>r.
       case r of Some _ \<Rightarrow> return () | None \<Rightarrow> fail Conflict)"

end
