(* ===== verification/Meta_Properties.thy ===== *)
theory Meta_Properties
  imports Meta_Codec
begin

text \<open>
  Properties of the value formats: what the encoders of the packed collections, of the split
  metadata, of the strings and of the stream records write is what the decoders read, the header gives the
  type and the deadline of every one of them, and changing a deadline in place changes nothing else.
\<close>

section \<open>Headers of packed values\<close>

lemma packed_list_bytes:
  "encode_packed_list e items = Some raw \<Longrightarrow> \<exists>body. raw = be64 e @ be64 0 @ TYPE_LIST # body"
  by (auto simp: encode_packed_list_def split: if_splits option.splits)

lemma packed_set_bytes:
  "encode_packed_set e members = Some raw \<Longrightarrow> \<exists>body. raw = be64 e @ be64 0 @ TYPE_SET # body"
  by (auto simp: encode_packed_set_def split: if_splits option.splits)

lemma packed_zset_bytes:
  "encode_packed_zset e entries = Some raw \<Longrightarrow> \<exists>body. raw = be64 e @ be64 0 @ TYPE_SORTED_SET # body"
  unfolding encode_packed_zset_def by (simp split: if_splits option.splits) blast+

lemma packed_hash_bytes:
  "encode_packed_hash e flds = Some raw \<Longrightarrow> \<exists>body. raw = be64 e @ be64 0 @ TYPE_HASH # body"
  by (auto simp: encode_packed_hash_def split: if_splits option.splits)

lemma packed_stream_bytes:
  "encode_packed_stream meta entries = Some raw \<Longrightarrow>
   \<exists>body. raw = be64 (sm_expire_ms meta) @ be64 0 @ TYPE_STREAM # body"
  unfolding encode_packed_stream_def by (simp split: if_splits option.splits) blast+

text \<open>C31: The packed encodings of lists, sets, sorted sets and hashes are read back as the same
  elements in the same order, with the deadline and the type in the header. Sets, sorted sets and hashes are
  given in the order of their ordered containers and with UTF-8 members, as the server holds them.\<close>

theorem packed_collections_roundtrip:
  assumes "plausible_expiry e"
  shows "(encode_packed_list e items = Some raw \<longrightarrow>
      decode_packed_list raw = Some items \<and>
      decode_meta_header raw = Some \<lparr>mh_expire_ms = e, mh_version = 0, mh_type_tag = TYPE_LIST\<rparr>) \<and>
    (encode_packed_set e members = Some raw \<and> sorted_wrt (<) members \<and> list_all utf8_valid members \<longrightarrow>
      decode_packed_set raw = Some members \<and>
      decode_meta_header raw = Some \<lparr>mh_expire_ms = e, mh_version = 0, mh_type_tag = TYPE_SET\<rparr>) \<and>
    (encode_packed_zset e scored = Some raw \<and> sorted_wrt (<) (map fst scored) \<and>
      list_all (\<lambda>en. utf8_valid (fst en)) scored \<longrightarrow>
      decode_packed_zset raw = Some scored \<and>
      decode_meta_header raw = Some \<lparr>mh_expire_ms = e, mh_version = 0, mh_type_tag = TYPE_SORTED_SET\<rparr>) \<and>
    (encode_packed_hash e flds = Some raw \<and> sorted_wrt (<) (map fst flds) \<and>
      list_all (\<lambda>fv. utf8_valid (fst fv)) flds \<longrightarrow>
      decode_packed_hash raw = Some flds \<and>
      decode_hash_meta raw =
        Some \<lparr>hm_expire_ms = e, hm_version = 0, hm_may_have_field_ttl = False, hm_packed = True\<rparr>)"
proof -
  have hash: "decode_hash_meta raw =
        Some \<lparr>hm_expire_ms = e, hm_version = 0, hm_may_have_field_ttl = False, hm_packed = True\<rparr>"
    if "encode_packed_hash e flds = Some raw" "is_packed_hash_raw raw"
    using packed_hash_bytes [OF that(1)] regular_header [OF assms, of 0 TYPE_HASH] that(2)
    by (auto simp: decode_hash_meta_def)
  show ?thesis
    using packed_list_roundtrip [of e items raw] packed_set_roundtrip [of e members raw]
      packed_zset_roundtrip [of e scored raw] packed_hash_roundtrip [of e flds raw] hash
      packed_list_bytes [of e items raw] packed_set_bytes [of e members raw] packed_zset_bytes [of e scored raw]
      regular_header [OF assms]
    by metis
qed

theorem packed_collections_roundtrip_witness:
  "\<exists>raw. encode_packed_set 7 [''a'', ''b''] = Some raw \<and> decode_packed_set raw = Some [''a'', ''b'']"
proof -
  have "plausible_expiry 7" by (simp add: plausible_expiry_def)
  moreover have "try_len item_size [''a'', ''b''] PACKED_SET_HEADER_LEN = Some 33"
    by (simp add: item_size_def packed_set_defs u32_max_def checked_add_def)
  then have "\<exists>raw. encode_packed_set 7 [''a'', ''b''] = Some raw"
    by (simp add: encode_packed_set_def packed_set_defs)
  moreover have "sorted_wrt (<) [''a'', ''b'']" "list_all utf8_valid [''a'', ''b'']"
    by (simp_all add: utf8_valid_ascii_Cons less_char_def)
  ultimately show ?thesis using packed_collections_roundtrip [of 7 _ _ "[''a'', ''b'']"] by blast
qed

text \<open>A packed stream is read back with its last identifier, its counters, its deadline and its entries
  in order; packed and split metadata of a stream are never confused.\<close>

theorem packed_stream_read_back:
  assumes "encode_packed_stream meta entries = Some raw"
  shows "decode_packed_stream raw = Some (meta\<lparr>sm_version := 0\<rparr>, entries) \<and>
    decode_stream_meta raw = Some (meta\<lparr>sm_version := 0\<rparr>) \<and>
    (plausible_expiry (sm_expire_ms meta) \<longrightarrow>
      decode_meta_header raw = Some \<lparr>mh_expire_ms = sm_expire_ms meta, mh_version = 0, mh_type_tag = TYPE_STREAM\<rparr>)"
  using packed_stream_roundtrip [OF assms] packed_stream_bytes [OF assms] regular_header
  by (auto simp: decode_stream_meta_def)

definition sample_stream_meta :: stream_meta where
  "sample_stream_meta = \<lparr>sm_expire_ms = 0, sm_version = 0, sm_last_id = StreamId 5 1, sm_length = 1, sm_entries_added = 3\<rparr>"

definition sample_stream_entry :: bytes where
  "sample_stream_entry = encode_stream_entry [(''f'', ''v'')]"

theorem packed_stream_read_back_witness:
  "\<exists>raw. encode_packed_stream sample_stream_meta [(StreamId 5 0, sample_stream_entry)] = Some raw \<and>
     decode_packed_stream raw = Some (sample_stream_meta, [(StreamId 5 0, sample_stream_entry)])"
proof -
  have "decode_stream_entry sample_stream_entry = Some [(''f'', ''v'')]"
    unfolding sample_stream_entry_def
    by (rule decode_stream_entry_roundtrip)
      (simp_all add: pair_ok_def u32_max_def utf8_valid_ascii_Cons encode_stream_entry_def write_pair_def)
  moreover have "length sample_stream_entry = 14"
    by (simp add: sample_stream_entry_def encode_stream_entry_def write_pair_def)
  ultimately have "\<exists>raw. encode_packed_stream sample_stream_meta [(StreamId 5 0, sample_stream_entry)] = Some raw"
    by (simp add: encode_packed_stream_def packed_stream_defs sample_stream_meta_def u32_max_def
        less_eq_stream_id_def less_stream_id_def checked_add_def)
  then obtain raw where "encode_packed_stream sample_stream_meta [(StreamId 5 0, sample_stream_entry)] = Some raw"
    by blast
  from this packed_stream_read_back [OF this] show ?thesis by (auto simp: sample_stream_meta_def)
qed

section \<open>Split metadata\<close>

text \<open>The metadata of split lists, streams, sets and hashes is read back unchanged, and its header gives
  the type, the version and the deadline. The bounds on list positions and set sizes are those within which the
  first byte of the next field cannot be the first byte of a packed magic word.\<close>

theorem split_metadata_roundtrip:
  assumes "\<bar>head\<bar> < 2 ^ 56" "i64_range tail" "len < 2 ^ 56" "plausible_expiry e"
  shows "decode_list_meta (encode_list_meta e v head tail) =
      Some \<lparr>lm_expire_ms = e, lm_version = v, lm_head = head, lm_tail = tail\<rparr> \<and>
    decode_meta_header (encode_list_meta e v head tail) =
      Some \<lparr>mh_expire_ms = e, mh_version = v, mh_type_tag = TYPE_LIST\<rparr> \<and>
    decode_stream_meta (encode_stream_meta m) = Some m \<and>
    decode_meta_header (encode_stream_meta m) =
      Some \<lparr>mh_expire_ms = sm_expire_ms m, mh_version = sm_version m, mh_type_tag = TYPE_STREAM\<rparr> \<and>
    decode_set_meta (encode_set_meta e v len) =
      Some \<lparr>stm_expire_ms = e, stm_version = v, stm_len = len, stm_packed = False\<rparr> \<and>
    decode_hash_meta_checked (encode_hash_meta_with_field_ttl_flag e v ttl) =
      Inr \<lparr>hm_expire_ms = e, hm_version = v, hm_may_have_field_ttl = ttl, hm_packed = False\<rparr>"
proof -
  have "i64_range head" using assms(1) by (auto simp: i64_range_def)
  moreover have "decode_meta_header (encode_hash_meta_with_field_ttl_flag e v ttl) =
      Some \<lparr>mh_expire_ms = e, mh_version = v, mh_type_tag = TYPE_HASH\<rparr>"
    using regular_header [OF assms(4), of v TYPE_HASH] by (simp add: encode_hash_meta_with_field_ttl_flag_def)
  ultimately show ?thesis
    using list_meta_roundtrip [OF _ assms(2,1)] stream_meta_roundtrip set_meta_roundtrip [OF assms(3)]
      hash_meta_roundtrip by (simp add: decode_hash_meta_checked_def)
qed

theorem split_metadata_roundtrip_witness:
  "decode_list_meta (encode_list_meta 0 9 (- 3) 5) =
     Some \<lparr>lm_expire_ms = 0, lm_version = 9, lm_head = - 3, lm_tail = 5\<rparr> \<and>
   decode_set_meta (encode_set_meta 0 9 1000) =
     Some \<lparr>stm_expire_ms = 0, stm_version = 9, stm_len = 1000, stm_packed = False\<rparr>"
  using split_metadata_roundtrip [of "- 3" 5 1000 0 9 sample_stream_meta]
  by (simp add: i64_range_def plausible_expiry_def)

section \<open>Deadlines\<close>

lemma regular_not_split:
  assumes "plausible_expiry e"
  shows "slice_of (be64 e @ r) 0 4 \<noteq> LIST_META_MAGIC" "slice_of (be64 e @ r) 0 4 \<noteq> STREAM_META_MAGIC"
  using plausible_not_magic [OF assms] by (simp_all add: slice_of_def)

lemma packed_stream_meta_deadline:
  assumes "decode_packed_stream (be64 e @ r) = Some (m, entries)"
  shows "sm_expire_ms m = e"
proof -
  have "slice_of (be64 e @ r) 0 8 = be64 e" by (simp add: slice_of_def)
  then show ?thesis
    using assms by (auto simp: decode_packed_stream_def Let_def split: if_splits option.splits prod.splits)
qed

text \<open>The deadline of a value in the regular format is read back whatever its type and its content:
  a string whose bytes look like a packed collection, a packed collection or a set or hash metadata record;
  and a string is read back byte for byte.\<close>

theorem deadline_and_string_read_back:
  assumes "plausible_expiry e"
  shows "decode_expire_ms (be64 e @ be64 v @ tag # body) = e \<and>
    decode_string_bytes (encode_raw_string val e) = Some val \<and>
    decode_expire_ms (encode_raw_string val e) = e \<and>
    decode_meta_header (encode_raw_string val e) =
      Some \<lparr>mh_expire_ms = e, mh_version = 0, mh_type_tag = TYPE_STRING\<rparr>"
proof -
  have e: "decode_expire_ms (be64 e @ be64 v @ tag # body) = e" for v tag body
  proof -
    have "slice_of (be64 e @ r) 0 8 = be64 e" "take 8 (be64 e @ r) = be64 e" for r by (simp_all add: slice_of_def)
    then show ?thesis
      using regular_not_split [OF assms] packed_stream_meta_deadline
      by (auto simp: decode_expire_ms_def decode_list_meta_def decode_stream_meta_def split: option.split)
  qed
  show ?thesis
    using e [of 0 TYPE_STRING val] e regular_header [OF assms, of 0 TYPE_STRING val]
    by (simp add: encode_raw_string_def decode_string_bytes_def nth_append)
qed

theorem deadline_and_string_read_back_witness:
  "decode_expire_ms (encode_raw_string (''0123456789'' @ ''012345678'') 1700000000000) = 1700000000000"
  using deadline_and_string_read_back [of 1700000000000] by (simp add: plausible_expiry_def)

text \<open>A deadline from the year 194 million on is not safe: a string of nineteen bytes
  with the deadline 6146379211696242688 is read as the metadata of a split list, whose
  own deadline and version are made from the bytes of the string's header.\<close>

theorem far_deadline_changes_the_type:
  "decode_meta_header (encode_raw_string (''0123456789'' @ ''012345678'') 6146379211696242688) =
     Some \<lparr>mh_expire_ms = 0, mh_version = 0x01303132, mh_type_tag = TYPE_LIST\<rparr>"
proof -
  have "from_be64 (''ULST'' @ [NUL, NUL, NUL, NUL]) = 6146379211696242688"
    by (simp add: from_be64_def)
  then have m: "be64 6146379211696242688 = ''ULST'' @ [NUL, NUL, NUL, NUL]"
    using be64_from_be64 [of "''ULST'' @ [NUL, NUL, NUL, NUL]"] by simp
  have z0: "from_be64 [NUL, NUL, NUL, NUL, NUL, NUL, NUL, NUL] = 0" by (simp add: from_be64_def)
  then have z: "be64 0 = [NUL, NUL, NUL, NUL, NUL, NUL, NUL, NUL]"
    using be64_from_be64 [of "[NUL, NUL, NUL, NUL, NUL, NUL, NUL, NUL]"] by simp
  have "from_be64 ([NUL, NUL, NUL, NUL] @ [TYPE_STRING] @ ''012'') = 0x01303132"
    by (simp add: from_be64_def TYPE_STRING_def)
  then show ?thesis using m z z0
    by (simp add: decode_meta_header_def encode_raw_string_def LIST_META_MAGIC_def slice_of_def)
qed

section \<open>Changing a deadline in place\<close>

lemma splice_parts:
  assumes "at + length new \<le> length raw"
  shows "length (splice raw at new) = length raw" "take at (splice raw at new) = take at raw"
    "slice_of (splice raw at new) at (at + length new) = new"
    "drop (at + length new) (splice raw at new) = drop (at + length new) raw"
  using assms by (simp_all add: splice_def slice_of_def)

lemma slice_of_after: "n \<le> a \<Longrightarrow> drop n xs = drop n ys \<Longrightarrow> slice_of xs a b = slice_of ys a b"
  unfolding slice_of_def by (metis drop_drop le_add_diff_inverse2)

lemma slice_of_before: "b \<le> n \<Longrightarrow> take n xs = take n ys \<Longrightarrow> slice_of xs a b = slice_of ys a b"
  unfolding slice_of_def by (metis drop_take min.absorb1 take_take)

lemma nth_after: "n \<le> a \<Longrightarrow> a < length xs \<Longrightarrow> length xs = length ys \<Longrightarrow> drop n xs = drop n ys \<Longrightarrow> xs ! a = ys ! a"
proof -
  assume "n \<le> a" "a < length xs" "length xs = length ys" "drop n xs = drop n ys"
  then have "drop n xs ! (a - n) = drop n ys ! (a - n)" by simp
  then show "xs ! a = ys ! a" using \<open>n \<le> a\<close> \<open>a < length xs\<close> \<open>length xs = length ys\<close> by simp
qed

text \<open>Changing the deadline of a stored value in place (EXPIRE, PERSIST) changes the deadline that is
  read back and nothing else: the type and the version stay, and so does every byte outside the eight of
  the deadline, for values in the regular format and for split list and stream metadata.\<close>

theorem patch_changes_only_the_deadline:
  assumes "decode_meta_header raw = Some h" "plausible_expiry e"
  shows "\<exists>raw' at. patch_meta_expire_ms raw e = Some raw' \<and>
    decode_meta_header raw' = Some (h\<lparr>mh_expire_ms := e\<rparr>) \<and>
    at + 8 \<le> length raw \<and> length raw' = length raw \<and>
    take at raw' = take at raw \<and> drop (at + 8) raw' = drop (at + 8) raw"
proof (cases "(length raw = 36 \<and> slice_of raw 0 4 = LIST_META_MAGIC) \<or>
    (length raw = 52 \<and> slice_of raw 0 4 = STREAM_META_MAGIC)")
  case True
  let ?r = "splice raw 4 (be64 e)"
  have len: "4 + length (be64 e) \<le> length raw" using True by auto
  note s = splice_parts [OF len, simplified]
  have "slice_of ?r 0 4 = slice_of raw 0 4" by (rule slice_of_before [OF _ s(2)]) simp
  moreover have "slice_of ?r 12 20 = slice_of raw 12 20" by (rule slice_of_after [OF _ s(4)]) simp
  ultimately have "decode_meta_header ?r = map_option (\<lambda>h. h\<lparr>mh_expire_ms := e\<rparr>) (decode_meta_header raw)"
    using True s(1,3) by (elim disjE; simp add: decode_meta_header_def)
  moreover have "patch_meta_expire_ms raw e = Some ?r"
    using True by (auto simp: patch_meta_expire_ms_def)
  ultimately show ?thesis using s(1,2,4) len assms(1) by (intro exI [of _ ?r] exI [of _ 4]) simp
next
  case False
  let ?r = "splice raw 0 (be64 e)"
  have l17: "17 \<le> length raw"
    using False assms(1) unfolding decode_meta_header_def by (simp split: if_splits)
  then have len: "0 + length (be64 e) \<le> length raw" by simp
  note s = splice_parts [OF len, simplified]
  have "slice_of ?r 0 4 = take 4 (be64 e)" by (simp add: splice_def slice_of_def)
  then have m: "slice_of ?r 0 4 \<noteq> LIST_META_MAGIC" "slice_of ?r 0 4 \<noteq> STREAM_META_MAGIC"
    using plausible_not_magic [OF assms(2)] by auto
  have v: "slice_of ?r 8 16 = slice_of raw 8 16" by (rule slice_of_after [OF _ s(4)]) simp
  have t: "?r ! 16 = raw ! 16" by (rule nth_after [OF _ _ s(1,4)]) (use l17 s(1) in simp_all)
  have "decode_meta_header ?r = map_option (\<lambda>h. h\<lparr>mh_expire_ms := e\<rparr>) (decode_meta_header raw)"
    using False s(1,3) l17 m v t by (simp add: decode_meta_header_def) blast
  moreover have "patch_meta_expire_ms raw e = Some ?r"
    using False l17 by (simp add: patch_meta_expire_ms_def) blast
  ultimately show ?thesis using s(1,4) len assms(1) by (intro exI [of _ ?r] exI [of _ 0]) simp
qed

theorem patch_changes_only_the_deadline_witness:
  "\<exists>raw'. patch_meta_expire_ms (encode_raw_string ''v'' 0) 5 = Some raw' \<and>
     decode_meta_header raw' = Some \<lparr>mh_expire_ms = 5, mh_version = 0, mh_type_tag = TYPE_STRING\<rparr>"
proof -
  have p: "plausible_expiry 0" "plausible_expiry 5" by (simp_all add: plausible_expiry_def)
  have "decode_meta_header (encode_raw_string ''v'' 0) =
      Some \<lparr>mh_expire_ms = 0, mh_version = 0, mh_type_tag = TYPE_STRING\<rparr>"
    using regular_header [OF p(1), of 0 TYPE_STRING "''v''"] by (simp add: encode_raw_string_def)
  from patch_changes_only_the_deadline [OF this p(2)] show ?thesis by auto
qed

section \<open>Stream records\<close>

text \<open>Stream entries, consumer groups, pending entries and consumers are read back as written, and an
  identifier is parsed back from its text.\<close>

theorem stream_records_roundtrip:
  assumes "list_all pair_ok flds" "length flds \<le> u32_max" "length (encode_stream_entry flds) \<le> usize_max"
    and "utf8_valid (consumer pel)" "length (consumer pel) \<le> u32_max"
  shows "decode_stream_entry (encode_stream_entry flds) = Some flds \<and>
    decode_stream_group_state (encode_stream_group_state g) = Some g \<and>
    decode_stream_pel_state (encode_stream_pel_state pel) = Some pel \<and>
    decode_stream_consumer_state (encode_stream_consumer_state c) = Some c \<and>
    parse_stream_id (to_redis_id sid) = Some sid"
  using decode_stream_entry_roundtrip [OF assms(1-3)] decode_group_state_roundtrip
    decode_pel_state_roundtrip [OF assms(4,5)] decode_consumer_state_roundtrip parse_stream_id_roundtrip by simp

theorem stream_records_roundtrip_witness:
  "decode_stream_entry sample_stream_entry = Some [(''f'', ''v'')] \<and> parse_stream_id (to_redis_id (StreamId 5 1)) = Some (StreamId 5 1)"
  unfolding sample_stream_entry_def
  using stream_records_roundtrip [of "[(''f'', ''v'')]" "\<lparr>consumer = ''c'', last_delivery_ms = 0, deliveries = 1\<rparr>"]
  by (simp add: pair_ok_def u32_max_def utf8_valid_ascii_Cons encode_stream_entry_def write_pair_def)

text \<open>The keys of the entries of a stream, and those of the pending entries of a group, are in the
  order of their identifiers, and the identifier is read back from the key; so a range scan returns the entries
  of an identifier range in order.\<close>

theorem stream_keys_in_id_order:
  "(stream_entry_key db key v a < stream_entry_key db key v b \<longleftrightarrow> a < b) \<and>
   (stream_pel_key db key v grp a < stream_pel_key db key v grp b \<longleftrightarrow> a < b) \<and>
   decode_stream_entry_id (stream_entry_prefix db key v) (stream_entry_key db key v a) = Some a \<and>
   decode_stream_pel_id (stream_pel_group_prefix db key v grp) (stream_pel_key db key v grp a) = Some a"
  using stream_id_bytes_less [of a b]
  by (simp add: stream_entry_key_def stream_pel_key_def stream_id_bytes_def decode_stream_entry_id_def
      decode_stream_pel_id_def slice_of_def)

section \<open>Scores\<close>

text \<open>The rank keys of a sorted set are in the order of the sorted set: by score as IEEE 754
  compares, members of the same score by their bytes (the two zeros, equal as scores, are the one exception: their keys
  differ), and every score is decoded back bit for bit.\<close>

theorem rank_keys_in_score_order:
  "decode_sorted_f64 (encode_sorted_f64 s) = s \<and>
   (\<not> f64_isnan s \<and> \<not> f64_isnan s' \<and> \<not> (f64_eq s 0 \<and> f64_eq s' 0) \<longrightarrow>
     (zset_rank_key db key v s m < zset_rank_key db key v s' m' \<longleftrightarrow> f64_lt s s' \<or> f64_eq s s' \<and> m < m'))"
proof -
  have "encode_sorted_f64 s = encode_sorted_f64 s' \<longleftrightarrow> s = s'" by (metis decode_sorted_encode)
  then have k: "zset_rank_key db key v s m < zset_rank_key db key v s' m' \<longleftrightarrow>
      f64_order s < f64_order s' \<or> s = s' \<and> m < m'"
    unfolding zset_rank_key_def by (simp add: list_less_append_iff encode_sorted_less)
  have "f64_eq s s' \<longleftrightarrow> s = s'" if "\<not> f64_isnan s" "\<not> f64_isnan s'" "\<not> (f64_eq s 0 \<and> f64_eq s' 0)"
  proof
    assume "f64_eq s s'"
    then have "f64_order s = f64_order s'"
      using that f64_order_less_iff [of s s'] f64_order_less_iff [of s' s] by (auto simp: f64_eq_def)
    then have "encode_sorted_f64 s = encode_sorted_f64 s'"
      using encode_sorted_less [of s s'] encode_sorted_less [of s' s] by auto
    then show "s = s'" by (metis decode_sorted_encode)
  qed (use that in \<open>simp add: f64_eq_def\<close>)
  then show ?thesis
    using k decode_sorted_encode [of s] f64_order_less_iff [of s s'] by (auto simp: f64_lt_def f64_eq_def)
qed

theorem rank_keys_in_score_order_witness:
  "zset_rank_key 0 ''z'' 1 0x3FF0000000000000 ''m'' < zset_rank_key 0 ''z'' 1 0x4000000000000000 ''a''"
proof -
  let ?one = "0x3FF0000000000000 :: u64" and ?two = "0x4000000000000000 :: u64"
  have "f64_magnitude ?one = ?one" "f64_magnitude ?two = ?two" "\<not> f64_sign ?one" "\<not> f64_sign ?two"
    by (simp_all add: f64_magnitude_def f64_sign_def top_bit_iff)
  then have "\<not> f64_isnan ?one" "\<not> f64_isnan ?two" "f64_rank ?one < f64_rank ?two" "f64_rank ?one \<noteq> 0"
    by (simp_all add: f64_isnan_def f64_rank_def)
  then show ?thesis using rank_keys_in_score_order by (simp add: f64_lt_def f64_eq_def)
qed

end
