(* ===== verification/Db_Contract.thy ===== *)
theory Db_Contract
  imports Db_State Version_Properties Meta_Properties
begin

text \<open>
  What the commands on a database rely on: the documented behaviour of the storage engine when no call fails and no
  other session writes in between (\<open>engine_contract\<close>), and the lemmas about commits that all commands share.
\<close>

named_theorems action_simps

lemma return_apply [action_simps]: "return x s = (Inr x, s)"
  by (simp add: return_def)

lemma fail_apply [action_simps]: "fail e s = (Inl e, s)"
  by (simp add: fail_def)

lemma modify_apply [action_simps]: "modify f s = (Inr (), f s)"
  by (simp add: modify_def)

lemma and_then_Inr [action_simps]: "m s = (Inr x, s') \<Longrightarrow> and_then m f s = f x s'"
  by (simp add: and_then_def)

lemma and_then_Inl [action_simps]: "m s = (Inl e, s') \<Longrightarrow> and_then m f s = (Inl e, s')"
  by (simp add: and_then_def)

lemma rounds_done: "body s = (Inr (Some x), s') \<Longrightarrow> 0 < n \<Longrightarrow> rounds n body s = (Inr (Some x), s')"
  by (cases n) (simp_all add: action_simps)

lemma rounds_fail: "body s = (Inl e, s') \<Longrightarrow> 0 < n \<Longrightarrow> rounds n body s = (Inl e, s')"
  by (cases n) (simp_all add: action_simps)

section \<open>The engine\<close>

text \<open>A batch is applied in order; \<^verbatim>\<open>Merge\<close> depends on the engine's merge operator and is left out.\<close>

fun plain_op :: "batch_op \<Rightarrow> bool" where
  "plain_op (wt, _, _) = (wt \<noteq> Merge)"

fun apply_op :: "(bytes \<rightharpoonup> bytes) \<Rightarrow> batch_op \<Rightarrow> (bytes \<rightharpoonup> bytes)" where
  "apply_op m (wt, k, v) =
     (if wt = Delete then m(k := None)
      else if wt = RangeDelete then (\<lambda>x. if k \<le> x \<and> x < v then None else m x)
      else m(k \<mapsto> v))"

definition apply_batch :: "batch_op list \<Rightarrow> (bytes \<rightharpoonup> bytes) \<Rightarrow> (bytes \<rightharpoonup> bytes)" where
  "apply_batch batch m = foldl apply_op m batch"

definition in_range :: "bytes \<Rightarrow> bytes option \<Rightarrow> bytes \<Rightarrow> bool" where
  "in_range lo hi k \<longleftrightarrow> lo \<le> k \<and> (case hi of None \<Rightarrow> True | Some u \<Rightarrow> k < u)"

definition engine_contract :: "('w, 'e) kv_store \<Rightarrow> ('w \<Rightarrow> bytes \<rightharpoonup> bytes) \<Rightarrow> bool" where
  "engine_contract st view \<longleftrightarrow>
     (\<forall>k w. get_raw st k w = (Inr (view w k), w)) \<and>
     (\<forall>ks w. multi_get_raw st ks w = (Inr (map (view w) ks), w)) \<and>
     (\<forall>lo hi n w. \<exists>l. scan_range_raw_limited st lo hi n w = (Inr (take n l), w) \<and>
        sorted_wrt (<) (map fst l) \<and> set l = {(k, v). view w k = Some v \<and> in_range lo hi k}) \<and>
     (\<forall>batch w. list_all plain_op batch \<longrightarrow>
        (\<exists>w'. store_write_batch st batch w = (Inr (), w') \<and> view w' = apply_batch batch (view w))) \<and>
     (\<forall>conditions batch w. list_all plain_op batch \<and> (\<forall>(k, v) \<in> set conditions. view w k = v) \<longrightarrow>
        (\<exists>w'. compare_and_write_batch st conditions batch w = (Inr True, w') \<and> view w' = apply_batch batch (view w)))"

definition serves :: "('w, 'e) db \<Rightarrow> ('w \<Rightarrow> bytes \<rightharpoonup> bytes) \<Rightarrow> bool" where
  "serves db view \<longleftrightarrow> engine_contract (kv db) view \<and> key_layout db = CURRENT"

lemma mk_key_eq: "serves db view \<Longrightarrow> mk_key db key = key"
  by (simp add: serves_def mk_key_def CURRENT_def)

lemma apply_batch_Nil [simp]: "apply_batch [] m = m"
  by (simp add: apply_batch_def)

lemma apply_batch_append: "apply_batch (a @ b) m = apply_batch b (apply_batch a m)"
  by (simp add: apply_batch_def)

lemma apply_batch_snoc [simp]: "apply_batch (a @ [op]) m = apply_op (apply_batch a m) op"
  by (simp add: apply_batch_def)

lemma apply_batch_single: "apply_batch [op] m = apply_op m op"
  by (simp add: apply_batch_def)

text \<open>Which keys an operation can change.\<close>

fun op_touches :: "batch_op \<Rightarrow> bytes \<Rightarrow> bool" where
  "op_touches (wt, k, v) x = (if wt = RangeDelete then k \<le> x \<and> x < v else x = k)"

lemma apply_op_other: "\<not> op_touches op x \<Longrightarrow> apply_op m op x = m x"
  by (cases op) (auto split: if_splits)

lemma apply_batch_other: "\<forall>op \<in> set batch. \<not> op_touches op x \<Longrightarrow> apply_batch batch m x = m x"
proof (induction batch rule: rev_induct)
  case (snoc op batch)
  then have "apply_batch batch m x = m x" by simp
  then show ?case using snoc.prems by (simp add: apply_op_other)
qed simp

text \<open>Every key is changed on its own.\<close>

lemma apply_batch_cong: "m x = m' x \<Longrightarrow> apply_batch batch m x = apply_batch batch m' x"
proof (induction batch rule: rev_induct)
  case (snoc op batch)
  then show ?case by (cases op) (auto split: if_splits)
qed simp

lemma apply_batch_append_other:
  assumes "\<forall>op \<in> set a. \<not> op_touches op x"
  shows "apply_batch (a @ b) m x = apply_batch b m x"
  unfolding apply_batch_append by (rule apply_batch_cong) (rule apply_batch_other [OF assms])

section \<open>Commits\<close>

text \<open>The metadata cache never disagrees with the store.\<close>

definition cache_ok :: "('w, 'e) db \<Rightarrow> ('w \<Rightarrow> bytes \<rightharpoonup> bytes) \<Rightarrow> 'w db_state \<Rightarrow> bool" where
  "cache_ok db view s \<longleftrightarrow> is_transactional (kv db) \<or>
     (\<forall>k meta. list_meta_cache s k = Some meta \<longrightarrow> list_meta_cache_maybe_non_empty s \<and> utf8_valid k \<and>
        (\<exists>raw. view (engine s) k = Some raw \<and> (decode_list_meta raw = None \<or> decode_list_meta raw = Some meta)))"

lemma owner_key_not_utf8: "utf8_valid k \<Longrightarrow> k \<noteq> version_owner_key db v"
  using utf8_not_internal [of k "VERSION_OWNER_NAMESPACE @ be64 v"]
  by (auto simp: version_owner_key_def version_owner_prefix_def CURRENT_def starts_with_iff)

lemma with_owner_markers_run:
  "\<exists>records tr. with_owner_markers db batch s = (Inr (batch @ records), s\<lparr>compaction := tr\<rparr>) \<and>
     (\<forall>op \<in> set records. \<exists>v raw. op = (Put, version_owner_key (db_no db) v, raw))"
proof -
  let ?owners = "List.map_filter (owner_of_write (key_layout db) (db_no db)) batch"
  have "batch_with_version_owner_markers (key_layout db) (db_no db) (compaction s) batch =
      (fst (foldl (mark_owner (db_no db)) (compaction s, []) ?owners),
       if ?owners = [] then None else Some (batch @ map (owner_record (db_no db)) ?owners))"
    unfolding batch_with_version_owner_markers_def mark_owners_lazily by (simp add: Let_def)
  then have "with_owner_markers db batch s = (Inr (batch @ map (owner_record (db_no db)) ?owners),
      s\<lparr>compaction := fst (foldl (mark_owner (db_no db)) (compaction s, []) ?owners)\<rparr>)"
    by (simp add: with_owner_markers_def)
  moreover have "\<forall>op \<in> set (map (owner_record (db_no db)) ?owners). \<exists>v raw. op = (Put, version_owner_key (db_no db) v, raw)"
    by (auto simp: owner_record_def)
  ultimately show ?thesis by blast
qed

text \<open>What a successful commit of a batch leaves behind.\<close>

definition committed :: "('w, 'e) db \<Rightarrow> ('w \<Rightarrow> bytes \<rightharpoonup> bytes) \<Rightarrow> batch_op list \<Rightarrow> 'w db_state \<Rightarrow> 'w db_state \<Rightarrow> bool" where
  "committed db view batch s s' \<longleftrightarrow>
     (\<forall>x. \<not> starts_with x (version_owner_prefix (db_no db)) \<longrightarrow> view (engine s') x = apply_batch batch (view (engine s)) x) \<and>
     version_counter s' = version_counter s \<and> changes s' = changes s \<and> cache_ok db view s'"

lemma invalidate_keeps_ok:
  assumes "cache_ok db view s" "key_layout db = CURRENT"
    and "view w = apply_batch batch (view (engine s))"
  shows "cache_ok db view (invalidate_list_meta_cache_for_batch db batch (s\<lparr>compaction := tr, engine := w\<rparr>))"
proof (cases "is_transactional (kv db)")
  case True
  then show ?thesis by (simp add: cache_ok_def)
next
  case False
  let ?s1 = "s\<lparr>compaction := tr, engine := w\<rparr>"
  let ?s' = "invalidate_list_meta_cache_for_batch db batch ?s1"
  have "list_meta_cache_maybe_non_empty ?s' \<and> utf8_valid k \<and>
        (\<exists>raw. view (engine ?s') k = Some raw \<and> (decode_list_meta raw = None \<or> decode_list_meta raw = Some meta))"
    if hit: "list_meta_cache ?s' k = Some meta" for k meta
  proof (cases "list_meta_cache_maybe_non_empty s")
    case False
    then have "list_meta_cache s k = Some meta"
      using hit by (simp add: invalidate_list_meta_cache_for_batch_def)
    then show ?thesis using assms(1) False \<open>\<not> is_transactional (kv db)\<close> by (auto simp: cache_ok_def)
  next
    case True
    then have no_range: "\<not> list_ex is_range_delete batch"
      using hit False by (auto simp: invalidate_list_meta_cache_for_batch_def)
    let ?keys = "List.map_filter (\<lambda>(_, key, _). logical_main_key_from_raw_key (key_layout db) (db_no db) key) batch"
    have notin: "k \<notin> set ?keys" and old: "list_meta_cache s k = Some meta"
      using hit False True no_range by (auto simp: invalidate_list_meta_cache_for_batch_def Let_def split: if_splits)
    obtain raw where raw: "utf8_valid k" "view (engine s) k = Some raw"
      "decode_list_meta raw = None \<or> decode_list_meta raw = Some meta"
      using assms(1) False old by (auto simp: cache_ok_def)
    have main: "logical_main_key_from_raw_key (key_layout db) (db_no db) k = Some k"
      using logical_main_key_read_back [OF raw(1), of CURRENT "db_no db"] assms(2) by (simp add: CURRENT_def)
    have "\<not> op_touches op k" if "op \<in> set batch" for op
    proof -
      obtain wt a b where op: "op = (wt, a, b)" by (cases op)
      have "wt \<noteq> RangeDelete" using no_range that op by (auto simp: list_ex_iff)
      moreover have "k \<noteq> a" using notin main that op by (force simp: List.map_filter_def)
      ultimately show ?thesis by (simp add: op)
    qed
    then have "view w k = Some raw" using assms(3) raw(2) by (simp add: apply_batch_other)
    then show ?thesis
      using raw True False no_range by (auto simp: invalidate_list_meta_cache_for_batch_def Let_def)
  qed
  then show ?thesis by (auto simp: cache_ok_def)
qed

lemma plain_records:
  assumes "list_all plain_op batch" "\<forall>op \<in> set records. \<exists>v raw. op = (Put, version_owner_key d v, raw)"
  shows "list_all plain_op (batch @ records)"
  using assms by (auto simp: list_all_iff)

lemma records_frame:
  assumes "\<forall>op \<in> set records. \<exists>v raw. op = (Put, version_owner_key d v, raw)"
    and "\<not> starts_with x (version_owner_prefix d)"
  shows "apply_batch (batch @ records) m x = apply_batch batch m x"
proof -
  have "\<not> op_touches op x" if "op \<in> set records" for op
    using assms that by (auto simp: version_owner_key_def starts_with_iff)
  then show ?thesis by (simp add: apply_batch_append apply_batch_other)
qed

lemma after_commit_committed:
  assumes "cache_ok db view s" "key_layout db = CURRENT"
    and "\<forall>op \<in> set records. \<exists>v raw. op = (Put, version_owner_key (db_no db) v, raw)"
    and "view w = apply_batch (batch @ records) (view (engine s))"
  shows "committed db view batch s (after_commit db (batch @ records) (s\<lparr>compaction := tr, engine := w\<rparr>))"
proof -
  let ?s1 = "invalidate_list_meta_cache_for_batch db (batch @ records) (s\<lparr>compaction := tr, engine := w\<rparr>)"
  have same: "engine ?s1 = w" "version_counter ?s1 = version_counter s" "changes ?s1 = changes s"
    by (simp_all add: invalidate_list_meta_cache_for_batch_def Let_def)
  have "cache_ok db view ?s1" using invalidate_keeps_ok [OF assms(1,2,4)] .
  then have "cache_ok db view (after_commit db (batch @ records) (s\<lparr>compaction := tr, engine := w\<rparr>))"
    by (simp add: after_commit_def Let_def cache_ok_def)
  then show ?thesis
    using assms(4) records_frame [OF assms(3)] same by (simp add: committed_def after_commit_def Let_def)
qed

lemma write_batch_run:
  assumes "engine_contract (kv db) view" "key_layout db = CURRENT" "cache_ok db view s"
    and "batch \<noteq> []" "list_all plain_op batch"
  obtains s' where "write_batch_if_not_empty db batch s = (Inr (), s')" "committed db view batch s s'"
proof -
  obtain records tr where o: "with_owner_markers db batch s = (Inr (batch @ records), s\<lparr>compaction := tr\<rparr>)"
    and r: "\<forall>op \<in> set records. \<exists>v raw. op = (Put, version_owner_key (db_no db) v, raw)"
    using with_owner_markers_run by blast
  obtain w' where w: "store_write_batch (kv db) (batch @ records) (engine s) = (Inr (), w')"
    "view w' = apply_batch (batch @ records) (view (engine s))"
    using assms(1) plain_records [OF assms(5) r] unfolding engine_contract_def by meson
  have "write_batch_if_not_empty db batch s =
      (Inr (), after_commit db (batch @ records) (s\<lparr>compaction := tr, engine := w'\<rparr>))"
    using assms(4) o w(1) by (simp add: write_batch_if_not_empty_def and_then_def engine_call_def modify_apply)
  then show ?thesis using that after_commit_committed [OF assms(3,2) r w(2)] by simp
qed

lemma compare_and_write_run:
  assumes "engine_contract (kv db) view" "key_layout db = CURRENT" "cache_ok db view s"
    and "batch \<noteq> []" "list_all plain_op batch" "\<forall>(k, v) \<in> set conditions. view (engine s) k = v"
  obtains s' where "compare_and_write_batch_if_not_empty db conditions batch s = (Inr True, s')"
    "committed db view batch s s'"
proof -
  obtain records tr where o: "with_owner_markers db batch s = (Inr (batch @ records), s\<lparr>compaction := tr\<rparr>)"
    and r: "\<forall>op \<in> set records. \<exists>v raw. op = (Put, version_owner_key (db_no db) v, raw)"
    using with_owner_markers_run by blast
  obtain w' where w: "compare_and_write_batch (kv db) conditions (batch @ records) (engine s) = (Inr True, w')"
    "view w' = apply_batch (batch @ records) (view (engine s))"
    using assms(1,6) plain_records [OF assms(5) r] unfolding engine_contract_def by meson
  have "compare_and_write_batch_if_not_empty db conditions batch s =
      (Inr True, after_commit db (batch @ records) (s\<lparr>compaction := tr, engine := w'\<rparr>))"
    using assms(4) o w(1)
    by (simp add: compare_and_write_batch_if_not_empty_def and_then_def engine_call_def modify_apply return_apply)
  then show ?thesis using that after_commit_committed [OF assms(3,2) r w(2)] by simp
qed

section \<open>Reads and versions\<close>

lemma db_get_run [action_simps]:
  "engine_contract (kv db) view \<Longrightarrow> db_get db k s = (Inr (view (engine s) k), s)"
  by (simp add: db_get_def engine_call_def engine_contract_def)

lemma now_ms_run [action_simps]: "now_ms db s = (Inr (clock_ms (kv db) (engine s)), s)"
  by (simp add: now_ms_def)

text \<open>The version counter can give out \<open>n\<close> more versions.\<close>

definition versions_left :: "('w, 'e) db \<Rightarrow> nat \<Rightarrow> 'w db_state \<Rightarrow> bool" where
  "versions_left db n s \<longleftrightarrow> unat (version_counter s) + n \<le> usize_max \<and>
     (\<forall>w. version_timestamp_floor (clock_micros (kv db) w) + n \<le> usize_max)"

lemma versions_left_mono: "versions_left db n s \<Longrightarrow> m \<le> n \<Longrightarrow> versions_left db m s"
  by (auto simp: versions_left_def intro: order_trans add_left_mono)

lemma versions_left_committed: "committed db view batch s s' \<Longrightarrow> versions_left db n s' = versions_left db n s"
  by (simp add: committed_def versions_left_def)

lemma next_version_run:
  assumes "versions_left db (Suc n) s"
  obtains v where "next_version db s = (Inr v, s\<lparr>version_counter := v\<rparr>)" "v \<noteq> 0"
    "versions_left db n (s\<lparr>version_counter := v\<rparr>)"
proof -
  let ?c = "unat (version_counter s)" and ?f = "version_timestamp_floor (clock_micros (kv db) (engine s))"
  let ?next = "max (min (?c + 1) usize_max) ?f"
  have b: "?c + Suc n \<le> usize_max" "?f + Suc n \<le> usize_max" using assms by (auto simp: versions_left_def)
  have gt: "?next > ?c" and le: "?next + n \<le> usize_max" using b by auto
  have "unat (word_of_nat m :: u64) = m" if "m + n \<le> usize_max" for m
    using that by (simp add: unat_of_nat)
  then have u: "unat (word_of_nat ?next :: u64) = ?next" using le by blast
  have "next_version db s = (Inr (word_of_nat ?next), s\<lparr>version_counter := word_of_nat ?next\<rparr>)"
    using gt by (simp add: next_version_def version_next_def Let_def)
  moreover have "(word_of_nat ?next :: u64) \<noteq> 0" using u gt by (metis unat_0 not_less_zero)
  moreover have "versions_left db n (s\<lparr>version_counter := word_of_nat ?next\<rparr>)"
    using versions_left_mono [OF assms, of n] u le by (auto simp: versions_left_def)
  ultimately show ?thesis using that by blast
qed

lemma cache_ok_counter [simp]:
  "cache_ok db view (s\<lparr>version_counter := c\<rparr>) = cache_ok db view s"
  "cache_ok db view (s\<lparr>changes := n\<rparr>) = cache_ok db view s"
  by (simp_all add: cache_ok_def)

lemma cache_ok_cache_meta:
  assumes "cache_ok db view s" "utf8_valid (mk_key db key)" "view (engine s) (mk_key db key) = Some raw"
    and "decode_list_meta raw = None \<or> decode_list_meta raw = Some meta"
  shows "cache_ok db view (cache_list_meta_if_non_transactional db key meta s)"
  using assms by (auto simp: cache_ok_def cache_list_meta_if_non_transactional_def)

lemma cache_ok_forget:
  "cache_ok db view s \<Longrightarrow> cache_ok db view (remove_list_meta_cache_if_non_transactional db key s)"
  "cache_ok db view s \<Longrightarrow> cache_ok db view (s\<lparr>list_meta_cache := (list_meta_cache s)(k := None)\<rparr>)"
  by (auto simp: cache_ok_def remove_list_meta_cache_if_non_transactional_def)

end
