(* ===== verification/List_Store.thy ===== *)
theory List_Store
  imports Db_State
begin

text \<open>
  Lists in the store: the synchronous operations of \<^verbatim>\<open>src/store/db/native_list_helpers.rs\<close>,
  \<^verbatim>\<open>list_push_ops.rs\<close>, \<^verbatim>\<open>list_pop_ops.rs\<close>, \<^verbatim>\<open>list_read_range_ops.rs\<close>, \<^verbatim>\<open>list_update_trim_remove.rs\<close> and
  \<^verbatim>\<open>list_move_insert_ops.rs\<close>. The asynchronous versions of these run the same steps under the write lock of
  the key.
\<close>

definition SMALL_INLINE_CAS_ATTEMPTS :: nat where "SMALL_INLINE_CAS_ATTEMPTS = 3"

definition item_puts :: "u16 \<Rightarrow> bytes \<Rightarrow> u64 \<Rightarrow> int \<Rightarrow> bytes list \<Rightarrow> batch_op list" where
  "item_puts db_index key version start items =
     map (\<lambda>(offset, item). (Put, list_item_key db_index key version (start + int offset), item))
       (List.enumerate 0 items)"

definition meta_put :: "('w, 'e) db \<Rightarrow> bytes \<Rightarrow> list_meta \<Rightarrow> batch_op" where
  "meta_put db key meta =
     (Put, mk_key db key, encode_list_meta (lm_expire_ms meta) (lm_version meta) (lm_head meta) (lm_tail meta))"

definition split_list_writes :: "('w, 'e) db \<Rightarrow> bytes \<Rightarrow> u64 \<Rightarrow> u64 \<Rightarrow> bytes list \<Rightarrow> batch_op list" where
  "split_list_writes db key expire_ms version items =
     (Put, mk_key db key, encode_list_meta expire_ms version 0 (int (length items))) #
     item_puts (db_no db) key version 0 items"

text \<open>A batch routine with an \<^verbatim>\<open>expect\<close> inside panics where it has no value.\<close>

definition expect :: "'a option \<Rightarrow> ('w, 'e, 'a) action" where
  "expect x = (case x of None \<Rightarrow> fail Panic | Some y \<Rightarrow> return y)"

section \<open>Layout and metadata\<close>

definition promote_round :: "('w, 'e) db \<Rightarrow> bytes \<Rightarrow> ('w, 'e, unit option) action" where
  "promote_round db key =
     and_then (db_get db (mk_key db key)) (\<lambda>observed.
       case observed of
         None \<Rightarrow> return (Some ())
       | Some raw \<Rightarrow>
           (case decode_packed_list raw of
              None \<Rightarrow> return (Some ())
            | Some items \<Rightarrow>
                (case decode_meta_header raw of
                   None \<Rightarrow> fail Decode_failed
                 | Some header \<Rightarrow>
                     and_then (next_version db) (\<lambda>version.
                     and_then (compare_and_write_batch_if_not_empty db [(mk_key db key, observed)]
                         (split_list_writes db key (mh_expire_ms header) version items)) (\<lambda>written.
                     return (if written then Some () else None))))))"

definition promote_packed_list :: "('w, 'e) db \<Rightarrow> bytes \<Rightarrow> ('w, 'e, unit) action" where
  "promote_packed_list db key =
     and_then (rounds 64 (promote_round db key)) (\<lambda>r.
       case r of Some _ \<Rightarrow> return () | None \<Rightarrow> fail Conflict)"

definition list_meta_round :: "('w, 'e) db \<Rightarrow> bytes \<Rightarrow> ('w, 'e, list_meta option option) action" where
  "list_meta_round db key =
     and_then (db_get db (mk_key db key)) (\<lambda>observed.
       case observed of
         None \<Rightarrow> return (Some None)
       | Some raw \<Rightarrow>
           and_then (now_ms db) (\<lambda>now.
             case (case decode_meta_header raw of
                     Some header \<Rightarrow> if mh_expire_ms header > 0 \<and> now \<ge> mh_expire_ms header then Some header else None
                   | None \<Rightarrow> None) of
               Some header \<Rightarrow>
                 and_then (expect (delete_sub_keys_to_batch_bytes [(Delete, mk_key db key, [])] (db_no db) key
                     (mh_version header) (mh_type_tag header))) (\<lambda>batch.
                 and_then (compare_and_write_batch_if_not_empty db [(mk_key db key, observed)]
                     (remove_known_to_batch batch (mh_expire_ms header) (db_no db) key)) (\<lambda>written.
                 if written
                 then and_then (modify (\<lambda>s. s\<lparr>list_meta_cache := (list_meta_cache s)(mk_key db key := None)\<rparr>))
                        (\<lambda>_. return (Some None))
                 else return None))
             | None \<Rightarrow>
                 (case decode_list_meta raw of
                    Some meta \<Rightarrow>
                      and_then (modify (cache_list_meta_if_non_transactional db key meta)) (\<lambda>_. return (Some (Some meta)))
                  | None \<Rightarrow>
                      (case entry_of db raw of
                         None \<Rightarrow> fail Decode_failed
                       | Some (_, version, SList items) \<Rightarrow>
                           (let meta = \<lparr>lm_expire_ms = decode_expire_ms raw, lm_version = version,
                                        lm_head = 0, lm_tail = int (length items)\<rparr>
                            in and_then (modify (cache_list_meta_if_non_transactional db key meta))
                                 (\<lambda>_. return (Some (Some meta))))
                       | Some _ \<Rightarrow> fail Wrong_type_error))))"

definition cached_list_meta :: "('w, 'e) db \<Rightarrow> bytes \<Rightarrow> ('w, 'e, list_meta option) action" where
  "cached_list_meta db key s =
     (if is_transactional (kv db) then (Inr None, s)
      else (case list_meta_cache s (mk_key db key) of
          None \<Rightarrow> (Inr None, s)
        | Some meta \<Rightarrow>
            if lm_expire_ms meta = 0 \<or> clock_ms (kv db) (engine s) < lm_expire_ms meta then (Inr (Some meta), s)
            else (Inr None, s\<lparr>list_meta_cache := (list_meta_cache s)(mk_key db key := None)\<rparr>)))"

definition list_meta_of :: "('w, 'e) db \<Rightarrow> bytes \<Rightarrow> ('w, 'e, list_meta option) action" where
  "list_meta_of db key =
     and_then (cached_list_meta db key) (\<lambda>cached.
       case cached of
         Some meta \<Rightarrow> return (Some meta)
       | None \<Rightarrow>
           and_then (rounds 64 (list_meta_round db key)) (\<lambda>r.
             case r of Some meta \<Rightarrow> return meta | None \<Rightarrow> fail Conflict))"

section \<open>Pushing\<close>

definition push_values :: "bool \<Rightarrow> bytes list \<Rightarrow> bytes list \<Rightarrow> bytes list" where
  "push_values left items vals = foldl (\<lambda>items val. if left then val # items else items @ [val]) items vals"

text \<open>A list is written packed as long as it fits.\<close>

definition packed_or_split_writes :: "('w, 'e) db \<Rightarrow> bytes \<Rightarrow> u64 \<Rightarrow> bytes list \<Rightarrow> ('w, 'e, batch_op list) action" where
  "packed_or_split_writes db key expire_ms items =
     (case encode_packed_list expire_ms items of
        Some raw \<Rightarrow> return [(Put, mk_key db key, raw)]
      | None \<Rightarrow> and_then (next_version db) (\<lambda>version. return (split_list_writes db key expire_ms version items)))"

text \<open>The packed form: \<open>None\<close> hands over to the split form.\<close>

definition push_packed_write ::
  "('w, 'e) db \<Rightarrow> bytes \<Rightarrow> bool \<Rightarrow> bytes list \<Rightarrow> bytes option \<Rightarrow> u64 \<Rightarrow> bytes list \<Rightarrow> ('w, 'e, nat option option) action"
where
  "push_packed_write db key left vals observed expire_ms items0 =
     (let items = push_values left items0 vals
      in if vals = [] then return (Some (Some (length items)))
         else and_then (packed_or_split_writes db key expire_ms items) (\<lambda>batch.
              and_then (compare_and_write_batch_if_not_empty db [(mk_key db key, observed)] batch) (\<lambda>written.
              if written then and_then (fetch_add_changes 1) (\<lambda>_. return (Some (Some (length items))))
              else return None)))"

definition push_packed_round ::
  "('w, 'e) db \<Rightarrow> bytes \<Rightarrow> bool \<Rightarrow> bytes list \<Rightarrow> bool \<Rightarrow> ('w, 'e, nat option option) action"
where
  "push_packed_round db key left vals only_if_exists =
     and_then (expire_if_needed db key) (\<lambda>_.
     and_then (db_get db (mk_key db key)) (\<lambda>observed.
       case observed of
         None \<Rightarrow> if only_if_exists then return (Some (Some 0))
                 else push_packed_write db key left vals observed 0 []
       | Some raw \<Rightarrow>
           (case decode_meta_header raw of
              None \<Rightarrow> fail Decode_failed
            | Some header \<Rightarrow>
                if mh_type_tag header \<noteq> TYPE_LIST then fail Wrong_type_error
                else (case decode_packed_list raw of
                    None \<Rightarrow> return (Some None)
                  | Some items \<Rightarrow> push_packed_write db key left vals observed (mh_expire_ms header) items))))"

definition try_list_push_packed ::
  "('w, 'e) db \<Rightarrow> bytes \<Rightarrow> bool \<Rightarrow> bytes list \<Rightarrow> bool \<Rightarrow> ('w, 'e, nat option) action"
where
  "try_list_push_packed db key left vals only_if_exists =
     and_then (rounds SMALL_INLINE_CAS_ATTEMPTS (push_packed_round db key left vals only_if_exists)) (\<lambda>r.
       case r of
         Some x \<Rightarrow> return x
       | None \<Rightarrow> and_then (promote_packed_list db key) (\<lambda>_. return None))"

text \<open>The split form: one item per position outward from the end, then the metadata.\<close>

fun push_split_items ::
  "u16 \<Rightarrow> bytes \<Rightarrow> bool \<Rightarrow> bytes list \<Rightarrow> list_meta \<times> batch_op list \<Rightarrow> list_meta \<times> batch_op list"
where
  "push_split_items db_index key left [] st = st"
| "push_split_items db_index key left (val # vals) (meta, batch) =
     push_split_items db_index key left vals
       (if left
        then (meta\<lparr>lm_head := lm_head meta - 1\<rparr>,
              batch @ [(Put, list_item_key db_index key (lm_version meta) (lm_head meta - 1), val)])
        else (meta\<lparr>lm_tail := lm_tail meta + 1\<rparr>,
              batch @ [(Put, list_item_key db_index key (lm_version meta) (lm_tail meta), val)]))"

definition push_split :: "('w, 'e) db \<Rightarrow> bytes \<Rightarrow> bool \<Rightarrow> bytes list \<Rightarrow> list_meta \<Rightarrow> ('w, 'e, nat) action" where
  "push_split db key left vals meta0 =
     (let (meta, batch) = push_split_items (db_no db) key left vals (meta0, [])
      in and_then (write_batch_if_not_empty db (batch @ [meta_put db key meta])) (\<lambda>_.
         and_then (modify (cache_list_meta_if_non_transactional db key meta)) (\<lambda>_.
         and_then (fetch_add_changes 1) (\<lambda>_.
         return (nat (lm_tail meta - lm_head meta))))))"

definition list_push_bytes ::
  "('w, 'e) db \<Rightarrow> bytes \<Rightarrow> bool \<Rightarrow> bytes list \<Rightarrow> bool \<Rightarrow> ('w, 'e, nat) action"
where
  "list_push_bytes db key left vals only_if_exists =
     and_then (try_list_push_packed db key left vals only_if_exists) (\<lambda>r.
       case r of
         Some len \<Rightarrow> return len
       | None \<Rightarrow>
           and_then (list_meta_of db key) (\<lambda>found.
             case found of
               Some meta \<Rightarrow> push_split db key left vals meta
             | None \<Rightarrow>
                 if only_if_exists then return 0
                 else and_then (next_version db) (\<lambda>version.
                   push_split db key left vals
                     \<lparr>lm_expire_ms = 0, lm_version = version, lm_head = 0, lm_tail = 0\<rparr>)))"

definition list_push_left_bytes :: "('w, 'e) db \<Rightarrow> bytes \<Rightarrow> bytes list \<Rightarrow> bool \<Rightarrow> ('w, 'e, nat) action" where
  "list_push_left_bytes db key vals only_if_exists = list_push_bytes db key True vals only_if_exists"

definition list_push_right_bytes :: "('w, 'e) db \<Rightarrow> bytes \<Rightarrow> bytes list \<Rightarrow> bool \<Rightarrow> ('w, 'e, nat) action" where
  "list_push_right_bytes db key vals only_if_exists = list_push_bytes db key False vals only_if_exists"

section \<open>Popping\<close>

definition pop_items :: "bool \<Rightarrow> nat \<Rightarrow> bytes list \<Rightarrow> bytes list \<times> bytes list" where
  "pop_items left count items =
     (let pop_count = min count (length items)
      in if left then (take pop_count items, drop pop_count items)
         else (take pop_count (rev items), take (length items - pop_count) items))"

definition pop_packed_writes :: "('w, 'e) db \<Rightarrow> bytes \<Rightarrow> u64 \<Rightarrow> bytes list \<Rightarrow> ('w, 'e, batch_op list) action" where
  "pop_packed_writes db key expire_ms rest =
     (if rest = [] then return (delete_main_key_with_ttl_to_batch db [] key expire_ms)
      else and_then (expect (encode_packed_list expire_ms rest)) (\<lambda>raw. return [(Put, mk_key db key, raw)]))"

definition pop_packed_round :: "('w, 'e) db \<Rightarrow> bytes \<Rightarrow> bool \<Rightarrow> nat \<Rightarrow> ('w, 'e, bytes list option option) action" where
  "pop_packed_round db key left count =
     and_then (expire_if_needed db key) (\<lambda>_.
     and_then (db_get db (mk_key db key)) (\<lambda>observed.
       case observed of
         None \<Rightarrow> return (Some (Some []))
       | Some raw \<Rightarrow>
           (case decode_meta_header raw of
              None \<Rightarrow> fail Decode_failed
            | Some header \<Rightarrow>
                if mh_type_tag header \<noteq> TYPE_LIST then fail Wrong_type_error
                else (case decode_packed_list raw of
                    None \<Rightarrow> return (Some None)
                  | Some items \<Rightarrow>
                      (let (popped, rest) = pop_items left count items
                       in if popped = [] then return (Some (Some popped))
                          else and_then (pop_packed_writes db key (mh_expire_ms header) rest) (\<lambda>batch.
                             and_then (compare_and_write_batch_if_not_empty db [(mk_key db key, observed)] batch) (\<lambda>written.
                             if written
                             then and_then (fetch_add_changes (length popped)) (\<lambda>_. return (Some (Some popped)))
                             else return None)))))))"

definition try_list_pop_packed :: "('w, 'e) db \<Rightarrow> bytes \<Rightarrow> bool \<Rightarrow> nat \<Rightarrow> ('w, 'e, bytes list option) action" where
  "try_list_pop_packed db key left count =
     and_then (rounds SMALL_INLINE_CAS_ATTEMPTS (pop_packed_round db key left count)) (\<lambda>r.
       case r of
         Some x \<Rightarrow> return x
       | None \<Rightarrow> and_then (promote_packed_list db key) (\<lambda>_. return None))"

definition pop_positions :: "bool \<Rightarrow> nat \<Rightarrow> list_meta \<Rightarrow> int list" where
  "pop_positions left pop_count meta =
     map (\<lambda>offset. if left then lm_head meta + int offset else lm_tail meta - 1 - int offset) [0..<pop_count]"

text \<open>The metadata that is left, in the store and in the cache.\<close>

definition remaining_meta_ops :: "('w, 'e) db \<Rightarrow> bytes \<Rightarrow> list_meta \<Rightarrow> batch_op list \<Rightarrow> batch_op list" where
  "remaining_meta_ops db key meta batch =
     (if lm_head meta \<ge> lm_tail meta then delete_main_key_with_ttl_to_batch db batch key (lm_expire_ms meta)
      else batch @ [meta_put db key meta])"

definition remaining_meta_cache :: "('w, 'e) db \<Rightarrow> bytes \<Rightarrow> list_meta \<Rightarrow> 'w db_state \<Rightarrow> 'w db_state" where
  "remaining_meta_cache db key meta =
     (if lm_head meta \<ge> lm_tail meta then remove_list_meta_cache_if_non_transactional db key
      else cache_list_meta_if_non_transactional db key meta)"

definition pop_split :: "('w, 'e) db \<Rightarrow> bytes \<Rightarrow> bool \<Rightarrow> nat \<Rightarrow> list_meta \<Rightarrow> ('w, 'e, bytes list) action" where
  "pop_split db key left count meta =
     (let pop_count = min count (nat (max (lm_tail meta - lm_head meta) 0));
          item_keys = map (list_item_key (db_no db) key (lm_version meta)) (pop_positions left pop_count meta);
          updated = (if left then meta\<lparr>lm_head := lm_head meta + int pop_count\<rparr>
                     else meta\<lparr>lm_tail := lm_tail meta - int pop_count\<rparr>)
      in if pop_count = 0 then return []
         else and_then (engine_call (multi_get_raw (kv db) item_keys)) (\<lambda>vals.
              and_then (expect (delete_list_storage_range_to_batch [] (db_no db) key (lm_version meta)
                  (lm_head meta) (lm_head updated))) (\<lambda>batch.
              and_then (expect (delete_list_storage_range_to_batch batch (db_no db) key (lm_version meta)
                  (max (lm_tail updated) (lm_head updated)) (lm_tail meta))) (\<lambda>batch.
              and_then (write_batch_if_not_empty db (remaining_meta_ops db key updated batch)) (\<lambda>_.
              and_then (modify (remaining_meta_cache db key updated)) (\<lambda>_.
              (let result = filter utf8_valid (List.map_filter id vals)
               in and_then (fetch_add_changes (length result)) (\<lambda>_. return result))))))))"

definition list_pop_many :: "('w, 'e) db \<Rightarrow> bytes \<Rightarrow> bool \<Rightarrow> nat \<Rightarrow> ('w, 'e, bytes list) action" where
  "list_pop_many db key left count =
     (if count = 0 then return []
      else and_then (try_list_pop_packed db key left count) (\<lambda>r.
        case r of
          Some vals \<Rightarrow> return (filter utf8_valid vals)
        | None \<Rightarrow>
            and_then (list_meta_of db key) (\<lambda>found.
              case found of None \<Rightarrow> return [] | Some meta \<Rightarrow> pop_split db key left count meta)))"

text \<open>LPOP and RPOP of one element.\<close>

definition pop_one_split :: "('w, 'e) db \<Rightarrow> bytes \<Rightarrow> bool \<Rightarrow> list_meta \<Rightarrow> ('w, 'e, bytes option) action" where
  "pop_one_split db key left meta =
     (if lm_head meta \<ge> lm_tail meta
      then and_then (write_batch_if_not_empty db (delete_main_key_with_ttl_to_batch db [] key (lm_expire_ms meta))) (\<lambda>_.
           and_then (modify (remove_list_meta_cache_if_non_transactional db key)) (\<lambda>_. return None))
      else (let updated = (if left then meta\<lparr>lm_head := lm_head meta + 1\<rparr> else meta\<lparr>lm_tail := lm_tail meta - 1\<rparr>);
                item_key = list_item_key (db_no db) key (lm_version meta)
                  (if left then lm_head meta else lm_tail updated)
            in and_then (db_get db item_key) (\<lambda>raw.
               (let val = (case raw of Some v \<Rightarrow> utf8_text v | None \<Rightarrow> None)
                in and_then (write_batch_if_not_empty db (remaining_meta_ops db key updated [(Delete, item_key, [])])) (\<lambda>_.
                   and_then (modify (remaining_meta_cache db key updated)) (\<lambda>_.
                   and_then (if val = None then return () else fetch_add_changes 1) (\<lambda>_. return val)))))))"

definition list_pop_one :: "('w, 'e) db \<Rightarrow> bytes \<Rightarrow> bool \<Rightarrow> ('w, 'e, bytes option) action" where
  "list_pop_one db key left =
     and_then (try_list_pop_packed db key left 1) (\<lambda>r.
       case r of
         Some vals \<Rightarrow> return (case vals of [] \<Rightarrow> None | v # _ \<Rightarrow> utf8_text v)
       | None \<Rightarrow>
           and_then (list_meta_of db key) (\<lambda>found.
             case found of None \<Rightarrow> return None | Some meta \<Rightarrow> pop_one_split db key left meta))"

definition list_pop_left :: "('w, 'e) db \<Rightarrow> bytes \<Rightarrow> ('w, 'e, bytes option) action" where
  "list_pop_left db key = list_pop_one db key True"

definition list_pop_right :: "('w, 'e) db \<Rightarrow> bytes \<Rightarrow> ('w, 'e, bytes option) action" where
  "list_pop_right db key = list_pop_one db key False"

fun list_multi_pop :: "('w, 'e) db \<Rightarrow> bytes list \<Rightarrow> bool \<Rightarrow> nat \<Rightarrow> ('w, 'e, (bytes \<times> bytes list) option) action" where
  "list_multi_pop db [] left count = return None"
| "list_multi_pop db (key # keys) left count =
     and_then (list_pop_many db key left count) (\<lambda>vals.
       if vals \<noteq> [] then return (Some (key, vals)) else list_multi_pop db keys left count)"

fun list_blocking_pop_once :: "('w, 'e) db \<Rightarrow> bytes list \<Rightarrow> bool \<Rightarrow> ('w, 'e, (bytes \<times> bytes) option) action" where
  "list_blocking_pop_once db [] left = return None"
| "list_blocking_pop_once db (key # keys) left =
     and_then (if left then list_pop_left db key else list_pop_right db key) (\<lambda>val.
       case val of Some v \<Rightarrow> return (Some (key, v)) | None \<Rightarrow> list_blocking_pop_once db keys left)"

section \<open>Reading\<close>

definition list_len :: "('w, 'e) db \<Rightarrow> bytes \<Rightarrow> ('w, 'e, nat) action" where
  "list_len db key =
     and_then (list_meta_of db key) (\<lambda>found.
       return (case found of Some meta \<Rightarrow> nat (lm_tail meta - lm_head meta) | None \<Rightarrow> 0))"

text \<open>
  A range of positions in byte order of the keys: the positions from zero up come before the negative
  ones, so a range across zero is two scans.
\<close>

definition append_list_range_raw_values ::
  "('w, 'e) db \<Rightarrow> bytes \<Rightarrow> u64 \<Rightarrow> int \<Rightarrow> int \<Rightarrow> nat \<Rightarrow> bytes list \<Rightarrow> ('w, 'e, bytes list) action"
where
  "append_list_range_raw_values db key version storage_start storage_end limit vals =
     (if storage_start > storage_end \<or> limit = 0 then return vals
      else (let lower_bound = list_item_key (db_no db) key version storage_start;
                scan = (\<lambda>upper_bound.
                  and_then (engine_call (scan_range_raw_limited (kv db) lower_bound upper_bound limit)) (\<lambda>entries.
                  return (vals @ map snd entries)))
            in if storage_end < -1 then scan (Some (list_item_key (db_no db) key version (storage_end + 1)))
               else if storage_end < 0 then scan (prefix_exclusive_upper_bound (list_item_prefix (db_no db) key version))
               else if storage_end = 2 ^ 63 - 1 then return vals
               else scan (Some (list_item_key (db_no db) key version (storage_end + 1)))))"

definition list_range_raw_values :: "('w, 'e) db \<Rightarrow> bytes \<Rightarrow> u64 \<Rightarrow> int \<Rightarrow> int \<Rightarrow> ('w, 'e, bytes list) action" where
  "list_range_raw_values db key version storage_start storage_end =
     (if version = 0
      then and_then (db_get db (mk_key db key)) (\<lambda>raw.
        (let items = (case raw of None \<Rightarrow> [] | Some r \<Rightarrow> (case decode_packed_list r of None \<Rightarrow> [] | Some l \<Rightarrow> l));
             start = nat (max storage_start 0);
             stop = min (nat (max storage_end (- 1) + 1)) (length items)
         in return (if start \<le> stop then drop start (take stop items) else [])))
      else (let len = nat (storage_end - storage_start + 1)
            in and_then
                 (if storage_start < 0
                  then append_list_range_raw_values db key version storage_start (min storage_end (- 1)) len []
                  else return []) (\<lambda>vals.
               if storage_end \<ge> 0
               then append_list_range_raw_values db key version (max storage_start 0) storage_end (len - length vals) vals
               else return vals)))"

definition list_index :: "('w, 'e) db \<Rightarrow> bytes \<Rightarrow> int \<Rightarrow> ('w, 'e, bytes option) action" where
  "list_index db key index =
     and_then (list_meta_of db key) (\<lambda>found.
       case found of
         None \<Rightarrow> return None
       | Some meta \<Rightarrow>
           (case resolve_list_index meta index of
              None \<Rightarrow> return None
            | Some storage_index \<Rightarrow>
                if lm_version meta = 0
                then and_then (list_range_raw_values db key (lm_version meta) storage_index storage_index) (\<lambda>vals.
                  return (case vals of [] \<Rightarrow> None | v # _ \<Rightarrow> utf8_text v))
                else and_then (db_get db (list_item_key (db_no db) key (lm_version meta) storage_index)) (\<lambda>raw.
                  return (case raw of None \<Rightarrow> None | Some v \<Rightarrow> utf8_text v))))"

text \<open>LRANGE as bytes (\<^verbatim>\<open>list_range_bytes_async\<close>) and as text.\<close>

definition list_range_bytes :: "('w, 'e) db \<Rightarrow> bytes \<Rightarrow> int \<Rightarrow> int \<Rightarrow> ('w, 'e, bytes list) action" where
  "list_range_bytes db key start stop =
     and_then (list_meta_of db key) (\<lambda>found.
       case found of
         None \<Rightarrow> return []
       | Some meta \<Rightarrow>
           (case resolve_list_range meta start stop of
              None \<Rightarrow> return []
            | Some (storage_start, storage_end) \<Rightarrow>
                list_range_raw_values db key (lm_version meta) storage_start storage_end))"

definition list_range :: "('w, 'e) db \<Rightarrow> bytes \<Rightarrow> int \<Rightarrow> int \<Rightarrow> ('w, 'e, bytes list) action" where
  "list_range db key start stop =
     and_then (list_range_bytes db key start stop) (\<lambda>vals.
       if list_all utf8_valid vals then return vals else fail Not_utf8)"

definition matches_lpos_count :: "nat option \<Rightarrow> nat \<Rightarrow> bool" where
  "matches_lpos_count count matched =
     (case count of Some limit \<Rightarrow> if limit = 0 then False else matched \<ge> limit | None \<Rightarrow> True)"

text \<open>LPOS over the positions in scan order; \<open>seen\<close> counts the matches, up for a positive and down for a
  negative rank.\<close>

fun lpos_loop :: "bytes \<Rightarrow> int \<Rightarrow> nat option \<Rightarrow> (nat \<times> bytes) list \<Rightarrow> int \<Rightarrow> nat list \<Rightarrow> nat list" where
  "lpos_loop element rank count [] seen matched = matched"
| "lpos_loop element rank count ((idx, val) # items) seen matched =
     (if val = element
      then (let seen = (if rank > 0 then seen + 1 else seen - 1)
            in if (if rank > 0 then seen \<ge> rank else seen \<le> rank)
               then (if matches_lpos_count count (length matched + 1) then matched @ [idx]
                     else lpos_loop element rank count items seen (matched @ [idx]))
               else lpos_loop element rank count items seen matched)
      else lpos_loop element rank count items seen matched)"

definition list_lpos ::
  "('w, 'e) db \<Rightarrow> bytes \<Rightarrow> bytes \<Rightarrow> int \<Rightarrow> nat option \<Rightarrow> nat option \<Rightarrow> ('w, 'e, nat list) action"
where
  "list_lpos db key element rank count maxlen =
     and_then (list_range db key 0 (- 1)) (\<lambda>items.
       if items = [] \<or> maxlen = Some 0 then return []
       else (let order = (if rank > 0 then List.enumerate 0 items else rev (List.enumerate 0 items));
                 scanned = (case maxlen of None \<Rightarrow> order | Some limit \<Rightarrow> take limit order)
             in return (lpos_loop element rank count scanned 0 [])))"

end
