(* ===== verification/List_Update.thy ===== *)
theory List_Update
  imports List_Store
begin

text \<open>
  Changing lists in the middle: LSET, LTRIM, LREM (\<^verbatim>\<open>src/store/db/list_update_trim_remove.rs\<close>), LINSERT and
  LMOVE (\<^verbatim>\<open>list_move_insert_ops.rs\<close>). A packed list is first promoted to the split layout.
\<close>

definition list_set_value :: "('w, 'e) db \<Rightarrow> bytes \<Rightarrow> int \<Rightarrow> bytes \<Rightarrow> ('w, 'e, unit) action" where
  "list_set_value db key index val =
     and_then (promote_packed_list db key) (\<lambda>_.
     and_then (list_meta_of db key) (\<lambda>found.
       case found of
         None \<Rightarrow> fail No_such_key
       | Some meta \<Rightarrow>
           (case resolve_list_index meta index of
              None \<Rightarrow> fail Index_out_of_range
            | Some storage_index \<Rightarrow>
                and_then (write_batch_if_not_empty db
                    [(Put, list_item_key (db_no db) key (lm_version meta) storage_index, val)])
                  (\<lambda>_. fetch_add_changes 1))))"

definition trim_batch :: "('w, 'e) db \<Rightarrow> bytes \<Rightarrow> list_meta \<Rightarrow> (int \<times> int) option \<Rightarrow> batch_op list option" where
  "trim_batch db key meta kept =
     (let delete = (\<lambda>batch. delete_list_storage_range_to_batch batch (db_no db) key (lm_version meta))
      in case kept of
           None \<Rightarrow>
             map_option (\<lambda>batch. delete_main_key_with_ttl_to_batch db batch key (lm_expire_ms meta))
               (delete [] (lm_head meta) (lm_tail meta))
         | Some (storage_start, storage_end) \<Rightarrow>
             (case delete [] (lm_head meta) storage_start of
                None \<Rightarrow> None
              | Some batch \<Rightarrow>
                  map_option (\<lambda>batch. batch @
                      [meta_put db key (meta\<lparr>lm_head := storage_start, lm_tail := storage_end + 1\<rparr>)])
                    (delete batch (storage_end + 1) (lm_tail meta))))"

definition list_trim :: "('w, 'e) db \<Rightarrow> bytes \<Rightarrow> int \<Rightarrow> int \<Rightarrow> ('w, 'e, unit) action" where
  "list_trim db key start stop =
     and_then (promote_packed_list db key) (\<lambda>_.
     and_then (list_meta_of db key) (\<lambda>found.
       case found of
         None \<Rightarrow> return ()
       | Some meta \<Rightarrow>
           and_then (expect (trim_batch db key meta (resolve_list_range meta start stop))) (\<lambda>batch.
           and_then (write_batch_if_not_empty db batch) (\<lambda>_.
           if batch \<noteq> [] then fetch_add_changes 1 else return ()))))"

section \<open>LREM\<close>

text \<open>The loop that marks the matches, over the items in scan order.\<close>

fun mark_removed :: "bytes \<Rightarrow> nat \<Rightarrow> bytes list \<Rightarrow> nat \<Rightarrow> bool list" where
  "mark_removed target limit [] removed = []"
| "mark_removed target limit (item # items) removed =
     (if removed = limit then replicate (Suc (length items)) False
      else if item = target then True # mark_removed target limit items (removed + 1)
      else False # mark_removed target limit items removed)"

definition removed_positions :: "int \<Rightarrow> bytes \<Rightarrow> bytes list \<Rightarrow> bool list" where
  "removed_positions count target items =
     (let limit = (if count = 0 then usize_max else nat \<bar>count\<bar>)
      in if count \<ge> 0 then mark_removed target limit items 0
         else rev (mark_removed target limit (rev items) 0))"

text \<open>The survivors that move, to the left from the head on, or to the right from the tail on.\<close>

fun compact_left ::
  "(int \<Rightarrow> bytes) \<Rightarrow> (bool \<times> bytes) list \<Rightarrow> int \<Rightarrow> int \<Rightarrow> batch_op list \<Rightarrow> batch_op list \<times> int"
where
  "compact_left item_key [] source destination batch = (batch, destination)"
| "compact_left item_key ((gone, item) # items) source destination batch =
     (if gone then compact_left item_key items (source + 1) destination batch
      else compact_left item_key items (source + 1) (destination + 1)
        (if source \<noteq> destination then batch @ [(Put, item_key destination, item)] else batch))"

fun compact_right ::
  "(int \<Rightarrow> bytes) \<Rightarrow> (bool \<times> bytes) list \<Rightarrow> int \<Rightarrow> int \<Rightarrow> batch_op list \<Rightarrow> batch_op list"
where
  "compact_right item_key [] source destination batch = batch"
| "compact_right item_key ((gone, item) # items) source destination batch =
     (if gone then compact_right item_key items (source - 1) destination batch
      else compact_right item_key items (source - 1) (destination - 1)
        (if source \<noteq> destination - 1 then batch @ [(Put, item_key (destination - 1), item)] else batch))"

definition build_list_remove_batch ::
  "('w, 'e) db \<Rightarrow> bytes \<Rightarrow> list_meta \<Rightarrow> bytes list \<Rightarrow> int \<Rightarrow> bytes \<Rightarrow> (nat \<times> batch_op list \<times> list_meta option) option"
where
  "build_list_remove_batch db key meta items count element =
     (let marks = removed_positions count element items;
          removed = length (filter id marks);
          item_key = list_item_key (db_no db) key (lm_version meta);
          delete = (\<lambda>batch. delete_list_storage_range_to_batch batch (db_no db) key (lm_version meta))
      in if removed = 0 then Some (0, [], Some meta)
         else if removed = length items
         then map_option (\<lambda>batch. (removed, delete_main_key_with_ttl_to_batch db batch key (lm_expire_ms meta), None))
                (delete [] (lm_head meta) (lm_tail meta))
         else (let left_moves = length (filter Not (dropWhile Not marks));
                   right_moves = length (filter Not (dropWhile Not (rev marks)))
               in if left_moves \<le> right_moves
                  then (let (batch, destination) = compact_left item_key (zip marks items) (lm_head meta) (lm_head meta) [];
                            updated = meta\<lparr>lm_tail := destination\<rparr>
                        in map_option (\<lambda>batch. (removed, batch @ [meta_put db key updated], Some updated))
                             (delete batch (lm_tail updated) (lm_tail meta)))
                  else (let updated = meta\<lparr>lm_head := lm_tail meta - int (length items - removed)\<rparr>;
                            batch = compact_right item_key (rev (zip marks items))
                              (lm_head meta + int (length items) - 1) (lm_tail meta) []
                        in map_option (\<lambda>batch. (removed, batch @ [meta_put db key updated], Some updated))
                             (delete batch (lm_head meta) (lm_head updated)))))"

definition list_remove :: "('w, 'e) db \<Rightarrow> bytes \<Rightarrow> int \<Rightarrow> bytes \<Rightarrow> ('w, 'e, nat) action" where
  "list_remove db key count element =
     and_then (promote_packed_list db key) (\<lambda>_.
     and_then (list_meta_of db key) (\<lambda>found.
       case found of
         None \<Rightarrow> return 0
       | Some meta \<Rightarrow>
           and_then (list_range_raw_values db key (lm_version meta) (lm_head meta) (lm_tail meta - 1)) (\<lambda>items.
           and_then (expect (build_list_remove_batch db key meta items count element)) (\<lambda>(removed, batch, updated).
           if removed = 0 then return 0
           else and_then (write_batch_if_not_empty db batch) (\<lambda>_.
                and_then (modify (case updated of
                    Some m \<Rightarrow> cache_list_meta_if_non_transactional db key m
                  | None \<Rightarrow> remove_list_meta_cache_if_non_transactional db key)) (\<lambda>_.
                and_then (fetch_add_changes 1) (\<lambda>_. return removed)))))))"

section \<open>LINSERT\<close>

definition build_list_insert_batch ::
  "('w, 'e) db \<Rightarrow> bytes \<Rightarrow> list_meta \<Rightarrow> bytes list \<Rightarrow> nat \<Rightarrow> bytes \<Rightarrow> (batch_op list \<times> list_meta) option"
where
  "build_list_insert_batch db key meta items insert_index element =
     (let can_grow_left = lm_head meta > - (2 ^ 63);
          can_grow_right = lm_tail meta < 2 ^ 63 - 1;
          prefix_len = insert_index;
          suffix_len = length items - insert_index;
          grow_left = (can_grow_left \<and> (\<not> can_grow_right \<or> prefix_len \<le> suffix_len));
          item_key = list_item_key (db_no db) key (lm_version meta)
      in if \<not> can_grow_left \<and> \<not> can_grow_right then None
         else (let (batch, updated) =
                 (if grow_left
                  then (item_puts (db_no db) key (lm_version meta) (lm_head meta - 1) (take insert_index items) @
                          [(Put, item_key (lm_head meta + int insert_index - 1), element)],
                        meta\<lparr>lm_head := lm_head meta - 1\<rparr>)
                  else (item_puts (db_no db) key (lm_version meta) (lm_head meta + int insert_index + 1)
                            (drop insert_index items) @
                          [(Put, item_key (lm_head meta + int insert_index), element)],
                        meta\<lparr>lm_tail := lm_tail meta + 1\<rparr>))
               in Some (batch @ [meta_put db key updated], updated)))"

definition list_insert :: "('w, 'e) db \<Rightarrow> bytes \<Rightarrow> bool \<Rightarrow> bytes \<Rightarrow> bytes \<Rightarrow> ('w, 'e, int) action" where
  "list_insert db key before pivot element =
     and_then (promote_packed_list db key) (\<lambda>_.
     and_then (list_meta_of db key) (\<lambda>found.
       case found of
         None \<Rightarrow> return 0
       | Some meta \<Rightarrow>
           and_then (list_range_raw_values db key (lm_version meta) (lm_head meta) (lm_tail meta - 1)) (\<lambda>items.
             case iter_position (\<lambda>v. v = pivot) items of
               None \<Rightarrow> return (- 1)
             | Some pivot_index \<Rightarrow>
                 (case build_list_insert_batch db key meta items
                         (if before then pivot_index else pivot_index + 1) element of
                    None \<Rightarrow> fail Index_space_exhausted
                  | Some (batch, updated) \<Rightarrow>
                      and_then (write_batch_if_not_empty db batch) (\<lambda>_.
                      and_then (modify (cache_list_meta_if_non_transactional db key updated)) (\<lambda>_.
                      and_then (fetch_add_changes 1) (\<lambda>_.
                      return (lm_tail updated - lm_head updated))))))))"

section \<open>LMOVE\<close>

definition list_move_write ::
  "('w, 'e) db \<Rightarrow> bytes \<Rightarrow> bytes \<Rightarrow> bool \<Rightarrow> bool \<Rightarrow> list_meta \<Rightarrow> list_meta \<Rightarrow> bytes \<Rightarrow> ('w, 'e, unit) action"
where
  "list_move_write db source destination source_left destination_left source_meta destination_meta val =
     (let source_index = (if source_left then lm_head source_meta else lm_tail source_meta - 1);
          delete_item = [(Delete, list_item_key (db_no db) source (lm_version source_meta) source_index, [])];
          left_behind = (if source_left then source_meta\<lparr>lm_head := lm_head source_meta + 1\<rparr>
                         else source_meta\<lparr>lm_tail := lm_tail source_meta - 1\<rparr>);
          batch = (if source = destination then delete_item
                   else remaining_meta_ops db source left_behind delete_item);
          target = (if source = destination then left_behind else destination_meta);
          updated = (if destination_left then target\<lparr>lm_head := lm_head target - 1\<rparr>
                     else target\<lparr>lm_tail := lm_tail target + 1\<rparr>);
          destination_index = (if destination_left then lm_head updated else lm_tail target)
      in and_then (write_batch_if_not_empty db (batch @
             [(Put, list_item_key (db_no db) destination (lm_version target) destination_index, val),
              meta_put db destination updated])) (\<lambda>_.
         and_then (if source \<noteq> destination then modify (remaining_meta_cache db source left_behind) else return ()) (\<lambda>_.
         and_then (modify (cache_list_meta_if_non_transactional db destination updated)) (\<lambda>_.
         fetch_add_changes 1))))"

definition list_move :: "('w, 'e) db \<Rightarrow> bytes \<Rightarrow> bytes \<Rightarrow> bool \<Rightarrow> bool \<Rightarrow> ('w, 'e, bytes option) action" where
  "list_move db source destination source_left destination_left =
     and_then (promote_packed_list db source) (\<lambda>_.
     and_then (if source \<noteq> destination then promote_packed_list db destination else return ()) (\<lambda>_.
     and_then (list_meta_of db source) (\<lambda>found.
       case found of
         None \<Rightarrow> return None
       | Some source_meta \<Rightarrow>
           if lm_head source_meta \<ge> lm_tail source_meta then return None
           else and_then
             (if source = destination then return source_meta
              else and_then (list_meta_of db destination) (\<lambda>found_destination.
                   and_then (next_version db) (\<lambda>version.
                   return (case found_destination of
                       Some m \<Rightarrow> m
                     | None \<Rightarrow> \<lparr>lm_expire_ms = 0, lm_version = version, lm_head = 0, lm_tail = 0\<rparr>))))
             (\<lambda>destination_meta.
               and_then (db_get db (list_item_key (db_no db) source (lm_version source_meta)
                   (if source_left then lm_head source_meta else lm_tail source_meta - 1))) (\<lambda>raw.
               case raw of
                 None \<Rightarrow> return None
               | Some val \<Rightarrow>
                   if \<not> utf8_valid val then fail Not_utf8
                   else and_then (list_move_write db source destination source_left destination_left
                            source_meta destination_meta val) (\<lambda>_. return (Some val)))))))"

end
