(* ===== verification/List_Refine.thy ===== *)
theory List_Refine
  imports Db_Contract List_Update
begin

text \<open>
  Lists as the client sees them. \<open>list_at\<close> says that the store holds the list \<open>xs\<close> with a deadline under a
  key, whatever the layout: absent, packed in one value, or split into metadata and one record per element.
  The lemmas show that promotion and the metadata read keep it, and how batches of item records change it.
\<close>

section \<open>Abstraction\<close>

definition items_at :: "(bytes \<rightharpoonup> bytes) \<Rightarrow> u16 \<Rightarrow> bytes \<Rightarrow> u64 \<Rightarrow> int \<Rightarrow> bytes list \<Rightarrow> bool" where
  "items_at m d key version head xs \<longleftrightarrow>
     (\<forall>j < length xs. m (list_item_key d key version (head + int j)) = Some (xs ! j))"

text \<open>\<open>n\<close> bounds the positions that the list uses on both sides of zero.\<close>

definition split_at ::
  "(bytes \<rightharpoonup> bytes) \<Rightarrow> u16 \<Rightarrow> bytes \<Rightarrow> nat \<Rightarrow> list_meta \<Rightarrow> bytes list \<Rightarrow> bool"
where
  "split_at m d key n meta xs \<longleftrightarrow> xs \<noteq> [] \<and> lm_version meta \<noteq> 0 \<and>
     - int n \<le> lm_head meta \<and> lm_tail meta \<le> int n \<and> lm_tail meta - lm_head meta = int (length xs) \<and>
     m key = Some (encode_list_meta (lm_expire_ms meta) (lm_version meta) (lm_head meta) (lm_tail meta)) \<and>
     items_at m d key (lm_version meta) (lm_head meta) xs"

definition packed_at :: "(bytes \<rightharpoonup> bytes) \<Rightarrow> bytes \<Rightarrow> u64 \<Rightarrow> bytes list \<Rightarrow> bool" where
  "packed_at m key e xs \<longleftrightarrow> xs \<noteq> [] \<and> (\<exists>raw. encode_packed_list e xs = Some raw \<and> m key = Some raw)"

definition list_at :: "(bytes \<rightharpoonup> bytes) \<Rightarrow> u16 \<Rightarrow> bytes \<Rightarrow> u64 \<Rightarrow> nat \<Rightarrow> bytes list \<Rightarrow> bool" where
  "list_at m d key e n xs \<longleftrightarrow>
     (if xs = [] then m key = None \<and> e = 0
      else packed_at m key e xs \<and> length xs \<le> n \<or> (\<exists>meta. split_at m d key n meta xs \<and> lm_expire_ms meta = e))"

definition max_positions :: nat where "max_positions = 2 ^ 56"

text \<open>Under the prefix of a list there are only keys of positions.\<close>

definition items_clean :: "u16 \<Rightarrow> (bytes \<rightharpoonup> bytes) \<Rightarrow> bool" where
  "items_clean d m \<longleftrightarrow> (\<forall>key v x. valid_owner key \<and> starts_with x (list_item_prefix d key v) \<and> m x \<noteq> None \<longrightarrow>
     (\<exists>i. i64_range i \<and> x = list_item_key d key v i))"

text \<open>A change that stays within the records of one list.\<close>

definition list_frame :: "u16 \<Rightarrow> bytes \<Rightarrow> (bytes \<rightharpoonup> bytes) \<Rightarrow> (bytes \<rightharpoonup> bytes) \<Rightarrow> bool" where
  "list_frame d key m m' \<longleftrightarrow> (\<forall>x. x \<noteq> key \<and> (\<forall>v. \<not> starts_with x (list_item_prefix d key v)) \<and>
     \<not> starts_with x (version_owner_prefix d) \<and> \<not> starts_with x TTL_INDEX_PREFIX \<longrightarrow> m' x = m x) \<and>
     (items_clean d m \<longrightarrow> items_clean d m')"

section \<open>Keys apart\<close>

lemma item_key_starts: "starts_with (list_item_key d key v i) (list_item_prefix d key v)"
  by (simp add: list_item_key_def starts_with_iff)

lemma item_prefix_shape:
  "\<exists>r. list_item_prefix d key v = TABLE_LOCAL_INTERNAL_PREFIX @ LIST_ITEM_NAMESPACE @ r"
  unfolding list_item_prefix_def by (subst append_owner_split) (simp add: CURRENT_def)

lemma internal_apart:
  assumes "utf8_valid k"
  shows "\<not> starts_with k (list_item_prefix d key v)" "\<not> starts_with k (version_owner_prefix d)"
    "\<not> starts_with k TTL_INDEX_PREFIX"
proof -
  show "\<not> starts_with k (list_item_prefix d key v)"
    using item_prefix_shape [of d key v] utf8_not_internal [OF assms] by metis
  show "\<not> starts_with k (version_owner_prefix d)"
    using utf8_not_internal [OF assms] by (simp add: version_owner_prefix_def CURRENT_def)
  show "\<not> starts_with k TTL_INDEX_PREFIX"
    using utf8_valid_no_FF [OF assms] by (auto simp: starts_with_iff TTL_INDEX_PREFIX_def)
qed

lemma item_key_apart:
  "\<not> starts_with (list_item_key d key v i) (version_owner_prefix d')"
  "\<not> starts_with (list_item_key d key v i) TTL_INDEX_PREFIX"
proof -
  obtain r where r: "list_item_key d key v i = TABLE_LOCAL_INTERNAL_PREFIX @ LIST_ITEM_NAMESPACE @ r"
    using item_prefix_shape [of d key v] by (auto simp: list_item_key_def)
  show "\<not> starts_with (list_item_key d key v i) (version_owner_prefix d')"
    by (simp add: r starts_with_iff version_owner_prefix_def CURRENT_def namespace_defs)
  show "\<not> starts_with (list_item_key d key v i) TTL_INDEX_PREFIX"
    by (simp add: r starts_with_iff TTL_INDEX_PREFIX_def TABLE_LOCAL_INTERNAL_PREFIX_def)
qed

lemma item_key_not_main: "utf8_valid k \<Longrightarrow> list_item_key d key v i \<noteq> k"
  using internal_apart(1) item_key_starts by metis

lemma item_key_inject:
  assumes "i64_range i" "i64_range j"
  shows "list_item_key d key v i = list_item_key d key v j \<longleftrightarrow> i = j"
proof
  assume eq: "list_item_key d key v i = list_item_key d key v j"
  have "\<not> list_item_key d key v i < list_item_key d key v j" "\<not> list_item_key d key v j < list_item_key d key v i"
    using eq by simp_all
  then show "i = j" using list_item_order [OF assms] list_item_order [OF assms(2,1)] by (auto split: if_splits)
qed simp

lemma item_key_other_list:
  assumes "valid_owner key" "valid_owner key'" "key \<noteq> key'"
  shows "\<not> starts_with (list_item_key d key v i) (list_item_prefix d key' v')"
  using sub_keys_disjoint [OF assms(1,2), of LIST_ITEM_NAMESPACE LIST_ITEM_NAMESPACE] item_key_starts assms(3)
  unfolding collection_prefixes by metis

lemma list_frame_refl [simp]: "list_frame d key m m"
  by (simp add: list_frame_def)

lemma list_frame_trans: "list_frame d key m m' \<Longrightarrow> list_frame d key m' m'' \<Longrightarrow> list_frame d key m m''"
  by (simp add: list_frame_def)

lemma list_frame_other:
  assumes "list_frame d key m m'" "valid_owner key" "valid_owner key'" "key' \<noteq> key"
  shows "list_at m' d key' e n xs = list_at m d key' e n xs"
proof -
  have u: "utf8_valid key'" using assms(3) by (simp add: valid_owner_def)
  have "m' key' = m key'" using assms(1,4) internal_apart [OF u] by (simp add: list_frame_def)
  moreover have "m' (list_item_key d key' v i) = m (list_item_key d key' v i)" for v i
  proof -
    have "list_item_key d key' v i \<noteq> key"
      using item_key_not_main assms(2) by (simp add: valid_owner_def)
    then show ?thesis
      using assms(1) item_key_apart item_key_other_list [OF assms(3,2,4)] by (simp add: list_frame_def)
  qed
  ultimately show ?thesis by (simp add: list_at_def packed_at_def split_at_def items_at_def)
qed

section \<open>Reading the layouts\<close>

lemma pos_range: "- int n \<le> i \<Longrightarrow> i \<le> int n \<Longrightarrow> n \<le> max_positions \<Longrightarrow> i64_range i"
  by (simp add: i64_range_def max_positions_def)

lemma packed_at_decode:
  assumes "packed_at m key e xs" "plausible_expiry e"
  obtains raw where "m key = Some raw" "decode_packed_list raw = Some xs"
    "decode_meta_header raw = Some \<lparr>mh_expire_ms = e, mh_version = 0, mh_type_tag = TYPE_LIST\<rparr>"
    "decode_list_meta raw = Some \<lparr>lm_expire_ms = e, lm_version = 0, lm_head = 0, lm_tail = int (length xs)\<rparr>"
proof -
  obtain raw where raw: "encode_packed_list e xs = Some raw" "m key = Some raw"
    using assms(1) by (auto simp: packed_at_def)
  have d: "decode_packed_list raw = Some xs" "slice_of raw 0 8 = be64 e"
    using packed_list_roundtrip [OF raw(1)] by blast+
  have "decode_meta_header raw = Some \<lparr>mh_expire_ms = e, mh_version = 0, mh_type_tag = TYPE_LIST\<rparr>"
    using packed_list_bytes [OF raw(1)] regular_header [OF assms(2)] by metis
  moreover have "decode_list_meta raw = Some \<lparr>lm_expire_ms = e, lm_version = 0, lm_head = 0, lm_tail = int (length xs)\<rparr>"
    using d by (simp add: decode_list_meta_def)
  ultimately show ?thesis using that raw(2) d(1) by blast
qed

lemma split_at_decode:
  assumes "split_at m d key n meta xs" "n < max_positions"
  obtains raw where "m key = Some raw" "decode_packed_list raw = None" "decode_list_meta raw = Some meta"
    "decode_meta_header raw = Some \<lparr>mh_expire_ms = lm_expire_ms meta, mh_version = lm_version meta, mh_type_tag = TYPE_LIST\<rparr>"
proof -
  let ?raw = "encode_list_meta (lm_expire_ms meta) (lm_version meta) (lm_head meta) (lm_tail meta)"
  have s: "- int n \<le> lm_head meta" "lm_tail meta \<le> int n" "lm_tail meta - lm_head meta = int (length xs)"
    "lm_version meta \<noteq> 0" "m key = Some ?raw"
    using assms(1) by (auto simp: split_at_def)
  have r: "i64_range (lm_head meta)" "i64_range (lm_tail meta)" "\<bar>lm_head meta\<bar> < 2 ^ 56"
    using s assms(2) by (auto simp: i64_range_def max_positions_def)
  note rt = list_meta_roundtrip [OF r, of "lm_expire_ms meta" "lm_version meta"]
  have "decode_packed_list ?raw = None"
  proof (cases "decode_packed_list ?raw")
    case (Some l)
    then have "\<exists>meta'. decode_list_meta ?raw = Some meta' \<and> lm_version meta' = 0" by (simp add: decode_list_meta_def)
    then show ?thesis using rt s(4) by auto
  qed
  then show ?thesis using that [OF s(5)] rt by simp
qed

text \<open>The deadline does not pass while the command runs.\<close>

definition alive :: "('w, 'e) db \<Rightarrow> u64 \<Rightarrow> bool" where
  "alive db e \<longleftrightarrow> plausible_expiry e \<and> (e = 0 \<or> (\<forall>w. clock_ms (kv db) w < e))"

lemma list_at_header:
  assumes "list_at m d key e n xs" "alive db e" "n < max_positions"
  shows "(m key = None \<and> xs = []) \<or>
    (\<exists>raw v. m key = Some raw \<and> xs \<noteq> [] \<and>
      decode_meta_header raw = Some \<lparr>mh_expire_ms = e, mh_version = v, mh_type_tag = TYPE_LIST\<rparr>)"
proof (cases "xs = []")
  case False
  have "plausible_expiry e" using assms(2) by (simp add: alive_def)
  then show ?thesis
    using assms(1,3) False packed_at_decode split_at_decode unfolding list_at_def by metis
qed (use assms(1) in \<open>simp add: list_at_def\<close>)

lemma expire_noop:
  assumes "serves db view" "list_at (view (engine s)) d key e n xs" "alive db e" "n < max_positions"
  shows "expire_if_needed db key s = (Inr (), s)"
proof -
  have c: "engine_contract (kv db) view" using assms(1) by (simp add: serves_def)
  have "expire_round db key s = (Inr (Some ()), s)"
    using list_at_header [OF assms(2-4)] assms(3)
    by (auto simp: expire_round_def action_simps db_get_run [OF c] mk_key_eq [OF assms(1)] alive_def)
  then show ?thesis
    by (simp add: expire_if_needed_def and_then_Inr [OF rounds_done] return_apply)
qed

section \<open>Item records\<close>

lemma items_at_Nil [simp]: "items_at m d key v head []"
  by (simp add: items_at_def)

lemma items_at_nth: "items_at m d key v head xs \<Longrightarrow> j < length xs \<Longrightarrow> m (list_item_key d key v (head + int j)) = Some (xs ! j)"
  by (simp add: items_at_def)

lemma items_at_Cons:
  "items_at m d key v head (x # xs) \<longleftrightarrow>
     m (list_item_key d key v head) = Some x \<and> items_at m d key v (head + 1) xs"
  by (auto simp: items_at_def less_Suc_eq_0_disj algebra_simps)

lemma items_at_append:
  "items_at m d key v head (xs @ ys) \<longleftrightarrow>
     items_at m d key v head xs \<and> items_at m d key v (head + int (length xs)) ys"
  by (induction xs arbitrary: head) (simp_all add: items_at_Cons algebra_simps)

lemma items_at_cong:
  assumes "\<And>j. j < length xs \<Longrightarrow> m' (list_item_key d key v (head + int j)) = m (list_item_key d key v (head + int j))"
  shows "items_at m' d key v head xs = items_at m d key v head xs"
  using assms by (simp add: items_at_def)

lemma items_at_update_other:
  assumes "i < head \<or> head + int (length xs) \<le> i" "i64_range i" "i64_range head" "i64_range (head + int (length xs))"
  shows "items_at (m(list_item_key d key v i := y)) d key v head xs = items_at m d key v head xs"
proof (rule items_at_cong)
  fix j assume j: "j < length xs"
  then have "i64_range (head + int j)" "head + int j \<noteq> i" using assms by (auto simp: i64_range_def)
  then show "(m(list_item_key d key v i := y)) (list_item_key d key v (head + int j)) = m (list_item_key d key v (head + int j))"
    using item_key_inject assms(2) by simp
qed

lemma items_at_main_update:
  "utf8_valid k \<Longrightarrow> items_at (m(k := y)) d key v head xs = items_at m d key v head xs"
  by (rule items_at_cong) (simp add: item_key_not_main)

lemma item_puts_snoc:
  "item_puts d key v start (xs @ [x]) = item_puts d key v start xs @ [(Put, list_item_key d key v (start + int (length xs)), x)]"
  by (simp add: item_puts_def enumerate_append_eq)

lemma item_puts_apply:
  assumes "i64_range start" "i64_range (start + int (length xs))"
  shows "items_at (apply_batch (item_puts d key v start xs) m) d key v start xs"
    and "(\<And>j. start \<le> j \<Longrightarrow> j < start + int (length xs) \<Longrightarrow> x \<noteq> list_item_key d key v j) \<Longrightarrow>
      apply_batch (item_puts d key v start xs) m x = m x"
  using assms
proof (induction xs rule: rev_induct)
  case (snoc y xs)
  {
    case 1
    have r: "i64_range (start + int (length xs))" using 1 by (simp add: i64_range_def)
    then show ?case
      using snoc.IH(1) [OF 1(1) r] 1(1) items_at_update_other [of "start + int (length xs)" start xs]
      by (simp add: item_puts_snoc items_at_append items_at_Cons fun_upd_def [symmetric])
  next
    case 2
    have r: "i64_range (start + int (length xs))" using 2 by (simp add: i64_range_def)
    have "x \<noteq> list_item_key d key v (start + int (length xs))" using 2 by simp
    then show ?case using snoc.IH(2) [OF _ 2(2) r] 2(1) by (simp add: item_puts_snoc)
  }
qed (simp_all add: item_puts_def)

section \<open>Batches of one list\<close>

definition list_op :: "u16 \<Rightarrow> bytes \<Rightarrow> batch_op \<Rightarrow> bool" where
  "list_op d key op \<longleftrightarrow> (\<forall>x. op_touches op x \<longrightarrow>
     x = key \<or> (\<exists>v. starts_with x (list_item_prefix d key v)) \<or> starts_with x TTL_INDEX_PREFIX) \<and>
     (fst op = Delete \<or> fst op = RangeDelete \<or> fst (snd op) = key \<or> (\<exists>v i. fst (snd op) = list_item_key d key v i))"

lemma list_op_main: "wt \<noteq> RangeDelete \<Longrightarrow> list_op d key (wt, key, raw)"
  by (simp add: list_op_def)

lemma list_op_item: "wt \<noteq> RangeDelete \<Longrightarrow> list_op d key (wt, list_item_key d key v i, raw)"
  unfolding list_op_def using item_key_starts by (simp, blast)

lemma list_op_ttl: "list_op d key (Delete, ttl_index_key e d' key, raw)"
  by (auto simp: list_op_def ttl_index_key_def starts_with_iff)

lemma item_puts_ops: "list_all (list_op d key) (item_puts d key v start xs)" "list_all plain_op (item_puts d key v start xs)"
  by (auto simp: list_all_iff item_puts_def intro!: list_op_item)

lemmas list_op_intros = list_op_main list_op_item list_op_ttl

lemma apply_batch_written:
  assumes "apply_batch batch m x \<noteq> None" "m x = None"
  shows "\<exists>op \<in> set batch. fst op \<noteq> Delete \<and> fst op \<noteq> RangeDelete \<and> fst (snd op) = x"
  using assms
proof (induction batch rule: rev_induct)
  case (snoc op batch)
  show ?case
  proof (cases "apply_batch batch m x = None")
    case True
    then show ?thesis using snoc.prems by (cases op) (auto split: if_splits)
  next
    case False
    then show ?thesis using snoc.IH snoc.prems(2) by auto
  qed
qed simp

lemma item_key_in_range: "\<exists>i'. i64_range i' \<and> list_item_key d key v i = list_item_key d key v i'"
proof (intro exI conjI)
  show "i64_range (sint (word_of_int i :: u64))"
    using sint_greater_eq [of "word_of_int i :: u64"] sint_less [of "word_of_int i :: u64"] by (simp add: i64_range_def)
  show "list_item_key d key v i = list_item_key d key v (sint (word_of_int i :: u64))" by (simp add: list_item_key_def)
qed

lemma owner_key_not_item: "starts_with x (version_owner_prefix d) \<Longrightarrow> \<not> starts_with x (list_item_prefix d' key v)"
  using item_prefix_shape [of d' key v]
  by (auto simp: starts_with_iff version_owner_prefix_def CURRENT_def namespace_defs)

lemma committed_clean:
  assumes "committed db view batch s s'" "list_all (list_op (db_no db) key) batch" "valid_owner key"
    and "items_clean (db_no db) (view (engine s))"
  shows "items_clean (db_no db) (view (engine s'))"
  unfolding items_clean_def
proof (intro allI impI, elim conjE)
  fix key' v' x
  assume x: "valid_owner key'" "starts_with x (list_item_prefix (db_no db) key' v')" "view (engine s') x \<noteq> None"
  show "\<exists>i. i64_range i \<and> x = list_item_key (db_no db) key' v' i"
  proof (cases "view (engine s) x = None")
    case True
    have "\<not> starts_with x (version_owner_prefix (db_no db))" using x(2) owner_key_not_item by blast
    then have "apply_batch batch (view (engine s)) x \<noteq> None" using assms(1) x(3) by (simp add: committed_def)
    then obtain op where op: "op \<in> set batch" "fst op \<noteq> Delete" "fst op \<noteq> RangeDelete" "fst (snd op) = x"
      using apply_batch_written True by metis
    have "utf8_valid key" using assms(3) by (simp add: valid_owner_def)
    then have "x \<noteq> key" using internal_apart(1) x(2) by metis
    moreover have "list_op (db_no db) key op" using assms(2) op(1) by (simp add: list_all_iff)
    ultimately obtain v i where i: "x = list_item_key (db_no db) key v i" using op(2-4) unfolding list_op_def by metis
    have "starts_with x (list_item_prefix (db_no db) key v)" using item_key_starts i by simp
    then have "key = key' \<and> v = v'"
      using sub_keys_disjoint [OF assms(3) x(1) refl] x(2) unfolding collection_prefixes by metis
    then show ?thesis using item_key_in_range i by metis
  next
    case False
    then show ?thesis using assms(4) x unfolding items_clean_def by metis
  qed
qed

lemma committed_frame:
  assumes "committed db view batch s s'" "list_all (list_op (db_no db) key) batch" "valid_owner key"
  shows "list_frame (db_no db) key (view (engine s)) (view (engine s'))"
proof -
  have "apply_batch batch (view (engine s)) x = view (engine s) x"
    if "x \<noteq> key" "\<forall>v. \<not> starts_with x (list_item_prefix (db_no db) key v)" "\<not> starts_with x TTL_INDEX_PREFIX" for x
    using assms(2) that by (intro apply_batch_other) (auto simp: list_all_iff list_op_def)
  then show ?thesis using assms(1) committed_clean [OF assms] by (simp add: list_frame_def committed_def)
qed

lemma committed_at:
  assumes "committed db view batch s s'"
  shows "utf8_valid k \<Longrightarrow> view (engine s') k = apply_batch batch (view (engine s)) k"
    and "view (engine s') (list_item_key d key v i) = apply_batch batch (view (engine s)) (list_item_key d key v i)"
    and "items_at (view (engine s')) d key v head xs = items_at (apply_batch batch (view (engine s))) d key v head xs"
  using assms internal_apart(2) item_key_apart(1) by (auto simp: committed_def items_at_def)

lemma committed_cache: "committed db view batch s s' \<Longrightarrow> cache_ok db view s'"
  by (simp add: committed_def)

section \<open>Promotion and metadata\<close>

text \<open>The list after promotion: absent or split.\<close>

definition split_list :: "(bytes \<rightharpoonup> bytes) \<Rightarrow> u16 \<Rightarrow> bytes \<Rightarrow> u64 \<Rightarrow> nat \<Rightarrow> bytes list \<Rightarrow> bool" where
  "split_list m d key e n xs \<longleftrightarrow>
     (if xs = [] then m key = None \<and> e = 0 else \<exists>meta. split_at m d key n meta xs \<and> lm_expire_ms meta = e)"

lemma split_list_at: "split_list m d key e n xs \<Longrightarrow> list_at m d key e n xs"
  by (auto simp: split_list_def list_at_def)

lemma split_writes_apply:
  assumes "utf8_valid key" "length xs \<le> max_positions" "mk_key db key = key"
  shows "apply_batch (split_list_writes db key e v xs) m key = Some (encode_list_meta e v 0 (int (length xs)))"
    and "items_at (apply_batch (split_list_writes db key e v xs) m) (db_no db) key v 0 xs"
proof -
  let ?m1 = "m(key \<mapsto> encode_list_meta e v 0 (int (length xs)))"
  have eq: "apply_batch (split_list_writes db key e v xs) m = apply_batch (item_puts (db_no db) key v 0 xs) ?m1"
    using assms(3) by (simp add: split_list_writes_def apply_batch_def)
  have r: "i64_range 0" "i64_range (0 + int (length xs))" using assms(2) by (auto simp: i64_range_def max_positions_def)
  show "items_at (apply_batch (split_list_writes db key e v xs) m) (db_no db) key v 0 xs"
    unfolding eq by (rule item_puts_apply(1) [OF r])
  show "apply_batch (split_list_writes db key e v xs) m key = Some (encode_list_meta e v 0 (int (length xs)))"
  proof -
    have "apply_batch (item_puts (db_no db) key v 0 xs) ?m1 key = ?m1 key"
      by (rule item_puts_apply(2) [OF r]) (use item_key_not_main [OF assms(1)] in metis)
    then show ?thesis by (simp add: eq)
  qed
qed

lemma split_writes_ops:
  assumes "mk_key db key = key"
  shows "list_all (list_op (db_no db) key) (split_list_writes db key e v xs)"
    "list_all plain_op (split_list_writes db key e v xs)" "split_list_writes db key e v xs \<noteq> []"
  using assms item_puts_ops by (simp_all add: split_list_writes_def list_op_main)

lemma split_writes_committed:
  assumes "committed db view (split_list_writes db key e v xs) s s'" "utf8_valid key" "mk_key db key = key"
    and "xs \<noteq> []" "v \<noteq> 0" "length xs \<le> n" "n \<le> max_positions"
  shows "split_at (view (engine s')) (db_no db) key n
    \<lparr>lm_expire_ms = e, lm_version = v, lm_head = 0, lm_tail = int (length xs)\<rparr> xs"
  using assms split_writes_apply [OF assms(2) _ assms(3), of xs] committed_at [OF assms(1)]
  by (simp add: split_at_def)

lemma promote_run:
  assumes "serves db view" "cache_ok db view s" "valid_owner key" "versions_left db (Suc k) s"
    and "list_at (view (engine s)) (db_no db) key e n xs" "alive db e" "n < max_positions"
  obtains s' where "promote_packed_list db key s = (Inr (), s')" "cache_ok db view s'" "versions_left db k s'"
    "split_list (view (engine s')) (db_no db) key e n xs"
    "list_frame (db_no db) key (view (engine s)) (view (engine s'))"
proof -
  have c: "engine_contract (kv db) view" "key_layout db = CURRENT" and mk: "mk_key db key = key"
    using assms(1) mk_key_eq by (auto simp: serves_def)
  have u: "utf8_valid key" using assms(3) by (simp add: valid_owner_def)
  have pl: "plausible_expiry e" using assms(6) by (simp add: alive_def)
  have vl: "versions_left db k s" using versions_left_mono [OF assms(4)] by simp
  have "\<exists>s'. promote_round db key s = (Inr (Some ()), s') \<and> cache_ok db view s' \<and> versions_left db k s' \<and>
    split_list (view (engine s')) (db_no db) key e n xs \<and>
    list_frame (db_no db) key (view (engine s)) (view (engine s'))"
  proof (cases "xs = [] \<or> (\<exists>meta. split_at (view (engine s)) (db_no db) key n meta xs \<and> lm_expire_ms meta = e)")
    case True
    then have sl: "split_list (view (engine s)) (db_no db) key e n xs"
      using assms(5) by (auto simp: split_list_def list_at_def)
    have "promote_round db key s = (Inr (Some ()), s)"
    proof (cases "xs = []")
      case True
      then show ?thesis using assms(5) by (simp add: promote_round_def action_simps db_get_run [OF c(1)] mk list_at_def)
    next
      case False
      then obtain meta where "split_at (view (engine s)) (db_no db) key n meta xs" using True by blast
      then obtain raw where "view (engine s) key = Some raw" "decode_packed_list raw = None"
        using split_at_decode assms(7) by metis
      then show ?thesis by (simp add: promote_round_def action_simps db_get_run [OF c(1)] mk)
    qed
    then show ?thesis using assms(2) vl sl by auto
  next
    case False
    then have pk: "packed_at (view (engine s)) key e xs" "length xs \<le> n" "xs \<noteq> []"
      using assms(5) by (auto simp: list_at_def split: if_splits)
    obtain raw where raw: "view (engine s) key = Some raw" "decode_packed_list raw = Some xs"
      "decode_meta_header raw = Some \<lparr>mh_expire_ms = e, mh_version = 0, mh_type_tag = TYPE_LIST\<rparr>"
      using packed_at_decode [OF pk(1) pl] by metis
    obtain v where v: "next_version db s = (Inr v, s\<lparr>version_counter := v\<rparr>)" "v \<noteq> 0"
      "versions_left db k (s\<lparr>version_counter := v\<rparr>)"
      using next_version_run [OF assms(4)] by blast
    let ?s1 = "s\<lparr>version_counter := v\<rparr>" and ?b = "split_list_writes db key e v xs"
    obtain s' where s': "compare_and_write_batch_if_not_empty db [(key, Some raw)] ?b ?s1 = (Inr True, s')"
      "committed db view ?b ?s1 s'"
      using compare_and_write_run [OF c, of ?s1 ?b "[(key, Some raw)]"] assms(2) split_writes_ops [OF mk] raw(1) by auto
    have "promote_round db key s = (Inr (Some ()), s')"
      using raw v(1) s'(1) by (simp add: promote_round_def action_simps db_get_run [OF c(1)] mk)
    moreover have "split_list (view (engine s')) (db_no db) key e n xs"
      using split_writes_committed [OF s'(2) u mk pk(3) v(2) pk(2)] assms(7) pk(3)
      by (force simp: split_list_def)
    ultimately show ?thesis
      using committed_cache [OF s'(2)] versions_left_committed [OF s'(2)] v(3)
        committed_frame [OF s'(2) split_writes_ops(1) [OF mk] assms(3)] by auto
  qed
  then obtain s' where s': "promote_round db key s = (Inr (Some ()), s')" "cache_ok db view s'" "versions_left db k s'"
    "split_list (view (engine s')) (db_no db) key e n xs"
    "list_frame (db_no db) key (view (engine s)) (view (engine s'))" by blast
  have "rounds 64 (promote_round db key) s = (Inr (Some ()), s')"
    by (rule rounds_done) (simp_all add: s'(1))
  then have "promote_packed_list db key s = (Inr (), s')"
    by (simp add: promote_packed_list_def and_then_Inr return_apply)
  then show thesis using that s' by blast
qed

definition describes :: "(bytes \<rightharpoonup> bytes) \<Rightarrow> u16 \<Rightarrow> bytes \<Rightarrow> u64 \<Rightarrow> nat \<Rightarrow> bytes list \<Rightarrow> list_meta option \<Rightarrow> bool" where
  "describes m d key e n xs found \<longleftrightarrow>
     (case found of
        None \<Rightarrow> xs = [] \<and> m key = None \<and> e = 0
      | Some meta \<Rightarrow> xs \<noteq> [] \<and> lm_expire_ms meta = e \<and>
          (split_at m d key n meta xs \<or>
           packed_at m key e xs \<and> length xs \<le> n \<and> meta = \<lparr>lm_expire_ms = e, lm_version = 0, lm_head = 0, lm_tail = int (length xs)\<rparr>))"

lemma list_at_describes:
  assumes "list_at m d key e n xs" "alive db e" "n < max_positions" "xs \<noteq> []"
  obtains raw meta v where "m key = Some raw" "decode_list_meta raw = Some meta" "describes m d key e n xs (Some meta)"
    "decode_meta_header raw = Some \<lparr>mh_expire_ms = e, mh_version = v, mh_type_tag = TYPE_LIST\<rparr>"
proof (cases "\<exists>meta. split_at m d key n meta xs \<and> lm_expire_ms meta = e")
  case True
  then obtain meta where m: "split_at m d key n meta xs" "lm_expire_ms meta = e" by blast
  show thesis
    by (rule split_at_decode [OF m(1) assms(3)]) (rule that, use m assms(4) in \<open>auto simp: describes_def\<close>)
next
  case False
  then have pk: "packed_at m key e xs" "length xs \<le> n" using assms(1,4) by (auto simp: list_at_def)
  have "plausible_expiry e" using assms(2) by (simp add: alive_def)
  show thesis
    by (rule packed_at_decode [OF pk(1) \<open>plausible_expiry e\<close>]) (rule that, use pk assms(4) in \<open>auto simp: describes_def\<close>)
qed

lemma cache_ok_hit:
  assumes "cache_ok db view s" "\<not> is_transactional (kv db)" "list_meta_cache s k = Some meta"
  shows "\<exists>raw. view (engine s) k = Some raw \<and> (decode_list_meta raw = None \<or> decode_list_meta raw = Some meta)"
  using assms unfolding cache_ok_def by blast

lemma cached_list_meta_run:
  assumes "cache_ok db view s" "mk_key db key = key" "view (engine s) key = Some raw" "decode_list_meta raw = Some meta"
    and "lm_expire_ms meta = 0 \<or> clock_ms (kv db) (engine s) < lm_expire_ms meta"
  shows "cached_list_meta db key s = (Inr None, s) \<or> cached_list_meta db key s = (Inr (Some meta), s)"
proof (cases "is_transactional (kv db)")
  case False
  have "meta' = meta" if "list_meta_cache s key = Some meta'" for meta'
    using cache_ok_hit [OF assms(1) False that] assms(3,4) by auto
  then show ?thesis using assms(2,5) False by (auto simp: cached_list_meta_def split: option.split)
qed (simp add: cached_list_meta_def)

lemma cached_list_meta_absent:
  assumes "cache_ok db view s" "mk_key db key = key" "view (engine s) key = None"
  shows "cached_list_meta db key s = (Inr None, s)"
proof (cases "is_transactional (kv db)")
  case False
  then have "list_meta_cache s key = None" using cache_ok_hit [OF assms(1) False, of key] assms(3) by (cases "list_meta_cache s key") auto
  then show ?thesis using assms(2) False by (simp add: cached_list_meta_def)
qed (simp add: cached_list_meta_def)

lemma list_meta_of_rounds:
  assumes "cached_list_meta db key s = (Inr None, s)" "list_meta_round db key s = (Inr (Some found), s')"
  shows "list_meta_of db key s = (Inr found, s')"
proof -
  have "rounds 64 (list_meta_round db key) s = (Inr (Some found), s')"
    by (rule rounds_done) (simp_all add: assms(2))
  then show ?thesis using assms(1) by (simp add: list_meta_of_def action_simps)
qed

lemma meta_run:
  assumes "serves db view" "cache_ok db view s" "valid_owner key"
    and "list_at (view (engine s)) (db_no db) key e n xs" "alive db e" "n < max_positions"
  obtains s' found where "list_meta_of db key s = (Inr found, s')" "engine s' = engine s"
    "version_counter s' = version_counter s" "cache_ok db view s'"
    "describes (view (engine s)) (db_no db) key e n xs found"
proof -
  have c: "engine_contract (kv db) view" and mk: "mk_key db key = key"
    using assms(1) mk_key_eq by (auto simp: serves_def)
  have u: "utf8_valid key" using assms(3) by (simp add: valid_owner_def)
  show thesis
  proof (cases "xs = []")
    case True
    then have none: "view (engine s) key = None" "e = 0" using assms(4) by (simp_all add: list_at_def)
    have "list_meta_round db key s = (Inr (Some None), s)"
      by (simp add: list_meta_round_def action_simps db_get_run [OF c] mk none)
    then show thesis
      using that [OF list_meta_of_rounds [OF cached_list_meta_absent [OF assms(2) mk none(1)]]] assms(2) True none
      by (simp add: describes_def)
  next
    case False
    obtain raw meta v where raw: "view (engine s) key = Some raw" "decode_list_meta raw = Some meta"
      and ds: "describes (view (engine s)) (db_no db) key e n xs (Some meta)"
      and h: "decode_meta_header raw = Some \<lparr>mh_expire_ms = e, mh_version = v, mh_type_tag = TYPE_LIST\<rparr>"
      using list_at_describes [OF assms(4-6) False] by metis
    have e: "lm_expire_ms meta = e" using ds by (simp add: describes_def)
    have live: "e = 0 \<or> clock_ms (kv db) (engine s) < e" using assms(5) by (auto simp: alive_def)
    let ?s1 = "cache_list_meta_if_non_transactional db key meta s"
    have round: "list_meta_round db key s = (Inr (Some (Some meta)), ?s1)"
      using raw h live by (auto simp: list_meta_round_def action_simps db_get_run [OF c] mk)
    have s1: "engine ?s1 = engine s" "version_counter ?s1 = version_counter s"
      by (simp_all add: cache_list_meta_if_non_transactional_def)
    have ok: "cache_ok db view ?s1"
      by (rule cache_ok_cache_meta [OF assms(2), of _ raw]) (simp_all add: mk u raw)
    consider "cached_list_meta db key s = (Inr None, s)" | "cached_list_meta db key s = (Inr (Some meta), s)"
      using cached_list_meta_run [OF assms(2) mk raw] e live by auto
    then show thesis
    proof cases
      case 1
      then show thesis using that [OF list_meta_of_rounds [OF 1 round] s1 ok] ds by simp
    next
      case 2
      then have "list_meta_of db key s = (Inr (Some meta), s)" by (simp add: list_meta_of_def action_simps)
      then show thesis using that assms(2) ds by blast
    qed
  qed
qed

lemma describes_split:
  assumes "split_list m d key e n xs" "describes m d key e n xs found" "plausible_expiry e" "n < max_positions"
  shows "case found of None \<Rightarrow> xs = [] | Some meta \<Rightarrow> lm_expire_ms meta = e \<and> split_at m d key n meta xs"
proof (cases found)
  case (Some meta)
  have "xs \<noteq> []" using assms(2) Some by (simp add: describes_def)
  then obtain meta0 where "split_at m d key n meta0 xs" using assms(1) by (auto simp: split_list_def)
  then obtain raw where raw: "m key = Some raw" "decode_packed_list raw = None" using split_at_decode assms(4) by metis
  have "\<not> packed_at m key e xs"
  proof
    assume "packed_at m key e xs"
    then obtain raw' where "m key = Some raw'" "decode_packed_list raw' = Some xs" using packed_at_decode assms(3) by metis
    then show False using raw by simp
  qed
  then show ?thesis using assms(2) Some by (simp add: describes_def)
qed (use assms(2) in \<open>simp add: describes_def\<close>)

text \<open>Promotion followed by the metadata read, as the commands that change the middle of a list begin.\<close>

lemma split_meta_run:
  assumes "serves db view" "cache_ok db view s" "valid_owner key"
    and "split_list (view (engine s)) (db_no db) key e n xs" "alive db e" "n < max_positions"
  obtains s' found where "list_meta_of db key s = (Inr found, s')" "engine s' = engine s"
    "version_counter s' = version_counter s" "cache_ok db view s'"
    "case found of None \<Rightarrow> xs = [] | Some meta \<Rightarrow> lm_expire_ms meta = e \<and> split_at (view (engine s')) (db_no db) key n meta xs"
proof -
  obtain s' found where r: "list_meta_of db key s = (Inr found, s')" "engine s' = engine s"
    "version_counter s' = version_counter s" "cache_ok db view s'"
    "describes (view (engine s)) (db_no db) key e n xs found"
    using meta_run [OF assms(1-3) split_list_at [OF assms(4)] assms(5,6)] by metis
  have "plausible_expiry e" using assms(5) by (simp add: alive_def)
  then have "case found of None \<Rightarrow> xs = [] | Some meta \<Rightarrow> lm_expire_ms meta = e \<and> split_at (view (engine s')) (db_no db) key n meta xs"
    unfolding r(2) by (rule describes_split [OF assms(4) r(5) _ assms(6)])
  then show thesis using that r by blast
qed

end
