(* ===== verification/List_Push_Pop.thy ===== *)
theory List_Push_Pop
  imports List_Refine
begin

text \<open>
  Pushing and popping refine the operations on lists: whatever the layout, the list that the store holds
  afterwards is the one that Redis promises.
\<close>

section \<open>Pushing\<close>

lemma push_values_eq: "push_values left xs vals = (if left then rev vals @ xs else xs @ vals)"
  unfolding push_values_def by (induction vals arbitrary: xs) auto

lemma length_push_values [simp]: "length (push_values left xs vals) = length xs + length vals"
  by (simp add: push_values_eq)

lemma push_values_Cons: "push_values left xs (v # vals) = push_values left (if left then v # xs else xs @ [v]) vals"
  by (simp add: push_values_eq)

lemma push_values_nonempty: "xs \<noteq> [] \<or> vals \<noteq> [] \<Longrightarrow> push_values left xs vals \<noteq> []"
  by (auto simp: push_values_eq)

lemma packed_or_split_run:
  assumes "serves db view" "cache_ok db view s" "valid_owner key" "versions_left db (Suc k) s"
    and "ys \<noteq> []" "length ys \<le> n" "n \<le> max_positions" "view (engine s) key = observed"
  obtains batch s1 s' where "packed_or_split_writes db key e ys s = (Inr batch, s1)"
    "compare_and_write_batch_if_not_empty db [(key, observed)] batch s1 = (Inr True, s')"
    "cache_ok db view s'" "versions_left db k s'" "list_at (view (engine s')) (db_no db) key e n ys"
    "list_frame (db_no db) key (view (engine s)) (view (engine s'))"
proof (cases "encode_packed_list e ys")
  case (Some raw)
  have c: "engine_contract (kv db) view" "key_layout db = CURRENT" and mk: "mk_key db key = key"
    using assms(1) mk_key_eq by (auto simp: serves_def)
  have u: "utf8_valid key" using assms(3) by (simp add: valid_owner_def)
  let ?b = "[(Put, key, raw)]"
  obtain s' where s': "compare_and_write_batch_if_not_empty db [(key, observed)] ?b s = (Inr True, s')"
    "committed db view ?b s s'"
    using compare_and_write_run [OF c assms(2), of ?b "[(key, observed)]"] assms(8) by auto
  have "packed_at (view (engine s')) key e ys"
    using committed_at(1) [OF s'(2) u] Some assms(5) by (simp add: packed_at_def apply_batch_single)
  then have "list_at (view (engine s')) (db_no db) key e n ys" using assms(5,6) by (simp add: list_at_def)
  moreover have "list_frame (db_no db) key (view (engine s)) (view (engine s'))"
    using committed_frame [OF s'(2) _ assms(3)] by (simp add: list_op_main)
  moreover have "packed_or_split_writes db key e ys s = (Inr ?b, s)"
    by (simp add: packed_or_split_writes_def Some mk return_apply)
  ultimately show thesis
    using that s'(1) committed_cache [OF s'(2)] versions_left_committed [OF s'(2)] versions_left_mono [OF assms(4), of k]
    by simp
next
  case None
  have c: "engine_contract (kv db) view" "key_layout db = CURRENT" and mk: "mk_key db key = key"
    using assms(1) mk_key_eq by (auto simp: serves_def)
  have u: "utf8_valid key" using assms(3) by (simp add: valid_owner_def)
  obtain v where v: "next_version db s = (Inr v, s\<lparr>version_counter := v\<rparr>)" "v \<noteq> 0"
    "versions_left db k (s\<lparr>version_counter := v\<rparr>)"
    using next_version_run [OF assms(4)] by blast
  let ?s1 = "s\<lparr>version_counter := v\<rparr>" and ?b = "split_list_writes db key e v ys"
  obtain s' where s': "compare_and_write_batch_if_not_empty db [(key, observed)] ?b ?s1 = (Inr True, s')"
    "committed db view ?b ?s1 s'"
    using compare_and_write_run [OF c, of ?s1 ?b "[(key, observed)]"] assms(2,8) split_writes_ops [OF mk] by auto
  have "list_at (view (engine s')) (db_no db) key e n ys"
    using split_writes_committed [OF s'(2) u mk assms(5) v(2) assms(6,7)] assms(5) by (force simp: list_at_def)
  moreover have "packed_or_split_writes db key e ys s = (Inr ?b, ?s1)"
    using v(1) by (simp add: packed_or_split_writes_def None action_simps)
  ultimately show thesis
    using that s'(1) committed_cache [OF s'(2)] versions_left_committed [OF s'(2)] v(3)
      committed_frame [OF s'(2) split_writes_ops(1) [OF mk] assms(3)] by simp
qed

lemma push_packed_write_run:
  assumes "serves db view" "cache_ok db view s" "valid_owner key" "versions_left db (Suc k) s"
    and "view (engine s) key = observed" "vals \<noteq> []" "length xs + length vals \<le> n" "n \<le> max_positions"
  obtains s' where
    "push_packed_write db key left vals observed e xs s = (Inr (Some (Some (length xs + length vals))), s')"
    "cache_ok db view s'" "versions_left db k s'"
    "list_at (view (engine s')) (db_no db) key e n (push_values left xs vals)"
    "list_frame (db_no db) key (view (engine s)) (view (engine s'))"
proof -
  have mk: "mk_key db key = key" using assms(1) mk_key_eq by auto
  obtain batch s1 s' where run: "packed_or_split_writes db key e (push_values left xs vals) s = (Inr batch, s1)"
      "compare_and_write_batch_if_not_empty db [(key, observed)] batch s1 = (Inr True, s')"
      and res: "cache_ok db view s'" "versions_left db k s'"
      "list_at (view (engine s')) (db_no db) key e n (push_values left xs vals)"
      "list_frame (db_no db) key (view (engine s)) (view (engine s'))"
  proof (rule packed_or_split_run [OF assms(1-4) _ _ assms(8,5), of "push_values left xs vals" e])
    show "push_values left xs vals \<noteq> []" "length (push_values left xs vals) \<le> n"
      using push_values_nonempty assms(6,7) by auto
  qed
  have "push_packed_write db key left vals observed e xs s =
      (Inr (Some (Some (length xs + length vals))), s'\<lparr>changes := changes s' + 1\<rparr>)"
    using assms(6) run
    by (simp add: push_packed_write_def Let_def action_simps mk fetch_add_changes_def)
  then show thesis using that res by (simp add: versions_left_def)
qed

text \<open>Pushing to a split list.\<close>

lemma push_split_items_apply:
  assumes "push_split_items d key left vals (meta, batch) = (meta', batch')"
    and "items_at (apply_batch batch m) d key (lm_version meta) (lm_head meta) xs"
    and "lm_tail meta - lm_head meta = int (length xs)" "- int n \<le> lm_head meta" "lm_tail meta \<le> int n"
    and "n + length vals \<le> max_positions"
  shows "lm_expire_ms meta' = lm_expire_ms meta \<and> lm_version meta' = lm_version meta \<and>
    - int (n + length vals) \<le> lm_head meta' \<and> lm_tail meta' \<le> int (n + length vals) \<and>
    lm_tail meta' - lm_head meta' = int (length xs + length vals) \<and>
    items_at (apply_batch batch' m) d key (lm_version meta) (lm_head meta') (push_values left xs vals) \<and>
    (list_all (list_op d key) batch \<longrightarrow> list_all (list_op d key) batch') \<and> (list_all plain_op batch \<longrightarrow> list_all plain_op batch')"
  using assms
proof (induction vals arbitrary: meta batch xs n)
  case Nil
  then show ?case by (simp add: push_values_eq)
next
  case (Cons v vals)
  let ?i = "if left then lm_head meta - 1 else lm_tail meta"
  let ?meta1 = "if left then meta\<lparr>lm_head := lm_head meta - 1\<rparr> else meta\<lparr>lm_tail := lm_tail meta + 1\<rparr>"
  let ?b1 = "batch @ [(Put, list_item_key d key (lm_version meta) ?i, v)]"
  let ?xs1 = "if left then v # xs else xs @ [v]"
  have r: "i64_range ?i" "i64_range (lm_head meta)" "i64_range (lm_head meta + int (length xs))"
    using Cons.prems(3-6) by (auto intro!: pos_range [of "Suc n"])
  have old: "items_at (apply_batch ?b1 m) d key (lm_version meta) (lm_head meta) xs"
    using items_at_update_other [of ?i "lm_head meta" xs] r Cons.prems(2,3) by (simp add: fun_upd_def [symmetric])
  have items: "items_at (apply_batch ?b1 m) d key (lm_version ?meta1) (lm_head ?meta1) ?xs1"
    using old Cons.prems(3) by (auto simp: items_at_Cons items_at_append algebra_simps)
  have run: "push_split_items d key left vals (?meta1, ?b1) = (meta', batch')"
    using Cons.prems(1) by (auto split: if_splits)
  have bounds: "lm_tail ?meta1 - lm_head ?meta1 = int (length ?xs1)" "- int (Suc n) \<le> lm_head ?meta1"
    "lm_tail ?meta1 \<le> int (Suc n)" "Suc n + length vals \<le> max_positions"
    using Cons.prems(3-6) by auto
  show ?case
    using Cons.IH [OF run items bounds] by (simp add: push_values_Cons list_op_item split: if_splits)
qed

text \<open>A commit that ends with the metadata of a split list.\<close>

lemma split_committed:
  assumes "committed db view (batch @ [meta_put db key meta]) s s'" "mk_key db key = key" "utf8_valid key"
    and "items_at (apply_batch batch (view (engine s))) (db_no db) key (lm_version meta) (lm_head meta) ys"
    and "ys \<noteq> []" "lm_version meta \<noteq> 0" "- int n \<le> lm_head meta" "lm_tail meta \<le> int n"
    and "lm_tail meta - lm_head meta = int (length ys)"
  shows "split_at (view (engine s')) (db_no db) key n meta ys"
proof -
  have "apply_batch (batch @ [meta_put db key meta]) (view (engine s)) = (apply_batch batch (view (engine s)))
      (key \<mapsto> encode_list_meta (lm_expire_ms meta) (lm_version meta) (lm_head meta) (lm_tail meta))"
    using assms(2) by (simp add: meta_put_def)
  then show ?thesis
    using committed_at(1) [OF assms(1,3)] committed_at(3) [OF assms(1)] assms(4-9) items_at_main_update [OF assms(3)]
    by (simp add: split_at_def)
qed

lemma split_at_cache:
  assumes "split_at (view (engine s)) (db_no db) key n meta xs" "n < max_positions" "cache_ok db view s"
    and "mk_key db key = key" "utf8_valid key"
  shows "cache_ok db view (cache_list_meta_if_non_transactional db key meta s)"
proof -
  obtain raw where "view (engine s) key = Some raw" "decode_list_meta raw = Some meta"
    using split_at_decode [OF assms(1,2)] by metis
  then show ?thesis using assms(3-5) by (intro cache_ok_cache_meta [where raw = raw]) auto
qed

lemma cache_meta_frame [simp]:
  "engine (cache_list_meta_if_non_transactional db key meta s) = engine s"
  "version_counter (cache_list_meta_if_non_transactional db key meta s) = version_counter s"
  "engine (remove_list_meta_cache_if_non_transactional db key s) = engine s"
  "version_counter (remove_list_meta_cache_if_non_transactional db key s) = version_counter s"
  by (simp_all add: cache_list_meta_if_non_transactional_def remove_list_meta_cache_if_non_transactional_def)

lemma list_at_mono: "list_at m d key e n xs \<Longrightarrow> n \<le> n' \<Longrightarrow> list_at m d key e n' xs"
  by (fastforce simp: list_at_def split_at_def)

lemma split_at_list_at: "split_at m d key n meta xs \<Longrightarrow> list_at m d key (lm_expire_ms meta) n xs"
  by (auto simp: list_at_def split_at_def)

lemma push_split_run:
  assumes "serves db view" "cache_ok db view s" "valid_owner key"
    and "split_at (view (engine s)) (db_no db) key n meta xs" "n + length vals < max_positions"
  obtains s' where "push_split db key left vals meta s = (Inr (length xs + length vals), s')" "cache_ok db view s'"
    "list_at (view (engine s')) (db_no db) key (lm_expire_ms meta) (n + length vals) (push_values left xs vals)"
    "list_frame (db_no db) key (view (engine s)) (view (engine s'))"
proof -
  have c: "engine_contract (kv db) view" "key_layout db = CURRENT" and mk: "mk_key db key = key"
    using assms(1) mk_key_eq by (auto simp: serves_def)
  have u: "utf8_valid key" using assms(3) by (simp add: valid_owner_def)
  have sp: "xs \<noteq> []" "lm_version meta \<noteq> 0" "- int n \<le> lm_head meta" "lm_tail meta \<le> int n"
    "lm_tail meta - lm_head meta = int (length xs)" "n + length vals \<le> max_positions"
    "items_at (apply_batch [] (view (engine s))) (db_no db) key (lm_version meta) (lm_head meta) xs"
    using assms(4,5) by (auto simp: split_at_def)
  obtain meta' batch where run: "push_split_items (db_no db) key left vals (meta, []) = (meta', batch)"
    by (cases "push_split_items (db_no db) key left vals (meta, [])")
  have p: "lm_expire_ms meta' = lm_expire_ms meta" "lm_version meta' = lm_version meta"
    "- int (n + length vals) \<le> lm_head meta'" "lm_tail meta' \<le> int (n + length vals)"
    "lm_tail meta' - lm_head meta' = int (length xs + length vals)"
    "items_at (apply_batch batch (view (engine s))) (db_no db) key (lm_version meta') (lm_head meta') (push_values left xs vals)"
    "list_all (list_op (db_no db) key) batch" "list_all plain_op batch"
    using push_split_items_apply [OF run sp(7,5,3,4,6)] by simp_all
  let ?b = "batch @ [meta_put db key meta']"
  have ops: "list_all plain_op ?b" "list_all (list_op (db_no db) key) ?b"
    using p(7,8) mk by (simp_all add: meta_put_def list_op_main)
  obtain s1 where s1: "write_batch_if_not_empty db ?b s = (Inr (), s1)" "committed db view ?b s s1"
    using write_batch_run [OF c assms(2), of ?b] ops by auto
  have at: "split_at (view (engine s1)) (db_no db) key (n + length vals) meta' (push_values left xs vals)"
    by (rule split_committed [OF s1(2) mk u p(6)]) (use sp p push_values_nonempty in auto)
  let ?s' = "(cache_list_meta_if_non_transactional db key meta' s1)\<lparr>changes := changes (cache_list_meta_if_non_transactional db key meta' s1) + 1\<rparr>"
  have "push_split db key left vals meta s = (Inr (length xs + length vals), ?s')"
    using run s1(1) p(5) by (simp add: push_split_def action_simps fetch_add_changes_def)
  moreover have "cache_ok db view ?s'"
    using split_at_cache [OF at _ committed_cache [OF s1(2)] mk u] assms(5) by simp
  ultimately show thesis
    using that split_at_list_at [OF at] committed_frame [OF s1(2) ops(2) assms(3)] p(1) by simp
qed

lemma try_push_run:
  assumes "push_packed_round db key left vals only_if_exists s = (Inr (Some r), s')"
  shows "try_list_push_packed db key left vals only_if_exists s = (Inr r, s')"
proof -
  have "rounds SMALL_INLINE_CAS_ATTEMPTS (push_packed_round db key left vals only_if_exists) s = (Inr (Some r), s')"
    by (rule rounds_done) (simp_all add: assms SMALL_INLINE_CAS_ATTEMPTS_def)
  then show ?thesis by (simp add: try_list_push_packed_def action_simps)
qed

text \<open>The outcome of a command on a list: the store holds the new list under the key, the cache agrees with the
  store, and no record of any other key has changed.\<close>

definition list_becomes ::
  "('w, 'e) db \<Rightarrow> ('w \<Rightarrow> bytes \<rightharpoonup> bytes) \<Rightarrow> bytes \<Rightarrow> u64 \<Rightarrow> nat \<Rightarrow> bytes list \<Rightarrow> 'w db_state \<Rightarrow> 'w db_state \<Rightarrow> bool"
where
  "list_becomes db view key e n ys s s' \<longleftrightarrow> cache_ok db view s' \<and>
     list_at (view (engine s')) (db_no db) key e n ys \<and>
     list_frame (db_no db) key (view (engine s)) (view (engine s'))"

lemma list_push_run:
  assumes "serves db view" "cache_ok db view s" "valid_owner key" "versions_left db 1 s"
    and "list_at (view (engine s)) (db_no db) key e n xs" "alive db e" "n + length vals < max_positions"
    and "ys = (if xs = [] \<and> only_if_exists then [] else push_values left xs vals)"
  shows "\<exists>s'. list_push_bytes db key left vals only_if_exists s = (Inr (length ys), s') \<and>
    list_becomes db view key e (n + length vals) ys s s'"
proof -
  have c: "engine_contract (kv db) view" and mk: "mk_key db key = key"
    using assms(1) mk_key_eq by (auto simp: serves_def)
  have n: "n < max_positions" "n + length vals \<le> max_positions" using assms(7) by auto
  have pl: "plausible_expiry e" using assms(6) by (simp add: alive_def)
  have at: "list_at (view (engine s)) (db_no db) key e (n + length vals) xs" using list_at_mono [OF assms(5)] by simp
  let ?round = "push_packed_round db key left vals only_if_exists s"
  note start = push_packed_round_def action_simps expire_noop [OF assms(1,5,6) n(1)] db_get_run [OF c] mk
  have packed: ?thesis if "?round = (Inr (Some (Some (length ys))), s')" "list_becomes db view key e (n + length vals) ys s s'" for s'
    using try_push_run [OF that(1)] that(2) by (auto simp: list_push_bytes_def action_simps)
  have by_write: ?thesis
    if w: "?round = push_packed_write db key left vals (view (engine s) key) e xs s"
      and ex: "\<not> (xs = [] \<and> only_if_exists)" and le: "length xs \<le> n"
  proof (cases "vals = []")
    case True
    then have "ys = xs" using assms(8) ex by (simp add: push_values_eq)
    then show ?thesis
      using packed [of s] w assms(2) at True by (auto simp: push_packed_write_def return_apply push_values_eq list_becomes_def)
  next
    case False
    have vl: "versions_left db (Suc 0) s" and le': "length xs + length vals \<le> n + length vals" using assms(4) le by auto
    obtain s' where "push_packed_write db key left vals (view (engine s) key) e xs s = (Inr (Some (Some (length xs + length vals))), s')"
      "cache_ok db view s'" "list_at (view (engine s')) (db_no db) key e (n + length vals) (push_values left xs vals)"
      "list_frame (db_no db) key (view (engine s)) (view (engine s'))"
      using push_packed_write_run [OF assms(1-3) vl refl False le' n(2), of left e] by blast
    then show ?thesis using packed [of s'] w ex assms(8) by (auto simp: list_becomes_def)
  qed
  show ?thesis
  proof (cases "xs = []")
    case True
    then have none: "view (engine s) key = None" "e = 0" using assms(5) by (simp_all add: list_at_def)
    show ?thesis
    proof (cases only_if_exists)
      case True
      then have "?round = (Inr (Some (Some (length ys))), s)" using none assms(8) \<open>xs = []\<close> by (simp add: start)
      then show ?thesis using packed [of s] at assms(2,8) \<open>xs = []\<close> True by (simp add: list_becomes_def)
    next
      case False
      then have "?round = push_packed_write db key left vals (view (engine s) key) e xs s"
        using none \<open>xs = []\<close> by (simp add: start)
      then show ?thesis using by_write False \<open>xs = []\<close> by simp
    qed
  next
    case False
    then have ys: "ys = push_values left xs vals" using assms(8) by simp
    show ?thesis
    proof (cases "\<exists>meta. split_at (view (engine s)) (db_no db) key n meta xs \<and> lm_expire_ms meta = e")
      case True
      then obtain raw where raw: "view (engine s) key = Some raw" "decode_packed_list raw = None"
        "\<exists>v. decode_meta_header raw = Some \<lparr>mh_expire_ms = e, mh_version = v, mh_type_tag = TYPE_LIST\<rparr>"
        using split_at_decode n(1) by metis
      then have "?round = (Inr (Some None), s)" by (auto simp: start)
      note tried = try_push_run [OF this]
      have "split_list (view (engine s)) (db_no db) key e n xs" using True \<open>xs \<noteq> []\<close> by (simp add: split_list_def)
      then obtain s1 found where r: "list_meta_of db key s = (Inr found, s1)" "engine s1 = engine s" "cache_ok db view s1"
        "case found of None \<Rightarrow> xs = [] | Some meta \<Rightarrow> lm_expire_ms meta = e \<and> split_at (view (engine s1)) (db_no db) key n meta xs"
        by (rule split_meta_run [OF assms(1-3) _ assms(6) n(1)])
      then obtain meta where s1: "list_meta_of db key s = (Inr (Some meta), s1)" "engine s1 = engine s" "cache_ok db view s1"
        and f: "lm_expire_ms meta = e" "split_at (view (engine s1)) (db_no db) key n meta xs"
        using \<open>xs \<noteq> []\<close> by (cases found) auto
      obtain s' where "push_split db key left vals meta s1 = (Inr (length xs + length vals), s')" "cache_ok db view s'"
        "list_at (view (engine s')) (db_no db) key (lm_expire_ms meta) (n + length vals) (push_values left xs vals)"
        "list_frame (db_no db) key (view (engine s1)) (view (engine s'))"
        using push_split_run [OF assms(1) s1(3) assms(3) f(2) assms(7)] by metis
      then show ?thesis
        using tried s1(1,2) f(1) ys by (auto simp: list_push_bytes_def action_simps list_becomes_def)
    next
      case False
      then have pk: "packed_at (view (engine s)) key e xs" "length xs \<le> n"
        using assms(5) \<open>xs \<noteq> []\<close> by (auto simp: list_at_def)
      obtain raw where raw: "view (engine s) key = Some raw" "decode_packed_list raw = Some xs"
        "decode_meta_header raw = Some \<lparr>mh_expire_ms = e, mh_version = 0, mh_type_tag = TYPE_LIST\<rparr>"
        using packed_at_decode [OF pk(1) pl] by metis
      then have "?round = push_packed_write db key left vals (view (engine s) key) e xs s" by (simp add: start)
      then show ?thesis using by_write pk(2) \<open>xs \<noteq> []\<close> by simp
    qed
  qed
qed

section \<open>Popping\<close>

lemma try_len_append:
  "try_len f (xs @ ys) len = (case try_len f xs len of None \<Rightarrow> None | Some l \<Rightarrow> try_len f ys l)"
  by (induction xs arbitrary: len) (simp_all add: checked_add_def split: option.split)

lemma try_len_ge: "try_len f xs len = Some n \<Longrightarrow> len \<le> n"
  by (induction xs arbitrary: len) (fastforce simp: checked_add_def split: option.splits if_splits)+

lemma try_len_start:
  "try_len f xs len = Some n \<Longrightarrow> len' \<le> len \<Longrightarrow> \<exists>n' \<le> n. try_len f xs len' = Some n'"
proof (induction xs arbitrary: len len')
  case (Cons x xs)
  then obtain a where a: "f x = Some a" "len + a \<le> usize_max" "try_len f xs (len + a) = Some n"
    by (auto simp: checked_add_def split: option.splits if_splits)
  then show ?case using Cons.IH [OF a(3), of "len' + a"] Cons.prems(2) by (simp add: checked_add_def)
qed simp

text \<open>A part of a packed list is packed.\<close>

lemma encode_packed_part:
  assumes "encode_packed_list e (as @ bs @ cs) = Some raw"
  shows "\<exists>raw'. encode_packed_list e bs = Some raw'"
proof -
  obtain n where n: "length (as @ bs @ cs) \<le> SMALL_LIST_MAX_ITEMS"
    "try_len item_size (as @ bs @ cs) PACKED_LIST_HEADER_LEN = Some n" "n \<le> SMALL_LIST_MAX_ENCODED_BYTES"
    using assms by (auto simp: encode_packed_list_def split: if_splits option.splits)
  obtain l1 l2 where l: "try_len item_size as PACKED_LIST_HEADER_LEN = Some l1" "try_len item_size bs l1 = Some l2"
    "try_len item_size cs l2 = Some n"
    using n(2) by (auto simp: try_len_append split: option.splits)
  obtain l' where "l' \<le> l2" "try_len item_size bs PACKED_LIST_HEADER_LEN = Some l'"
    using try_len_start [OF l(2) try_len_ge [OF l(1)]] by blast
  then show ?thesis using n(1,3) try_len_ge [OF l(3)] by (simp add: encode_packed_list_def)
qed

lemma pop_items_parts:
  assumes "pop_items left count xs = (popped, rest)"
  shows "\<exists>as cs. xs = as @ rest @ cs" "length popped = min count (length xs)"
    "length rest = length xs - min count (length xs)"
proof -
  have "xs = (if left then take (min count (length xs)) xs else []) @ rest @
      (if left then [] else drop (length xs - min count (length xs)) xs)"
    using assms by (auto simp: pop_items_def Let_def)
  then show "\<exists>as cs. xs = as @ rest @ cs" by blast
  show "length popped = min count (length xs)" "length rest = length xs - min count (length xs)"
    using assms by (auto simp: pop_items_def Let_def split: if_splits)
qed

text \<open>Deletions of positions.\<close>

lemma apply_deletes:
  assumes "\<forall>op \<in> set dels. fst op = RangeDelete"
  shows "apply_batch dels m x = (if deleted_by dels x then None else m x)"
  using assms
proof (induction dels rule: rev_induct)
  case (snoc op dels)
  obtain lo hi where op: "op = (RangeDelete, lo, hi)" using snoc.prems by (cases op) auto
  have "deleted_by [op] x \<longleftrightarrow> lo \<le> x \<and> x < hi" by (simp add: op deleted_by_def)
  then show ?case using snoc by (simp add: op)
qed simp

text \<open>\<open>range_deletes\<close> says what the batch of a range deletion is.\<close>

definition range_deletes :: "u16 \<Rightarrow> bytes \<Rightarrow> u64 \<Rightarrow> int \<Rightarrow> int \<Rightarrow> batch_op list \<Rightarrow> bool" where
  "range_deletes d key v start stop dels \<longleftrightarrow> (\<forall>op \<in> set dels. fst op = RangeDelete) \<and>
     (\<forall>i. i64_range i \<longrightarrow> (deleted_by dels (list_item_key d key v i) \<longleftrightarrow> start \<le> i \<and> i < stop)) \<and>
     (\<forall>x. deleted_by dels x \<longrightarrow> starts_with x (list_item_prefix d key v))"

lemma range_deletes_run:
  assumes "i64_range start" "i64_range stop"
  obtains dels where "delete_list_storage_range_to_batch batch d key v start stop = Some (batch @ dels)"
    "range_deletes d key v start stop dels"
  using delete_list_range_run [OF assms, of batch d key v] unfolding range_deletes_def by metis

lemma range_deletes_ops:
  assumes "range_deletes d key v start stop dels"
  shows "list_all plain_op dels" "list_all (list_op d key) dels"
proof -
  have rd: "\<forall>op \<in> set dels. fst op = RangeDelete" using assms by (simp add: range_deletes_def)
  then show "list_all plain_op dels" by (auto simp: list_all_iff)
  have "starts_with x (list_item_prefix d key v)" if op: "op \<in> set dels" "op_touches op x" for op x
  proof -
    obtain wt lo hi where eq: "op = (wt, lo, hi)" by (cases op)
    have wt: "wt = RangeDelete" using rd op(1) eq by force
    have "lo \<le> x \<and> x < hi" using op(2) by (simp add: eq wt)
    then have "deleted_by dels x" using op(1) unfolding deleted_by_def eq wt by blast
    then show ?thesis using assms unfolding range_deletes_def by blast
  qed
  then show "list_all (list_op d key) dels" using rd unfolding list_all_iff list_op_def by blast
qed

lemma range_deletes_items:
  assumes "range_deletes d key v start stop dels" "items_at m d key v h xs"
    and "h + int (length xs) \<le> start \<or> stop \<le> h" "i64_range h" "i64_range (h + int (length xs))"
  shows "items_at (apply_batch dels m) d key v h xs"
proof -
  have "apply_batch dels m (list_item_key d key v (h + int j)) = m (list_item_key d key v (h + int j))" if "j < length xs" for j
  proof -
    have "i64_range (h + int j)" "\<not> (start \<le> h + int j \<and> h + int j < stop)" using assms(3-5) that by (auto simp: i64_range_def)
    then have "\<not> deleted_by dels (list_item_key d key v (h + int j))" using assms(1) unfolding range_deletes_def by blast
    moreover have "\<forall>op \<in> set dels. fst op = RangeDelete" using assms(1) by (simp add: range_deletes_def)
    ultimately show ?thesis by (simp add: apply_deletes)
  qed
  then show ?thesis using assms(2) items_at_cong by blast
qed

text \<open>What is left of a split list: new metadata, or nothing at all.\<close>

lemma remaining_ops:
  assumes "list_all plain_op batch" "list_all (list_op (db_no db) key) batch" "mk_key db key = key"
  shows "list_all plain_op (remaining_meta_ops db key meta batch)"
    "list_all (list_op (db_no db) key) (remaining_meta_ops db key meta batch)"
    "remaining_meta_ops db key meta batch \<noteq> []"
  using assms
  by (auto simp: remaining_meta_ops_def delete_main_key_with_ttl_to_batch_def remove_known_to_batch_def meta_put_def
      intro: list_op_intros)

lemma delete_main_ops:
  assumes "mk_key db key = key"
  shows "delete_main_key_with_ttl_to_batch db [] key e \<noteq> []" "list_all plain_op (delete_main_key_with_ttl_to_batch db [] key e)"
    "list_all (list_op (db_no db) key) (delete_main_key_with_ttl_to_batch db [] key e)"
  using assms by (auto simp: delete_main_key_with_ttl_to_batch_def remove_known_to_batch_def intro: list_op_intros)

lemma delete_main_apply:
  assumes "mk_key db key = key" "utf8_valid key"
  shows "apply_batch (delete_main_key_with_ttl_to_batch db batch key e) m key = None"
proof -
  have "ttl_index_key e (db_no db) key \<noteq> key"
    using internal_apart(3) [OF assms(2)] by (auto simp: ttl_index_key_def starts_with_iff)
  then show ?thesis using assms(1)
    by (simp add: delete_main_key_with_ttl_to_batch_def remove_known_to_batch_def apply_batch_def)
qed

lemma remaining_committed:
  assumes "committed db view (remaining_meta_ops db key meta batch) s s'" "mk_key db key = key" "valid_owner key"
    and "items_at (apply_batch batch (view (engine s))) (db_no db) key (lm_version meta) (lm_head meta) ys"
    and "lm_version meta \<noteq> 0" "- int n \<le> lm_head meta" "lm_tail meta \<le> int n"
    and "lm_tail meta - lm_head meta = int (length ys)" "n < max_positions"
    and "list_all plain_op batch" "list_all (list_op (db_no db) key) batch"
  shows "list_becomes db view key (if ys = [] then 0 else lm_expire_ms meta) n ys s (remaining_meta_cache db key meta s')"
proof -
  have u: "utf8_valid key" using assms(3) by (simp add: valid_owner_def)
  have frame: "list_frame (db_no db) key (view (engine s)) (view (engine s'))"
    using committed_frame [OF assms(1) remaining_ops(2) [OF assms(10,11,2)] assms(3)] .
  show ?thesis
  proof (cases "ys = []")
    case True
    then have "view (engine s') key = None"
      using committed_at(1) [OF assms(1) u] delete_main_apply [OF assms(2) u] assms(8)
      by (simp add: remaining_meta_ops_def)
    then show ?thesis
      using True frame committed_cache [OF assms(1)] cache_ok_forget(1) assms(8)
      by (simp add: list_becomes_def remaining_meta_cache_def list_at_def)
  next
    case False
    then have open_: "\<not> lm_head meta \<ge> lm_tail meta" using assms(8) by (cases ys) auto
    then have "committed db view (batch @ [meta_put db key meta]) s s'"
      using assms(1) by (simp add: remaining_meta_ops_def)
    then have "split_at (view (engine s')) (db_no db) key n meta ys"
      by (rule split_committed) (use assms False u in simp_all)
    then show ?thesis
      using False open_ frame committed_cache [OF assms(1)] split_at_cache [OF _ assms(9) _ assms(2) u] split_at_list_at
      by (simp add: list_becomes_def remaining_meta_cache_def)
  qed
qed

lemma length_pop_positions [simp]: "length (pop_positions left c meta) = c"
  by (simp add: pop_positions_def)

lemma pop_positions_values:
  assumes "items_at m d key (lm_version meta) (lm_head meta) xs" "lm_tail meta - lm_head meta = int (length xs)"
    and "pop_items left count xs = (popped, rest)"
  shows "map m (map (list_item_key d key (lm_version meta)) (pop_positions left (min count (length xs)) meta)) = map Some popped"
proof (rule nth_equalityI)
  let ?c = "min count (length xs)"
  show "length (map m (map (list_item_key d key (lm_version meta)) (pop_positions left ?c meta))) = length (map Some popped)"
    using pop_items_parts(2) [OF assms(3)] by simp
  fix j assume "j < length (map m (map (list_item_key d key (lm_version meta)) (pop_positions left ?c meta)))"
  then have j: "j < ?c" by simp
  have pos: "pop_positions left ?c meta ! j = lm_head meta + int (if left then j else length xs - 1 - j)"
    using j assms(2) by (auto simp: pop_positions_def)
  have "popped ! j = xs ! (if left then j else length xs - 1 - j)"
    using assms(3) j by (auto simp: pop_items_def Let_def rev_nth split: if_splits)
  moreover have "(if left then j else length xs - 1 - j) < length xs" using j by auto
  ultimately show "map m (map (list_item_key d key (lm_version meta)) (pop_positions left ?c meta)) ! j = map Some popped ! j"
    using items_at_nth [OF assms(1)] pos j pop_items_parts(2) [OF assms(3)] by simp
qed

lemma rest_items:
  assumes "items_at m d key v head xs" "pop_items left count xs = (popped, rest)"
  shows "items_at m d key v (if left then head + int (min count (length xs)) else head) rest"
proof -
  let ?c = "min count (length xs)"
  have "items_at m d key v head (take ?c xs @ drop ?c xs)"
    "items_at m d key v head (take (length xs - ?c) xs @ drop (length xs - ?c) xs)"
    using assms(1) by simp_all
  then show ?thesis using assms(2) unfolding items_at_append by (auto simp: pop_items_def Let_def split: if_splits)
qed

lemma map_filter_id_Some [simp]: "List.map_filter id (map Some xs) = xs"
  by (induction xs) (simp_all add: List.map_filter_simps)

lemma pop_split_run:
  assumes "serves db view" "cache_ok db view s" "valid_owner key"
    and "split_at (view (engine s)) (db_no db) key n meta xs" "n < max_positions" "0 < count"
    and "pop_items left count xs = (popped, rest)"
  shows "\<exists>s'. pop_split db key left count meta s = (Inr (filter utf8_valid popped), s') \<and>
    list_becomes db view key (if rest = [] then 0 else lm_expire_ms meta) n rest s s'"
proof -
  have c: "engine_contract (kv db) view" "key_layout db = CURRENT" and mk: "mk_key db key = key"
    using assms(1) mk_key_eq by (auto simp: serves_def)
  have u: "utf8_valid key" using assms(3) by (simp add: valid_owner_def)
  let ?v = "lm_version meta" and ?d = "db_no db" and ?c = "min count (length xs)"
  have sp: "xs \<noteq> []" "?v \<noteq> 0" "- int n \<le> lm_head meta" "lm_tail meta \<le> int n"
    "lm_tail meta - lm_head meta = int (length xs)" "items_at (view (engine s)) ?d key ?v (lm_head meta) xs"
    using assms(4) by (auto simp: split_at_def)
  define U where "U = (if left then meta\<lparr>lm_head := lm_head meta + int ?c\<rparr> else meta\<lparr>lm_tail := lm_tail meta - int ?c\<rparr>)"
  have U: "lm_version U = ?v" "lm_expire_ms U = lm_expire_ms meta" by (simp_all add: U_def)
  have len: "nat (max (lm_tail meta - lm_head meta) 0) = length xs" "?c \<noteq> 0" using sp assms(6) by auto
  have bounds: "lm_head meta \<le> lm_head U" "lm_tail U \<le> lm_tail meta" "lm_head U \<le> lm_tail meta"
    "lm_tail U - lm_head U = int (length rest)" "lm_head meta \<le> lm_tail U"
    using sp(5) pop_items_parts(3) [OF assms(7)] by (auto simp: U_def)
  have r: "i64_range (lm_head meta)" "i64_range (lm_tail meta)" "i64_range (lm_head U)" "i64_range (lm_tail U)"
    "i64_range (max (lm_tail U) (lm_head U))"
    using sp(3,4,5) bounds assms(5) by (auto intro!: pos_range [of n])
  have last_: "lm_head U + int (length rest) = lm_tail U" using bounds(4) by simp
  obtain d1 where d1: "delete_list_storage_range_to_batch [] ?d key ?v (lm_head meta) (lm_head U) = Some d1"
    "range_deletes ?d key ?v (lm_head meta) (lm_head U) d1"
    using range_deletes_run [OF r(1,3), of "[]"] append_Nil by metis
  obtain d2 where d2: "delete_list_storage_range_to_batch d1 ?d key ?v (max (lm_tail U) (lm_head U)) (lm_tail meta) = Some (d1 @ d2)"
    "range_deletes ?d key ?v (max (lm_tail U) (lm_head U)) (lm_tail meta) d2"
    using range_deletes_run [OF r(5,2)] by metis
  have dels: "list_all plain_op (d1 @ d2)" "list_all (list_op ?d key) (d1 @ d2)"
    using range_deletes_ops [OF d1(2)] range_deletes_ops [OF d2(2)] by simp_all
  have "items_at (view (engine s)) ?d key ?v (lm_head U) rest"
    using rest_items [OF sp(6) assms(7)] by (cases left) (simp_all add: U_def)
  then have "items_at (apply_batch d1 (view (engine s))) ?d key ?v (lm_head U) rest"
    by (rule range_deletes_items [OF d1(2)]) (use bounds r last_ in auto)
  then have items: "items_at (apply_batch (d1 @ d2) (view (engine s))) ?d key ?v (lm_head U) rest"
    unfolding apply_batch_append by (rule range_deletes_items [OF d2(2)]) (use bounds r last_ in auto)
  let ?b = "remaining_meta_ops db key U (d1 @ d2)"
  obtain s1 where s1: "write_batch_if_not_empty db ?b s = (Inr (), s1)" "committed db view ?b s s1"
    using write_batch_run [OF c assms(2) remaining_ops(3,1)] dels mk by metis
  let ?s2 = "remaining_meta_cache db key U s1"
  have "list_becomes db view key (if rest = [] then 0 else lm_expire_ms U) n rest s ?s2"
    by (rule remaining_committed [OF s1(2) mk assms(3)]) (use items sp bounds dels assms(5) U in auto)
  moreover have "multi_get_raw (kv db) (map (list_item_key ?d key ?v) (pop_positions left ?c meta)) (engine s) =
      (Inr (map Some popped), engine s)"
    using c(1) pop_positions_values [OF sp(6,5) assms(7)] by (simp add: engine_contract_def)
  then have "pop_split db key left count meta s =
      (Inr (filter utf8_valid popped), ?s2\<lparr>changes := changes ?s2 + length (filter utf8_valid popped)\<rparr>)"
    unfolding pop_split_def Let_def len(1) U_def [symmetric] if_not_P [OF len(2)] using d1(1) d2(1) s1(1)
    by (simp add: action_simps engine_call_def expect_def fetch_add_changes_def)
  ultimately show ?thesis unfolding U(2) by (simp add: list_becomes_def)
qed

lemma try_pop_run:
  assumes "pop_packed_round db key left count s = (Inr (Some r), s')"
  shows "try_list_pop_packed db key left count s = (Inr r, s')"
proof -
  have "rounds SMALL_INLINE_CAS_ATTEMPTS (pop_packed_round db key left count) s = (Inr (Some r), s')"
    by (rule rounds_done) (simp_all add: assms SMALL_INLINE_CAS_ATTEMPTS_def)
  then show ?thesis by (simp add: try_list_pop_packed_def action_simps)
qed

text \<open>Popping from a packed list.\<close>

lemma pop_packed_run:
  assumes "serves db view" "cache_ok db view s" "valid_owner key"
    and "packed_at (view (engine s)) key e xs" "length xs \<le> n" "alive db e" "n < max_positions" "0 < count"
    and "pop_items left count xs = (popped, rest)"
  shows "\<exists>s'. pop_packed_round db key left count s = (Inr (Some (Some popped)), s') \<and>
    list_becomes db view key (if rest = [] then 0 else e) n rest s s'"
proof -
  have c: "engine_contract (kv db) view" "key_layout db = CURRENT" and mk: "mk_key db key = key"
    using assms(1) mk_key_eq by (auto simp: serves_def)
  have u: "utf8_valid key" using assms(3) by (simp add: valid_owner_def)
  have pl: "plausible_expiry e" using assms(6) by (simp add: alive_def)
  obtain raw where raw: "view (engine s) key = Some raw" "decode_packed_list raw = Some xs"
    "decode_meta_header raw = Some \<lparr>mh_expire_ms = e, mh_version = 0, mh_type_tag = TYPE_LIST\<rparr>"
    using packed_at_decode [OF assms(4) pl] by metis
  have at: "list_at (view (engine s)) (db_no db) key e n xs" using assms(4,5) by (auto simp: list_at_def packed_at_def)
  have ne: "popped \<noteq> []" using pop_items_parts(2) [OF assms(9)] assms(4,8) by (auto simp: packed_at_def min_def split: if_splits)
  have le: "length rest \<le> n" using pop_items_parts(3) [OF assms(9)] assms(5) by simp
  obtain batch where b: "pop_packed_writes db key e rest s = (Inr batch, s)"
    and ops: "batch \<noteq> []" "list_all plain_op batch" "list_all (list_op (db_no db) key) batch"
    and after: "\<And>s'. committed db view batch s s' \<Longrightarrow> list_at (view (engine s')) (db_no db) key (if rest = [] then 0 else e) n rest"
  proof (cases "rest = []")
    case True
    let ?b = "delete_main_key_with_ttl_to_batch db [] key e"
    have "list_at (view (engine s')) (db_no db) key 0 n []" if "committed db view ?b s s'" for s'
      using committed_at(1) [OF that u] delete_main_apply [OF mk u] by (simp add: list_at_def)
    then show thesis
      using that [of ?b] True delete_main_ops [OF mk] by (simp add: pop_packed_writes_def return_apply)
  next
    case False
    obtain raw0 where "encode_packed_list e xs = Some raw0" using assms(4) by (auto simp: packed_at_def)
    then obtain raw' where raw': "encode_packed_list e rest = Some raw'"
      using encode_packed_part pop_items_parts(1) [OF assms(9)] by metis
    have "packed_at (view (engine s')) key e rest" if "committed db view [(Put, key, raw')] s s'" for s'
      using committed_at(1) [OF that u] raw' False by (simp add: packed_at_def apply_batch_single)
    then show thesis
      using that [of "[(Put, key, raw')]"] False mk raw' le
      by (auto simp: pop_packed_writes_def action_simps expect_def list_at_def intro: list_op_intros)
  qed
  obtain s' where s': "compare_and_write_batch_if_not_empty db [(key, Some raw)] batch s = (Inr True, s')"
    "committed db view batch s s'"
    using compare_and_write_run [OF c assms(2) ops(1,2), of "[(key, Some raw)]"] raw(1) by auto
  have "pop_packed_round db key left count s = (Inr (Some (Some popped)), s'\<lparr>changes := changes s' + length popped\<rparr>)"
    using raw s'(1) b ne assms(9)
    by (simp add: pop_packed_round_def action_simps expire_noop [OF assms(1) at assms(6,7)] db_get_run [OF c(1)] mk
        fetch_add_changes_def)
  then show ?thesis
    using after [OF s'(2)] committed_frame [OF s'(2) ops(3) assms(3)] committed_cache [OF s'(2)] by (simp add: list_becomes_def)
qed

lemma list_pop_run:
  assumes "serves db view" "cache_ok db view s" "valid_owner key"
    and "list_at (view (engine s)) (db_no db) key e n xs" "alive db e" "n < max_positions"
    and "pop_items left count xs = (popped, rest)"
  shows "\<exists>s'. list_pop_many db key left count s = (Inr (filter utf8_valid popped), s') \<and>
    list_becomes db view key (if rest = [] then 0 else e) n rest s s'"
proof -
  have c: "engine_contract (kv db) view" and mk: "mk_key db key = key"
    using assms(1) mk_key_eq by (auto simp: serves_def)
  have same: "list_becomes db view key (if rest = [] then 0 else e) n rest s s" if "rest = xs"
    using assms(2,4) that by (auto simp: list_becomes_def list_at_def)
  show ?thesis
  proof (cases "count = 0 \<or> xs = []")
    case True
    then have "popped = []" "rest = xs" using assms(7) by (auto simp: pop_items_def Let_def split: if_splits)
    moreover have "pop_packed_round db key left count s = (Inr (Some (Some [])), s)" if "xs = []"
      using assms(4) that
      by (simp add: pop_packed_round_def action_simps expire_noop [OF assms(1,4-6)] db_get_run [OF c] mk list_at_def)
    then have "try_list_pop_packed db key left count s = (Inr (Some []), s)" if "xs = []"
      using try_pop_run that by blast
    then have "list_pop_many db key left count s = (Inr [], s)"
      using True by (cases "count = 0") (auto simp: list_pop_many_def action_simps)
    ultimately show ?thesis using same by auto
  next
    case False
    show ?thesis
    proof (cases "\<exists>meta. split_at (view (engine s)) (db_no db) key n meta xs \<and> lm_expire_ms meta = e")
      case True
      then obtain raw v where raw: "view (engine s) key = Some raw" "decode_packed_list raw = None"
        "decode_meta_header raw = Some \<lparr>mh_expire_ms = e, mh_version = v, mh_type_tag = TYPE_LIST\<rparr>"
        using split_at_decode assms(6) by metis
      have "pop_packed_round db key left count s = (Inr (Some None), s)"
        using raw by (simp add: pop_packed_round_def action_simps expire_noop [OF assms(1,4-6)] db_get_run [OF c] mk)
      note tried = try_pop_run [OF this]
      have "split_list (view (engine s)) (db_no db) key e n xs" using True False by (simp add: split_list_def)
      then obtain s1 found where r: "list_meta_of db key s = (Inr found, s1)" "engine s1 = engine s" "cache_ok db view s1"
        "case found of None \<Rightarrow> xs = [] | Some meta \<Rightarrow> lm_expire_ms meta = e \<and> split_at (view (engine s1)) (db_no db) key n meta xs"
        by (rule split_meta_run [OF assms(1-3) _ assms(5,6)])
      then obtain meta where f: "found = Some meta" "lm_expire_ms meta = e" "split_at (view (engine s1)) (db_no db) key n meta xs"
        using False by (cases found) auto
      have count: "0 < count" using False by simp
      obtain s' where "pop_split db key left count meta s1 = (Inr (filter utf8_valid popped), s')"
        "list_becomes db view key (if rest = [] then 0 else lm_expire_ms meta) n rest s1 s'"
        using pop_split_run [OF assms(1) r(3) assms(3) f(3) assms(6) count assms(7)] by blast
      then show ?thesis
        using tried r(1,2) f(1,2) False by (auto simp: list_pop_many_def action_simps list_becomes_def)
    next
      case not_split: False
      then have pk: "packed_at (view (engine s)) key e xs" "length xs \<le> n"
        using assms(4) False by (auto simp: list_at_def)
      have count: "0 < count" using False by simp
      obtain s' where "pop_packed_round db key left count s = (Inr (Some (Some popped)), s')"
        "list_becomes db view key (if rest = [] then 0 else e) n rest s s'"
        using pop_packed_run [OF assms(1-3) pk assms(5,6) count assms(7)] by blast
      then have "try_list_pop_packed db key left count s = (Inr (Some popped), s')"
        "list_becomes db view key (if rest = [] then 0 else e) n rest s s'" using try_pop_run by blast+
      then show ?thesis using count by (auto simp: list_pop_many_def action_simps)
    qed
  qed
qed

end
