(* ===== verification/List_Read.thy ===== *)
theory List_Read
  imports List_Push_Pop
begin

text \<open>
  Reading a list: LLEN, LINDEX and LRANGE answer from the list that the store holds, whatever its layout and also when its
  positions lie on both sides of zero.
\<close>

section \<open>Scans\<close>

lemma sorted_entries_unique:
  assumes "sorted_wrt (<) (map fst l)" "sorted_wrt (<) (map fst l')" "set l = set l'"
  shows "l = (l' :: (bytes \<times> bytes) list)"
proof -
  have keys: "map fst l = map fst l'" using strict_sorted_equal [OF assms(2,1)] assms(3) by simp
  have "distinct (map fst l')" using assms(2) by (simp add: strict_sorted_iff)
  then have inj: "inj_on fst (set l')" by (simp add: distinct_map)
  show ?thesis
  proof (rule nth_equalityI)
    show len: "length l = length l'" using keys map_eq_imp_length_eq by blast
    fix i assume i: "i < length l"
    have "fst (l ! i) = fst (l' ! i)" using keys i len by (metis nth_map)
    moreover have "l ! i \<in> set l'" "l' ! i \<in> set l'" using i len assms(3) nth_mem by metis+
    ultimately show "l ! i = l' ! i" using inj by (meson inj_on_def)
  qed
qed

text \<open>The keys between two positions of the same sign are the positions between them.\<close>

definition upper_key :: "u16 \<Rightarrow> bytes \<Rightarrow> u64 \<Rightarrow> int \<Rightarrow> bytes option" where
  "upper_key d key v b =
     (if b = - 1 then prefix_exclusive_upper_bound (list_item_prefix d key v) else Some (list_item_key d key v (b + 1)))"

lemma item_range:
  assumes "i64_range a" "i64_range (b + 1)" "i64_range i" "a \<le> b" "0 \<le> a \<or> b < 0"
  shows "in_range (list_item_key d key v a) (upper_key d key v b) (list_item_key d key v i) \<longleftrightarrow> a \<le> i \<and> i \<le> b"
proof -
  let ?k = "list_item_key d key v"
  obtain ub where ub: "prefix_exclusive_upper_bound (list_item_prefix d key v) = Some ub"
    using sub_key_range_end_exists unfolding collection_prefixes sub_key_range_end_bytes_def by blast
  have "?k i < ub" using prefix_exclusive_upper_bound_Some [OF ub, of "?k i"] item_key_starts by blast
  moreover have "?k a \<le> ?k i \<longleftrightarrow> \<not> ?k i < ?k a" by auto
  ultimately show ?thesis
    using list_item_order [OF assms(3,1)] list_item_order [OF assms(3,2)] assms(4,5) ub
    by (auto simp: in_range_def upper_key_def)
qed

lemma range_under_prefix:
  assumes "in_range (list_item_key d key v a) (upper_key d key v b) x"
  shows "starts_with x (list_item_prefix d key v)"
proof -
  obtain ub where ub: "prefix_exclusive_upper_bound (list_item_prefix d key v) = Some ub"
    using sub_key_range_end_exists unfolding collection_prefixes sub_key_range_end_bytes_def by blast
  note inP = prefix_exclusive_upper_bound_Some [OF ub]
  have "list_item_prefix d key v \<le> list_item_key d key v a" "list_item_key d key v (b + 1) < ub"
    using inP item_key_starts by blast+
  then show ?thesis
    using assms ub unfolding inP [symmetric]
    by (auto simp: in_range_def upper_key_def split: if_splits)
qed

lemma engine_scan:
  assumes "engine_contract st view"
  obtains l where "scan_range_raw_limited st lo hi n w = (Inr (take n l), w)"
    "sorted_wrt (<) (map fst l)" "set l = {(k, v). view w k = Some v \<and> in_range lo hi k}"
proof -
  have "\<forall>lo hi n w. \<exists>l. scan_range_raw_limited st lo hi n w = (Inr (take n l), w) \<and>
      sorted_wrt (<) (map fst l) \<and> set l = {(k, v). view w k = Some v \<and> in_range lo hi k}"
    using assms by (simp add: engine_contract_def)
  then show thesis using that by blast
qed

lemma scan_items:
  assumes "engine_contract st view" "items_clean d (view w)" "valid_owner key"
    and "items_at (view w) d key v a ys" "b = a + int (length ys) - 1" "ys \<noteq> []"
    and "i64_range a" "i64_range (b + 1)" "0 \<le> a \<or> b < 0" "length ys \<le> n"
  shows "\<exists>l. scan_range_raw_limited st (list_item_key d key v a) (upper_key d key v b) n w = (Inr l, w) \<and> map snd l = ys"
proof -
  let ?k = "list_item_key d key v" and ?L = "map (\<lambda>j. (list_item_key d key v (a + int j), ys ! j)) [0..<length ys]"
  obtain l where l: "scan_range_raw_limited st (?k a) (upper_key d key v b) n w = (Inr (take n l), w)"
    "sorted_wrt (<) (map fst l)" "set l = {(k, u). view w k = Some u \<and> in_range (?k a) (upper_key d key v b) k}"
    by (rule engine_scan [OF assms(1)])
  have ab: "a \<le> b" using assms(5,6) by (cases ys) auto
  have r: "i64_range (a + int j)" if "j < length ys" for j using assms(5,7,8) that by (auto simp: i64_range_def)
  have L: "set ?L = {(k, u). view w k = Some u \<and> in_range (?k a) (upper_key d key v b) k}" (is "_ = ?R")
  proof
    show "set ?L \<subseteq> ?R"
    proof
      fix p assume "p \<in> set ?L"
      then obtain j where j: "j < length ys" "p = (?k (a + int j), ys ! j)" by auto
      then have "in_range (?k a) (upper_key d key v b) (?k (a + int j))"
        using item_range [OF assms(7,8) r [OF j(1)] ab assms(9)] assms(5) by simp
      then show "p \<in> ?R" using items_at_nth [OF assms(4) j(1)] j(2) by simp
    qed
    show "?R \<subseteq> set ?L"
    proof
      fix p assume "p \<in> ?R"
      then obtain k u where p: "p = (k, u)" "view w k = Some u" "in_range (?k a) (upper_key d key v b) k" by auto
      obtain i where i: "i64_range i" "k = ?k i"
        using assms(2,3) range_under_prefix [OF p(3)] p(2) unfolding items_clean_def by blast
      have "a \<le> i" "i \<le> b" using item_range [OF assms(7,8) i(1) ab assms(9)] p(3) i(2) by auto
      then have j: "nat (i - a) < length ys" "a + int (nat (i - a)) = i" using assms(5) by auto
      then have "u = ys ! nat (i - a)" using items_at_nth [OF assms(4) j(1)] p(2) i(2) by simp
      then show "p \<in> set ?L" using p(1) i(2) j by force
    qed
  qed
  have "sorted_wrt (<) (map fst ?L)"
  proof -
    have "?k (a + int j) < ?k (a + int j')" if "j < j'" "j' < length ys" for j j'
      using list_item_order [OF r r, of j j'] that assms(5,9) by auto
    then show ?thesis by (simp add: sorted_wrt_iff_nth_less)
  qed
  then have "l = ?L" using sorted_entries_unique [OF l(2)] l(3) L by blast
  then have "take n l = ?L" using assms(10) by simp
  moreover have "map snd ?L = ys" by (simp add: map_nth o_def)
  ultimately show ?thesis using l(1) by auto
qed

lemma append_range_run:
  assumes "engine_contract (kv db) view" "items_clean (db_no db) (view (engine s))" "valid_owner key"
    and "items_at (view (engine s)) (db_no db) key v a ys" "b = a + int (length ys) - 1"
    and "- int n \<le> a" "b + 1 \<le> int n" "n < max_positions" "0 \<le> a \<or> b < 0" "length ys \<le> limit"
  shows "append_list_range_raw_values db key v a b limit vals s = (Inr (vals @ ys), s)"
proof (cases "ys = []")
  case True
  then show ?thesis using assms(5) by (simp add: append_list_range_raw_values_def return_apply)
next
  case False
  have ab: "a \<le> b" "limit \<noteq> 0" using False assms(5,10) by (cases ys, auto)+
  have r: "i64_range a" "i64_range (b + 1)" using assms(6,7,8) ab by (auto intro!: pos_range [of n])
  have b: "b \<noteq> 2 ^ 63 - 1" using assms(7,8) by (simp add: max_positions_def)
  obtain l where l: "scan_range_raw_limited (kv db) (list_item_key (db_no db) key v a) (upper_key (db_no db) key v b) limit (engine s) = (Inr l, engine s)"
    "map snd l = ys"
    using scan_items [OF assms(1-5) False r assms(9,10)] by blast
  have "append_list_range_raw_values db key v a b limit vals s =
    and_then (engine_call (scan_range_raw_limited (kv db) (list_item_key (db_no db) key v a) (upper_key (db_no db) key v b) limit))
      (\<lambda>entries. return (vals @ map snd entries)) s"
    using ab b by (auto simp: append_list_range_raw_values_def upper_key_def Let_def)
  then show ?thesis using l by (simp add: engine_call_def action_simps)
qed

lemma split_range_run:
  assumes "engine_contract (kv db) view" "items_clean (db_no db) (view (engine s))" "valid_owner key" "v \<noteq> 0"
    and "items_at (view (engine s)) (db_no db) key v a ys" "b = a + int (length ys) - 1"
    and "- int n \<le> a" "b + 1 \<le> int n" "n < max_positions"
  shows "list_range_raw_values db key v a b s = (Inr ys, s)"
proof -
  let ?app = "append_list_range_raw_values db key v"
  let ?neg = "if a < 0 then nat (min b (- 1) - a + 1) else 0"
  let ?y1 = "take ?neg ys" and ?y2 = "drop ?neg ys"
  have len: "nat (b - a + 1) = length ys" using assms(6) by simp
  have parts: "items_at (view (engine s)) (db_no db) key v a ?y1" "items_at (view (engine s)) (db_no db) key v (a + int (length ?y1)) ?y2"
    using assms(5) items_at_append [of _ _ _ _ a ?y1 ?y2] by simp_all
  have first: "(if a < 0 then ?app a (min b (- 1)) (length ys) [] else return []) s = (Inr ?y1, s)"
  proof (cases "a < 0")
    case True
    have "?app a (min b (- 1)) (length ys) [] s = (Inr ([] @ ?y1), s)"
      by (rule append_range_run [OF assms(1-3) parts(1) _ assms(7) _ assms(9)]) (use True assms(6,8) in \<open>auto simp: min_def\<close>)
    then show ?thesis using True by simp
  qed (simp add: return_apply)
  have second: "?app (max a 0) b (length ys - length ?y1) ?y1 s = (Inr ys, s)" if "b \<ge> 0"
  proof -
    have "max a 0 = a + int (length ?y1)" using that assms(6) by (auto simp: min_def)
    then have "?app (max a 0) b (length ys - length ?y1) ?y1 s = (Inr (?y1 @ ?y2), s)"
      using parts(2) assms(6-8)
      by (intro append_range_run [OF assms(1-3) _ _ _ _ assms(9)]) (auto simp: max_def)
    then show ?thesis by simp
  qed
  have "?y1 = ys" if "b < 0" using that assms(6) by (cases ys) (auto simp: min_def)
  then show ?thesis
    using second assms(4) by (simp add: list_range_raw_values_def Let_def len and_then_def first return_apply del: length_take)
qed

section \<open>The commands\<close>

text \<open>LRANGE on a list: negative ends count from the tail, ends outside the list are cut off.\<close>

definition lrange :: "int \<Rightarrow> int \<Rightarrow> 'a list \<Rightarrow> 'a list" where
  "lrange start stop xs =
     (let n = int (length xs);
          a = max (if start < 0 then n + start else start) 0;
          b = min (if stop < 0 then n + stop else stop) (n - 1)
      in take (nat (b - a + 1)) (drop (nat a) xs))"

definition lindex :: "int \<Rightarrow> 'a list \<Rightarrow> 'a option" where
  "lindex index xs =
     (let j = (if index < 0 then int (length xs) + index else index)
      in if 0 \<le> j \<and> j < int (length xs) then Some (xs ! nat j) else None)"

lemma resolve_range_some:
  assumes "lm_tail meta - lm_head meta = int (length xs)" "xs \<noteq> []"
  shows "case resolve_list_range meta start stop of
      None \<Rightarrow> lrange start stop xs = []
    | Some (lo, hi) \<Rightarrow> lm_head meta \<le> lo \<and> lo \<le> hi \<and> hi < lm_tail meta \<and>
        lrange start stop xs = take (nat (hi - lo + 1)) (drop (nat (lo - lm_head meta)) xs)"
  using assms by (cases xs) (auto simp: resolve_list_range_def lrange_def Let_def)

lemma resolve_index_some:
  assumes "lm_tail meta - lm_head meta = int (length xs)" "xs \<noteq> []"
  shows "case resolve_list_index meta index of
      None \<Rightarrow> lindex index xs = None
    | Some i \<Rightarrow> lm_head meta \<le> i \<and> i < lm_tail meta \<and> lindex index xs = Some (xs ! nat (i - lm_head meta))"
  using assms by (auto simp: resolve_list_index_def lindex_def Let_def)

lemma packed_range_run:
  assumes "engine_contract (kv db) view" "mk_key db key = key" "view (engine s) key = Some raw" "decode_packed_list raw = Some xs"
    and "0 \<le> a" "a \<le> b" "b < int (length xs)"
  shows "list_range_raw_values db key 0 a b s = (Inr (take (nat (b - a + 1)) (drop (nat a) xs)), s)"
proof -
  have "min (nat (max b (- 1) + 1)) (length xs) = nat b + 1" "nat a \<le> nat b + 1" using assms(5-7) by auto
  moreover have "nat b + 1 - nat a = nat (b - a + 1)" using assms(5,6) by auto
  moreover have "nat (max a 0) = nat a" "nat a \<le> nat (max b (- 1) + 1)" "nat a \<le> length xs" using assms(5-7) by auto
  ultimately show ?thesis
    using assms(3,4) by (simp add: list_range_raw_values_def Let_def action_simps db_get_run [OF assms(1)] assms(2) drop_take)
qed

lemma range_raw_run:
  assumes "serves db view" "items_clean (db_no db) (view (engine s))" "valid_owner key" "alive db e" "n < max_positions"
    and "describes (view (engine s)) (db_no db) key e n xs (Some meta)"
    and "lm_head meta \<le> lo" "lo \<le> hi" "hi < lm_tail meta"
  shows "list_range_raw_values db key (lm_version meta) lo hi s =
    (Inr (take (nat (hi - lo + 1)) (drop (nat (lo - lm_head meta)) xs)), s)"
proof -
  have c: "engine_contract (kv db) view" and mk: "mk_key db key = key"
    using assms(1) mk_key_eq by (auto simp: serves_def)
  show ?thesis
  proof (cases "split_at (view (engine s)) (db_no db) key n meta xs")
    case True
    let ?i = "nat (lo - lm_head meta)" and ?c = "nat (hi - lo + 1)"
    let ?ys = "take ?c (drop ?i xs)"
    have sp: "lm_version meta \<noteq> 0" "- int n \<le> lm_head meta" "lm_tail meta \<le> int n"
      "lm_tail meta - lm_head meta = int (length xs)"
      "items_at (view (engine s)) (db_no db) key (lm_version meta) (lm_head meta) xs"
      using True by (auto simp: split_at_def)
    have "xs = take ?i xs @ ?ys @ drop ?c (drop ?i xs)" by (simp only: append_take_drop_id)
    then have "items_at (view (engine s)) (db_no db) key (lm_version meta) (lm_head meta + int (length (take ?i xs))) ?ys"
      using sp(5) items_at_append by metis
    moreover have "lm_head meta + int (length (take ?i xs)) = lo" "hi = lo + int (length ?ys) - 1"
      using sp(4) assms(7-9) by auto
    ultimately show ?thesis
      using sp assms(7-9) by (intro split_range_run [OF c assms(2,3) sp(1) _ _ _ _ assms(5)]) auto
  next
    case False
    then have pk: "packed_at (view (engine s)) key e xs" "meta = \<lparr>lm_expire_ms = e, lm_version = 0, lm_head = 0, lm_tail = int (length xs)\<rparr>"
      using assms(6) by (auto simp: describes_def)
    obtain raw where "view (engine s) key = Some raw" "decode_packed_list raw = Some xs"
      using packed_at_decode [OF pk(1)] assms(4) by (auto simp: alive_def)
    then show ?thesis using packed_range_run [OF c mk] assms(7-9) pk(2) by simp
  qed
qed

lemma describes_length: "describes m d key e n xs (Some meta) \<Longrightarrow> xs \<noteq> [] \<and> lm_tail meta - lm_head meta = int (length xs)"
  by (cases meta) (auto simp: describes_def split_at_def)

lemma list_range_run:
  assumes "serves db view" "cache_ok db view s" "items_clean (db_no db) (view (engine s))" "valid_owner key"
    and "list_at (view (engine s)) (db_no db) key e n xs" "alive db e" "n < max_positions"
  shows "\<exists>s'. list_range_bytes db key start stop s = (Inr (lrange start stop xs), s') \<and>
    engine s' = engine s \<and> cache_ok db view s'"
proof -
  obtain s' found where r: "list_meta_of db key s = (Inr found, s')" "engine s' = engine s" "cache_ok db view s'"
    "describes (view (engine s)) (db_no db) key e n xs found"
    using meta_run [OF assms(1,2,4-7)] by metis
  show ?thesis
  proof (cases found)
    case None
    then have "lrange start stop xs = []" using r(4) by (simp add: describes_def lrange_def)
    then show ?thesis using r None by (simp add: list_range_bytes_def action_simps)
  next
    case (Some meta)
    have d: "describes (view (engine s')) (db_no db) key e n xs (Some meta)" using r(2,4) Some by simp
    note len = describes_length [OF d]
    show ?thesis
    proof (cases "resolve_list_range meta start stop")
      case None
      then have "lrange start stop xs = []" using resolve_range_some [of meta xs start stop] len by simp
      then show ?thesis using r(1-3) Some None by (simp add: list_range_bytes_def action_simps)
    next
      case (Some p)
      obtain lo hi where p: "p = (lo, hi)" by (cases p)
      have b: "lm_head meta \<le> lo" "lo \<le> hi" "hi < lm_tail meta"
        "lrange start stop xs = take (nat (hi - lo + 1)) (drop (nat (lo - lm_head meta)) xs)"
        using resolve_range_some [of meta xs start stop] len Some p by simp_all
      have "items_clean (db_no db) (view (engine s'))" using assms(3) r(2) by simp
      note raw = range_raw_run [OF assms(1) this assms(4,6,7) d b(1-3)]
      show ?thesis
        using r(1-3) \<open>found = Some meta\<close> Some p raw b(4) by (simp add: list_range_bytes_def action_simps)
    qed
  qed
qed

lemma list_len_run:
  assumes "serves db view" "cache_ok db view s" "valid_owner key"
    and "list_at (view (engine s)) (db_no db) key e n xs" "alive db e" "n < max_positions"
  shows "\<exists>s'. list_len db key s = (Inr (length xs), s') \<and> engine s' = engine s \<and> cache_ok db view s'"
proof -
  obtain s' found where r: "list_meta_of db key s = (Inr found, s')" "engine s' = engine s" "cache_ok db view s'"
    "describes (view (engine s)) (db_no db) key e n xs found"
    using meta_run [OF assms] by metis
  have "(case found of Some meta \<Rightarrow> nat (lm_tail meta - lm_head meta) | None \<Rightarrow> 0) = length xs"
  proof (cases found)
    case None
    then show ?thesis using r(4) by (simp add: describes_def)
  next
    case (Some meta)
    then show ?thesis using r(4) describes_length by simp
  qed
  then show ?thesis using r by (simp add: list_len_def action_simps)
qed

lemma list_index_run:
  assumes "serves db view" "cache_ok db view s" "items_clean (db_no db) (view (engine s))" "valid_owner key"
    and "list_at (view (engine s)) (db_no db) key e n xs" "alive db e" "n < max_positions"
  shows "\<exists>s'. list_index db key index s =
      (Inr (case lindex index xs of None \<Rightarrow> None | Some x \<Rightarrow> utf8_text x), s') \<and> engine s' = engine s \<and> cache_ok db view s'"
proof -
  have c: "engine_contract (kv db) view" using assms(1) by (auto simp: serves_def)
  obtain s' found where r: "list_meta_of db key s = (Inr found, s')" "engine s' = engine s" "cache_ok db view s'"
    "describes (view (engine s)) (db_no db) key e n xs found"
    using meta_run [OF assms(1,2,4-7)] by metis
  show ?thesis
  proof (cases found)
    case None
    then have "lindex index xs = None" using r(4) by (simp add: describes_def lindex_def)
    then show ?thesis using r None by (simp add: list_index_def action_simps)
  next
    case (Some meta)
    have d: "describes (view (engine s')) (db_no db) key e n xs (Some meta)" using r(2,4) Some by simp
    note len = describes_length [OF d]
    show ?thesis
    proof (cases "resolve_list_index meta index")
      case None
      then have "lindex index xs = None" using resolve_index_some [of meta xs index] len by simp
      then show ?thesis using r(1-3) Some None by (simp add: list_index_def action_simps)
    next
      case (Some i)
      let ?x = "xs ! nat (i - lm_head meta)"
      have b: "lm_head meta \<le> i" "i < lm_tail meta" "lindex index xs = Some ?x"
        using resolve_index_some [of meta xs index] len Some by simp_all
      have j: "nat (i - lm_head meta) < length xs" "lm_head meta + int (nat (i - lm_head meta)) = i" using b len by auto
      have "items_clean (db_no db) (view (engine s'))" using assms(3) r(2) by simp
      then have raw: "list_range_raw_values db key (lm_version meta) i i s' = (Inr [?x], s')"
        using range_raw_run [OF assms(1) _ assms(4,6,7) d b(1) order_refl b(2)] j(1)
        by (simp add: take_Suc_conv_app_nth [of 0, simplified] hd_drop_conv_nth take_Suc)
      have "view (engine s') (list_item_key (db_no db) key (lm_version meta) i) = Some ?x" if "lm_version meta \<noteq> 0"
        using d that items_at_nth [OF _ j(1)] j(2) by (cases meta) (auto simp: describes_def split_at_def)
      then show ?thesis
        using r(1-3) \<open>found = Some meta\<close> Some raw b(3)
        by (cases "lm_version meta = 0") (simp_all add: list_index_def action_simps db_get_run [OF c])
    qed
  qed
qed

end
