(* ===== verification/List_Change.thy ===== *)
theory List_Change
  imports List_Read
begin

text \<open>
  LSET, LTRIM, LINSERT and LREM refine the operations on lists. All of them first promote a packed list, and then
  rewrite the shorter side of a split list.
\<close>

lemma begin_split_run:
  assumes "serves db view" "cache_ok db view s" "valid_owner key" "versions_left db 1 s"
    and "list_at (view (engine s)) (db_no db) key e n xs" "alive db e" "n < max_positions"
  obtains s1 s' found where "promote_packed_list db key s = (Inr (), s1)" "list_meta_of db key s1 = (Inr found, s')"
    "cache_ok db view s'" "list_frame (db_no db) key (view (engine s)) (view (engine s'))"
    "case found of None \<Rightarrow> xs = [] \<and> list_at (view (engine s')) (db_no db) key e n xs
      | Some meta \<Rightarrow> lm_expire_ms meta = e \<and> split_at (view (engine s')) (db_no db) key n meta xs"
proof -
  have vl: "versions_left db (Suc 0) s" using assms(4) by simp
  obtain s1 where s1: "promote_packed_list db key s = (Inr (), s1)" "cache_ok db view s1"
    "split_list (view (engine s1)) (db_no db) key e n xs" "list_frame (db_no db) key (view (engine s)) (view (engine s1))"
    by (rule promote_run [OF assms(1-3) vl assms(5-7)])
  obtain s' found where r: "list_meta_of db key s1 = (Inr found, s')" "engine s' = engine s1" "cache_ok db view s'"
    "case found of None \<Rightarrow> xs = [] | Some meta \<Rightarrow> lm_expire_ms meta = e \<and> split_at (view (engine s')) (db_no db) key n meta xs"
    by (rule split_meta_run [OF assms(1) s1(2) assms(3) s1(3) assms(6,7)])
  have "list_at (view (engine s')) (db_no db) key e n xs" using split_list_at [OF s1(3)] r(2) by simp
  then show thesis using that [OF s1(1) r(1,3)] s1(4) r(2,4) by (cases found) simp_all
qed

lemma list_becomes_trans:
  "list_frame (db_no db) key (view (engine s)) (view (engine s1)) \<Longrightarrow> list_becomes db view key e n ys s1 s' \<Longrightarrow>
   list_becomes db view key e n ys s s'"
  using list_frame_trans by (auto simp: list_becomes_def)

lemma list_becomes_changes [simp]: "list_becomes db view key e n ys s (s'\<lparr>changes := c\<rparr>) = list_becomes db view key e n ys s s'"
  by (simp add: list_becomes_def)

lemma split_at_parts:
  assumes "split_at m d key n meta xs"
  shows "xs \<noteq> []" "lm_version meta \<noteq> 0" "- int n \<le> lm_head meta" "lm_tail meta \<le> int n"
    "lm_tail meta - lm_head meta = int (length xs)" "items_at m d key (lm_version meta) (lm_head meta) xs"
    "lm_head meta \<le> lm_tail meta"
  using assms by (auto simp: split_at_def)

section \<open>LSET\<close>

lemma items_at_update:
  assumes "items_at m d key v head xs" "j < length xs" "i64_range head" "i64_range (head + int (length xs))"
  shows "items_at (m(list_item_key d key v (head + int j) \<mapsto> y)) d key v head (xs[j := y])"
  unfolding items_at_def
proof (intro allI impI)
  fix i assume i: "i < length (xs[j := y])"
  have "i64_range (head + int i)" "i64_range (head + int j)" using i assms(2-4) by (auto simp: i64_range_def)
  then show "(m(list_item_key d key v (head + int j) \<mapsto> y)) (list_item_key d key v (head + int i)) = Some (xs[j := y] ! i)"
    using items_at_nth [OF assms(1), of i] i item_key_inject by (cases "i = j") auto
qed

lemma list_set_run:
  assumes "serves db view" "cache_ok db view s" "valid_owner key" "versions_left db 1 s"
    and "list_at (view (engine s)) (db_no db) key e n xs" "alive db e" "n < max_positions"
  shows "\<exists>s'. list_set_value db key index val s =
      ((if xs = [] then Inl No_such_key else case lindex index xs of None \<Rightarrow> Inl Index_out_of_range | Some _ \<Rightarrow> Inr ()), s') \<and>
    list_becomes db view key e n
      (case lindex index xs of None \<Rightarrow> xs
       | Some _ \<Rightarrow> xs[nat (if index < 0 then int (length xs) + index else index) := val]) s s'"
proof -
  have c: "engine_contract (kv db) view" "key_layout db = CURRENT" and mk: "mk_key db key = key"
    using assms(1) mk_key_eq by (auto simp: serves_def)
  have u: "utf8_valid key" using assms(3) by (simp add: valid_owner_def)
  obtain s1 s2 found where r: "promote_packed_list db key s = (Inr (), s1)" "list_meta_of db key s1 = (Inr found, s2)"
    and ok: "cache_ok db view s2" "list_frame (db_no db) key (view (engine s)) (view (engine s2))"
    and f: "case found of None \<Rightarrow> xs = [] \<and> list_at (view (engine s2)) (db_no db) key e n xs
      | Some meta \<Rightarrow> lm_expire_ms meta = e \<and> split_at (view (engine s2)) (db_no db) key n meta xs"
    by (rule begin_split_run [OF assms])
  show ?thesis
  proof (cases found)
    case None
    then show ?thesis
      using r f ok by (auto simp: list_set_value_def action_simps lindex_def list_becomes_def)
  next
    case (Some meta)
    then have e: "lm_expire_ms meta = e" and sp: "split_at (view (engine s2)) (db_no db) key n meta xs" using f by simp_all
    note p = split_at_parts [OF sp]
    show ?thesis
    proof (cases "resolve_list_index meta index")
      case None
      then have "lindex index xs = None" using resolve_index_some [OF p(5,1), of index] by simp
      then show ?thesis
        using r Some None p(1) ok split_at_list_at [OF sp] e
        by (simp add: list_set_value_def action_simps list_becomes_def)
    next
      case (Some i)
      let ?j = "nat (i - lm_head meta)" and ?k = "list_item_key (db_no db) key (lm_version meta) i"
      have b: "lm_head meta \<le> i" "i < lm_tail meta" "lindex index xs = Some (xs ! ?j)"
        using resolve_index_some [OF p(5,1), of index] Some by simp_all
      have j: "?j < length xs" "lm_head meta + int ?j = i" using b(1,2) p(5) by auto
      have idx: "nat (if index < 0 then int (length xs) + index else index) = ?j"
        using Some p(5) by (auto simp: resolve_list_index_def Let_def split: if_splits)
      have rng: "i64_range (lm_head meta)" "i64_range (lm_head meta + int (length xs))"
        using p assms(7) by (auto intro!: pos_range [of n])
      let ?b = "[(Put, ?k, val)]"
      obtain s' where s': "write_batch_if_not_empty db ?b s2 = (Inr (), s')" "committed db view ?b s2 s'"
        using write_batch_run [OF c ok(1), of ?b] by auto
      have "items_at (apply_batch ?b (view (engine s2))) (db_no db) key (lm_version meta) (lm_head meta) (xs[?j := val])"
        using items_at_update [OF p(6) j(1) rng] j(2) by (simp add: apply_batch_single)
      moreover have "view (engine s') key = view (engine s2) key"
        using committed_at(1) [OF s'(2) u] item_key_not_main [OF u, symmetric] by (simp add: apply_batch_single)
      ultimately have "split_at (view (engine s')) (db_no db) key n meta (xs[?j := val])"
        using sp committed_at(3) [OF s'(2)] by (simp add: split_at_def)
      then have "list_becomes db view key e n (xs[?j := val]) s2 s'"
        using split_at_list_at e committed_cache [OF s'(2)] committed_frame [OF s'(2) _ assms(3)]
        by (auto simp: list_becomes_def list_op_item)
      then show ?thesis
        using r \<open>found = Some meta\<close> Some s'(1) b(3) p(1) idx list_becomes_trans [OF ok(2)]
        by (simp add: list_set_value_def action_simps fetch_add_changes_def)
    qed
  qed
qed

section \<open>LTRIM\<close>

lemma items_at_sub:
  assumes "items_at m d key v head xs" "i \<le> length xs"
  shows "items_at m d key v (head + int i) (take c (drop i xs))"
proof -
  have "items_at m d key v head (take i xs @ take c (drop i xs) @ drop c (drop i xs))"
    using assms(1) by (simp only: append_take_drop_id)
  then show ?thesis using assms(2) by (simp add: items_at_append min_absorb2)
qed

lemma list_trim_run:
  assumes "serves db view" "cache_ok db view s" "valid_owner key" "versions_left db 1 s"
    and "list_at (view (engine s)) (db_no db) key e n xs" "alive db e" "n < max_positions"
  shows "\<exists>s'. list_trim db key start stop s = (Inr (), s') \<and>
    list_becomes db view key (if lrange start stop xs = [] then 0 else e) n (lrange start stop xs) s s'"
proof -
  have c: "engine_contract (kv db) view" "key_layout db = CURRENT" and mk: "mk_key db key = key"
    using assms(1) mk_key_eq by (auto simp: serves_def)
  have u: "utf8_valid key" using assms(3) by (simp add: valid_owner_def)
  obtain s1 s2 found where r: "promote_packed_list db key s = (Inr (), s1)" "list_meta_of db key s1 = (Inr found, s2)"
    and ok: "cache_ok db view s2" "list_frame (db_no db) key (view (engine s)) (view (engine s2))"
    and f: "case found of None \<Rightarrow> xs = [] \<and> list_at (view (engine s2)) (db_no db) key e n xs
      | Some meta \<Rightarrow> lm_expire_ms meta = e \<and> split_at (view (engine s2)) (db_no db) key n meta xs"
    by (rule begin_split_run [OF assms])
  show ?thesis
  proof (cases found)
    case None
    then have "lrange start stop xs = []" "xs = []" using f by (simp_all add: lrange_def)
    then show ?thesis
      using r f ok None by (simp add: list_trim_def action_simps list_becomes_def list_at_def)
  next
    case (Some meta)
    then have e: "lm_expire_ms meta = e" and sp: "split_at (view (engine s2)) (db_no db) key n meta xs" using f by simp_all
    note p = split_at_parts [OF sp]
    let ?d = "db_no db" and ?v = "lm_version meta" and ?ys = "lrange start stop xs"
    let ?kept = "resolve_list_range meta start stop"
    have rng: "i64_range (lm_head meta)" "i64_range (lm_tail meta)" using p assms(7) by (auto intro!: pos_range [of n])
    obtain batch where b: "trim_batch db key meta ?kept = Some batch" "batch \<noteq> []" "list_all plain_op batch" "list_all (list_op ?d key) batch"
      and after: "\<And>s'. committed db view batch s2 s' \<Longrightarrow> list_at (view (engine s')) ?d key (if ?ys = [] then 0 else e) n ?ys"
    proof (cases ?kept)
      case None
      then have ys: "?ys = []" using resolve_range_some [OF p(5,1), of start stop] by simp
      obtain d1 where d1: "delete_list_storage_range_to_batch [] ?d key ?v (lm_head meta) (lm_tail meta) = Some d1"
        "range_deletes ?d key ?v (lm_head meta) (lm_tail meta) d1"
        using range_deletes_run [OF rng, of "[]"] append_Nil by metis
      let ?b = "delete_main_key_with_ttl_to_batch db d1 key e"
      have "list_all plain_op ?b" "list_all (list_op ?d key) ?b"
        using range_deletes_ops [OF d1(2)] mk
        by (auto simp: delete_main_key_with_ttl_to_batch_def remove_known_to_batch_def intro: list_op_intros)
      moreover have "list_at (view (engine s')) ?d key 0 n []" if "committed db view ?b s2 s'" for s'
        using committed_at(1) [OF that u] delete_main_apply [OF mk u] by (simp add: list_at_def)
      ultimately show thesis
        using that [of ?b] None d1(1) ys e
        by (simp add: trim_batch_def delete_main_key_with_ttl_to_batch_def remove_known_to_batch_def)
    next
      case (Some q)
      obtain lo hi where q: "q = (lo, hi)" by (cases q)
      have k: "lm_head meta \<le> lo" "lo \<le> hi" "hi < lm_tail meta"
        "?ys = take (nat (hi - lo + 1)) (drop (nat (lo - lm_head meta)) xs)"
        using resolve_range_some [OF p(5,1), of start stop] Some q by simp_all
      have kr: "i64_range lo" "i64_range (hi + 1)" using k p assms(7) by (auto intro!: pos_range [of n])
      obtain d1 where d1: "delete_list_storage_range_to_batch [] ?d key ?v (lm_head meta) lo = Some d1"
        "range_deletes ?d key ?v (lm_head meta) lo d1"
        using range_deletes_run [OF rng(1) kr(1), of "[]"] append_Nil by metis
      obtain d2 where d2: "delete_list_storage_range_to_batch d1 ?d key ?v (hi + 1) (lm_tail meta) = Some (d1 @ d2)"
        "range_deletes ?d key ?v (hi + 1) (lm_tail meta) d2"
        using range_deletes_run [OF kr(2) rng(2)] by metis
      define U where "U = meta\<lparr>lm_head := lo, lm_tail := hi + 1\<rparr>"
      let ?b = "(d1 @ d2) @ [meta_put db key U]"
      have len: "lo + int (length ?ys) = hi + 1" "?ys \<noteq> []" using k p(5) by auto
      have "items_at (view (engine s2)) ?d key ?v lo ?ys"
        using items_at_sub [OF p(6), of "nat (lo - lm_head meta)"] k p(5) by simp
      then have "items_at (apply_batch d1 (view (engine s2))) ?d key ?v lo ?ys"
        by (rule range_deletes_items [OF d1(2)]) (use kr len in auto)
      then have "items_at (apply_batch (d1 @ d2) (view (engine s2))) ?d key ?v lo ?ys"
        unfolding apply_batch_append by (rule range_deletes_items [OF d2(2)]) (use kr len in auto)
      then have "split_at (view (engine s')) ?d key n U ?ys" if "committed db view ?b s2 s'" for s'
        by (intro split_committed [OF that mk u]) (use p k len in \<open>auto simp: U_def\<close>)
      then have "list_at (view (engine s')) ?d key e n ?ys" if "committed db view ?b s2 s'" for s'
        using split_at_list_at that e by (fastforce simp: U_def)
      moreover have "list_all plain_op ?b" "list_all (list_op ?d key) ?b"
        using range_deletes_ops [OF d1(2)] range_deletes_ops [OF d2(2)] mk by (simp_all add: meta_put_def list_op_main)
      ultimately show thesis
        using that [of ?b] Some q d1(1) d2(1) len(2) by (simp add: trim_batch_def U_def)
    qed
    obtain s' where s': "write_batch_if_not_empty db batch s2 = (Inr (), s')" "committed db view batch s2 s'"
      using write_batch_run [OF c ok(1) b(2,3)] by metis
    have "list_becomes db view key (if ?ys = [] then 0 else e) n ?ys s2 s'"
      using after [OF s'(2)] committed_cache [OF s'(2)] committed_frame [OF s'(2) b(4) assms(3)] by (simp add: list_becomes_def)
    then show ?thesis
      using r Some b(1,2) s'(1) list_becomes_trans [OF ok(2)]
      by (simp add: list_trim_def action_simps expect_def fetch_add_changes_def)
  qed
qed

section \<open>LINSERT\<close>

lemma item_puts_other:
  assumes "items_at m d key v h ys" "h + int (length ys) \<le> start \<or> start + int (length xs) \<le> h"
    and "i64_range h" "i64_range (h + int (length ys))" "i64_range start" "i64_range (start + int (length xs))"
  shows "items_at (apply_batch (item_puts d key v start xs) m) d key v h ys"
proof -
  have "apply_batch (item_puts d key v start xs) m (list_item_key d key v (h + int j)) = m (list_item_key d key v (h + int j))"
    if j: "j < length ys" for j
  proof (rule item_puts_apply(2) [OF assms(5,6)])
    fix i assume i: "start \<le> i" "i < start + int (length xs)"
    have "i64_range i" "i64_range (h + int j)" "h + int j \<noteq> i" using assms(2-6) i j by (auto simp: i64_range_def)
    then show "list_item_key d key v (h + int j) \<noteq> list_item_key d key v i" using item_key_inject by simp
  qed
  then show ?thesis using assms(1) items_at_cong by blast
qed

text \<open>Moving the shorter side makes room at the insertion point.\<close>

lemma insert_batch_run:
  assumes "items_at m (db_no db) key (lm_version meta) (lm_head meta) xs" "lm_tail meta - lm_head meta = int (length xs)"
    and "- int n \<le> lm_head meta" "lm_tail meta \<le> int n" "n + 1 < max_positions" "i \<le> length xs"
  obtains batch updated where "build_list_insert_batch db key meta xs i element = Some (batch @ [meta_put db key updated], updated)"
    "items_at (apply_batch batch m) (db_no db) key (lm_version updated) (lm_head updated) (take i xs @ element # drop i xs)"
    "lm_version updated = lm_version meta" "lm_expire_ms updated = lm_expire_ms meta"
    "- int (n + 1) \<le> lm_head updated" "lm_tail updated \<le> int (n + 1)"
    "lm_tail updated - lm_head updated = int (length xs + 1)"
    "list_all plain_op batch" "list_all (list_op (db_no db) key) batch"
proof -
  let ?d = "db_no db" and ?v = "lm_version meta" and ?h = "lm_head meta"
  have split: "items_at m ?d key ?v ?h (take i xs)" "items_at m ?d key ?v (?h + int i) (drop i xs)"
    using assms(1,6) items_at_append [of m ?d key ?v ?h "take i xs" "drop i xs"] by (simp_all add: min_absorb2)
  have can: "lm_head meta > - (2 ^ 63)" "lm_tail meta < 2 ^ 63 - 1" using assms(2-5) by (auto simp: max_positions_def)
  have len: "int (length (take i xs)) = int i" "int (length (drop i xs)) = int (length xs) - int i" using assms(6) by auto
  have r: "i64_range j" if "?h - 1 \<le> j" "j \<le> lm_tail meta + 1" for j
    using that assms(3-5) by (auto intro!: pos_range [of "n + 1"])
  show thesis
  proof (cases "i \<le> length xs - i")
    case True
    let ?b1 = "item_puts ?d key ?v (?h - 1) (take i xs)" and ?k = "list_item_key ?d key ?v (?h + int i - 1)"
    let ?m1 = "apply_batch ?b1 m" and ?U = "meta\<lparr>lm_head := ?h - 1\<rparr>"
    have rs: "i64_range (?h - 1)" "i64_range (?h - 1 + int (length (take i xs)))" "i64_range (?h + int i)"
      "i64_range (?h + int i + int (length (drop i xs)))" "i64_range (?h + int i - 1)"
      using assms(2,6) len by (auto intro!: r)
    have m1: "items_at ?m1 ?d key ?v (?h - 1) (take i xs)" "items_at ?m1 ?d key ?v (?h + int i) (drop i xs)"
      using item_puts_apply(1) [OF rs(1,2)] item_puts_other [OF split(2) _ rs(3,4,1,2)] len(1) by auto
    have "items_at (?m1(?k \<mapsto> element)) ?d key ?v (?h - 1) (take i xs @ element # drop i xs)"
      using m1 items_at_update_other [of "?h + int i - 1" "?h - 1" "take i xs"] items_at_update_other [of "?h + int i - 1" "?h + int i" "drop i xs"]
        rs len by (simp add: items_at_append items_at_Cons algebra_simps)
    moreover have "build_list_insert_batch db key meta xs i element = Some ((?b1 @ [(Put, ?k, element)]) @ [meta_put db key ?U], ?U)"
      using True can by (simp add: build_list_insert_batch_def Let_def)
    ultimately show thesis
      using that [of "?b1 @ [(Put, ?k, element)]" ?U] assms(2-4) item_puts_ops by (simp add: list_op_item)
  next
    case False
    let ?b1 = "item_puts ?d key ?v (?h + int i + 1) (drop i xs)" and ?k = "list_item_key ?d key ?v (?h + int i)"
    let ?m1 = "apply_batch ?b1 m" and ?U = "meta\<lparr>lm_tail := lm_tail meta + 1\<rparr>"
    have rs: "i64_range (?h + int i + 1)" "i64_range (?h + int i + 1 + int (length (drop i xs)))" "i64_range ?h"
      "i64_range (?h + int (length (take i xs)))" "i64_range (?h + int i)"
      using assms(2,6) len by (auto intro!: r)
    have m1: "items_at ?m1 ?d key ?v (?h + int i + 1) (drop i xs)" "items_at ?m1 ?d key ?v ?h (take i xs)"
      using item_puts_apply(1) [OF rs(1,2)] item_puts_other [OF split(1) _ rs(3,4,1,2)] len(1) by auto
    have "items_at (?m1(?k \<mapsto> element)) ?d key ?v ?h (take i xs @ element # drop i xs)"
      using m1 items_at_update_other [of "?h + int i" ?h "take i xs"] items_at_update_other [of "?h + int i" "?h + int i + 1" "drop i xs"]
        rs len by (simp add: items_at_append items_at_Cons algebra_simps)
    moreover have "build_list_insert_batch db key meta xs i element = Some ((?b1 @ [(Put, ?k, element)]) @ [meta_put db key ?U], ?U)"
      using False can by (simp add: build_list_insert_batch_def Let_def)
    ultimately show thesis
      using that [of "?b1 @ [(Put, ?k, element)]" ?U] assms(2-4) item_puts_ops by (simp add: list_op_item)
  qed
qed

text \<open>LINSERT on a list.\<close>

fun linsert :: "bool \<Rightarrow> 'a \<Rightarrow> 'a \<Rightarrow> 'a list \<Rightarrow> 'a list option" where
  "linsert before pivot element [] = None"
| "linsert before pivot element (x # xs) =
     (if x = pivot then Some (if before then element # x # xs else x # element # xs)
      else map_option (Cons x) (linsert before pivot element xs))"

lemma linsert_position:
  "linsert before pivot element xs =
     (case iter_position (\<lambda>v. v = pivot) xs of
        None \<Rightarrow> None
      | Some p \<Rightarrow> (let i = (if before then p else p + 1) in Some (take i xs @ element # drop i xs)))"
  by (induction xs) (auto simp: Let_def split: option.splits)

lemma read_all_run:
  assumes "serves db view" "items_clean (db_no db) (view (engine s))" "valid_owner key"
    and "split_at (view (engine s)) (db_no db) key n meta xs" "n < max_positions"
  shows "list_range_raw_values db key (lm_version meta) (lm_head meta) (lm_tail meta - 1) s = (Inr xs, s)"
proof -
  have c: "engine_contract (kv db) view" using assms(1) by (simp add: serves_def)
  note p = split_at_parts [OF assms(4)]
  show ?thesis by (rule split_range_run [OF c assms(2,3) p(2,6) _ p(3) _ assms(5)]) (use p in auto)
qed

lemma list_insert_run:
  assumes "serves db view" "cache_ok db view s" "valid_owner key" "versions_left db 1 s"
    and "list_at (view (engine s)) (db_no db) key e n xs" "alive db e" "n + 1 < max_positions"
    and "items_clean (db_no db) (view (engine s))"
  shows "\<exists>s'. list_insert db key before pivot element s =
      (Inr (if xs = [] then 0 else case linsert before pivot element xs of None \<Rightarrow> - 1 | Some ys \<Rightarrow> int (length ys)), s') \<and>
    list_becomes db view key e (n + 1) (case linsert before pivot element xs of None \<Rightarrow> xs | Some ys \<Rightarrow> ys) s s'"
proof -
  have c: "engine_contract (kv db) view" "key_layout db = CURRENT" and mk: "mk_key db key = key"
    using assms(1) mk_key_eq by (auto simp: serves_def)
  have u: "utf8_valid key" using assms(3) by (simp add: valid_owner_def)
  have n: "n < max_positions" using assms(7) by simp
  obtain s1 s2 found where r: "promote_packed_list db key s = (Inr (), s1)" "list_meta_of db key s1 = (Inr found, s2)"
    and ok: "cache_ok db view s2" "list_frame (db_no db) key (view (engine s)) (view (engine s2))"
    and f: "case found of None \<Rightarrow> xs = [] \<and> list_at (view (engine s2)) (db_no db) key e n xs
      | Some meta \<Rightarrow> lm_expire_ms meta = e \<and> split_at (view (engine s2)) (db_no db) key n meta xs"
    by (rule begin_split_run [OF assms(1-6) n])
  show ?thesis
  proof (cases found)
    case None
    then show ?thesis
      using r f ok by (auto simp: list_insert_def action_simps list_becomes_def list_at_def)
  next
    case (Some meta)
    then have e: "lm_expire_ms meta = e" and sp: "split_at (view (engine s2)) (db_no db) key n meta xs" using f by simp_all
    note p = split_at_parts [OF sp]
    have clean: "items_clean (db_no db) (view (engine s2))" using ok(2) assms(8) by (simp add: list_frame_def)
    note all = read_all_run [OF assms(1) clean assms(3) sp n]
    show ?thesis
    proof (cases "iter_position (\<lambda>v. v = pivot) xs")
      case None
      then have "linsert before pivot element xs = None" by (simp add: linsert_position)
      moreover have "list_at (view (engine s2)) (db_no db) key e (n + 1) xs"
        using list_at_mono [OF split_at_list_at [OF sp]] e by simp
      ultimately show ?thesis
        using r Some None p(1) ok all by (simp add: list_insert_def action_simps list_becomes_def)
    next
      case (Some q)
      let ?i = "if before then q else q + 1"
      have ins: "linsert before pivot element xs = Some (take ?i xs @ element # drop ?i xs)"
        by (simp add: linsert_position Some Let_def)
      have i: "?i \<le> length xs" using iter_position_Some [OF Some] by auto
      obtain batch updated where b: "build_list_insert_batch db key meta xs ?i element = Some (batch @ [meta_put db key updated], updated)"
        "items_at (apply_batch batch (view (engine s2))) (db_no db) key (lm_version updated) (lm_head updated) (take ?i xs @ element # drop ?i xs)"
        "lm_version updated = lm_version meta" "lm_expire_ms updated = lm_expire_ms meta"
        "- int (n + 1) \<le> lm_head updated" "lm_tail updated \<le> int (n + 1)"
        "lm_tail updated - lm_head updated = int (length xs + 1)"
        "list_all plain_op batch" "list_all (list_op (db_no db) key) batch"
        by (rule insert_batch_run [OF p(6,5,3,4) assms(7) i])
      let ?b = "batch @ [meta_put db key updated]" and ?ys = "take ?i xs @ element # drop ?i xs"
      have ops: "list_all plain_op ?b" "list_all (list_op (db_no db) key) ?b"
        using b(8,9) mk by (simp_all add: meta_put_def list_op_main)
      obtain s' where s': "write_batch_if_not_empty db ?b s2 = (Inr (), s')" "committed db view ?b s2 s'"
        using write_batch_run [OF c ok(1) _ ops(1)] by auto
      have at: "split_at (view (engine s')) (db_no db) key (n + 1) updated ?ys"
        by (rule split_committed [OF s'(2) mk u b(2)]) (use b p i in auto)
      let ?s3 = "cache_list_meta_if_non_transactional db key updated s'"
      have "list_becomes db view key e (n + 1) ?ys s2 ?s3"
        using split_at_list_at [OF at] b(4) e split_at_cache [OF at assms(7) committed_cache [OF s'(2)] mk u]
          committed_frame [OF s'(2) ops(2) assms(3)] by (simp add: list_becomes_def)
      moreover have "list_insert db key before pivot element s = (Inr (int (length ?ys)), ?s3\<lparr>changes := changes ?s3 + 1\<rparr>)"
        using r \<open>found = Some meta\<close> Some all b(1,7) s'(1) i by (simp add: list_insert_def action_simps fetch_add_changes_def)
      ultimately show ?thesis using ins p(1) list_becomes_trans [OF ok(2)] by auto
    qed
  qed
qed

section \<open>LREM\<close>

text \<open>LREM on a list: the first matches from the head, the last ones from the tail, or all of them.\<close>

fun lrem_first :: "nat \<Rightarrow> 'a \<Rightarrow> 'a list \<Rightarrow> 'a list" where
  "lrem_first n y [] = []"
| "lrem_first n y (x # xs) =
     (if n = 0 then x # xs else if x = y then lrem_first (n - 1) y xs else x # lrem_first n y xs)"

definition lrem :: "int \<Rightarrow> 'a \<Rightarrow> 'a list \<Rightarrow> 'a list" where
  "lrem count y xs =
     (if count = 0 then filter (\<lambda>x. x \<noteq> y) xs
      else if count > 0 then lrem_first (nat count) y xs
      else rev (lrem_first (nat (- count)) y (rev xs)))"

definition survivors :: "(bool \<times> 'a) list \<Rightarrow> 'a list" where
  "survivors zs = map snd (filter (\<lambda>z. \<not> fst z) zs)"

lemma survivors_simps [simp]:
  "survivors [] = []"
  "survivors ((gone, x) # zs) = (if gone then survivors zs else x # survivors zs)"
  "survivors (rev zs) = rev (survivors zs)"
  by (simp_all add: survivors_def rev_map rev_filter [symmetric])

lemma length_mark_removed [simp]: "length (mark_removed y limit xs r) = length xs"
  by (induction xs arbitrary: r) auto

lemma survivors_none: "survivors (zip (replicate (length xs) False) xs) = xs"
  by (induction xs) auto

lemma lrem_first_0 [simp]: "lrem_first 0 y xs = xs"
  by (cases xs) auto

lemma mark_removed_survivors:
  "r \<le> limit \<Longrightarrow> survivors (zip (mark_removed y limit xs r) xs) = lrem_first (limit - r) y xs"
proof (induction xs arbitrary: r)
  case (Cons x xs)
  show ?case
  proof (cases "r = limit")
    case True
    then show ?thesis using survivors_none [of "x # xs"] by simp
  next
    case False
    then show ?thesis using Cons by (auto simp: Suc_diff_Suc [symmetric] simp del: Suc_diff_Suc)
  qed
qed simp

lemma lrem_first_all: "length xs \<le> n \<Longrightarrow> lrem_first n y xs = filter (\<lambda>x. x \<noteq> y) xs"
  by (induction xs arbitrary: n) auto

lemma removed_positions_survivors:
  assumes "length xs \<le> usize_max"
  shows "survivors (zip (removed_positions count y xs) xs) = lrem count y xs" "length (removed_positions count y xs) = length xs"
proof -
  have rz: "survivors (zip (rev ms) xs) = rev (survivors (zip ms (rev xs)))" if "length ms = length xs" for ms :: "bool list"
    using that survivors_simps(3) [of "zip ms (rev xs)"] by (simp add: zip_rev [symmetric])
  show "survivors (zip (removed_positions count y xs) xs) = lrem count y xs"
    using mark_removed_survivors [of 0 _ y] lrem_first_all [OF assms] rz
    by (auto simp: removed_positions_def lrem_def Let_def nat_minus_as_int)
  show "length (removed_positions count y xs) = length xs" by (simp add: removed_positions_def Let_def)
qed

lemma removed_count:
  "length ms = length xs \<Longrightarrow> length (survivors (zip ms xs)) + length (filter id ms) = length xs"
  by (induction ms xs rule: list_induct2) auto

lemma none_removed: "length ms = length xs \<Longrightarrow> filter id ms = [] \<Longrightarrow> survivors (zip ms xs) = xs"
  by (induction ms xs rule: list_induct2) (auto split: if_splits)

text \<open>Compaction toward the head.\<close>

lemma compact_left_run:
  assumes "compact_left (list_item_key d key v) zs source dest batch = (batch', dest')"
    and "items_at (apply_batch batch m) d key v source (map snd zs)" "dest \<le> source"
    and "- int n \<le> dest" "source + int (length zs) \<le> int n" "n < max_positions"
  shows "dest' = dest + int (length (survivors zs)) \<and>
    items_at (apply_batch batch' m) d key v dest (survivors zs) \<and>
    (\<forall>h ys. - int n \<le> h \<and> h + int (length ys) \<le> dest \<and> items_at (apply_batch batch m) d key v h ys \<longrightarrow>
      items_at (apply_batch batch' m) d key v h ys) \<and>
    (list_all plain_op batch \<longrightarrow> list_all plain_op batch') \<and> (list_all (list_op d key) batch \<longrightarrow> list_all (list_op d key) batch')"
  using assms
proof (induction zs arbitrary: source dest batch)
  case (Cons z zs)
  obtain gone x where z: "z = (gone, x)" by (cases z)
  have here: "apply_batch batch m (list_item_key d key v source) = Some x"
    and rest: "items_at (apply_batch batch m) d key v (source + 1) (map snd zs)"
    using Cons.prems(2) by (simp_all add: z items_at_Cons)
  show ?case
  proof (cases gone)
    case True
    have run: "compact_left (list_item_key d key v) zs (source + 1) dest batch = (batch', dest')"
      using Cons.prems(1) True by (simp add: z)
    show ?thesis using Cons.IH [OF run rest] Cons.prems(3-6) True by (simp add: z)
  next
    case False
    let ?b1 = "if source \<noteq> dest then batch @ [(Put, list_item_key d key v dest, x)] else batch"
    have run: "compact_left (list_item_key d key v) zs (source + 1) (dest + 1) ?b1 = (batch', dest')"
      using Cons.prems(1) False by (simp add: z)
    have r: "i64_range dest" "i64_range (source + 1)" "i64_range (source + 1 + int (length zs))"
      using Cons.prems(3-6) by (auto intro!: pos_range [of n])
    have put: "apply_batch ?b1 m (list_item_key d key v dest) = Some x" using here by auto
    have rest1: "items_at (apply_batch ?b1 m) d key v (source + 1) (map snd zs)"
      using rest items_at_update_other [of dest "source + 1" "map snd zs"] Cons.prems(3) r by auto
    have before: "items_at (apply_batch ?b1 m) d key v h ys"
      if "- int n \<le> h" "h + int (length ys) \<le> dest" "items_at (apply_batch batch m) d key v h ys" for h ys
    proof -
      have "i64_range h" "i64_range (h + int (length ys))" using that(1,2) Cons.prems(3,5,6) by (auto intro!: pos_range [of n])
      then show ?thesis using that items_at_update_other [of dest h ys] r(1) by auto
    qed
    have ih: "dest' = dest + 1 + int (length (survivors zs))"
      "items_at (apply_batch batch' m) d key v (dest + 1) (survivors zs)"
      "\<And>h ys. - int n \<le> h \<Longrightarrow> h + int (length ys) \<le> dest + 1 \<Longrightarrow> items_at (apply_batch ?b1 m) d key v h ys \<Longrightarrow>
        items_at (apply_batch batch' m) d key v h ys"
      "list_all plain_op ?b1 \<longrightarrow> list_all plain_op batch'" "list_all (list_op d key) ?b1 \<longrightarrow> list_all (list_op d key) batch'"
      using Cons.IH [OF run rest1] Cons.prems(3-6) by auto
    have "items_at (apply_batch batch' m) d key v dest [x]"
      using ih(3) [of dest "[x]"] put Cons.prems(4) by (simp add: items_at_Cons)
    then have "items_at (apply_batch batch' m) d key v dest (x # survivors zs)" using ih(2) by (simp add: items_at_Cons)
    moreover have "items_at (apply_batch batch' m) d key v h ys"
      if "- int n \<le> h" "h + int (length ys) \<le> dest" "items_at (apply_batch batch m) d key v h ys" for h ys
      using ih(3) [OF that(1) _ before [OF that]] that(2) by simp
    ultimately show ?thesis using ih(1,4,5) False by (simp add: z list_op_item split: if_splits)
  qed
qed simp

text \<open>Compaction toward the tail, over the items from the last to the first.\<close>

lemma compact_right_run:
  assumes "items_at (apply_batch batch m) d key v (source - int (length zs) + 1) (rev (map snd zs))" "source < dest"
    and "- int n \<le> source - int (length zs) + 1" "dest \<le> int n" "n < max_positions"
    and "batch' = compact_right (list_item_key d key v) zs source dest batch"
  shows "items_at (apply_batch batch' m) d key v (dest - int (length (survivors zs))) (rev (survivors zs)) \<and>
    (\<forall>h ys. dest \<le> h \<and> h + int (length ys) \<le> int n \<and> items_at (apply_batch batch m) d key v h ys \<longrightarrow>
      items_at (apply_batch batch' m) d key v h ys) \<and>
    (list_all plain_op batch \<longrightarrow> list_all plain_op batch') \<and> (list_all (list_op d key) batch \<longrightarrow> list_all (list_op d key) batch')"
  using assms
proof (induction zs arbitrary: source dest batch)
  case (Cons z zs)
  obtain gone x where z: "z = (gone, x)" by (cases z)
  have start: "source - int (length (z # zs)) + 1 = source - 1 - int (length zs) + 1" by simp
  have rest: "items_at (apply_batch batch m) d key v (source - 1 - int (length zs) + 1) (rev (map snd zs))"
    and here: "apply_batch batch m (list_item_key d key v source) = Some x"
    using Cons.prems(1) unfolding start by (simp_all add: z items_at_append items_at_Cons)
  show ?case
  proof (cases gone)
    case True
    have run: "batch' = compact_right (list_item_key d key v) zs (source - 1) dest batch"
      using Cons.prems(6) True by (simp add: z)
    show ?thesis using Cons.IH [OF rest _ _ Cons.prems(4,5) run] Cons.prems(2,3) True by (simp add: z)
  next
    case False
    let ?b1 = "if source \<noteq> dest - 1 then batch @ [(Put, list_item_key d key v (dest - 1), x)] else batch"
    have run: "batch' = compact_right (list_item_key d key v) zs (source - 1) (dest - 1) ?b1"
      using Cons.prems(6) False by (simp add: z)
    have r: "i64_range (dest - 1)" "i64_range (source - 1 - int (length zs) + 1)" "i64_range (source - 1 - int (length zs) + 1 + int (length zs))"
      using Cons.prems(2-5) by (auto intro!: pos_range [of n])
    have put: "apply_batch ?b1 m (list_item_key d key v (dest - 1)) = Some x" using here by auto
    have rest1: "items_at (apply_batch ?b1 m) d key v (source - 1 - int (length zs) + 1) (rev (map snd zs))"
      using rest items_at_update_other [of "dest - 1" "source - 1 - int (length zs) + 1" "rev (map snd zs)"] Cons.prems(2) r by auto
    have after: "items_at (apply_batch ?b1 m) d key v h ys"
      if "dest \<le> h" "h + int (length ys) \<le> int n" "items_at (apply_batch batch m) d key v h ys" for h ys
    proof -
      have "i64_range h" "i64_range (h + int (length ys))" using that(1,2) Cons.prems(2,3,5) by (auto intro!: pos_range [of n])
      then show ?thesis using that items_at_update_other [of "dest - 1" h ys] r(1) by auto
    qed
    have ih: "items_at (apply_batch batch' m) d key v (dest - 1 - int (length (survivors zs))) (rev (survivors zs))"
      "\<And>h ys. dest - 1 \<le> h \<Longrightarrow> h + int (length ys) \<le> int n \<Longrightarrow> items_at (apply_batch ?b1 m) d key v h ys \<Longrightarrow>
        items_at (apply_batch batch' m) d key v h ys"
      "list_all plain_op ?b1 \<longrightarrow> list_all plain_op batch'" "list_all (list_op d key) ?b1 \<longrightarrow> list_all (list_op d key) batch'"
      using Cons.IH [OF rest1 _ _ _ Cons.prems(5) run] Cons.prems(2-4) by auto
    have "items_at (apply_batch batch' m) d key v (dest - 1) [x]"
      using ih(2) [of "dest - 1" "[x]"] put Cons.prems(4) by (simp add: items_at_Cons)
    then have "items_at (apply_batch batch' m) d key v (dest - 1 - int (length (survivors zs))) (rev (survivors zs) @ [x])"
      using ih(1) by (simp add: items_at_append)
    moreover have "items_at (apply_batch batch' m) d key v h ys"
      if "dest \<le> h" "h + int (length ys) \<le> int n" "items_at (apply_batch batch m) d key v h ys" for h ys
      using ih(2) [OF _ that(2) after [OF that]] that(1) by simp
    ultimately show ?thesis using ih(3,4) False by (simp add: z list_op_item algebra_simps split: if_splits)
  qed
qed simp

lemma remove_batch_moves:
  assumes "items_at m (db_no db) key (lm_version meta) (lm_head meta) xs" "lm_tail meta - lm_head meta = int (length xs)"
    and "- int n \<le> lm_head meta" "lm_tail meta \<le> int n" "n < max_positions"
    and "ys = lrem count element xs" "0 < length ys" "length ys < length xs"
  obtains batch updated where "build_list_remove_batch db key meta xs count element =
      Some (length xs - length ys, batch @ [meta_put db key updated], Some updated)"
    "items_at (apply_batch batch m) (db_no db) key (lm_version updated) (lm_head updated) ys"
    "lm_version updated = lm_version meta" "lm_expire_ms updated = lm_expire_ms meta"
    "- int n \<le> lm_head updated" "lm_tail updated \<le> int n" "lm_tail updated - lm_head updated = int (length ys)"
    "list_all plain_op batch" "list_all (list_op (db_no db) key) batch"
proof -
  let ?d = "db_no db" and ?v = "lm_version meta" and ?h = "lm_head meta"
  let ?ms = "removed_positions count element xs" and ?k = "list_item_key (db_no db) key (lm_version meta)"
  let ?zs = "zip ?ms xs"
  have small: "length xs \<le> usize_max" using assms(2-5) by (simp add: max_positions_def)
  have ms: "length ?ms = length xs" "survivors ?zs = ys" using removed_positions_survivors [OF small] assms(6) by simp_all
  have removed: "length (filter id ?ms) = length xs - length ys" "length (filter id ?ms) \<noteq> 0" "length (filter id ?ms) \<noteq> length xs"
    using removed_count [OF ms(1)] ms(2) assms(7,8) by auto
  have items: "items_at (apply_batch [] m) ?d key ?v ?h (map snd ?zs)" using assms(1) ms(1) by simp
  have rng: "i64_range j" if "- int n \<le> j" "j \<le> int n" for j using that assms(5) by (auto intro!: pos_range [of n])
  show thesis
  proof (cases "length (filter Not (dropWhile Not ?ms)) \<le> length (filter Not (dropWhile Not (rev ?ms)))")
    case True
    obtain b1 dest where run: "compact_left ?k ?zs ?h ?h [] = (b1, dest)" by (cases "compact_left ?k ?zs ?h ?h []")
    have len: "?h + int (length ?zs) \<le> int n" using assms(2,4) ms(1) by simp
    have c: "dest = ?h + int (length ys)" "items_at (apply_batch b1 m) ?d key ?v ?h ys" "list_all plain_op b1" "list_all (list_op ?d key) b1"
      using compact_left_run [OF run items order_refl assms(3) len assms(5)] ms(2) by auto
    have bounds: "dest \<le> lm_tail meta" using c(1) assms(2,8) by simp
    have rs: "i64_range dest" "i64_range (lm_tail meta)" "i64_range ?h" "i64_range (?h + int (length ys))"
      using c(1) bounds assms(2-4) by (auto intro!: rng)
    obtain dels where d: "delete_list_storage_range_to_batch b1 ?d key ?v dest (lm_tail meta) = Some (b1 @ dels)"
      "range_deletes ?d key ?v dest (lm_tail meta) dels"
      using range_deletes_run [OF rs(1,2)] by metis
    have "items_at (apply_batch (b1 @ dels) m) ?d key ?v ?h ys"
      unfolding apply_batch_append by (rule range_deletes_items [OF d(2) c(2)]) (use c(1) rs in auto)
    moreover have "build_list_remove_batch db key meta xs count element =
        Some (length xs - length ys, (b1 @ dels) @ [meta_put db key (meta\<lparr>lm_tail := dest\<rparr>)], Some (meta\<lparr>lm_tail := dest\<rparr>))"
      using True run d(1) removed by (simp add: build_list_remove_batch_def Let_def del: length_0_conv)
    ultimately show thesis
      using that [of "b1 @ dels" "meta\<lparr>lm_tail := dest\<rparr>"] c bounds assms(2-4) range_deletes_ops [OF d(2)] by simp
  next
    case False
    define b1 where "b1 = compact_right ?k (rev ?zs) (?h + int (length xs) - 1) (lm_tail meta) []"
    let ?U = "meta\<lparr>lm_head := lm_tail meta - int (length ys)\<rparr>"
    have start: "?h + int (length xs) - 1 - int (length (rev ?zs)) + 1 = ?h" using ms(1) by simp
    have c: "items_at (apply_batch b1 m) ?d key ?v (lm_tail meta - int (length ys)) ys" "list_all plain_op b1" "list_all (list_op ?d key) b1"
      using compact_right_run [OF _ _ _ assms(4,5) b1_def, of m] items assms(2,3) ms unfolding start
      by (simp_all add: rev_map [symmetric])
    have bounds: "?h \<le> lm_head ?U" using assms(2,8) by simp
    have rs: "i64_range ?h" "i64_range (lm_head ?U)" "i64_range (lm_head ?U + int (length ys))"
      using bounds assms(2-4) by (auto intro!: rng)
    obtain dels where d: "delete_list_storage_range_to_batch b1 ?d key ?v ?h (lm_head ?U) = Some (b1 @ dels)"
      "range_deletes ?d key ?v ?h (lm_head ?U) dels"
      using range_deletes_run [OF rs(1,2)] by metis
    have "items_at (apply_batch (b1 @ dels) m) ?d key ?v (lm_head ?U) ys"
      unfolding apply_batch_append by (rule range_deletes_items [OF d(2)]) (use c(1) rs in auto)
    moreover have "length xs - (length xs - length ys) = length ys" using assms(8) by simp
    then have "build_list_remove_batch db key meta xs count element =
        Some (length xs - length ys, (b1 @ dels) @ [meta_put db key ?U], Some ?U)"
      using False d(1) removed b1_def by (simp add: build_list_remove_batch_def Let_def del: length_0_conv)
    ultimately show thesis
      using that [of "b1 @ dels" ?U] c bounds assms(2-4) range_deletes_ops [OF d(2)] by simp
  qed
qed

lemma list_remove_run:
  assumes "serves db view" "cache_ok db view s" "valid_owner key" "versions_left db 1 s"
    and "list_at (view (engine s)) (db_no db) key e n xs" "alive db e" "n < max_positions"
    and "items_clean (db_no db) (view (engine s))" "ys = lrem count element xs"
  shows "\<exists>s'. list_remove db key count element s = (Inr (length xs - length ys), s') \<and>
    list_becomes db view key (if ys = [] then 0 else e) n ys s s'"
proof -
  have c: "engine_contract (kv db) view" "key_layout db = CURRENT" and mk: "mk_key db key = key"
    using assms(1) mk_key_eq by (auto simp: serves_def)
  have u: "utf8_valid key" using assms(3) by (simp add: valid_owner_def)
  obtain s1 s2 found where r: "promote_packed_list db key s = (Inr (), s1)" "list_meta_of db key s1 = (Inr found, s2)"
    and ok: "cache_ok db view s2" "list_frame (db_no db) key (view (engine s)) (view (engine s2))"
    and f: "case found of None \<Rightarrow> xs = [] \<and> list_at (view (engine s2)) (db_no db) key e n xs
      | Some meta \<Rightarrow> lm_expire_ms meta = e \<and> split_at (view (engine s2)) (db_no db) key n meta xs"
    by (rule begin_split_run [OF assms(1-7)])
  show ?thesis
  proof (cases found)
    case None
    then have "ys = []" "xs = []" using f assms(9) by (simp_all add: lrem_def)
    then show ?thesis using r f ok None by (simp add: list_remove_def action_simps list_becomes_def list_at_def)
  next
    case (Some meta)
    then have e: "lm_expire_ms meta = e" and sp: "split_at (view (engine s2)) (db_no db) key n meta xs" using f by simp_all
    note p = split_at_parts [OF sp]
    have clean: "items_clean (db_no db) (view (engine s2))" using ok(2) assms(8) by (simp add: list_frame_def)
    note all = read_all_run [OF assms(1) clean assms(3) sp assms(7)]
    have small: "length xs \<le> usize_max" using p(3-5) assms(7) by (simp add: max_positions_def)
    note ms = removed_positions_survivors [OF small, of count element]
    have rc: "length ys + length (filter id (removed_positions count element xs)) = length xs"
      using removed_count [OF ms(2)] ms(1) assms(9) by simp
    consider "length ys = length xs" | "ys = []" | "0 < length ys" "length ys < length xs"
      using rc by fastforce
    then show ?thesis
    proof cases
      case 1
      then have "filter id (removed_positions count element xs) = []" using rc by simp
      then have "ys = xs" "build_list_remove_batch db key meta xs count element = Some (0, [], Some meta)"
        using none_removed [OF ms(2)] ms(1) assms(9) by (simp_all add: build_list_remove_batch_def Let_def)
      then show ?thesis
        using r Some all ok p(1) split_at_list_at [OF sp] e
        by (simp add: list_remove_def action_simps expect_def list_becomes_def)
    next
      case 2
      have rng: "i64_range (lm_head meta)" "i64_range (lm_tail meta)" using p assms(7) by (auto intro!: pos_range [of n])
      obtain dels where d: "delete_list_storage_range_to_batch [] (db_no db) key (lm_version meta) (lm_head meta) (lm_tail meta) = Some dels"
        "range_deletes (db_no db) key (lm_version meta) (lm_head meta) (lm_tail meta) dels"
        using range_deletes_run [OF rng, of "[]"] append_Nil by metis
      let ?b = "delete_main_key_with_ttl_to_batch db dels key e"
      have ops: "list_all plain_op ?b" "list_all (list_op (db_no db) key) ?b" "?b \<noteq> []"
        using range_deletes_ops [OF d(2)] mk
        by (auto simp: delete_main_key_with_ttl_to_batch_def remove_known_to_batch_def intro: list_op_intros)
      obtain s' where s': "write_batch_if_not_empty db ?b s2 = (Inr (), s')" "committed db view ?b s2 s'"
        using write_batch_run [OF c ok(1) ops(3,1)] by metis
      let ?s3 = "remove_list_meta_cache_if_non_transactional db key s'"
      have "list_at (view (engine s')) (db_no db) key 0 n []"
        using committed_at(1) [OF s'(2) u] delete_main_apply [OF mk u] by (simp add: list_at_def)
      then have "list_becomes db view key 0 n [] s2 ?s3"
        using committed_cache [OF s'(2)] cache_ok_forget(1) committed_frame [OF s'(2) ops(2) assms(3)] by (simp add: list_becomes_def)
      moreover have "filter id (removed_positions count element xs) \<noteq> []" using rc 2 p(1) by auto
      then have "build_list_remove_batch db key meta xs count element = Some (length xs, ?b, None)"
        using rc 2 d(1) e by (simp add: build_list_remove_batch_def Let_def)
      ultimately show ?thesis
        using r Some all s'(1) 2 p(1) list_becomes_trans [OF ok(2)]
        by (simp add: list_remove_def action_simps expect_def fetch_add_changes_def)
    next
      case 3
      obtain batch updated where b: "build_list_remove_batch db key meta xs count element =
          Some (length xs - length ys, batch @ [meta_put db key updated], Some updated)"
        "items_at (apply_batch batch (view (engine s2))) (db_no db) key (lm_version updated) (lm_head updated) ys"
        "lm_version updated = lm_version meta" "lm_expire_ms updated = lm_expire_ms meta"
        "- int n \<le> lm_head updated" "lm_tail updated \<le> int n" "lm_tail updated - lm_head updated = int (length ys)"
        "list_all plain_op batch" "list_all (list_op (db_no db) key) batch"
        by (rule remove_batch_moves [OF p(6,5,3,4) assms(7,9) 3])
      let ?b = "batch @ [meta_put db key updated]"
      have ops: "list_all plain_op ?b" "list_all (list_op (db_no db) key) ?b"
        using b(8,9) mk by (simp_all add: meta_put_def list_op_main)
      obtain s' where s': "write_batch_if_not_empty db ?b s2 = (Inr (), s')" "committed db view ?b s2 s'"
        using write_batch_run [OF c ok(1) _ ops(1)] by auto
      have at: "split_at (view (engine s')) (db_no db) key n updated ys"
        by (rule split_committed [OF s'(2) mk u b(2)]) (use b p 3 in auto)
      let ?s3 = "cache_list_meta_if_non_transactional db key updated s'"
      have "list_becomes db view key e n ys s2 ?s3"
        using split_at_list_at [OF at] b(4) e split_at_cache [OF at assms(7) committed_cache [OF s'(2)] mk u]
          committed_frame [OF s'(2) ops(2) assms(3)] by (simp add: list_becomes_def)
      moreover have "list_remove db key count element s = (Inr (length xs - length ys), ?s3\<lparr>changes := changes ?s3 + 1\<rparr>)"
        using r Some all b(1) s'(1) 3 by (simp add: list_remove_def action_simps expect_def fetch_add_changes_def)
      ultimately show ?thesis using 3 list_becomes_trans [OF ok(2)] by auto
    qed
  qed
qed

end
