(* ===== verification/Assoc_Store.thy ===== *)
theory Assoc_Store
  imports Db_Contract
begin

text \<open>
  A store that is an association list. It keeps the contract of the engine, so that the theorems about commands apply to runs that
  can be computed.
\<close>

fun assoc_op :: "(bytes \<times> bytes) list \<Rightarrow> batch_op \<Rightarrow> (bytes \<times> bytes) list" where
  "assoc_op w (wt, k, v) =
     (if wt = Delete then AList.delete k w
      else if wt = RangeDelete then filter (\<lambda>(x, _). \<not> (k \<le> x \<and> x < v)) w
      else AList.update k v w)"

definition assoc_scan :: "bytes \<Rightarrow> bytes option \<Rightarrow> (bytes \<times> bytes) list \<Rightarrow> (bytes \<times> bytes) list" where
  "assoc_scan lo hi w = map (\<lambda>k. (k, the (map_of w k))) (filter (in_range lo hi) (sort (remdups (map fst w))))"

definition assoc_store :: "((bytes \<times> bytes) list, unit) kv_store" where
  "assoc_store =
     \<lparr>get_raw = (\<lambda>k w. (Inr (map_of w k), w)),
      multi_get_raw = (\<lambda>ks w. (Inr (map (map_of w) ks), w)),
      scan_range_raw_limited = (\<lambda>lo hi n w. (Inr (take n (assoc_scan lo hi w)), w)),
      store_write_batch = (\<lambda>batch w. (Inr (), foldl assoc_op w batch)),
      compare_and_write_batch = (\<lambda>conditions batch w.
        if list_all (\<lambda>(k, v). map_of w k = v) conditions then (Inr True, foldl assoc_op w batch) else (Inr False, w)),
      is_transactional = False, clock_ms = (\<lambda>_. 1000), clock_micros = (\<lambda>_. 0)\<rparr>"

definition assoc_db :: "((bytes \<times> bytes) list, unit) db" where
  "assoc_db = \<lparr>kv = assoc_store, db_no = 0, key_layout = CURRENT, entry_of = (\<lambda>_. None),
     fulltext_delete = (\<lambda>_ _. Inr [])\<rparr>"

definition assoc_state :: "(bytes \<times> bytes) list \<Rightarrow> (bytes \<times> bytes) list db_state" where
  "assoc_state w = \<lparr>engine = w, list_meta_cache = Map.empty, list_meta_cache_maybe_non_empty = False,
     version_counter = 0, compaction = empty_compaction_tracker,
     mutations = \<lparr>tracker = empty_tracker, pending_keys = [], pending_dbs = []\<rparr>, changes = 0\<rparr>"

lemma map_of_assoc_op: "map_of (assoc_op w op) = apply_op (map_of w) op"
proof -
  obtain wt k v where op: "op = (wt, k, v)" by (cases op)
  have "map_of (filter (\<lambda>(x, _). \<not> (k \<le> x \<and> x < v)) w) = (\<lambda>x. if k \<le> x \<and> x < v then None else map_of w x)"
    by (induction w) (auto simp: fun_eq_iff)
  then show ?thesis by (simp add: op AList.update_conv' AList.delete_conv')
qed

lemma map_of_assoc_ops: "map_of (foldl assoc_op w batch) = apply_batch batch (map_of w)"
  by (induction batch rule: rev_induct) (simp_all add: map_of_assoc_op)

lemma assoc_scan_sorted: "sorted_wrt (<) (map fst (assoc_scan lo hi w))"
  by (simp add: assoc_scan_def o_def strict_sorted_iff sorted_wrt_filter)

lemma assoc_scan_set: "set (assoc_scan lo hi w) = {(k, v). map_of w k = Some v \<and> in_range lo hi k}"
proof
  show "set (assoc_scan lo hi w) \<subseteq> {(k, v). map_of w k = Some v \<and> in_range lo hi k}"
    using weak_map_of_SomeI by (fastforce simp: assoc_scan_def)
  show "{(k, v). map_of w k = Some v \<and> in_range lo hi k} \<subseteq> set (assoc_scan lo hi w)"
    using map_of_SomeD by (force simp: assoc_scan_def)
qed

lemma assoc_serves: "serves assoc_db map_of"
proof -
  have "engine_contract assoc_store map_of"
    unfolding engine_contract_def
    using assoc_scan_sorted assoc_scan_set
    by (auto simp: assoc_store_def map_of_assoc_ops list_all_iff intro!: exI [of _ "assoc_scan _ _ _"])
  then show ?thesis by (simp add: serves_def assoc_db_def)
qed

lemma assoc_cache_ok: "cache_ok assoc_db map_of (assoc_state w)"
  by (simp add: cache_ok_def assoc_state_def)

lemma assoc_versions_left: "versions_left assoc_db 1 (assoc_state w)"
  by (simp add: versions_left_def assoc_state_def assoc_db_def assoc_store_def version_timestamp_floor_def Let_def)

lemma assoc_frame [simp]: "engine (assoc_state w) = w" "db_no assoc_db = 0"
  by (simp_all add: assoc_state_def assoc_db_def)

end
