(* ===== verification/List_Properties.thy ===== *)
theory List_Properties
  imports List_Change Assoc_Store
begin

text \<open>
  What the list commands promise. The hypotheses describe the environment: the engine answers and applies batches in order
  (\<open>serves\<close>), the cache agrees with the store (\<open>cache_ok\<close>), the list does not expire meanwhile (\<open>alive\<close>), the
  version counter is not exhausted (\<open>versions_left\<close>) and the positions stay below \<open>max_positions\<close>, where the metadata
  format is unambiguous. The witnesses run on a store that is an association list.
\<close>

section \<open>Samples\<close>

lemma assoc_alive: "alive assoc_db 0"
  by (simp add: alive_def plausible_expiry_def)

lemma owner_a: "valid_owner ''a''"
  by (simp add: valid_owner_def utf8_valid_ascii_Cons)

lemma empty_list_at: "list_at (map_of []) d key 0 n []"
  by (simp add: list_at_def)

lemma empty_clean: "items_clean d (map_of [])"
  by (simp add: items_clean_def)

lemmas assoc_facts = assoc_serves assoc_cache_ok assoc_versions_left assoc_alive owner_a

definition sample_items :: "bytes list" where "sample_items = [''x'', ''y'', ''x'']"

definition sample_world :: "(bytes \<times> bytes) list" where
  "sample_world = [(''a'', the (encode_packed_list 0 sample_items))]"

lemma sample_list: "list_at (map_of sample_world) 0 ''a'' 0 8 sample_items"
proof -
  have "try_len item_size sample_items PACKED_LIST_HEADER_LEN = Some (PACKED_LIST_HEADER_LEN + 15)"
    by (simp add: sample_items_def item_size_def packed_list_defs u32_max_def checked_add_def)
  then have "encode_packed_list 0 sample_items \<noteq> None"
    by (simp add: encode_packed_list_def sample_items_def packed_list_defs)
  then show ?thesis by (auto simp: list_at_def packed_at_def sample_world_def sample_items_def)
qed

lemma sample_clean: "items_clean 0 (map_of sample_world)"
  using internal_apart(1) owner_a by (auto simp: items_clean_def sample_world_def valid_owner_def)

lemma sample_small: "8 + 1 < max_positions" "8 < max_positions" "0 + 2 < max_positions"
  by (simp_all add: max_positions_def)

section \<open>Pushing and popping\<close>

text \<open>C12: LPUSH and RPUSH refine consing and appending. Whatever the layout of the list, absent, packed or split, the
  command returns the new length and the store holds the values, for LPUSH in reverse order, before or after the old ones, with
  the deadline unchanged; LPUSHX and RPUSHX leave an absent list absent. The cache agrees with the store afterwards, and no record of
  another key changes.\<close>

theorem list_push_refines:
  assumes "serves db view" "cache_ok db view s" "valid_owner key" "versions_left db 1 s"
    and "list_at (view (engine s)) (db_no db) key e n xs" "alive db e" "n + length vals < max_positions"
  shows "\<exists>s1 s2.
    list_push_left_bytes db key vals only_if_exists s =
      (Inr (if xs = [] \<and> only_if_exists then 0 else length xs + length vals), s1) \<and>
    list_becomes db view key e (n + length vals) (if xs = [] \<and> only_if_exists then [] else rev vals @ xs) s s1 \<and>
    list_push_right_bytes db key vals only_if_exists s =
      (Inr (if xs = [] \<and> only_if_exists then 0 else length xs + length vals), s2) \<and>
    list_becomes db view key e (n + length vals) (if xs = [] \<and> only_if_exists then [] else xs @ vals) s s2"
proof -
  note run = list_push_run [OF assms, where only_if_exists = only_if_exists]
  obtain s1 where l: "list_push_bytes db key True vals only_if_exists s =
      (Inr (length (if xs = [] \<and> only_if_exists then [] else rev vals @ xs)), s1)"
    "list_becomes db view key e (n + length vals) (if xs = [] \<and> only_if_exists then [] else rev vals @ xs) s s1"
    using run [where left = True, OF refl] unfolding push_values_eq if_True by blast
  obtain s2 where r: "list_push_bytes db key False vals only_if_exists s =
      (Inr (length (if xs = [] \<and> only_if_exists then [] else xs @ vals)), s2)"
    "list_becomes db view key e (n + length vals) (if xs = [] \<and> only_if_exists then [] else xs @ vals) s s2"
    using run [where left = False, OF refl] unfolding push_values_eq if_False by blast
  show ?thesis
    using l r by (cases "xs = [] \<and> only_if_exists") (auto simp: list_push_left_bytes_def list_push_right_bytes_def add.commute)
qed

theorem list_push_refines_witness:
  "\<exists>s'. list_push_left_bytes assoc_db ''a'' [''p'', ''q''] False (assoc_state []) = (Inr 2, s') \<and>
    list_at (map_of (engine s')) 0 ''a'' 0 2 [''q'', ''p'']"
proof -
  have "list_at (map_of (engine (assoc_state []))) (db_no assoc_db) ''a'' 0 0 []" "0 + length [''p'', ''q''] < max_positions"
    using empty_list_at by (simp_all add: max_positions_def)
  from list_push_refines [OF assoc_serves assoc_cache_ok owner_a assoc_versions_left this(1) assoc_alive this(2), of False]
  show ?thesis by (auto simp: list_becomes_def numeral_2_eq_2)
qed

text \<open>C13: LPOP and RPOP with a count refine splitting the list at that end: the elements taken are returned, from that end on,
  less those that are not valid UTF-8, and exactly the others stay; an emptied list is absent and its deadline is gone. LPOP and
  RPOP of nothing, or from an absent list, change nothing.\<close>

theorem list_pop_refines:
  assumes "serves db view" "cache_ok db view s" "valid_owner key"
    and "list_at (view (engine s)) (db_no db) key e n xs" "alive db e" "n < max_positions"
  shows "\<exists>s1 s2.
    list_pop_many db key True count s = (Inr (filter utf8_valid (take count xs)), s1) \<and>
    list_becomes db view key (if drop count xs = [] then 0 else e) n (drop count xs) s s1 \<and>
    list_pop_many db key False count s = (Inr (filter utf8_valid (take count (rev xs))), s2) \<and>
    list_becomes db view key (if rev (drop count (rev xs)) = [] then 0 else e) n (rev (drop count (rev xs))) s s2"
proof -
  have l: "pop_items True count xs = (take count xs, drop count xs)"
    by (auto simp: pop_items_def Let_def min_def)
  have r: "pop_items False count xs = (take count (rev xs), rev (drop count (rev xs)))"
    by (auto simp: pop_items_def Let_def min_def rev_drop)
  show ?thesis using list_pop_run [OF assms l] list_pop_run [OF assms r] by metis
qed

theorem list_pop_refines_witness:
  "\<exists>s'. list_pop_many assoc_db ''a'' False 2 (assoc_state sample_world) = (Inr [''x'', ''y''], s') \<and>
    list_at (map_of (engine s')) 0 ''a'' 0 8 [''x'']"
proof -
  have at: "list_at (map_of (engine (assoc_state sample_world))) (db_no assoc_db) ''a'' 0 8 sample_items"
    using sample_list by simp
  show ?thesis
    using list_pop_refines [OF assoc_serves assoc_cache_ok owner_a at assoc_alive sample_small(2), of 2]
    by (auto simp: list_becomes_def sample_items_def utf8_valid_ascii_Cons numeral_2_eq_2)
qed

section \<open>Reading\<close>

text \<open>C25: LLEN, LINDEX and LRANGE answer from the list: its length, the element at an index counted from either end, and the elements
  between two ends; also across the sign change of the positions, where the range is read with two scans. Reading changes no record.\<close>

theorem list_reads_correct:
  assumes "serves db view" "cache_ok db view s" "items_clean (db_no db) (view (engine s))" "valid_owner key"
    and "list_at (view (engine s)) (db_no db) key e n xs" "alive db e" "n < max_positions"
  shows "(\<exists>s'. list_len db key s = (Inr (length xs), s') \<and> engine s' = engine s) \<and>
    (\<exists>s'. list_index db key index s = (Inr (case lindex index xs of None \<Rightarrow> None | Some x \<Rightarrow> utf8_text x), s') \<and> engine s' = engine s) \<and>
    (\<exists>s'. list_range_bytes db key start stop s = (Inr (lrange start stop xs), s') \<and> engine s' = engine s)"
  using list_len_run [OF assms(1,2,4-7)] list_index_run [OF assms, of index] list_range_run [OF assms, of start stop] by blast

theorem list_reads_correct_witness:
  "\<exists>s'. list_range_bytes assoc_db ''a'' (- 2) (- 1) (assoc_state sample_world) = (Inr [''y'', ''x''], s')"
proof -
  have at: "list_at (map_of (engine (assoc_state sample_world))) (db_no assoc_db) ''a'' 0 8 sample_items"
    "items_clean (db_no assoc_db) (map_of (engine (assoc_state sample_world)))"
    using sample_list sample_clean by simp_all
  have "lrange (- 2) (- 1) sample_items = [''y'', ''x'']" by (simp add: lrange_def sample_items_def)
  then show ?thesis
    using list_reads_correct [OF assoc_serves assoc_cache_ok at(2) owner_a at(1) assoc_alive sample_small(2), of 0 "- 2" "- 1"] by auto
qed

section \<open>Changing the middle\<close>

text \<open>C26: LSET replaces exactly the element at the index, and answers with an error, leaving the list, when the index is outside the list
  or the list is absent; LTRIM keeps exactly the elements of the range, and removes the list when there are none.\<close>

theorem list_set_and_trim_refine:
  assumes "serves db view" "cache_ok db view s" "valid_owner key" "versions_left db 1 s"
    and "list_at (view (engine s)) (db_no db) key e n xs" "alive db e" "n < max_positions"
  shows "(\<exists>s'. list_set_value db key index val s =
        ((if xs = [] then Inl No_such_key else case lindex index xs of None \<Rightarrow> Inl Index_out_of_range | Some _ \<Rightarrow> Inr ()), s') \<and>
      list_becomes db view key e n
        (case lindex index xs of None \<Rightarrow> xs
         | Some _ \<Rightarrow> xs[nat (if index < 0 then int (length xs) + index else index) := val]) s s') \<and>
    (\<exists>s'. list_trim db key start stop s = (Inr (), s') \<and>
      list_becomes db view key (if lrange start stop xs = [] then 0 else e) n (lrange start stop xs) s s')"
  using list_set_run [OF assms, of index val] list_trim_run [OF assms, of start stop] by blast

theorem list_set_and_trim_refine_witness:
  "\<exists>s'. list_trim assoc_db ''a'' 1 (- 1) (assoc_state sample_world) = (Inr (), s') \<and>
    list_at (map_of (engine s')) 0 ''a'' 0 8 [''y'', ''x'']"
proof -
  have at: "list_at (map_of (engine (assoc_state sample_world))) (db_no assoc_db) ''a'' 0 8 sample_items"
    using sample_list by simp
  have "lrange 1 (- 1) sample_items = [''y'', ''x'']" by (simp add: lrange_def sample_items_def)
  then show ?thesis
    using list_set_and_trim_refine [OF assoc_serves assoc_cache_ok owner_a assoc_versions_left at assoc_alive sample_small(2),
        of 0 "''z''" 1 "- 1"]
    by (auto simp: list_becomes_def)
qed

text \<open>C15: LINSERT puts the element before or after the first occurrence of the pivot, and nowhere else, whichever side of the list is
  moved; it returns the new length, -1 when the pivot does not occur and 0 for an absent list. The list grows by at most one position
  on either side.\<close>

theorem list_insert_refines:
  assumes "serves db view" "cache_ok db view s" "valid_owner key" "versions_left db 1 s"
    and "list_at (view (engine s)) (db_no db) key e n xs" "alive db e" "n + 1 < max_positions"
    and "items_clean (db_no db) (view (engine s))"
  shows "\<exists>s'. list_insert db key before pivot element s =
      (Inr (if xs = [] then 0 else case linsert before pivot element xs of None \<Rightarrow> - 1 | Some ys \<Rightarrow> int (length ys)), s') \<and>
    list_becomes db view key e (n + 1) (case linsert before pivot element xs of None \<Rightarrow> xs | Some ys \<Rightarrow> ys) s s'"
  by (rule list_insert_run [OF assms])

theorem list_insert_refines_witness:
  "\<exists>s'. list_insert assoc_db ''a'' False ''y'' ''z'' (assoc_state sample_world) = (Inr 4, s') \<and>
    list_at (map_of (engine s')) 0 ''a'' 0 9 [''x'', ''y'', ''z'', ''x'']"
proof -
  have at: "list_at (map_of (engine (assoc_state sample_world))) (db_no assoc_db) ''a'' 0 8 sample_items"
    "items_clean (db_no assoc_db) (map_of (engine (assoc_state sample_world)))"
    using sample_list sample_clean by simp_all
  show ?thesis
    using list_insert_refines [OF assoc_serves assoc_cache_ok owner_a assoc_versions_left at(1) assoc_alive sample_small(1) at(2),
        of False "''y''" "''z''"]
    by (auto simp: list_becomes_def sample_items_def)
qed

text \<open>C14: LREM removes the first matches from the head, the last ones from the tail, or all of them, keeps the order of the others and
  returns how many it removed; the survivors are moved towards the cheaper end without a gap, and an emptied list is removed.\<close>

theorem list_remove_refines:
  assumes "serves db view" "cache_ok db view s" "valid_owner key" "versions_left db 1 s"
    and "list_at (view (engine s)) (db_no db) key e n xs" "alive db e" "n < max_positions"
    and "items_clean (db_no db) (view (engine s))"
  shows "\<exists>s'. list_remove db key count element s = (Inr (length xs - length (lrem count element xs)), s') \<and>
    list_becomes db view key (if lrem count element xs = [] then 0 else e) n (lrem count element xs) s s'"
  by (rule list_remove_run [OF assms refl])

theorem list_remove_refines_witness:
  "\<exists>s'. list_remove assoc_db ''a'' (- 1) ''x'' (assoc_state sample_world) = (Inr 1, s') \<and>
    list_at (map_of (engine s')) 0 ''a'' 0 8 [''x'', ''y'']"
proof -
  have at: "list_at (map_of (engine (assoc_state sample_world))) (db_no assoc_db) ''a'' 0 8 sample_items"
    "items_clean (db_no assoc_db) (map_of (engine (assoc_state sample_world)))"
    using sample_list sample_clean by simp_all
  have "lrem (- 1) ''x'' sample_items = [''x'', ''y'']" by (simp add: lrem_def sample_items_def)
  then show ?thesis
    using list_remove_refines [OF assoc_serves assoc_cache_ok owner_a assoc_versions_left at(1) assoc_alive sample_small(2) at(2),
        of "- 1" "''x''"]
    by (auto simp: list_becomes_def sample_items_def)
qed

end
