(* ===== verification/Session_Manager.thy ===== *)
theory Session_Manager
  imports Session_Glob Resp_Parse
begin

text \<open>
  The session manager (\<^verbatim>\<open>src/network/session_manager_types.rs\<close>, \<^verbatim>\<open>session_registry.rs\<close>, \<^verbatim>\<open>session_pubsub.rs\<close>,
  \<^verbatim>\<open>session_monitor.rs\<close>): the table of sessions and their controls, the subscriptions of each session, the
  subscribers of each channel, pattern and shard channel, and publishing to them through the bounded writers of
  \<^verbatim>\<open>connection.rs\<close>.

  The concurrent maps are association lists in the order in which the map happens to be walked; the sets of a
  session's subscriptions are lists without repetition in that order. A writer is shared between the
  manager and its connection, so the manager holds its number and the writers are a store of their own.
\<close>

section \<open>Writers\<close>

definition SHARED_WRITE_QUEUE_CAPACITY :: nat where "SHARED_WRITE_QUEUE_CAPACITY = 64"
definition SHARED_WRITE_QUEUE_BYTES :: nat where "SHARED_WRITE_QUEUE_BYTES = 16 * 1024 * 1024"
definition SHARED_WRITE_MAX_MESSAGE_BYTES :: nat where
  "SHARED_WRITE_MAX_MESSAGE_BYTES = MAX_FRAME_BYTES + 1024 * 1024"

lemmas shared_write_defs = SHARED_WRITE_QUEUE_CAPACITY_def SHARED_WRITE_QUEUE_BYTES_def
  SHARED_WRITE_MAX_MESSAGE_BYTES_def

text \<open>
  \<open>queue\<close> is what the channel to the writer task holds, \<open>in_flight\<close> what the task took out and is writing, and
  \<open>budget\<close> the free permits of the semaphore. A permit of a message is given back when it has been written.
\<close>

record shared_writer =
  queue :: "bytes list list"
  in_flight :: "bytes list option"
  budget :: nat
  budget_closed :: bool
  writer_closed :: bool

definition new_writer :: shared_writer where
  "new_writer = \<lparr>queue = [], in_flight = None, budget = SHARED_WRITE_QUEUE_BYTES, budget_closed = False,
     writer_closed = False\<rparr>"

fun chunks_len_from :: "nat \<Rightarrow> bytes list \<Rightarrow> nat option" where
  "chunks_len_from acc [] = Some acc"
| "chunks_len_from acc (chunk # chunks) =
     (case checked_add acc (length chunk) of None \<Rightarrow> None | Some t \<Rightarrow> chunks_len_from t chunks)"

definition chunks_len :: "bytes list \<Rightarrow> nat option" where
  "chunks_len chunks = chunks_len_from 0 chunks"

definition queue_permits :: "nat \<Rightarrow> nat option" where
  "queue_permits n =
     (if n > SHARED_WRITE_MAX_MESSAGE_BYTES then None
      else (let needed = max 1 (min n SHARED_WRITE_QUEUE_BYTES)
            in if needed < 2 ^ 32 then Some needed else None))"

definition close_writer :: "shared_writer \<Rightarrow> shared_writer" where
  "close_writer w = w\<lparr>writer_closed := True, budget_closed := True\<rparr>"

definition try_write_chunks :: "bytes list \<Rightarrow> shared_writer \<Rightarrow> bool \<times> shared_writer" where
  "try_write_chunks chunks w =
     (if writer_closed w then (False, w)
      else (case chunks_len chunks of
          None \<Rightarrow> (False, close_writer w)
        | Some total_bytes \<Rightarrow>
            (case queue_permits total_bytes of
               None \<Rightarrow> (False, close_writer w)
             | Some needed \<Rightarrow>
                 if budget_closed w \<or> needed > budget w then (False, close_writer w)
                 else if length (queue w) < SHARED_WRITE_QUEUE_CAPACITY
                 then (True, w\<lparr>queue := queue w @ [chunks], budget := budget w - needed\<rparr>)
                 else (False, close_writer w))))"

definition try_write_shared :: "bytes \<Rightarrow> shared_writer \<Rightarrow> bool \<times> shared_writer" where
  "try_write_shared bs = try_write_chunks [bs]"

text \<open>The writer task takes a message out of the channel, and later has written it or gives up.\<close>

definition worker_take :: "shared_writer \<Rightarrow> shared_writer" where
  "worker_take w =
     (case (in_flight w, queue w) of
        (None, chunks # rest) \<Rightarrow> if writer_closed w then w else w\<lparr>queue := rest, in_flight := Some chunks\<rparr>
      | _ \<Rightarrow> w)"

definition permits_of :: "bytes list \<Rightarrow> nat" where
  "permits_of chunks = (case chunks_len chunks of None \<Rightarrow> 0 | Some n \<Rightarrow>
     (case queue_permits n of None \<Rightarrow> 0 | Some p \<Rightarrow> p))"

definition worker_done :: "bool \<Rightarrow> shared_writer \<Rightarrow> shared_writer" where
  "worker_done written w =
     (case in_flight w of
        None \<Rightarrow> w
      | Some chunks \<Rightarrow>
          (let w' = w\<lparr>in_flight := None, budget := budget w + permits_of chunks\<rparr>
           in if written then w' else close_writer w'))"

section \<open>Sessions and their controls\<close>

datatype client_unblock_mode = Unblock_timeout | Unblock_error

record session_control =
  killed :: bool
  blocked :: bool
  unblock_mode :: "client_unblock_mode option"

definition new_control :: session_control where
  "new_control = \<lparr>killed = False, blocked = False, unblock_mode = None\<rparr>"

definition request_kill :: "session_control \<Rightarrow> bool \<times> session_control" where
  "request_kill c = (if killed c then (False, c) else (True, c\<lparr>killed := True\<rparr>))"

definition begin_blocking :: "session_control \<Rightarrow> session_control" where
  "begin_blocking c = c\<lparr>blocked := True, unblock_mode := None\<rparr>"

definition request_unblock :: "client_unblock_mode \<Rightarrow> session_control \<Rightarrow> bool \<times> session_control" where
  "request_unblock mode c =
     (if \<not> blocked c \<or> unblock_mode c \<noteq> None then (False, c) else (True, c\<lparr>unblock_mode := Some mode\<rparr>))"

text \<open>The guard that \<^verbatim>\<open>begin_blocking\<close> returned goes out of scope.\<close>

definition drop_blocking_guard :: "session_control \<Rightarrow> session_control" where
  "drop_blocking_guard c = c\<lparr>blocked := False, unblock_mode := None\<rparr>"

record session_snapshot =
  ss_id :: nat
  ss_current_db :: nat
  ss_in_transaction :: bool
  ss_transaction_commands :: nat
  ss_transaction_bytes :: nat
  ss_name :: "string option"
  ss_library_name :: "string option"
  ss_library_version :: "string option"
  ss_no_evict :: bool
  ss_no_touch :: bool
  ss_connected_at :: nat
  ss_last_interaction_at :: nat
  ss_last_cmd :: "string option"
  ss_user :: string
  ss_peer_addr :: string
  ss_local_addr :: string
  ss_resp_version :: resp_version

record subscriptions_of =
  so_channels :: "string list"
  so_patterns :: "string list"
  so_shard_channels :: "string list"

definition no_subscriptions :: subscriptions_of where
  "no_subscriptions = \<lparr>so_channels = [], so_patterns = [], so_shard_channels = []\<rparr>"

record subscriber =
  sw_writer :: nat
  sw_protocol :: resp_version

record acl_user =
  enabled :: bool
  nopass :: bool
  password :: "string option"
  all_commands :: bool
  allowed :: "string list"
  denied :: "string list"

record session_manager =
  sessions :: "(nat \<times> session_snapshot) list"
  controls :: "(nat \<times> session_control) list"
  sm_channels :: "(string \<times> (nat \<times> subscriber) list) list"
  sm_patterns :: "(string \<times> (nat \<times> subscriber) list) list"
  sm_shard_channels :: "(string \<times> (nat \<times> subscriber) list) list"
  subscriptions :: "(nat \<times> subscriptions_of) list"
  monitors :: "(nat \<times> nat) list"
  acl_table :: "(string \<times> acl_user) list"

definition with_default_password :: "string option \<Rightarrow> session_manager" where
  "with_default_password pw =
     \<lparr>sessions = [], controls = [], sm_channels = [], sm_patterns = [], sm_shard_channels = [],
      subscriptions = [], monitors = [],
      acl_table = [(''default'', \<lparr>enabled = True, nopass = (pw = None), password = pw, all_commands = True,
        allowed = [], denied = []\<rparr>)]\<rparr>"

section \<open>Subscribing\<close>

text \<open>
  The three kinds of subscription have a table each; their routines differ in nothing else. A routine
  on the table is one step of the concurrent map.
\<close>

datatype subscription_kind = Channel | Pattern | ShardChannel

fun sub_table :: "subscription_kind \<Rightarrow> session_manager \<Rightarrow> (string \<times> (nat \<times> subscriber) list) list" where
  "sub_table Channel m = sm_channels m"
| "sub_table Pattern m = sm_patterns m"
| "sub_table ShardChannel m = sm_shard_channels m"

fun set_sub_table :: "subscription_kind \<Rightarrow> (string \<times> (nat \<times> subscriber) list) list \<Rightarrow> session_manager \<Rightarrow> session_manager" where
  "set_sub_table Channel t m = m\<lparr>sm_channels := t\<rparr>"
| "set_sub_table Pattern t m = m\<lparr>sm_patterns := t\<rparr>"
| "set_sub_table ShardChannel t m = m\<lparr>sm_shard_channels := t\<rparr>"

fun sub_names :: "subscription_kind \<Rightarrow> subscriptions_of \<Rightarrow> string list" where
  "sub_names Channel s = so_channels s"
| "sub_names Pattern s = so_patterns s"
| "sub_names ShardChannel s = so_shard_channels s"

fun set_sub_names :: "subscription_kind \<Rightarrow> string list \<Rightarrow> subscriptions_of \<Rightarrow> subscriptions_of" where
  "set_sub_names Channel l s = s\<lparr>so_channels := l\<rparr>"
| "set_sub_names Pattern l s = s\<lparr>so_patterns := l\<rparr>"
| "set_sub_names ShardChannel l s = s\<lparr>so_shard_channels := l\<rparr>"

definition subscriptions_len :: "subscriptions_of \<Rightarrow> nat" where
  "subscriptions_len s = length (so_channels s) + length (so_patterns s) + length (so_shard_channels s)"

definition lookup_or :: "'v \<Rightarrow> ('k \<times> 'v) list \<Rightarrow> 'k \<Rightarrow> 'v" where
  "lookup_or d al k = (case map_of al k of None \<Rightarrow> d | Some v \<Rightarrow> v)"

definition add_subscription_record :: "subscription_kind \<Rightarrow> string \<Rightarrow> nat \<Rightarrow> session_manager \<Rightarrow> session_manager" where
  "add_subscription_record kind name sid m =
     (let s = lookup_or no_subscriptions (subscriptions m) sid
      in m\<lparr>subscriptions := AList.update sid (set_sub_names kind (List.insert name (sub_names kind s)) s) (subscriptions m)\<rparr>)"

definition add_subscriber :: "subscription_kind \<Rightarrow> string \<Rightarrow> nat \<Rightarrow> subscriber \<Rightarrow> session_manager \<Rightarrow> session_manager" where
  "add_subscriber kind name sid sub m =
     (let t = sub_table kind m
      in set_sub_table kind (AList.update name (AList.update sid sub (lookup_or [] t name)) t) m)"

definition register_subscription :: "subscription_kind \<Rightarrow> string \<Rightarrow> nat \<Rightarrow> subscriber \<Rightarrow> session_manager \<Rightarrow> session_manager" where
  "register_subscription kind name sid sub m =
     add_subscriber kind name sid sub (add_subscription_record kind name sid m)"

text \<open>The two steps on the table: take the session out, then drop the entry if it is empty.\<close>

definition remove_subscriber :: "subscription_kind \<Rightarrow> nat \<Rightarrow> session_manager \<Rightarrow> string \<Rightarrow> session_manager" where
  "remove_subscriber kind sid m name =
     (let t = sub_table kind m;
          t = (case map_of t name of None \<Rightarrow> t | Some subs \<Rightarrow> AList.update name (AList.delete sid subs) t);
          t = (if map_of t name = Some [] then AList.delete name t else t)
      in set_sub_table kind t m)"

definition unregister_subscription :: "subscription_kind \<Rightarrow> string \<Rightarrow> nat \<Rightarrow> session_manager \<Rightarrow> session_manager" where
  "unregister_subscription kind name sid m =
     (let m = remove_subscriber kind sid m name
      in case map_of (subscriptions m) sid of
           None \<Rightarrow> m
         | Some s \<Rightarrow>
             (let s' = set_sub_names kind (removeAll name (sub_names kind s)) s
              in m\<lparr>subscriptions := (if subscriptions_len s' = 0 then AList.delete sid (subscriptions m)
                                    else AList.update sid s' (subscriptions m))\<rparr>))"

definition unsubscribe_all :: "nat \<Rightarrow> session_manager \<Rightarrow> session_manager" where
  "unsubscribe_all sid m =
     (case map_of (subscriptions m) sid of
        None \<Rightarrow> m
      | Some s \<Rightarrow>
          (let m = m\<lparr>subscriptions := AList.delete sid (subscriptions m)\<rparr>;
               m = foldl (remove_subscriber Channel sid) m (so_channels s);
               m = foldl (remove_subscriber Pattern sid) m (so_patterns s)
           in foldl (remove_subscriber ShardChannel sid) m (so_shard_channels s)))"

definition subscription_count :: "session_manager \<Rightarrow> nat \<Rightarrow> nat" where
  "subscription_count m sid = (case map_of (subscriptions m) sid of None \<Rightarrow> 0 | Some s \<Rightarrow> subscriptions_len s)"

definition additional_subscription_count :: "session_manager \<Rightarrow> nat \<Rightarrow> string list \<Rightarrow> subscription_kind \<Rightarrow> nat" where
  "additional_subscription_count m sid names kind =
     length (filter (\<lambda>name. case map_of (subscriptions m) sid of
        None \<Rightarrow> True | Some s \<Rightarrow> name \<notin> set (sub_names kind s)) (remdups names))"

definition subscription_counts :: "session_manager \<Rightarrow> nat \<Rightarrow> nat \<times> nat \<times> nat" where
  "subscription_counts m sid =
     (case map_of (subscriptions m) sid of
        None \<Rightarrow> (0, 0, 0)
      | Some s \<Rightarrow> (length (so_channels s), length (so_patterns s), length (so_shard_channels s)))"

definition subscription_ack_count :: "session_manager \<Rightarrow> nat \<Rightarrow> subscription_kind \<Rightarrow> nat" where
  "subscription_ack_count m sid kind =
     (case subscription_counts m sid of (cs, ps, ss) \<Rightarrow>
        if kind = ShardChannel then ss else cs + ps)"

definition subscriptions_sorted :: "subscription_kind \<Rightarrow> session_manager \<Rightarrow> nat \<Rightarrow> string list" where
  "subscriptions_sorted kind m sid =
     (case map_of (subscriptions m) sid of None \<Rightarrow> [] | Some s \<Rightarrow> sort (sub_names kind s))"

definition channel_count :: "session_manager \<Rightarrow> string \<Rightarrow> bool \<Rightarrow> nat" where
  "channel_count m channel shard = length (lookup_or [] (sub_table (if shard then ShardChannel else Channel) m) channel)"

definition pattern_count :: "session_manager \<Rightarrow> nat" where
  "pattern_count m = length (filter (\<lambda>(_, subs). subs \<noteq> []) (sm_patterns m))"

definition channel_names_matching :: "session_manager \<Rightarrow> bool \<Rightarrow> string option \<Rightarrow> string list" where
  "channel_names_matching m shard pattern =
     sort (map fst (filter (\<lambda>(name, subs). subs \<noteq> [] \<and>
         (case map_option parse_glob pattern of None \<Rightarrow> True | Some tokens \<Rightarrow> glob_match_tokens tokens name))
       (sub_table (if shard then ShardChannel else Channel) m)))"

section \<open>The table of sessions\<close>

definition remove_shared_writer_state :: "nat \<Rightarrow> session_manager \<Rightarrow> session_manager" where
  "remove_shared_writer_state sid m =
     (let m = unsubscribe_all sid m in m\<lparr>monitors := AList.delete sid (monitors m)\<rparr>)"

definition create_session :: "session_snapshot \<Rightarrow> session_manager \<Rightarrow> session_manager" where
  "create_session s m =
     m\<lparr>sessions := AList.update (ss_id s) s (sessions m),
       controls := AList.update (ss_id s) new_control (controls m)\<rparr>"

definition update_session :: "session_snapshot \<Rightarrow> session_manager \<Rightarrow> session_manager" where
  "update_session s m =
     (if map_of (sessions m) (ss_id s) = None then m
      else m\<lparr>sessions := AList.update (ss_id s) s (sessions m)\<rparr>)"

definition remove_session :: "nat \<Rightarrow> session_manager \<Rightarrow> bool \<times> session_manager" where
  "remove_session sid m =
     (let m = remove_shared_writer_state sid m
      in (map_of (sessions m) sid \<noteq> None,
          m\<lparr>sessions := AList.delete sid (sessions m), controls := AList.delete sid (controls m)\<rparr>))"

definition get_connection_count :: "session_manager \<Rightarrow> nat" where
  "get_connection_count m = length (sessions m)"

definition is_over_max_clients :: "session_manager \<Rightarrow> nat \<Rightarrow> bool" where
  "is_over_max_clients m maxclients = (if maxclients = 0 then False else get_connection_count m \<ge> maxclients)"

end
