(* ===== verification/Session_Publish.thy ===== *)
theory Session_Publish
  imports Session_Manager
begin

text \<open>
  What the session manager does to other sessions: publishing (\<^verbatim>\<open>src/network/session_pubsub.rs\<close>), monitors
  (\<^verbatim>\<open>session_monitor.rs\<close>), CLIENT LIST, CLIENT KILL and CLIENT UNBLOCK (\<^verbatim>\<open>session_registry.rs\<close>). A state is the manager
  and the store of the writers.
\<close>

type_synonym net_state = "session_manager \<times> (nat \<Rightarrow> shared_writer)"

section \<open>Publishing\<close>

definition append_pubsub_bulk :: "bytes \<Rightarrow> bytes" where
  "append_pubsub_bulk val = ''$'' @ show_nat (length val) @ CRLF @ val @ CRLF"

definition pubsub_message_chunks :: "string list \<Rightarrow> bytes \<Rightarrow> resp_version \<Rightarrow> bytes list" where
  "pubsub_message_chunks leading_fields message protocol =
     [(case protocol of Resp2 \<Rightarrow> ''*'' | Resp3 \<Rightarrow> ''>'') @ show_nat (length leading_fields + 1) @ CRLF @
        concat (map append_pubsub_bulk leading_fields) @ ''$'' @ show_nat (length message) @ CRLF,
      message, CRLF]"

definition send_chunks :: "nat \<Rightarrow> bytes list \<Rightarrow> (nat \<Rightarrow> shared_writer) \<Rightarrow> bool \<times> (nat \<Rightarrow> shared_writer)" where
  "send_chunks w chunks ws = (case try_write_chunks chunks (ws w) of (ok, w') \<Rightarrow> (ok, ws(w := w')))"

text \<open>The loop over the subscribers of the channel, and the two loops over those of a pattern.\<close>

definition write_to :: "(resp_version \<Rightarrow> bytes list) \<Rightarrow> nat \<times> subscriber \<Rightarrow> nat \<times> net_state \<Rightarrow> nat \<times> net_state" where
  "write_to message = (\<lambda>(sid, sub) (count, m, ws).
     case send_chunks (sw_writer sub) (message (sw_protocol sub)) ws of (ok, ws') \<Rightarrow>
       if ok then (count + 1, m, ws') else (count, remove_shared_writer_state sid m, ws'))"

definition write_direct :: "(resp_version \<Rightarrow> bytes list) \<Rightarrow> nat \<times> net_state \<Rightarrow> nat \<times> subscriber \<Rightarrow> nat \<times> net_state" where
  "write_direct message = (\<lambda>(count, m, ws) (sid, sub).
     if writer_closed (ws (sw_writer sub)) then (count, remove_shared_writer_state sid m, ws)
     else write_to message (sid, sub) (count, m, ws))"

definition drop_closed :: "(nat \<times> subscriber) list \<Rightarrow> net_state \<Rightarrow> net_state" where
  "drop_closed subs = (\<lambda>(m, ws).
     (foldl (\<lambda>m (sid, sub). if writer_closed (ws (sw_writer sub)) then remove_shared_writer_state sid m else m) m subs, ws))"

definition write_pattern ::
  "(string \<Rightarrow> resp_version \<Rightarrow> bytes list) \<Rightarrow> nat \<times> net_state \<Rightarrow> string \<times> (nat \<times> subscriber) list \<Rightarrow> nat \<times> net_state"
where
  "write_pattern message = (\<lambda>(count, m, ws) (pattern, subs).
     (let live = filter (\<lambda>(sid, sub). \<not> writer_closed (ws (sw_writer sub))) subs
      in foldl (\<lambda>st sub. write_to (message pattern) sub st) (count, drop_closed subs (m, ws)) live))"

definition publish :: "string \<Rightarrow> bytes \<Rightarrow> bool \<Rightarrow> net_state \<Rightarrow> nat \<times> net_state" where
  "publish channel message shard = (\<lambda>(m, ws).
     (let direct = lookup_or [] (sub_table (if shard then ShardChannel else Channel) m) channel;
          matching = (if shard then [] else filter (\<lambda>(pattern, _). glob_match pattern channel) (sm_patterns m))
      in if direct = [] \<and> matching = [] then (0, m, ws)
         else foldl (write_pattern (\<lambda>pattern. pubsub_message_chunks [''pmessage'', pattern, channel] message))
                (foldl (write_direct (pubsub_message_chunks [if shard then ''smessage'' else ''message'', channel] message))
                   (0, m, ws) direct)
                matching))"

section \<open>Monitors\<close>

definition add_monitor :: "nat \<Rightarrow> nat \<Rightarrow> session_manager \<Rightarrow> session_manager" where
  "add_monitor sid writer m = m\<lparr>monitors := AList.update sid writer (monitors m)\<rparr>"

definition is_monitoring :: "session_manager \<Rightarrow> nat \<Rightarrow> bool" where
  "is_monitoring m sid \<longleftrightarrow> map_of (monitors m) sid \<noteq> None"

definition monitor_write :: "bytes \<Rightarrow> net_state \<Rightarrow> nat \<times> nat \<Rightarrow> net_state" where
  "monitor_write message = (\<lambda>(m, ws) (sid, w).
     case send_chunks w [message] ws of (ok, ws') \<Rightarrow> (if ok then m else remove_shared_writer_state sid m, ws'))"

definition broadcast_monitor :: "f64_text \<Rightarrow> nat \<Rightarrow> string \<Rightarrow> net_state \<Rightarrow> net_state" where
  "broadcast_monitor ft source line = (\<lambda>(m, ws).
     if monitors m = [] then (m, ws)
     else foldl (monitor_write (as_bytes ft (SimpleString line))) (m, ws)
            (filter (\<lambda>(sid, _). sid \<noteq> source) (monitors m)))"

definition broadcast_monitor_to :: "f64_text \<Rightarrow> nat \<Rightarrow> string \<Rightarrow> net_state \<Rightarrow> net_state" where
  "broadcast_monitor_to ft sid line = (\<lambda>(m, ws).
     case map_of (monitors m) sid of
       None \<Rightarrow> (m, ws)
     | Some w \<Rightarrow> monitor_write (as_bytes ft (SimpleString line)) (m, ws) (sid, w))"

section \<open>Clients\<close>

datatype client_type_filter = Normal | Master | Replica | Pubsub

record client_list_filter =
  clf_client_type :: "client_type_filter option"
  clf_ids :: "nat set option"

record client_kill_filter =
  ckf_id :: "nat option"
  ckf_client_type :: "client_type_filter option"
  ckf_user :: "string option"
  ckf_addr :: "string option"
  ckf_local_addr :: "string option"
  ckf_skip_current :: bool
  ckf_min_age_secs :: "nat option"

definition client_has_type :: "session_manager \<Rightarrow> session_snapshot \<Rightarrow> client_type_filter \<Rightarrow> bool" where
  "client_has_type m s t =
     (case subscription_counts m (ss_id s) of (sub, psub, ssub) \<Rightarrow>
        (case t of
           Normal \<Rightarrow> sub + psub + ssub = 0
         | Pubsub \<Rightarrow> sub + psub + ssub > 0
         | Master \<Rightarrow> False
         | Replica \<Rightarrow> False))"

definition client_matches_list_filter :: "session_manager \<Rightarrow> session_snapshot \<Rightarrow> client_list_filter \<Rightarrow> bool" where
  "client_matches_list_filter m s f \<longleftrightarrow>
     (case clf_ids f of None \<Rightarrow> True | Some ids \<Rightarrow> ss_id s \<in> ids) \<and>
     (case clf_client_type f of None \<Rightarrow> True | Some t \<Rightarrow> client_has_type m s t)"

text \<open>\<open>now\<close> is the clock in seconds, for \<^verbatim>\<open>elapsed().as_secs()\<close>.\<close>

definition kill_matches :: "session_manager \<Rightarrow> nat \<Rightarrow> nat \<Rightarrow> client_kill_filter \<Rightarrow> session_snapshot \<Rightarrow> bool" where
  "kill_matches m now current_id f s \<longleftrightarrow>
     \<not> ((ckf_skip_current f \<and> ss_id s = current_id) \<or>
        (case ckf_id f of None \<Rightarrow> False | Some i \<Rightarrow> i \<noteq> ss_id s) \<or>
        (case ckf_client_type f of None \<Rightarrow> False | Some t \<Rightarrow> \<not> client_has_type m s t) \<or>
        (case ckf_user f of None \<Rightarrow> False | Some u \<Rightarrow> u \<noteq> ss_user s) \<or>
        (case ckf_addr f of None \<Rightarrow> False | Some a \<Rightarrow> a \<noteq> ss_peer_addr s) \<or>
        (case ckf_local_addr f of None \<Rightarrow> False | Some a \<Rightarrow> a \<noteq> ss_local_addr s) \<or>
        (case ckf_min_age_secs f of None \<Rightarrow> False | Some age \<Rightarrow> now - ss_connected_at s < age))"

fun kill_loop :: "nat list \<Rightarrow> nat \<times> session_manager \<Rightarrow> nat \<times> session_manager" where
  "kill_loop [] st = st"
| "kill_loop (sid # sids) (n, m) =
     (case map_of (controls m) sid of
        None \<Rightarrow> kill_loop sids (n, m)
      | Some c \<Rightarrow> (case request_kill c of (killed_now, c') \<Rightarrow>
          kill_loop sids (if killed_now then n + 1 else n, m\<lparr>controls := AList.update sid c' (controls m)\<rparr>)))"

definition kill_clients :: "nat \<Rightarrow> nat \<Rightarrow> client_kill_filter \<Rightarrow> session_manager \<Rightarrow> nat \<times> session_manager" where
  "kill_clients now current_id f m =
     kill_loop (map (\<lambda>(_, s). ss_id s) (filter (\<lambda>(_, s). kill_matches m now current_id f s) (sessions m))) (0, m)"

definition unblock_client :: "nat \<Rightarrow> client_unblock_mode \<Rightarrow> session_manager \<Rightarrow> bool \<times> session_manager" where
  "unblock_client sid mode m =
     (case map_of (controls m) sid of
        None \<Rightarrow> (False, m)
      | Some c \<Rightarrow> (case request_unblock mode c of (ok, c') \<Rightarrow> (ok, m\<lparr>controls := AList.update sid c' (controls m)\<rparr>)))"

definition request_shutdown_all :: "session_manager \<Rightarrow> nat \<times> session_manager" where
  "request_shutdown_all m =
     (length (controls m),
      m\<lparr>controls := map (\<lambda>(sid, c). (sid, snd (request_kill (snd (request_unblock Unblock_error c))))) (controls m)\<rparr>)"

section \<open>CLIENT LIST\<close>

definition hex_upper :: "nat \<Rightarrow> char" where
  "hex_upper d = (if d < 10 then char_of (48 + d) else char_of (55 + d))"

definition plain_client_byte :: "char \<Rightarrow> bool" where
  "plain_client_byte b \<longleftrightarrow> CHR ''!'' \<le> b \<and> b \<le> CHR ''~'' \<and> b \<noteq> CHR ''%'' \<and> b \<noteq> CHR ''=''"

definition client_list_escape :: "string \<Rightarrow> string" where
  "client_list_escape val =
     concat (map (\<lambda>b. if plain_client_byte b then [b]
       else [CHR ''%'', hex_upper (of_char b div 16), hex_upper (of_char b mod 16)]) val)"

definition or_text :: "string \<Rightarrow> string option \<Rightarrow> string" where
  "or_text d x = (case x of None \<Rightarrow> d | Some t \<Rightarrow> t)"

fun checked_sum :: "nat \<Rightarrow> nat list \<Rightarrow> nat option" where
  "checked_sum acc [] = Some acc"
| "checked_sum acc (n # ns) = (case checked_mul n 3 of None \<Rightarrow> None | Some k \<Rightarrow>
     (case checked_add acc k of None \<Rightarrow> None | Some t \<Rightarrow> checked_sum t ns))"

datatype client_error = Client_response_too_long | Client_list_too_long

definition client_flags :: "session_manager \<Rightarrow> session_snapshot \<Rightarrow> string" where
  "client_flags m s =
     (let (sub, psub, ssub) = subscription_counts m (ss_id s);
          flags = (if is_monitoring m (ss_id s) then ''O'' else []) @
                  (if sub + psub + ssub > 0 then ''P'' else []) @
                  (if ss_in_transaction s then ''x'' else []) @
                  (if ss_no_evict s then ''e'' else []) @
                  (if ss_no_touch s then ''T'' else [])
      in if flags = [] then ''N'' else flags)"

definition client_line :: "session_manager \<Rightarrow> nat \<Rightarrow> session_snapshot \<Rightarrow> string" where
  "client_line m now s =
     (let (sub, psub, ssub) = subscription_counts m (ss_id s)
      in ''id='' @ show_nat (ss_id s) @ '' addr='' @ ss_peer_addr s @ '' laddr='' @ ss_local_addr s @
         '' fd=-1 name='' @ client_list_escape (or_text [] (ss_name s)) @
         '' age='' @ show_nat (now - ss_connected_at s) @ '' idle='' @ show_nat (now - ss_last_interaction_at s) @
         '' flags='' @ client_flags m s @ '' db='' @ show_nat (ss_current_db s) @
         '' sub='' @ show_nat sub @ '' psub='' @ show_nat psub @ '' ssub='' @ show_nat ssub @
         '' multi='' @ (if ss_in_transaction s then show_nat (ss_transaction_commands s) else ''-1'') @
         '' qbuf=0 qbuf-free=0 argv-mem=0 multi-mem='' @ show_nat (ss_transaction_bytes s) @
         '' rbs=0 rbp=0 obl=0 oll=0 omem=0 tot-mem=0 events=r cmd='' @
         client_list_escape (or_text ''unknown'' (ss_last_cmd s)) @
         '' user='' @ client_list_escape (ss_user s) @ '' redir=-1 resp='' @
         (case ss_resp_version s of Resp2 \<Rightarrow> ''2'' | Resp3 \<Rightarrow> ''3'') @
         '' lib-name='' @ client_list_escape (or_text [] (ss_library_name s)) @
         '' lib-ver='' @ client_list_escape (or_text [] (ss_library_version s)) @ CRLF)"

definition try_format_client :: "session_manager \<Rightarrow> nat \<Rightarrow> session_snapshot \<Rightarrow> nat \<Rightarrow> client_error + string" where
  "try_format_client m now s max_bytes =
     (case checked_sum 0 (map length [or_text [] (ss_name s), or_text ''unknown'' (ss_last_cmd s), ss_user s,
              or_text [] (ss_library_name s), or_text [] (ss_library_version s)]) of
        None \<Rightarrow> Inl Client_response_too_long
      | Some variable_bytes \<Rightarrow>
          if saturating_add variable_bytes 512 > max_bytes then Inl Client_response_too_long
          else Inr (client_line m now s))"

fun client_list_loop :: "session_manager \<Rightarrow> nat \<Rightarrow> nat \<Rightarrow> session_snapshot list \<Rightarrow> string \<Rightarrow> client_error + string" where
  "client_list_loop m now max_bytes [] out = Inr out"
| "client_list_loop m now max_bytes (s # ss) out =
     (case checked_sub max_bytes (length out) of
        None \<Rightarrow> Inl Client_list_too_long
      | Some remaining \<Rightarrow> (case try_format_client m now s remaining of
          Inl e \<Rightarrow> Inl e
        | Inr line \<Rightarrow> client_list_loop m now max_bytes ss (out @ line)))"

definition try_client_list_filtered :: "session_manager \<Rightarrow> nat \<Rightarrow> client_list_filter \<Rightarrow> nat \<Rightarrow> client_error + string" where
  "try_client_list_filtered m now f max_bytes =
     client_list_loop m now max_bytes
       (sort_key ss_id (filter (\<lambda>s. client_matches_list_filter m s f) (map snd (sessions m)))) []"

definition try_client_info :: "session_manager \<Rightarrow> nat \<Rightarrow> nat \<Rightarrow> nat \<Rightarrow> client_error + string option" where
  "try_client_info m now sid max_bytes =
     (case map_of (sessions m) sid of
        None \<Rightarrow> Inr None
      | Some s \<Rightarrow> (case try_format_client m now s max_bytes of Inl e \<Rightarrow> Inl e | Inr t \<Rightarrow> Inr (Some t)))"

end
