(* ===== verification/Session_Registry.thy ===== *)
theory Session_Registry
  imports Session_Publish
begin

text \<open>
  The tables of the session manager agree with each other, in every state that the operations reach: a
  session is among the subscribers of a name exactly when the name is among the session's subscriptions, and
  nothing empty is left behind. The queues of the writers stay within their budget.
\<close>

section \<open>What the routines do to the tables\<close>

definition subs_of :: "subscription_kind \<Rightarrow> session_manager \<Rightarrow> string \<Rightarrow> (nat \<times> subscriber) list" where
  "subs_of kind m name = lookup_or [] (sub_table kind m) name"

definition names_of :: "subscription_kind \<Rightarrow> session_manager \<Rightarrow> nat \<Rightarrow> string list" where
  "names_of kind m sid = sub_names kind (lookup_or no_subscriptions (subscriptions m) sid)"

named_theorems registry_simps

lemma sub_table_set [registry_simps]: "sub_table k (set_sub_table k' t m) = (if k = k' then t else sub_table k m)"
  by (cases k; cases k') simp_all

lemma sub_names_set [registry_simps]: "sub_names k (set_sub_names k' l s) = (if k = k' then l else sub_names k s)"
  by (cases k; cases k') simp_all

lemma sub_table_frame [registry_simps]:
  "sub_table k (m\<lparr>subscriptions := x\<rparr>) = sub_table k m" "sub_table k (m\<lparr>monitors := y\<rparr>) = sub_table k m"
  "sub_table k (m\<lparr>sessions := a\<rparr>) = sub_table k m" "sub_table k (m\<lparr>controls := b\<rparr>) = sub_table k m"
  by (cases k; simp)+

lemma set_sub_table_frame [registry_simps]:
  "subscriptions (set_sub_table k t m) = subscriptions m" "sessions (set_sub_table k t m) = sessions m"
  "controls (set_sub_table k t m) = controls m" "monitors (set_sub_table k t m) = monitors m"
  by (cases k; simp)+

lemma sub_names_none [simp]: "sub_names k no_subscriptions = []"
  by (cases k) (simp_all add: no_subscriptions_def)

lemma subscriptions_len_zero: "subscriptions_len s = 0 \<longleftrightarrow> (\<forall>k. sub_names k s = [])"
proof
  assume "subscriptions_len s = 0"
  then have "so_channels s = []" "so_patterns s = []" "so_shard_channels s = []" by (simp_all add: subscriptions_len_def)
  then show "\<forall>k. sub_names k s = []" by (metis sub_names.elims)
next
  assume "\<forall>k. sub_names k s = []"
  then have "sub_names Channel s = []" "sub_names Pattern s = []" "sub_names ShardChannel s = []" by blast+
  then show "subscriptions_len s = 0" by (simp add: subscriptions_len_def)
qed

lemma lookup_or_simps [registry_simps]:
  "lookup_or d (AList.update k v al) k' = (if k' = k then v else lookup_or d al k')"
  "lookup_or d (AList.delete k al) k' = (if k' = k then d else lookup_or d al k')"
  by (simp_all add: lookup_or_def)

lemma remove_subscriber_frame [registry_simps]:
  "subscriptions (remove_subscriber k sid m name) = subscriptions m"
  "sessions (remove_subscriber k sid m name) = sessions m"
  "controls (remove_subscriber k sid m name) = controls m"
  "monitors (remove_subscriber k sid m name) = monitors m"
  by (simp_all add: remove_subscriber_def Let_def registry_simps)

lemma subs_of_remove_subscriber [registry_simps]:
  "subs_of k (remove_subscriber k' sid m name') name =
     (if k = k' \<and> name = name' then AList.delete sid (subs_of k m name) else subs_of k m name)"
  by (auto simp: subs_of_def remove_subscriber_def Let_def registry_simps lookup_or_def split: option.splits)

lemma names_of_remove_subscriber [registry_simps]: "names_of k (remove_subscriber k' sid m name) = names_of k m"
  by (rule ext) (simp add: names_of_def registry_simps)

lemma fold_remove_subscriber:
  "subscriptions (foldl (remove_subscriber k sid) m names) = subscriptions m"
  "sessions (foldl (remove_subscriber k sid) m names) = sessions m"
  "controls (foldl (remove_subscriber k sid) m names) = controls m"
  "monitors (foldl (remove_subscriber k sid) m names) = monitors m"
  by (induction names arbitrary: m) (simp_all add: registry_simps)

lemma delete_twice: "AList.delete a (AList.delete a al) = AList.delete a al"
  by (simp add: AList.delete_idem)

lemma subs_of_fold_remove:
  "subs_of k (foldl (remove_subscriber k' sid) m names) name =
     (if k = k' \<and> name \<in> set names then AList.delete sid (subs_of k m name) else subs_of k m name)"
  by (induction names arbitrary: m) (auto simp: registry_simps delete_twice)

lemma subs_of_unsubscribe_all [registry_simps]:
  "subs_of k (unsubscribe_all sid m) name =
     (if name \<in> set (names_of k m sid) then AList.delete sid (subs_of k m name) else subs_of k m name)"
proof (cases "map_of (subscriptions m) sid")
  case None
  then show ?thesis by (simp add: unsubscribe_all_def names_of_def lookup_or_def)
next
  case (Some s)
  have frame: "subs_of k (m\<lparr>subscriptions := x\<rparr>) name = subs_of k m name" for k x
    by (simp add: subs_of_def registry_simps)
  show ?thesis
    using Some by (cases k) (simp_all add: unsubscribe_all_def Let_def subs_of_fold_remove frame names_of_def lookup_or_def)
qed

lemma unsubscribe_all_frame [registry_simps]:
  "sessions (unsubscribe_all sid m) = sessions m" "controls (unsubscribe_all sid m) = controls m"
  "monitors (unsubscribe_all sid m) = monitors m"
  "map_of (subscriptions (unsubscribe_all sid m)) = (map_of (subscriptions m))(sid := None)"
  by (auto simp: unsubscribe_all_def Let_def fold_remove_subscriber split: option.split)

lemma names_of_unsubscribe_all [registry_simps]:
  "names_of k (unsubscribe_all sid m) sid' = (if sid' = sid then [] else names_of k m sid')"
  by (simp add: names_of_def lookup_or_def registry_simps)

lemma remove_state_frame [registry_simps]:
  "subs_of k (remove_shared_writer_state sid m) name = subs_of k (unsubscribe_all sid m) name"
  "map_of (subscriptions (remove_shared_writer_state sid m)) = (map_of (subscriptions m))(sid := None)"
  "names_of k (remove_shared_writer_state sid m) sid' = (if sid' = sid then [] else names_of k m sid')"
  "sessions (remove_shared_writer_state sid m) = sessions m"
  "controls (remove_shared_writer_state sid m) = controls m"
  "map_of (monitors (remove_shared_writer_state sid m)) = (map_of (monitors m))(sid := None)"
  by (simp_all add: remove_shared_writer_state_def Let_def subs_of_def names_of_def lookup_or_def registry_simps)

lemma sub_table_remove_state: "sub_table k (remove_shared_writer_state sid m) = sub_table k (unsubscribe_all sid m)"
  by (simp add: remove_shared_writer_state_def Let_def registry_simps)

section \<open>The tables agree\<close>

definition tables_agree :: "session_manager \<Rightarrow> bool" where
  "tables_agree m \<longleftrightarrow> (\<forall>k name sid. sid \<in> fst ` set (subs_of k m name) \<longleftrightarrow> name \<in> set (names_of k m sid))"

definition no_empty_entries :: "session_manager \<Rightarrow> bool" where
  "no_empty_entries m \<longleftrightarrow>
     (\<forall>k name. map_of (sub_table k m) name \<noteq> Some []) \<and>
     (\<forall>sid s. map_of (subscriptions m) sid = Some s \<longrightarrow> (\<exists>k. sub_names k s \<noteq> []))"

definition distinct_entries :: "session_manager \<Rightarrow> bool" where
  "distinct_entries m \<longleftrightarrow>
     (\<forall>k name. distinct (map fst (subs_of k m name))) \<and> (\<forall>k sid. distinct (names_of k m sid)) \<and>
     (\<forall>k. distinct (map fst (sub_table k m)))"

definition sessions_agree :: "session_manager \<Rightarrow> bool" where
  "sessions_agree m \<longleftrightarrow>
     distinct (map fst (sessions m)) \<and> distinct (map fst (controls m)) \<and>
     (\<forall>(sid, s) \<in> set (sessions m). ss_id s = sid) \<and>
     fst ` set (controls m) = fst ` set (sessions m)"

definition registry_ok :: "session_manager \<Rightarrow> bool" where
  "registry_ok m \<longleftrightarrow> tables_agree m \<and> no_empty_entries m \<and> distinct_entries m \<and> sessions_agree m"

lemma keys_update [simp]: "fst ` set (AList.update k v al) = insert k (fst ` set al)"
  by (simp add: dom_update)

lemma keys_delete [simp]: "fst ` set (AList.delete k al) = fst ` set al - {k}"
  by (metis delete_keys set_map set_removeAll)

lemma keys_map_of: "k \<in> fst ` set al \<longleftrightarrow> map_of al k \<noteq> None"
  by (simp add: map_of_eq_None_iff)

lemma subs_of_register [registry_simps]:
  "subs_of k (register_subscription k' name' sid sub m) name =
     (if k = k' \<and> name = name' then AList.update sid sub (subs_of k m name) else subs_of k m name)"
  by (auto simp: register_subscription_def add_subscriber_def add_subscription_record_def Let_def subs_of_def registry_simps)

lemma names_of_register [registry_simps]:
  "names_of k (register_subscription k' name sid' sub m) sid =
     (if k = k' \<and> sid = sid' then List.insert name (names_of k m sid) else names_of k m sid)"
  by (auto simp: register_subscription_def add_subscriber_def add_subscription_record_def Let_def names_of_def registry_simps)

lemma names_of_eq_subscriptions:
  "map_of (subscriptions m) sid = Some s \<Longrightarrow> names_of k m sid = sub_names k s"
  by (simp add: names_of_def lookup_or_def)

lemma subs_of_unregister [registry_simps]:
  "subs_of k (unregister_subscription k' name' sid m) name = subs_of k (remove_subscriber k' sid m name') name"
  by (auto simp: unregister_subscription_def Let_def subs_of_def registry_simps split: option.splits)

lemma names_of_unregister [registry_simps]:
  "names_of k (unregister_subscription k' name sid' m) sid =
     (if k = k' \<and> sid = sid' then removeAll name (names_of k m sid) else names_of k m sid)"
proof (cases "map_of (subscriptions m) sid'")
  case None
  then show ?thesis
    by (auto simp: unregister_subscription_def Let_def registry_simps names_of_def lookup_or_def)
next
  case (Some s)
  let ?s = "set_sub_names k' (removeAll name (sub_names k' s)) s"
  show ?thesis
  proof (cases "subscriptions_len ?s = 0")
    case True
    then have e: "sub_names j ?s = []" for j by (simp add: subscriptions_len_zero)
    have "removeAll name (sub_names k' s) = []" "j \<noteq> k' \<Longrightarrow> sub_names j s = []" for j
      using e [of k'] e [of j] by (simp_all add: registry_simps)
    then show ?thesis
      using Some True by (auto simp: unregister_subscription_def Let_def registry_simps names_of_def lookup_or_def)
  next
    case False
    then show ?thesis
      using Some by (auto simp: unregister_subscription_def Let_def registry_simps names_of_def lookup_or_def)
  qed
qed

text \<open>What holds of the two tables through \<open>subs_of\<close> and \<open>names_of\<close> alone.\<close>

lemma tables_agree_register: "tables_agree m \<Longrightarrow> tables_agree (register_subscription k name sid sub m)"
  by (auto simp: tables_agree_def registry_simps)

lemma tables_agree_unregister: "tables_agree m \<Longrightarrow> tables_agree (unregister_subscription k name sid m)"
  by (auto simp: tables_agree_def registry_simps)

lemma tables_agree_unsubscribe_all: "tables_agree m \<Longrightarrow> tables_agree (remove_shared_writer_state sid m)"
  by (auto simp: tables_agree_def registry_simps)

lemma no_empty_register: "no_empty_entries m \<Longrightarrow> no_empty_entries (register_subscription k name sid sub m)"
proof -
  assume ok: "no_empty_entries m"
  have "AList.update sid sub xs \<noteq> []" for xs by (cases xs) auto
  moreover have "\<exists>j. sub_names j (set_sub_names k (List.insert name (sub_names k s)) s) \<noteq> []" for s
    by (rule exI [of _ k]) (auto simp: registry_simps List.insert_def)
  ultimately show ?thesis
    using ok unfolding no_empty_entries_def register_subscription_def add_subscriber_def add_subscription_record_def Let_def
    by (auto simp: registry_simps)
qed

lemma no_empty_remove_subscriber:
  assumes "\<forall>k name. map_of (sub_table k m) name \<noteq> Some []"
  shows "map_of (sub_table k' (remove_subscriber k sid m name)) name' \<noteq> Some []"
  using assms by (auto simp: remove_subscriber_def Let_def registry_simps split: option.splits)

lemma no_empty_fold_remove:
  assumes "\<forall>k name. map_of (sub_table k m) name \<noteq> Some []"
  shows "\<forall>k' name'. map_of (sub_table k' (foldl (remove_subscriber k sid) m names)) name' \<noteq> Some []"
  using assms by (induction names arbitrary: m) (simp_all add: no_empty_remove_subscriber)

lemma no_empty_unregister: "no_empty_entries m \<Longrightarrow> no_empty_entries (unregister_subscription k name sid m)"
  unfolding no_empty_entries_def unregister_subscription_def Let_def
  by (auto simp: registry_simps no_empty_remove_subscriber subscriptions_len_zero split: option.splits if_splits)

lemma no_empty_unsubscribe_all: "no_empty_entries m \<Longrightarrow> no_empty_entries (remove_shared_writer_state sid m)"
proof -
  assume ok: "no_empty_entries m"
  have t: "\<forall>k name. map_of (sub_table k (m\<lparr>subscriptions := x\<rparr>)) name \<noteq> Some []" for x
    using ok by (simp add: no_empty_entries_def registry_simps)
  have "\<forall>k name. map_of (sub_table k (unsubscribe_all sid m)) name \<noteq> Some []"
    using ok unfolding unsubscribe_all_def Let_def
    by (auto simp: no_empty_entries_def split: option.splits dest!: no_empty_fold_remove [OF no_empty_fold_remove [OF no_empty_fold_remove [OF t]], rule_format, THEN notE])
  then show ?thesis
    using ok by (auto simp: no_empty_entries_def remove_shared_writer_state_def Let_def registry_simps)
qed

lemma distinct_remove_subscriber:
  "\<forall>k. distinct (map fst (sub_table k m)) \<Longrightarrow> distinct (map fst (sub_table k' (remove_subscriber k sid m name)))"
  by (auto simp: remove_subscriber_def Let_def registry_simps distinct_update distinct_delete split: option.splits)

lemma distinct_fold_remove:
  "\<forall>k. distinct (map fst (sub_table k m)) \<Longrightarrow>
     \<forall>k'. distinct (map fst (sub_table k' (foldl (remove_subscriber k sid) m names)))"
  by (induction names arbitrary: m) (simp_all add: distinct_remove_subscriber)

lemma distinct_register: "distinct_entries m \<Longrightarrow> distinct_entries (register_subscription k name sid sub m)"
proof -
  assume ok: "distinct_entries m"
  have "sub_table j (register_subscription k name sid sub m) =
      (if j = k then AList.update name (AList.update sid sub (lookup_or [] (sub_table k m) name)) (sub_table k m)
       else sub_table j m)" for j
    by (simp add: register_subscription_def add_subscriber_def add_subscription_record_def Let_def registry_simps)
  then show ?thesis using ok by (auto simp: distinct_entries_def registry_simps distinct_update)
qed

lemma distinct_unregister: "distinct_entries m \<Longrightarrow> distinct_entries (unregister_subscription k name sid m)"
proof -
  assume ok: "distinct_entries m"
  have "sub_table j (unregister_subscription k name sid m) = sub_table j (remove_subscriber k sid m name)" for j
    by (simp add: unregister_subscription_def Let_def registry_simps split: option.split)
  then show ?thesis
    using ok by (auto simp: distinct_entries_def registry_simps distinct_delete distinct_removeAll distinct_remove_subscriber)
qed

lemma distinct_unsubscribe_all: "distinct_entries m \<Longrightarrow> distinct_entries (remove_shared_writer_state sid m)"
proof -
  assume ok: "distinct_entries m"
  have t: "\<forall>k. distinct (map fst (sub_table k (m\<lparr>subscriptions := x\<rparr>)))" for x
    using ok by (simp add: distinct_entries_def registry_simps)
  have "distinct (map fst (sub_table j (unsubscribe_all sid m)))" for j
    using ok distinct_fold_remove [OF distinct_fold_remove [OF distinct_fold_remove [OF t]]]
    by (simp add: unsubscribe_all_def Let_def distinct_entries_def split: option.split)
  then show ?thesis
    using ok sub_table_remove_state by (auto simp: distinct_entries_def registry_simps distinct_delete)
qed

lemmas registry_parts = tables_agree_register tables_agree_unregister tables_agree_unsubscribe_all
  no_empty_register no_empty_unregister no_empty_unsubscribe_all
  distinct_register distinct_unregister distinct_unsubscribe_all

lemma register_frame [registry_simps]:
  "sessions (register_subscription k name sid sub m) = sessions m"
  "controls (register_subscription k name sid sub m) = controls m"
  "sessions (unregister_subscription k name sid m) = sessions m"
  "controls (unregister_subscription k name sid m) = controls m"
  by (auto simp: register_subscription_def add_subscriber_def add_subscription_record_def
      unregister_subscription_def Let_def registry_simps split: option.split)

lemma registry_ok_register: "registry_ok m \<Longrightarrow> registry_ok (register_subscription k name sid sub m)"
  by (simp add: registry_ok_def registry_parts sessions_agree_def registry_simps)

lemma registry_ok_unregister: "registry_ok m \<Longrightarrow> registry_ok (unregister_subscription k name sid m)"
  by (simp add: registry_ok_def registry_parts sessions_agree_def registry_simps)

lemma registry_ok_remove_state: "registry_ok m \<Longrightarrow> registry_ok (remove_shared_writer_state sid m)"
  by (simp add: registry_ok_def registry_parts sessions_agree_def registry_simps)

text \<open>The other fields do not matter for the subscriptions.\<close>

lemma subscription_fields_only:
  assumes "\<And>k. sub_table k m' = sub_table k m" "subscriptions m' = subscriptions m"
  shows "tables_agree m' = tables_agree m" "no_empty_entries m' = no_empty_entries m" "distinct_entries m' = distinct_entries m"
  using assms by (simp_all add: tables_agree_def no_empty_entries_def distinct_entries_def subs_of_def names_of_def)

lemma registry_ok_sessions:
  assumes "registry_ok m" "sessions_agree (m\<lparr>sessions := a, controls := b\<rparr>)"
  shows "registry_ok (m\<lparr>sessions := a, controls := b\<rparr>)"
  using assms subscription_fields_only [of "m\<lparr>sessions := a, controls := b\<rparr>" m]
  by (simp add: registry_ok_def registry_simps)

lemma registry_ok_monitors: "registry_ok m \<Longrightarrow> registry_ok (m\<lparr>monitors := x\<rparr>)"
  using subscription_fields_only [of "m\<lparr>monitors := x\<rparr>" m]
  by (simp add: registry_ok_def sessions_agree_def registry_simps)

lemma set_update_subset: "set (AList.update k v al) \<subseteq> insert (k, v) (set al)"
  by (induction al) auto

lemma set_delete_subset: "set (AList.delete k al) \<subseteq> set al"
  by (induction al) auto

lemma sessions_agree_update:
  assumes "sessions_agree m" "map_of (sessions m) (ss_id s) \<noteq> None"
  shows "sessions_agree (m\<lparr>sessions := AList.update (ss_id s) s (sessions m)\<rparr>)"
proof -
  have "\<forall>(sid, s) \<in> set (AList.update (ss_id s) s (sessions m)). ss_id s = sid"
    using assms(1) set_update_subset [of "ss_id s" s "sessions m"] by (auto simp: sessions_agree_def)
  moreover have "ss_id s \<in> fst ` set (sessions m)" using assms(2) keys_map_of by metis
  ultimately show ?thesis using assms(1) by (simp add: sessions_agree_def distinct_update insert_absorb)
qed

lemma registry_ok_create: "registry_ok m \<Longrightarrow> registry_ok (create_session s m)"
  unfolding create_session_def
proof (rule registry_ok_sessions)
  assume "registry_ok m"
  then show "sessions_agree (m\<lparr>sessions := AList.update (ss_id s) s (sessions m),
      controls := AList.update (ss_id s) new_control (controls m)\<rparr>)"
    using set_update_subset [of "ss_id s" s "sessions m"]
    by (auto simp: registry_ok_def sessions_agree_def distinct_update)
qed

lemma registry_ok_update: "registry_ok m \<Longrightarrow> registry_ok (update_session s m)"
  using sessions_agree_update [of m s] subscription_fields_only [of "m\<lparr>sessions := AList.update (ss_id s) s (sessions m)\<rparr>" m]
  by (simp add: update_session_def registry_ok_def registry_simps)

lemma registry_ok_remove_session: "registry_ok m \<Longrightarrow> registry_ok (snd (remove_session sid m))"
proof -
  assume "registry_ok m"
  then have ok: "registry_ok (remove_shared_writer_state sid m)" by (rule registry_ok_remove_state)
  let ?m = "remove_shared_writer_state sid m"
  have "sessions_agree (?m\<lparr>sessions := AList.delete sid (sessions ?m), controls := AList.delete sid (controls ?m)\<rparr>)"
    using ok set_delete_subset [of sid "sessions ?m"]
    by (auto simp: registry_ok_def sessions_agree_def distinct_delete)
  from registry_ok_sessions [OF ok this] show ?thesis by (simp add: remove_session_def Let_def)
qed

end
