(* ===== verification/Session_Runs.thy ===== *)
theory Session_Runs
  imports Session_Registry
begin

text \<open>
  Runs of the session manager and of the writers: the steps that the sessions and the writer tasks take, in any
  order, and what every state of a run satisfies.
\<close>

section \<open>Writers stay within their budget\<close>

lemma chunks_len_from_eq: "chunks_len_from acc chunks = Some n \<Longrightarrow> n = acc + length (concat chunks)"
  by (induction chunks arbitrary: acc) (fastforce split: option.splits)+

lemma chunks_len_eq: "chunks_len chunks = Some n \<Longrightarrow> n = length (concat chunks)"
  using chunks_len_from_eq [of 0] by (simp add: chunks_len_def)

definition pending :: "shared_writer \<Rightarrow> bytes list list" where
  "pending w = queue w @ (case in_flight w of None \<Rightarrow> [] | Some chunks \<Rightarrow> [chunks])"

definition queued_bytes :: "shared_writer \<Rightarrow> nat" where
  "queued_bytes w = sum_list (map (length \<circ> concat) (pending w))"

definition admitted :: "bytes list \<Rightarrow> bool" where
  "admitted chunks \<longleftrightarrow> (\<exists>n. chunks_len chunks = Some n \<and> n \<le> SHARED_WRITE_MAX_MESSAGE_BYTES)"

definition writer_ok :: "shared_writer \<Rightarrow> bool" where
  "writer_ok w \<longleftrightarrow> length (queue w) \<le> SHARED_WRITE_QUEUE_CAPACITY \<and>
     budget w + sum_list (map permits_of (pending w)) = SHARED_WRITE_QUEUE_BYTES \<and> list_all admitted (pending w)"

lemma permits_of_admitted:
  "admitted c \<Longrightarrow> permits_of c = max 1 (min (length (concat c)) SHARED_WRITE_QUEUE_BYTES)"
  by (auto simp: admitted_def permits_of_def queue_permits_def Let_def shared_write_defs MAX_FRAME_BYTES_def
      dest: chunks_len_eq split: option.splits)

lemma queue_permits_admitted:
  "chunks_len c = Some n \<Longrightarrow> queue_permits n = Some p \<Longrightarrow> admitted c \<and> permits_of c = p"
  by (auto simp: admitted_def permits_of_def queue_permits_def Let_def split: if_splits)

lemma writer_ok_new: "writer_ok new_writer"
  by (simp add: writer_ok_def new_writer_def pending_def)

lemma writer_ok_close [simp]: "writer_ok (close_writer w) = writer_ok w"
  by (simp add: writer_ok_def close_writer_def pending_def)

lemma writer_ok_send: "writer_ok w \<Longrightarrow> writer_ok (snd (try_write_chunks chunks w))"
  using queue_permits_admitted [of chunks]
  by (auto simp: try_write_chunks_def split: option.split)
    (auto simp: writer_ok_def pending_def)

lemma writer_ok_take: "writer_ok w \<Longrightarrow> writer_ok (worker_take w)"
  by (auto simp: worker_take_def writer_ok_def pending_def split: option.splits list.splits)

lemma writer_ok_done: "writer_ok w \<Longrightarrow> writer_ok (worker_done written w)"
proof -
  assume "writer_ok w"
  then have "writer_ok (w\<lparr>in_flight := None, budget := budget w + permits_of c\<rparr>)" if "in_flight w = Some c" for c
    using that by (simp add: writer_ok_def pending_def)
  then show ?thesis using \<open>writer_ok w\<close> by (simp add: worker_done_def Let_def split: option.split)
qed

lemma writer_ok_bytes:
  assumes "writer_ok w"
  shows "queued_bytes w \<le> SHARED_WRITE_MAX_MESSAGE_BYTES"
proof (cases "\<exists>c \<in> set (pending w). length (concat c) > SHARED_WRITE_QUEUE_BYTES")
  case True
  then obtain c xs ys where c: "pending w = xs @ c # ys" "length (concat c) > SHARED_WRITE_QUEUE_BYTES"
    by (meson split_list)
  have ok: "list_all admitted (xs @ c # ys)" using assms c(1) by (simp add: writer_ok_def)
  then have "permits_of c = SHARED_WRITE_QUEUE_BYTES"
    using c(2) permits_of_admitted [of c] by (simp add: shared_write_defs)
  then have z: "sum_list (map permits_of (xs @ ys)) = 0" using assms c(1) by (simp add: writer_ok_def)
  have "permits_of d = 0 \<and> permits_of d \<ge> 1" if "d \<in> set (xs @ ys)" for d
    using that ok permits_of_admitted [of d] z by (auto simp: list_all_iff simp del: map_append)
  then have "d \<notin> set xs \<and> d \<notin> set ys" for d by fastforce
  then have "xs = []" "ys = []" using hd_in_set by blast+
  then show ?thesis using c(1) ok by (auto simp: queued_bytes_def admitted_def dest: chunks_len_eq)
next
  case False
  have "length (concat c) \<le> permits_of c" if "c \<in> set (pending w)" for c
    using that False assms permits_of_admitted [of c] by (fastforce simp: writer_ok_def list_all_iff)
  then have "queued_bytes w \<le> sum_list (map permits_of (pending w))"
    unfolding queued_bytes_def by (intro sum_list_mono) auto
  also have "\<dots> \<le> SHARED_WRITE_QUEUE_BYTES" using assms by (simp add: writer_ok_def)
  finally show ?thesis by (simp add: shared_write_defs MAX_FRAME_BYTES_def)
qed

section \<open>Publishing keeps the invariants\<close>

definition net_ok :: "net_state \<Rightarrow> bool" where
  "net_ok = (\<lambda>(m, ws). registry_ok m \<and> (\<forall>w. writer_ok (ws w)))"

lemma writer_ok_send_chunks: "\<forall>w. writer_ok (ws w) \<Longrightarrow> writer_ok (snd (send_chunks w c ws) v)"
  using writer_ok_send [of "ws w" c] by (auto simp: send_chunks_def split: prod.split)

lemma net_ok_write_to: "net_ok (snd st) \<Longrightarrow> net_ok (snd (write_to message sub st))"
  using writer_ok_send_chunks registry_ok_remove_state
  by (auto simp: write_to_def net_ok_def split: prod.splits) (metis snd_conv)+

lemma net_ok_write_direct: "net_ok (snd st) \<Longrightarrow> net_ok (snd (write_direct message st sub))"
  using net_ok_write_to [of st message sub]
  by (auto simp: write_direct_def net_ok_def registry_ok_remove_state split: prod.splits)

lemma net_ok_drop_closed: "net_ok st \<Longrightarrow> net_ok (drop_closed subs st)"
  by (auto simp: drop_closed_def net_ok_def registry_ok_remove_state split: prod.splits
      intro!: foldl_invariant [where P = registry_ok])

lemma net_ok_write_pattern: "net_ok (snd st) \<Longrightarrow> net_ok (snd (write_pattern message st sub))"
  using net_ok_drop_closed
  by (auto simp: write_pattern_def Let_def split: prod.splits
      intro!: foldl_invariant [where P = "\<lambda>st. net_ok (snd st)"] net_ok_write_to)

lemma net_ok_publish: "net_ok st \<Longrightarrow> net_ok (snd (publish channel message shard st))"
  by (auto simp: publish_def Let_def split: prod.splits
      intro!: foldl_invariant [where P = "\<lambda>st. net_ok (snd st)"] net_ok_write_pattern net_ok_write_direct)

lemma net_ok_monitor_write: "net_ok st \<Longrightarrow> net_ok (monitor_write message st mon)"
  using writer_ok_send_chunks registry_ok_remove_state
  by (auto simp: monitor_write_def net_ok_def split: prod.splits) (metis snd_conv)+

lemma net_ok_broadcast: "net_ok st \<Longrightarrow> net_ok (broadcast_monitor ft source line st)"
  by (auto simp: broadcast_monitor_def split: prod.splits
      intro!: foldl_invariant [where P = net_ok] net_ok_monitor_write)

section \<open>The steps\<close>

inductive net_step :: "net_state \<Rightarrow> net_state \<Rightarrow> bool" where
  create: "net_step (m, ws) (create_session s m, ws)"
| update: "net_step (m, ws) (update_session s m, ws)"
| remove: "net_step (m, ws) (snd (remove_session sid m), ws)"
| reset: "net_step (m, ws) (remove_shared_writer_state sid m, ws)"
| subscribe: "net_step (m, ws) (register_subscription kind name sid sub m, ws)"
| unsubscribe: "net_step (m, ws) (unregister_subscription kind name sid m, ws)"
| publishing: "net_step st (snd (publish channel message shard st))"
| monitor: "net_step (m, ws) (add_monitor sid w m, ws)"
| broadcast: "net_step st (broadcast_monitor ft source line st)"
| direct: "net_step (m, ws) (m, snd (send_chunks w chunks ws))"
| worker_takes: "net_step (m, ws) (m, ws(w := worker_take (ws w)))"
| worker_finishes: "net_step (m, ws) (m, ws(w := worker_done written (ws w)))"

inductive_cases net_step_cases: "net_step st st'"

definition net_init :: "net_state \<Rightarrow> bool" where
  "net_init st \<longleftrightarrow> (\<exists>pw. st = (with_default_password pw, \<lambda>_. new_writer))"

lemma registry_ok_new: "registry_ok (with_default_password pw)"
proof -
  have t: "sub_table k (with_default_password pw) = []" for k by (cases k) (simp_all add: with_default_password_def)
  have s: "subscriptions (with_default_password pw) = []" "sessions (with_default_password pw) = []"
    "controls (with_default_password pw) = []"
    by (simp_all add: with_default_password_def)
  show ?thesis
    by (simp add: registry_ok_def tables_agree_def no_empty_entries_def distinct_entries_def sessions_agree_def
        subs_of_def names_of_def lookup_or_def t s)
qed

lemma net_ok_pair: "net_ok (m, ws) \<longleftrightarrow> registry_ok m \<and> (\<forall>w. writer_ok (ws w))"
  by (simp add: net_ok_def)

lemma net_step_ok: "net_ok st \<Longrightarrow> net_step st st' \<Longrightarrow> net_ok st'"
  by (erule net_step_cases)
    (simp_all add: net_ok_pair net_ok_publish net_ok_broadcast registry_ok_create registry_ok_update
      registry_ok_remove_session registry_ok_remove_state registry_ok_register registry_ok_unregister add_monitor_def
      registry_ok_monitors writer_ok_send_chunks writer_ok_take writer_ok_done)

interpretation net: inductive_invariant net_init net_step net_ok
proof
  show "net_init st \<Longrightarrow> net_ok st" for st
    by (auto simp: net_init_def net_ok_def registry_ok_new writer_ok_new)
qed (rule net_step_ok)

end
