(* ===== verification/Session_Properties.thy ===== *)
theory Session_Properties
  imports Session_Runs
begin

text \<open>
  What the session manager promises: its tables agree in every state of a run, the queues of the writers are
  bounded, publishing reaches exactly the subscribers, and CLIENT LIST lines cannot be forged.
\<close>

section \<open>Every state of a run\<close>

lemma card_subscribers:
  assumes "registry_ok m"
  shows "length (subs_of k m name) = card {sid. name \<in> set (names_of k m sid)}"
proof -
  have "card (fst ` set (subs_of k m name)) = length (subs_of k m name)"
    using assms distinct_card [of "map fst (subs_of k m name)"] by (auto simp: registry_ok_def distinct_entries_def)
  moreover have "fst ` set (subs_of k m name) = {sid. name \<in> set (names_of k m sid)}"
    using assms by (auto simp: registry_ok_def tables_agree_def)
  ultimately show ?thesis by simp
qed

lemma removed_session_is_gone:
  assumes "registry_ok m"
  shows "names_of k (snd (remove_session sid m)) sid = []"
    "sid \<notin> fst ` set (subs_of k (snd (remove_session sid m)) name)"
    "\<not> is_monitoring (snd (remove_session sid m)) sid"
proof -
  let ?m = "snd (remove_session sid m)"
  have f: "names_of k ?m sid = names_of k (remove_shared_writer_state sid m) sid"
    "monitors ?m = monitors (remove_shared_writer_state sid m)"
    by (simp_all add: remove_session_def Let_def names_of_def)
  show n: "names_of k ?m sid = []" using f by (simp add: registry_simps)
  show "sid \<notin> fst ` set (subs_of k ?m name)"
    using registry_ok_remove_session [OF assms, of sid] n by (auto simp: registry_ok_def tables_agree_def)
  show "\<not> is_monitoring ?m sid" using f by (simp add: is_monitoring_def registry_simps)
qed


definition sample_subscriber :: subscriber where
  "sample_subscriber = \<lparr>sw_writer = 3, sw_protocol = Resp3\<rparr>"

definition sample_manager :: session_manager where
  "sample_manager = register_subscription Pattern ''n*'' 3 sample_subscriber
     (register_subscription Channel ''news'' 3 sample_subscriber (with_default_password None))"

lemma sample_reached: "net_step\<^sup>*\<^sup>* (with_default_password None, \<lambda>_. new_writer) (sample_manager, \<lambda>_. new_writer)"
proof -
  let ?s0 = "(with_default_password None, \<lambda>_. new_writer)"
  let ?s1 = "(register_subscription Channel ''news'' 3 sample_subscriber (with_default_password None), \<lambda>_. new_writer)"
  have "net_step ?s0 ?s1" "net_step ?s1 (sample_manager, \<lambda>_. new_writer)"
    unfolding sample_manager_def by (rule net_step.subscribe)+
  then show ?thesis by simp
qed

lemma sample_init: "net_init (with_default_password None, \<lambda>_. new_writer)"
  by (auto simp: net_init_def)




section \<open>Publishing\<close>

text \<open>The messages that a publication is about: the writer, the protocol of the subscriber, and the leading fields.\<close>

definition deliveries :: "session_manager \<Rightarrow> string \<Rightarrow> bool \<Rightarrow> (nat \<times> resp_version \<times> string list) list" where
  "deliveries m channel shard =
     map (\<lambda>(_, sub). (sw_writer sub, sw_protocol sub, [if shard then ''smessage'' else ''message'', channel]))
       (lookup_or [] (sub_table (if shard then ShardChannel else Channel) m) channel) @
     concat (map (\<lambda>(pattern, subs). map (\<lambda>(_, sub). (sw_writer sub, sw_protocol sub, [''pmessage'', pattern, channel])) subs)
       (if shard then [] else filter (\<lambda>(pattern, _). glob_match pattern channel) (sm_patterns m)))"

definition chunks_for :: "bytes \<Rightarrow> nat \<times> resp_version \<times> string list \<Rightarrow> nat \<times> bytes list" where
  "chunks_for message = (\<lambda>(w, p, flds). (w, pubsub_message_chunks flds message p))"

definition messages_to :: "nat \<Rightarrow> (nat \<times> bytes list) list \<Rightarrow> bytes list list" where
  "messages_to w D = map snd (filter (\<lambda>(v, _). v = w) D)"

definition has_room :: "shared_writer \<Rightarrow> bytes list list \<Rightarrow> bool" where
  "has_room w msgs \<longleftrightarrow> msgs = [] \<or> \<not> writer_closed w \<and> \<not> budget_closed w \<and>
     length (queue w) + length msgs \<le> SHARED_WRITE_QUEUE_CAPACITY \<and>
     sum_list (map permits_of msgs) \<le> budget w \<and> list_all admitted msgs"

definition enqueue :: "bytes list list \<Rightarrow> shared_writer \<Rightarrow> shared_writer" where
  "enqueue msgs w = w\<lparr>queue := queue w @ msgs, budget := budget w - sum_list (map permits_of msgs)\<rparr>"

definition enqueue_all :: "(nat \<times> bytes list) list \<Rightarrow> (nat \<Rightarrow> shared_writer) \<Rightarrow> nat \<Rightarrow> shared_writer" where
  "enqueue_all D ws = (\<lambda>w. enqueue (messages_to w D) (ws w))"

definition room_for :: "(nat \<times> bytes list) list \<Rightarrow> (nat \<Rightarrow> shared_writer) \<Rightarrow> bool" where
  "room_for D ws \<longleftrightarrow> (\<forall>w. has_room (ws w) (messages_to w D))"

lemma messages_to_simps [simp]:
  "messages_to w [] = []" "messages_to w (D @ E) = messages_to w D @ messages_to w E"
  "messages_to w ((v, c) # D) = (if v = w then c # messages_to w D else messages_to w D)"
  by (simp_all add: messages_to_def)

lemma enqueue_Nil [simp]: "enqueue [] w = w"
  by (simp add: enqueue_def)

lemma enqueue_append: "enqueue (xs @ ys) w = enqueue ys (enqueue xs w)"
  by (simp add: enqueue_def)

lemma enqueue_all_Nil [simp]: "enqueue_all [] ws = ws"
  by (simp add: enqueue_all_def)

lemma enqueue_all_append: "enqueue_all (D @ E) ws = enqueue_all E (enqueue_all D ws)"
  by (simp add: enqueue_all_def enqueue_append)

lemma room_for_append: "room_for (D @ E) ws \<Longrightarrow> room_for D ws \<and> room_for E (enqueue_all D ws)"
  unfolding room_for_def enqueue_all_def has_room_def enqueue_def by fastforce

lemma room_for_send:
  assumes "room_for ((w, c) # D) ws"
  shows "\<not> writer_closed (ws w)" "send_chunks w c ws = (True, enqueue_all [(w, c)] ws)"
proof -
  have r: "has_room (ws w) (c # messages_to w D)" using assms by (auto simp: room_for_def dest: spec [of _ w])
  then show "\<not> writer_closed (ws w)" by (simp add: has_room_def)
  obtain n where n: "chunks_len c = Some n" "n \<le> SHARED_WRITE_MAX_MESSAGE_BYTES"
    using r by (auto simp: has_room_def admitted_def)
  have p: "queue_permits n = Some (permits_of c)"
    using n by (simp add: permits_of_def queue_permits_def Let_def shared_write_defs MAX_FRAME_BYTES_def)
  have "try_write_chunks c (ws w) = (True, enqueue [c] (ws w))"
    using r n p by (simp add: try_write_chunks_def has_room_def enqueue_def)
  then show "send_chunks w c ws = (True, enqueue_all [(w, c)] ws)"
    by (auto simp: send_chunks_def enqueue_all_def)
qed

definition sub_messages :: "(resp_version \<Rightarrow> bytes list) \<Rightarrow> (nat \<times> subscriber) list \<Rightarrow> (nat \<times> bytes list) list" where
  "sub_messages message subs = map (\<lambda>(_, sub). (sw_writer sub, message (sw_protocol sub))) subs"

lemma write_to_room:
  assumes "room_for (sub_messages message subs @ E) ws"
  shows "foldl (\<lambda>st sub. write_to message sub st) (n, m, ws) subs =
      (n + length subs, m, enqueue_all (sub_messages message subs) ws) \<and>
    foldl (write_direct message) (n, m, ws) subs =
      (n + length subs, m, enqueue_all (sub_messages message subs) ws)"
  using assms
proof (induction subs arbitrary: n ws)
  case Nil
  then show ?case by (simp add: sub_messages_def)
next
  case (Cons entry subs)
  obtain sid sub where entry: "entry = (sid, sub)" by (cases entry)
  let ?e = "(sw_writer sub, message (sw_protocol sub))"
  have r: "room_for ([?e] @ (sub_messages message subs @ E)) ws"
    using Cons.prems by (simp add: sub_messages_def entry)
  have step: "write_to message entry (n, m, ws) = (n + 1, m, enqueue_all [?e] ws)"
    "write_direct message (n, m, ws) entry = (n + 1, m, enqueue_all [?e] ws)"
    using room_for_send [OF r [simplified]] by (simp_all add: write_to_def write_direct_def entry)
  have "sub_messages message (entry # subs) = [?e] @ sub_messages message subs" by (simp add: sub_messages_def entry)
  then show ?case
    using Cons.IH [OF room_for_append [OF r, THEN conjunct2], of "n + 1"] step by (simp only: enqueue_all_append) simp
qed

lemma drop_closed_none:
  "\<forall>(sid, sub) \<in> set subs. \<not> writer_closed (ws (sw_writer sub)) \<Longrightarrow> drop_closed subs (m, ws) = (m, ws)"
  unfolding drop_closed_def by (induction subs) auto

lemma room_for_open:
  "room_for (sub_messages message subs @ E) ws \<Longrightarrow> \<forall>(sid, sub) \<in> set subs. \<not> writer_closed (ws (sw_writer sub))"
proof (rule ballI, clarify)
  fix sid sub assume r: "room_for (sub_messages message subs @ E) ws" "(sid, sub) \<in> set subs" "writer_closed (ws (sw_writer sub))"
  then have "message (sw_protocol sub) \<in> set (messages_to (sw_writer sub) (sub_messages message subs))"
    by (force simp: sub_messages_def messages_to_def)
  with r show False by (auto simp: room_for_def has_room_def dest: spec [of _ "sw_writer sub"])
qed

lemma write_pattern_room:
  assumes "room_for (sub_messages (message pattern) subs @ E) ws"
  shows "write_pattern message (n, m, ws) (pattern, subs) =
    (n + length subs, m, enqueue_all (sub_messages (message pattern) subs) ws)"
proof -
  have "\<forall>(sid, sub) \<in> set subs. \<not> writer_closed (ws (sw_writer sub))" by (rule room_for_open [OF assms])
  then have "filter (\<lambda>(sid, sub). \<not> writer_closed (ws (sw_writer sub))) subs = subs" "drop_closed subs (m, ws) = (m, ws)"
    by (auto simp: filter_id_conv drop_closed_none)
  then show ?thesis using write_to_room [OF assms] by (simp add: write_pattern_def Let_def)
qed

lemma write_patterns_room:
  assumes "room_for (concat (map (\<lambda>(pattern, subs). sub_messages (message pattern) subs) matching) @ E) ws"
  shows "foldl (write_pattern message) (n, m, ws) matching =
    (n + length (concat (map snd matching)), m,
     enqueue_all (concat (map (\<lambda>(pattern, subs). sub_messages (message pattern) subs) matching)) ws)"
  using assms
proof (induction matching arbitrary: n ws)
  case (Cons entry matching)
  obtain pattern subs where entry: "entry = (pattern, subs)" by (cases entry)
  let ?rest = "concat (map (\<lambda>(pattern, subs). sub_messages (message pattern) subs) matching)"
  have r: "room_for (sub_messages (message pattern) subs @ (?rest @ E)) ws" using Cons.prems by (simp add: entry)
  show ?case
    using write_pattern_room [of message pattern, OF r] Cons.IH [OF room_for_append [OF r, THEN conjunct2], of "n + length subs"]
    by (simp add: entry enqueue_all_append)
qed simp

lemma deliveries_messages:
  "map (chunks_for message) (deliveries m channel shard) =
     sub_messages (pubsub_message_chunks [if shard then ''smessage'' else ''message'', channel] message)
       (subs_of (if shard then ShardChannel else Channel) m channel) @
     concat (map (\<lambda>(pattern, subs). sub_messages (pubsub_message_chunks [''pmessage'', pattern, channel] message) subs)
       (if shard then [] else filter (\<lambda>(pattern, _). glob_match pattern channel) (sm_patterns m)))"
  by (simp add: deliveries_def chunks_for_def sub_messages_def subs_of_def map_concat comp_def case_prod_unfold)

lemma pubsub_message_frame:
  "concat (pubsub_message_chunks flds message p) = append_frame ft p (Push (map BulkString (flds @ [message])))"
proof -
  have "append_pubsub_bulk = (\<lambda>x. append_frame ft p (BulkString x))"
    by (cases p) (simp_all add: fun_eq_iff append_pubsub_bulk_def append_blob_def)
  then have "concat (map (append_frame ft p) (map BulkString xs)) = concat (map append_pubsub_bulk xs)" for xs
    by (simp add: comp_def)
  moreover have "append_frame ft p (Push vs) =
      (case p of Resp2 \<Rightarrow> ''*'' | Resp3 \<Rightarrow> ''>'') @ show_nat (length vs) @ CRLF @ concat (map (append_frame ft p) vs)" for vs
    by (cases p) simp_all
  ultimately show ?thesis
    by (simp add: pubsub_message_chunks_def append_pubsub_bulk_def append_blob_def)
qed


lemma sample_deliveries:
  "deliveries sample_manager ''news'' False =
     [(3, Resp3, [''message'', ''news'']), (3, Resp3, [''pmessage'', ''n*'', ''news''])]"
proof -
  have "glob_match ''n*'' ''news''"
    by (simp add: glob_match_def parse_glob_def parse_glob_from.simps glob_match_tokens_def match_loop.simps
        skip_stars.simps get_at_def)
  then show ?thesis
    by (simp add: deliveries_def sample_manager_def sample_subscriber_def register_subscription_def add_subscriber_def
        add_subscription_record_def with_default_password_def lookup_or_def)
qed


text \<open>A session that publishing removes stays without subscriptions.\<close>

lemma names_stay_empty:
  "names_of k (fst (snd st)) sid = [] \<Longrightarrow> names_of k (fst (snd (write_to message sub st))) sid = []"
  "names_of k (fst (snd st)) sid = [] \<Longrightarrow> names_of k (fst (snd (write_direct message st sub))) sid = []"
  "names_of k (fst st') sid = [] \<Longrightarrow> names_of k (fst (drop_closed subs st')) sid = []"
proof -
  show w: "names_of k (fst (snd st)) sid = [] \<Longrightarrow> names_of k (fst (snd (write_to message sub st))) sid = []"
    by (auto simp: write_to_def registry_simps split: prod.splits)
  show "names_of k (fst (snd st)) sid = [] \<Longrightarrow> names_of k (fst (snd (write_direct message st sub))) sid = []"
    using w by (auto simp: write_direct_def registry_simps split: prod.splits)
  show "names_of k (fst st') sid = [] \<Longrightarrow> names_of k (fst (drop_closed subs st')) sid = []"
    by (auto simp: drop_closed_def registry_simps split: prod.splits
        intro!: foldl_invariant [where P = "\<lambda>m. names_of k m sid = []"])
qed

lemma names_stay_empty_pattern:
  "names_of k (fst (snd st)) sid = [] \<Longrightarrow> names_of k (fst (snd (write_pattern message st sub))) sid = []"
  using names_stay_empty(3)
  by (auto simp: write_pattern_def Let_def split: prod.splits
      intro!: foldl_invariant [where P = "\<lambda>st. names_of k (fst (snd st)) sid = []"] names_stay_empty(1))

lemma closed_stays_closed:
  "writer_closed (ws w) \<Longrightarrow> writer_closed (snd (send_chunks v c ws) w)"
  by (auto simp: send_chunks_def try_write_chunks_def close_writer_def split: option.splits prod.splits if_splits)

lemma write_direct_closed:
  assumes "(sid, sub) \<in> set subs" "writer_closed (snd (snd st) (sw_writer sub))"
  shows "names_of k (fst (snd (foldl (write_direct message) st subs))) sid = []"
  using assms
proof (induction subs arbitrary: st)
  case (Cons entry subs)
  have "writer_closed (snd (snd (write_direct message st entry)) (sw_writer sub))"
    using Cons.prems(2) closed_stays_closed
    by (auto simp: write_direct_def write_to_def split: prod.splits) (metis snd_conv)+
  then have rest: ?case if "(sid, sub) \<in> set subs" using Cons.IH that by simp
  have empty: "names_of k (fst (snd (write_direct message st (sid, sub)))) sid = []"
    using Cons.prems(2) by (auto simp: write_direct_def registry_simps split: prod.splits)
  have "names_of k (fst (snd (foldl (write_direct message) (write_direct message st (sid, sub)) subs))) sid = []"
    by (rule foldl_invariant [where P = "\<lambda>st. names_of k (fst (snd st)) sid = []"]) (simp_all add: names_stay_empty(2) empty)
  then show ?case using Cons.prems(1) rest by auto
qed simp

text \<open>PUBLISH cleans up after a connection that is gone: a subscriber of the channel whose writer is closed has no
  subscription of any kind afterwards, and is among the subscribers of no name.\<close>

theorem publish_drops_closed:
  assumes "net_init st0" "net_step\<^sup>*\<^sup>* st0 (m, ws)"
    and "(sid, sub) \<in> set (lookup_or [] (sub_table (if shard then ShardChannel else Channel) m) channel)"
    and "writer_closed (ws (sw_writer sub))"
    and "publish channel message shard (m, ws) = (n, m', ws')"
  shows "subscription_count m' sid = 0 \<and> sid \<notin> fst ` set (lookup_or [] (sub_table kind m') name)"
proof -
  let ?direct = "lookup_or [] (sub_table (if shard then ShardChannel else Channel) m) channel"
  have "?direct \<noteq> []" using assms(3) by auto
  then have m': "(n, m', ws') = foldl (write_pattern (\<lambda>pattern. pubsub_message_chunks [''pmessage'', pattern, channel] message))
      (foldl (write_direct (pubsub_message_chunks [if shard then ''smessage'' else ''message'', channel] message)) (0, m, ws) ?direct)
      (if shard then [] else filter (\<lambda>(pattern, _). glob_match pattern channel) (sm_patterns m))"
    using assms(5) unfolding publish_def Let_def prod.case by simp
  have none: "names_of k m' sid = []" for k
  proof -
    have "names_of k (fst (snd (n, m', ws'))) sid = []"
      unfolding m'
      by (rule foldl_invariant [where P = "\<lambda>st. names_of k (fst (snd st)) sid = []"], rule names_stay_empty_pattern)
        (simp_all add: write_direct_closed [OF assms(3)] assms(4))
    then show ?thesis by simp
  qed
  have "net_ok (snd (n, m', ws'))" using net_ok_publish [OF net.reach_inv [OF assms(1,2)]] assms(5) by metis
  then have "registry_ok m'" by (simp add: net_ok_pair)
  moreover from this none have "map_of (subscriptions m') sid = None"
    unfolding registry_ok_def no_empty_entries_def using names_of_eq_subscriptions by (metis not_None_eq)
  ultimately show ?thesis
    using none by (auto simp: subscription_count_def registry_ok_def tables_agree_def subs_of_def)
qed

definition sample_closed :: shared_writer where
  "sample_closed = worker_done False (worker_take (snd (try_write_chunks [''x''] new_writer)))"

lemma sample_closed_reached:
  "net_step\<^sup>*\<^sup>* (with_default_password None, \<lambda>_. new_writer) (sample_manager, (\<lambda>_. new_writer)(3 := sample_closed))"
proof -
  let ?ws = "\<lambda>w. (\<lambda>_. new_writer)(3 := w)"
  let ?w1 = "snd (try_write_chunks [''x''] new_writer)"
  have "?ws ?w1 = snd (send_chunks 3 [''x''] (\<lambda>_. new_writer))"
    "?ws (worker_take ?w1) = (?ws ?w1)(3 := worker_take (?ws ?w1 3))"
    "?ws sample_closed = (?ws (worker_take ?w1))(3 := worker_done False (?ws (worker_take ?w1) 3))"
    by (simp_all add: send_chunks_def sample_closed_def split: prod.split)
  then have "net_step (sample_manager, \<lambda>_. new_writer) (sample_manager, ?ws ?w1)"
    "net_step (sample_manager, ?ws ?w1) (sample_manager, ?ws (worker_take ?w1))"
    "net_step (sample_manager, ?ws (worker_take ?w1)) (sample_manager, ?ws sample_closed)"
    using net_step.direct net_step.worker_takes net_step.worker_finishes by metis+
  with sample_reached show ?thesis by simp
qed

theorem publish_drops_closed_witness:
  "\<exists>n m' ws'. publish ''news'' ''hi'' False (sample_manager, (\<lambda>_. new_writer)(3 := sample_closed)) = (n, m', ws') \<and>
     subscription_count m' 3 = 0"
proof -
  have in_table: "(3, sample_subscriber) \<in> set (lookup_or [] (sub_table (if False then ShardChannel else Channel) sample_manager) ''news'')"
    by (simp add: sample_manager_def register_subscription_def add_subscriber_def add_subscription_record_def
        with_default_password_def lookup_or_def)
  have closed: "writer_closed (((\<lambda>_. new_writer)(3 := sample_closed)) (sw_writer sample_subscriber))"
    by (simp add: sample_subscriber_def sample_closed_def new_writer_def try_write_chunks_def chunks_len_def checked_add_def
        queue_permits_def Let_def shared_write_defs MAX_FRAME_BYTES_def worker_take_def worker_done_def close_writer_def)
  obtain n m' ws' where run: "publish ''news'' ''hi'' False (sample_manager, (\<lambda>_. new_writer)(3 := sample_closed)) = (n, m', ws')"
    by (metis prod_cases3)
  from publish_drops_closed [OF sample_init sample_closed_reached in_table closed run] run show ?thesis by blast
qed

section \<open>A race\<close>

lemma remove_session_without_record:
  assumes "map_of (subscriptions m) sid = None"
  shows "sub_table k (snd (remove_session sid m)) = sub_table k m" "subscriptions (snd (remove_session sid m)) = subscriptions m"
  using assms by (simp_all add: remove_session_def remove_shared_writer_state_def unsubscribe_all_def Let_def registry_simps)

text \<open>C40: SUBSCRIBE enters the session's record first and the table of the channel second. When another session's
  PUBLISH drops the session in between, because its writer is full, the subscriber stays in the table without a
  record: ending the session does not remove it, so that the dead connection is counted and kept for good.\<close>

theorem subscribe_race_leaks:
  "let m1 = add_subscription_record kind name sid m;
       m2 = remove_shared_writer_state sid m1;
       m3 = add_subscriber kind name sid sub m2;
       m4 = snd (remove_session sid m3)
   in map_of (lookup_or [] (sub_table kind m4) name) sid = Some sub \<and> subscription_count m4 sid = 0 \<and>
      remove_shared_writer_state sid m4 = m4\<lparr>monitors := AList.delete sid (monitors m4)\<rparr>"
proof -
  let ?m2 = "remove_shared_writer_state sid (add_subscription_record kind name sid m)"
  let ?m3 = "add_subscriber kind name sid sub ?m2"
  let ?m4 = "snd (remove_session sid ?m3)"
  have none: "map_of (subscriptions ?m3) sid = None"
    by (simp add: add_subscriber_def Let_def registry_simps)
  note t = remove_session_without_record [OF this]
  have "lookup_or [] (sub_table kind ?m3) name = AList.update sid sub (lookup_or [] (sub_table kind ?m2) name)"
    by (simp add: add_subscriber_def Let_def registry_simps)
  then have "map_of (lookup_or [] (sub_table kind ?m4) name) sid = Some sub" using t by simp
  moreover have "unsubscribe_all sid ?m4 = ?m4" using none t by (simp add: unsubscribe_all_def)
  ultimately show ?thesis
    using none t by (simp add: Let_def subscription_count_def remove_shared_writer_state_def)
qed

section \<open>CLIENT LIST\<close>

lemma of_char_hex_upper: "d < 16 \<Longrightarrow> (of_char (hex_upper d) :: nat) = (if d < 10 then 48 + d else 55 + d)"
  by (simp add: hex_upper_def)

lemma hex_upper_inj:
  assumes "a < 16" "b < 16" "hex_upper a = hex_upper b"
  shows "a = b"
proof -
  have "(if a < 10 then 48 + a else 55 + a) = (if b < 10 then 48 + b else 55 + b)"
    using of_char_hex_upper [OF assms(1)] of_char_hex_upper [OF assms(2)] assms(3) by metis
  then show ?thesis by (simp split: if_splits)
qed

lemma plain_client_byte_iff:
  "plain_client_byte b \<longleftrightarrow> 33 \<le> (of_char b :: nat) \<and> (of_char b :: nat) \<le> 126 \<and> (of_char b :: nat) \<noteq> 37 \<and> (of_char b :: nat) \<noteq> 61"
  using of_char_eq_iff [of b "CHR ''%''", where ?'a = nat] of_char_eq_iff [of b "CHR ''=''", where ?'a = nat]
  by (simp add: plain_client_byte_def less_eq_char_def)

lemma hex_upper_plain: "d < 16 \<Longrightarrow> plain_client_byte (hex_upper d)"
  using of_char_hex_upper [of d] by (simp add: plain_client_byte_iff split: if_splits)

lemma client_list_escape_Cons:
  "client_list_escape (b # bs) = (if plain_client_byte b then [b]
     else [CHR ''%'', hex_upper (of_char b div 16), hex_upper (of_char b mod 16)]) @ client_list_escape bs"
  by (simp add: client_list_escape_def)

lemma escape_byte_inj:
  assumes "hex_upper (of_char a div 16) = hex_upper (of_char b div 16)" "hex_upper (of_char a mod 16) = hex_upper (of_char b mod 16)"
  shows "a = b"
proof -
  have "of_char a < (256 :: nat)" "of_char b < (256 :: nat)" by simp_all
  then have "of_char a div 16 = (of_char b div 16 :: nat)" "of_char a mod 16 = (of_char b mod 16 :: nat)"
    using assms hex_upper_inj by (auto simp: less_mult_imp_div_less)
  then show ?thesis by (metis div_mult_mod_eq of_char_eq_iff)
qed

lemma client_list_escape_inj: "client_list_escape a = client_list_escape b \<Longrightarrow> a = b"
proof (induction a arbitrary: b)
  case Nil
  then show ?case by (cases b) (auto simp: client_list_escape_def split: if_splits)
next
  case (Cons x xs)
  obtain y ys where b: "b = y # ys"
    using Cons.prems by (cases b) (auto simp: client_list_escape_Cons client_list_escape_def split: if_splits)
  have pc: "\<not> plain_client_byte (CHR ''%'')" by (simp add: plain_client_byte_def)
  have "x = y \<and> client_list_escape xs = client_list_escape ys"
    using Cons.prems pc escape_byte_inj [of x y] unfolding b client_list_escape_Cons
    by (cases "plain_client_byte x"; cases "plain_client_byte y") auto
  then show ?case using Cons.IH b by blast
qed

text \<open>Text that clients choose cannot forge CLIENT LIST: an escaped name, command, user or library has no space,
  no equals sign and no line end, and different texts stay different.\<close>

theorem client_list_not_forged:
  "(client_list_escape a = client_list_escape b \<longleftrightarrow> a = b) \<and>
   set (client_list_escape a) \<inter> {CHR '' '', CHR ''='', CR, LF} = {}"
proof -
  have "c \<noteq> CHR '' '' \<and> c \<noteq> CHR ''='' \<and> c \<noteq> CR \<and> c \<noteq> LF" if "plain_client_byte c" for c
    using that by (auto simp: plain_client_byte_def less_eq_char_def)
  moreover have "plain_client_byte c \<or> c = CHR ''%''" if "c \<in> set (client_list_escape a)" for c
    using that hex_upper_plain by (induction a) (auto simp: client_list_escape_Cons client_list_escape_def less_mult_imp_div_less split: if_splits)
  ultimately show ?thesis using client_list_escape_inj [of a b] by fastforce
qed

end
