(* ===== verification/Session_Acl.thy ===== *)
theory Session_Acl
  imports Session_Manager
begin

unbundle bit_operations_syntax

text \<open>
  Access rules (\<^verbatim>\<open>src/network/session_acl.rs\<close>): authentication, the commands of a user, ACL SETUSER, DELUSER, USERS and
  LIST. A rule is applied to a copy of the user, and the copy is stored when every rule was accepted.
\<close>

definition to_ascii_lower :: "char \<Rightarrow> char" where
  "to_ascii_lower c = (if CHR ''A'' \<le> c \<and> c \<le> CHR ''Z'' then char_of (of_char c + 32 :: nat) else c)"

definition to_ascii_lowercase :: "string \<Rightarrow> string" where
  "to_ascii_lowercase s = map to_ascii_lower s"

section \<open>Authentication\<close>

definition byte_at :: "bytes \<Rightarrow> nat \<Rightarrow> nat" where
  "byte_at bs i = (case get_at bs i of None \<Rightarrow> 0 | Some c \<Rightarrow> of_char c)"

definition constant_time_eq :: "bytes \<Rightarrow> bytes \<Rightarrow> bool" where
  "constant_time_eq expected actual =
     (foldl (\<lambda>difference i. difference OR (byte_at expected i XOR byte_at actual i))
        (length expected XOR length actual) [0..<max (length expected) (length actual)] = 0)"

definition acl_user_is_nopass :: "session_manager \<Rightarrow> string \<Rightarrow> bool" where
  "acl_user_is_nopass m user =
     (case map_of (acl_table m) user of None \<Rightarrow> False | Some u \<Rightarrow> enabled u \<and> nopass u)"

definition acl_authenticate :: "session_manager \<Rightarrow> string \<Rightarrow> string \<Rightarrow> bool" where
  "acl_authenticate m user pw =
     (case map_of (acl_table m) user of
        None \<Rightarrow> False
      | Some u \<Rightarrow> enabled u \<and> (nopass u \<or> (case password u of None \<Rightarrow> False | Some expected \<Rightarrow> constant_time_eq expected pw)))"

section \<open>Commands of a user\<close>

text \<open>\<^verbatim>\<open>split_once('|')\<close>, of which the code uses the part before.\<close>

fun split_once_bar :: "string \<Rightarrow> string option" where
  "split_once_bar [] = None"
| "split_once_bar (c # cs) = (if c = CHR ''|'' then Some [] else map_option (\<lambda>p. c # p) (split_once_bar cs))"

definition user_allows :: "acl_user \<Rightarrow> string \<Rightarrow> bool" where
  "user_allows u command0 =
     (if \<not> enabled u then False
      else (let command = to_ascii_lowercase command0; parent_command = split_once_bar command
            in if command \<in> set (denied u) then False
               else if command \<in> set (allowed u) then True
               else if (case parent_command of None \<Rightarrow> False | Some parent \<Rightarrow> parent \<in> set (denied u)) then False
               else all_commands u \<or> (case parent_command of None \<Rightarrow> False | Some parent \<Rightarrow> parent \<in> set (allowed u))))"

definition acl_allows :: "session_manager \<Rightarrow> string \<Rightarrow> string \<Rightarrow> bool" where
  "acl_allows m user command =
     (case map_of (acl_table m) user of None \<Rightarrow> False | Some u \<Rightarrow> user_allows u command)"

section \<open>ACL SETUSER\<close>

datatype acl_error =
    Modifier_not_supported string
  | Category_not_supported string
  | Pattern_not_supported string
  | Error_in_modifier string

definition new_acl_user :: acl_user where
  "new_acl_user = \<lparr>enabled = False, nopass = False, password = None, all_commands = False, allowed = [], denied = []\<rparr>"

definition apply_acl_rule :: "string \<Rightarrow> acl_user \<Rightarrow> acl_error + acl_user" where
  "apply_acl_rule rule u =
     (case strip_prefix ''>'' rule of
        Some pw \<Rightarrow> Inr (u\<lparr>nopass := False, password := Some pw\<rparr>)
      | None \<Rightarrow>
     (let normalized = to_ascii_lowercase rule
      in if normalized = ''on'' then Inr (u\<lparr>enabled := True\<rparr>)
         else if normalized = ''off'' then Inr (u\<lparr>enabled := False\<rparr>)
         else if normalized = ''nopass'' then Inr (u\<lparr>nopass := True, password := None\<rparr>)
         else if normalized = ''resetpass'' then Inr (u\<lparr>nopass := False, password := None\<rparr>)
         else if normalized = ''+@all'' \<or> normalized = ''allcommands'' then Inr (u\<lparr>all_commands := True, denied := []\<rparr>)
         else if normalized = ''-@all'' \<or> normalized = ''nocommands'' then Inr (u\<lparr>all_commands := False, allowed := []\<rparr>)
         else if normalized \<in> {''allkeys'', ''allchannels'', ''clearselectors''} then Inr u
         else if normalized \<in> {''reset'', ''resetkeys'', ''resetchannels''} then Inl (Modifier_not_supported rule)
         else if starts_with normalized ''+@'' \<or> starts_with normalized ''-@'' then Inl (Category_not_supported normalized)
         else if starts_with normalized ''+'' \<and> length normalized > 1
         then Inr (u\<lparr>allowed := List.insert (tl normalized) (allowed u), denied := removeAll (tl normalized) (denied u)\<rparr>)
         else if starts_with normalized ''-'' \<and> length normalized > 1
         then Inr (u\<lparr>allowed := removeAll (tl normalized) (allowed u), denied := List.insert (tl normalized) (denied u)\<rparr>)
         else if normalized = ''~*'' \<or> normalized = ''&*'' then Inr u
         else if starts_with normalized ''~'' \<or> starts_with normalized ''&'' then Inl (Pattern_not_supported normalized)
         else Inl (Error_in_modifier normalized)))"

fun apply_acl_rules :: "string list \<Rightarrow> acl_user \<Rightarrow> acl_error + acl_user" where
  "apply_acl_rules [] u = Inr u"
| "apply_acl_rules (rule # rules) u =
     (case apply_acl_rule rule u of Inl e \<Rightarrow> Inl e | Inr u' \<Rightarrow> apply_acl_rules rules u')"

definition acl_setuser :: "string \<Rightarrow> string list \<Rightarrow> session_manager \<Rightarrow> (acl_error + unit) \<times> session_manager" where
  "acl_setuser name rules m =
     (case apply_acl_rules rules (lookup_or new_acl_user (acl_table m) name) of
        Inl e \<Rightarrow> (Inl e, m)
      | Inr u \<Rightarrow> (Inr (), m\<lparr>acl_table := AList.update name u (acl_table m)\<rparr>))"

definition acl_deluser :: "string list \<Rightarrow> session_manager \<Rightarrow> nat \<times> session_manager" where
  "acl_deluser users m =
     foldl (\<lambda>(n, m) user. if map_of (acl_table m) user = None then (n, m)
         else (n + 1, m\<lparr>acl_table := AList.delete user (acl_table m)\<rparr>))
       (0, m) (filter (\<lambda>user. user \<noteq> ''default'') users)"

section \<open>Listing\<close>

definition acl_whoami :: "session_manager \<Rightarrow> nat \<Rightarrow> string" where
  "acl_whoami m sid = (case map_of (sessions m) sid of None \<Rightarrow> ''default'' | Some s \<Rightarrow> ss_user s)"

definition acl_users :: "session_manager \<Rightarrow> string list" where
  "acl_users m = sort (map fst (acl_table m))"

fun join_with :: "string \<Rightarrow> string list \<Rightarrow> string" where
  "join_with sep [] = []"
| "join_with sep [x] = x"
| "join_with sep (x # xs) = x @ sep @ join_with sep xs"

definition acl_flags :: "acl_user \<Rightarrow> string list" where
  "acl_flags u =
     [if enabled u then ''on'' else ''off'', if nopass u then ''nopass'' else ''#<redacted>'', ''~*'', ''&*'',
      if all_commands u then ''+@all'' else ''-@all''] @
     map (\<lambda>c. ''+'' @ c) (sort (allowed u)) @ map (\<lambda>c. ''-'' @ c) (sort (denied u))"

definition acl_list :: "session_manager \<Rightarrow> string list" where
  "acl_list m = sort (map (\<lambda>(name, u). ''user '' @ name @ '' '' @ join_with '' '' (acl_flags u)) (acl_table m))"

end
