(* ===== verification/Acl_Properties.thy ===== *)
theory Acl_Properties
  imports Session_Acl
begin

unbundle bit_operations_syntax

text \<open>
  What the access rules promise: a password is accepted only if it is the password, the last rule that covers
  a command decides, a refused ACL SETUSER changes nothing, and ACL LIST reveals no password.
\<close>

section \<open>Passwords\<close>

lemma xor_zero_iff: "(a :: nat) XOR b = 0 \<longleftrightarrow> a = b"
proof
  assume "a XOR b = 0"
  then have "bit a n = bit b n" for n by (metis bit_0_eq bit_xor_iff bot_apply bot_bool_def)
  then show "a = b" by (simp add: bit_eq_iff)
qed simp

lemma fold_or_zero:
  "foldl (\<lambda>d i. d OR f i) (d :: nat) xs = 0 \<longleftrightarrow> d = 0 \<and> (\<forall>i \<in> set xs. f i = 0)"
  by (induction xs arbitrary: d) (auto simp: or_eq_0_iff)

lemma constant_time_eq_iff: "constant_time_eq a b \<longleftrightarrow> a = b"
proof
  assume "constant_time_eq a b"
  then have len: "length a = length b" and eq: "byte_at a i = byte_at b i" if "i < length a" for i
    using that by (auto simp: constant_time_eq_def fold_or_zero xor_zero_iff)
  show "a = b"
  proof (cases "a = []")
    case True
    then show ?thesis
      using \<open>constant_time_eq a b\<close> by (auto simp: constant_time_eq_def fold_or_zero xor_zero_iff)
  next
    case False
    then show ?thesis
      using len eq by (intro nth_equalityI) (auto simp: byte_at_def get_at_def)
  qed
qed (unfold constant_time_eq_def fold_or_zero, simp)


section \<open>The last rule decides\<close>

text \<open>What a rule says of a command: nothing, or that it is allowed or denied.\<close>

definition rule_verdict :: "string \<Rightarrow> string \<Rightarrow> bool option" where
  "rule_verdict command rule =
     (let n = to_ascii_lowercase rule
      in if n \<in> {''+@all'', ''allcommands'', ''+'' @ command} then Some True
         else if n \<in> {''-@all'', ''nocommands'', ''-'' @ command} then Some False
         else None)"

definition plain_decision :: "string \<Rightarrow> acl_user \<Rightarrow> bool" where
  "plain_decision command u \<longleftrightarrow> command \<notin> set (denied u) \<and> (command \<in> set (allowed u) \<or> all_commands u)"

definition last_verdict :: "bool \<Rightarrow> bool option list \<Rightarrow> bool" where
  "last_verdict before vs = foldl (\<lambda>d v. case v of None \<Rightarrow> d | Some b \<Rightarrow> b) before vs"

definition plain_command :: "string \<Rightarrow> bool" where
  "plain_command command \<longleftrightarrow> command \<noteq> [] \<and> hd command \<noteq> CHR ''@'' \<and> CHR ''|'' \<notin> set command"

definition enabling_verdict :: "string \<Rightarrow> bool option" where
  "enabling_verdict rule =
     (let n = to_ascii_lowercase rule in if n = ''on'' then Some True else if n = ''off'' then Some False else None)"

lemma password_rule_silent:
  assumes "strip_prefix ''>'' rule = Some pw"
  shows "rule_verdict command rule = None" "enabling_verdict rule = None"
proof -
  obtain r where "rule = CHR ''>'' # r" using assms by (auto simp: strip_prefix_iff)
  then have "to_ascii_lowercase rule = CHR ''>'' # to_ascii_lowercase r"
    by (simp add: to_ascii_lowercase_def to_ascii_lower_def less_eq_char_def)
  then show "rule_verdict command rule = None" "enabling_verdict rule = None"
    by (auto simp: rule_verdict_def enabling_verdict_def Let_def)
qed

text \<open>The accepted rules that are not a password, by what they change.\<close>

lemma accepted_rule:
  assumes "apply_acl_rule rule u = Inr u'" "strip_prefix ''>'' rule = None"
  obtains (switch) b where "to_ascii_lowercase rule = (if b then ''on'' else ''off'')" "u' = u\<lparr>enabled := b\<rparr>"
  | (other) "to_ascii_lowercase rule \<in> {''nopass'', ''resetpass'', ''allkeys'', ''allchannels'', ''clearselectors'', ''~*'', ''&*''}"
      "enabled u' = enabled u" "allowed u' = allowed u" "denied u' = denied u" "all_commands u' = all_commands u"
  | (all) "to_ascii_lowercase rule \<in> {''+@all'', ''allcommands''}" "u' = u\<lparr>all_commands := True, denied := []\<rparr>"
  | (none) "to_ascii_lowercase rule \<in> {''-@all'', ''nocommands''}" "u' = u\<lparr>all_commands := False, allowed := []\<rparr>"
  | (allow) x where "to_ascii_lowercase rule = CHR ''+'' # x" "\<not> starts_with x ''@''"
      "u' = u\<lparr>allowed := List.insert x (allowed u), denied := removeAll x (denied u)\<rparr>"
  | (deny) x where "to_ascii_lowercase rule = CHR ''-'' # x" "\<not> starts_with x ''@''"
      "u' = u\<lparr>allowed := removeAll x (allowed u), denied := List.insert x (denied u)\<rparr>"
proof -
  define n where "n = to_ascii_lowercase rule"
  note body = assms(1) [unfolded apply_acl_rule_def assms(2) option.case Let_def, folded n_def]
  note goals = that [folded n_def]
  show thesis
  proof (cases "n \<in> {''on'', ''off'', ''nopass'', ''resetpass'', ''+@all'', ''allcommands'', ''-@all'', ''nocommands'', ''allkeys'',
      ''allchannels'', ''clearselectors'', ''reset'', ''resetkeys'', ''resetchannels''}")
    case True
    then have "n = ''on'' \<or> n = ''off'' \<or> n \<in> {''nopass'', ''resetpass''} \<or> n \<in> {''+@all'', ''allcommands''} \<or>
        n \<in> {''-@all'', ''nocommands''} \<or> n \<in> {''allkeys'', ''allchannels'', ''clearselectors''} \<or>
        n \<in> {''reset'', ''resetkeys'', ''resetchannels''}"
      by auto
    then show thesis
    proof (elim disjE)
      assume n: "n = ''on''" show ?thesis by (rule goals(1) [of True]) (use n body in simp_all)
    next
      assume n: "n = ''off''" show ?thesis by (rule goals(1) [of False]) (use n body in simp_all)
    next
      assume n: "n \<in> {''nopass'', ''resetpass''}" show ?thesis by (rule goals(2)) (use n body in auto)
    next
      assume n: "n \<in> {''+@all'', ''allcommands''}" show ?thesis by (rule goals(3)) (use n body in auto)
    next
      assume n: "n \<in> {''-@all'', ''nocommands''}" show ?thesis by (rule goals(4)) (use n body in auto)
    next
      assume n: "n \<in> {''allkeys'', ''allchannels'', ''clearselectors''}" show ?thesis by (rule goals(2)) (use n body in auto)
    next
      assume n: "n \<in> {''reset'', ''resetkeys'', ''resetchannels''}" then show ?thesis using body by auto
    qed
  next
    case False
    then have cat: "\<not> starts_with n ''+@''" "\<not> starts_with n ''-@''"
      using body by (simp_all split: if_split_asm)
    with False body have rest: "(if starts_with n ''+'' \<and> length n > 1
         then Inr (u\<lparr>allowed := List.insert (tl n) (allowed u), denied := removeAll (tl n) (denied u)\<rparr>)
         else if starts_with n ''-'' \<and> length n > 1
         then Inr (u\<lparr>allowed := removeAll (tl n) (allowed u), denied := List.insert (tl n) (denied u)\<rparr>)
         else if n = ''~*'' \<or> n = ''&*'' then Inr u
         else if starts_with n ''~'' \<or> starts_with n ''&'' then Inl (Pattern_not_supported n)
         else Inl (Error_in_modifier n)) = Inr u'" by simp
    have tail: "n = c # tl n \<and> \<not> starts_with (tl n) ''@''" if "starts_with n [c]" "\<not> starts_with n [c, CHR ''@'']" for c
      using that by (auto simp: starts_with_iff)
    consider "starts_with n ''+'' \<and> length n > 1" | "\<not> (starts_with n ''+'' \<and> length n > 1)" "starts_with n ''-'' \<and> length n > 1"
      | "\<not> (starts_with n ''+'' \<and> length n > 1)" "\<not> (starts_with n ''-'' \<and> length n > 1)" by blast
    then show thesis
    proof cases
      case 1 show ?thesis by (rule goals(5) [of "tl n"]) (use 1 rest cat tail [of "CHR ''+''"] in simp_all)
    next
      case 2 show ?thesis by (rule goals(6) [of "tl n"]) (use 2 rest cat tail [of "CHR ''-''"] in simp_all)
    next
      case 3
      then have "n = ''~*'' \<or> n = ''&*''" "u' = u" using rest by (simp_all split: if_split_asm)
      then show ?thesis by (intro goals(2)) auto
    qed
  qed
qed

lemma rule_decides:
  assumes "apply_acl_rule rule u = Inr u'" "plain_command command"
  shows "plain_decision command u' = (case rule_verdict command rule of None \<Rightarrow> plain_decision command u | Some b \<Rightarrow> b) \<and>
      enabled u' = (case enabling_verdict rule of None \<Rightarrow> enabled u | Some b \<Rightarrow> b)"
proof (cases "strip_prefix ''>'' rule")
  case (Some pw)
  then have "u' = u\<lparr>nopass := False, password := Some pw\<rparr>" using assms(1) by (simp add: apply_acl_rule_def)
  then show ?thesis using password_rule_silent [OF Some] by (simp add: plain_decision_def)
next
  case None
  obtain c cs where command: "command = c # cs" "c \<noteq> CHR ''@''" using assms(2) by (cases command) (auto simp: plain_command_def)
  note defs = rule_verdict_def enabling_verdict_def plain_decision_def Let_def command
  from assms(1) None show ?thesis
  proof (cases rule: accepted_rule)
    case (switch b)
    then show ?thesis by (cases b) (simp_all add: defs)
  next
    case other
    then show ?thesis by (elim insertE) (simp_all add: defs)
  next
    case all
    then show ?thesis by (elim insertE) (simp_all add: defs)
  next
    case none
    then show ?thesis by (elim insertE) (simp_all add: defs)
  next
    case (allow x)
    then show ?thesis using command by (auto simp: defs starts_with_iff)
  next
    case (deny x)
    then show ?thesis using command by (auto simp: defs starts_with_iff)
  qed
qed

lemma rules_decide:
  assumes "apply_acl_rules rules u = Inr u'" "plain_command command"
  shows "plain_decision command u' = last_verdict (plain_decision command u) (map (rule_verdict command) rules) \<and>
    enabled u' = last_verdict (enabled u) (map enabling_verdict rules)"
  using assms(1)
proof (induction rules arbitrary: u)
  case (Cons rule rules)
  then obtain u1 where u1: "apply_acl_rule rule u = Inr u1" "apply_acl_rules rules u1 = Inr u'"
    by (auto split: sum.splits)
  show ?case using Cons.IH [OF u1(2)] rule_decides [OF u1(1) assms(2)] by (simp add: last_verdict_def)
qed (simp add: last_verdict_def)

lemma no_bar_no_parent: "CHR ''|'' \<notin> set s \<Longrightarrow> split_once_bar s = None"
  by (induction s) auto



section \<open>Refused rules and listings\<close>

lemma deluser_keeps_default:
  "map_of (acl_table (snd (acl_deluser users m))) ''default'' = map_of (acl_table m) ''default''"
proof -
  have "map_of (acl_table (snd (foldl (\<lambda>(n, m) user. if map_of (acl_table m) user = None then (n, m)
         else (n + 1, m\<lparr>acl_table := AList.delete user (acl_table m)\<rparr>)) st us))) ''default'' = map_of (acl_table (snd st)) ''default''"
    if "''default'' \<notin> set us" for st :: "nat \<times> session_manager" and us
    using that by (induction us arbitrary: st) (auto simp: case_prod_unfold)
  then show ?thesis by (simp add: acl_deluser_def)
qed

text \<open>Access control fails closed: an ACL SETUSER with a rule that is not accepted changes nothing at all, unknown and
  disabled users may run nothing, the default user cannot be deleted, and ACL LIST does not depend on any
  password.\<close>

theorem acl_fails_closed:
  "(fst (acl_setuser name rules m) = Inl e \<longrightarrow> snd (acl_setuser name rules m) = m) \<and>
   (map_of (acl_table m) user = None \<or> (\<exists>u. map_of (acl_table m) user = Some u \<and> \<not> enabled u) \<longrightarrow>
     \<not> acl_allows m user command \<and> \<not> acl_authenticate m user pw) \<and>
   map_of (acl_table (snd (acl_deluser users m))) ''default'' = map_of (acl_table m) ''default'' \<and>
   (map (\<lambda>(n, u). (n, u\<lparr>password := None\<rparr>)) (acl_table m) = map (\<lambda>(n, u). (n, u\<lparr>password := None\<rparr>)) (acl_table m') \<longrightarrow>
     acl_list m = acl_list m')"
proof -
  have flags: "acl_flags (u\<lparr>password := None\<rparr>) = acl_flags u" for u by (simp add: acl_flags_def)
  let ?line = "\<lambda>(name, u). ''user '' @ name @ '' '' @ join_with '' '' (acl_flags u)"
  have "map ?line t = map ?line (map (\<lambda>(n, u). (n, u\<lparr>password := None\<rparr>)) t)" for t
    by (simp add: flags case_prod_unfold comp_def)
  then have "map (\<lambda>(n, u). (n, u\<lparr>password := None\<rparr>)) (acl_table m) = map (\<lambda>(n, u). (n, u\<lparr>password := None\<rparr>)) (acl_table m') \<longrightarrow>
      acl_list m = acl_list m'"
    unfolding acl_list_def by metis
  then show ?thesis
    using deluser_keeps_default
    by (auto simp: acl_setuser_def acl_allows_def acl_authenticate_def user_allows_def split: sum.splits)
qed

theorem acl_fails_closed_witness:
  "snd (acl_setuser ''bob'' [''on'', ''~secret:*''] (with_default_password None)) = with_default_password None \<and>
   \<not> acl_allows (with_default_password None) ''bob'' ''get''"
proof -
  have lower: "to_ascii_lowercase ''on'' = ''on''" "to_ascii_lowercase ''~secret:*'' = ''~secret:*''"
    by (simp_all add: to_ascii_lowercase_def to_ascii_lower_def less_eq_char_def)
  have "fst (acl_setuser ''bob'' [''on'', ''~secret:*''] (with_default_password None)) = Inl (Pattern_not_supported ''~secret:*'')"
    by (simp add: acl_setuser_def with_default_password_def lookup_or_def apply_acl_rule_def lower starts_with_def)
  moreover have "map_of (acl_table (with_default_password None)) ''bob'' = None" by (simp add: with_default_password_def)
  ultimately show ?thesis using acl_fails_closed by blast
qed

end
