(* ===== verification/Transaction_Queue.thy ===== *)
theory Transaction_Queue
  imports Session_Acl Key_Watch
begin

text \<open>
  Transactions: the session's queue (\<^verbatim>\<open>src/network/session.rs\<close>), what may be queued
  (\<^verbatim>\<open>src/server/transaction_queue_policy.rs\<close>), EXEC (\<^verbatim>\<open>transaction_run.rs\<close>, \<^verbatim>\<open>transaction_command_apply.rs\<close>) and the
  limit of its reply.

  The commands themselves are arguments, in the record \<open>exec_env\<close>: their parser, their names, what each does to the
  transactional view \<open>'d\<close> of the database, and the commit of the view.
\<close>

section \<open>The session\<close>

record session =
  s_id :: nat
  certification :: bool
  current_db :: nat
  in_transaction :: bool
  transaction_dirty :: bool
  transaction_frames :: "frame list"
  transaction_bytes :: nat
  watched_keys :: "watched_key list"
  s_name :: "string option"
  library_name :: "string option"
  library_version :: "string option"
  no_evict :: bool
  no_touch :: bool
  created_at :: nat
  last_interaction_at :: nat
  last_cmd :: "string option"
  s_user :: string
  peer_addr :: string
  local_addr :: string
  s_resp_version :: resp_version

definition new_session :: "nat \<Rightarrow> bool \<Rightarrow> nat \<Rightarrow> string \<Rightarrow> string \<Rightarrow> session" where
  "new_session i cert now peer loc =
     \<lparr>s_id = i, certification = cert, current_db = 0, in_transaction = False, transaction_dirty = False,
      transaction_frames = [], transaction_bytes = 0, watched_keys = [], s_name = None, library_name = None,
      library_version = None, no_evict = False, no_touch = False, created_at = now, last_interaction_at = now,
      last_cmd = None, s_user = ''default'', peer_addr = peer, local_addr = loc, s_resp_version = Resp2\<rparr>"

definition snapshot_of :: "session \<Rightarrow> session_snapshot" where
  "snapshot_of s =
     \<lparr>ss_id = s_id s, ss_current_db = current_db s, ss_in_transaction = in_transaction s,
      ss_transaction_commands = length (transaction_frames s), ss_transaction_bytes = transaction_bytes s,
      ss_name = s_name s, ss_library_name = library_name s, ss_library_version = library_version s,
      ss_no_evict = no_evict s, ss_no_touch = no_touch s, ss_connected_at = created_at s,
      ss_last_interaction_at = last_interaction_at s, ss_last_cmd = last_cmd s, ss_user = s_user s,
      ss_peer_addr = peer_addr s, ss_local_addr = local_addr s, ss_resp_version = s_resp_version s\<rparr>"

definition start_transaction :: "session \<Rightarrow> session" where
  "start_transaction s =
     s\<lparr>in_transaction := True, transaction_dirty := False, transaction_frames := [], transaction_bytes := 0\<rparr>"

definition add_transaction_frame :: "f64_text \<Rightarrow> frame \<Rightarrow> session \<Rightarrow> session" where
  "add_transaction_frame ft f s =
     s\<lparr>transaction_frames := transaction_frames s @ [f],
       transaction_bytes := saturating_add (transaction_bytes s) (length (as_bytes ft f))\<rparr>"

definition try_add_transaction_frame :: "f64_text \<Rightarrow> frame \<Rightarrow> nat \<Rightarrow> nat \<Rightarrow> session \<Rightarrow> bool \<times> session" where
  "try_add_transaction_frame ft f max_commands max_bytes s =
     (let frame_bytes = length (as_bytes ft f)
      in if length (transaction_frames s) \<ge> max_commands \<or> saturating_add (transaction_bytes s) frame_bytes > max_bytes
         then (False, s)
         else (True, s\<lparr>transaction_frames := transaction_frames s @ [f],
                        transaction_bytes := transaction_bytes s + frame_bytes\<rparr>))"

definition mark_transaction_dirty :: "session \<Rightarrow> session" where
  "mark_transaction_dirty s = s\<lparr>transaction_dirty := True\<rparr>"

definition clear_transaction :: "session \<Rightarrow> session" where
  "clear_transaction s =
     s\<lparr>in_transaction := False, transaction_dirty := False, transaction_frames := [], transaction_bytes := 0\<rparr>"

definition watch_key :: "watched_key \<Rightarrow> session \<Rightarrow> session" where
  "watch_key w s =
     (case iter_position (\<lambda>e. wk_db e = wk_db w \<and> wk_key e = wk_key w) (watched_keys s) of
        Some i \<Rightarrow> s\<lparr>watched_keys := (watched_keys s)[i := w]\<rparr>
      | None \<Rightarrow> s\<lparr>watched_keys := watched_keys s @ [w]\<rparr>)"

section \<open>The cost of a reply\<close>

text \<open>The stack of frames still to be counted, its top first.\<close>

definition cost_of_node :: "f64_text \<Rightarrow> frame \<Rightarrow> nat option" where
  "cost_of_node ft f =
     (let line = (\<lambda>n. checked_add n 3);
          blob = (\<lambda>n extra. case checked_add n (length (show_nat n)) of None \<Rightarrow> None | Some k \<Rightarrow> checked_add k extra)
      in case f of
           Ok \<Rightarrow> Some 5
         | Integer i \<Rightarrow> line (length (show_int i))
         | SimpleString s \<Rightarrow> line (length s)
         | Error s \<Rightarrow> line (length s)
         | Null \<Rightarrow> Some 5
         | Array vs \<Rightarrow> line (length (show_nat (length vs)))
         | BulkString b \<Rightarrow> blob (length b) 5
         | Boolean _ \<Rightarrow> Some 4
         | Double d \<Rightarrow> line (length (f64_show ft d))
         | BigNumber s \<Rightarrow> line (length s)
         | BlobError b \<Rightarrow> blob (length b) 5
         | VerbatimString _ d \<Rightarrow> blob (length d) 9
         | Set vs \<Rightarrow> line (length (show_nat (length vs)))
         | Push vs \<Rightarrow> line (length (show_nat (length vs)))
         | Map es \<Rightarrow> line (length (show_nat (length es)))
         | Attribute es d \<Rightarrow> line (length (show_nat (length es))))"

fun pushed_by :: "frame \<Rightarrow> frame list" where
  "pushed_by (Array vs) = rev vs"
| "pushed_by (Set vs) = rev vs"
| "pushed_by (Push vs) = rev vs"
| "pushed_by (Map es) = rev (concat (map (\<lambda>(k, v). [k, v]) es))"
| "pushed_by (Attribute es d) = d # rev (concat (map (\<lambda>(k, v). [k, v]) es))"
| "pushed_by f = []"

function cost_loop :: "f64_text \<Rightarrow> frame list \<Rightarrow> nat \<Rightarrow> nat \<Rightarrow> (nat \<times> nat) option" where
  "cost_loop ft [] nodes n = Some (nodes, n)"
| "cost_loop ft (f # pending) nodes n =
     (case checked_add nodes 1 of
        None \<Rightarrow> None
      | Some nodes' \<Rightarrow>
          if nodes' > MAX_FRAME_NODES then None
          else (case cost_of_node ft f of
              None \<Rightarrow> None
            | Some cost \<Rightarrow>
                (case checked_add n cost of
                   None \<Rightarrow> None
                 | Some n' \<Rightarrow>
                     if n' > MAX_FRAME_BYTES then None else cost_loop ft (pushed_by f @ pending) nodes' n')))"
  by pat_completeness auto
termination
  by (relation "measure (\<lambda>(ft, pending, nodes, n). MAX_FRAME_NODES + 1 - nodes)") auto

declare cost_loop.simps [simp del]

definition frame_response_cost :: "f64_text \<Rightarrow> frame \<Rightarrow> (nat \<times> nat) option" where
  "frame_response_cost ft f = cost_loop ft [f] 0 0"

record response_budget =
  rb_nodes :: nat
  rb_bytes :: nat
  exceeded :: bool

definition new_budget :: response_budget where
  "new_budget = \<lparr>rb_nodes = 1, rb_bytes = 16, exceeded = False\<rparr>"

definition budget_push :: "f64_text \<Rightarrow> frame \<Rightarrow> response_budget \<times> frame list \<Rightarrow> response_budget \<times> frame list" where
  "budget_push ft f = (\<lambda>(b, results).
     let over = (b\<lparr>exceeded := True\<rparr>, [])
     in if exceeded b then (b, results)
        else (case frame_response_cost ft f of
            None \<Rightarrow> over
          | Some (nodes, n) \<Rightarrow>
              (case checked_add (rb_nodes b) nodes of
                 None \<Rightarrow> over
               | Some next_nodes \<Rightarrow>
                   (case checked_add (rb_bytes b) n of
                      None \<Rightarrow> over
                    | Some next_bytes \<Rightarrow>
                        if next_nodes > MAX_FRAME_NODES \<or> next_bytes > MAX_FRAME_BYTES then over
                        else (b\<lparr>rb_nodes := next_nodes, rb_bytes := next_bytes\<rparr>, results @ [f])))))"

definition budget_finish :: "response_budget \<times> frame list \<Rightarrow> frame" where
  "budget_finish = (\<lambda>(b, results).
     if exceeded b then Array [Error ''ERR EXEC response exceeds configured limit''] else Array results)"

section \<open>What may be queued\<close>

definition queueable_commands :: "string list" where
  "queueable_commands = [
    ''Append'', ''Copy'', ''Dbsize'', ''Decr'', ''Decrby'', ''Del'', ''Exists'', ''Expire'', ''ExpireAt'',
    ''ExpireTime'', ''Flushdb'', ''Get'', ''GetDel'', ''GetEx'', ''GetRange'', ''GetSet'', ''Hdel'', ''Hexists'',
    ''Hget'', ''Hgetall'', ''Hincrby'', ''HincrbyFloat'', ''Hkeys'', ''Hlen'', ''Hmget'', ''Hmset'', ''Hscan'',
    ''Hrandfield'', ''Hset'', ''Hsetnx'', ''Hstrlen'', ''Hvals'', ''Incr'', ''Incrby'', ''IncrbyFloat'', ''Keys'',
    ''Lindex'', ''Linsert'', ''Llen'', ''Lmove'', ''Lmpop'', ''Lpop'', ''Lpos'', ''Lpush'', ''Lpushx'', ''Lrange'',
    ''Lset'', ''Ltrim'', ''Move'', ''Mget'', ''Mset'', ''Msetnx'', ''Persist'', ''Pexpire'', ''PexpireAt'',
    ''PexpireTime'', ''Psetex'', ''Pttl'', ''RandomKey'', ''Rename'', ''Renamenx'', ''Rpop'', ''Rpoplpush'',
    ''Rpush'', ''Rpushx'', ''Sadd'', ''Scard'', ''Scan'', ''Sdiff'', ''Sdiffstore'', ''Set'', ''SetRange'',
    ''Setex'', ''Setnx'', ''Sinter'', ''Sismember'', ''Sinterstore'', ''Smismember'', ''Smembers'', ''Spop'',
    ''Srandmember'', ''Srem'', ''Sscan'', ''Strlen'', ''Sunion'', ''Sunionstore'', ''Ttl'', ''Touch'', ''Type'',
    ''Unwatch'', ''Unlink'', ''Xack'', ''Xadd'', ''Xautoclaim'', ''Xclaim'', ''Xdel'', ''Xgroup'', ''Xinfo'',
    ''Xlen'', ''Xpending'', ''Xrange'', ''Xread'', ''Xreadgroup'', ''Xrevrange'', ''Xtrim'', ''Zadd'', ''Zcard'',
    ''Zcount'', ''Zincrby'', ''Zmscore'', ''Zrange'', ''Zrangebyscore'', ''Zrangestore'', ''Zrank'', ''Zrem'',
    ''Zremrangebyrank'', ''Zremrangebyscore'', ''Zrevrange'', ''Zrevrank'', ''Zscan'', ''Zscore'']"

record ('cmd, 'd, 'e) exec_env =
  parse_from_frame :: "frame \<Rightarrow> 'e + 'cmd"
  command_kind :: "'cmd \<Rightarrow> string"
  command_name :: "'cmd \<Rightarrow> string"
  effective_name :: "'cmd \<Rightarrow> string"
  target_db :: "'cmd \<Rightarrow> nat option"
  handle_command :: "'cmd \<Rightarrow> 'd \<Rightarrow> ('e + frame) \<times> 'd"
  commit_view :: "'d \<Rightarrow> ('e + unit) \<times> 'd"
  error_text :: "'e \<Rightarrow> string"
  databases :: nat
  requirepass :: bool
  max_transaction_commands :: nat
  max_transaction_bytes :: nat
  doubles :: f64_text

definition can_queue_transaction_command :: "('cmd, 'd, 'e) exec_env \<Rightarrow> 'cmd \<Rightarrow> bool" where
  "can_queue_transaction_command env c \<longleftrightarrow> command_kind env c \<in> set queueable_commands"

definition quoted :: "string \<Rightarrow> string" where
  "quoted s = CHR 0x27 # s @ [CHR 0x27]"

text \<open>The reply to a command inside MULTI, and the session afterwards.\<close>

definition queue_transaction_frame ::
  "('cmd, 'd, 'e) exec_env \<Rightarrow> frame \<Rightarrow> session \<times> session_manager \<Rightarrow> frame \<times> session \<times> session_manager"
where
  "queue_transaction_frame env f = (\<lambda>(s, m).
     (case (case parse_from_frame env f of
             Inl e \<Rightarrow> (Error (error_text env e), mark_transaction_dirty s)
           | Inr c \<Rightarrow>
               if requirepass env \<and> \<not> certification s
               then (Error ''NOAUTH Authentication required.'', mark_transaction_dirty s)
               else if \<not> acl_allows m (s_user s) (effective_name env c)
               then (Error (''NOPERM this user has no permissions to run the '' @
                       quoted (to_ascii_lowercase (effective_name env c)) @ '' command''), mark_transaction_dirty s)
               else if can_queue_transaction_command env c
               then (case try_add_transaction_frame (doubles env) f (max_transaction_commands env) (max_transaction_bytes env) s of
                   (True, s') \<Rightarrow> (SimpleString ''QUEUED'', s')
                 | (False, s') \<Rightarrow> (Error ''ERR transaction queue limit exceeded'', mark_transaction_dirty s'))
               else (Error (''ERR command '' @ quoted (effective_name env c) @ '' is not allowed in MULTI''),
                     mark_transaction_dirty s)) of
        (reply, s') \<Rightarrow> (reply, s', update_session (snapshot_of s') m)))"

section \<open>EXEC\<close>

fun run_commands ::
  "('cmd, 'd, 'e) exec_env \<Rightarrow> 'cmd list \<Rightarrow> 'd \<Rightarrow> response_budget \<times> frame list \<Rightarrow> ('cmd + response_budget \<times> frame list) \<times> 'd"
where
  "run_commands env [] d res = (Inr res, d)"
| "run_commands env (c # cs) d res =
     (if \<not> can_queue_transaction_command env c then (Inl c, d)
      else if (case target_db env c of None \<Rightarrow> False | Some i \<Rightarrow> databases env \<le> i)
      then run_commands env cs d (budget_push (doubles env) (Error ''ERR DB index is out of range'') res)
      else if command_kind env c = ''Unwatch'' then run_commands env cs d (budget_push (doubles env) Ok res)
      else (case handle_command env c d of
          (Inl e, d') \<Rightarrow> run_commands env cs d' (budget_push (doubles env) (Error (error_text env e)) res)
        | (Inr f, d') \<Rightarrow> run_commands env cs d' (budget_push (doubles env) f res)))"

definition execute_transaction_commands :: "('cmd, 'd, 'e) exec_env \<Rightarrow> 'cmd list \<Rightarrow> 'd \<Rightarrow> frame \<times> 'd" where
  "execute_transaction_commands env cs d =
     (case run_commands env cs d (new_budget, []) of
        (Inl c, d') \<Rightarrow>
          (Error (''EXECABORT Transaction discarded because command '' @ quoted (command_name env c) @
             '' is not allowed in MULTI''), d')
      | (Inr res, d') \<Rightarrow>
          (case commit_view env d' of
             (Inl e, d'') \<Rightarrow> (Error (''EXECABORT Transaction discarded because commit failed: '' @ error_text env e), d'')
           | (Inr _, d'') \<Rightarrow> (budget_finish res, d'')))"

fun parse_frames :: "('cmd, 'd, 'e) exec_env \<Rightarrow> frame list \<Rightarrow> 'e + 'cmd list" where
  "parse_frames env [] = Inr []"
| "parse_frames env (f # fs) =
     (case parse_from_frame env f of
        Inl e \<Rightarrow> Inl e
      | Inr c \<Rightarrow> (case parse_frames env fs of Inl e \<Rightarrow> Inl e | Inr cs \<Rightarrow> Inr (c # cs)))"

text \<open>
  The handler's part of the state: the session, the transactional view that MULTI opened, and the mutation tracker.
  The last component of the result is the view after the commands ran on it, if they did.
\<close>

record 'd handler =
  h_session :: session
  transaction_db :: "'d option"

definition clear_transaction_and_watches ::
  "key_encoding_layout \<Rightarrow> 'd handler \<Rightarrow> key_mutation_tracker \<Rightarrow> 'd handler \<times> key_mutation_tracker"
where
  "clear_transaction_and_watches layout h t =
     (h\<lparr>h_session := (clear_transaction (h_session h))\<lparr>watched_keys := []\<rparr>, transaction_db := None\<rparr>,
      clear_watches layout (watched_keys (h_session h)) t)"

definition start_handler_transaction :: "'e + 'd \<Rightarrow> 'd handler \<Rightarrow> ('e option + unit) \<times> 'd handler" where
  "start_handler_transaction view h =
     (if in_transaction (h_session h) then (Inl None, h)
      else (case view of
          Inl e \<Rightarrow> (Inl (Some e), h)
        | Inr d \<Rightarrow> (Inr (), h\<lparr>h_session := start_transaction (h_session h), transaction_db := Some d\<rparr>)))"

definition execute_transaction ::
  "('cmd, 'd, 'e) exec_env \<Rightarrow> (bytes \<Rightarrow> key_mutation_tracker \<Rightarrow> ('e + unit) \<times> key_mutation_tracker) \<Rightarrow> key_encoding_layout \<Rightarrow>
   session_manager \<Rightarrow> 'd handler \<Rightarrow> key_mutation_tracker \<Rightarrow>
   ('e + frame) \<times> 'd handler \<times> key_mutation_tracker \<times> 'd option"
where
  "execute_transaction env expire layout m h t =
     (let s = h_session h;
          abort = (\<lambda>t reply. case clear_transaction_and_watches layout h t of (h', t') \<Rightarrow> (Inr reply, h', t', None))
      in if \<not> in_transaction s then (Inr (Error ''ERR EXEC without MULTI''), h, t, None)
         else if transaction_dirty s
         then abort t (Error ''EXECABORT Transaction discarded because of previous errors'')
         else (case parse_frames env (transaction_frames s) of
             Inl e \<Rightarrow> abort t (Error (''EXECABORT Transaction discarded because command parsing failed: '' @ error_text env e))
           | Inr cs \<Rightarrow>
               (case find (\<lambda>c. \<not> acl_allows m (s_user s) (effective_name env c)) cs of
                  Some c \<Rightarrow> abort t (Error (''EXECABORT Transaction discarded because user has no permissions to run '' @
                      quoted (to_ascii_lowercase (effective_name env c))))
                | None \<Rightarrow>
                    (case transaction_db h of
                       None \<Rightarrow> abort t (Error ''ERR transaction state is missing'')
                     | Some d \<Rightarrow>
                         (case watched_keys_modified expire layout (watched_keys s) t of
                            (Inl e, t') \<Rightarrow> (Inl e, h, t', None)
                          | (Inr True, t') \<Rightarrow> abort t' Null
                          | (Inr False, t') \<Rightarrow>
                              (case execute_transaction_commands env cs d of (reply, d') \<Rightarrow>
                                 case clear_transaction_and_watches layout h t' of (h', t'') \<Rightarrow>
                                   (Inr reply, h', t'', Some d')))))))"

definition discard_apply ::
  "key_encoding_layout \<Rightarrow> 'd handler \<Rightarrow> key_mutation_tracker \<Rightarrow> frame \<times> 'd handler \<times> key_mutation_tracker"
where
  "discard_apply layout h t =
     (if \<not> in_transaction (h_session h) then (Error ''ERR DISCARD without MULTI'', h, t)
      else (Ok, clear_transaction_and_watches layout h t))"

end
