(* ===== verification/Transaction_Properties.thy ===== *)
theory Transaction_Properties
  imports Transaction_Queue Resp_Roundtrip
begin

text \<open>
  What MULTI and EXEC promise: all queued commands run in order on one view that is committed once, or none runs;
  the queue and the reply are bounded.
\<close>

section \<open>The reply is bounded\<close>

function frame_cost :: "f64_text \<Rightarrow> frame \<Rightarrow> nat" where
  "frame_cost ft f = the (cost_of_node ft f) + sum_list (map (frame_cost ft) (children f))"
  by pat_completeness auto
termination by (relation "measure (\<lambda>(ft, f). size f)") (auto simp: children_size)

declare frame_cost.simps [simp del]

lemma sum_pushed_by: "sum_list (map g (pushed_by f)) = sum_list (map g (children f))" for g :: "frame \<Rightarrow> nat"
  by (cases f) (simp_all add: rev_map [symmetric] sum_list_rev flatten_pairs_def)

lemma cost_loop_sound:
  assumes "cost_loop ft pending nodes n = Some (nodes', n')"
  shows "nodes' = nodes + sum_list (map frame_nodes pending) \<and> n' = n + sum_list (map (frame_cost ft) pending)"
  using assms
proof (induction ft pending nodes n rule: cost_loop.induct)
  case (2 ft f pending nodes n)
  from 2(2) obtain cost where c: "checked_add nodes 1 = Some (nodes + 1)" "\<not> nodes + 1 > MAX_FRAME_NODES"
    "cost_of_node ft f = Some cost" "checked_add n cost = Some (n + cost)" "\<not> n + cost > MAX_FRAME_BYTES"
    "cost_loop ft (pushed_by f @ pending) (nodes + 1) (n + cost) = Some (nodes', n')"
    by (auto simp: cost_loop.simps(2) split: option.splits if_splits)
  then show ?case
    using 2(1) [OF c] by (simp add: sum_pushed_by frame_nodes.simps [of f] frame_cost.simps [of ft f])
qed (simp add: cost_loop.simps)

lemma cost_loop_within:
  assumes "cost_loop ft pending nodes n = Some (nodes', n')" "pending \<noteq> []"
  shows "nodes' \<le> MAX_FRAME_NODES \<and> n' \<le> MAX_FRAME_BYTES"
  using assms
proof (induction ft pending nodes n rule: cost_loop.induct)
  case (2 ft f pending nodes n)
  then show ?case
    by (cases "pushed_by f @ pending = []") (auto simp: cost_loop.simps split: option.splits if_splits)
qed simp

function counted :: "f64_text \<Rightarrow> frame \<Rightarrow> bool" where
  "counted ft f = (cost_of_node ft f \<noteq> None \<and> list_all (counted ft) (children f))"
  by pat_completeness auto
termination by (relation "measure (\<lambda>(ft, f). size f)") (auto simp: children_size)

declare counted.simps [simp del]

lemma set_pushed_by: "set (pushed_by f) = set (children f)"
  by (cases f) (auto simp: flatten_pairs_def)

lemma cost_loop_counts: "cost_loop ft pending nodes n = Some r \<Longrightarrow> list_all (counted ft) pending"
proof (induction ft pending nodes n rule: cost_loop.induct)
  case (2 ft f pending nodes n)
  then show ?case
    by (auto simp: cost_loop.simps(2) counted.simps [of ft f] list_all_iff set_pushed_by split: option.splits if_splits)
qed simp

text \<open>Frames whose encoding costs at most what is counted, in both protocols.\<close>

fun plain_node :: "frame \<Rightarrow> bool" where
  "plain_node (Double _) = False"
| "plain_node (BigNumber _) = False"
| "plain_node (BlobError _) = False"
| "plain_node (VerbatimString _ _) = False"
| "plain_node (Map _) = False"
| "plain_node (Attribute _ _) = False"
| "plain_node _ = True"

function plain_reply :: "frame \<Rightarrow> bool" where
  "plain_reply f = (plain_node f \<and> list_all plain_reply (children f))"
  by pat_completeness auto
termination by (relation "measure size") (auto simp: children_size)

declare plain_reply.simps [simp del]

lemma plain_encoding_cost:
  "plain_node f \<Longrightarrow> cost_of_node ft f \<noteq> None \<Longrightarrow> length (append_frame ft p f) \<le>
     the (cost_of_node ft f) + sum_list (map (length \<circ> append_frame ft p) (children f))"
proof -
  assume a: "plain_node f" "cost_of_node ft f \<noteq> None"
  have len: "length (concat (map (append_frame ft q) vs)) = sum_list (map (length \<circ> append_frame ft q) vs)" for q vs
    by (simp add: length_concat comp_def)
  show ?thesis
    using a by (cases f; cases p)
      (simp_all add: show_int_def show_nat.simps [of 0] show_nat.simps [of "Suc 0"] cost_of_node_def Let_def append_line_number_def append_sanitized_line_def
        append_blob_def len checked_add_def split: if_splits option.splits)
qed

lemma encoding_within_cost: "plain_reply f \<Longrightarrow> counted ft f \<Longrightarrow> length (append_frame ft p f) \<le> frame_cost ft f"
proof (induction f rule: frame_induct_children)
  case (frame f)
  have "sum_list (map (length \<circ> append_frame ft p) (children f)) \<le> sum_list (map (frame_cost ft) (children f))"
    using frame by (intro sum_list_mono) (auto simp: plain_reply.simps [of f] counted.simps [of ft f] list_all_iff)
  then show ?case
    using plain_encoding_cost [of f ft p] frame.prems
    by (simp add: plain_reply.simps [of f] counted.simps [of ft f] frame_cost.simps [of ft f])
qed

definition budget_ok :: "f64_text \<Rightarrow> frame list \<Rightarrow> response_budget \<times> frame list \<Rightarrow> bool" where
  "budget_ok ft fs = (\<lambda>(b, results).
     if exceeded b then results = []
     else results = fs \<and> rb_nodes b = 1 + sum_list (map frame_nodes fs) \<and> rb_bytes b = 16 + sum_list (map (frame_cost ft) fs) \<and>
       rb_nodes b \<le> MAX_FRAME_NODES \<and> rb_bytes b \<le> MAX_FRAME_BYTES \<and> list_all (counted ft) fs)"

lemma budget_ok_new: "budget_ok ft [] (new_budget, [])"
  by (simp add: budget_ok_def new_budget_def limit_defs)

lemma budget_ok_push: "budget_ok ft fs st \<Longrightarrow> budget_ok ft (fs @ [f]) (budget_push ft f st)"
  by (auto simp: budget_ok_def budget_push_def frame_response_cost_def Let_def
      dest: cost_loop_sound cost_loop_counts split: prod.splits option.splits if_splits)

lemma budget_ok_fold: "budget_ok ft gs st \<Longrightarrow> budget_ok ft (gs @ fs) (foldl (\<lambda>st f. budget_push ft f st) st fs)"
proof (induction fs arbitrary: gs st)
  case (Cons f fs)
  then show ?case using Cons.IH [OF budget_ok_push [OF Cons.prems]] by simp
qed simp

text \<open>The reply of EXEC stays within the protocol limits whatever the commands return: it has at most as many frames as a
  client accepts in one reply, and when the results are status, error, integer, text, boolean, null and
  array frames its encoding, in either protocol, is not longer than the largest frame.\<close>

theorem exec_reply_bounded:
  assumes "reply = budget_finish (foldl (\<lambda>st f. budget_push ft f st) (new_budget, []) fs)"
  shows "frame_nodes reply \<le> MAX_FRAME_NODES \<and>
    (list_all plain_reply fs \<longrightarrow> length (append_frame ft p reply) \<le> MAX_FRAME_BYTES) \<and>
    (reply = Array fs \<or> reply = Array [Error ''ERR EXEC response exceeds configured limit''])"
proof -
  obtain b results where st: "foldl (\<lambda>st f. budget_push ft f st) (new_budget, []) fs = (b, results)" by (metis surj_pair)
  have ok: "budget_ok ft fs (b, results)" using budget_ok_fold [OF budget_ok_new, of ft fs] st by simp
  have app: "append_frame ft p (Array vs) = ''*'' @ show_nat (length vs) @ CRLF @ concat (map (append_frame ft p) vs)" for vs
    by (cases p) simp_all
  show ?thesis
  proof (cases "exceeded b")
    case True
    then have r: "reply = Array [Error ''ERR EXEC response exceeds configured limit'']"
      using assms st by (simp add: budget_finish_def)
    have "append_frame ft p (Error e) = append_sanitized_line (CHR ''-'') e" for e by (cases p) simp_all
    then show ?thesis
      using r by (simp add: app frame_nodes.simps limit_defs append_sanitized_line_def show_nat.simps [of "Suc 0"])
  next
    case False
    then have r: "reply = Array fs" "budget_ok ft fs (b, fs)" "rb_nodes b \<le> MAX_FRAME_NODES" "rb_bytes b \<le> MAX_FRAME_BYTES"
      using assms st ok by (auto simp: budget_finish_def budget_ok_def)
    have n: "frame_nodes reply \<le> MAX_FRAME_NODES"
      using r False by (simp add: budget_ok_def frame_nodes.simps [of "Array fs"])
    have "length fs \<le> sum_list (map frame_nodes fs)"
      by (induction fs) (simp_all add: frame_nodes.simps add_increasing)
    then have "length fs < 10 ^ 8" using r False by (simp add: budget_ok_def limit_defs)
    then have "length (show_nat (length fs)) \<le> 13" using length_show_nat [of "length fs" 8] by simp
    moreover have "length (concat (map (append_frame ft p) fs)) \<le> sum_list (map (frame_cost ft) fs)" if "list_all plain_reply fs"
      unfolding length_concat map_map comp_def
      using that r False encoding_within_cost by (intro sum_list_mono) (auto simp: budget_ok_def list_all_iff)
    ultimately have "list_all plain_reply fs \<longrightarrow> length (append_frame ft p reply) \<le> MAX_FRAME_BYTES"
      using r False by (auto simp: app budget_ok_def)
    with n r(1) show ?thesis by blast
  qed
qed

definition sample_text :: f64_text where
  "sample_text = \<lparr>f64_show = (\<lambda>_. ''0''), f64_parse = (\<lambda>_. None)\<rparr>"

theorem exec_reply_bounded_witness:
  "length (append_frame sample_text Resp2
     (budget_finish (foldl (\<lambda>st f. budget_push sample_text f st) (new_budget, []) [Ok, Array [Integer 3, Null]]))) \<le> MAX_FRAME_BYTES"
proof -
  have "list_all plain_reply [Ok, Array [Integer 3, Null]]" by (simp add: plain_reply.simps)
  then show ?thesis using exec_reply_bounded [OF refl] by blast
qed

section \<open>The queue\<close>

fun queue_all ::
  "('cmd, 'd, 'e) exec_env \<Rightarrow> frame list \<Rightarrow> session \<times> session_manager \<Rightarrow> frame list \<times> session \<times> session_manager"
where
  "queue_all env [] st = ([], st)"
| "queue_all env (f # fs) st =
     (case queue_transaction_frame env f st of (reply, st') \<Rightarrow>
        case queue_all env fs st' of (replies, st'') \<Rightarrow> (reply # replies, st''))"

abbreviation queued :: frame where
  "queued \<equiv> SimpleString ''QUEUED''"

definition accepted :: "('cmd, 'd, 'e) exec_env \<Rightarrow> frame \<Rightarrow> bool" where
  "accepted env f \<longleftrightarrow> (\<exists>c. parse_from_frame env f = Inr c \<and> can_queue_transaction_command env c)"

text \<open>One command: it is queued, or the transaction is dirty.\<close>

lemma queue_one:
  assumes "queue_transaction_frame env f (s, m) = (reply, s', m')"
  shows "in_transaction s' = in_transaction s \<and> watched_keys s' = watched_keys s \<and>
    (reply = queued \<and> accepted env f \<and> transaction_frames s' = transaction_frames s @ [f] \<and>
       transaction_dirty s' = transaction_dirty s \<and> length (transaction_frames s') \<le> max_transaction_commands env \<and>
       transaction_bytes s' = transaction_bytes s + length (as_bytes (doubles env) f) \<and>
       (max_transaction_bytes env < usize_max \<longrightarrow> transaction_bytes s' \<le> max_transaction_bytes env) \<or>
     reply \<noteq> queued \<and> transaction_frames s' = transaction_frames s \<and> transaction_dirty s' \<and>
       transaction_bytes s' = transaction_bytes s)"
  using assms
  by (auto simp: queue_transaction_frame_def try_add_transaction_frame_def mark_transaction_dirty_def accepted_def
      saturating_add_def Let_def split: sum.splits if_splits)

lemma queue_all_session:
  assumes "queue_all env fs (s, m) = (replies, s', m')"
  shows "in_transaction s' = in_transaction s \<and> watched_keys s' = watched_keys s \<and>
    (if list_all (\<lambda>r. r = queued) replies
     then transaction_frames s' = transaction_frames s @ fs \<and> transaction_dirty s' = transaction_dirty s \<and> list_all (accepted env) fs
     else transaction_dirty s')"
  using assms
proof (induction fs arbitrary: s m replies)
  case (Cons f fs)
  obtain reply s1 m1 rs where q: "queue_transaction_frame env f (s, m) = (reply, s1, m1)"
    "queue_all env fs (s1, m1) = (rs, s', m')" "replies = reply # rs"
    using Cons.prems by (auto split: prod.splits)
  show ?case using queue_one [OF q(1)] Cons.IH [OF q(2)] q(3) by (auto split: if_splits)
qed simp

lemma queue_all_bounded:
  assumes "queue_all env fs (s, m) = (replies, s', m')" "max_transaction_bytes env < usize_max"
    and "length (transaction_frames s) \<le> max_transaction_commands env"
    and "transaction_bytes s = sum_list (map (length \<circ> as_bytes (doubles env)) (transaction_frames s))"
    and "transaction_bytes s \<le> max_transaction_bytes env"
  shows "length (transaction_frames s') \<le> max_transaction_commands env \<and>
    transaction_bytes s' = sum_list (map (length \<circ> as_bytes (doubles env)) (transaction_frames s')) \<and>
    transaction_bytes s' \<le> max_transaction_bytes env"
  using assms
proof (induction fs arbitrary: s m replies)
  case (Cons f fs)
  obtain reply s1 m1 rs where q: "queue_transaction_frame env f (s, m) = (reply, s1, m1)"
    "queue_all env fs (s1, m1) = (rs, s', m')"
    using Cons.prems(1) by (auto split: prod.splits)
  show ?case
    by (rule Cons.IH [OF q(2) Cons.prems(2)]) (use queue_one [OF q(1)] Cons.prems in auto)
qed simp

text \<open>The queue of a transaction is bounded: however many commands a client sends between MULTI and EXEC, the session holds
  at most the configured number of them and of bytes, and its byte counter is exactly the size of the queued
  commands.\<close>

theorem transaction_queue_bounded:
  assumes "queue_all env fs (start_transaction s, m) = (replies, s', m')" "max_transaction_bytes env < usize_max"
  shows "length (transaction_frames s') \<le> max_transaction_commands env \<and>
    transaction_bytes s' = sum_list (map (length \<circ> as_bytes (doubles env)) (transaction_frames s')) \<and>
    transaction_bytes s' \<le> max_transaction_bytes env"
  by (rule queue_all_bounded [OF assms]) (simp_all add: start_transaction_def)

definition sample_env :: "(frame, string list, string) exec_env" where
  "sample_env = \<lparr>parse_from_frame = (\<lambda>f. if f = Ok then Inl ''ERR no command'' else Inr f),
     command_kind = (\<lambda>f. case f of BulkString b \<Rightarrow> b | _ \<Rightarrow> ''Ping''), command_name = (\<lambda>_. ''set''), effective_name = (\<lambda>_. ''set''),
     target_db = (\<lambda>_. None), handle_command = (\<lambda>f d. (Inr f, d @ [''command''])), commit_view = (\<lambda>d. (Inr (), d @ [''commit''])),
     error_text = (\<lambda>e. e), databases = 16, requirepass = False, max_transaction_commands = 2, max_transaction_bytes = 100,
     doubles = sample_text\<rparr>"

lemmas sample_simps =
  sample_env_def sample_text_def queue_transaction_frame_def acl_allows_def with_default_password_def new_session_def start_transaction_def
  user_allows_def can_queue_transaction_command_def queueable_commands_def try_add_transaction_frame_def mark_transaction_dirty_def
  saturating_add_def as_bytes_def

theorem transaction_queue_bounded_witness:
  "case queue_all sample_env [BulkString ''Set'', BulkString ''Get'', BulkString ''Del'']
     (start_transaction (new_session 1 True 0 ''p'' ''l''), with_default_password None) of
     (replies, s', m') \<Rightarrow> length (transaction_frames s') \<le> 2 \<and> transaction_bytes s' \<le> 100"
proof -
  obtain replies s' m' where q: "queue_all sample_env [BulkString ''Set'', BulkString ''Get'', BulkString ''Del'']
     (start_transaction (new_session 1 True 0 ''p'' ''l''), with_default_password None) = (replies, s', m')"
    by (metis surj_pair)
  have "max_transaction_commands sample_env = 2" "max_transaction_bytes sample_env = 100" "max_transaction_bytes sample_env < usize_max"
    by (simp_all add: sample_env_def)
  then show ?thesis using transaction_queue_bounded [OF q] q by simp
qed

section \<open>EXEC\<close>

text \<open>The commands one after the other, with one reply each.\<close>

fun exec_spec :: "('cmd, 'd, 'e) exec_env \<Rightarrow> 'cmd list \<Rightarrow> 'd \<Rightarrow> frame list \<times> 'd" where
  "exec_spec env [] d = ([], d)"
| "exec_spec env (c # cs) d =
     (let (reply, d') =
        (if (case target_db env c of None \<Rightarrow> False | Some i \<Rightarrow> databases env \<le> i) then (Error ''ERR DB index is out of range'', d)
         else if command_kind env c = ''Unwatch'' then (Ok, d)
         else (case handle_command env c d of (Inl e, d') \<Rightarrow> (Error (error_text env e), d') | (Inr f, d') \<Rightarrow> (f, d')));
        (replies, d'') = exec_spec env cs d'
      in (reply # replies, d''))"

lemma run_commands_spec:
  assumes "list_all (can_queue_transaction_command env) cs"
  shows "run_commands env cs d st =
    (Inr (foldl (\<lambda>st f. budget_push (doubles env) f st) st (fst (exec_spec env cs d))), snd (exec_spec env cs d))"
  using assms by (induction cs arbitrary: d st) (auto split: prod.splits sum.splits)

lemma parse_frames_accepted:
  "parse_frames env fs = Inr cs \<Longrightarrow> list_all (accepted env) fs \<Longrightarrow>
     list_all (can_queue_transaction_command env) cs \<and> map (parse_from_frame env) fs = map Inr cs"
  by (induction fs arbitrary: cs) (auto simp: accepted_def split: sum.splits)


definition left_multi :: "'d handler \<Rightarrow> bool" where
  "left_multi h \<longleftrightarrow> \<not> in_transaction (h_session h) \<and> transaction_frames (h_session h) = [] \<and> watched_keys (h_session h) = [] \<and>
     transaction_db h = None"

lemma left_multi_clear: "clear_transaction_and_watches layout h t = (h', t') \<Longrightarrow> left_multi h'"
  by (auto simp add: left_multi_def clear_transaction_and_watches_def clear_transaction_def)

lemma discard_leaves_multi:
  "discard_apply layout h t = (Ok, h', t') \<Longrightarrow> left_multi h'"
  by (auto simp: discard_apply_def left_multi_clear split: if_splits)

text \<open>EXEC on any open transaction.\<close>

lemma exec_leaves_multi:
  assumes "execute_transaction env expire layout m h t = (Inr reply, h', t', used)" "in_transaction (h_session h)"
  shows "left_multi h'"
  using assms
  by (auto simp: execute_transaction_def Let_def intro: left_multi_clear split: prod.splits sum.splits option.splits bool.splits if_splits)

lemma exec_dirty:
  assumes "execute_transaction env expire layout m h t = (r, h', t', used)" "in_transaction (h_session h)" "transaction_dirty (h_session h)"
  shows "used = None \<and> r = Inr (Error ''EXECABORT Transaction discarded because of previous errors'')"
  using assms by (auto simp: execute_transaction_def Let_def split: prod.splits)

lemma exec_used:
  assumes "execute_transaction env expire layout m h t = (r, h', t', Some d')"
  obtains cs d reply where "parse_frames env (transaction_frames (h_session h)) = Inr cs"
    "list_all (\<lambda>c. acl_allows m (s_user (h_session h)) (effective_name env c)) cs" "transaction_db h = Some d"
    "fst (watched_keys_modified expire layout (watched_keys (h_session h)) t) = Inr False"
    "execute_transaction_commands env cs d = (reply, d')" "r = Inr reply"
  using assms
  by (auto simp: execute_transaction_def Let_def find_None_iff list_all_iff
      split: prod.splits sum.splits option.splits bool.splits if_splits)

text \<open>The one reply of the commands that ran.\<close>

definition exec_outcome :: "('cmd, 'd, 'e) exec_env \<Rightarrow> 'cmd list \<Rightarrow> 'd \<Rightarrow> frame \<Rightarrow> 'd \<Rightarrow> bool" where
  "exec_outcome env cs d reply d' \<longleftrightarrow>
     (case exec_spec env cs d of (results, d1) \<Rightarrow>
        d' = snd (commit_view env d1) \<and>
        (case fst (commit_view env d1) of
           Inl e \<Rightarrow> reply = Error (''EXECABORT Transaction discarded because commit failed: '' @ error_text env e)
         | Inr _ \<Rightarrow> reply = Array results \<or> reply = Array [Error ''ERR EXEC response exceeds configured limit'']))"

lemma budget_finish_cases:
  "budget_finish (foldl (\<lambda>st f. budget_push ft f st) (new_budget, []) fs) \<in>
     {Array fs, Array [Error ''ERR EXEC response exceeds configured limit'']}"
  using budget_ok_fold [OF budget_ok_new, of ft fs] by (auto simp: budget_ok_def budget_finish_def split: if_splits prod.splits)

lemma execute_commands_outcome:
  assumes "execute_transaction_commands env cs d = (reply, d')" "list_all (can_queue_transaction_command env) cs"
  shows "exec_outcome env cs d reply d'"
  using assms budget_finish_cases [of "doubles env" "fst (exec_spec env cs d)"]
  by (auto simp: execute_transaction_commands_def run_commands_spec exec_outcome_def split: prod.splits sum.splits)

text \<open>C5: MULTI ... EXEC runs all of its commands or none. If any command sent between them was refused, EXEC discards the
  transaction. If EXEC runs anything, then every command was queued and is still permitted, no watched key was modified, the
  commands ran in the order they were sent on the one view that MULTI opened, which was committed once after the last of them,
  and the reply has exactly one result per command unless the commit failed or the reply is over the limit. Every reply
  leaves the session outside MULTI with nothing queued or watched.\<close>

theorem transaction_all_or_nothing:
  assumes "start_handler_transaction (Inr d) h = (Inr (), h1)"
    and "queue_all env fs (h_session h1, m) = (replies, s', m')"
    and "execute_transaction env expire layout m'' (h1\<lparr>h_session := s'\<rparr>) t = (r, h2, t', used)"
  shows "(\<not> list_all (\<lambda>r. r = queued) replies \<longrightarrow>
      used = None \<and> r = Inr (Error ''EXECABORT Transaction discarded because of previous errors'')) \<and>
    (\<forall>d'. used = Some d' \<longrightarrow>
      (\<exists>cs reply. list_all (\<lambda>r. r = queued) replies \<and> map (parse_from_frame env) fs = map Inr cs \<and>
         list_all (\<lambda>c. acl_allows m'' (s_user s') (effective_name env c)) cs \<and>
         fst (watched_keys_modified expire layout (watched_keys s') t) = Inr False \<and>
         r = Inr reply \<and> exec_outcome env cs d reply d')) \<and>
    (\<forall>reply. r = Inr reply \<longrightarrow> left_multi h2)"
proof (intro conjI impI allI)
  let ?h = "h1\<lparr>h_session := s'\<rparr>"
  have h1: "h_session h1 = start_transaction (h_session h)" "transaction_db h1 = Some d"
    using assms(1) by (auto simp: start_handler_transaction_def split: if_splits)
  note q = queue_all_session [OF assms(2), unfolded h1]
  have multi: "in_transaction (h_session ?h)" using q by (simp add: start_transaction_def)
  {
    assume "\<not> list_all (\<lambda>r. r = queued) replies"
    then have "transaction_dirty (h_session ?h)" using q by (simp split: if_splits)
    from exec_dirty [OF assms(3) multi this]
    show "used = None" "r = Inr (Error ''EXECABORT Transaction discarded because of previous errors'')" by simp_all
  next
    fix d' assume used: "used = Some d'"
    have clean: "list_all (\<lambda>r. r = queued) replies"
      using exec_dirty [OF assms(3) multi] q used by (auto split: if_splits)
    then have frames: "transaction_frames s' = fs" "list_all (accepted env) fs" using q by (simp_all add: start_transaction_def)
    obtain cs reply where e: "parse_frames env fs = Inr cs"
      "list_all (\<lambda>c. acl_allows m'' (s_user s') (effective_name env c)) cs"
      "fst (watched_keys_modified expire layout (watched_keys s') t) = Inr False"
      "execute_transaction_commands env cs d = (reply, d')" "r = Inr reply"
      by (rule exec_used [OF assms(3) [unfolded used]]) (use frames(1) h1(2) in auto)
    then show "\<exists>cs reply. list_all (\<lambda>r. r = queued) replies \<and> map (parse_from_frame env) fs = map Inr cs \<and>
         list_all (\<lambda>c. acl_allows m'' (s_user s') (effective_name env c)) cs \<and>
         fst (watched_keys_modified expire layout (watched_keys s') t) = Inr False \<and>
         r = Inr reply \<and> exec_outcome env cs d reply d'"
      using clean parse_frames_accepted [OF e(1) frames(2)] execute_commands_outcome [OF e(4)] by blast
  next
    fix reply assume "r = Inr reply"
    then show "left_multi h2" using exec_leaves_multi [of env expire layout m'' ?h t reply h2 t' used] assms(3) multi by simp
  }
qed

definition sample_handler :: "string list handler" where
  "sample_handler = \<lparr>h_session = new_session 1 True 0 ''p'' ''l'', transaction_db = None\<rparr>"

definition sample_queue :: "string list handler \<times> frame list" where
  "sample_queue =
     (case start_handler_transaction (Inr [] :: string + string list) sample_handler of (_, h1) \<Rightarrow>
      case queue_all sample_env [BulkString ''Set'', BulkString ''Get''] (h_session h1, with_default_password None) of
        (replies, s', _) \<Rightarrow> (h1\<lparr>h_session := s'\<rparr>, replies))"

lemma sample_can_queue: "can_queue_transaction_command sample_env (BulkString ''Set'')" "can_queue_transaction_command sample_env (BulkString ''Get'')"
  by (simp_all add: can_queue_transaction_command_def queueable_commands_def sample_env_def)

lemma sample_bytes: "length (as_bytes (doubles sample_env) (BulkString ''Set'')) = 9" "length (as_bytes (doubles sample_env) (BulkString ''Get'')) = 9"
  by (simp_all add: as_bytes_def as_bytes_for_protocol_def append_blob_def append_line_number_def show_nat.simps)

lemma sample_fields [simp]:
  "parse_from_frame sample_env (BulkString b) = Inr (BulkString b)" "requirepass sample_env = False"
  "effective_name sample_env f = ''set''" "max_transaction_commands sample_env = 2" "max_transaction_bytes sample_env = 100"
  "target_db sample_env f = None" "command_kind sample_env (BulkString b) = b" "handle_command sample_env f d = (Inr f, d @ [''command''])"
  "commit_view sample_env d = (Inr (), d @ [''commit''])"
  by (simp_all add: sample_env_def)

lemma sample_allowed: "acl_allows (with_default_password None) ''default'' ''set''"
  by (simp add: acl_allows_def with_default_password_def user_allows_def split: option.splits)

lemma acl_allows_update_session [simp]: "acl_allows (update_session v m) u c = acl_allows m u c"
  by (simp add: acl_allows_def update_session_def)

lemma sample_queue_value:
  "sample_queue = (\<lparr>h_session = (start_transaction (new_session 1 True 0 ''p'' ''l''))
       \<lparr>transaction_frames := [BulkString ''Set'', BulkString ''Get''], transaction_bytes := 18\<rparr>, transaction_db = Some []\<rparr>, [queued, queued])"
  by (simp add: sample_queue_def start_handler_transaction_def sample_handler_def new_session_def start_transaction_def
      queue_transaction_frame_def sample_can_queue sample_bytes try_add_transaction_frame_def saturating_add_def sample_allowed)

theorem transaction_all_or_nothing_witness:
  "case execute_transaction sample_env (\<lambda>_ t. (Inr (), t)) DbPrefixedV1 (with_default_password None) (fst sample_queue) empty_tracker of
     (r, h2, t', used) \<Rightarrow>
       snd sample_queue = [queued, queued] \<and> used = Some [''command'', ''command'', ''commit''] \<and> left_multi h2"
proof -
  obtain h1 where h1: "start_handler_transaction (Inr [] :: string + string list) sample_handler = (Inr (), h1)"
    by (simp add: start_handler_transaction_def sample_handler_def new_session_def)
  obtain replies s' m' where q:
    "queue_all sample_env [BulkString ''Set'', BulkString ''Get''] (h_session h1, with_default_password None) = (replies, s', m')"
    by (metis surj_pair)
  have sq: "sample_queue = (h1\<lparr>h_session := s'\<rparr>, replies)" using h1 q by (simp add: sample_queue_def del: queue_all.simps)
  obtain r h2 t' used where e: "execute_transaction sample_env (\<lambda>_ t. (Inr (), t)) DbPrefixedV1 (with_default_password None)
      (fst sample_queue) empty_tracker = (r, h2, t', used)"
    by (metis surj_pair)
  have run: "(case execute_transaction sample_env (\<lambda>_ t. (Inr (), t)) DbPrefixedV1 (with_default_password None) (fst sample_queue) empty_tracker of
      (r, h2, t', used) \<Rightarrow> snd sample_queue = [queued, queued] \<and> used = Some [''command'', ''command'', ''commit''] \<and> \<not> isl r)"
    by (simp add: sample_queue_value execute_transaction_def new_session_def start_transaction_def sample_allowed
        execute_transaction_commands_def sample_can_queue clear_transaction_and_watches_def)
  have c: "snd sample_queue = [queued, queued]" "used = Some [''command'', ''command'', ''commit'']" "\<not> isl r"
    using e run by simp_all
  show ?thesis using transaction_all_or_nothing [OF h1 q e [unfolded sq fst_conv]] c e by (cases r) auto
qed

end
