(* ===== verification/String_Bits.thy ===== *)
theory String_Bits
  imports Resp_Parse
begin

text \<open>
  The bit operations on strings (\<^verbatim>\<open>src/store/db/string_bitmap_ops.rs\<close>): the ranges of BITCOUNT, BITPOS and GETRANGE, counting and
  finding bits byte by byte under a mask, BITOP, and the bit fields of BITFIELD. A byte is read as an 8-bit word; the value of
  a field is kept at 64 bits, so that shifts and the subtraction of the sign wrap around as they do in the code.
\<close>

unbundle bit_operations_syntax

section \<open>Bytes as words\<close>

definition byte_word :: "char \<Rightarrow> 8 word" where
  "byte_word c = of_nat (of_char c)"

definition word_byte :: "8 word \<Rightarrow> char" where
  "word_byte w = char_of (unat w)"

text \<open>\<^verbatim>\<open>bytes.get(i).copied().unwrap_or(0)\<close>.\<close>

definition byte_at_or_zero :: "bytes \<Rightarrow> nat \<Rightarrow> 8 word" where
  "byte_at_or_zero bs i = (if i < length bs then byte_word (bs ! i) else 0)"

definition count_ones :: "8 word \<Rightarrow> nat" where
  "count_ones w = length (filter (bit w) [0..<8])"

definition leading_zeros :: "8 word \<Rightarrow> nat" where
  "leading_zeros w = length (takeWhile (\<lambda>i. \<not> bit w (7 - i)) [0..<8])"

section \<open>Ranges\<close>

definition redis_range :: "nat \<Rightarrow> int option \<Rightarrow> int option \<Rightarrow> (nat \<times> nat) option" where
  "redis_range len start_opt end_opt =
     (if len = 0 then None
      else (let raw_start = (case start_opt of None \<Rightarrow> 0 | Some i \<Rightarrow> i);
                raw_end = (case end_opt of None \<Rightarrow> int len - 1 | Some i \<Rightarrow> i)
            in if raw_start < 0 \<and> raw_end < 0 \<and> raw_start > raw_end then None
               else (let normalize = (\<lambda>index. if index < 0 then int len + index else index);
                         first = max (normalize raw_start) 0;
                         last_index = min (max (normalize raw_end) 0) (int len - 1)
                     in if first > last_index \<or> first \<ge> int len then None else Some (nat first, nat last_index))))"

definition bit_range :: "nat \<Rightarrow> int option \<Rightarrow> int option \<Rightarrow> (nat \<times> nat) option" where
  "bit_range len start_opt end_opt = redis_range len start_opt end_opt"

definition bit_range_mask :: "nat \<Rightarrow> nat \<Rightarrow> nat \<Rightarrow> 8 word" where
  "bit_range_mask byte_index first last_index =
     (let byte_start = byte_index * 8;
          first_bit = min (first - byte_start) 7;
          last_bit = min (last_index - byte_start) 7
      in drop_bit first_bit (- 1) AND push_bit (7 - last_bit) (- 1))"

definition string_range_of :: "bytes \<Rightarrow> int \<Rightarrow> int \<Rightarrow> bytes" where
  "string_range_of bs start_index end_index =
     (case redis_range (length bs) (Some start_index) (Some end_index) of
        None \<Rightarrow> []
      | Some (first, last_index) \<Rightarrow> take (last_index + 1 - first) (drop first bs))"

section \<open>Counting and finding bits\<close>

definition get_bit_of :: "bytes \<Rightarrow> nat \<Rightarrow> 8 word" where
  "get_bit_of bs offset = drop_bit (7 - offset mod 8) (byte_at_or_zero bs (offset div 8)) AND 1"

definition byte_bitcount_range :: "bytes \<Rightarrow> int option \<Rightarrow> int option \<Rightarrow> nat" where
  "byte_bitcount_range bs start_opt end_opt =
     (case redis_range (length bs) start_opt end_opt of
        None \<Rightarrow> 0
      | Some (first, last_index) \<Rightarrow>
          sum_list (map (\<lambda>c. count_ones (byte_word c)) (take (last_index + 1 - first) (drop first bs))))"

definition bitcount_range :: "bytes \<Rightarrow> int option \<Rightarrow> int option \<Rightarrow> nat" where
  "bitcount_range bs start_opt end_opt =
     (case bit_range (min (length bs * 8) usize_max) start_opt end_opt of
        None \<Rightarrow> 0
      | Some (first, last_index) \<Rightarrow>
          sum_list (map (\<lambda>i. count_ones (byte_word (bs ! i) AND bit_range_mask i first last_index))
            [first div 8..<last_index div 8 + 1]))"

fun bitpos_loop :: "bool \<Rightarrow> (nat \<Rightarrow> 8 word) \<Rightarrow> nat \<Rightarrow> bytes \<Rightarrow> int option" where
  "bitpos_loop one mask_of i [] = None"
| "bitpos_loop one mask_of i (c # cs) =
     (let candidate = (if one then byte_word c else NOT (byte_word c)) AND mask_of i
      in if candidate \<noteq> 0 then Some (int (i * 8) + int (leading_zeros candidate))
         else bitpos_loop one mask_of (i + 1) cs)"

definition bitpos_result :: "bool \<Rightarrow> int option \<Rightarrow> bytes \<Rightarrow> int option \<Rightarrow> int" where
  "bitpos_result one end_opt bs found =
     (case found of
        Some i \<Rightarrow> i
      | None \<Rightarrow> if \<not> one \<and> end_opt = None then int (length bs * 8) else - 1)"

definition byte_bitpos_range :: "bytes \<Rightarrow> bool \<Rightarrow> int option \<Rightarrow> int option \<Rightarrow> int" where
  "byte_bitpos_range bs one start_opt end_opt =
     (case redis_range (length bs) start_opt end_opt of
        None \<Rightarrow> - 1
      | Some (first, last_index) \<Rightarrow>
          bitpos_result one end_opt bs (bitpos_loop one (\<lambda>_. - 1) first (take (last_index + 1 - first) (drop first bs))))"

definition bitpos_range :: "bytes \<Rightarrow> bool \<Rightarrow> int option \<Rightarrow> int option \<Rightarrow> int" where
  "bitpos_range bs one start_opt end_opt =
     (case bit_range (min (length bs * 8) usize_max) start_opt end_opt of
        None \<Rightarrow> - 1
      | Some (first, last_index) \<Rightarrow>
          bitpos_result one end_opt bs
            (bitpos_loop one (\<lambda>i. bit_range_mask i first last_index) (first div 8)
               (drop (first div 8) (take (last_index div 8 + 1) bs))))"

section \<open>Writing\<close>

datatype bit_error = Bit_offset_out_of_range | String_exceeds_maximum

definition resize_bitmap :: "bytes \<Rightarrow> nat \<Rightarrow> bit_error + bytes" where
  "resize_bitmap bs required_bytes =
     (if required_bytes \<le> length bs then Inr bs
      else if required_bytes > MAX_BULK_STRING_BYTES then Inl String_exceeds_maximum
      else Inr (bs @ replicate (required_bytes - length bs) (CHR 0x00)))"

definition put_bit :: "nat \<Rightarrow> bool \<Rightarrow> bytes \<Rightarrow> bytes" where
  "put_bit offset one bs =
     (let byte_index = offset div 8;
          bit_mask = push_bit (7 - offset mod 8) 1;
          byte = byte_word (bs ! byte_index)
      in bs[byte_index := word_byte (if one then byte OR bit_mask else byte AND NOT bit_mask)])"

definition set_bit_mutation :: "nat \<Rightarrow> bool \<Rightarrow> bytes \<Rightarrow> bit_error + (nat \<times> bytes)" where
  "set_bit_mutation offset one bs =
     (case (if length bs \<le> offset div 8 then resize_bitmap bs (saturating_add (offset div 8) 1) else Inr bs) of
        Inl e \<Rightarrow> Inl e
      | Inr bs \<Rightarrow>
          (let old = (if byte_word (bs ! (offset div 8)) AND push_bit (7 - offset mod 8) 1 \<noteq> 0 then 1 else 0)
           in Inr (old, put_bit offset one bs)))"

datatype bit_operation = Bit_And | Bit_Or | Bit_Xor | Bit_Not

definition bit_operate :: "bit_operation \<Rightarrow> 8 word \<Rightarrow> 8 word \<Rightarrow> 8 word" where
  "bit_operate op out byte =
     (case op of Bit_And \<Rightarrow> out AND byte | Bit_Or \<Rightarrow> out OR byte | Bit_Xor \<Rightarrow> out XOR byte | Bit_Not \<Rightarrow> out)"

definition combine_bitop :: "bytes \<Rightarrow> bytes \<Rightarrow> bit_operation \<Rightarrow> nat \<Rightarrow> bit_error + bytes" where
  "combine_bitop out source op source_index =
     (if source_index = 0
      then (case resize_bitmap out (length source) of Inl e \<Rightarrow> Inl e | Inr _ \<Rightarrow> Inr source)
      else (case resize_bitmap out (max (length out) (length source)) of
          Inl e \<Rightarrow> Inl e
        | Inr out \<Rightarrow>
            Inr (map (\<lambda>i. word_byte (bit_operate op (byte_word (out ! i)) (byte_at_or_zero source i))) [0..<length out])))"

fun combine_all :: "bit_operation \<Rightarrow> nat \<Rightarrow> bytes list \<Rightarrow> bytes \<Rightarrow> bit_error + bytes" where
  "combine_all op i [] out = Inr out"
| "combine_all op i (source # sources) out =
     (case combine_bitop out source op i of Inl e \<Rightarrow> Inl e | Inr out \<Rightarrow> combine_all op (i + 1) sources out)"

text \<open>The bytes that BITOP stores, from the strings of its source keys.\<close>

definition bitop_value :: "bit_operation \<Rightarrow> bytes list \<Rightarrow> bit_error + bytes" where
  "bitop_value op sources =
     (case combine_all op 0 sources [] of
        Inl e \<Rightarrow> Inl e
      | Inr out \<Rightarrow> Inr (if op = Bit_Not then map (\<lambda>c. word_byte (NOT (byte_word c))) out else out))"

section \<open>Bit fields\<close>

definition read_bits_value :: "bytes \<Rightarrow> nat \<Rightarrow> nat \<Rightarrow> u64" where
  "read_bits_value bs offset width =
     foldl (\<lambda>val bit_idx. push_bit 1 val OR ucast (get_bit_of bs (offset + bit_idx))) 0 [0..<width]"

definition read_bits_from :: "bytes \<Rightarrow> nat \<Rightarrow> nat \<Rightarrow> bool \<Rightarrow> bit_error + int" where
  "read_bits_from bs offset width is_signed =
     (case checked_add offset width of
        None \<Rightarrow> Inl Bit_offset_out_of_range
      | Some _ \<Rightarrow>
          (let val = read_bits_value bs offset width
           in Inr (if is_signed \<and> width = 64 then sint val
                   else if is_signed \<and> val AND push_bit (width - 1) 1 \<noteq> 0 then sint (val - push_bit width 1)
                   else sint val)))"

definition write_bits_into :: "bytes \<Rightarrow> nat \<Rightarrow> nat \<Rightarrow> int \<Rightarrow> bit_error + bytes" where
  "write_bits_into bs offset width val =
     (case checked_add offset width of
        None \<Rightarrow> Inl Bit_offset_out_of_range
      | Some required_bits \<Rightarrow>
          (case resize_bitmap bs (saturating_add required_bits 7 div 8) of
             Inl e \<Rightarrow> Inl e
           | Inr bs \<Rightarrow>
               (let field_mask = (if width = 64 then - 1 else push_bit width 1 - 1);
                    val = (word_of_int val :: u64) AND field_mask
                in Inr (foldl (\<lambda>bs bit_idx.
                     put_bit (offset + bit_idx) (drop_bit (width - bit_idx - 1) val AND 1 = 1) bs) bs [0..<width]))))"

section \<open>BITFIELD\<close>

record bit_type =
  bt_signed :: bool
  bt_width :: nat

datatype bit_overflow = Overflow_Wrap | Overflow_Sat | Overflow_Fail

datatype bitfield_op =
    Bit_Get bit_type nat
  | Bit_Set bit_type nat int bit_overflow
  | Bit_IncrBy bit_type nat int bit_overflow

definition type_min :: "bit_type \<Rightarrow> int" where
  "type_min ty = (if bt_signed ty then - (2 ^ (bt_width ty - 1)) else 0)"

definition type_max :: "bit_type \<Rightarrow> int" where
  "type_max ty = (if bt_signed ty then 2 ^ (bt_width ty - 1) - 1 else 2 ^ bt_width ty - 1)"

text \<open>The code computes with 128-bit integers, which hold every sum of two 64-bit integers.\<close>

definition apply_overflow :: "int \<Rightarrow> bit_type \<Rightarrow> bit_overflow \<Rightarrow> int option" where
  "apply_overflow val ty overflow =
     (let modulus = 2 ^ bt_width ty
      in case overflow of
           Overflow_Fail \<Rightarrow> if val < type_min ty \<or> val > type_max ty then None else Some val
         | Overflow_Sat \<Rightarrow> Some (max (type_min ty) (min val (type_max ty)))
         | Overflow_Wrap \<Rightarrow>
             (let wrapped = val mod modulus
              in Some (if bt_signed ty \<and> wrapped > type_max ty then wrapped - modulus else wrapped)))"

definition store_field :: "bytes \<Rightarrow> bit_type \<Rightarrow> nat \<Rightarrow> int \<Rightarrow> int \<Rightarrow> bit_error + (bytes \<times> bool)" where
  "store_field bs ty offset old new =
     (case write_bits_into bs offset (bt_width ty) new of
        Inl e \<Rightarrow> Inl e
      | Inr bs' \<Rightarrow> Inr (bs', old \<noteq> new \<or> length bs' \<noteq> length bs))"

fun execute_op :: "bytes \<Rightarrow> bitfield_op \<Rightarrow> bit_error + (bytes \<times> frame \<times> bool)" where
  "execute_op bs (Bit_Get ty offset) =
     (case read_bits_from bs offset (bt_width ty) (bt_signed ty) of
        Inl e \<Rightarrow> Inl e
      | Inr val \<Rightarrow> Inr (bs, Integer val, False))"
| "execute_op bs (Bit_Set ty offset val overflow) =
     (case read_bits_from bs offset (bt_width ty) (bt_signed ty) of
        Inl e \<Rightarrow> Inl e
      | Inr old \<Rightarrow>
          (case apply_overflow val ty overflow of
             None \<Rightarrow> Inr (bs, Null, False)
           | Some new \<Rightarrow>
               (case store_field bs ty offset old new of
                  Inl e \<Rightarrow> Inl e
                | Inr (bs', changed) \<Rightarrow> Inr (bs', Integer old, changed))))"
| "execute_op bs (Bit_IncrBy ty offset increment overflow) =
     (case read_bits_from bs offset (bt_width ty) (bt_signed ty) of
        Inl e \<Rightarrow> Inl e
      | Inr old \<Rightarrow>
          (case apply_overflow (old + increment) ty overflow of
             None \<Rightarrow> Inr (bs, Null, False)
           | Some new \<Rightarrow>
               (case store_field bs ty offset old new of
                  Inl e \<Rightarrow> Inl e
                | Inr (bs', changed) \<Rightarrow> Inr (bs', Integer new, changed))))"

fun execute_ops :: "bytes \<Rightarrow> bitfield_op list \<Rightarrow> bit_error + (bytes \<times> frame list \<times> bool)" where
  "execute_ops bs [] = Inr (bs, [], False)"
| "execute_ops bs (op # ops) =
     (case execute_op bs op of
        Inl e \<Rightarrow> Inl e
      | Inr (bs', reply, changed) \<Rightarrow>
          (case execute_ops bs' ops of
             Inl e \<Rightarrow> Inl e
           | Inr (bs'', replies, changed') \<Rightarrow> Inr (bs'', reply # replies, changed \<or> changed')))"

end
