(* ===== verification/Bits_Properties.thy ===== *)
theory Bits_Properties
  imports String_Bits
begin

text \<open>
  A string as a sequence of bits, and what the bit operations do to it: BITFIELD reads back what it wrote and leaves the other
  bits alone, counting and finding bits under byte masks agrees with counting and finding them one by one, BITOP combines bit
  by bit.
\<close>

lemma byte_word_word_byte [simp]: "byte_word (word_byte w) = w"
  using unsigned_less [of w, where ?'a = nat] by (simp add: byte_word_def word_byte_def of_char_of)

lemma word_byte_byte_word [simp]: "word_byte (byte_word c) = c"
  using of_char_less_256 [of c] by (simp add: byte_word_def word_byte_def unat_of_nat)

definition string_bit :: "bytes \<Rightarrow> nat \<Rightarrow> bool" where
  "string_bit bs i = bit (byte_at_or_zero bs (i div 8)) (7 - i mod 8)"

lemma string_bit_beyond: "length bs * 8 \<le> i \<Longrightarrow> \<not> string_bit bs i"
proof -
  assume "length bs * 8 \<le> i"
  then have "\<not> i div 8 < length bs" by simp
  then show ?thesis by (simp only: string_bit_def byte_at_or_zero_def if_False bit_0_eq bot_apply bot_bool_def not_False_eq_True)
qed

lemma get_bit_of_bit: "get_bit_of bs i = of_bool (string_bit bs i)"
proof -
  have "w AND 1 = of_bool (bit w 0)" for w :: "8 word"
    by (rule bit_word_eqI) (auto simp: bit_simps)
  then show ?thesis by (simp add: get_bit_of_def string_bit_def bit_simps)
qed

text \<open>Two strings of the same length with the same bits are equal.\<close>

lemma string_eqI:
  assumes "length bs = length cs" "\<And>i. i < length bs * 8 \<Longrightarrow> string_bit bs i = string_bit cs i"
  shows "bs = cs"
proof (rule nth_equalityI)
  fix j assume j: "j < length bs"
  have "byte_word (bs ! j) = byte_word (cs ! j)"
  proof (rule bit_word_eqI)
    fix n assume "n < LENGTH(8)"
    then have n: "n < 8" by simp
    have "(j * 8 + m) mod 8 = m \<and> (j * 8 + m) div 8 = j" if "m < 8" for m using that by simp
    from this [of "7 - n"] have "(j * 8 + (7 - n)) div 8 = j" "7 - (j * 8 + (7 - n)) mod 8 = n"
      "j * 8 + (7 - n) < length bs * 8"
      using j n by auto
    then show "bit (byte_word (bs ! j)) n = bit (byte_word (cs ! j)) n"
      using assms j by (metis (no_types, lifting) byte_at_or_zero_def string_bit_def)
  qed
  then show "bs ! j = cs ! j" by (metis word_byte_byte_word)
qed (use assms(1) in simp)

section \<open>Single bits\<close>

lemma length_put_bit [simp]: "length (put_bit offset one bs) = length bs"
  by (simp add: put_bit_def Let_def)

lemma put_bit_bit:
  assumes "offset < length bs * 8"
  shows "string_bit (put_bit offset one bs) i = (if i = offset then one else string_bit bs i)"
proof (cases "i div 8 = offset div 8")
  case True
  have "i mod 8 = offset mod 8" if "7 - i mod 8 = 7 - offset mod 8"
    using that mod_less_divisor [of 8 i] mod_less_divisor [of 8 offset] by linarith
  then have i: "i = offset \<longleftrightarrow> 7 - i mod 8 = 7 - offset mod 8"
    using True by (metis div_mult_mod_eq)
  have "bit (if one then w OR push_bit k 1 else w AND NOT (push_bit k 1)) n = (if n = k then one else bit w n)"
    if "n < 8" "k < 8" for w :: "8 word" and n k
    using that by (auto simp: bit_simps)
  then show ?thesis using True assms i by (auto simp: string_bit_def byte_at_or_zero_def put_bit_def Let_def)
next
  case False
  then have "i \<noteq> offset" by auto
  then show ?thesis using False by (simp add: string_bit_def byte_at_or_zero_def put_bit_def Let_def)
qed

lemma resize_bitmap_bits:
  assumes "resize_bitmap bs n = Inr bs'"
  shows "string_bit bs' i = string_bit bs i" "length bs' = max n (length bs)"
  using assms by (auto simp: resize_bitmap_def string_bit_def byte_at_or_zero_def nth_append byte_word_def split: if_splits)

section \<open>Fields\<close>

lemma put_bits_length: "length (foldl (\<lambda>bs k. put_bit (offset + k) (f k) bs) bs [0..<n]) = length bs"
  by (induction n) simp_all

lemma put_bits_bit:
  assumes "offset + n \<le> length bs * 8"
  shows "string_bit (foldl (\<lambda>bs k. put_bit (offset + k) (f k) bs) bs [0..<n]) i =
    (if offset \<le> i \<and> i < offset + n then f (i - offset) else string_bit bs i)"
  using assms
proof (induction n)
  case (Suc n)
  then show ?case by (auto simp: put_bit_bit put_bits_length)
qed auto

lemma read_bits_value_bit:
  assumes "width \<le> 64"
  shows "bit (read_bits_value bs offset width) k \<longleftrightarrow> k < width \<and> string_bit bs (offset + (width - 1 - k))"
  using assms
proof (induction width arbitrary: k)
  case (Suc n)
  let ?v = "read_bits_value bs offset n"
  have "read_bits_value bs offset (Suc n) = push_bit 1 ?v OR ucast (of_bool (string_bit bs (offset + n)) :: 8 word)"
    by (simp only: read_bits_value_def upt_Suc_append foldl_append foldl.simps get_bit_of_bit)
  then have v: "bit (read_bits_value bs offset (Suc n)) j \<longleftrightarrow>
      j < 64 \<and> 1 \<le> j \<and> bit ?v (j - 1) \<or> j = 0 \<and> string_bit bs (offset + n)" for j
    by (simp only: bit_or_iff bit_push_bit_iff) (auto simp: bit_simps possible_bit_word)
  show ?case
  proof (cases k)
    case 0
    then show ?thesis by (simp add: v)
  next
    case (Suc j)
    have "Suc n - 1 - k = n - 1 - j" using Suc by simp
    moreover have "bit (read_bits_value bs offset (Suc n)) k \<longleftrightarrow> bit ?v j"
      using Suc Suc.prems Suc.IH [of j] by (auto simp: v)
    ultimately show ?thesis using Suc Suc.IH [of j] Suc.prems by auto
  qed
qed (simp add: read_bits_value_def)

definition field_mask :: "nat \<Rightarrow> u64" where
  "field_mask width = (if width = 64 then - 1 else push_bit width 1 - 1)"

lemma field_mask_bit: "width \<le> 64 \<Longrightarrow> bit (field_mask width) k \<longleftrightarrow> k < width"
proof -
  assume "width \<le> 64"
  then have "field_mask width = mask width"
    by (auto simp: field_mask_def mask_eq_exp_minus_1 push_bit_eq_mult)
  then show ?thesis using \<open>width \<le> 64\<close> by (auto simp: bit_mask_iff)
qed

lemma and_field_mask: "width \<le> 64 \<Longrightarrow> w AND field_mask width = take_bit width w"
  by (rule bit_word_eqI) (auto simp: bit_simps field_mask_bit)

lemma write_bits_into_bits:
  assumes "write_bits_into bs offset width v = Inr bs'" "width \<le> 64" "length bs \<le> MAX_BULK_STRING_BYTES"
  shows "length bs' = max (length bs) ((offset + width + 7) div 8)"
    and "string_bit bs' i = (if offset \<le> i \<and> i < offset + width then bit (word_of_int v :: u64) (width - 1 - (i - offset)) else string_bit bs i)"
proof -
  obtain cs where r: "offset + width \<le> usize_max" "resize_bitmap bs (saturating_add (offset + width) 7 div 8) = Inr cs"
    and w: "bs' = foldl (\<lambda>bs k. put_bit (offset + k) (drop_bit (width - k - 1) (word_of_int v AND field_mask width) AND 1 = (1 :: u64)) bs) cs [0..<width]"
    using assms(1) by (auto simp: write_bits_into_def field_mask_def Let_def checked_add_def split: option.splits sum.splits if_splits)
  have n: "saturating_add (offset + width) 7 div 8 = (offset + width + 7) div 8"
    using r(2) assms(3) by (auto simp: resize_bitmap_def saturating_add_def limit_defs min_def split: if_splits)
  show "length bs' = max (length bs) ((offset + width + 7) div 8)"
    using resize_bitmap_bits(2) [OF r(2)] by (simp add: w put_bits_length n)
  show "string_bit bs' i = (if offset \<le> i \<and> i < offset + width then bit (word_of_int v :: u64) (width - 1 - (i - offset)) else string_bit bs i)"
  proof -
    have "offset + width \<le> length cs * 8" using resize_bitmap_bits(2) [OF r(2)] n by simp
    then have b: "string_bit bs' i = (if offset \<le> i \<and> i < offset + width
        then drop_bit (width - (i - offset) - 1) (word_of_int v AND field_mask width) AND 1 = (1 :: u64) else string_bit cs i)"
      using put_bits_bit [of offset width cs] w by simp
    have one: "x AND 1 = 1 \<longleftrightarrow> bit x 0" for x :: u64 by (metis and_one_eq bit_0 odd_iff_mod_2_eq_one)
    show ?thesis
      using b resize_bitmap_bits(1) [OF r(2)] assms(2) by (auto simp: one bit_drop_bit_eq bit_and_iff field_mask_bit)
  qed
qed

text \<open>The integer that a field of some type stands for.\<close>

definition field_of :: "bool \<Rightarrow> nat \<Rightarrow> u64 \<Rightarrow> int" where
  "field_of is_signed width val =
     (if is_signed \<and> width = 64 then sint val
      else if is_signed \<and> val AND push_bit (width - 1) 1 \<noteq> 0 then sint (val - push_bit width 1)
      else sint val)"

definition valid_type :: "bit_type \<Rightarrow> bool" where
  "valid_type ty \<longleftrightarrow> 0 < bt_width ty \<and> bt_width ty \<le> (if bt_signed ty then 64 else 63)"

lemma read_bits_from_field:
  "offset + width \<le> usize_max \<Longrightarrow> read_bits_from bs offset width is_signed = Inr (field_of is_signed width (read_bits_value bs offset width))"
  by (simp add: read_bits_from_def checked_add_def field_of_def Let_def)

lemma sint_of_int: "- (2 ^ 63) \<le> z \<Longrightarrow> z < 2 ^ 63 \<Longrightarrow> sint (word_of_int z :: u64) = z"
  by (simp add: signed_word_eqI sint_sbintrunc' signed_take_bit_int_eq_self)

lemma sint_small: "uint (val :: u64) < 2 ^ 63 \<Longrightarrow> sint val = uint val"
  using sint_of_int [of "uint val"] unsigned_greater_eq [of val, where ?'a = int] by simp

lemma and_bit_zero: "val AND 2 ^ n = 0 \<longleftrightarrow> \<not> bit val n" if "n < 64" for val :: u64
proof
  assume "val AND 2 ^ n = 0"
  then have "\<not> bit (val AND 2 ^ n) n" by simp
  then show "\<not> bit val n" using that by (simp add: bit_and_iff bit_exp_iff)
next
  assume "\<not> bit val n"
  then show "val AND 2 ^ n = 0" by (intro bit_word_eqI) (auto simp: bit_and_iff bit_exp_iff)
qed

lemma take_bit_uint: "take_bit width val = val \<Longrightarrow> uint val < 2 ^ width" for val :: u64
  by (metis take_bit_int_less_exp unsigned_take_bit_eq)

lemma byte_top_bit_iff: "bit u n \<longleftrightarrow> 2 ^ n \<le> u" if "0 \<le> u" "u < 2 * 2 ^ n" for u :: int
proof -
  have "u div 2 ^ n = (if 2 ^ n \<le> u then 1 else 0)"
  proof (cases "2 ^ n \<le> u")
    case True
    then have "u div 2 ^ n = (u - 2 ^ n) div 2 ^ n + 1" by (simp add: div_pos_geq)
    then show ?thesis using True that by (simp add: div_pos_pos_trivial)
  qed (use that in \<open>simp add: div_pos_pos_trivial\<close>)
  then show ?thesis by (simp add: bit_iff_odd)
qed

lemma field_of_in_type:
  assumes "valid_type ty" "take_bit (bt_width ty) val = val"
  shows "type_min ty \<le> field_of (bt_signed ty) (bt_width ty) val \<and> field_of (bt_signed ty) (bt_width ty) val \<le> type_max ty \<and>
    field_of (bt_signed ty) (bt_width ty) val mod 2 ^ bt_width ty = uint val"
proof -
  let ?w = "bt_width ty" and ?u = "uint val"
  have u: "0 \<le> ?u" "?u < 2 ^ ?w" using take_bit_uint [OF assms(2)] by simp_all
  have w: "0 < ?w" "?w \<le> 64" using assms(1) by (auto simp: valid_type_def split: if_splits)
  then have split: "(2 :: int) ^ ?w = 2 * 2 ^ (?w - 1)" by (cases ?w) simp_all
  have top: "bit val (?w - 1) \<longleftrightarrow> 2 ^ (?w - 1) \<le> ?u"
  proof -
    have "?w - 1 < 64" using w by simp
    then show ?thesis using byte_top_bit_iff [of ?u "?w - 1"] u split by (simp add: bit_uint_iff)
  qed
  have p: "(2 :: int) ^ (?w - 1) \<le> 2 ^ 63" using w by (intro power_increasing) auto
  show ?thesis
  proof (cases "bt_signed ty \<and> ?w \<noteq> 64 \<and> 2 ^ (?w - 1) \<le> ?u")
    case True
    have "val - push_bit ?w 1 = word_of_int (?u - 2 ^ ?w)" by (simp add: push_bit_eq_mult)
    moreover have "sint (word_of_int (?u - 2 ^ ?w) :: u64) = ?u - 2 ^ ?w"
      using u split p True by (intro sint_of_int) auto
    ultimately have "field_of (bt_signed ty) ?w val = ?u - 2 ^ ?w"
      using True w top by (simp add: field_of_def and_bit_zero)
    then show ?thesis using True u split by (simp add: type_min_def type_max_def)
  next
    case False
    have f: "field_of (bt_signed ty) ?w val = sint val"
      using False w top by (auto simp: field_of_def and_bit_zero)
    show ?thesis
    proof (cases "bt_signed ty \<and> ?w = 64")
      case True
      have "- (2 ^ 63) \<le> sint val" "sint val < 2 ^ 63" using sint_range_size [of val] by (simp_all add: word_size)
      moreover have "sint val mod 2 ^ 64 = ?u" by (simp add: uint_sint take_bit_eq_mod)
      ultimately show ?thesis using True f by (simp add: type_min_def type_max_def)
    next
      case False
      have "(2 :: int) ^ ?w \<le> 2 ^ 63" if "\<not> bt_signed ty"
        using that assms(1) by (intro power_increasing) (auto simp: valid_type_def)
      then have "?u < 2 ^ 63" using False \<open>\<not> (bt_signed ty \<and> ?w \<noteq> 64 \<and> _)\<close> u p by force
      then have "sint val = ?u" by (rule sint_small)
      moreover have "- (2 ^ (?w - 1)) \<le> ?u" using u(1) by (rule order_trans [rotated]) simp
      ultimately show ?thesis
        using False \<open>\<not> (bt_signed ty \<and> ?w \<noteq> 64 \<and> _)\<close> f u by (auto simp: type_min_def type_max_def)
    qed
  qed
qed

text \<open>A field has one integer per content: equal modulo the width within the type is equal.\<close>

lemma type_range_unique:
  assumes "valid_type ty" "type_min ty \<le> a" "a \<le> type_max ty" "type_min ty \<le> b" "b \<le> type_max ty"
    and "a mod 2 ^ bt_width ty = b mod 2 ^ bt_width ty"
  shows "a = b"
proof -
  have split: "(2 :: int) ^ bt_width ty = 2 * 2 ^ (bt_width ty - 1)"
    using assms(1) by (cases "bt_width ty") (auto simp: valid_type_def)
  have "\<bar>a - b\<bar> < 2 ^ bt_width ty" using assms(2-5) split by (auto simp: type_min_def type_max_def split: if_splits)
  moreover have "2 ^ bt_width ty dvd a - b" using assms(6) by (simp add: mod_eq_dvd_iff)
  ultimately show ?thesis using zdvd_not_zless [of "\<bar>a - b\<bar>" "2 ^ bt_width ty"] by fastforce
qed

lemma take_bit_read_bits_value [simp]: "width \<le> 64 \<Longrightarrow> take_bit width (read_bits_value bs offset width) = read_bits_value bs offset width"
  by (rule bit_word_eqI) (auto simp: bit_simps read_bits_value_bit)

lemma valid_width: "valid_type ty \<Longrightarrow> 0 < bt_width ty \<and> bt_width ty \<le> 64"
  by (auto simp: valid_type_def split: if_splits)

lemma uint_take_bit_of_int: "uint (take_bit n (word_of_int v :: u64)) = v mod 2 ^ n" if "n \<le> 64"
proof -
  have "uint (take_bit n (word_of_int v :: u64)) = take_bit n (take_bit 64 v)"
    by (simp only: unsigned_take_bit_eq uint_word_of_int_eq len_num1 len_num0 len_bit0) simp
  then show ?thesis using that by (simp add: take_bit_take_bit min_def) (simp add: take_bit_eq_mod)
qed

lemma read_after_write:
  assumes "write_bits_into bs offset (bt_width ty) v = Inr bs'" "valid_type ty" "length bs \<le> MAX_BULK_STRING_BYTES"
    and "type_min ty \<le> v" "v \<le> type_max ty"
  shows "read_bits_from bs' offset (bt_width ty) (bt_signed ty) = Inr v"
proof -
  let ?w = "bt_width ty"
  have w: "0 < ?w" "?w \<le> 64" using valid_width [OF assms(2)] by simp_all
  have o: "offset + ?w \<le> usize_max" using assms(1) by (auto simp: write_bits_into_def checked_add_def split: if_splits)
  have r: "read_bits_value bs' offset ?w = take_bit ?w (word_of_int v)"
  proof (rule bit_word_eqI)
    fix n assume "n < LENGTH(64)"
    then show "bit (read_bits_value bs' offset ?w) n = bit (take_bit ?w (word_of_int v :: u64)) n"
      using w by (auto simp: read_bits_value_bit bit_take_bit_iff write_bits_into_bits(2) [OF assms(1) w(2) assms(3)])
  qed
  let ?x = "field_of (bt_signed ty) ?w (take_bit ?w (word_of_int v))"
  have "type_min ty \<le> ?x \<and> ?x \<le> type_max ty \<and> ?x mod 2 ^ ?w = uint (take_bit ?w (word_of_int v :: u64))"
    by (rule field_of_in_type [OF assms(2)]) simp
  then have "?x = v"
    using type_range_unique [OF assms(2) _ _ assms(4,5), of ?x] w by (simp add: uint_take_bit_of_int)
  then show ?thesis using read_bits_from_field [OF o] r by simp
qed

lemma read_in_type:
  assumes "read_bits_from bs offset (bt_width ty) (bt_signed ty) = Inr old" "valid_type ty"
  shows "type_min ty \<le> old \<and> old \<le> type_max ty \<and> take_bit (bt_width ty) (word_of_int old) = read_bits_value bs offset (bt_width ty)"
proof -
  let ?w = "bt_width ty" and ?val = "read_bits_value bs offset (bt_width ty)"
  have w: "?w \<le> 64" using valid_width [OF assms(2)] by simp
  have o: "offset + ?w \<le> usize_max" using assms(1) by (auto simp: read_bits_from_def checked_add_def split: if_splits)
  then have old: "old = field_of (bt_signed ty) ?w ?val" using assms(1) read_bits_from_field [OF o] by simp
  have f: "type_min ty \<le> old \<and> old \<le> type_max ty \<and> old mod 2 ^ ?w = uint ?val"
    unfolding old by (rule field_of_in_type [OF assms(2)]) (simp add: w)
  then have "uint (take_bit ?w (word_of_int old :: u64)) = uint ?val" by (simp add: uint_take_bit_of_int [OF w])
  then show ?thesis using f by (simp add: word_uint_eqI)
qed

lemma write_same:
  assumes "read_bits_from bs offset (bt_width ty) (bt_signed ty) = Inr old" "valid_type ty" "length bs \<le> MAX_BULK_STRING_BYTES"
    and "write_bits_into bs offset (bt_width ty) old = Inr bs'" "length bs' = length bs"
  shows "bs' = bs"
proof (rule string_eqI [OF assms(5)])
  fix i
  let ?w = "bt_width ty"
  have w: "?w \<le> 64" using valid_width [OF assms(2)] by simp
  have "bit (word_of_int old :: u64) k = bit (read_bits_value bs offset ?w) k" if "k < ?w" for k
    using read_in_type [OF assms(1,2)] that by (metis bit_take_bit_iff)
  then show "string_bit bs' i = string_bit bs i"
    by (auto simp: write_bits_into_bits(2) [OF assms(4) w assms(3)] read_bits_value_bit [OF w])
qed

lemma apply_overflow_spec:
  assumes "valid_type ty" "apply_overflow v ty overflow = Some new"
  shows "type_min ty \<le> new \<and> new \<le> type_max ty \<and>
    (type_min ty \<le> v \<and> v \<le> type_max ty \<longrightarrow> new = v) \<and>
    (overflow = Overflow_Wrap \<longrightarrow> new mod 2 ^ bt_width ty = v mod 2 ^ bt_width ty) \<and>
    (overflow = Overflow_Sat \<longrightarrow> new = max (type_min ty) (min v (type_max ty)))"
proof -
  let ?m = "(2 :: int) ^ bt_width ty"
  have split: "?m = 2 * 2 ^ (bt_width ty - 1)" "(0 :: int) < 2 ^ (bt_width ty - 1)"
    using assms(1) by (cases "bt_width ty") (auto simp: valid_type_def)
  have order: "type_min ty \<le> type_max ty" using split by (simp add: type_min_def type_max_def)
  show ?thesis
  proof (cases overflow)
    case Overflow_Wrap
    define x where "x = v mod ?m"
    have m: "0 \<le> x" "x < ?m" by (simp_all add: x_def)
    have new: "new = (if bt_signed ty \<and> x > type_max ty then x - ?m else x)"
      using assms(2) Overflow_Wrap by (auto simp: apply_overflow_def Let_def x_def)
    have r: "type_min ty \<le> new" "new \<le> type_max ty"
      using m split unfolding new type_min_def type_max_def by (cases "bt_signed ty"; simp; linarith)+
    have c: "new mod ?m = v mod ?m" by (simp add: new x_def)
    have "new = v" if "type_min ty \<le> v" "v \<le> type_max ty" using type_range_unique [OF assms(1) r that c] .
    then show ?thesis using r c by (simp add: Overflow_Wrap)
  qed (use assms(2) order in \<open>auto simp: apply_overflow_def Let_def split: if_splits\<close>)
qed

text \<open>C28: BITFIELD INCRBY, and SET which writes a given value, keep to the type of the field, at every width up to 64 bits, signed and
  unsigned: what is read is always in the range of the type; the new value is the sum when it fits, and otherwise the sum modulo
  the width (WRAP), the nearest bound (SAT) or nothing at all (FAIL); reading the field again gives the new value; no
  bit outside the field changes; and the string is reported as unchanged only if it is unchanged.\<close>

theorem bitfield_increment_exact:
  assumes "execute_op bs (Bit_IncrBy ty offset increment overflow) = Inr (bs', reply, changed)"
    and "valid_type ty" "length bs \<le> MAX_BULK_STRING_BYTES"
  shows "\<exists>old. read_bits_from bs offset (bt_width ty) (bt_signed ty) = Inr old \<and> type_min ty \<le> old \<and> old \<le> type_max ty \<and>
    (if overflow = Overflow_Fail \<and> \<not> (type_min ty \<le> old + increment \<and> old + increment \<le> type_max ty)
     then reply = Null \<and> bs' = bs \<and> \<not> changed
     else (\<exists>new. reply = Integer new \<and> type_min ty \<le> new \<and> new \<le> type_max ty \<and>
       (type_min ty \<le> old + increment \<and> old + increment \<le> type_max ty \<longrightarrow> new = old + increment) \<and>
       (overflow = Overflow_Wrap \<longrightarrow> new mod 2 ^ bt_width ty = (old + increment) mod 2 ^ bt_width ty) \<and>
       (overflow = Overflow_Sat \<longrightarrow> new = max (type_min ty) (min (old + increment) (type_max ty))) \<and>
       read_bits_from bs' offset (bt_width ty) (bt_signed ty) = Inr new \<and>
       (\<forall>i. \<not> (offset \<le> i \<and> i < offset + bt_width ty) \<longrightarrow> string_bit bs' i = string_bit bs i) \<and>
       (\<not> changed \<longrightarrow> bs' = bs)))"
proof -
  obtain old where old: "read_bits_from bs offset (bt_width ty) (bt_signed ty) = Inr old"
    using assms(1) by (auto split: sum.splits)
  have r: "type_min ty \<le> old \<and> old \<le> type_max ty" using read_in_type [OF old assms(2)] by blast
  show ?thesis
  proof (cases "apply_overflow (old + increment) ty overflow")
    case None
    then have "overflow = Overflow_Fail \<and> \<not> (type_min ty \<le> old + increment \<and> old + increment \<le> type_max ty)"
      by (auto simp: apply_overflow_def Let_def split: bit_overflow.splits if_splits)
    then show ?thesis using None old r assms(1) by auto
  next
    case (Some new)
    note n = apply_overflow_spec [OF assms(2) Some]
    have nf: "\<not> (overflow = Overflow_Fail \<and> \<not> (type_min ty \<le> old + increment \<and> old + increment \<le> type_max ty))"
      using Some by (auto simp: apply_overflow_def split: if_splits)
    have w: "write_bits_into bs offset (bt_width ty) new = Inr bs'" "reply = Integer new" "changed \<longleftrightarrow> old \<noteq> new \<or> length bs' \<noteq> length bs"
      using assms(1) old Some by (auto simp: store_field_def split: sum.splits)
    have "bs' = bs" if "\<not> changed"
      using write_same [OF old assms(2,3)] w that by blast
    moreover have "string_bit bs' i = string_bit bs i" if "\<not> (offset \<le> i \<and> i < offset + bt_width ty)" for i
      using write_bits_into_bits(2) [OF w(1) _ assms(3), of i] valid_width [OF assms(2)] that by auto
    moreover have "read_bits_from bs' offset (bt_width ty) (bt_signed ty) = Inr new"
      using read_after_write [OF w(1) assms(2,3)] n by blast
    ultimately show ?thesis using old r n nf w(2) by auto
  qed
qed

definition sample_type :: bit_type where
  "sample_type = \<lparr>bt_signed = True, bt_width = 3\<rparr>"

theorem bitfield_increment_exact_witness:
  "\<exists>bs' reply changed. execute_op [CHR 0x60] (Bit_IncrBy sample_type 0 2 Overflow_Wrap) = Inr (bs', reply, changed) \<and>
     read_bits_from bs' 0 3 True = Inr (- 3) \<and> reply = Integer (- 3)"
proof -
  have v: "read_bits_value [CHR 0x60] 0 3 = 3"
    by (simp add: read_bits_value_def get_bit_of_def byte_at_or_zero_def byte_word_def upt_rec)
  have old: "read_bits_from [CHR 0x60] 0 3 True = Inr 3"
    by (simp add: read_bits_from_def v checked_add_def)
  have new: "apply_overflow 5 sample_type Overflow_Wrap = Some (- 3)"
    by (simp add: apply_overflow_def sample_type_def type_max_def)
  have "\<exists>bs'. write_bits_into [CHR 0x60] 0 3 (- 3) = Inr bs'"
    by (simp add: write_bits_into_def checked_add_def resize_bitmap_def saturating_add_def)
  then obtain bs' where w: "write_bits_into [CHR 0x60] 0 3 (- 3) = Inr bs'" by blast
  have run: "execute_op [CHR 0x60] (Bit_IncrBy sample_type 0 2 Overflow_Wrap) = Inr (bs', Integer (- 3), True)"
    using old new w by (simp add: sample_type_def store_field_def)
  have "valid_type sample_type" "length [CHR 0x60] \<le> MAX_BULK_STRING_BYTES"
    by (simp_all add: valid_type_def sample_type_def limit_defs)
  from bitfield_increment_exact [OF run this] run show ?thesis by (auto simp: sample_type_def)
qed

section \<open>Counting\<close>

lemma redis_range_bounds: "redis_range len s e = Some (a, b) \<Longrightarrow> a \<le> b \<and> b < len"
  by (auto simp: redis_range_def Let_def min_def max_def split: if_splits option.splits)

lemma mask_bit:
  assumes "a div 8 \<le> i" "i \<le> b div 8" "n < 8"
  shows "bit (bit_range_mask i a b) (7 - n) \<longleftrightarrow> a \<le> i * 8 + n \<and> i * 8 + n \<le> b"
proof -
  have "a < i * 8 + 8" "i * 8 \<le> b" using assms(1,2) by linarith+
  then show ?thesis
    using assms(3) unfolding bit_range_mask_def Let_def bit_and_iff bit_drop_bit_eq bit_push_bit_iff
    by (auto simp: possible_bit_word min_def split: if_splits)
qed

lemma count_ones_card: "count_ones w = card {n. n < 8 \<and> bit w (7 - n)}"
proof -
  have "count_ones w = card {n. n < 8 \<and> bit w n}"
    by (simp add: count_ones_def length_filter_conv_card cong: conj_cong)
  also have "\<dots> = card ((\<lambda>n. 7 - n) ` {n. n < 8 \<and> bit w (7 - n)})"
  proof (rule arg_cong [of _ _ card], rule set_eqI)
    fix x
    show "x \<in> {n. n < 8 \<and> bit w n} \<longleftrightarrow> x \<in> (\<lambda>n. 7 - n) ` {n. n < 8 \<and> bit w (7 - n)}"
      by (auto simp: image_iff intro: exI [of _ "7 - x"])
  qed
  also have "\<dots> = card {n. n < 8 \<and> bit w (7 - n)}" by (rule card_image) (auto simp: inj_on_def)
  finally show ?thesis .
qed

lemma card_block: "card {n. n < m \<and> P (b + n)} = card {k. b \<le> k \<and> k < b + m \<and> P k}" for b :: nat
proof -
  have "{k. b \<le> k \<and> k < b + m \<and> P k} = (+) b ` {n. n < m \<and> P (b + n)}"
  proof (rule set_eqI)
    fix k
    show "k \<in> {k. b \<le> k \<and> k < b + m \<and> P k} \<longleftrightarrow> k \<in> (+) b ` {n. n < m \<and> P (b + n)}"
      by (auto simp: image_iff intro!: exI [of _ "k - b"])
  qed
  then show ?thesis by (simp add: card_image)
qed

lemma card_split:
  fixes a :: nat
  assumes "a \<le> b" "b \<le> c"
  shows "card {k. a \<le> k \<and> k < c \<and> P k} = card {k. a \<le> k \<and> k < b \<and> P k} + card {k. b \<le> k \<and> k < c \<and> P k}"
proof -
  have "{k. a \<le> k \<and> k < c \<and> P k} = {k. a \<le> k \<and> k < b \<and> P k} \<union> {k. b \<le> k \<and> k < c \<and> P k}" using assms by auto
  then show ?thesis by (simp add: card_Un_disjoint disjoint_iff)
qed

lemma sum_blocks:
  assumes "lo \<le> hi"
  shows "sum_list (map (\<lambda>i. card {n. n < 8 \<and> P (i * 8 + n)}) [lo..<hi]) = card {k. lo * 8 \<le> k \<and> k < hi * 8 \<and> P k}"
  using assms
proof (induction hi rule: dec_induct)
  case (step hi)
  have "card {k. lo * 8 \<le> k \<and> k < Suc hi * 8 \<and> P k} =
      card {k. lo * 8 \<le> k \<and> k < hi * 8 \<and> P k} + card {k. hi * 8 \<le> k \<and> k < hi * 8 + 8 \<and> P k}"
    using card_split [of "lo * 8" "hi * 8" "Suc hi * 8" P] step(1) by (simp add: add.commute)
  then show ?case using step by (simp only: upt_Suc_append map_append sum_list_append list.map sum_list.Cons sum_list.Nil card_block)
qed (simp add: linorder_not_le)

lemma string_bit_block: "n < 8 \<Longrightarrow> i < length bs \<Longrightarrow> string_bit bs (i * 8 + n) = bit (byte_word (bs ! i)) (7 - n)"
  by (simp add: string_bit_def byte_at_or_zero_def)

lemma bitcount_masked:
  assumes "b < length bs * 8" "a \<le> b"
  shows "sum_list (map (\<lambda>i. count_ones (byte_word (bs ! i) AND bit_range_mask i a b)) [a div 8..<b div 8 + 1]) =
    card {k. a \<le> k \<and> k \<le> b \<and> string_bit bs k}"
proof -
  let ?P = "\<lambda>k. a \<le> k \<and> k \<le> b \<and> string_bit bs k"
  have "count_ones (byte_word (bs ! i) AND bit_range_mask i a b) = card {n. n < 8 \<and> ?P (i * 8 + n)}"
    if "i \<in> set [a div 8..<b div 8 + 1]" for i
  proof -
    have i: "a div 8 \<le> i" "i \<le> b div 8" "i < length bs" using that assms by auto
    show ?thesis
      unfolding count_ones_card bit_and_iff
      by (rule arg_cong [of _ _ card], rule Collect_cong) (use mask_bit [OF i(1,2)] string_bit_block i in auto)
  qed
  then have "sum_list (map (\<lambda>i. count_ones (byte_word (bs ! i) AND bit_range_mask i a b)) [a div 8..<b div 8 + 1]) =
      sum_list (map (\<lambda>i. card {n. n < 8 \<and> ?P (i * 8 + n)}) [a div 8..<b div 8 + 1])"
    by (intro arg_cong [of _ _ sum_list] map_cong refl)
  also have "\<dots> = card {k. a div 8 * 8 \<le> k \<and> k < (b div 8 + 1) * 8 \<and> ?P k}"
    by (rule sum_blocks) (use assms(2) in \<open>simp add: div_le_mono le_SucI\<close>)
  also have "{k. a div 8 * 8 \<le> k \<and> k < (b div 8 + 1) * 8 \<and> ?P k} = {k. ?P k}"
  proof -
    have "a div 8 * 8 \<le> a" "b < (b div 8 + 1) * 8" by simp_all
    then show ?thesis by auto
  qed
  finally show ?thesis .
qed

text \<open>BITCOUNT counts exactly the bits of its range: counting the set bits of every byte, and of the first and the last
  byte under a mask when the range is given in bits, gives the number of set positions between the two ends.\<close>

theorem bitcount_exact:
  assumes "length bs \<le> MAX_BULK_STRING_BYTES"
  shows "bitcount_range bs s e =
      (case redis_range (length bs * 8) s e of None \<Rightarrow> 0 | Some (a, b) \<Rightarrow> card {k. a \<le> k \<and> k \<le> b \<and> string_bit bs k}) \<and>
    byte_bitcount_range bs s e =
      (case redis_range (length bs) s e of None \<Rightarrow> 0 | Some (a, b) \<Rightarrow> card {k. a * 8 \<le> k \<and> k < (b + 1) * 8 \<and> string_bit bs k})"
proof
  have len: "min (length bs * 8) usize_max = length bs * 8" using assms by (simp add: limit_defs)
  show "bitcount_range bs s e =
      (case redis_range (length bs * 8) s e of None \<Rightarrow> 0 | Some (a, b) \<Rightarrow> card {k. a \<le> k \<and> k \<le> b \<and> string_bit bs k})"
    unfolding bitcount_range_def bit_range_def len using bitcount_masked redis_range_bounds
    by (auto split: option.splits)
  show "byte_bitcount_range bs s e =
      (case redis_range (length bs) s e of None \<Rightarrow> 0 | Some (a, b) \<Rightarrow> card {k. a * 8 \<le> k \<and> k < (b + 1) * 8 \<and> string_bit bs k})"
  proof (cases "redis_range (length bs) s e")
    case (Some r)
    obtain a b where r: "r = (a, b)" by force
    then have ab: "a \<le> b" "b < length bs" using Some redis_range_bounds by auto
    have "take (b + 1 - a) (drop a bs) = map (\<lambda>i. bs ! i) [a..<b + 1]"
      using ab by (intro nth_equalityI) (auto simp del: upt_Suc)
    then have "sum_list (map (\<lambda>c. count_ones (byte_word c)) (take (b + 1 - a) (drop a bs))) =
        sum_list (map (\<lambda>i. count_ones (byte_word (bs ! i))) [a..<b + 1])"
      by (simp add: comp_def)
    also have "\<dots> = sum_list (map (\<lambda>i. card {n. n < 8 \<and> string_bit bs (i * 8 + n)}) [a..<b + 1])"
      using ab string_bit_block by (intro arg_cong [of _ _ sum_list] map_cong refl) (auto simp: count_ones_card cong: conj_cong)
    also have "\<dots> = card {k. a * 8 \<le> k \<and> k < (b + 1) * 8 \<and> string_bit bs k}" using ab by (intro sum_blocks) simp
    finally show ?thesis using Some r by (simp add: byte_bitcount_range_def)
  qed (simp add: byte_bitcount_range_def)
qed

theorem bitcount_exact_witness:
  "bitcount_range [CHR 0x0F, CHR 0xF0] (Some 5) (Some (- 7)) =
     card {k. 5 \<le> k \<and> k \<le> 9 \<and> string_bit [CHR 0x0F, CHR 0xF0] k}"
  using bitcount_exact [of "[CHR 0x0F, CHR 0xF0]" "Some 5" "Some (- 7)"] by (simp add: limit_defs redis_range_def)

section \<open>Finding\<close>

lemma takeWhile_upt:
  assumes "\<exists>i < m. \<not> P i"
  shows "length (takeWhile P [0..<m]) < m \<and> \<not> P (length (takeWhile P [0..<m])) \<and> (\<forall>i < length (takeWhile P [0..<m]). P i)"
proof -
  let ?n = "length (takeWhile P [0..<m])"
  have "takeWhile P [0..<m] \<noteq> [0..<m]" using assms by (auto simp: takeWhile_eq_all_conv)
  then have n: "?n < m"
    by (metis length_takeWhile_le length_upt diff_zero le_neq_implies_less takeWhile_eq_take take_all order_refl)
  have "\<not> P ([0..<m] ! ?n)" using n nth_length_takeWhile [of P "[0..<m]"] by simp
  moreover have "P i" if "i < ?n" for i
    using that n by (metis (no_types, lifting) nth_mem set_takeWhileD takeWhile_nth nth_upt add_0 less_trans)
  ultimately show ?thesis using n by simp
qed

lemma leading_zeros_first:
  assumes "w \<noteq> 0"
  shows "leading_zeros w < 8 \<and> bit w (7 - leading_zeros w) \<and> (\<forall>n < leading_zeros w. \<not> bit w (7 - n))"
proof -
  obtain k where k: "bit w k" using assms by (metis bit_eqI bit_0_eq bot_apply bot_bool_def)
  then have "k < 8" using bit_imp_le_length [of w k] by simp
  then have "7 - k < 8" "bit w (7 - (7 - k))" using k by simp_all
  then show ?thesis unfolding leading_zeros_def using takeWhile_upt [of 8 "\<lambda>i. \<not> bit w (7 - i)"] by blast
qed

text \<open>The first position from \<open>lo\<close> with a property, if there is one below \<open>hi\<close>.\<close>

definition first_from :: "(nat \<Rightarrow> bool) \<Rightarrow> nat \<Rightarrow> nat \<Rightarrow> int option \<Rightarrow> bool" where
  "first_from Q lo hi r \<longleftrightarrow>
     (case r of
        None \<Rightarrow> \<forall>k. lo \<le> k \<and> k < hi \<longrightarrow> \<not> Q k
      | Some p \<Rightarrow> \<exists>k. p = int k \<and> lo \<le> k \<and> k < hi \<and> Q k \<and> (\<forall>k'. lo \<le> k' \<and> k' < k \<longrightarrow> \<not> Q k'))"

lemma first_from_skip:
  assumes "first_from Q mid hi r" "\<forall>k. lo \<le> k \<and> k < mid \<longrightarrow> \<not> Q k" "lo \<le> mid"
  shows "first_from Q lo hi r"
  using assms unfolding first_from_def by (cases r) (auto, (metis not_less order_trans)+)

lemma first_from_narrow:
  assumes "first_from (\<lambda>k. a \<le> k \<and> k \<le> b \<and> P k) lo hi r" "lo \<le> a" "b < hi"
  shows "first_from P a (b + 1) r"
proof (cases r)
  case None
  then show ?thesis using assms by (simp add: first_from_def)
next
  case (Some p)
  then obtain k where k: "p = int k" "a \<le> k" "k \<le> b" "P k" "\<forall>k'. lo \<le> k' \<and> k' < k \<longrightarrow> \<not> (a \<le> k' \<and> k' \<le> b \<and> P k')"
    using assms(1) by (auto simp: first_from_def)
  then have "\<forall>k'. a \<le> k' \<and> k' < k \<longrightarrow> \<not> P k'" using assms(2) by (meson le_trans less_imp_le)
  then show ?thesis using Some k by (auto simp: first_from_def)
qed

lemma bitpos_loop_first:
  assumes "\<forall>j < length cs. \<forall>n < 8. Q ((i + j) * 8 + n) \<longleftrightarrow>
      bit ((if one then byte_word (cs ! j) else NOT (byte_word (cs ! j))) AND mask_of (i + j)) (7 - n)"
  shows "first_from Q (i * 8) ((i + length cs) * 8) (bitpos_loop one mask_of i cs)"
  using assms
proof (induction cs arbitrary: i)
  case (Cons c cs)
  define cand where "cand = (if one then byte_word c else NOT (byte_word c)) AND mask_of i"
  have q: "Q (i * 8 + n) \<longleftrightarrow> bit cand (7 - n)" if "n < 8" for n using Cons.prems [rule_format, of 0 n] that by (simp add: cand_def)
  have block: "\<exists>n < 8. k = i * 8 + n" if "i * 8 \<le> k" "k < i * 8 + 8" for k
    using that by (intro exI [of _ "k - i * 8"]) auto
  show ?case
  proof (cases "cand = 0")
    case True
    have "first_from Q ((i + 1) * 8) ((i + 1 + length cs) * 8) (bitpos_loop one mask_of (i + 1) cs)"
    proof (rule Cons.IH, intro allI impI)
      fix j n :: nat assume "j < length cs" "n < 8"
      then show "Q ((i + 1 + j) * 8 + n) \<longleftrightarrow>
          bit ((if one then byte_word (cs ! j) else NOT (byte_word (cs ! j))) AND mask_of (i + 1 + j)) (7 - n)"
        using Cons.prems [rule_format, of "Suc j" n] by simp
    qed
    moreover have "\<not> Q k" if k: "i * 8 \<le> k" "k < (i + 1) * 8" for k
    proof -
      obtain n where "n < 8" "k = i * 8 + n" using block [of k] k by auto
      then show ?thesis using q True by simp
    qed
    ultimately have "first_from Q (i * 8) ((i + 1 + length cs) * 8) (bitpos_loop one mask_of (i + 1) cs)"
      by (auto intro: first_from_skip [of Q "(i + 1) * 8" _ _ "i * 8"])
    then show ?thesis using True by (simp add: cand_def)
  next
    case False
    note z = leading_zeros_first [OF False]
    let ?p = "i * 8 + leading_zeros cand"
    have f: "bitpos_loop one mask_of i (c # cs) = Some (int ?p)" using False by (simp add: cand_def Let_def)
    show ?thesis
      unfolding f first_from_def option.case
    proof (intro exI [of _ ?p] conjI allI impI)
      show "Q ?p" using q z by blast
      show "?p < (i + length (c # cs)) * 8" using z by simp
      fix k assume k: "i * 8 \<le> k \<and> k < ?p"
      then obtain n where "n < 8" "k = i * 8 + n" using block [of k] z by auto
      then show "\<not> Q k" using q z k by simp
    qed simp_all
  qed
qed (auto simp: first_from_def)

lemma string_bit_candidate:
  assumes "n < 8" "i < length bs"
  shows "bit (if one then byte_word (bs ! i) else NOT (byte_word (bs ! i))) (7 - n) \<longleftrightarrow> string_bit bs (i * 8 + n) = one"
  using assms by (auto simp: string_bit_block bit_not_iff possible_bit_word)

text \<open>BITPOS finds the first bit of its range: the position of the first bit with the given value between the two ends,
  skipping whole bytes and masking the first and the last one; when there is none it is -1, or the
  position after the string when a clear bit is sought and no end is given.\<close>

theorem bitpos_first:
  assumes "length bs \<le> MAX_BULK_STRING_BYTES"
  shows "(\<forall>a b. redis_range (length bs * 8) s e = Some (a, b) \<longrightarrow>
      (\<exists>r. first_from (\<lambda>k. string_bit bs k = one) a (b + 1) r \<and> bitpos_range bs one s e = bitpos_result one e bs r)) \<and>
    (\<forall>a b. redis_range (length bs) s e = Some (a, b) \<longrightarrow>
      (\<exists>r. first_from (\<lambda>k. string_bit bs k = one) (a * 8) ((b + 1) * 8) r \<and> byte_bitpos_range bs one s e = bitpos_result one e bs r))"
proof (intro conjI allI impI)
  fix a b assume r: "redis_range (length bs * 8) s e = Some (a, b)"
  have ab: "a \<le> b" "b < length bs * 8" using redis_range_bounds [OF r] by simp_all
  let ?lo = "a div 8" and ?cs = "drop (a div 8) (take (b div 8 + 1) bs)"
  let ?Q = "\<lambda>k. a \<le> k \<and> k \<le> b \<and> string_bit bs k = one"
  have lo: "?lo \<le> b div 8" "b div 8 < length bs" using ab by (auto simp: div_le_mono)
  have len: "?lo + length ?cs = b div 8 + 1" using lo by simp
  have "first_from ?Q (?lo * 8) ((?lo + length ?cs) * 8) (bitpos_loop one (\<lambda>i. bit_range_mask i a b) ?lo ?cs)"
  proof (rule bitpos_loop_first, intro allI impI)
    fix j n :: nat assume j: "j < length ?cs" "n < 8"
    then have i: "?lo \<le> ?lo + j" "?lo + j \<le> b div 8" "?lo + j < length bs" "?cs ! j = bs ! (?lo + j)" using lo by auto
    show "?Q ((?lo + j) * 8 + n) \<longleftrightarrow>
        bit ((if one then byte_word (?cs ! j) else NOT (byte_word (?cs ! j))) AND bit_range_mask (?lo + j) a b) (7 - n)"
      unfolding bit_and_iff i(4) using string_bit_candidate [OF j(2) i(3)] mask_bit [OF i(1,2) j(2)] by blast
  qed
  then have "first_from (\<lambda>k. string_bit bs k = one) a (b + 1) (bitpos_loop one (\<lambda>i. bit_range_mask i a b) ?lo ?cs)"
    by (rule first_from_narrow) (use len ab in auto)
  moreover have "min (length bs * 8) usize_max = length bs * 8" using assms by (simp add: limit_defs)
  ultimately show "\<exists>r. first_from (\<lambda>k. string_bit bs k = one) a (b + 1) r \<and> bitpos_range bs one s e = bitpos_result one e bs r"
    using r by (auto simp: bitpos_range_def bit_range_def)
next
  fix a b assume r: "redis_range (length bs) s e = Some (a, b)"
  have ab: "a \<le> b" "b < length bs" using redis_range_bounds [OF r] by simp_all
  let ?cs = "take (b + 1 - a) (drop a bs)"
  have len: "a + length ?cs = b + 1" using ab by simp
  have "first_from (\<lambda>k. string_bit bs k = one) (a * 8) ((a + length ?cs) * 8) (bitpos_loop one (\<lambda>_. - 1) a ?cs)"
  proof (rule bitpos_loop_first, intro allI impI)
    fix j n :: nat assume j: "j < length ?cs" "n < 8"
    then have i: "a + j < length bs" "?cs ! j = bs ! (a + j)" using ab by auto
    show "string_bit bs ((a + j) * 8 + n) = one \<longleftrightarrow>
        bit ((if one then byte_word (?cs ! j) else NOT (byte_word (?cs ! j))) AND - 1) (7 - n)"
      unfolding i(2) using string_bit_candidate [OF j(2) i(1)] by simp
  qed
  then have "first_from (\<lambda>k. string_bit bs k = one) (a * 8) ((b + 1) * 8) (bitpos_loop one (\<lambda>_. - 1) a ?cs)" unfolding len .
  then show "\<exists>r. first_from (\<lambda>k. string_bit bs k = one) (a * 8) ((b + 1) * 8) r \<and> byte_bitpos_range bs one s e = bitpos_result one e bs r"
    using r by (auto simp: byte_bitpos_range_def)
qed

theorem bitpos_first_witness:
  "\<exists>r. first_from (\<lambda>k. string_bit [CHR 0x00, CHR 0xF0] k = True) 2 16 r \<and>
     bitpos_range [CHR 0x00, CHR 0xF0] True (Some 2) None = bitpos_result True None [CHR 0x00, CHR 0xF0] r"
proof -
  have "redis_range (length [CHR 0x00, CHR 0xF0] * 8) (Some 2) None = Some (2, 15)" by (simp add: redis_range_def)
  moreover have "length [CHR 0x00, CHR 0xF0] \<le> MAX_BULK_STRING_BYTES" by (simp add: limit_defs)
  ultimately show ?thesis using bitpos_first [of "[CHR 0x00, CHR 0xF0]" "Some 2" None True] by fastforce
qed

section \<open>Combining\<close>

definition bool_operate :: "bit_operation \<Rightarrow> bool \<Rightarrow> bool \<Rightarrow> bool" where
  "bool_operate op a b = (case op of Bit_And \<Rightarrow> a \<and> b | Bit_Or \<Rightarrow> a \<or> b | Bit_Xor \<Rightarrow> a \<noteq> b | Bit_Not \<Rightarrow> a)"

lemma bit_operate_bit: "bit (bit_operate op v w) n = bool_operate op (bit v n) (bit w n)"
  by (cases op) (auto simp: bit_operate_def bool_operate_def bit_simps)

lemma byte_operate_out_of_range: "i < length bs \<Longrightarrow> byte_at_or_zero bs i = byte_word (bs ! i)"
  by (simp add: byte_at_or_zero_def)

lemma string_bit_map:
  assumes "i div 8 < n"
  shows "string_bit (map (\<lambda>j. word_byte (f j)) [0..<n]) i = bit (f (i div 8)) (7 - i mod 8)"
  using assms by (simp add: string_bit_def byte_at_or_zero_def)

lemma bool_operate_False [simp]: "\<not> bool_operate op False False"
  by (cases op) (simp_all add: bool_operate_def)

lemma combine_bitop_bits:
  assumes "combine_bitop out source op n = Inr out'" "0 < n"
  shows "length out' = max (length out) (length source)" "string_bit out' i = bool_operate op (string_bit out i) (string_bit source i)"
proof -
  obtain cs where r: "resize_bitmap out (max (length out) (length source)) = Inr cs"
    and o: "out' = map (\<lambda>i. word_byte (bit_operate op (byte_word (cs ! i)) (byte_at_or_zero source i))) [0..<length cs]"
    using assms by (auto simp: combine_bitop_def split: sum.splits)
  have len: "length cs = max (length out) (length source)" using resize_bitmap_bits(2) [OF r] by simp
  then show "length out' = max (length out) (length source)" by (simp add: o)
  show "string_bit out' i = bool_operate op (string_bit out i) (string_bit source i)"
  proof (cases "i div 8 < length cs")
    case True
    then show ?thesis
      unfolding o string_bit_map [OF True] bit_operate_bit
      by (simp add: resize_bitmap_bits(1) [OF r, symmetric]) (simp add: string_bit_def byte_at_or_zero_def)
  next
    case False
    then have "length out * 8 \<le> i" "length source * 8 \<le> i" "length out' * 8 \<le> i" using len o by auto
    then show ?thesis by (simp add: string_bit_beyond)
  qed
qed

lemma combine_all_bits:
  assumes "combine_all op n sources out = Inr out'" "0 < n"
  shows "length out' = foldl max (length out) (map length sources) \<and>
    string_bit out' i = foldl (bool_operate op) (string_bit out i) (map (\<lambda>bs. string_bit bs i) sources)"
  using assms
proof (induction sources arbitrary: out n)
  case (Cons source sources)
  obtain mid where m: "combine_bitop out source op n = Inr mid" "combine_all op (n + 1) sources mid = Inr out'"
    using Cons.prems(1) by (auto split: sum.splits)
  show ?case using Cons.IH [OF m(2)] combine_bitop_bits [OF m(1) Cons.prems(2)] by simp
qed simp

text \<open>BITOP combines its sources bit by bit, a shorter source counting as padded with clear bits: every bit of the
  result is the conjunction, disjunction or exclusive disjunction of the bits of all sources at that position, or the negation of the
  one source within its length, and the result is as long as the longest source.\<close>

theorem bitop_bitwise:
  assumes "bitop_value op (bs # sources) = Inr out" "op = Bit_Not \<longrightarrow> sources = []"
  shows "length out = foldl max (length bs) (map length sources) \<and>
    (\<forall>i < length out * 8. string_bit out i =
       (if op = Bit_Not then \<not> string_bit bs i
        else foldl (bool_operate op) (string_bit bs i) (map (\<lambda>b. string_bit b i) sources)))"
proof -
  obtain mid where m: "combine_all op 1 sources bs = Inr mid"
    and o: "out = (if op = Bit_Not then map (\<lambda>c. word_byte (NOT (byte_word c))) mid else mid)"
    using assms(1) by (auto simp: bitop_value_def combine_bitop_def split: sum.splits)
  have "string_bit (map (\<lambda>c. word_byte (NOT (byte_word c))) bs) i = (\<not> string_bit bs i)" if "i < length bs * 8" for i
  proof -
    have "i div 8 < length bs" using that by (rule less_mult_imp_div_less)
    moreover have "7 - i mod 8 < 8" by (rule le_less_trans [of _ 7]) simp_all
    ultimately show ?thesis by (simp add: string_bit_def byte_at_or_zero_def bit_not_iff possible_bit_word)
  qed
  note neg = this
  show ?thesis
  proof (cases "op = Bit_Not")
    case True
    then have "out = map (\<lambda>c. word_byte (NOT (byte_word c))) bs" using o m assms(2) by simp
    then show ?thesis using True assms(2) neg by simp
  next
    case False
    then have "out = mid" using o by simp
    then show ?thesis using False combine_all_bits [OF m] by simp
  qed
qed

theorem bitop_bitwise_witness:
  "\<exists>out. bitop_value Bit_And [[CHR 0x0F], [CHR 0xFF, CHR 0x01]] = Inr out \<and> length out = 2 \<and>
     string_bit out 5 = (string_bit [CHR 0x0F] 5 \<and> string_bit [CHR 0xFF, CHR 0x01] 5)"
proof -
  obtain out where o: "bitop_value Bit_And [[CHR 0x0F], [CHR 0xFF, CHR 0x01]] = Inr out"
    by (simp add: bitop_value_def combine_bitop_def resize_bitmap_def limit_defs)
  from bitop_bitwise [OF this] show ?thesis using o by (auto simp: bool_operate_def)
qed

end
