(* ===== verification/String_Store.thy ===== *)
theory String_Store
  imports Db_State String_Bits
begin

text \<open>
  The string commands and the commands on whole keys (\<^verbatim>\<open>src/store/db/string_*.rs\<close>, \<^verbatim>\<open>storage_write_helpers.rs\<close>,
  \<^verbatim>\<open>storage_delete_helpers.rs\<close>, \<^verbatim>\<open>key_expire_persist_ops.rs\<close>), and the routines that run a pipeline of such commands
  as one read and one write.

  Modelled are the forms the server runs, whose writes are compare-and-writes in a loop of 64 rounds; their locks are no
  steps of their own. The count of databases with deadlines that \<^verbatim>\<open>add_to_batch\<close> also raises belongs to \<open>Ttl_Index\<close>. A failed
  memory reservation is not modelled.
\<close>

definition add_to_batch :: "batch_op list \<Rightarrow> u64 \<Rightarrow> u16 \<Rightarrow> bytes \<Rightarrow> batch_op list" where
  "add_to_batch batch expire_ms db_index key = snd (try_add_to_batch 0 batch expire_ms db_index key)"

text \<open>\<^verbatim>\<open>for _ in 0..64 { ... } Err(conflict)\<close>.\<close>

definition retry :: "('w, 'e, 'a option) action \<Rightarrow> ('w, 'e, 'a) action" where
  "retry body = and_then (rounds 64 body) (\<lambda>r. case r of Some x \<Rightarrow> return x | None \<Rightarrow> fail Conflict)"

text \<open>Commit, count the changes and leave the loop with a result, or go round again.\<close>

definition commit_round ::
  "('w, 'e) db \<Rightarrow> (bytes \<times> bytes option) list \<Rightarrow> batch_op list \<Rightarrow> nat \<Rightarrow> 'a \<Rightarrow> ('w, 'e, 'a option) action"
where
  "commit_round db conditions batch changed result =
     and_then (compare_and_write_batch_if_not_empty db conditions batch) (\<lambda>written.
       if written then and_then (fetch_add_changes changed) (\<lambda>_. return (Some result)) else return None)"

text \<open>The keys in the order of their first occurrence.\<close>

definition distinct_keys :: "bytes list \<Rightarrow> bytes list" where
  "distinct_keys keys = foldl (\<lambda>seen key. if key \<in> set seen then seen else seen @ [key]) [] keys"

section \<open>Writing a string\<close>

definition enqueue_fulltext_delete_for_string_overwrite :: "('w, 'e) db \<Rightarrow> batch_op list \<Rightarrow> bytes \<Rightarrow> bytes \<Rightarrow> batch_op list" where
  "enqueue_fulltext_delete_for_string_overwrite db batch key old_raw =
     (case decode_meta_header old_raw of
        None \<Rightarrow> batch
      | Some header \<Rightarrow>
          if mh_type_tag header = TYPE_HASH \<or> mh_type_tag header = TYPE_JSON
          then (case fulltext_delete db key (mh_type_tag header) of Inl _ \<Rightarrow> batch | Inr ops \<Rightarrow> batch @ ops)
          else batch)"

definition prepare_string_overwrite_to_batch :: "('w, 'e) db \<Rightarrow> batch_op list \<Rightarrow> bytes \<Rightarrow> bytes option \<Rightarrow> batch_op list" where
  "prepare_string_overwrite_to_batch db batch key old_raw =
     (case old_raw of
        None \<Rightarrow> batch
      | Some raw \<Rightarrow>
          (case decode_meta_header raw of
             None \<Rightarrow> batch
           | Some header \<Rightarrow>
               if mh_type_tag header = TYPE_STRING then batch
               else enqueue_fulltext_delete_for_string_overwrite db batch key raw))"

definition write_string_value_to_batch ::
  "('w, 'e) db \<Rightarrow> batch_op list \<Rightarrow> bytes \<Rightarrow> bytes \<Rightarrow> u64 \<Rightarrow> bytes option \<Rightarrow> batch_op list"
where
  "write_string_value_to_batch db batch key val expire_ms old_raw =
     (let batch = (case Option.bind old_raw decode_meta_header of
                     None \<Rightarrow> batch
                   | Some header \<Rightarrow>
                       if mh_expire_ms header > 0 \<and> mh_expire_ms header \<noteq> expire_ms
                       then remove_known_to_batch batch (mh_expire_ms header) (db_no db) key else batch);
          batch = batch @ [(Put, mk_key db key, encode_raw_string val expire_ms)]
      in if expire_ms > 0 then add_to_batch batch expire_ms (db_no db) key else remove_to_batch batch (db_no db) key)"

definition write_string_to_batch_with_deferred_old_raw ::
  "('w, 'e) db \<Rightarrow> batch_op list \<Rightarrow> bytes \<Rightarrow> bytes \<Rightarrow> u64 \<Rightarrow> bytes option \<Rightarrow> batch_op list"
where
  "write_string_to_batch_with_deferred_old_raw db batch key val expire_ms old_raw =
     (let batch = (case old_raw of None \<Rightarrow> batch | Some raw \<Rightarrow> enqueue_fulltext_delete_for_string_overwrite db batch key raw)
      in write_string_value_to_batch db batch key val expire_ms old_raw)"

section \<open>Reading\<close>

definition read_live_raw :: "('w, 'e) db \<Rightarrow> bytes \<Rightarrow> ('w, 'e, bytes option) action" where
  "read_live_raw db key =
     and_then (db_get db (mk_key db key)) (\<lambda>observed.
       case observed of
         None \<Rightarrow> return None
       | Some raw \<Rightarrow>
           and_then (now_ms db) (\<lambda>now.
             if decode_expire_ms raw > 0 \<and> now \<ge> decode_expire_ms raw then return None else return (Some raw)))"

definition get_string_bytes :: "('w, 'e) db \<Rightarrow> bytes \<Rightarrow> ('w, 'e, bytes option) action" where
  "get_string_bytes db key =
     and_then (read_live_raw db key) (\<lambda>observed.
       case observed of
         None \<Rightarrow> return None
       | Some raw \<Rightarrow> (case decode_string_bytes raw of Some val \<Rightarrow> return (Some val) | None \<Rightarrow> fail Wrong_type_error))"

definition exists_readonly :: "('w, 'e) db \<Rightarrow> bytes \<Rightarrow> ('w, 'e, bool) action" where
  "exists_readonly db key = and_then (read_live_raw db key) (\<lambda>observed. return (observed \<noteq> None))"

definition ttl_millis_readonly :: "('w, 'e) db \<Rightarrow> bytes \<Rightarrow> ('w, 'e, int) action" where
  "ttl_millis_readonly db key =
     and_then (db_get db (mk_key db key)) (\<lambda>observed.
       case observed of
         None \<Rightarrow> return (- 2)
       | Some raw \<Rightarrow>
           if decode_expire_ms raw = 0 then return (- 1)
           else and_then (now_ms db) (\<lambda>now.
             if now \<ge> decode_expire_ms raw then return (- 2) else return (sint (decode_expire_ms raw - now))))"

definition expire_time_millis_readonly :: "('w, 'e) db \<Rightarrow> bytes \<Rightarrow> ('w, 'e, int) action" where
  "expire_time_millis_readonly db key =
     and_then (read_live_raw db key) (\<lambda>observed.
       case observed of
         None \<Rightarrow> return (- 2)
       | Some raw \<Rightarrow> return (if decode_expire_ms raw = 0 then - 1 else sint (decode_expire_ms raw)))"

definition type_name_from_live_raw :: "bytes \<Rightarrow> string" where
  "type_name_from_live_raw raw =
     (case decode_meta_header raw of
        None \<Rightarrow> ''none''
      | Some header \<Rightarrow>
          (let tag = mh_type_tag header
           in if tag = TYPE_STRING then ''string'' else if tag = TYPE_HASH then ''hash'' else if tag = TYPE_SET then ''set''
              else if tag = TYPE_SORTED_SET then ''zset'' else if tag = TYPE_LIST then ''list''
              else if tag = TYPE_STREAM then ''stream'' else if tag = TYPE_VECTOR then ''vector''
              else if tag = TYPE_JSON then ''json'' else ''none''))"

section \<open>SET\<close>

datatype set_expiration = Set_Clear | Set_KeepTtl | Set_At u64
datatype set_condition = Set_Always | Set_Nx | Set_Xx
datatype set_outcome = Was_Set "bytes option" | Not_Set

fun condition_matches :: "set_condition \<Rightarrow> bool \<Rightarrow> bool" where
  "condition_matches Set_Always existing = True"
| "condition_matches Set_Nx existing = (\<not> existing)"
| "condition_matches Set_Xx existing = existing"

fun expiration_ms :: "set_expiration \<Rightarrow> u64 option \<Rightarrow> u64" where
  "expiration_ms Set_Clear old = 0"
| "expiration_ms Set_KeepTtl old = (case old of Some e \<Rightarrow> e | None \<Rightarrow> 0)"
| "expiration_ms (Set_At e) old = e"

text \<open>\<^verbatim>\<open>return_old\<close>: the old string, or an error where there is another type.\<close>

definition old_string_value :: "bytes option \<Rightarrow> 'e db_error + bytes option" where
  "old_string_value old_raw =
     (case old_raw of
        None \<Rightarrow> Inr None
      | Some raw \<Rightarrow>
          (case decode_meta_header raw of
             None \<Rightarrow> Inl Wrong_type_error
           | Some header \<Rightarrow>
               if mh_type_tag header \<noteq> TYPE_STRING then Inl Wrong_type_error
               else (case decode_string_bytes raw of None \<Rightarrow> Inl Decode_failed | Some val \<Rightarrow> Inr (Some val))))"

definition set_writes :: "('w, 'e) db \<Rightarrow> batch_op list \<Rightarrow> bytes \<Rightarrow> bytes \<Rightarrow> u64 \<Rightarrow> u64 \<Rightarrow> bytes option \<Rightarrow> batch_op list" where
  "set_writes db batch key val expire_ms now old_raw =
     (let batch = prepare_string_overwrite_to_batch db batch key old_raw
      in if expire_ms > 0 \<and> now \<ge> expire_ms
         then (let batch = batch @ [(Delete, mk_key db key, [])]
               in case Option.bind old_raw decode_meta_header of
                    None \<Rightarrow> batch
                  | Some header \<Rightarrow>
                      if mh_expire_ms header > 0 then remove_known_to_batch batch (mh_expire_ms header) (db_no db) key else batch)
         else write_string_to_batch_with_deferred_old_raw db batch key val expire_ms old_raw)"

definition set_round ::
  "('w, 'e) db \<Rightarrow> bytes \<Rightarrow> bytes \<Rightarrow> set_expiration \<Rightarrow> set_condition \<Rightarrow> bool \<Rightarrow> ('w, 'e, set_outcome option) action"
where
  "set_round db key val expiration condition return_old =
     and_then (expire_if_needed db key) (\<lambda>_.
     and_then (db_get db (mk_key db key)) (\<lambda>old_raw.
       (let old_header = Option.bind old_raw decode_meta_header
        in if \<not> condition_matches condition (old_header \<noteq> None) then return (Some Not_Set)
           else (case (if return_old then old_string_value old_raw else Inr None) of
               Inl e \<Rightarrow> fail e
             | Inr old_value \<Rightarrow>
                 and_then (now_ms db) (\<lambda>now.
                   commit_round db [(mk_key db key, old_raw)]
                     (set_writes db [] key val (expiration_ms expiration (map_option mh_expire_ms old_header)) now old_raw)
                     1 (Was_Set old_value))))))"

definition set_string_bytes_async ::
  "('w, 'e) db \<Rightarrow> bytes \<Rightarrow> bytes \<Rightarrow> set_expiration \<Rightarrow> set_condition \<Rightarrow> bool \<Rightarrow> ('w, 'e, set_outcome) action"
where
  "set_string_bytes_async db key val expiration condition return_old =
     retry (set_round db key val expiration condition return_old)"

definition insert_string_bytes_async :: "('w, 'e) db \<Rightarrow> bytes \<Rightarrow> bytes \<Rightarrow> u64 option \<Rightarrow> ('w, 'e, unit) action" where
  "insert_string_bytes_async db key val ttl_ms =
     and_then (now_ms db) (\<lambda>now.
     and_then (set_string_bytes_async db key val
         (case ttl_ms of None \<Rightarrow> Set_Clear | Some ttl \<Rightarrow> Set_At (saturating_add64 now ttl)) Set_Always False) (\<lambda>_. return ()))"

section \<open>Changing a string\<close>

definition string_for_update :: "bytes option \<Rightarrow> 'e db_error + (u64 \<times> bytes)" where
  "string_for_update old_raw =
     (case old_raw of
        None \<Rightarrow> Inr (0, [])
      | Some raw \<Rightarrow>
          (case decode_meta_header raw of
             None \<Rightarrow> Inl Wrong_type_error
           | Some header \<Rightarrow>
               if mh_type_tag header \<noteq> TYPE_STRING then Inl Wrong_type_error
               else (case decode_string_bytes raw of
                   None \<Rightarrow> Inl Wrong_type_error
                 | Some val \<Rightarrow> Inr (mh_expire_ms header, val))))"

text \<open>A mutation gives its result, whether it changed the value, and the value afterwards.\<close>

type_synonym ('e, 'r) mutation = "bytes \<Rightarrow> bool \<Rightarrow> 'e db_error + ('r \<times> bool \<times> bytes)"

definition mutate_round :: "('w, 'e) db \<Rightarrow> bytes \<Rightarrow> ('e, 'r) mutation \<Rightarrow> ('w, 'e, 'r option) action" where
  "mutate_round db key mutation =
     and_then (expire_if_needed db key) (\<lambda>_.
     and_then (db_get db (mk_key db key)) (\<lambda>old_raw.
       case string_for_update old_raw of
         Inl e \<Rightarrow> fail e
       | Inr (expire_ms, val) \<Rightarrow>
           (case mutation val (old_raw \<noteq> None) of
              Inl e \<Rightarrow> fail e
            | Inr (result, changed, val') \<Rightarrow>
                if \<not> changed then return (Some result)
                else commit_round db [(mk_key db key, old_raw)]
                  (write_string_to_batch_with_deferred_old_raw db [] key val' expire_ms old_raw) 1 result)))"

definition mutate_string_bytes_if_changed :: "('w, 'e) db \<Rightarrow> bytes \<Rightarrow> ('e, 'r) mutation \<Rightarrow> ('w, 'e, 'r) action" where
  "mutate_string_bytes_if_changed db key mutation = retry (mutate_round db key mutation)"

definition mutate_string_bytes :: "('w, 'e) db \<Rightarrow> bytes \<Rightarrow> (bytes \<Rightarrow> bool \<Rightarrow> 'e db_error + ('r \<times> bytes)) \<Rightarrow> ('w, 'e, 'r) action" where
  "mutate_string_bytes db key mutation =
     mutate_string_bytes_if_changed db key (\<lambda>val existing.
       case mutation val existing of Inl e \<Rightarrow> Inl e | Inr (result, val') \<Rightarrow> Inr (result, True, val'))"

definition append_mutation :: "bytes \<Rightarrow> bytes \<Rightarrow> bool \<Rightarrow> 'e db_error + (nat \<times> bytes)" where
  "append_mutation suffix val existing =
     (case checked_add (length val) (length suffix) of
        None \<Rightarrow> Inl String_too_long
      | Some required_len \<Rightarrow>
          if required_len \<le> MAX_BULK_STRING_BYTES then Inr (required_len, val @ suffix) else Inl String_too_long)"

definition append_apply :: "('w, 'e) db \<Rightarrow> bytes \<Rightarrow> bytes \<Rightarrow> ('w, 'e, nat) action" where
  "append_apply db key suffix = mutate_string_bytes db key (append_mutation suffix)"

definition resize_zero :: "bytes \<Rightarrow> nat \<Rightarrow> bytes" where
  "resize_zero val n = val @ replicate (n - length val) (CHR 0x00)"

definition setrange_mutation :: "nat \<Rightarrow> bytes \<Rightarrow> ('e, nat) mutation" where
  "setrange_mutation offset new val existing =
     (if new = [] then Inr (length val, False, val)
      else (case checked_add offset (length new) of
          None \<Rightarrow> Inl String_too_long
        | Some required_len \<Rightarrow>
            if required_len > MAX_BULK_STRING_BYTES then Inl String_too_long
            else (let val = (if required_len > length val then resize_zero val required_len else val);
                      val = splice val offset new
                  in Inr (length val, True, val))))"

definition setrange_apply :: "('w, 'e) db \<Rightarrow> bytes \<Rightarrow> nat \<Rightarrow> bytes \<Rightarrow> ('w, 'e, nat) action" where
  "setrange_apply db key offset new = mutate_string_bytes_if_changed db key (setrange_mutation offset new)"

fun bit_db_error :: "bit_error \<Rightarrow> 'e db_error" where
  "bit_db_error Bit_offset_out_of_range = Bad_bit"
| "bit_db_error String_exceeds_maximum = String_too_long"

definition string_set_bit_async :: "('w, 'e) db \<Rightarrow> bytes \<Rightarrow> nat \<Rightarrow> nat \<Rightarrow> ('w, 'e, nat) action" where
  "string_set_bit_async db key offset b =
     (if b > 1 then fail Bad_bit
      else mutate_string_bytes db key (\<lambda>val _.
        case set_bit_mutation offset (b = 1) val of Inl e \<Rightarrow> Inl (bit_db_error e) | Inr r \<Rightarrow> Inr r))"

definition getdel_round :: "('w, 'e) db \<Rightarrow> bytes \<Rightarrow> ('w, 'e, bytes option option) action" where
  "getdel_round db key =
     and_then (expire_if_needed db key) (\<lambda>_.
     and_then (db_get db (mk_key db key)) (\<lambda>observed.
       case observed of
         None \<Rightarrow> return (Some None)
       | Some raw \<Rightarrow>
           (case string_for_update observed of
              Inl e \<Rightarrow> fail e
            | Inr (expire_ms, val) \<Rightarrow>
                commit_round db [(mk_key db key, observed)] (delete_main_key_with_ttl_to_batch db [] key expire_ms) 1 (Some val))))"

definition getdel_string_bytes :: "('w, 'e) db \<Rightarrow> bytes \<Rightarrow> ('w, 'e, bytes option) action" where
  "getdel_string_bytes db key = retry (getdel_round db key)"

end
