(* ===== verification/Key_Store.thy ===== *)
theory Key_Store
  imports String_Store
begin

text \<open>
  Commands on whole keys: EXPIRE and its conditions, PERSIST, GETEX, DEL, and the routine that deletes the keys of several
  pipelined DEL commands at once (\<^verbatim>\<open>key_expire_persist_ops.rs\<close>, \<^verbatim>\<open>string_key_readonly.rs\<close>, \<^verbatim>\<open>storage_delete_helpers.rs\<close>).
  The refresh of the full-text index that follows a committed deletion is not modelled.
\<close>

section \<open>EXPIRE and PERSIST\<close>

datatype expire_condition = Expire_Always | Expire_Nx | Expire_Xx | Expire_Gt | Expire_Lt | Expire_XxGt | Expire_XxLt

fun expire_condition_matches :: "u64 \<Rightarrow> u64 \<Rightarrow> expire_condition \<Rightarrow> bool" where
  "expire_condition_matches current expire_ms Expire_Always = True"
| "expire_condition_matches current expire_ms Expire_Nx = (current = 0)"
| "expire_condition_matches current expire_ms Expire_Xx = (current > 0)"
| "expire_condition_matches current expire_ms Expire_Gt = (current > 0 \<and> expire_ms > current)"
| "expire_condition_matches current expire_ms Expire_Lt = (current = 0 \<or> expire_ms < current)"
| "expire_condition_matches current expire_ms Expire_XxGt = (current > 0 \<and> expire_ms > current)"
| "expire_condition_matches current expire_ms Expire_XxLt = (current > 0 \<and> expire_ms < current)"

text \<open>\<open>fulltext_update\<close> is what the full-text subsystem adds to a batch when the deadline of a hash or a JSON value changes.\<close>

definition append_fulltext_expiration_update_to_batch ::
  "(bytes \<Rightarrow> char \<Rightarrow> 'e + batch_op list) \<Rightarrow> batch_op list \<Rightarrow> bytes \<Rightarrow> char \<Rightarrow> 'e db_error + batch_op list"
where
  "append_fulltext_expiration_update_to_batch fulltext_update batch key tag =
     (if tag = TYPE_HASH \<or> tag = TYPE_JSON
      then (case fulltext_update key tag of Inl e \<Rightarrow> Inl (Storage_error e) | Inr ops \<Rightarrow> Inr (batch @ ops))
      else Inr batch)"

definition deadline_writes ::
  "('w, 'e) db \<Rightarrow> (bytes \<Rightarrow> char \<Rightarrow> 'e + batch_op list) \<Rightarrow> bytes \<Rightarrow> bytes \<Rightarrow> meta_header \<Rightarrow> u64 \<Rightarrow> 'e db_error + batch_op list"
where
  "deadline_writes db fulltext_update key patched header expire_ms =
     (case append_fulltext_expiration_update_to_batch fulltext_update [(Put, mk_key db key, patched)] key (mh_type_tag header) of
        Inl e \<Rightarrow> Inl e
      | Inr batch \<Rightarrow>
          Inr (add_to_batch
            (if mh_expire_ms header > 0 \<and> mh_expire_ms header \<noteq> expire_ms
             then remove_known_to_batch batch (mh_expire_ms header) (db_no db) key else batch)
            expire_ms (db_no db) key))"

definition expire_with_condition_round ::
  "('w, 'e) db \<Rightarrow> (bytes \<Rightarrow> char \<Rightarrow> 'e + batch_op list) \<Rightarrow> bytes \<Rightarrow> u64 \<Rightarrow> u64 \<Rightarrow> expire_condition \<Rightarrow> ('w, 'e, bool option) action"
where
  "expire_with_condition_round db fulltext_update key ttl expire_ms condition =
     and_then (expire_if_needed db key) (\<lambda>_.
     and_then (db_get db (mk_key db key)) (\<lambda>observed.
       case observed of
         None \<Rightarrow> return (Some False)
       | Some raw \<Rightarrow>
           (case decode_meta_header raw of
              None \<Rightarrow> return (Some False)
            | Some header \<Rightarrow>
                and_then (now_ms db) (\<lambda>now.
                  if mh_expire_ms header > 0 \<and> now \<ge> mh_expire_ms header
                  then and_then (expire_if_needed db key) (\<lambda>_. return None)
                  else if \<not> expire_condition_matches (mh_expire_ms header) expire_ms condition then return (Some False)
                  else if ttl = 0
                  then (case append_expiration_delete_to_batch db [] key header of
                      Inl e \<Rightarrow> fail e
                    | Inr batch \<Rightarrow> commit_round db [(mk_key db key, observed)] batch 0 True)
                  else (case patch_meta_expire_ms raw expire_ms of
                      None \<Rightarrow> return (Some False)
                    | Some patched \<Rightarrow>
                        (case deadline_writes db fulltext_update key patched header expire_ms of
                           Inl e \<Rightarrow> fail e
                         | Inr batch \<Rightarrow> commit_round db [(mk_key db key, observed)] batch 0 True))))))"

definition expire_with_condition ::
  "('w, 'e) db \<Rightarrow> (bytes \<Rightarrow> char \<Rightarrow> 'e + batch_op list) \<Rightarrow> bytes \<Rightarrow> u64 \<Rightarrow> expire_condition \<Rightarrow> ('w, 'e, bool) action"
where
  "expire_with_condition db fulltext_update key ttl condition =
     and_then (now_ms db) (\<lambda>now.
       retry (expire_with_condition_round db fulltext_update key ttl (saturating_add64 now ttl) condition))"

definition persist_round ::
  "('w, 'e) db \<Rightarrow> (bytes \<Rightarrow> char \<Rightarrow> 'e + batch_op list) \<Rightarrow> bytes \<Rightarrow> ('w, 'e, bool option) action"
where
  "persist_round db fulltext_update key =
     and_then (expire_if_needed db key) (\<lambda>_.
     and_then (db_get db (mk_key db key)) (\<lambda>observed.
       case observed of
         None \<Rightarrow> return (Some False)
       | Some raw \<Rightarrow>
           (case decode_meta_header raw of
              None \<Rightarrow> fail Corrupt_record
            | Some header \<Rightarrow>
                if mh_expire_ms header = 0 then return (Some False)
                else and_then (now_ms db) (\<lambda>now.
                  if now \<ge> mh_expire_ms header then and_then (expire_if_needed db key) (\<lambda>_. return None)
                  else (case patch_meta_expire_ms raw 0 of
                      None \<Rightarrow> return (Some False)
                    | Some patched \<Rightarrow>
                        (case append_fulltext_expiration_update_to_batch fulltext_update [(Put, mk_key db key, patched)] key
                                (mh_type_tag header) of
                           Inl e \<Rightarrow> fail e
                         | Inr batch \<Rightarrow>
                             commit_round db [(mk_key db key, observed)]
                               (remove_known_to_batch batch (mh_expire_ms header) (db_no db) key) 0 True))))))"

definition persist :: "('w, 'e) db \<Rightarrow> (bytes \<Rightarrow> char \<Rightarrow> 'e + batch_op list) \<Rightarrow> bytes \<Rightarrow> ('w, 'e, bool) action" where
  "persist db fulltext_update key = retry (persist_round db fulltext_update key)"

section \<open>GETEX\<close>

datatype string_expire_update = Getex_Persist | Getex_Relative u64 | Getex_Absolute u64

definition getex_deadline_writes :: "('w, 'e) db \<Rightarrow> bytes \<Rightarrow> bytes \<Rightarrow> u64 \<Rightarrow> u64 \<Rightarrow> 'e db_error + batch_op list" where
  "getex_deadline_writes db key raw old_expire_ms expire_ms =
     (case patch_meta_expire_ms raw expire_ms of
        None \<Rightarrow> Inl Corrupt_record
      | Some patched \<Rightarrow>
          (let batch = [(Put, mk_key db key, patched)];
               batch = (if old_expire_ms \<noteq> expire_ms then remove_known_to_batch batch old_expire_ms (db_no db) key else batch)
           in Inr (add_to_batch batch expire_ms (db_no db) key)))"

text \<open>The batch of one round, or \<open>None\<close> where there is nothing to write.\<close>

fun getex_writes ::
  "('w, 'e) db \<Rightarrow> bytes \<Rightarrow> bytes \<Rightarrow> u64 \<Rightarrow> u64 \<Rightarrow> string_expire_update \<Rightarrow> 'e db_error + batch_op list option"
where
  "getex_writes db key raw old_expire_ms now Getex_Persist =
     (if old_expire_ms = 0 then Inr None
      else (case patch_meta_expire_ms raw 0 of
          None \<Rightarrow> Inl Corrupt_record
        | Some patched \<Rightarrow> Inr (Some (remove_known_to_batch [(Put, mk_key db key, patched)] old_expire_ms (db_no db) key))))"
| "getex_writes db key raw old_expire_ms now (Getex_Relative ttl) =
     (if ttl = 0 then Inr (Some (delete_main_key_with_ttl_to_batch db [] key old_expire_ms))
      else (case getex_deadline_writes db key raw old_expire_ms (saturating_add64 now ttl) of
          Inl e \<Rightarrow> Inl e | Inr batch \<Rightarrow> Inr (Some batch)))"
| "getex_writes db key raw old_expire_ms now (Getex_Absolute expire_ms) =
     (if expire_ms \<le> now then Inr (Some (delete_main_key_with_ttl_to_batch db [] key old_expire_ms))
      else (case getex_deadline_writes db key raw old_expire_ms expire_ms of
          Inl e \<Rightarrow> Inl e | Inr batch \<Rightarrow> Inr (Some batch)))"

definition getex_round :: "('w, 'e) db \<Rightarrow> bytes \<Rightarrow> string_expire_update \<Rightarrow> ('w, 'e, bytes option option) action" where
  "getex_round db key expiration =
     and_then (expire_if_needed db key) (\<lambda>_.
     and_then (db_get db (mk_key db key)) (\<lambda>observed.
       case observed of
         None \<Rightarrow> return (Some None)
       | Some raw \<Rightarrow>
           (case decode_string_bytes raw of
              None \<Rightarrow> fail Wrong_type_error
            | Some val \<Rightarrow>
                (case decode_meta_header raw of
                   None \<Rightarrow> fail Corrupt_record
                 | Some header \<Rightarrow>
                     and_then (now_ms db) (\<lambda>now.
                       case getex_writes db key raw (mh_expire_ms header) now expiration of
                         Inl e \<Rightarrow> fail e
                       | Inr None \<Rightarrow> return (Some (Some val))
                       | Inr (Some batch) \<Rightarrow> commit_round db [(mk_key db key, observed)] batch 0 (Some val))))))"

definition getex_string_bytes :: "('w, 'e) db \<Rightarrow> bytes \<Rightarrow> string_expire_update option \<Rightarrow> ('w, 'e, bytes option) action" where
  "getex_string_bytes db key expiration =
     (case expiration of
        None \<Rightarrow> get_string_bytes db key
      | Some update \<Rightarrow> retry (getex_round db key update))"

section \<open>DEL\<close>

text \<open>What the deletion of one key adds to a batch.\<close>

definition delete_writes :: "('w, 'e) db \<Rightarrow> bytes \<Rightarrow> meta_header \<Rightarrow> 'e db_error + batch_op list" where
  "delete_writes db key header =
     (case delete_sub_keys_to_batch_bytes
             (remove_known_to_batch [(Delete, mk_key db key, [])] (mh_expire_ms header) (db_no db) key)
             (db_no db) key (mh_version header) (mh_type_tag header) of
        None \<Rightarrow> Inl Panic
      | Some batch \<Rightarrow>
          if mh_type_tag header = TYPE_HASH \<or> mh_type_tag header = TYPE_JSON
          then (case fulltext_delete db key (mh_type_tag header) of
              Inl e \<Rightarrow> Inl (Storage_error e) | Inr ops \<Rightarrow> Inr (batch @ ops))
          else Inr batch)"

text \<open>The deletion of one key as scripts run it.\<close>

definition delete_key_internal :: "('w, 'e) db \<Rightarrow> bytes \<Rightarrow> bool \<Rightarrow> ('w, 'e, bool) action" where
  "delete_key_internal db key count_change =
     and_then (db_get db (mk_key db key)) (\<lambda>observed.
       case observed of
         None \<Rightarrow> return False
       | Some raw \<Rightarrow>
           (case (case decode_meta_header raw of None \<Rightarrow> Inr [(Delete, mk_key db key, [])] | Some header \<Rightarrow> delete_writes db key header) of
              Inl e \<Rightarrow> fail e
            | Inr batch \<Rightarrow>
                and_then (write_batch_if_not_empty db batch) (\<lambda>_.
                and_then (fetch_add_changes (if count_change then 1 else 0)) (\<lambda>_. return True))))"

fun expire_all_keys :: "('w, 'e) db \<Rightarrow> bytes list \<Rightarrow> ('w, 'e, unit) action" where
  "expire_all_keys db [] = return ()"
| "expire_all_keys db (key # keys) = and_then (expire_if_needed db key) (\<lambda>_. expire_all_keys db keys)"

definition db_multi_get :: "('w, 'e) db \<Rightarrow> bytes list \<Rightarrow> ('w, 'e, bytes option list) action" where
  "db_multi_get db raw_keys = engine_call (multi_get_raw (kv db) raw_keys)"

text \<open>The batches of several keys one after the other; the first error ends it.\<close>

fun delete_all_writes :: "('w, 'e) db \<Rightarrow> (bytes \<times> meta_header) list \<Rightarrow> 'e db_error + batch_op list" where
  "delete_all_writes db [] = Inr []"
| "delete_all_writes db ((key, header) # rest) =
     (case delete_writes db key header of
        Inl e \<Rightarrow> Inl e
      | Inr batch \<Rightarrow> (case delete_all_writes db rest of Inl e \<Rightarrow> Inl e | Inr batches \<Rightarrow> Inr (batch @ batches)))"

definition forget_list_metas :: "('w, 'e) db \<Rightarrow> bytes list \<Rightarrow> ('w, 'e, unit) action" where
  "forget_list_metas db keys = modify (\<lambda>s. foldl (\<lambda>s key. remove_list_meta_cache_if_non_transactional db key s) s keys)"

definition delete_found ::
  "('w, 'e) db \<Rightarrow> (bytes \<times> bytes option \<times> meta_header) list \<Rightarrow> 'a \<Rightarrow> ('w, 'e, 'a option) action"
where
  "delete_found db found result =
     (case delete_all_writes db (map (\<lambda>(key, _, header). (key, header)) found) of
        Inl e \<Rightarrow> fail e
      | Inr batch \<Rightarrow>
          and_then (compare_and_write_batch_if_not_empty db (map (\<lambda>(key, observed, _). (mk_key db key, observed)) found) batch)
            (\<lambda>written.
              if \<not> written then return None
              else and_then (fetch_add_changes (length found)) (\<lambda>_.
                   and_then (forget_list_metas db (map fst found)) (\<lambda>_. return (Some result)))))"

definition delete_keys_round :: "('w, 'e) db \<Rightarrow> bytes list \<Rightarrow> ('w, 'e, nat option) action" where
  "delete_keys_round db keys =
     and_then (expire_all_keys db keys) (\<lambda>_.
     and_then (db_multi_get db (map (mk_key db) keys)) (\<lambda>observations.
       (let found = List.map_filter (\<lambda>(key, observed).
              map_option (\<lambda>header. (key, observed, header)) (Option.bind observed decode_meta_header)) (zip keys observations)
        in if found = [] then return (Some 0) else delete_found db found (length found))))"

definition delete_keys_async :: "('w, 'e) db \<Rightarrow> bytes list \<Rightarrow> ('w, 'e, nat) action" where
  "delete_keys_async db keys =
     (let keys = distinct_keys keys
      in if keys = [] then return 0 else retry (delete_keys_round db keys))"

section \<open>Pipelined DEL\<close>

text \<open>One command: the keys it deletes, given those that earlier commands delete.\<close>

fun count_command :: "(bytes \<Rightarrow> bool) \<Rightarrow> bytes list \<Rightarrow> bytes list \<Rightarrow> bytes list \<Rightarrow> nat \<Rightarrow> nat \<times> bytes list" where
  "count_command live [] seen removed n = (n, removed)"
| "count_command live (key # keys) seen removed n =
     (if key \<notin> set seen \<and> live key \<and> key \<notin> set removed
      then count_command live keys (key # seen) (key # removed) (n + 1)
      else count_command live keys (key # seen) removed n)"

fun count_commands :: "(bytes \<Rightarrow> bool) \<Rightarrow> bytes list list \<Rightarrow> bytes list \<Rightarrow> nat list \<times> bytes list" where
  "count_commands live [] removed = ([], removed)"
| "count_commands live (keys # commands) removed =
     (case count_command live keys [] removed 0 of (n, removed') \<Rightarrow>
        case count_commands live commands removed' of (ns, removed'') \<Rightarrow> (n # ns, removed''))"

definition live_header :: "u64 \<Rightarrow> bytes option \<Rightarrow> meta_header option" where
  "live_header now observed =
     (case Option.bind observed decode_meta_header of
        None \<Rightarrow> None
      | Some header \<Rightarrow> if mh_expire_ms header = 0 \<or> now < mh_expire_ms header then Some header else None)"

definition delete_commands_round :: "('w, 'e) db \<Rightarrow> bytes list list \<Rightarrow> ('w, 'e, nat list option) action" where
  "delete_commands_round db commands =
     (let keys = distinct_keys (concat commands)
      in and_then (db_multi_get db (map (mk_key db) keys)) (\<lambda>observations.
         and_then (now_ms db) (\<lambda>now.
           (let observed_of = map_of (zip keys observations);
                header_of = (\<lambda>key. live_header now (Option.bind (observed_of key) id))
            in case count_commands (\<lambda>key. header_of key \<noteq> None) commands [] of (replies, removed) \<Rightarrow>
                 if removed = [] then return (Some replies)
                 else delete_found db
                   (map (\<lambda>key. (key, Option.bind (observed_of key) id, the (header_of key))) (filter (\<lambda>key. key \<in> set removed) keys))
                   replies))))"

definition delete_key_commands_batch_async :: "('w, 'e) db \<Rightarrow> bytes list list \<Rightarrow> ('w, 'e, nat list) action" where
  "delete_key_commands_batch_async db commands =
     (if commands = [] then return [] else retry (delete_commands_round db commands))"

end
