(* ===== verification/Key_Refine.thy ===== *)
theory Key_Refine
  imports Db_Contract Key_Store Ttl_Properties
begin

text \<open>
  What a commit that concerns one key does to the store: the record of the key, the index of deadlines, and nothing else but
  records that are no client's data. The theorems built on this describe a command at one instant (\<open>at_instant\<close>), as the
  engine's contract describes it without interference.
\<close>

section \<open>Setting\<close>

definition FULLTEXT_PREFIX :: bytes where
  "FULLTEXT_PREFIX = TABLE_LOCAL_INTERNAL_PREFIX @ [CHR 0xFF, CHR ''f'']"

text \<open>The full-text subsystem answers and writes only its own records.\<close>

definition fulltext_op :: "batch_op \<Rightarrow> bool" where
  "fulltext_op = (\<lambda>(wt, x, _). wt = Put \<and> starts_with x FULLTEXT_PREFIX)"

definition fulltext_local :: "(bytes \<Rightarrow> char \<Rightarrow> 'e + batch_op list) \<Rightarrow> bool" where
  "fulltext_local f \<longleftrightarrow> (\<forall>key tag. \<exists>ops. f key tag = Inr ops \<and> list_all fulltext_op ops)"

definition at_instant :: "('w, 'e) db \<Rightarrow> ('w \<Rightarrow> bytes \<rightharpoonup> bytes) \<Rightarrow> u64 \<Rightarrow> bool" where
  "at_instant db view now \<longleftrightarrow>
     serves db view \<and> fulltext_local (fulltext_delete db) \<and> (\<forall>w. clock_ms (kv db) w = now)"

text \<open>Records beside the clients' data.\<close>

definition side_key :: "u16 \<Rightarrow> bytes \<Rightarrow> bool" where
  "side_key d x \<longleftrightarrow> starts_with x (version_owner_prefix d) \<or> starts_with x TTL_INDEX_PREFIX \<or> starts_with x FULLTEXT_PREFIX"

definition deadline_of :: "bytes option \<Rightarrow> u64" where
  "deadline_of raw = (case Option.bind raw decode_meta_header of None \<Rightarrow> 0 | Some header \<Rightarrow> mh_expire_ms header)"

text \<open>The index has exactly the deadline of the record.\<close>

definition indexed :: "u16 \<Rightarrow> (bytes \<rightharpoonup> bytes) \<Rightarrow> bytes \<Rightarrow> bool" where
  "indexed d m key \<longleftrightarrow> (\<forall>e. e \<noteq> 0 \<longrightarrow> (m (ttl_index_key e d key) \<noteq> None \<longleftrightarrow> deadline_of (m key) = e))"

definition live :: "u64 \<Rightarrow> bytes option \<Rightarrow> bytes option" where
  "live now raw = (if deadline_of raw = 0 \<or> now < deadline_of raw then raw else None)"

text \<open>The records of the keys \<open>K\<close> become \<open>new\<close>.\<close>

definition wrote ::
  "('w, 'e) db \<Rightarrow> ('w \<Rightarrow> bytes \<rightharpoonup> bytes) \<Rightarrow> 'w db_state \<Rightarrow> bytes set \<Rightarrow> (bytes \<rightharpoonup> bytes) \<Rightarrow> nat \<Rightarrow> 'w db_state \<Rightarrow> bool"
where
  "wrote db view s K new n s' \<longleftrightarrow>
     cache_ok db view s' \<and> (\<forall>k \<in> K. view (engine s') k = new k) \<and> changes s' = changes s + n \<and>
     (\<forall>x. x \<notin> K \<and> \<not> side_key (db_no db) x \<longrightarrow> view (engine s') x = view (engine s) x) \<and>
     (\<forall>k. utf8_valid k \<longrightarrow> indexed (db_no db) (view (engine s)) k \<longrightarrow> indexed (db_no db) (view (engine s')) k)"

text \<open>What a batch does to the records of \<open>K\<close>, whose deadlines were \<open>old\<close>.\<close>

definition effect :: "u16 \<Rightarrow> bytes set \<Rightarrow> (bytes \<Rightarrow> u64) \<Rightarrow> (bytes \<rightharpoonup> bytes) \<Rightarrow> batch_op list \<Rightarrow> bool" where
  "effect d K old new batch \<longleftrightarrow> list_all plain_op batch \<and>
     (\<forall>m. (\<forall>k \<in> K. apply_batch batch m k = new k) \<and>
       (\<forall>x. x \<notin> K \<and> \<not> side_key d x \<longrightarrow> apply_batch batch m x = m x) \<and>
       (\<forall>k e. k \<in> K \<and> e \<noteq> 0 \<longrightarrow> (apply_batch batch m (ttl_index_key e d k) \<noteq> None \<longleftrightarrow>
          e = deadline_of (new k) \<or> e \<noteq> old k \<and> m (ttl_index_key e d k) \<noteq> None)) \<and>
       (\<forall>k e. utf8_valid k \<and> k \<notin> K \<longrightarrow> apply_batch batch m (ttl_index_key e d k) = m (ttl_index_key e d k)))"

lemma at_instant_serves: "at_instant db view now \<Longrightarrow> serves db view"
  by (simp add: at_instant_def)

lemma at_instant_contract: "at_instant db view now \<Longrightarrow> engine_contract (kv db) view"
  by (simp add: at_instant_def serves_def)

lemma at_instant_now: "at_instant db view now \<Longrightarrow> now_ms db s = (Inr now, s)"
  by (simp add: at_instant_def now_ms_def)

lemma at_instant_key: "at_instant db view now \<Longrightarrow> mk_key db key = key"
  using mk_key_eq [of db view key] by (simp add: at_instant_def)

section \<open>Keys apart\<close>

lemma utf8_not_side: "utf8_valid k \<Longrightarrow> \<not> side_key d k"
  using utf8_not_internal [of k "[CHR 0xFF, CHR ''f'']"] utf8_valid_no_FF [of k] utf8_not_internal [of k]
  by (auto simp: side_key_def FULLTEXT_PREFIX_def TTL_INDEX_PREFIX_def version_owner_prefix_def CURRENT_def starts_with_iff)

lemma ttl_index_key_prefix [simp]: "starts_with (ttl_index_key e d key) TTL_INDEX_PREFIX"
  by (simp add: ttl_index_key_def starts_with_iff)

lemma ttl_index_key_side: "side_key d (ttl_index_key e d' key)"
  by (simp add: side_key_def)

lemma ttl_index_key_inject:
  "utf8_valid k \<Longrightarrow> utf8_valid k' \<Longrightarrow> ttl_index_key e d k = ttl_index_key e' d k' \<longleftrightarrow> e = e' \<and> k = k'"
  by (metis parse_ttl_index_key_written option.inject prod.inject)

lemma ttl_index_key_other_side:
  "\<not> starts_with (ttl_index_key e d key) (version_owner_prefix d')" "\<not> starts_with (ttl_index_key e d key) FULLTEXT_PREFIX"
  by (auto simp: ttl_index_key_def ttl_db_prefix_def starts_with_iff TTL_INDEX_PREFIX_def version_owner_prefix_def CURRENT_def
      FULLTEXT_PREFIX_def TABLE_LOCAL_INTERNAL_PREFIX_def)

section \<open>Effects\<close>

text \<open>The operations that concern one key.\<close>

definition key_op :: "u16 \<Rightarrow> bytes \<Rightarrow> batch_op \<Rightarrow> bool" where
  "key_op d key op \<longleftrightarrow> fulltext_op op \<or>
     (\<exists>wt v. (wt = Put \<or> wt = Delete) \<and> (op = (wt, key, v) \<or> (\<exists>e. op = (wt, ttl_index_key e d key, v))))"

lemma key_op_plain: "key_op d key op \<Longrightarrow> plain_op op"
  by (auto simp: key_op_def fulltext_op_def)

lemma key_op_frame:
  assumes "key_op d key op" "x \<noteq> key" "\<not> side_key d x"
  shows "\<not> op_touches op x"
  using assms by (auto simp: key_op_def fulltext_op_def side_key_def)

lemma key_op_index:
  assumes "key_op d key op" "utf8_valid key" "utf8_valid k" "k \<noteq> key"
  shows "\<not> op_touches op (ttl_index_key e d k)"
  using assms ttl_index_key_other_side(2) [of e d k] utf8_not_side [OF assms(2), of d] ttl_index_key_side [of d e d k]
  by (auto simp: key_op_def fulltext_op_def ttl_index_key_inject)

lemma effectI:
  assumes "utf8_valid key" "list_all (key_op d key) batch"
    and "\<And>m. apply_batch batch m key = new"
    and "\<And>m e. e \<noteq> 0 \<Longrightarrow> apply_batch batch m (ttl_index_key e d key) \<noteq> None \<longleftrightarrow>
      e = deadline_of new \<or> e \<noteq> old \<and> m (ttl_index_key e d key) \<noteq> None"
  shows "effect d {key} (\<lambda>_. old) (\<lambda>_. new) batch"
proof -
  have "apply_batch batch m x = m x" if "x \<noteq> key" "\<not> side_key d x" for m x
    using assms(2) key_op_frame that by (intro apply_batch_other) (auto simp: list_all_iff)
  moreover have "apply_batch batch m (ttl_index_key e d k) = m (ttl_index_key e d k)" if "utf8_valid k" "k \<noteq> key" for m k e
    using assms(1,2) key_op_index that by (intro apply_batch_other) (auto simp: list_all_iff)
  moreover have "list_all plain_op batch" using assms(2) key_op_plain by (auto simp: list_all_iff)
  ultimately show ?thesis using assms(3,4) by (simp add: effect_def)
qed

text \<open>Batches of different keys do not get in each other's way.\<close>

lemma effect_append:
  assumes "effect d K old new a" "effect d L old new b" "K \<inter> L = {}"
    and "\<forall>k \<in> K \<union> L. utf8_valid k"
  shows "effect d (K \<union> L) old new (a @ b)"
proof -
  have u: "\<not> side_key d k" if "k \<in> K \<union> L" for k using assms(4) utf8_not_side that by blast
  have A: "list_all plain_op a" "\<And>m k. k \<in> K \<Longrightarrow> apply_batch a m k = new k"
    "\<And>m x. x \<notin> K \<Longrightarrow> \<not> side_key d x \<Longrightarrow> apply_batch a m x = m x"
    "\<And>m k e. k \<in> K \<Longrightarrow> e \<noteq> 0 \<Longrightarrow> apply_batch a m (ttl_index_key e d k) \<noteq> None \<longleftrightarrow>
          e = deadline_of (new k) \<or> e \<noteq> old k \<and> m (ttl_index_key e d k) \<noteq> None"
    "\<And>m k e. utf8_valid k \<Longrightarrow> k \<notin> K \<Longrightarrow> apply_batch a m (ttl_index_key e d k) = m (ttl_index_key e d k)"
    using assms(1) unfolding effect_def by blast+
  have B: "list_all plain_op b" "\<And>m k. k \<in> L \<Longrightarrow> apply_batch b m k = new k"
    "\<And>m x. x \<notin> L \<Longrightarrow> \<not> side_key d x \<Longrightarrow> apply_batch b m x = m x"
    "\<And>m k e. k \<in> L \<Longrightarrow> e \<noteq> 0 \<Longrightarrow> apply_batch b m (ttl_index_key e d k) \<noteq> None \<longleftrightarrow>
          e = deadline_of (new k) \<or> e \<noteq> old k \<and> m (ttl_index_key e d k) \<noteq> None"
    "\<And>m k e. utf8_valid k \<Longrightarrow> k \<notin> L \<Longrightarrow> apply_batch b m (ttl_index_key e d k) = m (ttl_index_key e d k)"
    using assms(2) unfolding effect_def by blast+
  show ?thesis
    unfolding effect_def apply_batch_append
  proof (intro conjI allI ballI impI)
    show "list_all plain_op (a @ b)" using A(1) B(1) by simp
    show "apply_batch b (apply_batch a m) k = new k" if "k \<in> K \<union> L" for m k
      using that A(2) B(2) B(3) [of k] u [of k] assms(3) by (cases "k \<in> L") auto
    show "apply_batch b (apply_batch a m) x = m x" if "x \<notin> K \<union> L \<and> \<not> side_key d x" for m x
      using that A(3) B(3) by auto
    show "apply_batch b (apply_batch a m) (ttl_index_key e d k) \<noteq> None \<longleftrightarrow>
        e = deadline_of (new k) \<or> e \<noteq> old k \<and> m (ttl_index_key e d k) \<noteq> None" if "k \<in> K \<union> L \<and> e \<noteq> 0" for m k e
    proof (cases "k \<in> L")
      case True
      then have "k \<notin> K" "utf8_valid k" using assms(3,4) by auto
      then show ?thesis using that True A(5) B(4) by simp
    next
      case False
      then have "k \<in> K" "utf8_valid k" using that assms(4) by auto
      then show ?thesis using that False A(4) B(5) by simp
    qed
    show "apply_batch b (apply_batch a m) (ttl_index_key e d k) = m (ttl_index_key e d k)"
      if "utf8_valid k \<and> k \<notin> K \<union> L" for m k e
      using that A(5) B(5) by simp
  qed
qed

text \<open>A committed batch.\<close>

lemma effect_wrote:
  assumes "committed db view batch s s'" "effect (db_no db) K (\<lambda>k. deadline_of (view (engine s) k)) new batch"
    and "\<forall>k \<in> K. utf8_valid k"
  shows "wrote db view s K new n (s'\<lparr>changes := changes s' + n\<rparr>)"
proof -
  let ?m = "view (engine s)" and ?m' = "view (engine s')" and ?d = "db_no db"
  have c: "\<not> starts_with x (version_owner_prefix ?d) \<Longrightarrow> ?m' x = apply_batch batch ?m x" for x
    using assms(1) by (simp add: committed_def)
  have u: "utf8_valid k \<Longrightarrow> ?m' k = apply_batch batch ?m k" for k
    using c [of k] utf8_not_side [of k ?d] by (simp add: side_key_def)
  have i: "?m' (ttl_index_key e ?d k) = apply_batch batch ?m (ttl_index_key e ?d k)" for e k
    by (rule c) (rule ttl_index_key_other_side)
  have keys: "\<And>k. k \<in> K \<Longrightarrow> ?m' k = new k" using assms(2,3) u by (simp add: effect_def)
  have inK: "k \<in> K \<Longrightarrow> e \<noteq> 0 \<Longrightarrow> apply_batch batch ?m (ttl_index_key e ?d k) \<noteq> None \<longleftrightarrow>
      e = deadline_of (new k) \<or> e \<noteq> deadline_of (?m k) \<and> ?m (ttl_index_key e ?d k) \<noteq> None" for k e
    using assms(2) unfolding effect_def by blast
  have outK: "utf8_valid k \<Longrightarrow> k \<notin> K \<Longrightarrow> apply_batch batch ?m (ttl_index_key e ?d k) = ?m (ttl_index_key e ?d k)" for k e
    using assms(2) unfolding effect_def by blast
  have "indexed ?d ?m' k" if k: "utf8_valid k" "indexed ?d ?m k" for k
  proof (cases "k \<in> K")
    case True
    then show ?thesis using k(2) inK [OF True] keys [OF True] by (auto simp: indexed_def i)
  next
    case False
    then have "?m' k = ?m k" using u [OF k(1)] assms(2) utf8_not_side [OF k(1)] by (simp add: effect_def)
    then show ?thesis using k outK [OF k(1) False] by (simp add: indexed_def i)
  qed
  moreover have "?m' x = ?m x" if "x \<notin> K" "\<not> side_key ?d x" for x
    using c [of x] assms(2) that by (simp add: effect_def side_key_def)
  ultimately show ?thesis using assms(1) keys by (simp add: wrote_def committed_def)
qed

text \<open>The full-text records of a batch can be left out of account.\<close>

lemma apply_batch_data:
  assumes "\<not> starts_with x FULLTEXT_PREFIX"
  shows "apply_batch batch m x = apply_batch (filter (\<lambda>op. \<not> fulltext_op op) batch) m x"
proof (induction batch rule: rev_induct)
  case (snoc op batch)
  show ?case
  proof (cases "fulltext_op op")
    case True
    then have "\<not> op_touches op x" using assms by (auto simp: fulltext_op_def)
    then show ?thesis using True snoc by (simp add: apply_op_other)
  next
    case False
    then show ?thesis using snoc by (cases op) (auto split: if_splits)
  qed
qed simp

lemma fulltext_op_data [simp]:
  "utf8_valid key \<Longrightarrow> \<not> fulltext_op (wt, key, v)" "\<not> fulltext_op (wt, ttl_index_key e d key, v)"
  using utf8_not_side [of key undefined] ttl_index_key_other_side(2) by (auto simp: fulltext_op_def side_key_def)

lemma data_fulltext [simp]: "list_all fulltext_op ops \<Longrightarrow> filter (\<lambda>op. \<not> fulltext_op op) ops = []"
  by (auto simp: list_all_iff filter_empty_conv)

text \<open>Writing a record with its deadline, and deleting one.\<close>

definition put_core :: "u16 \<Rightarrow> bytes \<Rightarrow> u64 \<Rightarrow> u64 \<Rightarrow> bytes \<Rightarrow> batch_op list" where
  "put_core d key old e raw =
     (if old \<noteq> 0 \<and> old \<noteq> e then [(Delete, ttl_index_key old d key, [])] else []) @
     [(Put, key, raw)] @ (if e \<noteq> 0 then [(Put, ttl_index_key e d key, TTL_INDEX_VALUE)] else [])"

definition delete_core :: "u16 \<Rightarrow> bytes \<Rightarrow> u64 \<Rightarrow> batch_op list" where
  "delete_core d key old = (Delete, key, []) # (if old \<noteq> 0 then [(Delete, ttl_index_key old d key, [])] else [])"

lemma effect_data:
  assumes "utf8_valid key" "list_all (key_op d key) batch" "filter (\<lambda>op. \<not> fulltext_op op) batch = core"
    and "\<And>m. apply_batch core m key = new"
    and "\<And>m e. e \<noteq> 0 \<Longrightarrow> apply_batch core m (ttl_index_key e d key) \<noteq> None \<longleftrightarrow>
      e = deadline_of new \<or> e \<noteq> old \<and> m (ttl_index_key e d key) \<noteq> None"
  shows "effect d {key} (\<lambda>_. old) (\<lambda>_. new) batch"
proof (rule effectI [OF assms(1,2)])
  have "\<not> starts_with key FULLTEXT_PREFIX" using utf8_not_side [OF assms(1), of d] by (simp add: side_key_def)
  then show "apply_batch batch m key = new" for m using apply_batch_data [of key batch m] assms(3,4) by simp
  show "apply_batch batch m (ttl_index_key e d key) \<noteq> None \<longleftrightarrow>
      e = deadline_of new \<or> e \<noteq> old \<and> m (ttl_index_key e d key) \<noteq> None" if "e \<noteq> 0" for m e
    using apply_batch_data [OF ttl_index_key_other_side(2), of batch m e d key] assms(3,5) that by simp
qed

lemma key_apart_index [simp]:
  assumes "utf8_valid key"
  shows "key \<noteq> ttl_index_key e d k" "ttl_index_key e d k \<noteq> key"
  using utf8_not_side [OF assms, of d] by (auto simp: side_key_def)

lemma put_core_ops: "list_all (key_op d key) (put_core d key old e raw)"
  by (auto simp: put_core_def key_op_def)

lemma delete_core_ops: "list_all (key_op d key) (delete_core d key old)"
  by (auto simp: delete_core_def key_op_def)

lemma fulltext_key_ops: "list_all fulltext_op ops \<Longrightarrow> list_all (key_op d key) ops"
  by (auto simp: list_all_iff key_op_def)

lemma effect_put:
  assumes "utf8_valid key" "list_all (key_op d key) batch" "filter (\<lambda>op. \<not> fulltext_op op) batch = put_core d key old e raw"
    and "deadline_of (Some raw) = e"
  shows "effect d {key} (\<lambda>_. old) (\<lambda>_. Some raw) batch"
proof (rule effect_data [OF assms(1-3)])
  show "apply_batch (put_core d key old e raw) m key = Some raw" for m
    using assms(1) by (simp add: put_core_def apply_batch_def)
  show "apply_batch (put_core d key old e raw) m (ttl_index_key e' d key) \<noteq> None \<longleftrightarrow>
      e' = deadline_of (Some raw) \<or> e' \<noteq> old \<and> m (ttl_index_key e' d key) \<noteq> None" if "e' \<noteq> 0" for m e'
    using assms(1,4) that by (auto simp: put_core_def apply_batch_def ttl_index_key_inject)
qed

lemma effect_delete:
  assumes "utf8_valid key" "list_all (key_op d key) batch" "filter (\<lambda>op. \<not> fulltext_op op) batch = delete_core d key old"
  shows "effect d {key} (\<lambda>_. old) (\<lambda>_. None) batch"
proof (rule effect_data [OF assms])
  show "apply_batch (delete_core d key old) m key = None" for m
    using assms(1) by (simp add: delete_core_def apply_batch_def)
  show "apply_batch (delete_core d key old) m (ttl_index_key e' d key) \<noteq> None \<longleftrightarrow>
      e' = deadline_of None \<or> e' \<noteq> old \<and> m (ttl_index_key e' d key) \<noteq> None" if "e' \<noteq> 0" for m e'
    using assms(1) that by (auto simp: delete_core_def apply_batch_def ttl_index_key_inject deadline_of_def)
qed

section \<open>Steps\<close>

lemma wrote_refl:
  "cache_ok db view s \<Longrightarrow> \<forall>k \<in> K. view (engine s) k = new k \<Longrightarrow> wrote db view s K new 0 s"
  by (simp add: wrote_def)

lemma wrote_trans:
  assumes "wrote db view s K new n s1" "wrote db view s1 L new' n' s2" "\<forall>k \<in> K. utf8_valid k"
  shows "wrote db view s (K \<union> L) (\<lambda>k. if k \<in> L then new' k else new k) (n + n') s2"
  using assms utf8_not_side unfolding wrote_def by (auto split: if_splits)

lemma wrote_again:
  assumes "wrote db view s {key} new n s1" "wrote db view s1 {key} new' n' s2" "utf8_valid key"
  shows "wrote db view s {key} new' (n + n') s2"
  using wrote_trans [OF assms(1,2)] assms(3) by (simp add: wrote_def)

lemma commit_round_run:
  assumes "at_instant db view now" "cache_ok db view s" "batch \<noteq> []"
    and "effect (db_no db) K (\<lambda>k. deadline_of (view (engine s) k)) new batch" "\<forall>k \<in> K. utf8_valid k"
    and "\<forall>(k, v) \<in> set conditions. view (engine s) k = v"
  obtains s' where "commit_round db conditions batch n result s = (Inr (Some result), s')" "wrote db view s K new n s'"
proof -
  have "list_all plain_op batch" using assms(4) by (simp add: effect_def)
  then obtain s1 where c: "compare_and_write_batch_if_not_empty db conditions batch s = (Inr True, s1)" "committed db view batch s s1"
    using compare_and_write_run [of db view s batch conditions] assms by (auto simp: at_instant_def serves_def)
  have "commit_round db conditions batch n result s = (Inr (Some result), s1\<lparr>changes := changes s1 + n\<rparr>)"
    using c(1) by (simp add: commit_round_def and_then_def fetch_add_changes_def modify_def return_def)
  then show ?thesis using that effect_wrote [OF c(2) assms(4,5)] by blast
qed

lemma retry_done: "body s = (Inr (Some x), s') \<Longrightarrow> retry body s = (Inr x, s')"
  using rounds_done [of body s x s' 64] by (simp add: retry_def and_then_def return_def)

lemma retry_fail: "body s = (Inl e, s') \<Longrightarrow> retry body s = (Inl e, s')"
  using rounds_fail [of body s e s' 64] by (simp add: retry_def and_then_def)

section \<open>Lazy expiry\<close>

lemma deadline_of_header: "decode_meta_header raw = Some header \<Longrightarrow> deadline_of (Some raw) = mh_expire_ms header"
  by (simp add: deadline_of_def)

lemma expiration_delete_effect:
  assumes "at_instant db view now" "utf8_valid key"
  obtains batch where "append_expiration_delete_to_batch db [] key header = Inr batch" "batch \<noteq> []"
    "effect (db_no db) {key} (\<lambda>_. mh_expire_ms header) (\<lambda>_. None) batch"
proof -
  obtain ops where ops: "fulltext_delete db key (mh_type_tag header) = Inr ops" "list_all fulltext_op ops"
    using assms(1) unfolding at_instant_def fulltext_local_def by meson
  let ?core = "delete_core (db_no db) key (mh_expire_ms header)"
  define F where "F = (if mh_type_tag header = TYPE_HASH \<or> mh_type_tag header = TYPE_JSON then ops else [])"
  have b: "append_expiration_delete_to_batch db [] key header = Inr (?core @ F)" "list_all fulltext_op F"
    using ops by (auto simp: append_expiration_delete_to_batch_def remove_known_to_batch_def delete_core_def at_instant_key [OF assms(1)]
        Let_def F_def)
  have "filter (\<lambda>op. \<not> fulltext_op op) ?core = ?core" using assms(2) by (simp add: delete_core_def)
  then have "effect (db_no db) {key} (\<lambda>_. mh_expire_ms header) (\<lambda>_. None) (?core @ F)"
    using b(2) by (intro effect_delete [OF assms(2)]) (simp_all add: delete_core_ops fulltext_key_ops)
  then show ?thesis using that b(1) by (simp add: delete_core_def)
qed

lemma expire_run:
  assumes "at_instant db view now" "cache_ok db view s" "utf8_valid key"
  obtains s' where "expire_if_needed db key s = (Inr (), s')" "wrote db view s {key} (\<lambda>_. live now (view (engine s) key)) 0 s'"
proof -
  note c = at_instant_contract [OF assms(1)] and k = at_instant_key [OF assms(1)] and t = at_instant_now [OF assms(1)]
  let ?v = "view (engine s) key"
  have ret: "expire_round db key s = (Inr (Some ()), s') \<Longrightarrow> expire_if_needed db key s = (Inr (), s')" for s'
    using rounds_done [of "expire_round db key" s "()" s' 64] by (simp add: expire_if_needed_def and_then_def return_def)
  show ?thesis
  proof (cases "live now ?v = ?v")
    case True
    then have "expire_round db key s = (Inr (Some ()), s)"
      by (cases ?v; cases "decode_meta_header (the ?v)")
        (auto simp: expire_round_def and_then_def db_get_run [OF c] k t return_def live_def deadline_of_def split: if_splits)
    then show ?thesis using that ret wrote_refl [OF assms(2)] True by simp
  next
    case False
    then obtain raw where v: "?v = Some raw" by (cases ?v) (auto simp: live_def)
    then obtain header where h: "decode_meta_header raw = Some header" "mh_expire_ms header \<noteq> 0" "\<not> now < mh_expire_ms header"
      using False by (cases "decode_meta_header raw") (auto simp: live_def deadline_of_def split: if_splits)
    obtain batch where b: "append_expiration_delete_to_batch db [] key header = Inr batch" "batch \<noteq> []"
      "effect (db_no db) {key} (\<lambda>_. mh_expire_ms header) (\<lambda>_. None) batch"
      using expiration_delete_effect [OF assms(1,3)] by blast
    have l: "live now ?v = None" "deadline_of ?v = mh_expire_ms header" using h v by (simp_all add: live_def deadline_of_def)
    then have e: "effect (db_no db) {key} (\<lambda>x. deadline_of (view (engine s) x)) (\<lambda>_. None) batch"
      using b(3) by (simp add: effect_def)
    obtain s1 where c1: "compare_and_write_batch_if_not_empty db [(key, ?v)] batch s = (Inr True, s1)" "committed db view batch s s1"
      using compare_and_write_run [of db view s batch "[(key, ?v)]"] assms(1,2) b(2) e by (auto simp: at_instant_def serves_def effect_def)
    have "expire_round db key s = (Inr (Some ()), s1)"
      using v h b(1) c1(1) by (simp add: expire_round_def and_then_def db_get_run [OF c] k t return_def)
    moreover have "wrote db view s {key} (\<lambda>_. None) 0 s1"
      using effect_wrote [OF c1(2) e, of 0] assms(3) by simp
    ultimately show ?thesis using that ret l(1) by simp
  qed
qed

end
