(* ===== verification/String_Pipeline.thy ===== *)
theory String_Pipeline
  imports Key_Store
begin

text \<open>
  A pipeline of string commands applied with one read and one write (\<^verbatim>\<open>apply_string_batch_mutations_async\<close> of
  \<^verbatim>\<open>src/store/db/string_batch_write_ops.rs\<close>): the values of all keys are read, the commands run on them in memory, and the
  changed keys are written back under one compare-and-write. The commands one by one, as the server runs them outside a pipeline,
  are in \<open>run_single\<close>.
\<close>

section \<open>Commands in memory\<close>

datatype string_batch_value = Batch_Missing | Batch_String bytes | Batch_Other

record string_batch_state =
  bs_value :: string_batch_value
  bs_expire_ms :: u64
  bs_dirty :: bool

definition state_from_raw :: "bytes option \<Rightarrow> string_batch_state" where
  "state_from_raw raw =
     (let (val, expire_ms) =
        (case raw of
           None \<Rightarrow> (Batch_Missing, 0)
         | Some raw \<Rightarrow>
             (case decode_meta_header raw of
                None \<Rightarrow> (Batch_Other, 0)
              | Some header \<Rightarrow>
                  if mh_type_tag header = TYPE_STRING
                  then (Batch_String (case decode_string_bytes raw of Some val \<Rightarrow> val | None \<Rightarrow> []), mh_expire_ms header)
                  else (Batch_Other, mh_expire_ms header)))
      in \<lparr>bs_value = val, bs_expire_ms = expire_ms, bs_dirty = False\<rparr>)"

definition string_value :: "string_batch_state \<Rightarrow> bytes option" where
  "string_value st = (case bs_value st of Batch_String val \<Rightarrow> Some val | _ \<Rightarrow> None)"

datatype string_batch_mutation =
    M_Append bytes bytes
  | M_GetSet bytes bytes
  | M_GetDel bytes
  | M_SetNx bytes bytes
  | M_SetBit bytes nat nat
  | M_SetRange bytes nat bytes
  | M_Psetex bytes u64 bytes

fun mutation_key :: "string_batch_mutation \<Rightarrow> bytes" where
  "mutation_key (M_Append key _) = key"
| "mutation_key (M_GetSet key _) = key"
| "mutation_key (M_GetDel key) = key"
| "mutation_key (M_SetNx key _) = key"
| "mutation_key (M_SetBit key _ _) = key"
| "mutation_key (M_SetRange key _ _) = key"
| "mutation_key (M_Psetex key _ _) = key"

datatype string_batch_reply = Reply_Bulk "bytes option" | Reply_Integer int | Reply_Ok

definition set_value :: "bytes \<Rightarrow> u64 \<Rightarrow> string_batch_state" where
  "set_value val expire_ms = \<lparr>bs_value = Batch_String val, bs_expire_ms = expire_ms, bs_dirty = True\<rparr>"

fun apply_string_batch_mutation ::
  "u64 \<Rightarrow> string_batch_mutation \<Rightarrow> string_batch_state \<Rightarrow> ('e db_error + (string_batch_reply \<times> bool)) \<times> string_batch_state"
where
  "apply_string_batch_mutation now (M_Append _ suffix) st =
     (case bs_value st of
        Batch_Other \<Rightarrow> (Inl Wrong_type_error, st)
      | v \<Rightarrow>
          (let current = (case v of Batch_String val \<Rightarrow> val | _ \<Rightarrow> [])
           in case checked_add (length current) (length suffix) of
                None \<Rightarrow> (Inl String_too_long, st)
              | Some required_len \<Rightarrow>
                  if required_len > MAX_BULK_STRING_BYTES then (Inl String_too_long, st)
                  else (Inr (Reply_Integer (int required_len), True), set_value (current @ suffix) (bs_expire_ms st))))"
| "apply_string_batch_mutation now (M_GetSet _ val) st =
     (case bs_value st of
        Batch_Other \<Rightarrow> (Inl Wrong_type_error, st)
      | v \<Rightarrow> (Inr (Reply_Bulk (case v of Batch_String old \<Rightarrow> Some old | _ \<Rightarrow> None), True), set_value val 0))"
| "apply_string_batch_mutation now (M_GetDel _) st =
     (case bs_value st of
        Batch_Missing \<Rightarrow> (Inr (Reply_Bulk None, False), st)
      | Batch_String old \<Rightarrow>
          (Inr (Reply_Bulk (Some old), True), \<lparr>bs_value = Batch_Missing, bs_expire_ms = 0, bs_dirty = True\<rparr>)
      | Batch_Other \<Rightarrow> (Inl Wrong_type_error, st))"
| "apply_string_batch_mutation now (M_SetNx _ val) st =
     (if bs_value st \<noteq> Batch_Missing then (Inr (Reply_Integer 0, False), st)
      else (Inr (Reply_Integer 1, True), set_value val 0))"
| "apply_string_batch_mutation now (M_SetBit _ offset b) st =
     (case bs_value st of
        Batch_Other \<Rightarrow> (Inl Wrong_type_error, st)
      | v \<Rightarrow>
          (case set_bit_mutation offset (b = 1) (case v of Batch_String val \<Rightarrow> val | _ \<Rightarrow> []) of
             Inl e \<Rightarrow> (Inl (bit_db_error e), st)
           | Inr (old, val) \<Rightarrow> (Inr (Reply_Integer (int old), True), set_value val (bs_expire_ms st))))"
| "apply_string_batch_mutation now (M_SetRange _ offset new) st =
     (case bs_value st of
        Batch_Other \<Rightarrow> (Inl Wrong_type_error, st)
      | v \<Rightarrow>
          (let current = (case v of Batch_String val \<Rightarrow> val | _ \<Rightarrow> [])
           in if new = [] then (Inr (Reply_Integer (int (length current)), False), st)
              else (case checked_add offset (length new) of
                  None \<Rightarrow> (Inl String_too_long, st)
                | Some required_len \<Rightarrow>
                    if required_len > MAX_BULK_STRING_BYTES then (Inl String_too_long, st)
                    else (let val = (if required_len > length current then resize_zero current required_len else current);
                              val = splice val offset new
                          in (Inr (Reply_Integer (int (length val)), True), set_value val (bs_expire_ms st))))))"
| "apply_string_batch_mutation now (M_Psetex _ ttl_ms val) st =
     (Inr (Reply_Ok, True), set_value val (saturating_add64 now ttl_ms))"

section \<open>The pipeline\<close>

text \<open>The replies, the number of commands that changed something, and the values afterwards.\<close>

fun run_batch ::
  "u64 \<Rightarrow> string_batch_mutation list \<Rightarrow> (bytes \<Rightarrow> string_batch_state) \<Rightarrow>
   ('e db_error + string_batch_reply) list \<times> nat \<times> (bytes \<Rightarrow> string_batch_state)"
where
  "run_batch now [] states = ([], 0, states)"
| "run_batch now (m # ms) states =
     (case apply_string_batch_mutation now m (states (mutation_key m)) of (result, st) \<Rightarrow>
        case run_batch now ms (states(mutation_key m := st)) of (replies, n, states') \<Rightarrow>
          (map_sum id fst result # replies, (case result of Inr (_, True) \<Rightarrow> n + 1 | _ \<Rightarrow> n), states'))"

definition batch_key_writes :: "('w, 'e) db \<Rightarrow> (bytes \<Rightarrow> bytes option) \<Rightarrow> (bytes \<Rightarrow> string_batch_state) \<Rightarrow> batch_op list \<Rightarrow> bytes \<Rightarrow> batch_op list" where
  "batch_key_writes db observed_of states batch key =
     (let batch = prepare_string_overwrite_to_batch db batch key (observed_of key)
      in case string_value (states key) of
           Some val \<Rightarrow> write_string_to_batch_with_deferred_old_raw db batch key val (bs_expire_ms (states key)) (observed_of key)
         | None \<Rightarrow>
             delete_main_key_with_ttl_to_batch db batch key
               (case Option.bind (observed_of key) decode_meta_header of Some header \<Rightarrow> mh_expire_ms header | None \<Rightarrow> 0))"

definition batch_round ::
  "('w, 'e) db \<Rightarrow> string_batch_mutation list \<Rightarrow> ('w, 'e, ('e db_error + string_batch_reply) list option) action"
where
  "batch_round db ms =
     (let keys = distinct_keys (map mutation_key ms)
      in and_then (expire_all_keys db keys) (\<lambda>_.
         and_then (db_multi_get db (map (mk_key db) keys)) (\<lambda>observations.
         and_then (now_ms db) (\<lambda>now.
           (let observed_of = (\<lambda>key. Option.bind (map_of (zip keys observations) key) id)
            in case run_batch now ms (\<lambda>key. state_from_raw (observed_of key)) of (replies, changed, states) \<Rightarrow>
                 (let dirty = filter (\<lambda>key. bs_dirty (states key)) keys
                  in if dirty = [] then return (Some replies)
                     else commit_round db (map (\<lambda>key. (mk_key db key, observed_of key)) dirty)
                       (foldl (batch_key_writes db observed_of states) [] dirty) changed replies))))))"

text \<open>An error of the store is the reply to every command.\<close>

definition apply_string_batch_mutations ::
  "('w, 'e) db \<Rightarrow> string_batch_mutation list \<Rightarrow> 'w db_state \<Rightarrow> ('e db_error + string_batch_reply) list \<times> 'w db_state"
where
  "apply_string_batch_mutations db ms s =
     (if ms = [] then ([], s)
      else (case retry (batch_round db ms) s of
          (Inl e, s') \<Rightarrow> (map (\<lambda>_. Inl e) ms, s')
        | (Inr replies, s') \<Rightarrow> (replies, s')))"

section \<open>The commands one by one\<close>

definition reply_with :: "('a \<Rightarrow> string_batch_reply) \<Rightarrow> ('w, 'e, 'a) action \<Rightarrow> ('w, 'e, string_batch_reply) action" where
  "reply_with f m = and_then m (\<lambda>x. return (f x))"

fun old_reply :: "set_outcome \<Rightarrow> string_batch_reply" where
  "old_reply (Was_Set old) = Reply_Bulk old"
| "old_reply Not_Set = Reply_Bulk None"

fun setnx_reply :: "set_outcome \<Rightarrow> string_batch_reply" where
  "setnx_reply (Was_Set _) = Reply_Integer 1"
| "setnx_reply Not_Set = Reply_Integer 0"

fun run_single :: "('w, 'e) db \<Rightarrow> string_batch_mutation \<Rightarrow> ('w, 'e, string_batch_reply) action" where
  "run_single db (M_Append key suffix) = reply_with (\<lambda>n. Reply_Integer (int n)) (append_apply db key suffix)"
| "run_single db (M_GetSet key val) = reply_with old_reply (set_string_bytes_async db key val Set_Clear Set_Always True)"
| "run_single db (M_GetDel key) = reply_with Reply_Bulk (getdel_string_bytes db key)"
| "run_single db (M_SetNx key val) = reply_with setnx_reply (set_string_bytes_async db key val Set_Clear Set_Nx False)"
| "run_single db (M_SetBit key offset b) = reply_with (\<lambda>n. Reply_Integer (int n)) (string_set_bit_async db key offset b)"
| "run_single db (M_SetRange key offset new) = reply_with (\<lambda>n. Reply_Integer (int n)) (setrange_apply db key offset new)"
| "run_single db (M_Psetex key ttl_ms val) = reply_with (\<lambda>_. Reply_Ok) (insert_string_bytes_async db key val (Some ttl_ms))"

fun run_each :: "('w, 'e) db \<Rightarrow> string_batch_mutation list \<Rightarrow> 'w db_state \<Rightarrow> ('e db_error + string_batch_reply) list \<times> 'w db_state" where
  "run_each db [] s = ([], s)"
| "run_each db (m # ms) s =
     (case run_single db m s of (reply, s') \<Rightarrow> case run_each db ms s' of (replies, s'') \<Rightarrow> (reply # replies, s''))"

end
