(* ===== verification/String_Refine.thy ===== *)
theory String_Refine
  imports Key_Refine String_Pipeline Assoc_Store
begin

text \<open>
  The string commands against the values they stand for: \<open>state_from_raw\<close> reads a record as a missing, string or other value,
  and \<open>apply_string_batch_mutation\<close> is what a command does to it. Each command of the server, and the pipeline as a whole,
  does that to the store.
\<close>

section \<open>Records and values\<close>

definition stored :: "string_batch_state \<Rightarrow> bytes option" where
  "stored st = (case bs_value st of Batch_String v \<Rightarrow> Some (encode_raw_string v (bs_expire_ms st)) | _ \<Rightarrow> None)"

definition state_ok :: "u64 \<Rightarrow> string_batch_state \<Rightarrow> bool" where
  "state_ok now st \<longleftrightarrow> (bs_expire_ms st = 0 \<or> now < bs_expire_ms st) \<and> plausible_expiry (bs_expire_ms st) \<and>
     (bs_value st = Batch_Missing \<longrightarrow> bs_expire_ms st = 0)"

definition same_state :: "string_batch_state \<Rightarrow> string_batch_state \<Rightarrow> bool" where
  "same_state st st' \<longleftrightarrow> bs_value st = bs_value st' \<and> bs_expire_ms st = bs_expire_ms st'"

lemma plausible_zero [simp]: "plausible_expiry 0"
  by (simp add: plausible_expiry_def)

lemma raw_string_header:
  "plausible_expiry e \<Longrightarrow> decode_meta_header (encode_raw_string v e) = Some \<lparr>mh_expire_ms = e, mh_version = 0, mh_type_tag = TYPE_STRING\<rparr>"
  "plausible_expiry e \<Longrightarrow> decode_string_bytes (encode_raw_string v e) = Some v"
  "plausible_expiry e \<Longrightarrow> deadline_of (Some (encode_raw_string v e)) = e"
  using deadline_and_string_read_back [of e] by (simp_all add: deadline_of_def)

lemma string_tag_decodes:
  "decode_meta_header raw = Some header \<Longrightarrow> mh_type_tag header = TYPE_STRING \<Longrightarrow> \<exists>v. decode_string_bytes raw = Some v"
  by (auto simp: decode_meta_header_def decode_string_bytes_def TYPE_LIST_def TYPE_STREAM_def TYPE_STRING_def split: if_splits)

lemma string_for_update_state:
  "string_for_update r =
     (case bs_value (state_from_raw r) of
        Batch_Missing \<Rightarrow> Inr (0, [])
      | Batch_String v \<Rightarrow> Inr (bs_expire_ms (state_from_raw r), v)
      | Batch_Other \<Rightarrow> Inl Wrong_type_error)"
  using string_tag_decodes by (fastforce simp: string_for_update_def state_from_raw_def split: option.splits)

lemma state_deadline: "bs_expire_ms (state_from_raw r) = deadline_of r"
  by (auto simp: state_from_raw_def deadline_of_def split: option.splits)

lemma plausible_live: "plausible_expiry (deadline_of r) \<Longrightarrow> plausible_expiry (deadline_of (live now r))"
  by (auto simp: live_def deadline_of_def)

lemma state_not_dirty [simp]: "\<not> bs_dirty (state_from_raw r)"
  by (simp add: state_from_raw_def split: prod.splits)

lemma state_missing: "bs_value (state_from_raw r) = Batch_Missing \<longleftrightarrow> r = None"
  by (auto simp: state_from_raw_def split: option.splits prod.splits)

lemma state_none [simp]: "state_from_raw None = \<lparr>bs_value = Batch_Missing, bs_expire_ms = 0, bs_dirty = False\<rparr>"
  by (simp add: state_from_raw_def)

lemma state_cases [case_names Missing String Other]:
  assumes "r = None \<Longrightarrow> P"
    and "\<And>v. r \<noteq> None \<Longrightarrow> bs_value (state_from_raw r) = Batch_String v \<Longrightarrow> P"
    and "r \<noteq> None \<Longrightarrow> bs_value (state_from_raw r) = Batch_Other \<Longrightarrow> P"
  shows P
  using assms state_missing [of r] by (cases "bs_value (state_from_raw r)") auto

lemma update_deadline: "string_for_update r = Inr (e, v) \<Longrightarrow> e = deadline_of r"
  by (auto simp: string_for_update_state state_deadline state_missing deadline_of_def split: string_batch_value.splits)

lemma state_from_live:
  assumes "plausible_expiry (deadline_of r)"
  shows "state_ok now (state_from_raw (live now r))"
  using assms by (auto simp: state_ok_def state_deadline state_missing live_def deadline_of_def split: option.splits)

lemma stored_back:
  assumes "state_ok now st" "bs_value st \<noteq> Batch_Other"
  shows "same_state (state_from_raw (stored st)) st" "live now (stored st) = stored st" "deadline_of (stored st) = bs_expire_ms st"
proof -
  have e: "plausible_expiry (bs_expire_ms st)" using assms(1) by (simp add: state_ok_def)
  have n: "state_from_raw None = \<lparr>bs_value = Batch_Missing, bs_expire_ms = 0, bs_dirty = False\<rparr>" by (simp add: state_from_raw_def)
  show "deadline_of (stored st) = bs_expire_ms st"
    using assms e by (cases "bs_value st") (auto simp: stored_def raw_string_header state_ok_def deadline_of_def)
  then show "live now (stored st) = stored st" using assms(1) by (auto simp: live_def state_ok_def)
  show "same_state (state_from_raw (stored st)) st"
    using assms e n by (cases "bs_value st")
      (auto simp: stored_def same_state_def state_from_raw_def raw_string_header [OF e] state_ok_def)
qed

section \<open>Writes\<close>

lemma enqueue_shape:
  assumes "fulltext_local (fulltext_delete db)"
  obtains F where "list_all fulltext_op F" "\<And>batch. enqueue_fulltext_delete_for_string_overwrite db batch key raw = batch @ F"
proof (cases "decode_meta_header raw")
  case (Some header)
  obtain ops where ops: "fulltext_delete db key (mh_type_tag header) = Inr ops" "list_all fulltext_op ops"
    using assms unfolding fulltext_local_def by meson
  show ?thesis
    using ops Some by (intro that [of "if mh_type_tag header = TYPE_HASH \<or> mh_type_tag header = TYPE_JSON then ops else []"])
      (auto simp: enqueue_fulltext_delete_for_string_overwrite_def)
qed (use that [of "[]"] in \<open>simp add: enqueue_fulltext_delete_for_string_overwrite_def\<close>)

lemma prepare_shape:
  assumes "fulltext_local (fulltext_delete db)"
  obtains F where "list_all fulltext_op F" "\<And>batch. prepare_string_overwrite_to_batch db batch key old = batch @ F"
proof (cases "\<exists>raw header. old = Some raw \<and> decode_meta_header raw = Some header \<and> mh_type_tag header \<noteq> TYPE_STRING")
  case True
  then obtain raw header where r: "old = Some raw" "decode_meta_header raw = Some header" "mh_type_tag header \<noteq> TYPE_STRING" by blast
  obtain F where "list_all fulltext_op F" "\<And>batch. enqueue_fulltext_delete_for_string_overwrite db batch key raw = batch @ F"
    using enqueue_shape [OF assms] by metis
  then show ?thesis using that [of F] r by (simp add: prepare_string_overwrite_to_batch_def)
next
  case False
  then have "prepare_string_overwrite_to_batch db batch key old = batch @ []" for batch
    by (auto simp: prepare_string_overwrite_to_batch_def split: option.splits)
  then show ?thesis using that [of "[]"] by simp
qed

lemma write_value_shape:
  assumes "at_instant db view now"
  shows "write_string_value_to_batch db batch key v e old = batch @ put_core (db_no db) key (deadline_of old) e (encode_raw_string v e)"
  by (cases "Option.bind old decode_meta_header")
    (auto simp: write_string_value_to_batch_def put_core_def deadline_of_def at_instant_key [OF assms] Let_def
      add_to_batch_def try_add_to_batch_def remove_to_batch_def remove_known_to_batch_def word_neq_0_conv)

lemma write_deferred_shape:
  assumes "at_instant db view now"
  obtains F where "list_all fulltext_op F" "\<And>batch. write_string_to_batch_with_deferred_old_raw db batch key v e old =
    batch @ F @ put_core (db_no db) key (deadline_of old) e (encode_raw_string v e)"
proof (cases old)
  case None
  then show ?thesis
    using that [of "[]"] write_value_shape [OF assms] by (simp add: write_string_to_batch_with_deferred_old_raw_def)
next
  case (Some raw)
  obtain F where "list_all fulltext_op F" "\<And>batch. enqueue_fulltext_delete_for_string_overwrite db batch key raw = batch @ F"
    using enqueue_shape assms unfolding at_instant_def by metis
  then show ?thesis
    using that [of F] write_value_shape [OF assms] Some by (simp add: write_string_to_batch_with_deferred_old_raw_def)
qed

lemma put_core_data: "utf8_valid key \<Longrightarrow> filter (\<lambda>op. \<not> fulltext_op op) (put_core d key old e raw) = put_core d key old e raw"
  by (simp add: put_core_def)

lemma delete_core_data: "utf8_valid key \<Longrightarrow> filter (\<lambda>op. \<not> fulltext_op op) (delete_core d key old) = delete_core d key old"
  by (simp add: delete_core_def)

lemma put_effect:
  assumes "utf8_valid key" "plausible_expiry e" "list_all fulltext_op F"
  shows "effect d {key} (\<lambda>_. old) (\<lambda>_. Some (encode_raw_string v e)) (F @ put_core d key old e (encode_raw_string v e))"
  using assms by (intro effect_put) (simp_all add: put_core_data put_core_ops fulltext_key_ops raw_string_header)

lemma delete_effect:
  assumes "utf8_valid key" "list_all fulltext_op F"
  shows "effect d {key} (\<lambda>_. old) (\<lambda>_. None) (F @ delete_core d key old)"
  using assms by (intro effect_delete) (simp_all add: delete_core_data delete_core_ops fulltext_key_ops)

lemma delete_main_shape:
  "at_instant db view now \<Longrightarrow> delete_main_key_with_ttl_to_batch db batch key e = batch @ delete_core (db_no db) key e"
  by (simp add: delete_main_key_with_ttl_to_batch_def delete_core_def remove_known_to_batch_def at_instant_key)

lemma effect_at: "effect d {key} (\<lambda>_. old key) new batch \<Longrightarrow> effect d {key} old new batch"
  by (simp add: effect_def)

section \<open>Commands\<close>

text \<open>The first steps of every command: lazy expiry, then the record.\<close>

lemma load_run:
  assumes "at_instant db view now" "cache_ok db view s" "utf8_valid key"
  obtains s1 where "expire_if_needed db key s = (Inr (), s1)" "wrote db view s {key} (\<lambda>_. live now (view (engine s) key)) 0 s1"
    "db_get db (mk_key db key) s1 = (Inr (live now (view (engine s) key)), s1)"
proof -
  obtain s1 where e: "expire_if_needed db key s = (Inr (), s1)" "wrote db view s {key} (\<lambda>_. live now (view (engine s) key)) 0 s1"
    using expire_run [OF assms] .
  then have "db_get db (mk_key db key) s1 = (Inr (live now (view (engine s) key)), s1)"
    by (simp add: db_get_run [OF at_instant_contract [OF assms(1)]] at_instant_key [OF assms(1)] wrote_def)
  then show ?thesis using that e by blast
qed

text \<open>The last step: the record is rewritten.\<close>

lemma store_run:
  assumes "at_instant db view now" "wrote db view s {key} (\<lambda>_. r) 0 s1" "utf8_valid key"
    and "effect (db_no db) {key} (\<lambda>_. deadline_of r) (\<lambda>_. new) batch" "batch \<noteq> []"
  obtains s' where "commit_round db [(mk_key db key, r)] batch n x s1 = (Inr (Some x), s')" "wrote db view s {key} (\<lambda>_. new) n s'"
proof -
  have v: "view (engine s1) key = r" "cache_ok db view s1" using assms(2) by (simp_all add: wrote_def)
  obtain s' where "commit_round db [(mk_key db key, r)] batch n x s1 = (Inr (Some x), s')" "wrote db view s1 {key} (\<lambda>_. new) n s'"
    by (rule commit_round_run [OF assms(1) v(2) assms(5) effect_at, of key "\<lambda>_. new" "[(mk_key db key, r)]"])
      (use assms v in \<open>auto simp: at_instant_key [OF assms(1)]\<close>)
  then show ?thesis using that wrote_again [OF assms(2) _ assms(3)] by fastforce
qed

text \<open>The result of a mutation, the record it leaves, and how often it counts as a change.\<close>

definition mutated :: "('e, 'r) mutation \<Rightarrow> bytes option \<Rightarrow> ('e db_error + 'r) \<times> bytes option \<times> nat" where
  "mutated f r =
     (case string_for_update r of
        Inl e \<Rightarrow> (Inl e, r, 0)
      | Inr (e, v) \<Rightarrow>
          (case f v (r \<noteq> None) of
             Inl x \<Rightarrow> (Inl x, r, 0)
           | Inr (result, changed, v') \<Rightarrow> (Inr result, if changed then (Some (encode_raw_string v' e), 1) else (r, 0))))"

lemma mutate_run:
  assumes "at_instant db view now" "cache_ok db view s" "utf8_valid key"
  defines "r \<equiv> live now (view (engine s) key)"
  assumes "plausible_expiry (deadline_of r)"
  obtains s' where
    "mutate_string_bytes_if_changed db key f s = (fst (mutated f r), s')"
    "wrote db view s {key} (\<lambda>_. fst (snd (mutated f r))) (snd (snd (mutated f r))) s'"
proof -
  obtain s1 where s1: "expire_if_needed db key s = (Inr (), s1)" "wrote db view s {key} (\<lambda>_. r) 0 s1"
    "db_get db (mk_key db key) s1 = (Inr r, s1)"
    unfolding r_def using load_run [OF assms(1-3)] .
  show ?thesis
  proof (cases "string_for_update r :: 'b db_error + _")
    case (Inl e)
    then have "mutate_round db key f s = (Inl e, s1)" by (simp add: mutate_round_def and_then_def s1(1,3) fail_def)
    then show ?thesis using that [of s1] s1(2) Inl by (simp add: mutate_string_bytes_if_changed_def mutated_def retry_fail)
  next
    case (Inr ev)
    obtain e v where ev: "ev = (e, v)" by force
    show ?thesis
    proof (cases "f v (r \<noteq> None)")
      case (Inl x)
      then have "mutate_round db key f s = (Inl x, s1)" using Inr ev by (simp add: mutate_round_def and_then_def s1(1,3) fail_def)
      then show ?thesis using that [of s1] s1(2) Inl Inr ev by (simp add: mutate_string_bytes_if_changed_def mutated_def retry_fail)
    next
      case (Inr y)
      obtain res ch v' where y: "y = (res, ch, v')" by (metis surj_pair)
      show ?thesis
      proof (cases ch)
        case False
        then have "mutate_round db key f s = (Inr (Some res), s1)"
          using \<open>string_for_update r = Inr ev\<close> Inr ev y by (simp add: mutate_round_def and_then_def s1(1,3) return_def)
        then show ?thesis
          using that [of s1] s1(2) \<open>string_for_update r = Inr ev\<close> Inr ev y False
          by (simp add: mutate_string_bytes_if_changed_def mutated_def retry_done)
      next
        case True
        have "e = deadline_of r" using \<open>string_for_update r = Inr ev\<close> ev by (blast intro: update_deadline)
        then have e: "e = deadline_of r" "plausible_expiry e" using assms(5) by simp_all
        obtain F where F: "list_all fulltext_op F" "\<And>batch. write_string_to_batch_with_deferred_old_raw db batch key v' e r =
            batch @ F @ put_core (db_no db) key (deadline_of r) e (encode_raw_string v' e)"
          using write_deferred_shape [OF assms(1)] by metis
        let ?b = "write_string_to_batch_with_deferred_old_raw db [] key v' e r"
        have "effect (db_no db) {key} (\<lambda>_. deadline_of r) (\<lambda>_. Some (encode_raw_string v' e)) ?b" "?b \<noteq> []"
          using put_effect [OF assms(3) e(2) F(1)] F(2) by (simp_all add: put_core_def)
        then obtain s' where s': "commit_round db [(mk_key db key, r)] ?b 1 res s1 = (Inr (Some res), s')"
          "wrote db view s {key} (\<lambda>_. Some (encode_raw_string v' e)) 1 s'"
          using store_run [OF assms(1) s1(2) assms(3)] by metis
        have "mutate_round db key f s = (Inr (Some res), s')"
          using \<open>string_for_update r = Inr ev\<close> Inr ev y True s'(1) by (simp add: mutate_round_def and_then_def s1(1,3))
        then show ?thesis
          using that [of s'] s'(2) \<open>string_for_update r = Inr ev\<close> Inr ev y True
          by (simp add: mutate_string_bytes_if_changed_def mutated_def retry_done)
      qed
    qed
  qed
qed

text \<open>What SET does to a record.\<close>

definition set_deadline :: "set_expiration \<Rightarrow> bytes option \<Rightarrow> u64" where
  "set_deadline expiration r = expiration_ms expiration (map_option mh_expire_ms (Option.bind r decode_meta_header))"

definition set_result ::
  "u64 \<Rightarrow> bytes \<Rightarrow> set_expiration \<Rightarrow> set_condition \<Rightarrow> bool \<Rightarrow> bytes option \<Rightarrow> ('e db_error + set_outcome) \<times> bytes option \<times> nat"
where
  "set_result now val expiration condition return_old r =
     (if \<not> condition_matches condition (Option.bind r decode_meta_header \<noteq> None) then (Inr Not_Set, r, 0)
      else (case (if return_old then old_string_value r else Inr None) of
          Inl e \<Rightarrow> (Inl e, r, 0)
        | Inr old \<Rightarrow>
            (Inr (Was_Set old),
             (let e = set_deadline expiration r in if e \<noteq> 0 \<and> \<not> now < e then None else Some (encode_raw_string val e)), 1)))"

lemma set_writes_effect:
  assumes "at_instant db view now" "utf8_valid key" "plausible_expiry e"
  shows "effect (db_no db) {key} (\<lambda>_. deadline_of r) (\<lambda>_. if e \<noteq> 0 \<and> \<not> now < e then None else Some (encode_raw_string val e))
      (set_writes db [] key val e now r)"
    and "set_writes db [] key val e now r \<noteq> []"
proof -
  obtain F where F: "list_all fulltext_op F" "\<And>batch. prepare_string_overwrite_to_batch db batch key r = batch @ F"
    using prepare_shape assms(1) unfolding at_instant_def by metis
  obtain G where G: "list_all fulltext_op G" "\<And>batch. write_string_to_batch_with_deferred_old_raw db batch key val e r =
      batch @ G @ put_core (db_no db) key (deadline_of r) e (encode_raw_string val e)"
    using write_deferred_shape [OF assms(1)] by metis
  have b: "set_writes db [] key val e now r =
      (if e \<noteq> 0 \<and> \<not> now < e then F @ delete_core (db_no db) key (deadline_of r)
       else (F @ G) @ put_core (db_no db) key (deadline_of r) e (encode_raw_string val e))"
  proof (cases "e \<noteq> 0 \<and> \<not> now < e")
    case True
    then show ?thesis
      by (cases "Option.bind r decode_meta_header")
        (auto simp: set_writes_def F(2) delete_core_def deadline_of_def remove_known_to_batch_def at_instant_key [OF assms(1)]
          word_neq_0_conv not_less Let_def)
  next
    case False
    then show ?thesis by (auto simp: set_writes_def F(2) G(2) word_neq_0_conv not_less)
  qed
  show "effect (db_no db) {key} (\<lambda>_. deadline_of r) (\<lambda>_. if e \<noteq> 0 \<and> \<not> now < e then None else Some (encode_raw_string val e))
      (set_writes db [] key val e now r)"
    unfolding b using F(1) G(1) assms(2,3) put_effect [of key e "F @ G" "db_no db" "deadline_of r" val]
      delete_effect [of key F "db_no db" "deadline_of r"] by (cases "e \<noteq> 0 \<and> \<not> now < e") auto
  show "set_writes db [] key val e now r \<noteq> []" unfolding b by (simp add: delete_core_def put_core_def)
qed

lemma set_run:
  fixes db :: "('w, 'e) db"
  assumes "at_instant db view now" "cache_ok db view s" "utf8_valid key"
  defines "r \<equiv> live now (view (engine s) key)"
  assumes "plausible_expiry (set_deadline expiration r)"
  obtains s' where
    "set_string_bytes_async db key val expiration condition return_old s = (fst (set_result now val expiration condition return_old r), s')"
    "wrote db view s {key} (\<lambda>_. fst (snd (set_result now val expiration condition return_old r :: ('e db_error + _) \<times> _)))
       (snd (snd (set_result now val expiration condition return_old r :: ('e db_error + _) \<times> _))) s'"
proof -
  obtain s1 where s1: "expire_if_needed db key s = (Inr (), s1)" "wrote db view s {key} (\<lambda>_. r) 0 s1"
    "db_get db (mk_key db key) s1 = (Inr r, s1)"
    unfolding r_def using load_run [OF assms(1-3)] .
  note run = set_round_def and_then_def s1(1,3) at_instant_now [OF assms(1)] fail_def return_def
  note loop = set_string_bytes_async_def set_result_def
  show ?thesis
  proof (cases "condition_matches condition (Option.bind r decode_meta_header \<noteq> None)")
    case False
    then have "set_round db key val expiration condition return_old s = (Inr (Some Not_Set), s1)" by (simp add: run)
    then show ?thesis using that [of s1] s1(2) False by (simp add: loop retry_done)
  next
    case True
    show ?thesis
    proof (cases "(if return_old then old_string_value r else Inr None) :: 'e db_error + bytes option")
      case (Inl e)
      then have "set_round db key val expiration condition return_old s = (Inl e, s1)" using True by (simp add: run)
      then show ?thesis using that [of s1] s1(2) True Inl by (simp add: loop retry_fail)
    next
      case (Inr old)
      let ?e = "set_deadline expiration r"
      obtain s' where s': "commit_round db [(mk_key db key, r)] (set_writes db [] key val ?e now r) 1 (Was_Set old) s1 = (Inr (Some (Was_Set old)), s')"
        "wrote db view s {key} (\<lambda>_. if ?e \<noteq> 0 \<and> \<not> now < ?e then None else Some (encode_raw_string val ?e)) 1 s'"
        using store_run [OF assms(1) s1(2) assms(3) set_writes_effect [OF assms(1,3,5)]] .
      then have "set_round db key val expiration condition return_old s = (Inr (Some (Was_Set old)), s')"
        using True Inr by (simp add: run set_deadline_def)
      then show ?thesis using that [of s'] s'(2) True Inr by (simp add: loop retry_done Let_def)
    qed
  qed
qed

definition getdel_result :: "bytes option \<Rightarrow> ('e db_error + bytes option) \<times> bytes option \<times> nat" where
  "getdel_result r =
     (if r = None then (Inr None, None, 0)
      else (case string_for_update r of Inl e \<Rightarrow> (Inl e, r, 0) | Inr (_, v) \<Rightarrow> (Inr (Some v), None, 1)))"

lemma getdel_run:
  fixes db :: "('w, 'e) db"
  assumes "at_instant db view now" "cache_ok db view s" "utf8_valid key"
  defines "r \<equiv> live now (view (engine s) key)"
  obtains s' where
    "getdel_string_bytes db key s = (fst (getdel_result r), s')"
    "wrote db view s {key} (\<lambda>_. fst (snd (getdel_result r :: ('e db_error + _) \<times> _))) (snd (snd (getdel_result r :: ('e db_error + _) \<times> _))) s'"
proof -
  obtain s1 where s1: "expire_if_needed db key s = (Inr (), s1)" "wrote db view s {key} (\<lambda>_. r) 0 s1"
    "db_get db (mk_key db key) s1 = (Inr r, s1)"
    unfolding r_def using load_run [OF assms(1-3)] .
  note run = getdel_round_def and_then_def s1(1,3) fail_def return_def
  note loop = getdel_string_bytes_def getdel_result_def
  show ?thesis
  proof (cases r)
    case None
    then have "getdel_round db key s = (Inr (Some None), s1)" by (simp add: run)
    then show ?thesis using that [of s1] s1(2) None by (simp add: loop retry_done)
  next
    case (Some raw)
    show ?thesis
    proof (cases "string_for_update r :: 'e db_error + _")
      case (Inl e)
      then have "getdel_round db key s = (Inl e, s1)" using Some by (simp add: run)
      then show ?thesis using that [of s1] s1(2) Inl Some by (simp add: loop retry_fail)
    next
      case (Inr ev)
      obtain e v where ev: "ev = (e, v)" by force
      have "e = deadline_of r" using Inr ev by (blast intro: update_deadline)
      then have "effect (db_no db) {key} (\<lambda>_. deadline_of r) (\<lambda>_. None) (delete_main_key_with_ttl_to_batch db [] key e)"
        "delete_main_key_with_ttl_to_batch db [] key e \<noteq> []"
        using delete_effect [of key "[]" "db_no db" "deadline_of r"] assms(3) delete_main_shape [OF assms(1), of "[]" key e]
        by (simp_all add: delete_core_def)
      then obtain s' where s': "commit_round db [(mk_key db key, r)] (delete_main_key_with_ttl_to_batch db [] key e) 1 (Some v) s1 =
          (Inr (Some (Some v)), s')" "wrote db view s {key} (\<lambda>_. None) 1 s'"
        using store_run [OF assms(1) s1(2) assms(3)] by metis
      then have "getdel_round db key s = (Inr (Some (Some v)), s')" using Inr ev Some by (simp add: run)
      then show ?thesis using that [of s'] s'(2) Inr ev Some by (simp add: loop retry_done)
    qed
  qed
qed

section \<open>Samples\<close>

text \<open>A store with one string.\<close>

definition string_world :: "(bytes \<times> bytes) list" where
  "string_world = [(''a'', encode_raw_string ''v'' 0)]"

lemma assoc_instant: "at_instant assoc_db map_of 1000"
  using assoc_serves by (simp add: at_instant_def fulltext_local_def assoc_db_def assoc_store_def)

lemma string_world_indexed: "utf8_valid k \<Longrightarrow> indexed (db_no assoc_db) (map_of (engine (assoc_state string_world))) k"
  using key_apart_index(1) [of "''a''"] raw_string_header(3) [of 0 "''v''"]
  by (auto simp: indexed_def string_world_def utf8_valid_ascii_Cons deadline_of_def [of None])

end
