(* ===== verification/Pipeline_Properties.thy ===== *)
theory Pipeline_Properties
  imports String_Refine
begin

text \<open>
  A pipeline of string commands is answered as if its commands had been run one by one: the same replies, the same records, the
  same deadlines in the index and the same count of changes. One command is a change of the value its key has in memory
  (\<open>single_result\<close>); a pipeline and a sequence of commands are both folds of such changes.
\<close>

section \<open>One command\<close>

definition record_ok :: "u64 \<Rightarrow> bytes option \<Rightarrow> bool" where
  "record_ok now r \<longleftrightarrow> live now r = r \<and> plausible_expiry (deadline_of r) \<and> (r \<noteq> None \<longrightarrow> Option.bind r decode_meta_header \<noteq> None)"

fun mutation_ok :: "u64 \<Rightarrow> string_batch_mutation \<Rightarrow> bool" where
  "mutation_ok now (M_SetBit key offset b) = (utf8_valid key \<and> b \<le> 1)"
| "mutation_ok now (M_Psetex key ttl val) =
     (utf8_valid key \<and> now < saturating_add64 now ttl \<and> plausible_expiry (saturating_add64 now ttl))"
| "mutation_ok now m = utf8_valid (mutation_key m)"

definition single_result ::
  "u64 \<Rightarrow> string_batch_mutation \<Rightarrow> bytes option \<Rightarrow> ('e db_error + string_batch_reply) \<times> bytes option \<times> nat"
where
  "single_result now m r =
     (case apply_string_batch_mutation now m (state_from_raw r) of (result, st) \<Rightarrow>
        (map_sum id fst result, if bs_dirty st then (stored st, 1) else (r, 0)))"

definition replied :: "('a \<Rightarrow> 'b) \<Rightarrow> ('e + 'a) \<times> 'c \<Rightarrow> ('e + 'b) \<times> 'c" where
  "replied f = map_prod (map_sum id f) id"

lemma replied_simps [simp]: "fst (replied f x) = map_sum id f (fst x)" "snd (replied f x) = snd x"
  by (simp_all add: replied_def)

lemma reply_with_run: "m s = (x, s') \<Longrightarrow> reply_with f m s = (map_sum id f x, s')"
  by (cases x) (simp_all add: reply_with_def and_then_def return_def)

lemma mutation_utf8: "mutation_ok now m \<Longrightarrow> utf8_valid (mutation_key m)"
  by (cases m) simp_all

lemmas outcome_defs = replied_def single_result_def mutated_def string_for_update_state stored_def set_value_def

lemma append_result:
  "replied (\<lambda>n. Reply_Integer (int n)) (mutated (\<lambda>v x. case append_mutation suffix v x of Inl e \<Rightarrow> Inl e | Inr (n, v') \<Rightarrow> Inr (n, True, v')) r) =
   single_result now (M_Append key suffix) r"
  by (cases r rule: state_cases) (auto simp: outcome_defs append_mutation_def checked_add_def split: option.splits)

lemma setbit_result:
  "replied (\<lambda>n. Reply_Integer (int n)) (mutated (\<lambda>v x. case (case set_bit_mutation offset (b = 1) v of Inl e \<Rightarrow> Inl (bit_db_error e) | Inr y \<Rightarrow> Inr y) of
       Inl e \<Rightarrow> Inl e | Inr (n, v') \<Rightarrow> Inr (n, True, v')) r) =
   single_result now (M_SetBit key offset b) r"
  by (cases r rule: state_cases) (auto simp: outcome_defs split: sum.splits prod.splits)

lemma setrange_result:
  "replied (\<lambda>n. Reply_Integer (int n)) (mutated (setrange_mutation offset new) r) = single_result now (M_SetRange key offset new) r"
  by (cases r rule: state_cases) (auto simp: outcome_defs setrange_mutation_def Let_def checked_add_def split: option.splits)

lemma getdel_single: "replied Reply_Bulk (getdel_result r) = single_result now (M_GetDel key) r"
  by (cases r rule: state_cases) (auto simp: outcome_defs getdel_result_def)

lemma old_value_state:
  "old_string_value r = (case bs_value (state_from_raw r) of
     Batch_Missing \<Rightarrow> Inr None | Batch_String v \<Rightarrow> Inr (Some v) | Batch_Other \<Rightarrow> Inl Wrong_type_error)"
  using string_tag_decodes by (fastforce simp: old_string_value_def state_from_raw_def split: option.splits)

lemma getset_result:
  "replied old_reply (set_result now val Set_Clear Set_Always True r) = single_result now (M_GetSet key val) r"
  by (cases r rule: state_cases) (auto simp: outcome_defs set_result_def set_deadline_def old_value_state)

lemma setnx_result:
  assumes "record_ok now r"
  shows "replied setnx_reply (set_result now val Set_Clear Set_Nx False r) = single_result now (M_SetNx key val) r"
  using assms by (cases r rule: state_cases) (auto simp: outcome_defs set_result_def set_deadline_def record_ok_def)

lemma psetex_result:
  assumes "now < saturating_add64 now ttl"
  shows "replied (\<lambda>_. Reply_Ok) (set_result now val (Set_At (saturating_add64 now ttl)) Set_Always False r) =
    single_result now (M_Psetex key ttl val) r"
  using assms by (auto simp: outcome_defs set_result_def set_deadline_def Let_def)

lemma psetex_run:
  "at_instant db view now \<Longrightarrow> reply_with (\<lambda>_. Reply_Ok) (insert_string_bytes_async db key val (Some ttl)) s =
    reply_with (\<lambda>_. Reply_Ok) (set_string_bytes_async db key val (Set_At (saturating_add64 now ttl)) Set_Always False) s"
  by (auto simp: insert_string_bytes_async_def reply_with_def and_then_def at_instant_now return_def split: prod.splits sum.splits)

lemma run_single_run:
  fixes db :: "('w, 'e) db"
  assumes "at_instant db view now" "cache_ok db view s" "mutation_ok now m"
  defines "r \<equiv> live now (view (engine s) (mutation_key m))"
  assumes "record_ok now r"
  obtains s' where "run_single db m s = (fst (single_result now m r), s')"
    "wrote db view s {mutation_key m} (\<lambda>_. fst (snd (single_result now m r :: ('e db_error + _) \<times> _)))
       (snd (snd (single_result now m r :: ('e db_error + _) \<times> _))) s'"
proof -
  have u: "utf8_valid (mutation_key m)" using assms(3) mutation_utf8 by blast
  have p: "plausible_expiry (deadline_of r)" using assms(5) by (simp add: record_ok_def)
  note mutate = mutate_run [OF assms(1,2) u p [unfolded r_def], folded r_def]
  note set_step = set_run [OF assms(1,2) u, folded r_def]
  note intro = that
  have finish: thesis if a: "a s = (fst y, s')" "wrote db view s {mutation_key m} (\<lambda>_. fst (snd y)) (snd (snd y)) s'"
    "run_single db m s = reply_with f a s" "replied f y = single_result now m r" for a f s' and y :: "('e db_error + 'x) \<times> _"
    using intro [of s'] reply_with_run [where m = a and f = f, OF a(1)] a(2-) by (metis replied_simps)
  show ?thesis
  proof (cases m)
    case (M_Append key suffix)
    show ?thesis by (rule mutate, rule finish) (auto simp: M_Append append_apply_def mutate_string_bytes_def append_result)
  next
    case (M_GetSet key val)
    have "plausible_expiry (set_deadline Set_Clear r)" by (simp add: set_deadline_def)
    then show ?thesis by (rule set_step, rule_tac finish) (auto simp: M_GetSet getset_result)
  next
    case (M_GetDel key)
    show ?thesis
      by (rule getdel_run [OF assms(1,2) u, folded r_def], rule finish) (auto simp: M_GetDel getdel_single)
  next
    case (M_SetNx key val)
    have "plausible_expiry (set_deadline Set_Clear r)" by (simp add: set_deadline_def)
    then show ?thesis by (rule set_step, rule_tac finish) (auto simp: M_SetNx setnx_result [OF assms(5)])
  next
    case (M_SetBit key offset b)
    then have "b \<le> 1" using assms(3) by simp
    show ?thesis by (rule mutate, rule finish) (use \<open>b \<le> 1\<close> in \<open>auto simp: M_SetBit string_set_bit_async_def mutate_string_bytes_def setbit_result simp del: One_nat_def\<close>)
  next
    case (M_SetRange key offset new)
    show ?thesis by (rule mutate, rule finish) (auto simp: M_SetRange setrange_apply_def setrange_result)
  next
    case (M_Psetex key ttl val)
    have "plausible_expiry (set_deadline (Set_At (saturating_add64 now ttl)) r)" using assms(3) M_Psetex by (simp add: set_deadline_def)
    then show ?thesis
      by (rule set_step, rule_tac finish) (use assms(3) M_Psetex in \<open>auto simp: psetex_run [OF assms(1)] psetex_result\<close>)
  qed
qed

section \<open>Values in memory and records\<close>

text \<open>The record of a key once its value in memory is written back over \<open>r\<close>.\<close>

definition record_after :: "bytes option \<Rightarrow> string_batch_state \<Rightarrow> bytes option" where
  "record_after r st = (if bs_dirty st then stored st else r)"

definition tracks :: "u64 \<Rightarrow> bytes option \<Rightarrow> string_batch_state \<Rightarrow> bool" where
  "tracks now r st \<longleftrightarrow> record_ok now (record_after r st) \<and> same_state (state_from_raw (record_after r st)) st \<and>
     (bs_dirty st \<longrightarrow> bs_value st \<noteq> Batch_Other)"

definition change_count :: "('e db_error + (string_batch_reply \<times> bool)) \<Rightarrow> nat" where
  "change_count result = (case result of Inr (_, True) \<Rightarrow> 1 | _ \<Rightarrow> 0)"

lemma tracks_refl: "record_ok now r \<Longrightarrow> tracks now r (state_from_raw r)"
  by (simp add: tracks_def record_after_def same_state_def)

lemma record_ok_state: "record_ok now r \<Longrightarrow> state_ok now (state_from_raw r)"
  using state_from_live [of r now] by (simp add: record_ok_def)

lemma apply_shape:
  assumes "apply_string_batch_mutation now m st = (result, st1)" "same_state st' st"
  shows "change_count result = 1 \<and> bs_dirty st1 \<and> bs_value st1 \<noteq> Batch_Other \<and> apply_string_batch_mutation now m st' = (result, st1) \<or>
    change_count result = 0 \<and> st1 = st \<and> apply_string_batch_mutation now m st' = (result, st')"
  using assms
  by (cases m; cases "bs_value st")
    (auto simp: same_state_def change_count_def set_value_def Let_def checked_add_def split: option.splits if_splits sum.splits prod.splits)

lemma apply_state_ok:
  assumes "apply_string_batch_mutation now m st = (result, st1)" "state_ok now st" "mutation_ok now m"
  shows "state_ok now st1"
  using assms
  by (cases m; cases "bs_value st")
    (auto simp: state_ok_def set_value_def Let_def split: option.splits if_splits sum.splits prod.splits)

lemma stored_ok:
  assumes "state_ok now st" "bs_value st \<noteq> Batch_Other" "bs_dirty st"
  shows "tracks now r st"
proof -
  have "record_ok now (stored st)"
    using assms stored_back [OF assms(1,2)] raw_string_header [of "bs_expire_ms st"]
    by (cases "bs_value st") (simp_all add: record_ok_def state_ok_def stored_def)
  then show ?thesis using assms stored_back(1) [OF assms(1,2)] by (simp add: tracks_def record_after_def)
qed

lemma apply_tracks:
  assumes "tracks now r st" "mutation_ok now m" "apply_string_batch_mutation now m st = (result, st1)"
  shows "tracks now r st1"
    and "single_result now m (record_after r st) = (map_sum id fst result, record_after r st1, change_count result)"
proof -
  let ?r = "record_after r st"
  have t: "record_ok now ?r" "same_state (state_from_raw ?r) st" using assms(1) by (simp_all add: tracks_def)
  have "state_ok now st" using record_ok_state [OF t(1)] t(2) by (simp add: state_ok_def same_state_def)
  then have ok: "state_ok now st1" using apply_state_ok assms by blast
  note s = apply_shape [OF assms(3) t(2)]
  then show "tracks now r st1" using assms(1) stored_ok [OF ok] by auto
  show "single_result now m ?r = (map_sum id fst result, record_after r st1, change_count result)"
    using s by (auto simp: single_result_def record_after_def)
qed

lemma run_batch_other:
  "run_batch now ms states = (replies, n, states') \<Longrightarrow> k \<notin> mutation_key ` set ms \<Longrightarrow> states' k = states k"
  by (induction ms arbitrary: states replies n) (fastforce split: prod.splits)+

section \<open>One command after the other\<close>

lemma run_each_run:
  fixes db :: "('w, 'e) db"
  assumes "at_instant db view now" "cache_ok db view s" "\<forall>m \<in> set ms. mutation_ok now m"
    and "\<forall>k \<in> mutation_key ` set ms. tracks now (r k) (states k) \<and> live now (view (engine s) k) = record_after (r k) (states k)"
    and "run_batch now ms states = (replies, n, states')"
  shows "\<exists>s'. run_each db ms s = (replies, s') \<and>
    wrote db view s (mutation_key ` set ms) (\<lambda>k. record_after (r k) (states' k)) n s' \<and>
    (\<forall>k \<in> mutation_key ` set ms. tracks now (r k) (states' k))"
  using assms(2-)
proof (induction ms arbitrary: s states replies n)
  case Nil
  then show ?case by (simp add: wrote_refl)
next
  case (Cons m ms)
  let ?k = "mutation_key m" and ?K = "mutation_key ` set ms"
  obtain result st1 where a: "apply_string_batch_mutation now m (states ?k) = (result :: 'e db_error + _, st1)" by force
  obtain replies' n' where b: "run_batch now ms (states(?k := st1)) = (replies', n', states')"
    "replies = map_sum id fst result # replies'" "n = change_count result + n'"
    using Cons.prems(4) a by (auto simp: change_count_def split: prod.splits sum.splits bool.splits)
  have u: "\<forall>k \<in> insert ?k ?K. utf8_valid k" using Cons.prems(2) mutation_utf8 by auto
  have t: "tracks now (r ?k) (states ?k)" "live now (view (engine s) ?k) = record_after (r ?k) (states ?k)" "mutation_ok now m"
    using Cons.prems by auto
  note st1 = apply_tracks [OF t(1,3) a]
  obtain s1 where s1: "run_single db m s = (map_sum id fst result, s1)"
    "wrote db view s {?k} (\<lambda>_. record_after (r ?k) st1) (change_count result) s1"
    using run_single_run [OF assms(1) Cons.prems(1) t(3)] t(1,2) st1(2) by (auto simp: tracks_def)
  have "tracks now (r k) ((states(?k := st1)) k) \<and> live now (view (engine s1) k) = record_after (r k) ((states(?k := st1)) k)"
    if "k \<in> ?K" for k
    using that Cons.prems(3) s1(2) st1(1) u utf8_not_side by (auto simp: wrote_def tracks_def record_ok_def)
  then obtain s' where s': "run_each db ms s1 = (replies', s')"
    "wrote db view s1 ?K (\<lambda>k. record_after (r k) (states' k)) n' s'" "\<forall>k \<in> ?K. tracks now (r k) (states' k)"
    using Cons.IH [OF _ _ _ b(1), of s1] Cons.prems(2) s1(2) by (auto simp: wrote_def)
  have other: "states' ?k = st1" if "?k \<notin> ?K" using run_batch_other [OF b(1) that] by simp
  have "wrote db view s ({?k} \<union> ?K) (\<lambda>k. if k \<in> ?K then record_after (r k) (states' k) else record_after (r ?k) st1) n s'"
    using wrote_trans [OF s1(2) s'(2)] u b(3) by simp
  then have "wrote db view s (insert ?k ?K) (\<lambda>k. record_after (r k) (states' k)) n s'" using other by (auto simp: wrote_def)
  moreover have "\<forall>k \<in> insert ?k ?K. tracks now (r k) (states' k)"
    using s'(3) other st1(1) by (cases "?k \<in> ?K") auto
  ultimately show ?case using s1(1) s'(1) b(2) by auto
qed

section \<open>All commands at once\<close>

lemma distinct_keys_spec: "distinct (distinct_keys keys)" "set (distinct_keys keys) = set keys"
  by (induction keys rule: rev_induct) (auto simp: distinct_keys_def)

lemma expire_all_run:
  assumes "at_instant db view now" "cache_ok db view s" "\<forall>k \<in> set keys. utf8_valid k"
  obtains s' where "expire_all_keys db keys s = (Inr (), s')"
    "wrote db view s (set keys) (\<lambda>k. live now (view (engine s) k)) 0 s'"
proof -
  have "\<exists>s'. expire_all_keys db keys s = (Inr (), s') \<and> wrote db view s (set keys) (\<lambda>k. live now (view (engine s) k)) 0 s'"
    using assms(2,3)
  proof (induction keys arbitrary: s)
    case Nil
    then show ?case by (simp add: return_def wrote_refl)
  next
    case (Cons key keys)
    then have u: "utf8_valid key" by simp
    obtain s1 where s1: "expire_if_needed db key s = (Inr (), s1)"
      "wrote db view s {key} (\<lambda>_. live now (view (engine s) key)) 0 s1"
      using expire_run [OF assms(1) Cons.prems(1) u] .
    then have c: "cache_ok db view s1" by (simp add: wrote_def)
    obtain s' where s': "expire_all_keys db keys s1 = (Inr (), s')"
      "wrote db view s1 (set keys) (\<lambda>k. live now (view (engine s1) k)) 0 s'"
      using Cons.IH [OF c] Cons.prems(2) by auto
    have same: "live now (view (engine s1) k) = live now (view (engine s) k)" if "k \<in> set keys" for k
      using that s1(2) Cons.prems(2) utf8_not_side by (cases "k = key") (auto simp: wrote_def live_def)
    have "wrote db view s ({key} \<union> set keys)
        (\<lambda>k. if k \<in> set keys then live now (view (engine s1) k) else live now (view (engine s) key)) 0 s'"
      using wrote_trans [OF s1(2) s'(2)] u by simp
    then have "wrote db view s (set (key # keys)) (\<lambda>k. live now (view (engine s) k)) 0 s'"
      using same by (auto simp: wrote_def)
    then show ?case using s1(1) s'(1) by (auto simp: and_then_def)
  qed
  then show ?thesis using that by blast
qed

lemma multi_get_run:
  assumes "at_instant db view now"
  shows "db_multi_get db keys s = (Inr (map (view (engine s)) keys), s)"
  using at_instant_contract [OF assms] by (simp add: db_multi_get_def engine_call_def engine_contract_def)

text \<open>The writes of one key, and of all the changed ones.\<close>

lemma batch_key_shape:
  assumes "at_instant db view now" "utf8_valid key" "plausible_expiry (bs_expire_ms (states key))"
    "bs_value (states key) \<noteq> Batch_Other"
  obtains B where "\<And>batch. batch_key_writes db observed_of states batch key = batch @ B" "B \<noteq> []"
    "effect (db_no db) {key} (\<lambda>k. deadline_of (observed_of k)) (\<lambda>k. stored (states k)) B"
proof -
  let ?r = "observed_of key" and ?e = "bs_expire_ms (states key)"
  obtain F where F: "list_all fulltext_op F" "\<And>batch. prepare_string_overwrite_to_batch db batch key ?r = batch @ F"
    using prepare_shape assms(1) unfolding at_instant_def by metis
  show ?thesis
  proof (cases "bs_value (states key)")
    case (Batch_String v)
    obtain G where G: "list_all fulltext_op G" "\<And>batch. write_string_to_batch_with_deferred_old_raw db batch key v ?e ?r =
        batch @ G @ put_core (db_no db) key (deadline_of ?r) ?e (encode_raw_string v ?e)"
      using write_deferred_shape [OF assms(1)] by metis
    show ?thesis
    proof (rule that)
      show "batch_key_writes db observed_of states batch key =
          batch @ (F @ G) @ put_core (db_no db) key (deadline_of ?r) ?e (encode_raw_string v ?e)" for batch
        by (simp add: batch_key_writes_def F(2) G(2) string_value_def Batch_String Let_def)
      show "effect (db_no db) {key} (\<lambda>k. deadline_of (observed_of k)) (\<lambda>k. stored (states k))
          ((F @ G) @ put_core (db_no db) key (deadline_of ?r) ?e (encode_raw_string v ?e))"
        using put_effect [OF assms(2,3), of "F @ G" "db_no db" "deadline_of ?r" v] F(1) G(1) Batch_String
        by (simp add: effect_def stored_def)
    qed (simp add: put_core_def)
  next
    case Batch_Missing
    show ?thesis
    proof (rule that)
      show "batch_key_writes db observed_of states batch key = batch @ F @ delete_core (db_no db) key (deadline_of ?r)" for batch
        by (simp add: batch_key_writes_def F(2) string_value_def Batch_Missing Let_def delete_main_shape [OF assms(1)] deadline_of_def
            split: option.splits)
      show "effect (db_no db) {key} (\<lambda>k. deadline_of (observed_of k)) (\<lambda>k. stored (states k))
          (F @ delete_core (db_no db) key (deadline_of ?r))"
        using delete_effect [OF assms(2) F(1), of "db_no db" "deadline_of ?r"] Batch_Missing by (simp add: effect_def stored_def)
    qed (simp add: delete_core_def)
  qed (use assms(4) in simp)
qed

lemma batch_writes_effect:
  assumes "at_instant db view now" "distinct keys"
    and "\<forall>k \<in> set keys. utf8_valid k \<and> plausible_expiry (bs_expire_ms (states k)) \<and> bs_value (states k) \<noteq> Batch_Other"
  shows "effect (db_no db) (set keys) (\<lambda>k. deadline_of (observed_of k)) (\<lambda>k. stored (states k))
      (foldl (batch_key_writes db observed_of states) [] keys) \<and>
    (keys \<noteq> [] \<longrightarrow> foldl (batch_key_writes db observed_of states) [] keys \<noteq> [])"
  using assms(2,3)
proof (induction keys rule: rev_induct)
  case (snoc key keys)
  then have k: "utf8_valid key" "plausible_expiry (bs_expire_ms (states key))" "bs_value (states key) \<noteq> Batch_Other" by auto
  obtain B where B: "\<And>batch. batch_key_writes db observed_of states batch key = batch @ B" "B \<noteq> []"
    "effect (db_no db) {key} (\<lambda>k. deadline_of (observed_of k)) (\<lambda>k. stored (states k)) B"
    by (rule batch_key_shape [where key = key and states = states and observed_of = observed_of, OF assms(1) k]) (rule that, assumption+)
  have "effect (db_no db) (set keys \<union> {key}) (\<lambda>k. deadline_of (observed_of k)) (\<lambda>k. stored (states k))
      (foldl (batch_key_writes db observed_of states) [] keys @ B)"
    by (rule effect_append) (use snoc B(3) in auto)
  then show ?case by (simp add: B(1,2))
qed (simp add: effect_def)

lemma run_batch_dirty:
  fixes replies :: "('e db_error + string_batch_reply) list"
  shows "run_batch now ms states = (replies, n, states') \<Longrightarrow>
     (\<forall>k. bs_dirty (states k) \<longrightarrow> bs_dirty (states' k)) \<and> (n \<noteq> 0 \<longrightarrow> (\<exists>k \<in> mutation_key ` set ms. bs_dirty (states' k)))"
proof (induction ms arbitrary: states replies n)
  case (Cons m ms)
  let ?k = "mutation_key m"
  obtain result st1 where a: "apply_string_batch_mutation now m (states ?k) = (result :: 'e db_error + _, st1)" by force
  obtain replies' :: "('e db_error + string_batch_reply) list" and n'
    where b: "run_batch now ms (states(?k := st1)) = (replies', n', states')" "n = change_count result + n'"
    using Cons.prems a by (auto simp: change_count_def split: prod.splits sum.splits bool.splits)
  have s: "change_count result = 1 \<and> bs_dirty st1 \<or> change_count result = 0 \<and> st1 = states ?k"
    using apply_shape [OF a, of "states ?k"] by (auto simp: same_state_def)
  show ?case using Cons.IH [OF b(1)] s b(2) by (auto split: if_splits)
qed simp

lemma batch_run:
  fixes db :: "('w, 'e) db"
  assumes "at_instant db view now" "cache_ok db view s" "\<forall>m \<in> set ms. mutation_ok now m" "ms \<noteq> []"
  defines "K \<equiv> mutation_key ` set ms" and "r \<equiv> \<lambda>k. if k \<in> mutation_key ` set ms then live now (view (engine s) k) else None"
  assumes "run_batch now ms (\<lambda>k. state_from_raw (r k)) = (replies :: ('e db_error + _) list, n, states)"
    and "\<forall>k \<in> K. tracks now (r k) (states k)"
  shows "\<exists>s'. apply_string_batch_mutations db ms s = (replies, s') \<and> wrote db view s K (\<lambda>k. record_after (r k) (states k)) n s'"
proof -
  define keys where "keys = distinct_keys (map mutation_key ms)"
  have keys: "distinct keys" "set keys = K" by (simp_all add: keys_def distinct_keys_spec K_def)
  have u: "\<forall>k \<in> set keys. utf8_valid k" using assms(3) mutation_utf8 keys(2) by (auto simp: K_def)
  obtain s1 where s1: "expire_all_keys db keys s = (Inr (), s1)"
    "wrote db view s (set keys) (\<lambda>k. live now (view (engine s) k)) 0 s1"
    using expire_all_run [OF assms(1,2) u] .
  have r: "Option.bind (map_of (zip keys (map (view (engine s1)) keys)) k) id = r k" for k
    using s1(2) keys(2) by (auto simp: map_of_zip_map r_def K_def wrote_def)
  let ?dirty = "filter (\<lambda>k. bs_dirty (states k)) keys"
  have mk: "mk_key db = (\<lambda>k. k)" using at_instant_key [OF assms(1)] by (simp add: fun_eq_iff)
  have round: "batch_round db ms s = (if ?dirty = [] then return (Some replies)
      else commit_round db (map (\<lambda>k. (mk_key db k, r k)) ?dirty) (foldl (batch_key_writes db r states) [] ?dirty) n replies) s1"
    using s1(1) assms(7) r by (simp add: batch_round_def keys_def [symmetric] and_then_def multi_get_run [OF assms(1)]
        at_instant_now [OF assms(1)] mk Let_def)
  have v1: "\<forall>k \<in> K. view (engine s1) k = r k" "cache_ok db view s1" using s1(2) keys(2) by (auto simp: wrote_def r_def K_def)
  have "\<exists>s'. batch_round db ms s = (Inr (Some replies), s') \<and> wrote db view s K (\<lambda>k. record_after (r k) (states k)) n s'"
  proof (cases "?dirty = []")
    case True
    then have "n = 0" "\<forall>k \<in> K. record_after (r k) (states k) = r k"
      using run_batch_dirty [OF assms(7)] keys(2) by (auto simp: filter_empty_conv record_after_def K_def)
    then show ?thesis using True round s1(2) v1 keys(2) by (auto simp: return_def wrote_def)
  next
    case False
    have ok: "utf8_valid k \<and> plausible_expiry (bs_expire_ms (states k)) \<and> bs_value (states k) \<noteq> Batch_Other" if "k \<in> set ?dirty" for k
    proof -
      have "tracks now (r k) (states k)" "utf8_valid k" "bs_dirty (states k)" using that assms(8) keys(2) u by auto
      then show ?thesis using record_ok_state [of now "record_after (r k) (states k)"] by (auto simp: tracks_def same_state_def state_ok_def)
    qed
    have "effect (db_no db) (set ?dirty) (\<lambda>k. deadline_of (r k)) (\<lambda>k. stored (states k)) (foldl (batch_key_writes db r states) [] ?dirty)"
      "foldl (batch_key_writes db r states) [] ?dirty \<noteq> []"
      using batch_writes_effect [OF assms(1), of ?dirty states r] keys(1) ok False by auto
    moreover have "effect (db_no db) (set ?dirty) (\<lambda>k. deadline_of (view (engine s1) k)) new batch"
      if "effect (db_no db) (set ?dirty) (\<lambda>k. deadline_of (r k)) new batch" for new batch
      using that v1(1) keys(2) by (simp add: effect_def)
    ultimately obtain s' where s': "commit_round db (map (\<lambda>k. (mk_key db k, r k)) ?dirty)
        (foldl (batch_key_writes db r states) [] ?dirty) n replies s1 = (Inr (Some replies), s')"
      "wrote db view s1 (set ?dirty) (\<lambda>k. stored (states k)) n s'"
      using commit_round_run [OF assms(1) v1(2), of "foldl (batch_key_writes db r states) [] ?dirty" "set ?dirty" "\<lambda>k. stored (states k)"
          "map (\<lambda>k. (mk_key db k, r k)) ?dirty" n replies] ok v1(1) keys(2) at_instant_key [OF assms(1)] by auto
    have "wrote db view s (K \<union> set ?dirty) (\<lambda>k. if k \<in> set ?dirty then stored (states k) else live now (view (engine s) k)) n s'"
      using wrote_trans [OF s1(2) s'(2)] u keys(2) by simp
    then have "wrote db view s K (\<lambda>k. record_after (r k) (states k)) n s'"
      using keys(2) by (auto simp: wrote_def record_after_def r_def K_def)
    then show ?thesis using s'(1) round False by auto
  qed
  then show ?thesis using assms(4) by (auto simp: apply_string_batch_mutations_def retry_done)
qed

section \<open>Equivalence\<close>

text \<open>What clients and the sweeper see of two stores is the same.\<close>

definition same_database :: "('w, 'e) db \<Rightarrow> ('w \<Rightarrow> bytes \<rightharpoonup> bytes) \<Rightarrow> 'w db_state \<Rightarrow> 'w db_state \<Rightarrow> bool" where
  "same_database db view s s' \<longleftrightarrow>
     (\<forall>x. \<not> side_key (db_no db) x \<longrightarrow> view (engine s) x = view (engine s') x) \<and> changes s = changes s' \<and>
     (\<forall>k e. utf8_valid k \<and> e \<noteq> 0 \<longrightarrow>
       (view (engine s) (ttl_index_key e (db_no db) k) = None \<longleftrightarrow> view (engine s') (ttl_index_key e (db_no db) k) = None))"

lemma wrote_same:
  assumes "wrote db view s K new n s1" "wrote db view s K new n s2" "\<forall>k. utf8_valid k \<longrightarrow> indexed (db_no db) (view (engine s)) k"
  shows "same_database db view s1 s2"
proof -
  let ?m1 = "view (engine s1)" and ?m2 = "view (engine s2)" and ?d = "db_no db"
  have same: "?m1 x = ?m2 x" if "\<not> side_key ?d x" for x
    using assms(1,2) that by (cases "x \<in> K") (auto simp: wrote_def)
  have "?m1 (ttl_index_key e ?d k) = None \<longleftrightarrow> ?m2 (ttl_index_key e ?d k) = None" if k: "utf8_valid k" "e \<noteq> 0" for k e
  proof -
    have "indexed ?d ?m1 k" "indexed ?d ?m2 k" using assms k(1) by (simp_all add: wrote_def)
    then show ?thesis using same [OF utf8_not_side [OF k(1)]] k(2) unfolding indexed_def by metis
  qed
  then show ?thesis using same assms(1,2) by (simp add: same_database_def wrote_def)
qed

text \<open>C16: A pipeline of string commands, which the server answers with one read and one compare-and-write, gives the replies the commands
  give when each runs on its own in the order of the pipeline, errors included, and leaves the same records, the same
  deadlines in the index and the same count of changes. The commands may repeat keys, and keys may be absent, expired, strings or of
  another type.\<close>

theorem string_pipeline_equivalent:
  fixes db :: "('w, 'e) db"
  assumes "at_instant db view now" "cache_ok db view s" "\<forall>k. utf8_valid k \<longrightarrow> indexed (db_no db) (view (engine s)) k"
    and "\<forall>m \<in> set ms. mutation_ok now m \<and> record_ok now (live now (view (engine s) (mutation_key m)))"
  shows "fst (apply_string_batch_mutations db ms s) = fst (run_each db ms s) \<and>
    same_database db view (snd (apply_string_batch_mutations db ms s)) (snd (run_each db ms s))"
proof (cases "ms = []")
  case True
  then show ?thesis by (simp add: apply_string_batch_mutations_def same_database_def)
next
  case False
  let ?r = "\<lambda>k. if k \<in> mutation_key ` set ms then live now (view (engine s) k) else None"
  obtain replies :: "('e db_error + string_batch_reply) list" and n states
    where b: "run_batch now ms (\<lambda>k. state_from_raw (?r k)) = (replies, n, states)" by (metis surj_pair)
  have ok: "\<forall>m \<in> set ms. mutation_ok now m" using assms(4) by blast
  have "tracks now (?r k) (state_from_raw (?r k)) \<and> live now (view (engine s) k) = record_after (?r k) (state_from_raw (?r k))"
    if "k \<in> mutation_key ` set ms" for k
    using that assms(4) tracks_refl [of now "?r k"] by (auto simp: record_after_def)
  then obtain s1 where s1: "run_each db ms s = (replies, s1)"
    "wrote db view s (mutation_key ` set ms) (\<lambda>k. record_after (?r k) (states k)) n s1"
    "\<forall>k \<in> mutation_key ` set ms. tracks now (?r k) (states k)"
    using run_each_run [OF assms(1,2) ok _ b, where r = ?r] by blast
  obtain s2 where s2: "apply_string_batch_mutations db ms s = (replies, s2)"
    "wrote db view s (mutation_key ` set ms) (\<lambda>k. record_after (?r k) (states k)) n s2"
    using batch_run [OF assms(1,2) ok False b s1(3)] by blast
  show ?thesis using s1(1) s2(1) wrote_same [OF s2(2) s1(2) assms(3)] by simp
qed

lemma string_world_ok: "record_ok 1000 (live 1000 (map_of string_world ''a''))"
  using raw_string_header [of 0 "''v''"] by (simp add: record_ok_def live_def string_world_def)

theorem string_pipeline_equivalent_witness:
  "fst (apply_string_batch_mutations assoc_db [M_Append ''a'' ''w'', M_GetDel ''a'', M_SetNx ''a'' ''x''] (assoc_state string_world)) =
     fst (run_each assoc_db [M_Append ''a'' ''w'', M_GetDel ''a'', M_SetNx ''a'' ''x''] (assoc_state string_world)) \<and>
   same_database assoc_db map_of
     (snd (apply_string_batch_mutations assoc_db [M_Append ''a'' ''w'', M_GetDel ''a'', M_SetNx ''a'' ''x''] (assoc_state string_world)))
     (snd (run_each assoc_db [M_Append ''a'' ''w'', M_GetDel ''a'', M_SetNx ''a'' ''x''] (assoc_state string_world)))"
  by (rule string_pipeline_equivalent [OF assoc_instant assoc_cache_ok])
    (use string_world_indexed string_world_ok in \<open>simp_all add: utf8_valid_ascii_Cons\<close>)

end
