(* ===== verification/Expire_Properties.thy ===== *)
theory Expire_Properties
  imports String_Refine
begin

text \<open>
  EXPIRE with its conditions, PERSIST and GETEX against the deadline of the record they concern. The commands change the deadline
  in place; the rest of the record, the records of other keys and the agreement of the index with the deadlines stay.
\<close>

section \<open>Deadline writes\<close>

definition patch_core :: "u16 \<Rightarrow> bytes \<Rightarrow> u64 \<Rightarrow> u64 \<Rightarrow> bytes \<Rightarrow> batch_op list" where
  "patch_core d key old e raw =
     [(Put, key, raw)] @ (if old \<noteq> 0 \<and> old \<noteq> e then [(Delete, ttl_index_key old d key, [])] else []) @
     (if e \<noteq> 0 then [(Put, ttl_index_key e d key, TTL_INDEX_VALUE)] else [])"

lemma patch_core_ops: "list_all (key_op d key) (patch_core d key old e raw)"
  by (auto simp: patch_core_def key_op_def)

lemma effect_patch:
  assumes "utf8_valid key" "list_all (key_op d key) batch" "filter (\<lambda>op. \<not> fulltext_op op) batch = patch_core d key old e raw"
    and "deadline_of (Some raw) = e"
  shows "effect d {key} (\<lambda>_. old) (\<lambda>_. Some raw) batch"
proof (rule effect_data [OF assms(1-3)])
  show "apply_batch (patch_core d key old e raw) m key = Some raw" for m
    using assms(1) by (simp add: patch_core_def apply_batch_def)
  show "apply_batch (patch_core d key old e raw) m (ttl_index_key e' d key) \<noteq> None \<longleftrightarrow>
      e' = deadline_of (Some raw) \<or> e' \<noteq> old \<and> m (ttl_index_key e' d key) \<noteq> None" if "e' \<noteq> 0" for m e'
    using assms(1,4) that by (auto simp: patch_core_def apply_batch_def ttl_index_key_inject)
qed

text \<open>A record whose deadline is changed.\<close>

lemma patched:
  assumes "decode_meta_header raw = Some h" "plausible_expiry e"
  obtains raw' where "patch_meta_expire_ms raw e = Some raw'" "decode_meta_header raw' = Some (h\<lparr>mh_expire_ms := e\<rparr>)"
    "deadline_of (Some raw') = e"
  using patch_changes_only_the_deadline [OF assms] by (auto simp: deadline_of_def)

lemma splice_same: "slice_of raw at (at + length new) = new \<Longrightarrow> at + length new \<le> length raw \<Longrightarrow> splice raw at new = raw"
  by (metis append_take_drop_id splice_def slice_of_def add_diff_cancel_left' take_drop add.commute append.assoc drop_drop)

lemma patch_same: "decode_meta_header raw = Some header \<Longrightarrow> patch_meta_expire_ms raw (mh_expire_ms header) = Some raw"
  by (auto simp: patch_meta_expire_ms_def decode_meta_header_def be64_from_be64 slice_of_def intro!: splice_same split: if_splits)

lemma saturating_later: "ttl \<noteq> 0 \<Longrightarrow> saturating_add64 now ttl \<noteq> 0"
  using unat_add_lem [of now ttl] by (auto simp: saturating_add64_def unat_eq_0)

text \<open>A round that commits ends the loop.\<close>

lemma store_retry:
  assumes "at_instant db view now" "wrote db view s {key} (\<lambda>_. r) 0 s1" "utf8_valid key"
    and "effect (db_no db) {key} (\<lambda>_. deadline_of r) (\<lambda>_. new) batch" "batch \<noteq> []"
    and "body s = commit_round db [(mk_key db key, r)] batch n x s1"
  obtains s' where "retry body s = (Inr x, s')" "wrote db view s {key} (\<lambda>_. new) n s'"
proof -
  obtain s' where "commit_round db [(mk_key db key, r)] batch n x s1 = (Inr (Some x), s')" "wrote db view s {key} (\<lambda>_. new) n s'"
    using store_run [OF assms(1-5)] .
  then show ?thesis using that assms(6) by (metis retry_done)
qed

section \<open>EXPIRE\<close>

text \<open>Whether the deadline is set, and the record afterwards.\<close>

definition expire_outcome :: "u64 \<Rightarrow> u64 \<Rightarrow> expire_condition \<Rightarrow> bytes option \<Rightarrow> bool \<times> bytes option" where
  "expire_outcome ttl e condition r =
     (case Option.bind r decode_meta_header of
        None \<Rightarrow> (False, r)
      | Some header \<Rightarrow>
          if \<not> expire_condition_matches (mh_expire_ms header) e condition then (False, r)
          else if ttl = 0 then (True, None) else (True, patch_meta_expire_ms (the r) e))"

lemma append_update_shape:
  assumes "fulltext_local fulltext_update"
  obtains F where "list_all fulltext_op F"
    "append_fulltext_expiration_update_to_batch fulltext_update batch key tag = Inr (batch @ F)"
proof -
  obtain ops where "fulltext_update key tag = Inr ops" "list_all fulltext_op ops"
    using assms unfolding fulltext_local_def by meson
  then show ?thesis
    using that [of "if tag = TYPE_HASH \<or> tag = TYPE_JSON then ops else []"]
    by (auto simp: append_fulltext_expiration_update_to_batch_def split: if_splits)
qed

lemma deadline_writes_effect:
  assumes "at_instant db view now" "fulltext_local fulltext_update" "utf8_valid key" "deadline_of (Some raw) = e" "e \<noteq> 0"
  obtains batch where "deadline_writes db fulltext_update key raw header e = Inr batch" "batch \<noteq> []"
    "effect (db_no db) {key} (\<lambda>_. mh_expire_ms header) (\<lambda>_. Some raw) batch"
proof -
  obtain F where F: "list_all fulltext_op F"
    "append_fulltext_expiration_update_to_batch fulltext_update [(Put, key, raw)] key (mh_type_tag header) = Inr ([(Put, key, raw)] @ F)"
    using append_update_shape [OF assms(2)] by metis
  let ?rest = "(if mh_expire_ms header \<noteq> 0 \<and> mh_expire_ms header \<noteq> e then [(Delete, ttl_index_key (mh_expire_ms header) (db_no db) key, [])] else []) @
    [(Put, ttl_index_key e (db_no db) key, TTL_INDEX_VALUE)]"
  let ?batch = "[(Put, key, raw)] @ F @ ?rest"
  have b: "deadline_writes db fulltext_update key raw header e = Inr ?batch"
    using F(2) assms(5) by (auto simp: deadline_writes_def at_instant_key [OF assms(1)] remove_known_to_batch_def add_to_batch_def
        try_add_to_batch_def word_neq_0_conv)
  have "effect (db_no db) {key} (\<lambda>_. mh_expire_ms header) (\<lambda>_. Some raw) ?batch"
  proof (rule effect_patch [OF assms(3) _ _ assms(4)])
    show "list_all (key_op (db_no db) key) ?batch" using fulltext_key_ops [OF F(1)] by (auto simp: key_op_def)
    show "filter (\<lambda>op. \<not> fulltext_op op) ?batch = patch_core (db_no db) key (mh_expire_ms header) e raw"
      using F(1) assms(3,5) by (simp add: patch_core_def)
  qed
  then show ?thesis using that b by simp
qed

lemma expire_condition_run:
  assumes "at_instant db view now" "fulltext_local fulltext_update" "cache_ok db view s" "utf8_valid key"
    and "plausible_expiry (saturating_add64 now ttl)"
  defines "r \<equiv> live now (view (engine s) key)" and "e \<equiv> saturating_add64 now ttl"
  obtains s' where "expire_with_condition db fulltext_update key ttl condition s = (Inr (fst (expire_outcome ttl e condition r)), s')"
    "wrote db view s {key} (\<lambda>_. snd (expire_outcome ttl e condition r)) 0 s'"
proof -
  obtain s1 where s1: "expire_if_needed db key s = (Inr (), s1)" "wrote db view s {key} (\<lambda>_. r) 0 s1"
    "db_get db (mk_key db key) s1 = (Inr r, s1)"
    unfolding r_def using load_run [OF assms(1,3,4)] .
  note run = expire_with_condition_round_def and_then_def s1(1,3) at_instant_now [OF assms(1)] fail_def return_def
  note loop = expire_with_condition_def and_then_def at_instant_now [OF assms(1)] e_def [symmetric]
  let ?round = "expire_with_condition_round db fulltext_update key ttl e condition"
  show ?thesis
  proof (cases "Option.bind r decode_meta_header")
    case None
    then have "?round s = (Inr (Some False), s1)" by (cases r) (simp_all add: run)
    then show ?thesis using that [of s1] s1(2) None by (simp add: loop retry_done expire_outcome_def)
  next
    case (Some header)
    then obtain raw where raw: "r = Some raw" "decode_meta_header raw = Some header" by (cases r) auto
    then have d: "deadline_of r = mh_expire_ms header" by (simp add: deadline_of_def)
    then have alive: "\<not> (mh_expire_ms header > 0 \<and> now \<ge> mh_expire_ms header)"
      using raw(1) by (auto simp: r_def live_def split: if_splits)
    show ?thesis
    proof (cases "expire_condition_matches (mh_expire_ms header) e condition")
      case False
      then have "?round s = (Inr (Some False), s1)" using raw alive by (auto simp: run)
      then show ?thesis using that [of s1] s1(2) raw False by (simp add: loop retry_done expire_outcome_def)
    next
      case True
      note commit = store_retry [OF assms(1) s1(2) assms(4)]
      show ?thesis
      proof (cases "ttl = 0")
        case True
        obtain batch where b: "append_expiration_delete_to_batch db [] key header = Inr batch" "batch \<noteq> []"
          "effect (db_no db) {key} (\<lambda>_. deadline_of r) (\<lambda>_. None) batch"
          using expiration_delete_effect [OF assms(1,4), of header] unfolding d by metis
        have "?round s = commit_round db [(mk_key db key, r)] batch 0 True s1"
          using raw alive True b(1) \<open>expire_condition_matches _ _ _\<close> by (auto simp: run)
        then obtain s' where "retry ?round s = (Inr True, s')" "wrote db view s {key} (\<lambda>_. None) 0 s'"
          by (rule commit [OF b(3,2)])
        then show ?thesis using that [of s'] raw True \<open>expire_condition_matches _ _ _\<close> by (auto simp: loop expire_outcome_def e_def)
      next
        case False
        obtain raw' where p: "patch_meta_expire_ms raw e = Some raw'" "deadline_of (Some raw') = e"
          using patched [OF raw(2)] assms(5) unfolding e_def by metis
        obtain batch where b: "deadline_writes db fulltext_update key raw' header e = Inr batch" "batch \<noteq> []"
          "effect (db_no db) {key} (\<lambda>_. deadline_of r) (\<lambda>_. Some raw') batch"
          using deadline_writes_effect [OF assms(1,2,4) p(2), of header] saturating_later [OF False, of now] unfolding d e_def by metis
        have "?round s = commit_round db [(mk_key db key, r)] batch 0 True s1"
          using raw alive False p(1) b(1) \<open>expire_condition_matches _ _ _\<close> by (auto simp: run)
        then obtain s' where "retry ?round s = (Inr True, s')" "wrote db view s {key} (\<lambda>_. Some raw') 0 s'"
          by (rule commit [OF b(3,2)])
        then show ?thesis using that [of s'] raw False p(1) \<open>expire_condition_matches _ _ _\<close> by (simp add: loop expire_outcome_def)
      qed
    qed
  qed
qed

section \<open>PERSIST\<close>

definition persist_result :: "bytes option \<Rightarrow> bool \<times> bytes option" where
  "persist_result r = (if deadline_of r = 0 then (False, r) else (True, patch_meta_expire_ms (the r) 0))"

lemma persist_run:
  assumes "at_instant db view now" "fulltext_local fulltext_update" "cache_ok db view s" "utf8_valid key"
  defines "r \<equiv> live now (view (engine s) key)"
  assumes "r \<noteq> None \<longrightarrow> Option.bind r decode_meta_header \<noteq> None"
  obtains s' where "persist db fulltext_update key s = (Inr (fst (persist_result r)), s')"
    "wrote db view s {key} (\<lambda>_. snd (persist_result r)) 0 s'"
proof -
  obtain s1 where s1: "expire_if_needed db key s = (Inr (), s1)" "wrote db view s {key} (\<lambda>_. r) 0 s1"
    "db_get db (mk_key db key) s1 = (Inr r, s1)"
    unfolding r_def using load_run [OF assms(1,3,4)] .
  note run = persist_round_def and_then_def s1(1,3) at_instant_now [OF assms(1)] fail_def return_def
  let ?round = "persist_round db fulltext_update key"
  show ?thesis
  proof (cases "deadline_of r = 0")
    case True
    then have "?round s = (Inr (Some False), s1)"
      using assms(6) by (cases r) (auto simp: run deadline_of_def)
    then show ?thesis using that [of s1] s1(2) True by (simp add: persist_def retry_done persist_result_def)
  next
    case False
    then obtain raw header where raw: "r = Some raw" "decode_meta_header raw = Some header" "mh_expire_ms header \<noteq> 0"
      "deadline_of r = mh_expire_ms header"
      by (cases r; cases "decode_meta_header (the r)") (auto simp: deadline_of_def)
    have alive: "now < mh_expire_ms header" using raw by (auto simp: r_def live_def split: if_splits)
    obtain raw' where p: "patch_meta_expire_ms raw 0 = Some raw'" "deadline_of (Some raw') = 0"
      using patched [OF raw(2) plausible_zero] by metis
    obtain F where F: "list_all fulltext_op F"
      "append_fulltext_expiration_update_to_batch fulltext_update [(Put, key, raw')] key (mh_type_tag header) = Inr ([(Put, key, raw')] @ F)"
      using append_update_shape [OF assms(2)] by metis
    let ?batch = "remove_known_to_batch ([(Put, key, raw')] @ F) (mh_expire_ms header) (db_no db) key"
    have "effect (db_no db) {key} (\<lambda>_. deadline_of r) (\<lambda>_. Some raw') ?batch"
    proof (rule effect_patch [OF assms(4) _ _ p(2)])
      show "list_all (key_op (db_no db) key) ?batch"
        using fulltext_key_ops [OF F(1)] by (auto simp: key_op_def remove_known_to_batch_def)
      show "filter (\<lambda>op. \<not> fulltext_op op) ?batch = patch_core (db_no db) key (deadline_of r) 0 raw'"
        using F(1) assms(4) raw(3,4) by (simp add: patch_core_def remove_known_to_batch_def)
    qed
    moreover have "?batch \<noteq> []" by (simp add: remove_known_to_batch_def)
    moreover have "?round s = commit_round db [(mk_key db key, r)] ?batch 0 True s1"
      using raw p(1) F(2) alive s1(3) by (auto simp: run at_instant_key [OF assms(1)])
    ultimately obtain s' where "retry ?round s = (Inr True, s')" "wrote db view s {key} (\<lambda>_. Some raw') 0 s'"
      by (rule store_retry [OF assms(1) s1(2) assms(4)])
    then show ?thesis using that [of s'] raw p(1) by (simp add: persist_def persist_result_def)
  qed
qed

section \<open>GETEX\<close>

text \<open>The deadline that GETEX sets, or none where it deletes the key.\<close>

fun getex_deadline :: "u64 \<Rightarrow> string_expire_update \<Rightarrow> u64 option" where
  "getex_deadline now Getex_Persist = Some 0"
| "getex_deadline now (Getex_Relative ttl) = (if ttl = 0 then None else Some (saturating_add64 now ttl))"
| "getex_deadline now (Getex_Absolute e) = (if e \<le> now then None else Some e)"

definition getex_result :: "u64 \<Rightarrow> string_expire_update \<Rightarrow> bytes option \<Rightarrow> ('e db_error + bytes option) \<times> bytes option" where
  "getex_result now update r =
     (case bs_value (state_from_raw r) of
        Batch_Missing \<Rightarrow> (Inr None, None)
      | Batch_Other \<Rightarrow> (Inl Wrong_type_error, r)
      | Batch_String v \<Rightarrow>
          (Inr (Some v), (case getex_deadline now update of None \<Rightarrow> None | Some e \<Rightarrow> patch_meta_expire_ms (the r) e)))"

lemma getex_deadline_effect:
  assumes "at_instant db view now" "utf8_valid key" "decode_meta_header raw = Some header" "plausible_expiry e" "e \<noteq> 0"
  obtains batch raw' where "getex_deadline_writes db key raw (mh_expire_ms header) e = Inr batch" "batch \<noteq> []"
    "patch_meta_expire_ms raw e = Some raw'" "effect (db_no db) {key} (\<lambda>_. mh_expire_ms header) (\<lambda>_. Some raw') batch"
proof -
  obtain raw' where p: "patch_meta_expire_ms raw e = Some raw'" "deadline_of (Some raw') = e"
    using patched [OF assms(3,4)] by metis
  have "getex_deadline_writes db key raw (mh_expire_ms header) e = Inr (patch_core (db_no db) key (mh_expire_ms header) e raw')"
    using p(1) assms(5) by (auto simp: getex_deadline_writes_def patch_core_def at_instant_key [OF assms(1)] remove_known_to_batch_def
        add_to_batch_def try_add_to_batch_def Let_def)
  moreover have "effect (db_no db) {key} (\<lambda>_. mh_expire_ms header) (\<lambda>_. Some raw') (patch_core (db_no db) key (mh_expire_ms header) e raw')"
    using assms(2) by (intro effect_patch [OF assms(2) patch_core_ops _ p(2)]) (simp add: patch_core_def)
  ultimately show ?thesis using that p(1) by (simp add: patch_core_def)
qed

lemma getex_writes_effect:
  assumes "at_instant db view now" "utf8_valid key" "decode_meta_header raw = Some header"
    and "\<forall>e. getex_deadline now update = Some e \<longrightarrow> plausible_expiry e"
    and "\<not> (update = Getex_Persist \<and> mh_expire_ms header = 0)"
  obtains batch where "getex_writes db key raw (mh_expire_ms header) now update = Inr (Some batch)" "batch \<noteq> []"
    "effect (db_no db) {key} (\<lambda>_. mh_expire_ms header)
       (\<lambda>_. case getex_deadline now update of None \<Rightarrow> None | Some e \<Rightarrow> patch_meta_expire_ms raw e) batch"
proof (cases "getex_deadline now update")
  case None
  then have "getex_writes db key raw (mh_expire_ms header) now update = Inr (Some (delete_core (db_no db) key (mh_expire_ms header)))"
    using delete_main_shape [OF assms(1), of "[]"] by (cases update) (auto split: if_splits)
  moreover have "effect (db_no db) {key} (\<lambda>_. mh_expire_ms header) (\<lambda>_. None) (delete_core (db_no db) key (mh_expire_ms header))"
    using delete_effect [OF assms(2), of "[]"] by simp
  ultimately show ?thesis using that None by (simp add: delete_core_def)
next
  case (Some e)
  have pl: "plausible_expiry e" using Some assms(4) by blast
  show ?thesis
  proof (cases "update = Getex_Persist")
    case True
    then have e: "e = 0" using Some by simp
    obtain raw' where p: "patch_meta_expire_ms raw 0 = Some raw'" "deadline_of (Some raw') = 0"
      using patched [OF assms(3) plausible_zero] by metis
    have "getex_writes db key raw (mh_expire_ms header) now update = Inr (Some (patch_core (db_no db) key (mh_expire_ms header) 0 raw'))"
      using p(1) True assms(5) by (auto simp: patch_core_def at_instant_key [OF assms(1)] remove_known_to_batch_def)
    moreover have "effect (db_no db) {key} (\<lambda>_. mh_expire_ms header) (\<lambda>_. Some raw') (patch_core (db_no db) key (mh_expire_ms header) 0 raw')"
      using assms(2) by (intro effect_patch [OF assms(2) patch_core_ops _ p(2)]) (simp add: patch_core_def)
    ultimately show ?thesis using that Some e p(1) by (simp add: patch_core_def)
  next
    case False
    then have e: "e \<noteq> 0" using Some saturating_later by (cases update) (auto split: if_splits)
    obtain batch raw' where "getex_deadline_writes db key raw (mh_expire_ms header) e = Inr batch" "batch \<noteq> []"
      "patch_meta_expire_ms raw e = Some raw'" "effect (db_no db) {key} (\<lambda>_. mh_expire_ms header) (\<lambda>_. Some raw') batch"
      using getex_deadline_effect [OF assms(1-3) pl e] .
    then show ?thesis using that [of batch] Some False by (cases update) (auto split: if_splits)
  qed
qed

lemma string_record:
  "bs_value (state_from_raw r) = Batch_String v \<longleftrightarrow>
     (\<exists>raw header. r = Some raw \<and> decode_meta_header raw = Some header \<and> mh_type_tag header = TYPE_STRING \<and> decode_string_bytes raw = Some v)"
  by (cases r; cases "decode_meta_header (the r)") (auto simp: state_from_raw_def dest: string_tag_decodes)

text \<open>The reader of strings looks at one byte only, and that byte is the tag unless the record is the metadata of a split list or of a stream,
  where it belongs to the version.\<close>

definition type_clear :: "bytes option \<Rightarrow> bool" where
  "type_clear r \<longleftrightarrow> (bs_value (state_from_raw r) = Batch_Other \<longrightarrow> decode_string_bytes (the r) = None)"

lemma getex_run:
  fixes db :: "('w, 'e) db"
  assumes "at_instant db view now" "cache_ok db view s" "utf8_valid key"
    and "\<forall>e. getex_deadline now update = Some e \<longrightarrow> plausible_expiry e"
  defines "r \<equiv> live now (view (engine s) key)"
  assumes "type_clear r"
  obtains s' where "getex_string_bytes db key (Some update) s = (fst (getex_result now update r), s')"
    "wrote db view s {key} (\<lambda>_. snd (getex_result now update r :: ('e db_error + _) \<times> _)) 0 s'"
proof -
  obtain s1 where s1: "expire_if_needed db key s = (Inr (), s1)" "wrote db view s {key} (\<lambda>_. r) 0 s1"
    "db_get db (mk_key db key) s1 = (Inr r, s1)"
    unfolding r_def using load_run [OF assms(1-3)] .
  note run = getex_round_def and_then_def s1(1,3) at_instant_now [OF assms(1)] fail_def return_def
  note loop = getex_string_bytes_def getex_result_def
  show ?thesis
  proof (cases r rule: state_cases)
    case Missing
    then have "getex_round db key update s = (Inr (Some None), s1)" by (simp add: run)
    then show ?thesis using that [of s1] s1(2) Missing by (simp add: loop retry_done)
  next
    case Other
    then obtain raw where "r = Some raw" "decode_string_bytes raw = None" using assms(6) by (auto simp: type_clear_def)
    then have "getex_round db key update s = (Inl Wrong_type_error, s1)" by (simp add: run)
    then show ?thesis using that [of s1] s1(2) Other by (simp add: loop retry_fail)
  next
    case (String v)
    then obtain raw header where raw: "r = Some raw" "decode_meta_header raw = Some header" "decode_string_bytes raw = Some v"
      unfolding string_record by blast
    have d: "mh_expire_ms header = deadline_of r" using raw by (simp add: deadline_of_def)
    show ?thesis
    proof (cases "update = Getex_Persist \<and> mh_expire_ms header = 0")
      case True
      then have "getex_round db key update s = (Inr (Some (Some v)), s1)" using raw by (simp add: run)
      moreover have "patch_meta_expire_ms raw 0 = r" using raw True patch_same [OF raw(2)] by simp
      ultimately show ?thesis using that [of s1] s1(2) String True raw(1) by (simp add: loop retry_done)
    next
      case False
      obtain batch where b: "getex_writes db key raw (mh_expire_ms header) now update = Inr (Some batch)" "batch \<noteq> []"
        "effect (db_no db) {key} (\<lambda>_. mh_expire_ms header)
           (\<lambda>_. case getex_deadline now update of None \<Rightarrow> None | Some e \<Rightarrow> patch_meta_expire_ms raw e) batch"
        using getex_writes_effect [OF assms(1,3) raw(2) assms(4) False] .
      have "getex_round db key update s = commit_round db [(mk_key db key, r)] batch 0 (Some v) s1"
        using raw b(1) by (simp add: run)
      then obtain s' where "retry (getex_round db key update) s = (Inr (Some v), s')"
        "wrote db view s {key} (\<lambda>_. case getex_deadline now update of None \<Rightarrow> None | Some e \<Rightarrow> patch_meta_expire_ms raw e) 0 s'"
        by (rule store_retry [OF assms(1) s1(2) assms(3) b(3) [unfolded d] b(2)])
      then show ?thesis using that [of s'] String raw(1) by (simp add: loop cong: option.case_cong)
    qed
  qed
qed

section \<open>Theorems\<close>

definition same_but_deadline :: "bytes \<Rightarrow> bytes \<Rightarrow> bool" where
  "same_but_deadline raw raw' \<longleftrightarrow> length raw' = length raw \<and>
     (\<exists>at. at + 8 \<le> length raw \<and> take at raw' = take at raw \<and> drop (at + 8) raw' = drop (at + 8) raw)"

text \<open>The record of the key has the header \<open>header\<close> and is otherwise the old one; the index agrees with it, and no other record
  changed.\<close>

definition redated ::
  "('w, 'e) db \<Rightarrow> ('w \<Rightarrow> bytes \<rightharpoonup> bytes) \<Rightarrow> bytes \<Rightarrow> bytes \<Rightarrow> meta_header \<Rightarrow> 'w db_state \<Rightarrow> 'w db_state \<Rightarrow> bool"
where
  "redated db view key raw header s s' \<longleftrightarrow>
     (\<exists>raw'. decode_meta_header raw' = Some header \<and> same_but_deadline raw raw' \<and> wrote db view s {key} (\<lambda>_. Some raw') 0 s')"

lemma redatedI:
  assumes "decode_meta_header raw = Some h" "plausible_expiry e" "wrote db view s {key} (\<lambda>_. patch_meta_expire_ms raw e) 0 s'"
  shows "redated db view key raw (h\<lparr>mh_expire_ms := e\<rparr>) s s'"
  using patch_changes_only_the_deadline [OF assms(1,2)] assms(3) unfolding redated_def same_but_deadline_def by fastforce

lemma redated_same:
  assumes "decode_meta_header raw = Some h" "wrote db view s {key} (\<lambda>_. Some raw) 0 s'"
  shows "redated db view key raw h s s'"
proof -
  have "8 \<le> length raw" using assms(1) by (auto simp: decode_meta_header_def split: if_splits)
  then show ?thesis using assms unfolding redated_def same_but_deadline_def
    by (intro exI [of _ raw]) (auto intro: exI [of _ 0])
qed



section \<open>Lists read as strings\<close>

text \<open>C38: A split list whose version has the byte of the string tag as its fifth byte is read by GET as a string: the answer is the
  end of the list's metadata record and not the error for a wrong type. Versions are microseconds shifted by eleven bits, so that one list
  in 256 has such a version; the same holds for streams.\<close>

theorem list_read_as_string:
  assumes "at_instant db view now" "view (engine s) key = Some (encode_list_meta 0 version head tail)"
    and "be64 version ! 4 = TYPE_STRING"
  shows "get_string_bytes db key s = (Inr (Some (drop 5 (be64 version) @ drop 20 (encode_list_meta 0 version head tail))), s)"
proof -
  let ?raw = "encode_list_meta 0 version head tail"
  have "?raw ! 16 = TYPE_STRING" "length ?raw = 36"
    using assms(3) by (simp_all add: encode_list_meta_def LIST_META_MAGIC_def nth_append)
  then have "decode_string_bytes ?raw = Some (drop 17 ?raw)" by (simp add: decode_string_bytes_def)
  moreover have "drop 17 ?raw = drop 5 (be64 version) @ drop 20 ?raw"
    by (simp add: encode_list_meta_def LIST_META_MAGIC_def)
  moreover have "\<not> is_packed_list_raw ?raw"
    using \<open>?raw ! 16 = TYPE_STRING\<close> \<open>length ?raw = 36\<close> by (auto simp: is_packed_list_raw_def TYPE_STRING_def TYPE_LIST_def get_at_def)
  then have "decode_packed_list ?raw = None" by (simp add: decode_packed_list_def)
  then have "decode_expire_ms ?raw = 0"
    using \<open>length ?raw = 36\<close> by (simp add: decode_expire_ms_def decode_list_meta_def encode_list_meta_def LIST_META_MAGIC_def slice_of_def)
  ultimately show ?thesis
    using assms(2) by (simp add: get_string_bytes_def read_live_raw_def and_then_def db_get_run [OF at_instant_contract [OF assms(1)]]
        at_instant_key [OF assms(1)] at_instant_now [OF assms(1)] return_def)
qed

theorem list_read_as_string_witness:
  "\<exists>v. get_string_bytes assoc_db ''a'' (assoc_state [(''a'', encode_list_meta 0 0x01000000 0 3)]) =
     (Inr (Some v), assoc_state [(''a'', encode_list_meta 0 0x01000000 0 3)])"
proof -
  have eight: "8 = Suc (Suc (Suc (Suc (Suc (Suc (Suc (Suc 0)))))))" by simp
  have "char_of (1 :: nat) = CHR 0x01" by code_simp
  then have "be64 0x01000000 ! 4 = TYPE_STRING"
    unfolding be64_def eight by (simp add: TYPE_STRING_def nth_Cons')
  then show ?thesis
    using list_read_as_string [OF assoc_instant, of "assoc_state [(''a'', encode_list_meta 0 0x01000000 0 3)]" "''a''" "0x01000000" 0 3]
    by simp
qed

end
