(* ===== verification/String_Model.thy ===== *)
theory String_Model
  imports Pipeline_Properties Expire_Properties
begin

text \<open>
  The commands on strings and keys as a map of values with deadlines. A command runs at an instant; between two commands any time may
  pass. The replies of a sequence of commands and the records it leaves are those of the map.
\<close>

section \<open>Commands\<close>

datatype string_command =
    C_Get bytes
  | C_Exists bytes
  | C_Pttl bytes
  | C_Set bytes bytes set_expiration set_condition bool
  | C_Change string_batch_mutation
  | C_Expire bytes u64 expire_condition
  | C_Persist bytes
  | C_Getex bytes string_expire_update
  | C_Del "bytes list"

text \<open>\<^verbatim>\<open>Set::apply_async\<close>.\<close>

fun set_reply :: "bool \<Rightarrow> set_outcome \<Rightarrow> string_batch_reply" where
  "set_reply return_old (Was_Set old) = (if return_old then Reply_Bulk old else Reply_Ok)"
| "set_reply return_old Not_Set = Reply_Bulk None"

definition flag_reply :: "bool \<Rightarrow> string_batch_reply" where
  "flag_reply b = Reply_Integer (if b then 1 else 0)"

fun run_command ::
  "('w, 'e) db \<Rightarrow> (bytes \<Rightarrow> char \<Rightarrow> 'e + batch_op list) \<Rightarrow> string_command \<Rightarrow> ('w, 'e, string_batch_reply) action"
where
  "run_command db ft (C_Get key) = reply_with Reply_Bulk (get_string_bytes db key)"
| "run_command db ft (C_Exists key) = reply_with flag_reply (exists_readonly db key)"
| "run_command db ft (C_Pttl key) = reply_with Reply_Integer (ttl_millis_readonly db key)"
| "run_command db ft (C_Set key val expiration condition return_old) =
     reply_with (set_reply return_old) (set_string_bytes_async db key val expiration condition return_old)"
| "run_command db ft (C_Change m) = run_single db m"
| "run_command db ft (C_Expire key ttl condition) = reply_with flag_reply (expire_with_condition db ft key ttl condition)"
| "run_command db ft (C_Persist key) = reply_with flag_reply (persist db ft key)"
| "run_command db ft (C_Getex key update) = reply_with Reply_Bulk (getex_string_bytes db key (Some update))"
| "run_command db ft (C_Del keys) = reply_with (\<lambda>n. Reply_Integer (int n)) (delete_keys_async db keys)"

text \<open>The database while the clock shows \<open>now\<close>.\<close>

definition at_time :: "('w, 'e) db \<Rightarrow> u64 \<Rightarrow> ('w, 'e) db" where
  "at_time db now = db\<lparr>kv := (kv db)\<lparr>clock_ms := (\<lambda>_. now)\<rparr>\<rparr>"

fun run_trace ::
  "('w, 'e) db \<Rightarrow> (bytes \<Rightarrow> char \<Rightarrow> 'e + batch_op list) \<Rightarrow> (u64 \<times> string_command) list \<Rightarrow> 'w db_state \<Rightarrow>
   ('e db_error + string_batch_reply) list \<times> 'w db_state"
where
  "run_trace db ft [] s = ([], s)"
| "run_trace db ft ((now, c) # cs) s =
     (case run_command (at_time db now) ft c s of (reply, s') \<Rightarrow>
        case run_trace db ft cs s' of (replies, s'') \<Rightarrow> (reply # replies, s''))"

section \<open>The map\<close>

type_synonym entry = "bytes \<times> u64"

definition entry_live :: "u64 \<Rightarrow> entry option \<Rightarrow> entry option" where
  "entry_live now x = (case x of Some (v, e) \<Rightarrow> if e = 0 \<or> now < e then x else None | None \<Rightarrow> None)"

definition value_or_empty :: "entry option \<Rightarrow> entry" where
  "value_or_empty x = (case x of Some y \<Rightarrow> y | None \<Rightarrow> ([], 0))"

text \<open>A string grows to at most the limit.\<close>

definition put_value :: "entry option \<Rightarrow> string_batch_reply \<Rightarrow> bytes \<Rightarrow> u64 \<Rightarrow> ('e db_error + string_batch_reply) \<times> entry option" where
  "put_value x reply v e =
     (if length v > MAX_BULK_STRING_BYTES then (Inl String_too_long, x) else (Inr reply, Some (v, e)))"

text \<open>The value with \<open>new\<close> written at \<open>offset\<close>, padded with zero bytes.\<close>

definition overlay :: "bytes \<Rightarrow> nat \<Rightarrow> bytes \<Rightarrow> bytes" where
  "overlay v offset new =
     take offset v @ replicate (offset - length v) (CHR 0x00) @ new @ drop (offset + length new) v"

fun spec_change :: "u64 \<Rightarrow> string_batch_mutation \<Rightarrow> entry option \<Rightarrow> ('e db_error + string_batch_reply) \<times> entry option" where
  "spec_change now (M_Append _ suffix) x =
     (case value_or_empty x of (v, e) \<Rightarrow> put_value x (Reply_Integer (int (length (v @ suffix)))) (v @ suffix) e)"
| "spec_change now (M_GetSet _ val) x = (Inr (Reply_Bulk (map_option fst x)), Some (val, 0))"
| "spec_change now (M_GetDel _) x = (Inr (Reply_Bulk (map_option fst x)), None)"
| "spec_change now (M_SetNx _ val) x = (Inr (flag_reply (x = None)), Some (case x of Some y \<Rightarrow> y | None \<Rightarrow> (val, 0)))"
| "spec_change now (M_SetBit _ offset b) x =
     (case value_or_empty x of (v, e) \<Rightarrow>
        (case set_bit_mutation offset (b = 1) v of
           Inl err \<Rightarrow> (Inl (bit_db_error err), x)
         | Inr (old, v') \<Rightarrow> (Inr (Reply_Integer (int old)), Some (v', e))))"
| "spec_change now (M_SetRange _ offset new) x =
     (case value_or_empty x of (v, e) \<Rightarrow>
        if new = [] then (Inr (Reply_Integer (int (length v))), x)
        else if offset + length new > MAX_BULK_STRING_BYTES then (Inl String_too_long, x)
        else (Inr (Reply_Integer (int (max (length v) (offset + length new)))), Some (overlay v offset new, e)))"
| "spec_change now (M_Psetex _ ttl val) x = (Inr Reply_Ok, Some (val, saturating_add64 now ttl))"

fun spec_deadline :: "set_expiration \<Rightarrow> entry option \<Rightarrow> u64" where
  "spec_deadline Set_Clear x = 0"
| "spec_deadline Set_KeepTtl x = snd (value_or_empty x)"
| "spec_deadline (Set_At e) x = e"

definition spec_ttl :: "u64 \<Rightarrow> entry option \<Rightarrow> int" where
  "spec_ttl now x = (case x of None \<Rightarrow> - 2 | Some (_, e) \<Rightarrow> if e = 0 then - 1 else int (unat e) - int (unat now))"

definition spec_expire :: "u64 \<Rightarrow> u64 \<Rightarrow> expire_condition \<Rightarrow> entry option \<Rightarrow> bool \<times> entry option" where
  "spec_expire now ttl condition x =
     (case x of
        None \<Rightarrow> (False, None)
      | Some (v, e) \<Rightarrow>
          if \<not> expire_condition_matches e (saturating_add64 now ttl) condition then (False, x)
          else (True, if ttl = 0 then None else Some (v, saturating_add64 now ttl)))"

fun spec_step ::
  "u64 \<Rightarrow> string_command \<Rightarrow> (bytes \<rightharpoonup> entry) \<Rightarrow> ('e db_error + string_batch_reply) \<times> (bytes \<rightharpoonup> entry)"
where
  "spec_step now (C_Get k) m = (Inr (Reply_Bulk (map_option fst (entry_live now (m k)))), m)"
| "spec_step now (C_Exists k) m = (Inr (flag_reply (entry_live now (m k) \<noteq> None)), m)"
| "spec_step now (C_Pttl k) m = (Inr (Reply_Integer (spec_ttl now (entry_live now (m k)))), m)"
| "spec_step now (C_Set k val expiration condition return_old) m =
     (let x = entry_live now (m k); e = spec_deadline expiration x
      in if \<not> condition_matches condition (x \<noteq> None) then (Inr (Reply_Bulk None), m(k := x))
         else (Inr (if return_old then Reply_Bulk (map_option fst x) else Reply_Ok),
               m(k := if e \<noteq> 0 \<and> \<not> now < e then None else Some (val, e))))"
| "spec_step now (C_Change c) m =
     (case spec_change now c (entry_live now (m (mutation_key c))) of (reply, x) \<Rightarrow> (reply, m(mutation_key c := x)))"
| "spec_step now (C_Expire k ttl condition) m =
     (case spec_expire now ttl condition (entry_live now (m k)) of (b, x) \<Rightarrow> (Inr (flag_reply b), m(k := x)))"
| "spec_step now (C_Persist k) m =
     (let x = entry_live now (m k)
      in (Inr (flag_reply (snd (value_or_empty x) \<noteq> 0)), m(k := map_option (\<lambda>(v, _). (v, 0)) x)))"
| "spec_step now (C_Getex k update) m =
     (let x = entry_live now (m k)
      in (Inr (Reply_Bulk (map_option fst x)),
          m(k := Option.bind x (\<lambda>(v, _). map_option (\<lambda>e. (v, e)) (getex_deadline now update)))))"
| "spec_step now (C_Del ks) m =
     (Inr (Reply_Integer (int (card {k \<in> set ks. entry_live now (m k) \<noteq> None}))), (\<lambda>k. if k \<in> set ks then None else m k))"

fun spec_trace ::
  "(u64 \<times> string_command) list \<Rightarrow> (bytes \<rightharpoonup> entry) \<Rightarrow> ('e db_error + string_batch_reply) list \<times> (bytes \<rightharpoonup> entry)"
where
  "spec_trace [] m = ([], m)"
| "spec_trace ((now, c) # cs) m =
     (case spec_step now c m of (reply, m') \<Rightarrow> case spec_trace cs m' of (replies, m'') \<Rightarrow> (reply # replies, m''))"

text \<open>Keys are text; a deadline that a command sets is one the record format can hold.\<close>

fun command_ok :: "u64 \<Rightarrow> string_command \<Rightarrow> bool" where
  "command_ok now (C_Get k) = utf8_valid k"
| "command_ok now (C_Exists k) = utf8_valid k"
| "command_ok now (C_Pttl k) = utf8_valid k"
| "command_ok now (C_Set k val expiration condition return_old) =
     (utf8_valid k \<and> (case expiration of Set_At e \<Rightarrow> plausible_expiry e | _ \<Rightarrow> True))"
| "command_ok now (C_Change m) = mutation_ok now m"
| "command_ok now (C_Expire k ttl condition) = (utf8_valid k \<and> plausible_expiry (saturating_add64 now ttl))"
| "command_ok now (C_Persist k) = utf8_valid k"
| "command_ok now (C_Getex k update) =
     (utf8_valid k \<and> (case getex_deadline now update of Some e \<Rightarrow> plausible_expiry e | None \<Rightarrow> True))"
| "command_ok now (C_Del ks) = list_all utf8_valid ks"

section \<open>Records of entries\<close>

definition record_of :: "entry option \<Rightarrow> bytes option" where
  "record_of x = map_option (\<lambda>(v, e). encode_raw_string v e) x"

definition entry_ok :: "entry option \<Rightarrow> bool" where
  "entry_ok x \<longleftrightarrow> (case x of Some (v, e) \<Rightarrow> plausible_expiry e | None \<Rightarrow> True)"

lemma record_of_simps [simp]:
  "record_of None = None" "record_of (Some (v, e)) = Some (encode_raw_string v e)" "entry_ok None" "entry_ok (Some (v, e)) = plausible_expiry e"
  by (simp_all add: record_of_def entry_ok_def)

lemma record_of_None [simp]: "record_of x = None \<longleftrightarrow> x = None"
  by (simp add: record_of_def)

lemma value_or_empty_simps [simp]: "value_or_empty None = ([], 0)" "value_or_empty (Some y) = y"
  by (simp_all add: value_or_empty_def)

lemma record_deadline: "entry_ok x \<Longrightarrow> deadline_of (record_of x) = snd (value_or_empty x)"
  by (cases x) (auto simp: raw_string_header value_or_empty_def deadline_of_def [of None])

lemma record_live: "entry_ok x \<Longrightarrow> live now (record_of x) = record_of (entry_live now x)"
  by (cases x) (auto simp: live_def record_deadline entry_live_def raw_string_header)

lemma entry_live_ok [simp]: "entry_ok x \<Longrightarrow> entry_ok (entry_live now x)"
  by (auto simp: entry_live_def split: option.splits)

lemma record_header:
  "entry_ok x \<Longrightarrow> Option.bind (record_of x) decode_meta_header =
     map_option (\<lambda>(v, e). \<lparr>mh_expire_ms = e, mh_version = 0, mh_type_tag = TYPE_STRING\<rparr>) x"
  by (cases x) (auto simp: raw_string_header)

lemma record_state:
  "entry_ok x \<Longrightarrow> state_from_raw (record_of x) =
     \<lparr>bs_value = (case x of Some (v, _) \<Rightarrow> Batch_String v | None \<Rightarrow> Batch_Missing), bs_expire_ms = snd (value_or_empty x), bs_dirty = False\<rparr>"
  by (cases x) (auto simp: state_from_raw_def raw_string_header value_or_empty_def)

lemma record_patch:
  assumes "plausible_expiry e"
  shows "patch_meta_expire_ms (encode_raw_string v e) e' = Some (encode_raw_string v e')"
  using plausible_not_magic [OF assms]
  by (auto simp: patch_meta_expire_ms_def encode_raw_string_def splice_def slice_of_def)

lemma record_ok_of: "entry_ok x \<Longrightarrow> entry_live now x = x \<Longrightarrow> record_ok now (record_of x)"
  using record_live [of x now] record_header [of x] record_deadline [of x]
  by (auto simp: record_ok_def entry_ok_def value_or_empty_def split: option.splits)

lemma entry_live_idem [simp]: "entry_live now (entry_live now x) = entry_live now x"
  by (auto simp: entry_live_def split: option.splits)

lemma spec_change_ok: "entry_ok x \<Longrightarrow> mutation_ok now c \<Longrightarrow> entry_ok (snd (spec_change now c x))"
  by (cases c; cases x) (auto simp: put_value_def split: sum.splits prod.splits)

lemma overlay_splice:
  "splice (if length v < offset + length new then resize_zero v (offset + length new) else v) offset new = overlay v offset new"
  by (auto simp: overlay_def splice_def resize_zero_def min_def not_less)

lemma length_overlay: "length (overlay v offset new) = max (length v) (offset + length new)"
  by (auto simp: overlay_def)

lemma bounded_add:
  "(case checked_add a b of None \<Rightarrow> x | Some n \<Rightarrow> if MAX_BULK_STRING_BYTES < n then x else f n) =
     (if MAX_BULK_STRING_BYTES < a + b then x else f (a + b))"
  by (auto simp: checked_add_def MAX_BULK_STRING_BYTES_def MAX_FRAME_BYTES_def)

lemma string_state:
  "plausible_expiry e \<Longrightarrow> state_from_raw (Some (encode_raw_string v e)) = \<lparr>bs_value = Batch_String v, bs_expire_ms = e, bs_dirty = False\<rparr>"
  using record_state [of "Some (v, e)"] by simp

lemmas single_defs = single_result_def string_state set_value_def stored_def flag_reply_def bounded_add

lemma single_spec:
  assumes "entry_ok x" "mutation_ok now c"
  shows "\<exists>n. single_result now c (record_of x) =
    (fst (spec_change now c x :: ('e db_error + _) \<times> _), record_of (snd (spec_change now c x :: ('e db_error + _) \<times> _)), n)"
proof (cases c)
  case (M_Append k suffix)
  then show ?thesis using assms by (cases x) (auto simp: single_defs put_value_def Let_def)
next
  case (M_GetSet k val)
  then show ?thesis using assms by (cases x) (auto simp: single_defs)
next
  case (M_GetDel k)
  then show ?thesis using assms by (cases x) (auto simp: single_defs)
next
  case (M_SetNx k val)
  then show ?thesis using assms by (cases x) (auto simp: single_defs)
next
  case (M_SetBit k offset b)
  then show ?thesis using assms by (cases x) (auto simp: single_defs split: sum.splits prod.splits)
next
  case (M_SetRange k offset new)
  then show ?thesis using assms overlay_splice [of "[]" offset new] overlay_splice [of "fst (the x)" offset new]
    by (cases x) (auto simp: single_defs Let_def length_overlay)
next
  case (M_Psetex k ttl val)
  then show ?thesis using assms by (cases x) (auto simp: single_defs)
qed

section \<open>DEL\<close>

lemma string_delete_writes:
  assumes "at_instant db view now" "mh_type_tag header = TYPE_STRING"
  shows "delete_writes db key header = Inr (delete_core (db_no db) key (mh_expire_ms header))"
  using assms(2) by (simp add: delete_writes_def delete_sub_keys_to_batch_bytes_def type_tag_defs remove_known_to_batch_def delete_core_def
      at_instant_key [OF assms(1)])

lemma delete_all_effect:
  assumes "at_instant db view now" "distinct keys" "\<forall>k \<in> set keys. utf8_valid k"
    and "\<forall>k \<in> set keys. mh_type_tag (header k) = TYPE_STRING \<and> mh_expire_ms (header k) = old k"
  shows "\<exists>batch. delete_all_writes db (map (\<lambda>k. (k, header k)) keys) = Inr batch \<and> (keys \<noteq> [] \<longrightarrow> batch \<noteq> []) \<and>
    effect (db_no db) (set keys) old (\<lambda>_. None) batch"
  using assms(2-4)
proof (induction keys)
  case Nil
  then show ?case by (simp add: effect_def)
next
  case (Cons k keys)
  then obtain batch where b: "delete_all_writes db (map (\<lambda>k. (k, header k)) keys) = Inr batch"
    "effect (db_no db) (set keys) old (\<lambda>_. None) batch" by auto
  have w: "delete_writes db k (header k) = Inr (delete_core (db_no db) k (old k))"
    using string_delete_writes [OF assms(1)] Cons.prems(3) by simp
  have "effect (db_no db) {k} (\<lambda>_. old k) (\<lambda>_. None) (delete_core (db_no db) k (old k))"
    using delete_effect [of k "[]" "db_no db" "old k"] Cons.prems(2) by simp
  then have "effect (db_no db) ({k} \<union> set keys) old (\<lambda>_. None) (delete_core (db_no db) k (old k) @ batch)"
    using b(2) Cons.prems(1,2) by (intro effect_append) (auto simp: effect_def)
  then show ?case using b(1) w by (simp add: delete_core_def)
qed

lemma forget_list_metas_run:
  assumes "wrote db view s K new n s1"
  obtains s' where "forget_list_metas db keys s1 = (Inr (), s')" "wrote db view s K new n s'"
proof -
  have same: "engine (remove_list_meta_cache_if_non_transactional db key s) = engine s"
    "changes (remove_list_meta_cache_if_non_transactional db key s) = changes s" for key s
    by (simp_all add: remove_list_meta_cache_if_non_transactional_def)
  have "wrote db view s K new n (foldl (\<lambda>s key. remove_list_meta_cache_if_non_transactional db key s) s1 keys)"
    using assms by (induction keys arbitrary: s1) (auto simp: wrote_def same cache_ok_forget)
  then show ?thesis using that by (simp add: forget_list_metas_def modify_def)
qed

lemma delete_found_run:
  assumes "at_instant db view now" "cache_ok db view s" "distinct keys" "keys \<noteq> []" "\<forall>k \<in> set keys. utf8_valid k"
    and "\<forall>k \<in> set keys. mh_type_tag (header k) = TYPE_STRING \<and> mh_expire_ms (header k) = deadline_of (view (engine s) k)"
  obtains s' where "delete_found db (map (\<lambda>k. (k, view (engine s) k, header k)) keys) x s = (Inr (Some x), s')"
    "wrote db view s (set keys) (\<lambda>_. None) (length keys) s'"
proof -
  let ?found = "map (\<lambda>k. (k, view (engine s) k, header k)) keys" and ?conditions = "map (\<lambda>k. (k, view (engine s) k)) keys"
  obtain batch where b: "delete_all_writes db (map (\<lambda>k. (k, header k)) keys) = Inr batch" "batch \<noteq> []"
    "effect (db_no db) (set keys) (\<lambda>k. deadline_of (view (engine s) k)) (\<lambda>_. None) batch"
    using delete_all_effect [OF assms(1,3,5,6)] assms(4) by blast
  obtain s1 where s1: "compare_and_write_batch_if_not_empty db ?conditions batch s = (Inr True, s1)" "committed db view batch s s1"
    using compare_and_write_run [of db view s batch ?conditions] assms(1,2) b(2,3) by (auto simp: at_instant_def serves_def effect_def)
  obtain s' where s': "forget_list_metas db keys (s1\<lparr>changes := changes s1 + length keys\<rparr>) = (Inr (), s')"
    "wrote db view s (set keys) (\<lambda>_. None) (length keys) s'"
    using forget_list_metas_run [OF effect_wrote [OF s1(2) b(3) assms(5)]] .
  have "delete_found db ?found x s = (Inr (Some x), s')"
    using b(1) s1(1) s'(1)
    by (simp add: delete_found_def o_def at_instant_key [OF assms(1)] and_then_def fetch_add_changes_def modify_def return_def)
  then show ?thesis using that s'(2) by blast
qed

lemma map_filter_zip:
  "List.map_filter (\<lambda>(k, v). map_option (\<lambda>h. (k, v, h)) (g v)) (zip keys (map f keys)) =
     map (\<lambda>k. (k, f k, the (g (f k)))) (filter (\<lambda>k. g (f k) \<noteq> None) keys)"
  by (induction keys) (auto simp: List.map_filter_simps split: option.splits)

lemma delete_keys_run:
  assumes "at_instant db view now" "cache_ok db view s" "\<forall>k \<in> set ks. utf8_valid k"
    and "\<forall>k \<in> set ks. view (engine s) k = record_of (m k) \<and> entry_ok (m k)"
  obtains s' n where "delete_keys_async db ks s = (Inr (card {k \<in> set ks. entry_live now (m k) \<noteq> None}), s')"
    "wrote db view s (set ks) (\<lambda>_. None) n s'"
proof -
  define keys where "keys = distinct_keys ks"
  have keys: "distinct keys" "set keys = set ks" by (simp_all add: keys_def distinct_keys_spec)
  have u: "\<forall>k \<in> set keys. utf8_valid k" using keys(2) assms(3) by simp
  let ?m = "\<lambda>k. entry_live now (m k)"
  obtain s1 where s1: "expire_all_keys db keys s = (Inr (), s1)" "wrote db view s (set keys) (\<lambda>k. live now (view (engine s) k)) 0 s1"
    using expire_all_run [OF assms(1,2) u] .
  have v1: "view (engine s1) k = record_of (?m k)" "entry_ok (?m k)" if "k \<in> set keys" for k
    using that s1(2) assms(4) keys(2) record_live by (auto simp: wrote_def)
  have c1: "cache_ok db view s1" using s1(2) by (simp add: wrote_def)
  have mk: "mk_key db = (\<lambda>k. k)" using at_instant_key [OF assms(1)] by (simp add: fun_eq_iff)
  define header where "header = (\<lambda>k. Option.bind (view (engine s1) k) decode_meta_header)"
  define L where "L = filter (\<lambda>k. header k \<noteq> None) keys"
  have h: "header k = map_option (\<lambda>(v, e). \<lparr>mh_expire_ms = e, mh_version = 0, mh_type_tag = TYPE_STRING\<rparr>) (?m k)" if "k \<in> set keys" for k
    using v1 [OF that] record_header by (simp add: header_def)
  have L: "distinct L" "set L = {k \<in> set ks. ?m k \<noteq> None}" using keys h by (auto simp: L_def)
  have n: "length L = card {k \<in> set ks. ?m k \<noteq> None}" using distinct_card [OF L(1)] L(2) by simp
  have "List.map_filter (\<lambda>(k, v). map_option (\<lambda>h. (k, v, h)) (Option.bind v decode_meta_header)) (zip keys (map (view (engine s1)) keys)) =
      map (\<lambda>k. (k, view (engine s1) k, the (header k))) L"
    using map_filter_zip [of "\<lambda>v. Option.bind v decode_meta_header" keys "view (engine s1)"] by (simp only: L_def header_def)
  then have round: "delete_keys_round db keys s =
      (if L = [] then return (Some 0) else delete_found db (map (\<lambda>k. (k, view (engine s1) k, the (header k))) L) (length L)) s1"
    using s1(1) by (simp add: delete_keys_round_def and_then_def multi_get_run [OF assms(1)] mk Let_def)
  have "\<exists>s'. delete_keys_round db keys s = (Inr (Some (length L)), s') \<and> wrote db view s (set ks) (\<lambda>_. None) (length L) s'"
  proof (cases "L = []")
    case True
    have "?m k = None" if "k \<in> set ks" for k
    proof (rule ccontr)
      assume "?m k \<noteq> None"
      then have "k \<in> set L" using L(2) that by simp
      then show False using True by simp
    qed
    then have "view (engine s1) k = None" if "k \<in> set ks" for k using v1(1) keys(2) that by simp
    then have "wrote db view s (set ks) (\<lambda>_. None) 0 s1" using s1(2) keys(2) by (simp add: wrote_def)
    then show ?thesis using True round by (simp add: return_def)
  next
    case False
    have uL: "\<forall>k \<in> set L. utf8_valid k" using L(2) assms(3) by simp
    have "\<forall>k \<in> set L. mh_type_tag (the (header k)) = TYPE_STRING \<and> mh_expire_ms (the (header k)) = deadline_of (view (engine s1) k)"
      using L(2) keys(2) h v1 record_deadline by fastforce
    then obtain s' where s': "delete_found db (map (\<lambda>k. (k, view (engine s1) k, the (header k))) L) (length L) s1 = (Inr (Some (length L)), s')"
      "wrote db view s1 (set L) (\<lambda>_. None) (length L) s'"
      by (rule delete_found_run [OF assms(1) c1 L(1) False uL, where x = "length L"])
    have "wrote db view s (set keys \<union> set L) (\<lambda>k. if k \<in> set L then None else live now (view (engine s) k)) (length L) s'"
      using wrote_trans [OF s1(2) s'(2) u] by simp
    moreover have "live now (view (engine s) k) = None" if "k \<in> set ks" "k \<notin> set L" for k
      using that L(2) assms(4) record_live by (cases "?m k") auto
    ultimately have "wrote db view s (set ks) (\<lambda>_. None) (length L) s'"
      using keys(2) L(2) by (simp add: wrote_def Un_absorb2 Collect_subset)
    then show ?thesis using s'(1) round False by auto
  qed
  then obtain s' where s': "delete_keys_round db keys s = (Inr (Some (length L)), s')" "wrote db view s (set ks) (\<lambda>_. None) (length L) s'"
    by blast
  show ?thesis
  proof (cases "keys = []")
    case True
    then have "delete_keys_async db ks s = (Inr 0, s)" "set ks = {}"
      using keys(2) by (simp_all add: delete_keys_async_def distinct_keys_def return_def)
    then show ?thesis using that [of s 0] assms(2) by (simp add: wrote_def)
  next
    case False
    then show ?thesis
      using that [of s' "length L"] retry_done [where body = "delete_keys_round db keys", OF s'(1)] s'(2) n by (simp add: delete_keys_async_def keys_def [symmetric])
  qed
qed

section \<open>One command\<close>

definition holds :: "('w \<Rightarrow> bytes \<rightharpoonup> bytes) \<Rightarrow> 'w db_state \<Rightarrow> (bytes \<rightharpoonup> entry) \<Rightarrow> bool" where
  "holds view s m \<longleftrightarrow> (\<forall>k. utf8_valid k \<longrightarrow> view (engine s) k = record_of (m k) \<and> entry_ok (m k))"

lemma read_live_run:
  assumes "at_instant db view now" "view (engine s) k = record_of x" "entry_ok x"
  shows "read_live_raw db k s = (Inr (record_of (entry_live now x)), s)"
  using assms(2,3) deadline_and_string_read_back
  by (cases x) (auto simp: read_live_raw_def and_then_def db_get_run [OF at_instant_contract [OF assms(1)]] at_instant_key [OF assms(1)]
      at_instant_now [OF assms(1)] return_def entry_live_def word_neq_0_conv)

lemma sint_difference:
  assumes "plausible_expiry e" "now < e"
  shows "sint (e - now) = int (unat e) - int (unat now)"
proof -
  have "uint now \<le> uint e" using assms(2) by (simp add: word_less_def)
  then have d: "uint (e - now) = uint e - uint now" by (simp add: uint_sub_lem)
  have "int (unat e) < int 0x554C535400000000" using assms(1) unfolding plausible_expiry_def by linarith
  then have "uint e < 2 ^ 63" by simp
  then have b: "uint (e - now) < 2 ^ 63" unfolding d using uint_ge_0 [of now] by linarith
  have "signed_take_bit 63 (uint (e - now)) = uint (e - now)"
    using b uint_ge_0 [of "e - now"] by (intro signed_take_bit_int_eq_self) linarith+
  then show ?thesis using d by (simp add: sint_uint)
qed

lemma ttl_run:
  assumes "at_instant db view now" "view (engine s) k = record_of x" "entry_ok x"
  shows "ttl_millis_readonly db k s = (Inr (spec_ttl now (entry_live now x)), s)"
  using assms(2,3) deadline_and_string_read_back sint_difference
  by (cases x) (auto simp: ttl_millis_readonly_def and_then_def db_get_run [OF at_instant_contract [OF assms(1)]] at_instant_key [OF assms(1)]
      at_instant_now [OF assms(1)] return_def entry_live_def spec_ttl_def not_less)

text \<open>What a command of the server does is what the map says.\<close>

definition simulates ::
  "('w, 'e) db \<Rightarrow> ('w \<Rightarrow> bytes \<rightharpoonup> bytes) \<Rightarrow> ('w, 'e, string_batch_reply) action \<Rightarrow> 'w db_state \<Rightarrow>
   ('e db_error + string_batch_reply) \<times> (bytes \<rightharpoonup> entry) \<Rightarrow> (bytes \<rightharpoonup> entry) \<Rightarrow> bool"
where
  "simulates db view a s result m \<longleftrightarrow>
     (\<exists>s' K n. a s = (fst result, s') \<and> wrote db view s K (\<lambda>k. record_of (snd result k)) n s' \<and>
        (\<forall>k \<in> K. utf8_valid k) \<and> (\<forall>k. k \<notin> K \<longrightarrow> snd result k = m k))"

lemma simulates_read:
  assumes "a s = (Inr x, s)" "cache_ok db view s"
  shows "simulates db view (reply_with f a) s (Inr (f x), m) m"
proof -
  have "reply_with f a s = (Inr (f x), s)" using reply_with_run [where m = a and f = f, OF assms(1)] by simp
  then show ?thesis using assms(2) unfolding simulates_def by (intro exI [of _ s] exI [of _ "{}"] exI [of _ 0]) (simp add: wrote_def)
qed

lemma simulates_key:
  assumes "a s = (y, s')" "wrote db view s {k} (\<lambda>_. record_of x) n s'" "utf8_valid k" "map_sum id f y = reply"
  shows "simulates db view (reply_with f a) s (reply, m(k := x)) m"
proof -
  have "reply_with f a s = (reply, s')" using reply_with_run [where m = a and f = f, OF assms(1)] assms(4) by simp
  then show ?thesis using assms(2,3) unfolding simulates_def by (intro exI [of _ s'] exI [of _ "{k}"] exI [of _ n]) (auto simp: wrote_def)
qed

lemma set_simulates:
  assumes "at_instant db view now" "cache_ok db view s" "utf8_valid k" "view (engine s) k = record_of (m k)" "entry_ok (m k)"
    and "command_ok now (C_Set k val expiration condition return_old)"
  shows "simulates db view (run_command db ft (C_Set k val expiration condition return_old)) s
    (spec_step now (C_Set k val expiration condition return_old) m) m"
proof -
  define x where "x = entry_live now (m k)"
  have x: "live now (view (engine s) k) = record_of x" "entry_ok x" using assms(4,5) record_live by (simp_all add: x_def)
  have d: "set_deadline expiration (record_of x) = spec_deadline expiration x"
    using x(2) by (cases expiration; cases x) (auto simp: set_deadline_def raw_string_header)
  have "plausible_expiry (spec_deadline expiration x)"
    using assms(6) x(2) by (cases expiration; cases x) auto
  then obtain s' where s': "set_string_bytes_async db k val expiration condition return_old s =
      (fst (set_result now val expiration condition return_old (record_of x)), s')"
    "wrote db view s {k} (\<lambda>_. fst (snd (set_result now val expiration condition return_old (record_of x) :: ('b db_error + _) \<times> _)))
       (snd (snd (set_result now val expiration condition return_old (record_of x) :: ('b db_error + _) \<times> _))) s'"
    using set_run [OF assms(1-3), of expiration val condition return_old] unfolding x(1) d by metis
  let ?e = "spec_deadline expiration x"
  have c: "Option.bind (record_of x) decode_meta_header \<noteq> None \<longleftrightarrow> x \<noteq> None" using record_header [OF x(2)] by simp
  have o: "old_string_value (record_of x) = Inr (map_option fst x)"
    using x(2) by (cases x) (auto simp: old_string_value_def raw_string_header)
  have r: "set_result now val expiration condition return_old (record_of x) =
      (if \<not> condition_matches condition (x \<noteq> None) then (Inr Not_Set, record_of x, 0)
       else (Inr (Was_Set (if return_old then map_option fst x else None)),
         record_of (if ?e \<noteq> 0 \<and> \<not> now < ?e then None else Some (val, ?e)), 1))"
    unfolding set_result_def c o d by (auto simp: Let_def)
  show ?thesis
    using simulates_key [where a = "set_string_bytes_async db k val expiration condition return_old" and f = "set_reply return_old", OF s'(1)] s'(2) assms(3)
    unfolding r by (auto simp: x_def [symmetric] Let_def split: if_splits)
qed

lemma change_simulates:
  assumes "at_instant db view now" "cache_ok db view s" "mutation_ok now c"
    and "view (engine s) (mutation_key c) = record_of (m (mutation_key c))" "entry_ok (m (mutation_key c))"
  shows "simulates db view (run_single db c) s (spec_step now (C_Change c) m) m"
proof -
  let ?k = "mutation_key c"
  define x where "x = entry_live now (m ?k)"
  have x: "live now (view (engine s) ?k) = record_of x" "entry_ok x" "entry_live now x = x"
    using assms(4,5) record_live by (simp_all add: x_def)
  obtain n where n: "single_result now c (record_of x) = (fst (spec_change now c x :: ('b db_error + _) \<times> _), record_of (snd (spec_change now c x :: ('b db_error + _) \<times> _)), n)"
    using single_spec [OF x(2) assms(3)] by blast
  obtain s' where "run_single db c s = (fst (spec_change now c x), s')"
    "wrote db view s {?k} (\<lambda>_. record_of (snd (spec_change now c x :: ('b db_error + _) \<times> _))) n s'"
    using run_single_run [OF assms(1-3), unfolded x(1) n fst_conv snd_conv, OF record_ok_of [OF x(2,3)]] .
  then show ?thesis
    using mutation_utf8 [OF assms(3)] unfolding simulates_def
    by (intro exI [of _ s'] exI [of _ "{?k}"] exI [of _ n]) (auto simp: wrote_def x_def [symmetric] split: prod.splits)
qed

lemma deadline_simulates:
  assumes "at_instant db view now" "fulltext_local ft" "cache_ok db view s" "utf8_valid k"
    "view (engine s) k = record_of (m k)" "entry_ok (m k)"
  shows "plausible_expiry (saturating_add64 now ttl) \<Longrightarrow>
      simulates db view (run_command db ft (C_Expire k ttl condition)) s (spec_step now (C_Expire k ttl condition) m) m"
    and "simulates db view (run_command db ft (C_Persist k)) s (spec_step now (C_Persist k) m) m"
proof -
  define x where "x = entry_live now (m k)"
  have x: "live now (view (engine s) k) = record_of x" "entry_ok x" using assms(5,6) record_live by (simp_all add: x_def)
  show "simulates db view (run_command db ft (C_Expire k ttl condition)) s (spec_step now (C_Expire k ttl condition) m) m"
    if p: "plausible_expiry (saturating_add64 now ttl)"
  proof -
    have r: "expire_outcome ttl (saturating_add64 now ttl) condition (record_of x) = map_prod id record_of (spec_expire now ttl condition x)"
      using x(2) by (cases x) (auto simp: expire_outcome_def spec_expire_def raw_string_header record_patch)
    obtain s' where "expire_with_condition db ft k ttl condition s = (Inr (fst (spec_expire now ttl condition x)), s')"
      "wrote db view s {k} (\<lambda>_. record_of (snd (spec_expire now ttl condition x))) 0 s'"
      using expire_condition_run [OF assms(1-4) p, of condition] unfolding x(1) r by auto
    then show ?thesis
      using simulates_key [where a = "expire_with_condition db ft k ttl condition" and f = flag_reply] assms(4)
      by (auto simp: x_def [symmetric] split: prod.splits)
  qed
  have r: "persist_result (record_of x) = (snd (value_or_empty x) \<noteq> 0, record_of (map_option (\<lambda>(v, _). (v, 0)) x))"
    using x(2) by (cases x) (auto simp: persist_result_def raw_string_header record_patch deadline_of_def [of None])
  obtain s' where "persist db ft k s = (Inr (snd (value_or_empty x) \<noteq> 0), s')"
    "wrote db view s {k} (\<lambda>_. record_of (map_option (\<lambda>(v, _). (v, 0)) x)) 0 s'"
    using persist_run [OF assms(1-4)] record_header [OF x(2)] unfolding x(1) r by auto
  then show "simulates db view (run_command db ft (C_Persist k)) s (spec_step now (C_Persist k) m) m"
    using simulates_key [where a = "persist db ft k" and f = flag_reply] assms(4) by (auto simp: x_def [symmetric] Let_def)
qed

lemma getex_simulates:
  assumes "at_instant db view now" "cache_ok db view s" "utf8_valid k" "view (engine s) k = record_of (m k)" "entry_ok (m k)"
    and "\<forall>e. getex_deadline now update = Some e \<longrightarrow> plausible_expiry e"
  shows "simulates db view (run_command db ft (C_Getex k update)) s (spec_step now (C_Getex k update) m) m"
proof -
  define x where "x = entry_live now (m k)"
  have x: "live now (view (engine s) k) = record_of x" "entry_ok x" using assms(4,5) record_live by (simp_all add: x_def)
  let ?y = "Option.bind x (\<lambda>(v, _). map_option (\<lambda>e. (v, e)) (getex_deadline now update))"
  have r: "getex_result now update (record_of x) = (Inr (map_option fst x), record_of ?y)"
    using x(2) by (cases x) (auto simp: getex_result_def string_state record_patch split: option.splits)
  have t: "type_clear (record_of x)" using x(2) by (cases x) (auto simp: type_clear_def string_state)
  obtain s' where "getex_string_bytes db k (Some update) s = (Inr (map_option fst x), s')" "wrote db view s {k} (\<lambda>_. record_of ?y) 0 s'"
    using getex_run [OF assms(1-3,6)] t unfolding x(1) r by auto
  then show ?thesis
    using simulates_key [where a = "getex_string_bytes db k (Some update)" and f = Reply_Bulk] assms(3) by (auto simp: x_def [symmetric] Let_def)
qed

lemma command_simulates:
  assumes "at_instant db view now" "fulltext_local ft" "cache_ok db view s" "holds view s m" "command_ok now c"
  shows "simulates db view (run_command db ft c) s (spec_step now c m) m"
proof -
  have r: "view (engine s) k = record_of (m k)" "entry_ok (m k)" if "utf8_valid k" for k using assms(4) that by (simp_all add: holds_def)
  show ?thesis
  proof (cases c)
    case (C_Get k)
    then have k: "utf8_valid k" using assms(5) by simp
    have "get_string_bytes db k s = (Inr (map_option fst (entry_live now (m k))), s)"
      using read_live_run [OF assms(1) r [OF k]] entry_live_ok [OF r(2) [OF k], of now] raw_string_header(2)
      by (cases "entry_live now (m k)") (auto simp: get_string_bytes_def and_then_def return_def)
    then show ?thesis using simulates_read [where a = "get_string_bytes db k" and f = Reply_Bulk] assms(3) C_Get by simp
  next
    case (C_Exists k)
    then have k: "utf8_valid k" using assms(5) by simp
    have "exists_readonly db k s = (Inr (entry_live now (m k) \<noteq> None), s)"
      using read_live_run [OF assms(1) r [OF k]] record_of_None [of "entry_live now (m k)"]
      by (simp add: exists_readonly_def and_then_def return_def del: not_None_eq)
    then show ?thesis using simulates_read [where a = "exists_readonly db k" and f = flag_reply] assms(3) C_Exists by simp
  next
    case (C_Pttl k)
    then have k: "utf8_valid k" using assms(5) by simp
    show ?thesis using simulates_read [where a = "ttl_millis_readonly db k" and f = Reply_Integer, OF ttl_run [OF assms(1) r [OF k]] assms(3)] C_Pttl by simp
  next
    case (C_Set k val expiration condition return_old)
    then have k: "utf8_valid k" using assms(5) by simp
    show ?thesis using set_simulates [where m = m, OF assms(1,3) k r [OF k]] assms(5) C_Set by simp
  next
    case (C_Change m')
    then have k: "mutation_ok now m'" "utf8_valid (mutation_key m')" using assms(5) mutation_utf8 by auto
    show ?thesis using change_simulates [where m = m, OF assms(1,3) k(1) r [OF k(2)]] C_Change by simp
  next
    case (C_Expire k ttl condition)
    then have k: "utf8_valid k" using assms(5) by simp
    show ?thesis using deadline_simulates(1) [where m = m, OF assms(1-3) k r [OF k]] assms(5) C_Expire by simp
  next
    case (C_Persist k)
    then have k: "utf8_valid k" using assms(5) by simp
    show ?thesis using deadline_simulates(2) [where m = m, OF assms(1-3) k r [OF k]] C_Persist by simp
  next
    case (C_Getex k update)
    then have k: "utf8_valid k" using assms(5) by simp
    have "\<forall>e. getex_deadline now update = Some e \<longrightarrow> plausible_expiry e" using assms(5) C_Getex by (simp split: option.splits)
    then show ?thesis using getex_simulates [where m = m, OF assms(1,3) k r [OF k]] C_Getex by simp
  next
    case (C_Del ks)
    then have u: "\<forall>k \<in> set ks. utf8_valid k" using assms(5) by (simp add: list_all_iff)
    obtain s' n where s': "delete_keys_async db ks s = (Inr (card {k \<in> set ks. entry_live now (m k) \<noteq> None}), s')"
      "wrote db view s (set ks) (\<lambda>_. None) n s'"
      using delete_keys_run [OF assms(1,3) u, of m] r u by blast
    have "reply_with (\<lambda>n. Reply_Integer (int n)) (delete_keys_async db ks) s =
        (Inr (Reply_Integer (int (card {k \<in> set ks. entry_live now (m k) \<noteq> None}))), s')"
      using reply_with_run [where m = "delete_keys_async db ks", OF s'(1)] by simp
    then show ?thesis
      using s'(2) u C_Del unfolding simulates_def by (intro exI [of _ s'] exI [of _ "set ks"] exI [of _ n]) (auto simp: wrote_def)
  qed
qed

lemma spec_step_ok:
  assumes "\<forall>k. utf8_valid k \<longrightarrow> entry_ok (m k)" "command_ok now c" "utf8_valid k"
  shows "entry_ok (snd (spec_step now c m :: ('e db_error + _) \<times> _) k)"
proof -
  have l: "entry_ok (entry_live now (m k'))" if "utf8_valid k'" for k' using assms(1) that by simp
  have d: "plausible_expiry (snd (value_or_empty x))" if "entry_ok x" for x using that by (cases x) auto
  show ?thesis
  proof (cases c)
    case (C_Set k' val expiration condition return_old)
    then show ?thesis using assms l d by (cases expiration) (auto simp: Let_def)
  next
    case (C_Change m')
    then have "entry_ok (snd (spec_change now m' (entry_live now (m (mutation_key m'))) :: ('e db_error + _) \<times> _))"
      using assms mutation_utf8 [of now m'] by (intro spec_change_ok) simp_all
    then show ?thesis using assms(1,3) C_Change by (auto split: prod.splits)
  next
    case (C_Expire k' ttl condition)
    then show ?thesis using assms l [of k'] by (cases "entry_live now (m k')") (auto simp: spec_expire_def simp del: entry_live_ok)
  next
    case (C_Persist k')
    then show ?thesis using assms by (cases "entry_live now (m k')") (auto simp: Let_def)
  next
    case (C_Getex k' update)
    then show ?thesis using assms by (cases "entry_live now (m k')"; cases "getex_deadline now update") (auto simp: Let_def)
  qed (use assms in auto)
qed

end
