(* ===== verification/String_Properties.thy ===== *)
theory String_Properties
  imports String_Model
begin

text \<open>
  The theorems on the commands of strings and keys: refinement of a map with deadlines for every sequence of commands, refusal of keys of
  other types, and DEL in its three forms.
\<close>

section \<open>Refinement\<close>

lemma at_time_simps:
  "serves db view \<Longrightarrow> fulltext_local (fulltext_delete db) \<Longrightarrow> at_instant (at_time db now) view now"
  "cache_ok (at_time db now) view s = cache_ok db view s" "db_no (at_time db now) = db_no db"
  by (simp_all add: at_time_def at_instant_def serves_def engine_contract_def cache_ok_def)

lemma simulates_holds:
  assumes "simulates db view a s (reply, m') m" "holds view s m" "\<forall>k. utf8_valid k \<longrightarrow> entry_ok (m' k)"
  obtains s' where "a s = (reply, s')" "cache_ok db view s'" "holds view s' m'"
    "\<forall>k. utf8_valid k \<longrightarrow> indexed (db_no db) (view (engine s)) k \<longrightarrow> indexed (db_no db) (view (engine s')) k"
proof -
  obtain s' K n where s': "a s = (reply, s')" "wrote db view s K (\<lambda>k. record_of (m' k)) n s'" "\<forall>k \<in> K. utf8_valid k"
    "\<forall>k. k \<notin> K \<longrightarrow> m' k = m k"
    using assms(1) unfolding simulates_def by auto
  have "view (engine s') k = record_of (m' k)" if "utf8_valid k" for k
    using s'(2,4) assms(2) that utf8_not_side [OF that] by (cases "k \<in> K") (auto simp: wrote_def holds_def)
  then show ?thesis using that [of s'] s'(1,2) assms(3) by (auto simp: wrote_def holds_def)
qed

text \<open>C8: The commands on strings and keys refine a map from keys to values with deadlines. For every sequence of commands, each at an instant of its
  own, GET, EXISTS, PTTL, SET with its options, APPEND, GETSET, GETDEL, SETNX, SETBIT, SETRANGE, PSETEX, EXPIRE with its conditions,
  PERSIST, GETEX and DEL of several keys, the replies are those of the map, the records afterwards are those of the map, and the index
  has exactly the deadlines of the records.\<close>

theorem string_store_refines:
  fixes db :: "('w, 'e) db"
  assumes "serves db view" "fulltext_local (fulltext_delete db)" "fulltext_local ft" "cache_ok db view s" "holds view s m"
    and "\<forall>(now, c) \<in> set cs. command_ok now c" "\<forall>k. utf8_valid k \<longrightarrow> indexed (db_no db) (view (engine s)) k"
  shows "\<exists>s' m'. run_trace db ft cs s = (fst (spec_trace cs m), s') \<and> snd (spec_trace cs m :: ('e db_error + _) list \<times> _) = m' \<and>
    holds view s' m' \<and> (\<forall>k. utf8_valid k \<longrightarrow> indexed (db_no db) (view (engine s')) k)"
  using assms(4-)
proof (induction cs arbitrary: s m)
  case (Cons nc cs)
  obtain now c where nc: "nc = (now, c)" by force
  note t = at_time_simps(2,3)
  obtain reply :: "'e db_error + string_batch_reply" and m1 where step: "spec_step now c m = (reply, m1)" by force
  have ok: "command_ok now c" using Cons.prems(3) nc by simp
  have entries: "\<forall>k. utf8_valid k \<longrightarrow> entry_ok (m1 k)"
    using spec_step_ok [where 'e = 'e and m = m, OF _ ok] step Cons.prems(2) by (auto simp: holds_def)
  have "simulates (at_time db now) view (run_command (at_time db now) ft c) s (reply, m1) m"
    using command_simulates [OF at_time_simps(1) [OF assms(1,2)] assms(3) _ Cons.prems(2) ok] Cons.prems(1) step by (simp add: t)
  then obtain s1 where s1: "run_command (at_time db now) ft c s = (reply, s1)" "cache_ok db view s1" "holds view s1 m1"
    "\<forall>k. utf8_valid k \<longrightarrow> indexed (db_no db) (view (engine s)) k \<longrightarrow> indexed (db_no db) (view (engine s1)) k"
    by (rule simulates_holds [OF _ Cons.prems(2) entries]) (simp only: t)
  have "\<exists>s' m'. run_trace db ft cs s1 = (fst (spec_trace cs m1), s') \<and> snd (spec_trace cs m1 :: ('e db_error + _) list \<times> _) = m' \<and>
    holds view s' m' \<and> (\<forall>k. utf8_valid k \<longrightarrow> indexed (db_no db) (view (engine s')) k)"
    using s1(4) Cons.prems(3,4) by (intro Cons.IH [OF s1(2,3)]) auto
  then show ?case using s1(1) step by (auto simp: nc split: prod.splits)
qed simp

text \<open>A session of eight commands on a store with one string.\<close>

definition sample_commands :: "(u64 \<times> string_command) list" where
  "sample_commands =
     [(1000, C_Change (M_Append ''a'' ''w'')), (1001, C_Expire ''a'' 10 Expire_Nx), (1005, C_Pttl ''a''), (1011, C_Get ''a''),
      (1012, C_Set ''a'' ''x'' Set_KeepTtl Set_Nx False), (1013, C_Exists ''a''), (1014, C_Del [''a'', ''b'', ''a'']), (1015, C_Get ''a'')]"

theorem string_store_refines_witness:
  "\<exists>s'. run_trace assoc_db (\<lambda>_ _. Inr []) sample_commands (assoc_state string_world) =
     ([Inr (Reply_Integer 2), Inr (Reply_Integer 1), Inr (Reply_Integer 6), Inr (Reply_Bulk None), Inr Reply_Ok, Inr (Reply_Integer 1),
       Inr (Reply_Integer 1), Inr (Reply_Bulk None)], s')"
proof -
  let ?m = "[''a'' \<mapsto> (''v'', 0)] :: bytes \<rightharpoonup> entry"
  have h: "holds map_of (assoc_state string_world) ?m" by (simp add: holds_def string_world_def)
  have f: "fulltext_local (fulltext_delete assoc_db)" "fulltext_local (\<lambda>_ _. Inr [] :: unit + batch_op list)"
    by (simp_all add: fulltext_local_def assoc_db_def)
  have c: "\<forall>(now, c) \<in> set sample_commands. command_ok now c"
    by (simp add: sample_commands_def utf8_valid_ascii_Cons saturating_add64_def plausible_expiry_def)
  have i: "\<forall>k. utf8_valid k \<longrightarrow> indexed (db_no assoc_db) (map_of (engine (assoc_state string_world))) k"
    using string_world_indexed by blast
  have k: "{k. (k = ''a'' \<or> k = ''b'') \<and> entry_live 1014 ((?m(''a'' \<mapsto> (''x'', 0))) k) \<noteq> None} = {''a''}"
    by (auto simp: entry_live_def)
  have "fst (spec_trace sample_commands ?m) =
      [Inr (Reply_Integer 2), Inr (Reply_Integer 1), Inr (Reply_Integer 6), Inr (Reply_Bulk None), Inr Reply_Ok, Inr (Reply_Integer 1),
       Inr (Reply_Integer 1), Inr (Reply_Bulk None) :: unit db_error + _]"
    by (simp add: sample_commands_def entry_live_def put_value_def MAX_BULK_STRING_BYTES_def MAX_FRAME_BYTES_def spec_expire_def spec_ttl_def
        saturating_add64_def flag_reply_def Let_def)
  then show ?thesis using string_store_refines [OF assoc_serves f assoc_cache_ok h c i] by auto
qed

section \<open>Keys of other types\<close>

fun type_checked :: "string_batch_mutation \<Rightarrow> bool" where
  "type_checked (M_SetNx _ _) = False"
| "type_checked (M_Psetex _ _ _) = False"
| "type_checked _ = True"

lemma other_state:
  "decode_meta_header raw = Some header \<Longrightarrow> mh_type_tag header \<noteq> TYPE_STRING \<Longrightarrow> bs_value (state_from_raw (Some raw)) = Batch_Other"
  by (simp add: state_from_raw_def)

lemma other_refused:
  "bs_value (state_from_raw r) = Batch_Other \<Longrightarrow> type_checked c \<Longrightarrow> single_result now c r = (Inl Wrong_type_error, r, 0)"
  by (cases c) (simp_all add: single_result_def)



section \<open>DEL from a script\<close>

text \<open>C39: DEL in its synchronous form, which scripts run, does not look at the deadline: it answers that it deleted a key whose deadline has
  passed and whose record was not yet swept, where the form that clients reach answers that there was nothing to delete.\<close>

theorem script_delete_counts_expired:
  assumes "at_instant db view now" "cache_ok db view s" "utf8_valid key"
    and "view (engine s) key = Some (encode_raw_string v e)" "plausible_expiry e" "e \<noteq> 0" "e \<le> now"
  shows "\<exists>s1 s2. delete_key_internal db key True s = (Inr True, s1) \<and> delete_keys_async db [key] s = (Inr 0, s2)"
proof -
  let ?header = "\<lparr>mh_expire_ms = e, mh_version = 0, mh_type_tag = TYPE_STRING\<rparr>" and ?batch = "delete_core (db_no db) key e"
  have "delete_writes db key ?header = Inr ?batch" using string_delete_writes [OF assms(1), of ?header] by simp
  moreover obtain s1 where "write_batch_if_not_empty db ?batch s = (Inr (), s1)"
    using write_batch_run [of db view s ?batch] assms(1,2,6) by (auto simp: at_instant_def serves_def delete_core_def)
  ultimately have "\<exists>s1. delete_key_internal db key True s = (Inr True, s1)"
    using assms(4) raw_string_header(1) [OF assms(5), of v]
    by (simp add: delete_key_internal_def and_then_def db_get_run [OF at_instant_contract [OF assms(1)]] at_instant_key [OF assms(1)]
        fetch_add_changes_def modify_def return_def)
  moreover have none: "{k \<in> set [key]. entry_live now (if k = key then Some (v, e) else None) \<noteq> None} = {}"
    using assms(6,7) by (auto simp: entry_live_def)
  have u: "\<forall>k \<in> set [key]. utf8_valid k" using assms(3) by simp
  obtain s2 n where "delete_keys_async db [key] s = (Inr (card ({} :: bytes set)), s2)"
    using delete_keys_run [OF assms(1,2) u, of "\<lambda>k. if k = key then Some (v, e) else None", unfolded none] assms(4,5) by auto
  ultimately show ?thesis by auto
qed

theorem script_delete_counts_expired_witness:
  "\<exists>s1 s2. delete_key_internal assoc_db ''a'' True (assoc_state [(''a'', encode_raw_string ''v'' 900)]) = (Inr True, s1) \<and>
     delete_keys_async assoc_db [''a''] (assoc_state [(''a'', encode_raw_string ''v'' 900)]) = (Inr 0, s2)"
  by (rule script_delete_counts_expired [OF assoc_instant assoc_cache_ok, of "''a''" _ "''v''" 900])
    (simp_all add: utf8_valid_ascii_Cons plausible_expiry_def)

section \<open>Pipelined DEL\<close>

lemma count_command_spec:
  "\<exists>removed'. count_command present ks seen removed n =
     (n + card {k \<in> set ks. k \<notin> set seen \<and> present k \<and> k \<notin> set removed}, removed') \<and>
     set removed' = set removed \<union> {k \<in> set ks. k \<notin> set seen \<and> present k}"
proof (induction ks arbitrary: seen removed n)
  case (Cons key ks)
  let ?S = "\<lambda>ks seen removed. {k \<in> set ks. k \<notin> set seen \<and> present k \<and> k \<notin> set removed}"
  show ?case
  proof (cases "key \<notin> set seen \<and> present key \<and> key \<notin> set removed")
    case True
    have "?S (key # ks) seen removed = insert key (?S ks (key # seen) (key # removed))" using True by auto
    then have "card (?S (key # ks) seen removed) = Suc (card (?S ks (key # seen) (key # removed)))" by (simp add: card_insert_if)
    then show ?thesis using Cons [of "key # seen" "key # removed" "n + 1"] True by auto
  next
    case False
    have "?S (key # ks) seen removed = ?S ks (key # seen) removed" using False by auto
    then show ?thesis using Cons [of "key # seen" removed n] False by auto
  qed
qed simp

text \<open>The answers of DEL commands one after the other, and the keys they delete.\<close>

fun del_counts :: "(bytes \<Rightarrow> bool) \<Rightarrow> bytes list list \<Rightarrow> bytes set \<Rightarrow> nat list" where
  "del_counts present [] gone = []"
| "del_counts present (ks # commands) gone = card {k \<in> set ks. present k \<and> k \<notin> gone} # del_counts present commands (gone \<union> {k \<in> set ks. present k})"

lemma del_counts_cong:
  "(\<And>k. k \<in> set (concat commands) \<Longrightarrow> P k = Q k) \<Longrightarrow> del_counts P commands gone = del_counts Q commands gone"
proof (induction commands arbitrary: gone)
  case (Cons ks commands)
  then have "{k \<in> set ks. P k} = {k \<in> set ks. Q k}" "{k \<in> set ks. P k \<and> k \<notin> gone} = {k \<in> set ks. Q k \<and> k \<notin> gone}" by auto
  then show ?case using Cons by simp
qed simp

lemma count_commands_spec:
  "\<exists>removed'. count_commands present commands removed = (del_counts present commands (set removed), removed') \<and>
     set removed' = set removed \<union> {k \<in> set (concat commands). present k}"
proof (induction commands arbitrary: removed)
  case (Cons ks commands)
  obtain r1 where r1: "count_command present ks [] removed 0 = (card {k \<in> set ks. present k \<and> k \<notin> set removed}, r1)"
    "set r1 = set removed \<union> {k \<in> set ks. present k}"
    using count_command_spec [of present ks "[]" removed 0] by auto
  obtain r2 where "count_commands present commands r1 = (del_counts present commands (set r1), r2)"
    "set r2 = set r1 \<union> {k \<in> set (concat commands). present k}"
    using Cons.IH by blast
  then show ?case using r1 by auto
qed simp

lemma spec_del_counts:
  assumes "\<And>k. entry_live now (m' k) \<noteq> None \<longleftrightarrow> entry_live now (m k) \<noteq> None \<and> k \<notin> gone"
  shows "fst (spec_trace (map (\<lambda>ks. (now, C_Del ks)) commands) m') =
      map (\<lambda>n. Inr (Reply_Integer (int n))) (del_counts (\<lambda>k. entry_live now (m k) \<noteq> None) commands gone)"
  using assms
proof (induction commands arbitrary: m' gone)
  case (Cons ks commands)
  let ?m = "\<lambda>k. if k \<in> set ks then None else m' k"
  have "entry_live now (?m k) \<noteq> None \<longleftrightarrow> entry_live now (m k) \<noteq> None \<and> k \<notin> gone \<union> {k \<in> set ks. entry_live now (m k) \<noteq> None}" for k
    using Cons.prems [of k] by (auto simp: entry_live_def)
  note ih = Cons.IH [OF this]
  have "{k \<in> set ks. entry_live now (m' k) \<noteq> None} = {k \<in> set ks. entry_live now (m k) \<noteq> None \<and> k \<notin> gone}"
    using Cons.prems by blast
  then show ?case using ih by (simp add: case_prod_beta del: not_None_eq)
qed simp

lemma spec_del_map:
  "entry_live now (snd (spec_trace (map (\<lambda>ks. (now, C_Del ks)) commands) m) k) =
     (if k \<in> set (concat commands) then None else entry_live now (m k))"
  by (induction commands arbitrary: m) (auto simp: case_prod_beta entry_live_def)

lemma record_live_header:
  assumes "entry_ok x"
  shows "live_header now (record_of x) = map_option (\<lambda>(v, e). \<lparr>mh_expire_ms = e, mh_version = 0, mh_type_tag = TYPE_STRING\<rparr>) (entry_live now x)"
  using assms by (cases x) (auto simp: live_header_def raw_string_header entry_live_def)

lemma delete_commands_run:
  assumes "at_instant db view now" "cache_ok db view s" "\<forall>k \<in> set (concat commands). utf8_valid k"
    and "\<forall>k \<in> set (concat commands). view (engine s) k = record_of (m k) \<and> entry_ok (m k)"
  defines "present \<equiv> \<lambda>k. k \<in> set (concat commands) \<and> entry_live now (m k) \<noteq> None"
  obtains s' n where "delete_commands_round db commands s = (Inr (Some (del_counts present commands {})), s')"
    "wrote db view s {k. present k} (\<lambda>_. None) n s'"
proof -
  define keys where "keys = distinct_keys (concat commands)"
  have keys: "distinct keys" "set keys = set (concat commands)" by (simp_all add: keys_def distinct_keys_spec)
  have mk: "mk_key db = (\<lambda>k. k)" using at_instant_key [OF assms(1)] by (simp add: fun_eq_iff)
  define obs where "obs = (\<lambda>k. if k \<in> set keys then view (engine s) k else None)"
  define header_of where "header_of = (\<lambda>k. live_header now (obs k))"
  have o: "Option.bind (map_of (zip keys (map (view (engine s)) keys)) k) id = obs k" for k
    by (simp add: map_of_zip_map obs_def)
  have h: "header_of k = (if k \<in> set keys then
      map_option (\<lambda>(v, e). \<lparr>mh_expire_ms = e, mh_version = 0, mh_type_tag = TYPE_STRING\<rparr>) (entry_live now (m k)) else None)" for k
    using assms(4) record_live_header keys(2) by (auto simp: header_of_def obs_def live_header_def)
  have ho: "live_header now (obs k) = header_of k" for k by (simp add: header_of_def)
  have p: "header_of k \<noteq> None \<longleftrightarrow> present k" for k unfolding h present_def keys(2) by simp
  obtain removed where r: "count_commands present commands [] = (del_counts present commands {}, removed)"
    "set removed = {k \<in> set (concat commands). present k}"
    using count_commands_spec [of present commands "[]"] by auto
  let ?L = "filter (\<lambda>k. k \<in> set removed) keys"
  have L: "set ?L = {k. present k}" "distinct ?L" using r(2) keys by (auto simp: present_def)
  have "map (\<lambda>k. (k, obs k, the (header_of k))) ?L = map (\<lambda>k. (k, view (engine s) k, the (header_of k))) ?L"
    by (simp add: obs_def)
  then have round: "delete_commands_round db commands s =
      (if removed = [] then return (Some (del_counts present commands {}))
       else delete_found db (map (\<lambda>k. (k, view (engine s) k, the (header_of k))) ?L) (del_counts present commands {})) s"
    unfolding delete_commands_round_def keys_def [symmetric]
    by (simp add: and_then_def multi_get_run [OF assms(1)] at_instant_now [OF assms(1)] mk Let_def o ho p r(1) del: not_None_eq map_eq_conv)
  show ?thesis
  proof (cases "removed = []")
    case True
    then have "{k. present k} = {}" using r(2) by (auto simp: present_def)
    then show ?thesis using that [of s 0] round True assms(2) by (simp add: return_def wrote_def)
  next
    case False
    have u: "\<forall>k \<in> set ?L. utf8_valid k" using assms(3) unfolding keys(2) [symmetric] by simp
    have "set removed \<subseteq> set keys" using r(2) keys(2) by blast
    then have ne: "?L \<noteq> []" using False by (cases removed) (auto simp: filter_empty_conv)
    have "\<forall>k \<in> set ?L. mh_type_tag (the (header_of k)) = TYPE_STRING \<and> mh_expire_ms (the (header_of k)) = deadline_of (view (engine s) k)"
    proof
      fix k assume "k \<in> set ?L"
      then have k: "k \<in> set keys" "present k" using L(1) keys(2) by auto
      then obtain v e where e: "entry_live now (m k) = Some (v, e)" by (auto simp: present_def)
      then have "m k = Some (v, e)" by (auto simp: entry_live_def split: option.splits if_splits)
      moreover have "view (engine s) k = record_of (m k) \<and> entry_ok (m k)" using assms(4) k(1) keys(2) by blast
      ultimately show "mh_type_tag (the (header_of k)) = TYPE_STRING \<and> mh_expire_ms (the (header_of k)) = deadline_of (view (engine s) k)"
        using k(1) e h [of k] raw_string_header(3) [of e v] by auto
    qed
    then obtain s' where "delete_found db (map (\<lambda>k. (k, view (engine s) k, the (header_of k))) ?L) (del_counts present commands {}) s =
        (Inr (Some (del_counts present commands {})), s')" "wrote db view s (set ?L) (\<lambda>_. None) (length ?L) s'"
      by (rule delete_found_run [OF assms(1,2) L(2) ne u, where x = "del_counts present commands {}"])
    then show ?thesis using that round False L(1) by auto
  qed
qed



end
