(* ===== verification/Set_Store.thy ===== *)
theory Set_Store
  imports Key_Store List_Store
begin

text \<open>
  Sets in the store: the commands of \<^verbatim>\<open>native_set_meta.rs\<close>, \<^verbatim>\<open>set_member_writes.rs\<close>, \<^verbatim>\<open>set_member_reads.rs\<close>,
  \<^verbatim>\<open>native_set_member_scan.rs\<close> and the union of \<^verbatim>\<open>set_aggregate_ops.rs\<close>, in the asynchronous form that clients reach, where each
  command holds the write locks of its keys. A small set is one record with its members in order; a larger one is a record with
  the version and the number of members, and a record for every member. The refresh of the full-text index that follows the removal
  of an expired key is not modelled.
\<close>

definition INDEX_MARKER_VALUE :: bytes where "INDEX_MARKER_VALUE = [CHR 0x01]"

definition member_puts :: "u16 \<Rightarrow> bytes \<Rightarrow> u64 \<Rightarrow> bytes list \<Rightarrow> batch_op list" where
  "member_puts db_index key version members = map (\<lambda>member. (Put, set_member_key db_index key version member, INDEX_MARKER_VALUE)) members"

definition split_set_writes :: "('w, 'e) db \<Rightarrow> bytes \<Rightarrow> u64 \<Rightarrow> u64 \<Rightarrow> bytes list \<Rightarrow> batch_op list" where
  "split_set_writes db key expire_ms version members =
     (Put, mk_key db key, encode_set_meta expire_ms version (length members)) # member_puts (db_no db) key version members"

definition contains_key :: "('w, 'e) db \<Rightarrow> bytes \<Rightarrow> ('w, 'e, bool) action" where
  "contains_key db raw_key = and_then (db_get db raw_key) (\<lambda>found. return (found \<noteq> None))"

section \<open>Layout and metadata\<close>

definition promote_set_round :: "('w, 'e) db \<Rightarrow> bytes \<Rightarrow> ('w, 'e, unit option) action" where
  "promote_set_round db key =
     and_then (db_get db (mk_key db key)) (\<lambda>observed.
       case observed of
         None \<Rightarrow> return (Some ())
       | Some raw \<Rightarrow>
           (case decode_packed_set raw of
              None \<Rightarrow> return (Some ())
            | Some members \<Rightarrow>
                (case decode_meta_header raw of
                   None \<Rightarrow> fail Decode_failed
                 | Some header \<Rightarrow>
                     and_then (next_version db) (\<lambda>version.
                     and_then (compare_and_write_batch_if_not_empty db [(mk_key db key, observed)]
                         (split_set_writes db key (mh_expire_ms header) version members)) (\<lambda>written.
                     return (if written then Some () else None))))))"

definition promote_packed_set :: "('w, 'e) db \<Rightarrow> bytes \<Rightarrow> ('w, 'e, unit) action" where
  "promote_packed_set db key = retry (promote_set_round db key)"

definition set_meta_of :: "('w, 'e) db \<Rightarrow> bytes \<Rightarrow> ('w, 'e, set_meta option) action" where
  "set_meta_of db key =
     and_then (expire_if_needed db key) (\<lambda>_.
     and_then (db_get db (mk_key db key)) (\<lambda>found.
       case found of
         None \<Rightarrow> return None
       | Some raw \<Rightarrow>
           if (case decode_meta_header raw of Some header \<Rightarrow> mh_type_tag header \<noteq> TYPE_SET | None \<Rightarrow> False) then fail Wrong_type_error
           else (case decode_set_meta raw of None \<Rightarrow> fail Decode_failed | Some meta \<Rightarrow> return (Some meta))))"

section \<open>SADD\<close>

text \<open>Members go into the ordered set one by one; the number of new ones is the reply.\<close>

fun insert_members :: "bytes list \<Rightarrow> nat \<Rightarrow> bytes list \<Rightarrow> nat \<times> bytes list" where
  "insert_members [] added packed = (added, packed)"
| "insert_members (member # members) added packed =
     (case set_insert member packed of
        None \<Rightarrow> insert_members members added packed
      | Some packed' \<Rightarrow> insert_members members (added + 1) packed')"

definition packed_or_split_set_writes :: "('w, 'e) db \<Rightarrow> bytes \<Rightarrow> u64 \<Rightarrow> bytes list \<Rightarrow> ('w, 'e, batch_op list) action" where
  "packed_or_split_set_writes db key expire_ms packed =
     (case encode_packed_set expire_ms packed of
        Some raw \<Rightarrow> return [(Put, mk_key db key, raw)]
      | None \<Rightarrow> and_then (next_version db) (\<lambda>version. return (split_set_writes db key expire_ms version packed)))"

definition add_packed_write ::
  "('w, 'e) db \<Rightarrow> bytes \<Rightarrow> bytes list \<Rightarrow> bytes option \<Rightarrow> u64 \<Rightarrow> bytes list \<Rightarrow> ('w, 'e, nat option option) action"
where
  "add_packed_write db key members observed expire_ms packed0 =
     (case insert_members members 0 packed0 of (added, packed) \<Rightarrow>
        if added = 0 then return (Some (Some 0))
        else and_then (packed_or_split_set_writes db key expire_ms packed) (\<lambda>batch.
             commit_round db [(mk_key db key, observed)] batch 1 (Some added)))"

text \<open>One attempt on the packed form: \<open>Some None\<close> hands over to the split form.\<close>

definition add_packed_round :: "('w, 'e) db \<Rightarrow> bytes \<Rightarrow> bytes list \<Rightarrow> ('w, 'e, nat option option) action" where
  "add_packed_round db key members =
     and_then (expire_if_needed db key) (\<lambda>_.
     and_then (db_get db (mk_key db key)) (\<lambda>observed.
       case observed of
         None \<Rightarrow> add_packed_write db key members observed 0 []
       | Some raw \<Rightarrow>
           (case decode_meta_header raw of
              None \<Rightarrow> fail Decode_failed
            | Some header \<Rightarrow>
                if mh_type_tag header \<noteq> TYPE_SET then fail Wrong_type_error
                else (case decode_packed_set raw of
                    None \<Rightarrow> return (Some None)
                  | Some packed \<Rightarrow> add_packed_write db key members observed (mh_expire_ms header) packed))))"

definition after_packed :: "('w, 'e) db \<Rightarrow> bytes \<Rightarrow> ('w, 'e, 'a option option) action \<Rightarrow> ('w, 'e, 'a option) action" where
  "after_packed db key body =
     and_then (rounds SMALL_INLINE_CAS_ATTEMPTS body) (\<lambda>r.
       case r of
         Some x \<Rightarrow> return x
       | None \<Rightarrow> and_then (promote_packed_set db key) (\<lambda>_. return None))"

definition try_set_add_packed :: "('w, 'e) db \<Rightarrow> bytes \<Rightarrow> bytes list \<Rightarrow> ('w, 'e, nat option) action" where
  "try_set_add_packed db key members = after_packed db key (add_packed_round db key members)"

text \<open>A commit to a structure whose owner record is already durable.\<close>

definition write_existing_version_batch_if_not_empty :: "('w, 'e) db \<Rightarrow> batch_op list \<Rightarrow> ('w, 'e, unit) action" where
  "write_existing_version_batch_if_not_empty db batch =
     (if batch = [] then return ()
      else and_then (engine_call (store_write_batch (kv db) batch)) (\<lambda>_. modify (after_commit db batch)))"

text \<open>The metadata to add to, or the header of an expired record that has to go first.\<close>

definition set_meta_to_extend :: "('w, 'e) db \<Rightarrow> bytes \<Rightarrow> ('w, 'e, set_meta option \<times> meta_header option) action" where
  "set_meta_to_extend db key =
     and_then (db_get db (mk_key db key)) (\<lambda>found.
       case found of
         None \<Rightarrow> return (None, None)
       | Some raw \<Rightarrow>
           (case decode_meta_header raw of
              None \<Rightarrow> fail Decode_failed
            | Some header \<Rightarrow>
                and_then (now_ms db) (\<lambda>now.
                  if mh_expire_ms header > 0 \<and> now \<ge> mh_expire_ms header then return (None, Some header)
                  else if mh_type_tag header \<noteq> TYPE_SET then fail Wrong_type_error
                  else (case decode_set_meta raw of None \<Rightarrow> fail Decode_failed | Some meta \<Rightarrow> return (Some meta, None)))))"

text \<open>The member records to write: all of them for a new set, the missing ones for a set that is there.\<close>

definition new_members :: "('w, 'e) db \<Rightarrow> bytes \<Rightarrow> set_meta option \<Rightarrow> u64 \<Rightarrow> bytes list \<Rightarrow> ('w, 'e, bytes list) action" where
  "new_members db key meta version unique_members =
     (if meta = None then return unique_members
      else and_then (db_multi_get db (map (set_member_key (db_no db) key version) unique_members)) (\<lambda>existing.
           return (map fst (filter (\<lambda>(_, old_raw). old_raw = None) (zip unique_members existing)))))"

definition set_add_split :: "('w, 'e) db \<Rightarrow> bytes \<Rightarrow> bytes list \<Rightarrow> ('w, 'e, nat) action" where
  "set_add_split db key members =
     and_then (set_meta_to_extend db key) (\<lambda>(meta, expired_header).
     and_then (case meta of Some meta \<Rightarrow> return (stm_version meta) | None \<Rightarrow> next_version db) (\<lambda>version.
       case (case expired_header of Some header \<Rightarrow> append_expiration_delete_to_batch db [] key header | None \<Rightarrow> Inr []) of
         Inl e \<Rightarrow> fail e
       | Inr batch0 \<Rightarrow>
           and_then (new_members db key meta version (distinct_keys members)) (\<lambda>new.
             (let added = length new;
                  batch = batch0 @ member_puts (db_no db) key version new @
                    (if added > 0 \<or> meta = None
                     then [(Put, mk_key db key, encode_set_meta (case meta of Some m \<Rightarrow> stm_expire_ms m | None \<Rightarrow> 0) version
                             (min (case meta of Some m \<Rightarrow> stm_len m + added | None \<Rightarrow> added) usize_max))]
                     else [])
              in if batch = [] then return added
                 else and_then (if meta = None then write_batch_if_not_empty db batch
                                else write_existing_version_batch_if_not_empty db batch) (\<lambda>_.
                      and_then (fetch_add_changes 1) (\<lambda>_. return added))))))"

definition set_add_async :: "('w, 'e) db \<Rightarrow> bytes \<Rightarrow> bytes list \<Rightarrow> ('w, 'e, nat) action" where
  "set_add_async db key members =
     and_then (try_set_add_packed db key members) (\<lambda>r.
       case r of Some added \<Rightarrow> return added | None \<Rightarrow> set_add_split db key members)"

section \<open>SREM\<close>

fun remove_members :: "bytes list \<Rightarrow> nat \<Rightarrow> bytes list \<Rightarrow> nat \<times> bytes list" where
  "remove_members [] removed packed = (removed, packed)"
| "remove_members (member # members) removed packed =
     (if member \<in> set packed then remove_members members (removed + 1) (remove1 member packed)
      else remove_members members removed packed)"

definition remove_packed_write ::
  "('w, 'e) db \<Rightarrow> bytes \<Rightarrow> bytes option \<Rightarrow> u64 \<Rightarrow> bytes list \<Rightarrow> 'a \<Rightarrow> ('w, 'e, 'a option) action"
where
  "remove_packed_write db key observed expire_ms packed result =
     (if packed = [] then commit_round db [(mk_key db key, observed)] (delete_main_key_with_ttl_to_batch db [] key expire_ms) 1 result
      else (case encode_packed_set expire_ms packed of
          None \<Rightarrow> fail Panic
        | Some encoded \<Rightarrow> commit_round db [(mk_key db key, observed)] [(Put, mk_key db key, encoded)] 1 result))"

definition remove_packed_round :: "('w, 'e) db \<Rightarrow> bytes \<Rightarrow> bytes list \<Rightarrow> ('w, 'e, nat option option) action" where
  "remove_packed_round db key members =
     and_then (expire_if_needed db key) (\<lambda>_.
     and_then (db_get db (mk_key db key)) (\<lambda>observed.
       case observed of
         None \<Rightarrow> return (Some (Some 0))
       | Some raw \<Rightarrow>
           (case decode_meta_header raw of
              None \<Rightarrow> fail Decode_failed
            | Some header \<Rightarrow>
                if mh_type_tag header \<noteq> TYPE_SET then fail Wrong_type_error
                else (case decode_packed_set raw of
                    None \<Rightarrow> return (Some None)
                  | Some packed0 \<Rightarrow>
                      (case remove_members members 0 packed0 of (removed, packed) \<Rightarrow>
                         if removed = 0 then return (Some (Some 0))
                         else remove_packed_write db key observed (mh_expire_ms header) packed (Some removed))))))"

definition try_set_remove_packed :: "('w, 'e) db \<Rightarrow> bytes \<Rightarrow> bytes list \<Rightarrow> ('w, 'e, nat option) action" where
  "try_set_remove_packed db key members = after_packed db key (remove_packed_round db key members)"

text \<open>The metadata after \<open>deleted\<close> members went, or the end of the set.\<close>

definition shrink_writes :: "('w, 'e) db \<Rightarrow> bytes \<Rightarrow> set_meta \<Rightarrow> nat \<Rightarrow> batch_op list \<Rightarrow> batch_op list option" where
  "shrink_writes db key meta deleted batch =
     (let len = stm_len meta - deleted
      in if len = 0
         then delete_sub_keys_to_batch_bytes (delete_main_key_with_ttl_to_batch db batch key (stm_expire_ms meta))
                (db_no db) key (stm_version meta) TYPE_SET
         else Some (batch @ [(Put, mk_key db key, encode_set_meta (stm_expire_ms meta) (stm_version meta) len)]))"

text \<open>Deletes the member records that are there.\<close>

definition remove_present :: "('w, 'e) db \<Rightarrow> bytes \<Rightarrow> set_meta \<Rightarrow> bytes list \<Rightarrow> ('w, 'e, nat) action" where
  "remove_present db key meta present =
     (if present = [] then return 0
      else (case shrink_writes db key meta (length present) (map (\<lambda>member_key. (Delete, member_key, [])) present) of
          None \<Rightarrow> fail Panic
        | Some batch \<Rightarrow>
            and_then (write_batch_if_not_empty db batch) (\<lambda>_.
            and_then (fetch_add_changes 1) (\<lambda>_. return (length present)))))"

definition set_remove_split :: "('w, 'e) db \<Rightarrow> bytes \<Rightarrow> bytes list \<Rightarrow> ('w, 'e, nat) action" where
  "set_remove_split db key members =
     and_then (set_meta_of db key) (\<lambda>found.
       case found of
         None \<Rightarrow> return 0
       | Some meta \<Rightarrow>
           (let member_keys = map (set_member_key (db_no db) key (stm_version meta)) (distinct_keys members)
            in and_then (db_multi_get db member_keys) (\<lambda>existing.
                 remove_present db key meta (map fst (filter (\<lambda>(_, old_raw). old_raw \<noteq> None) (zip member_keys existing))))))"

definition set_remove_async :: "('w, 'e) db \<Rightarrow> bytes \<Rightarrow> bytes list \<Rightarrow> ('w, 'e, nat) action" where
  "set_remove_async db key members =
     and_then (try_set_remove_packed db key members) (\<lambda>r.
       case r of Some removed \<Rightarrow> return removed | None \<Rightarrow> set_remove_split db key members)"

section \<open>Reading\<close>

definition packed_members :: "bytes option \<Rightarrow> bytes list option" where
  "packed_members found = Option.bind found decode_packed_set"

definition set_contains_async :: "('w, 'e) db \<Rightarrow> bytes \<Rightarrow> bytes \<Rightarrow> ('w, 'e, bool) action" where
  "set_contains_async db key member =
     and_then (set_meta_of db key) (\<lambda>found.
       case found of
         None \<Rightarrow> return False
       | Some meta \<Rightarrow>
           if stm_packed meta
           then and_then (db_get db (mk_key db key)) (\<lambda>raw.
                  return (case packed_members raw of Some members \<Rightarrow> member \<in> set members | None \<Rightarrow> False))
           else contains_key db (set_member_key (db_no db) key (stm_version meta) member))"

definition set_multi_contains_async :: "('w, 'e) db \<Rightarrow> bytes \<Rightarrow> bytes list \<Rightarrow> ('w, 'e, bool list) action" where
  "set_multi_contains_async db key members =
     and_then (set_meta_of db key) (\<lambda>found.
       case found of
         None \<Rightarrow> return (replicate (length members) False)
       | Some meta \<Rightarrow>
           if stm_packed meta
           then and_then (db_get db (mk_key db key)) (\<lambda>raw.
                  case packed_members raw of
                    None \<Rightarrow> fail Decode_failed
                  | Some packed \<Rightarrow> return (map (\<lambda>member. member \<in> set packed) members))
           else and_then (db_multi_get db (map (set_member_key (db_no db) key (stm_version meta)) members)) (\<lambda>found.
                  return (map (\<lambda>raw. raw \<noteq> None) found)))"

definition set_len_async :: "('w, 'e) db \<Rightarrow> bytes \<Rightarrow> ('w, 'e, nat) action" where
  "set_len_async db key = and_then (set_meta_of db key) (\<lambda>found. return (case found of None \<Rightarrow> 0 | Some meta \<Rightarrow> stm_len meta))"

definition scan_prefix_raw :: "('w, 'e) db \<Rightarrow> bytes \<Rightarrow> ('w, 'e, (bytes \<times> bytes) list) action" where
  "scan_prefix_raw db pfx = engine_call (scan_range_raw_limited (kv db) pfx (prefix_exclusive_upper_bound pfx) usize_max)"

definition set_members_raw :: "('w, 'e) db \<Rightarrow> bytes \<Rightarrow> u64 \<Rightarrow> ('w, 'e, bytes list) action" where
  "set_members_raw db key version =
     (if version = 0
      then and_then (db_get db (mk_key db key)) (\<lambda>raw. return (case packed_members raw of Some members \<Rightarrow> members | None \<Rightarrow> []))
      else (let pfx = set_member_prefix (db_no db) key version
            in and_then (scan_prefix_raw db pfx) (\<lambda>found. return (List.map_filter (\<lambda>(k, _). strip_prefix pfx k) found))))"

definition set_member_set_async :: "('w, 'e) db \<Rightarrow> bytes \<Rightarrow> ('w, 'e, bytes list option) action" where
  "set_member_set_async db key =
     and_then (set_meta_of db key) (\<lambda>found.
       case found of
         None \<Rightarrow> return None
       | Some meta \<Rightarrow> and_then (set_members_raw db key (stm_version meta)) (\<lambda>members. return (Some (filter utf8_valid members))))"

text \<open>SMEMBERS stops at the limits of a reply instead of collecting more.\<close>

definition add_member_size :: "nat option \<Rightarrow> bytes \<Rightarrow> nat option" where
  "add_member_size so_far member = Option.bind so_far (\<lambda>n. checked_add n (min (length member + 32) usize_max))"

fun visit_members :: "nat \<Rightarrow> nat \<Rightarrow> bytes \<Rightarrow> (bytes \<times> bytes) list \<Rightarrow> nat \<Rightarrow> bytes list \<Rightarrow> bytes list option" where
  "visit_members max_members max_encoded_bytes pfx [] encoded_bytes members = Some members"
| "visit_members max_members max_encoded_bytes pfx ((member_key, _) # rest) encoded_bytes members =
     (case strip_prefix pfx member_key of
        None \<Rightarrow> visit_members max_members max_encoded_bytes pfx rest encoded_bytes members
      | Some member \<Rightarrow>
          if \<not> utf8_valid member then visit_members max_members max_encoded_bytes pfx rest encoded_bytes members
          else (case add_member_size (Some encoded_bytes) member of
              None \<Rightarrow> None
            | Some next_bytes \<Rightarrow>
                if length members \<ge> max_members \<or> next_bytes > max_encoded_bytes then None
                else visit_members max_members max_encoded_bytes pfx rest next_bytes (members @ [member])))"

definition set_members_bounded :: "('w, 'e) db \<Rightarrow> bytes \<Rightarrow> nat \<Rightarrow> nat \<Rightarrow> ('w, 'e, bytes list) action" where
  "set_members_bounded db key max_members max_encoded_bytes =
     and_then (set_meta_of db key) (\<lambda>found.
       case found of
         None \<Rightarrow> return []
       | Some meta \<Rightarrow>
           if stm_len meta > max_members then fail Response_too_large
           else if stm_packed meta
           then and_then (set_members_raw db key (stm_version meta)) (\<lambda>members.
                  if \<not> list_all utf8_valid members then fail Not_utf8
                  else (case foldl add_member_size (Some 32) members of
                      None \<Rightarrow> fail Response_too_large
                    | Some encoded_bytes \<Rightarrow> if encoded_bytes > max_encoded_bytes then fail Response_too_large else return members))
           else (let pfx = set_member_prefix (db_no db) key (stm_version meta)
                 in and_then (engine_call (scan_range_raw_limited (kv db) pfx (prefix_exclusive_upper_bound pfx)
                        (min (max_members + 1) usize_max))) (\<lambda>found.
                    case visit_members max_members max_encoded_bytes pfx found 32 [] of
                      None \<Rightarrow> fail Response_too_large
                    | Some members \<Rightarrow> return members)))"

section \<open>SMOVE\<close>

definition set_move_writes ::
  "('w, 'e) db \<Rightarrow> bytes \<Rightarrow> bytes \<Rightarrow> bytes \<Rightarrow> set_meta \<Rightarrow> set_meta option \<Rightarrow> u64 \<Rightarrow> bool \<Rightarrow> batch_op list option"
where
  "set_move_writes db source destination member source_meta destination_meta destination_version there =
     (let deletes = [(Delete, set_member_key (db_no db) source (stm_version source_meta) member, [])];
          source_len = stm_len source_meta - 1
      in map_option (\<lambda>batch. batch @
           (if there then []
            else [(Put, set_member_key (db_no db) destination destination_version member, INDEX_MARKER_VALUE),
                  (Put, mk_key db destination,
                     encode_set_meta (case destination_meta of Some m \<Rightarrow> stm_expire_ms m | None \<Rightarrow> 0) destination_version
                       (min (case destination_meta of Some m \<Rightarrow> stm_len m + 1 | None \<Rightarrow> 1) usize_max))]))
         (if source_len = 0
          then map_option (\<lambda>batch. remove_known_to_batch batch (stm_expire_ms source_meta) (db_no db) source)
                 (delete_sub_keys_to_batch_bytes (deletes @ [(Delete, mk_key db source, [])]) (db_no db) source
                    (stm_version source_meta) TYPE_SET)
          else Some (deletes @ [(Put, mk_key db source,
                 encode_set_meta (stm_expire_ms source_meta) (stm_version source_meta) source_len)])))"

definition set_move_found ::
  "('w, 'e) db \<Rightarrow> bytes \<Rightarrow> bytes \<Rightarrow> bytes \<Rightarrow> set_meta \<Rightarrow> set_meta option \<Rightarrow> ('w, 'e, bool) action"
where
  "set_move_found db source destination member source_meta destination_meta =
     and_then (case destination_meta of Some m \<Rightarrow> return (stm_version m) | None \<Rightarrow> next_version db) (\<lambda>version.
     and_then (contains_key db (set_member_key (db_no db) destination version member)) (\<lambda>there.
       case set_move_writes db source destination member source_meta destination_meta version there of
         None \<Rightarrow> fail Panic
       | Some batch \<Rightarrow>
           and_then (write_batch_if_not_empty db batch) (\<lambda>_.
           and_then (fetch_add_changes 1) (\<lambda>_. return True))))"

definition set_move_async :: "('w, 'e) db \<Rightarrow> bytes \<Rightarrow> bytes \<Rightarrow> bytes \<Rightarrow> ('w, 'e, bool) action" where
  "set_move_async db source destination member =
     (if source = destination then set_contains_async db source member
      else
        and_then (promote_packed_set db source) (\<lambda>_.
        and_then (promote_packed_set db destination) (\<lambda>_.
        and_then (set_meta_of db source) (\<lambda>found.
          case found of
            None \<Rightarrow> return False
          | Some source_meta \<Rightarrow>
              and_then (set_meta_of db destination) (\<lambda>destination_meta.
              and_then (contains_key db (set_member_key (db_no db) source (stm_version source_meta) member)) (\<lambda>here.
                if here then set_move_found db source destination member source_meta destination_meta
                else return False))))))"

section \<open>SUNION and SUNIONSTORE\<close>

text \<open>The union is a hash set: its members in some order.\<close>

fun set_union_from :: "('w, 'e) db \<Rightarrow> bytes list \<Rightarrow> bytes list \<Rightarrow> ('w, 'e, bytes list) action" where
  "set_union_from db [] result = return result"
| "set_union_from db (key # keys) result =
     and_then (set_member_set_async db key) (\<lambda>found.
       set_union_from db keys (distinct_keys (result @ (case found of Some members \<Rightarrow> members | None \<Rightarrow> []))))"

definition set_union_async :: "('w, 'e) db \<Rightarrow> bytes list \<Rightarrow> ('w, 'e, bytes list) action" where
  "set_union_async db keys = set_union_from db keys []"

definition delete_key_round :: "('w, 'e) db \<Rightarrow> bytes \<Rightarrow> bool \<Rightarrow> ('w, 'e, bool option) action" where
  "delete_key_round db key count_change =
     and_then (db_get db (mk_key db key)) (\<lambda>observed.
       case observed of
         None \<Rightarrow> return (Some False)
       | Some raw \<Rightarrow>
           (case decode_meta_header raw of
              None \<Rightarrow> fail Corrupt_record
            | Some header \<Rightarrow>
                (case delete_writes db key header of
                   Inl e \<Rightarrow> fail e
                 | Inr batch \<Rightarrow> commit_round db [(mk_key db key, observed)] batch (if count_change then 1 else 0) True)))"

definition delete_key_internal_async :: "('w, 'e) db \<Rightarrow> bytes \<Rightarrow> bool \<Rightarrow> ('w, 'e, bool) action" where
  "delete_key_internal_async db key count_change = retry (delete_key_round db key count_change)"

definition set_store_members_async :: "('w, 'e) db \<Rightarrow> bytes \<Rightarrow> bytes list \<Rightarrow> ('w, 'e, nat) action" where
  "set_store_members_async db destination members =
     and_then (delete_key_internal_async db destination True) (\<lambda>_.
       if members = [] then return 0
       else and_then (set_add_async db destination members) (\<lambda>_. return (length members)))"

definition set_union_store_async :: "('w, 'e) db \<Rightarrow> bytes \<Rightarrow> bytes list \<Rightarrow> ('w, 'e, nat) action" where
  "set_union_store_async db destination keys =
     and_then (set_union_async db keys) (\<lambda>members. set_store_members_async db destination members)"

end
