(* ===== verification/Set_Refine.thy ===== *)
theory Set_Refine
  imports Set_Store Pipeline_Properties
begin

text \<open>
  Sets as the client sees them. \<open>set_at\<close> says that the store holds a set of members with a deadline under a key, whatever the
  layout: absent, packed in one record, or split into metadata and one record per member. The lemmas show how batches of member records
  change it, that what a batch does to one set leaves the others alone, and that promotion and the metadata read keep it.
\<close>

section \<open>Keys apart\<close>

lemma member_key_starts: "starts_with (set_member_key d key v x) (set_member_prefix d key v)"
  by (simp add: set_member_key_def)

lemma starts_member: "starts_with x (set_member_prefix d key v) \<longleftrightarrow> (\<exists>y. x = set_member_key d key v y)"
  by (simp add: starts_with_iff set_member_key_def)

lemma member_key_inject:
  assumes "valid_owner k" "valid_owner k'"
  shows "set_member_key d k v x = set_member_key d k' v' x' \<longleftrightarrow> k = k' \<and> v = v' \<and> x = x'"
proof
  assume eq: "set_member_key d k v x = set_member_key d k' v' x'"
  then have "k = k' \<and> v = v'"
    using sub_keys_disjoint [OF assms refl] member_key_starts unfolding collection_prefixes by metis
  then show "k = k' \<and> v = v' \<and> x = x'" using eq by (simp add: set_member_key_def)
qed simp

lemma member_prefix_shape: "\<exists>r. set_member_prefix d key v = TABLE_LOCAL_INTERNAL_PREFIX @ SET_MEMBER_NAMESPACE @ r"
  unfolding set_member_prefix_def by (subst append_owner_split) (simp add: CURRENT_def)

lemma member_key_not_main:
  assumes "utf8_valid k"
  shows "set_member_key d key v x \<noteq> k" "k \<noteq> set_member_key d key v x"
  using member_prefix_shape [of d key v] utf8_not_internal [OF assms] member_key_starts [of d key v x] by metis+

lemma member_key_not_side: "\<not> side_key d' (set_member_key d key v x)"
proof -
  obtain r where r: "set_member_key d key v x = TABLE_LOCAL_INTERNAL_PREFIX @ SET_MEMBER_NAMESPACE @ r"
    using member_prefix_shape [of d key v] by (auto simp: set_member_key_def)
  show ?thesis
    by (simp add: r side_key_def starts_with_iff version_owner_prefix_def CURRENT_def namespace_defs FULLTEXT_PREFIX_def
        TTL_INDEX_PREFIX_def TABLE_LOCAL_INTERNAL_PREFIX_def)
qed

lemma member_key_not_index: "set_member_key d key v x \<noteq> ttl_index_key e d' k" "ttl_index_key e d' k \<noteq> set_member_key d key v x"
  using member_key_not_side [of d' d key v x] ttl_index_key_side [of d' e d' k] by metis+

section \<open>Abstraction\<close>

definition members_at :: "(bytes \<rightharpoonup> bytes) \<Rightarrow> u16 \<Rightarrow> bytes \<Rightarrow> u64 \<Rightarrow> bytes set \<Rightarrow> bool" where
  "members_at m d key v S \<longleftrightarrow> (\<forall>x. m (set_member_key d key v x) \<noteq> None \<longleftrightarrow> x \<in> S)"

text \<open>Versions that have not been given out have no records.\<close>

definition unused_from :: "(bytes \<rightharpoonup> bytes) \<Rightarrow> u16 \<Rightarrow> u64 \<Rightarrow> bytes \<Rightarrow> bool" where
  "unused_from m d c key \<longleftrightarrow> (\<forall>v x. c < v \<longrightarrow> m (set_member_key d key v x) = None)"

definition packed_set_at :: "(bytes \<rightharpoonup> bytes) \<Rightarrow> bytes \<Rightarrow> u64 \<Rightarrow> bytes set \<Rightarrow> bool" where
  "packed_set_at m key e S \<longleftrightarrow> (\<exists>raw. encode_packed_set e (sorted_list_of_set S) = Some raw \<and> m key = Some raw)"

definition split_set_at :: "(bytes \<rightharpoonup> bytes) \<Rightarrow> u16 \<Rightarrow> u64 \<Rightarrow> bytes \<Rightarrow> u64 \<Rightarrow> u64 \<Rightarrow> bytes set \<Rightarrow> bool" where
  "split_set_at m d c key e v S \<longleftrightarrow>
     v \<noteq> 0 \<and> v \<le> c \<and> m key = Some (encode_set_meta e v (card S)) \<and> members_at m d key v S"

definition max_members :: nat where "max_members = 2 ^ 56"

definition set_ok :: "nat \<Rightarrow> u64 \<Rightarrow> bytes set \<Rightarrow> bool" where
  "set_ok n e S \<longleftrightarrow> finite S \<and> (\<forall>x \<in> S. utf8_valid x) \<and> card S \<le> n \<and> plausible_expiry e \<and> (S = {} \<longrightarrow> e = 0)"

text \<open>The store \<open>m\<close>, with versions given out up to \<open>c\<close>, has the members \<open>S\<close> with the deadline \<open>e\<close> under the key; \<open>n\<close> bounds their number.\<close>

definition set_at :: "(bytes \<rightharpoonup> bytes) \<Rightarrow> u16 \<Rightarrow> u64 \<Rightarrow> nat \<Rightarrow> bytes \<Rightarrow> u64 \<Rightarrow> bytes set \<Rightarrow> bool" where
  "set_at m d c n key e S \<longleftrightarrow> set_ok n e S \<and> unused_from m d c key \<and>
     (if S = {} then m key = None else packed_set_at m key e S \<or> (\<exists>v. split_set_at m d c key e v S))"

lemma set_at_mono: "set_at m d c n key e S \<Longrightarrow> c \<le> c' \<Longrightarrow> n \<le> n' \<Longrightarrow> set_at m d c' n' key e S"
  unfolding set_at_def set_ok_def unused_from_def split_set_at_def by (auto intro: order_trans order_le_less_trans split: if_splits)

lemma set_at_cong:
  assumes "m' key = m key" "\<And>v x. m' (set_member_key d key v x) = m (set_member_key d key v x)"
  shows "set_at m' d c n key e S = set_at m d c n key e S"
  by (simp add: set_at_def packed_set_at_def split_set_at_def members_at_def unused_from_def assms)

section \<open>Reading the layouts\<close>

lemma sorted_members [simp]: "finite S \<Longrightarrow> sorted_wrt (<) (sorted_list_of_set (S :: bytes set))"
  by simp

lemma packed_set_at_read:
  assumes "packed_set_at m key e S" "set_ok n e S"
  obtains raw where "m key = Some raw" "decode_packed_set raw = Some (sorted_list_of_set S)"
    "decode_meta_header raw = Some \<lparr>mh_expire_ms = e, mh_version = 0, mh_type_tag = TYPE_SET\<rparr>"
    "decode_set_meta raw = Some \<lparr>stm_expire_ms = e, stm_version = 0, stm_len = card S, stm_packed = True\<rparr>"
proof -
  obtain raw where raw: "encode_packed_set e (sorted_list_of_set S) = Some raw" "m key = Some raw"
    using assms(1) by (auto simp: packed_set_at_def)
  have ok: "finite S" "list_all utf8_valid (sorted_list_of_set S)" "plausible_expiry e"
    using assms(2) by (auto simp: set_ok_def list_all_iff)
  have d: "decode_packed_set raw = Some (sorted_list_of_set S)"
    using packed_set_roundtrip [OF raw(1) sorted_members [OF ok(1)] ok(2)] by blast
  have h: "decode_meta_header raw = Some \<lparr>mh_expire_ms = e, mh_version = 0, mh_type_tag = TYPE_SET\<rparr>"
    using packed_set_bytes [OF raw(1)] regular_header [OF ok(3)] by metis
  have "decode_set_meta raw = Some \<lparr>stm_expire_ms = e, stm_version = 0, stm_len = card S, stm_packed = True\<rparr>"
    using d h ok(1) by (simp add: decode_set_meta_def)
  then show ?thesis using that raw(2) d h by blast
qed

lemma split_set_read:
  assumes "plausible_expiry e" "len < max_members"
  shows "decode_packed_set (encode_set_meta e v len) = None"
    "decode_meta_header (encode_set_meta e v len) = Some \<lparr>mh_expire_ms = e, mh_version = v, mh_type_tag = TYPE_SET\<rparr>"
    "decode_set_meta (encode_set_meta e v len) = Some \<lparr>stm_expire_ms = e, stm_version = v, stm_len = len, stm_packed = False\<rparr>"
proof -
  show h: "decode_meta_header (encode_set_meta e v len) = Some \<lparr>mh_expire_ms = e, mh_version = v, mh_type_tag = TYPE_SET\<rparr>"
    using regular_header [OF assms(1)] by (simp add: encode_set_meta_def)
  show r: "decode_set_meta (encode_set_meta e v len) = Some \<lparr>stm_expire_ms = e, stm_version = v, stm_len = len, stm_packed = False\<rparr>"
    using set_meta_roundtrip [of len e v] assms(2) by (simp add: max_members_def)
  show "decode_packed_set (encode_set_meta e v len) = None"
    using r h by (cases "decode_packed_set (encode_set_meta e v len)") (auto simp: decode_set_meta_def)
qed

lemma set_at_deadline:
  assumes "set_at m d c n key e S" "n < max_members"
  shows "deadline_of (m key) = e"
proof (cases "S = {}")
  case True
  then show ?thesis using assms(1) by (simp add: set_at_def set_ok_def deadline_of_def)
next
  case False
  have ok: "set_ok n e S" "card S < max_members" "plausible_expiry e" using assms by (auto simp: set_at_def set_ok_def)
  consider "packed_set_at m key e S" | v where "split_set_at m d c key e v S" using assms(1) False by (auto simp: set_at_def)
  then show ?thesis
  proof cases
    case 1
    show ?thesis by (rule packed_set_at_read [OF 1 ok(1)]) (simp add: deadline_of_def)
  next
    case 2
    then show ?thesis using split_set_read(2) [OF ok(3,2)] by (simp add: split_set_at_def deadline_of_def)
  qed
qed

section \<open>Batches of member records\<close>

lemma member_puts_apply:
  "apply_batch (member_puts d key v xs) m x =
     (if \<exists>y \<in> set xs. x = set_member_key d key v y then Some INDEX_MARKER_VALUE else m x)"
  by (induction xs rule: rev_induct) (auto simp: member_puts_def)

lemma deletes_apply: "apply_batch (map (\<lambda>k. (Delete, k, [])) ks) m x = (if x \<in> set ks then None else m x)"
  by (induction ks rule: rev_induct) auto

lemma set_range_delete:
  obtains upper where
    "\<And>batch. delete_sub_keys_to_batch_bytes batch d key v TYPE_SET = Some (batch @ [(RangeDelete, set_member_prefix d key v, upper)])"
    "\<And>x. set_member_prefix d key v \<le> x \<and> x < upper \<longleftrightarrow> (\<exists>y. x = set_member_key d key v y)"
proof -
  obtain upper where up: "sub_key_range_end_bytes CURRENT d SET_MEMBER_NAMESPACE key v = Some upper"
    using sub_key_range_end_exists by blast
  have "delete_sub_keys_to_batch_bytes batch d key v TYPE_SET = Some (batch @ [(RangeDelete, set_member_prefix d key v, upper)])" for batch
    using up by (simp add: delete_sub_keys_to_batch_bytes_def delete_sub_range_def type_tag_defs collection_prefixes)
  moreover have "set_member_prefix d key v \<le> x \<and> x < upper \<longleftrightarrow> (\<exists>y. x = set_member_key d key v y)" for x
    using sub_key_range_iff [OF up, of x] starts_member [of x d key v] by (simp add: collection_prefixes)
  ultimately show ?thesis using that by blast
qed

section \<open>Changes to sets\<close>

text \<open>The operations of batches on the sets \<open>K\<close>.\<close>

definition set_op :: "u16 \<Rightarrow> bytes set \<Rightarrow> batch_op \<Rightarrow> bool" where
  "set_op d K op \<longleftrightarrow> plain_op op \<and> (\<forall>x. op_touches op x \<longrightarrow>
     (\<exists>key \<in> K. x = key \<or> (\<exists>v y. x = set_member_key d key v y) \<or> (\<exists>e. x = ttl_index_key e d key)))"

definition set_changed :: "('w, 'e) db \<Rightarrow> ('w \<Rightarrow> bytes \<rightharpoonup> bytes) \<Rightarrow> bytes set \<Rightarrow> 'w db_state \<Rightarrow> 'w db_state \<Rightarrow> bool" where
  "set_changed db view K s s' \<longleftrightarrow> cache_ok db view s' \<and> version_counter s \<le> version_counter s' \<and>
     (\<forall>x. x \<notin> K \<and> (\<forall>key \<in> K. \<forall>v y. x \<noteq> set_member_key (db_no db) key v y) \<and> \<not> side_key (db_no db) x \<longrightarrow>
        view (engine s') x = view (engine s) x) \<and>
     (\<forall>k. utf8_valid k \<longrightarrow> indexed (db_no db) (view (engine s)) k \<longrightarrow> indexed (db_no db) (view (engine s')) k)"

lemma set_op_intros:
  "key \<in> K \<Longrightarrow> wt = Put \<or> wt = Delete \<Longrightarrow> set_op d K (wt, key, raw)"
  "key \<in> K \<Longrightarrow> wt = Put \<or> wt = Delete \<Longrightarrow> set_op d K (wt, set_member_key d key v x, raw)"
  "key \<in> K \<Longrightarrow> set_op d K (Delete, ttl_index_key e d key, raw)"
  by (auto simp: set_op_def)

lemma set_changed_refl: "cache_ok db view s \<Longrightarrow> set_changed db view K s s"
  by (simp add: set_changed_def)

lemma set_changed_trans:
  "set_changed db view K s s1 \<Longrightarrow> set_changed db view L s1 s2 \<Longrightarrow> K \<subseteq> M \<Longrightarrow> L \<subseteq> M \<Longrightarrow> set_changed db view M s s2"
  unfolding set_changed_def by (auto intro: order_trans) (metis subsetD)

lemma set_changed_other:
  assumes "set_changed db view K s s'" "\<forall>k \<in> K. valid_owner k" "valid_owner key" "key \<notin> K"
    and "set_at (view (engine s)) (db_no db) (version_counter s) n key e S"
  shows "set_at (view (engine s')) (db_no db) (version_counter s') n key e S"
proof -
  have u: "utf8_valid key" "\<forall>k \<in> K. utf8_valid k" using assms(2,3) by (auto simp: valid_owner_def)
  have "view (engine s') key = view (engine s) key"
    using assms(1,4) utf8_not_side [OF u(1)] member_key_not_main(2) [OF u(1)] by (simp add: set_changed_def)
  moreover have "view (engine s') (set_member_key (db_no db) key v x) = view (engine s) (set_member_key (db_no db) key v x)" for v x
  proof -
    have "set_member_key (db_no db) key v x \<noteq> set_member_key (db_no db) k v' y" if "k \<in> K" for k v' y
      using member_key_inject [OF assms(3), of k] assms(2,4) that by blast
    moreover have "set_member_key (db_no db) key v x \<notin> K" using u(2) member_key_not_main(1) by blast
    ultimately show ?thesis using assms(1) member_key_not_side by (simp add: set_changed_def)
  qed
  ultimately have "set_at (view (engine s')) (db_no db) (version_counter s) n key e S" using set_at_cong assms(5) by blast
  then show ?thesis using set_at_mono assms(1) unfolding set_changed_def by blast
qed

lemma set_op_frame:
  assumes "list_all (set_op d K) batch" "x \<notin> K" "\<forall>key \<in> K. \<forall>v y. x \<noteq> set_member_key d key v y" "\<forall>key \<in> K. \<forall>e. x \<noteq> ttl_index_key e d key"
  shows "apply_batch batch m x = m x"
proof (intro apply_batch_other ballI notI)
  fix op assume "op \<in> set batch" "op_touches op x"
  then have "\<exists>key \<in> K. x = key \<or> (\<exists>v y. x = set_member_key d key v y) \<or> (\<exists>e. x = ttl_index_key e d key)"
    using assms(1) unfolding list_all_iff set_op_def by blast
  then show False using assms(2-4) by blast
qed

text \<open>The records of another set, and its entries in the index.\<close>

lemma set_op_other:
  assumes "list_all (set_op d K) batch" "\<forall>k \<in> K. valid_owner k" "valid_owner key" "key \<notin> K"
  shows "apply_batch batch m key = m key" "apply_batch batch m (set_member_key d key v y) = m (set_member_key d key v y)"
    "apply_batch batch m (ttl_index_key e d key) = m (ttl_index_key e d key)"
proof -
  have u: "utf8_valid key" "\<forall>k \<in> K. utf8_valid k" using assms(2,3) by (auto simp: valid_owner_def)
  show "apply_batch batch m key = m key"
    using assms(4) member_key_not_main [OF u(1)] key_apart_index [OF u(1)] by (intro set_op_frame [OF assms(1)]) auto
  have "set_member_key d key v y \<noteq> set_member_key d k w z" if "k \<in> K" for k w z
    using member_key_inject [OF assms(3), of k] assms(2,4) that by blast
  moreover have "set_member_key d key v y \<notin> K" using u(2) member_key_not_main(1) by blast
  ultimately show "apply_batch batch m (set_member_key d key v y) = m (set_member_key d key v y)"
    using member_key_not_index by (intro set_op_frame [OF assms(1)]) auto
  have "ttl_index_key e d key \<noteq> ttl_index_key e' d k" if "k \<in> K" for e' k
    using ttl_index_key_inject [OF u(1)] u(2) assms(4) that by blast
  moreover have "ttl_index_key e d key \<notin> K" using u(2) key_apart_index(2) by blast
  ultimately show "apply_batch batch m (ttl_index_key e d key) = m (ttl_index_key e d key)"
    using member_key_not_index by (intro set_op_frame [OF assms(1)]) auto
qed

lemma committed_view:
  assumes "committed db view batch s s'"
  shows "utf8_valid k \<Longrightarrow> view (engine s') k = apply_batch batch (view (engine s)) k"
    and "view (engine s') (set_member_key (db_no db) key v x) = apply_batch batch (view (engine s)) (set_member_key (db_no db) key v x)"
proof -
  have c: "\<not> starts_with x (version_owner_prefix (db_no db)) \<Longrightarrow> view (engine s') x = apply_batch batch (view (engine s)) x" for x
    using assms by (simp add: committed_def)
  show "view (engine s') k = apply_batch batch (view (engine s)) k" if "utf8_valid k"
    using c [of k] utf8_not_side [OF that, of "db_no db"] by (simp add: side_key_def)
  show "view (engine s') (set_member_key (db_no db) key v x) = apply_batch batch (view (engine s)) (set_member_key (db_no db) key v x)"
    using c member_key_not_side [of "db_no db" "db_no db" key v x] by (simp add: side_key_def)
qed

text \<open>A committed batch, where the index follows the deadlines.\<close>

lemma set_commit:
  assumes "committed db view batch s s'" "list_all (set_op (db_no db) K) batch" "\<forall>key \<in> K. utf8_valid key"
    and "\<And>key. key \<in> K \<Longrightarrow> indexed (db_no db) (view (engine s)) key \<Longrightarrow> indexed (db_no db) (apply_batch batch (view (engine s))) key"
  shows "set_changed db view K s (s'\<lparr>changes := n\<rparr>)"
proof -
  let ?m = "view (engine s)" and ?m' = "view (engine s')" and ?d = "db_no db"
  have c: "\<not> starts_with x (version_owner_prefix ?d) \<Longrightarrow> ?m' x = apply_batch batch ?m x" for x
    using assms(1) by (simp add: committed_def)
  note u = committed_view(1) [OF assms(1)]
  have i: "?m' (ttl_index_key e ?d k) = apply_batch batch ?m (ttl_index_key e ?d k)" for e k
    by (rule c) (rule ttl_index_key_other_side)
  note frame = set_op_frame [OF assms(2), where m = ?m]
  have "indexed ?d ?m' k" if k: "utf8_valid k" "indexed ?d ?m k" for k
  proof (cases "k \<in> K")
    case True
    then show ?thesis using assms(4) [OF True k(2)] by (simp add: indexed_def i u [OF k(1)])
  next
    case False
    have "ttl_index_key e ?d k \<noteq> ttl_index_key e' ?d key" if "key \<in> K" for e e' key
      using ttl_index_key_inject [OF k(1)] assms(3) False that by blast
    moreover have "ttl_index_key e ?d k \<notin> K" for e using assms(3) key_apart_index(2) by blast
    ultimately have "apply_batch batch ?m (ttl_index_key e ?d k) = ?m (ttl_index_key e ?d k)" for e
      using member_key_not_index by (intro frame) auto
    moreover have "apply_batch batch ?m k = ?m k"
      using False k(1) member_key_not_main by (intro frame) auto
    ultimately show ?thesis using k(2) by (simp add: indexed_def i u [OF k(1)])
  qed
  moreover have "?m' x = ?m x" if "x \<notin> K" "\<forall>key \<in> K. \<forall>v y. x \<noteq> set_member_key ?d key v y" "\<not> side_key ?d x" for x
  proof -
    have "\<forall>key \<in> K. \<forall>e. x \<noteq> ttl_index_key e ?d key" using that(3) ttl_index_key_side by blast
    then show ?thesis using c [of x] frame [OF that(1,2)] that(3) by (simp add: side_key_def)
  qed
  ultimately show "set_changed db view K s (s'\<lparr>changes := n\<rparr>)" using assms(1) by (simp add: set_changed_def committed_def)
qed

lemma set_commit_at:
  assumes "committed db view batch s s'" "list_all (set_op (db_no db) K) batch" "\<forall>key \<in> K. utf8_valid key"
    and "\<And>key. key \<in> K \<Longrightarrow> indexed (db_no db) (view (engine s)) key \<Longrightarrow> indexed (db_no db) (apply_batch batch (view (engine s))) key"
    and "key \<in> K" "set_at (apply_batch batch (view (engine s))) (db_no db) (version_counter s) n key e S"
  shows "set_at (view (engine s')) (db_no db) (version_counter s') n key e S"
proof -
  have "version_counter s' = version_counter s" using assms(1) by (simp add: committed_def)
  then show ?thesis
    using set_at_cong [of "view (engine s')" key "apply_batch batch (view (engine s))" "db_no db"]
      committed_view [OF assms(1)] assms(3,5,6) by simp
qed

lemma index_kept:
  assumes "deadline_of (m' key) = deadline_of (m key)" "\<And>e. m' (ttl_index_key e d key) = m (ttl_index_key e d key)" "indexed d m key"
  shows "indexed d m' key"
  using assms by (simp add: indexed_def)

lemma index_dropped:
  assumes "m' key = None" "\<And>e. m' (ttl_index_key e d key) = (if e \<noteq> 0 \<and> e = deadline_of (m key) then None else m (ttl_index_key e d key))"
    and "indexed d m key"
  shows "indexed d m' key"
  using assms by (auto simp: indexed_def deadline_of_def [of None])

section \<open>Writing the layouts\<close>

lemma put_packed_at:
  assumes "utf8_valid key" "unused_from m d c key" "set_ok n e S" "S \<noteq> {}" "encode_packed_set e (sorted_list_of_set S) = Some raw"
  shows "set_at (m(key \<mapsto> raw)) d c n key e S"
  using assms member_key_not_main [OF assms(1)] by (simp add: set_at_def packed_set_at_def unused_from_def)

text \<open>A set under a version of its own.\<close>

lemma new_split_at:
  assumes "unused_from m d c key" "c < v" "set_ok n e S" "S \<noteq> {}" "m' key = Some (encode_set_meta e v (card S))"
    and "\<And>w y. m' (set_member_key d key w y) \<noteq> None \<longleftrightarrow> w = v \<and> y \<in> S \<or> m (set_member_key d key w y) \<noteq> None"
  shows "split_set_at m' d v key e v S" "set_at m' d v n key e S"
proof -
  have f: "m (set_member_key d key w y) = None" if "c < w" for w y using assms(1) that by (simp add: unused_from_def)
  have z: "v \<noteq> 0" using assms(2) word_not_simps(1) by blast
  show sp: "split_set_at m' d v key e v S"
    using z assms(5,6) f [OF assms(2)] unfolding split_set_at_def members_at_def by blast
  moreover have "unused_from m' d v key"
    unfolding unused_from_def
  proof (intro allI impI)
    fix w y assume "v < w"
    then show "m' (set_member_key d key w y) = None" using assms(6) [of w y] f [of w y] assms(2) by auto
  qed
  ultimately show "set_at m' d v n key e S" using assms(3,4) by (auto simp: set_at_def)
qed

lemma split_writes_at:
  assumes "valid_owner key" "unused_from m d c key" "c < v" "set_ok n e S" "S \<noteq> {}" "set xs = S" "distinct xs"
  defines "m' \<equiv> apply_batch ((Put, key, encode_set_meta e v (length xs)) # member_puts d key v xs) m"
  shows "split_set_at m' d v key e v S" "set_at m' d v n key e S"
proof -
  have u: "utf8_valid key" using assms(1) by (simp add: valid_owner_def)
  have a: "m' x = (if \<exists>y \<in> set xs. x = set_member_key d key v y then Some INDEX_MARKER_VALUE
      else if x = key then Some (encode_set_meta e v (length xs)) else m x)" for x
    unfolding m'_def using apply_batch_append [of "[(Put, key, encode_set_meta e v (length xs))]" "member_puts d key v xs" m]
    by (simp add: apply_batch_single member_puts_apply)
  have "card S = length xs" using distinct_card [OF assms(7)] assms(6) by simp
  then have main: "m' key = Some (encode_set_meta e v (card S))" using a [of key] member_key_not_main(2) [OF u] by simp
  have k: "m' (set_member_key d key w y) \<noteq> None \<longleftrightarrow> w = v \<and> y \<in> S \<or> m (set_member_key d key w y) \<noteq> None" for w y
    using a [of "set_member_key d key w y"] member_key_inject [OF assms(1,1)] member_key_not_main(1) [OF u] assms(6) by auto
  show "split_set_at m' d v key e v S" "set_at m' d v n key e S" using new_split_at [OF assms(2-5) main k] by blast+
qed

text \<open>The records of a split set grow and shrink.\<close>

lemma split_set_update:
  assumes "valid_owner key" "split_set_at m d c key e v S" "unused_from m d c key" "set_ok n e S'" "S' \<noteq> {}"
    and "m' key = Some (encode_set_meta e v (card S'))"
    and "\<And>y. m' (set_member_key d key v y) \<noteq> None \<longleftrightarrow> y \<in> S'"
    and "\<And>w y. w \<noteq> v \<Longrightarrow> m' (set_member_key d key w y) = m (set_member_key d key w y)"
  shows "set_at m' d c n key e S'"
proof -
  have v: "v \<noteq> 0" "v \<le> c" using assms(2) by (simp_all add: split_set_at_def)
  have "m' (set_member_key d key w y) = None" if "c < w" for w y
    using assms(3) assms(8) [of w y] that v(2) by (auto simp: unused_from_def)
  then have "unused_from m' d c key" by (simp add: unused_from_def)
  moreover have "split_set_at m' d c key e v S'" using v assms(6,7) by (simp add: split_set_at_def members_at_def)
  ultimately show ?thesis using assms(4,5) by (auto simp: set_at_def)
qed

lemma set_gone:
  assumes "unused_from m d c key" "m' key = None" "\<And>w y. m' (set_member_key d key w y) = None \<or> m' (set_member_key d key w y) = m (set_member_key d key w y)"
  shows "set_at m' d c n key 0 {}"
proof -
  have "m' (set_member_key d key w y) = None" if "c < w" for w y
    using assms(1) assms(3) [of w y] that by (auto simp: unused_from_def)
  then show ?thesis using assms(2) by (simp add: set_at_def set_ok_def unused_from_def plausible_expiry_def)
qed

section \<open>Versions\<close>

lemma next_version_above:
  assumes "versions_left db (Suc n) s"
  obtains v where "next_version db s = (Inr v, s\<lparr>version_counter := v\<rparr>)" "version_counter s < v"
    "versions_left db n (s\<lparr>version_counter := v\<rparr>)"
proof -
  obtain v where v: "next_version db s = (Inr v, s\<lparr>version_counter := v\<rparr>)" "versions_left db n (s\<lparr>version_counter := v\<rparr>)"
    using next_version_run [OF assms] by blast
  let ?c = "unat (version_counter s)" and ?f = "version_timestamp_floor (clock_micros (kv db) (engine s))"
  let ?next = "max (min (?c + 1) usize_max) ?f"
  have b: "?c + Suc n \<le> usize_max" "?f + Suc n \<le> usize_max" using assms by (auto simp: versions_left_def)
  then have "unat (word_of_nat ?next :: u64) = ?next" by (simp add: unat_of_nat)
  moreover have "v = word_of_nat ?next" using v(1) b by (auto simp: next_version_def version_next_def Let_def split: if_splits)
  ultimately have "?c < unat v" using b by auto
  then show ?thesis using that v by (simp add: word_less_nat_alt)
qed

text \<open>Lazy expiry gives out no version.\<close>

lemma commit_counter: "compare_and_write_batch_if_not_empty db conditions batch s = (r, s') \<Longrightarrow> version_counter s' = version_counter s"
  by (auto simp: compare_and_write_batch_if_not_empty_def and_then_def engine_call_def with_owner_markers_def modify_def return_def
      after_commit_def invalidate_list_meta_cache_for_batch_def Let_def split: if_splits sum.splits prod.splits)

lemma expire_counter:
  assumes "expire_if_needed db key s = (r, s')"
  shows "version_counter s' = version_counter s"
proof -
  have round: "version_counter s' = version_counter s" if "expire_round db key s = (r, s')" for s r s'
    using that
    by (auto simp: expire_round_def and_then_def db_get_def engine_call_def return_def fail_def now_ms_def
        split: if_splits sum.splits prod.splits option.splits dest!: commit_counter)
  have "version_counter s' = version_counter s" if "rounds n (expire_round db key) s = (r, s')" for n s r s'
    using that
  proof (induction n arbitrary: s)
    case (Suc n)
    then show ?case
      by (auto simp: and_then_def return_def split: sum.splits prod.splits option.splits dest!: round dest: Suc.IH)
  qed (simp add: return_def)
  then show ?thesis using assms by (auto simp: expire_if_needed_def and_then_def return_def fail_def split: sum.splits prod.splits option.splits)
qed

end
