(* ===== verification/Set_Run.thy ===== *)
theory Set_Run
  imports Set_Refine
begin

text \<open>What the set commands do to the sets of the store, each at one instant: the reply, the set afterwards, and everything else as it was.\<close>

type_synonym set_entry = "u64 \<times> bytes set"

definition set_live :: "u64 \<Rightarrow> set_entry \<Rightarrow> set_entry" where
  "set_live now x = (if fst x = 0 \<or> now < fst x then x else (0, {}))"

abbreviation set_in :: "('w, 'e) db \<Rightarrow> ('w \<Rightarrow> bytes \<rightharpoonup> bytes) \<Rightarrow> nat \<Rightarrow> 'w db_state \<Rightarrow> bytes \<Rightarrow> set_entry \<Rightarrow> bool" where
  "set_in db view n s key x \<equiv> set_at (view (engine s)) (db_no db) (version_counter s) n key (fst x) (snd x)"

text \<open>A step that changes the sets \<open>K\<close> and leaves \<open>k\<close> versions to give out.\<close>

definition set_step :: "('w, 'e) db \<Rightarrow> ('w \<Rightarrow> bytes \<rightharpoonup> bytes) \<Rightarrow> bytes set \<Rightarrow> nat \<Rightarrow> 'w db_state \<Rightarrow> 'w db_state \<Rightarrow> bool" where
  "set_step db view K k s s' \<longleftrightarrow> set_changed db view K s s' \<and> versions_left db k s'"

lemma set_live_idem [simp]: "set_live now (set_live now x) = set_live now x"
  by (simp add: set_live_def)

lemma versions_left_same: "version_counter s' = version_counter s \<Longrightarrow> versions_left db k s' = versions_left db k s"
  by (simp add: versions_left_def)

lemma set_step_refl: "cache_ok db view s \<Longrightarrow> versions_left db k s \<Longrightarrow> set_step db view K k s s"
  by (simp add: set_step_def set_changed_refl)

lemma set_step_cache: "set_step db view K k s s' \<Longrightarrow> cache_ok db view s'"
  by (simp add: set_step_def set_changed_def)

lemma set_step_left: "set_step db view K k s s' \<Longrightarrow> versions_left db k s'"
  by (simp add: set_step_def)

lemma set_step_trans:
  "set_step db view K k s s1 \<Longrightarrow> set_step db view L k' s1 s2 \<Longrightarrow> K \<subseteq> M \<Longrightarrow> L \<subseteq> M \<Longrightarrow> set_step db view M k' s s2"
  using set_changed_trans unfolding set_step_def by blast

lemma set_step_changes: "set_step db view K k s s' \<Longrightarrow> set_step db view K k s (s'\<lparr>changes := c\<rparr>)"
  by (simp add: set_step_def set_changed_def versions_left_def)

lemma set_step_version:
  "cache_ok db view s \<Longrightarrow> version_counter s < v \<Longrightarrow> versions_left db k (s\<lparr>version_counter := v\<rparr>) \<Longrightarrow>
     set_step db view K k s (s\<lparr>version_counter := v\<rparr>)"
  by (simp add: set_step_def set_changed_def)

lemma set_step_mono: "set_step db view K k s s' \<Longrightarrow> j \<le> k \<Longrightarrow> set_step db view K j s s'"
  using versions_left_mono unfolding set_step_def by blast

lemma set_at_bound: "set_at m d c n key e S \<Longrightarrow> n \<le> n' \<Longrightarrow> set_at m d c n' key e S"
  using set_at_mono by blast

lemma set_at_later: "set_at m d c n key e S \<Longrightarrow> c < c' \<Longrightarrow> set_at m d c' n key e S"
  using set_at_mono by (blast intro: less_imp_le)

section \<open>Commits\<close>

text \<open>Batches that keep the deadline of the set, and batches that end the set.\<close>

definition keep_op :: "u16 \<Rightarrow> bytes \<Rightarrow> batch_op \<Rightarrow> bool" where
  "keep_op d key op \<longleftrightarrow> plain_op op \<and> (\<forall>x. op_touches op x \<longrightarrow> x = key \<or> (\<exists>v y. x = set_member_key d key v y))"

lemma keep_op_intros [simp]:
  "keep_op d key (Put, key, raw)" "keep_op d key (Put, set_member_key d key v x, raw)" "keep_op d key (Delete, set_member_key d key v x, raw)"
  by (auto simp: keep_op_def)

lemma keep_op_set: "list_all (keep_op d key) batch \<Longrightarrow> list_all (set_op d {key}) batch"
  by (auto simp: list_all_iff keep_op_def set_op_def)

lemma keep_op_index:
  assumes "list_all (keep_op d key) batch" "utf8_valid key"
  shows "apply_batch batch m (ttl_index_key e d key) = m (ttl_index_key e d key)"
  using assms member_key_not_index(2) key_apart_index(2) [OF assms(2)]
  by (intro apply_batch_other) (fastforce simp: list_all_iff keep_op_def)

lemma set_commit_keep:
  assumes "committed db view batch s s'" "list_all (keep_op (db_no db) key) batch" "utf8_valid key"
    and "set_in db view n s key (e, S)" "n < max_members"
    and "set_at (apply_batch batch (view (engine s))) (db_no db) (version_counter s) n' key e S'" "n' < max_members" "versions_left db k s"
  shows "set_step db view {key} k s (s'\<lparr>changes := c\<rparr>)" "set_in db view n' s' key (e, S')"
proof -
  let ?m = "view (engine s)"
  have i: "indexed (db_no db) (apply_batch batch ?m) k" if "k \<in> {key}" "indexed (db_no db) ?m k" for k
    using that index_kept [of "apply_batch batch ?m" key ?m "db_no db"] keep_op_index [OF assms(2,3)]
      set_at_deadline [OF assms(4,5)] set_at_deadline [OF assms(6,7)] by simp
  have u: "\<forall>k \<in> {key}. utf8_valid k" using assms(3) by simp
  have "versions_left db k s'" using assms(1,8) by (simp add: versions_left_committed)
  then have "versions_left db k (s'\<lparr>changes := c\<rparr>)" using versions_left_same [of "s'\<lparr>changes := c\<rparr>" s' db k] by simp
  then show "set_step db view {key} k s (s'\<lparr>changes := c\<rparr>)"
    unfolding set_step_def using set_commit [OF assms(1) keep_op_set [OF assms(2)] u i] by blast
  show "set_in db view n' s' key (e, S')"
    using set_commit_at [OF assms(1) keep_op_set [OF assms(2)] u i _ assms(6)] by simp
qed

lemma set_commit_drop:
  assumes "committed db view batch s s'" "list_all (set_op (db_no db) {key}) batch" "utf8_valid key"
    and "set_in db view n s key (e, S)" "n < max_members" "apply_batch batch (view (engine s)) key = None"
    and "\<And>w y. apply_batch batch (view (engine s)) (set_member_key (db_no db) key w y) = None \<or>
      apply_batch batch (view (engine s)) (set_member_key (db_no db) key w y) = view (engine s) (set_member_key (db_no db) key w y)"
    and "\<And>e'. apply_batch batch (view (engine s)) (ttl_index_key e' (db_no db) key) =
      (if e' \<noteq> 0 \<and> e' = e then None else view (engine s) (ttl_index_key e' (db_no db) key))" "versions_left db k s"
  shows "set_step db view {key} k s (s'\<lparr>changes := c\<rparr>)" "set_in db view n' s' key (0, {})"
proof -
  let ?m = "view (engine s)"
  have i: "indexed (db_no db) (apply_batch batch ?m) k" if "k \<in> {key}" "indexed (db_no db) ?m k" for k
    using that index_dropped [of "apply_batch batch ?m" key "db_no db" ?m] assms(6,8) set_at_deadline [OF assms(4,5)] by simp
  have u: "\<forall>k \<in> {key}. utf8_valid k" using assms(3) by simp
  have "versions_left db k s'" using assms(1,9) by (simp add: versions_left_committed)
  then have "versions_left db k (s'\<lparr>changes := c\<rparr>)" using versions_left_same [of "s'\<lparr>changes := c\<rparr>" s' db k] by simp
  then show "set_step db view {key} k s (s'\<lparr>changes := c\<rparr>)"
    unfolding set_step_def using set_commit [OF assms(1,2) u i] by blast
  have "unused_from ?m (db_no db) (version_counter s) key" using assms(4) by (simp add: set_at_def)
  then have "set_at (apply_batch batch ?m) (db_no db) (version_counter s) n' key 0 {}" by (rule set_gone [OF _ assms(6,7)])
  then show "set_in db view n' s' key (0, {})"
    using set_commit_at [OF assms(1,2) u i, of key n' 0 "{}"] by simp
qed

lemma compare_commit:
  assumes "at_instant db view now" "cache_ok db view s" "batch \<noteq> []" "list_all plain_op batch" "view (engine s) key = observed"
  obtains s' where "compare_and_write_batch_if_not_empty db [(key, observed)] batch s = (Inr True, s')" "committed db view batch s s'"
    "\<And>x :: 'a. commit_round db [(key, observed)] batch c x s = (Inr (Some x), s'\<lparr>changes := changes s' + c\<rparr>)"
proof -
  obtain s' where s': "compare_and_write_batch_if_not_empty db [(key, observed)] batch s = (Inr True, s')" "committed db view batch s s'"
    using compare_and_write_run [of db view s batch "[(key, observed)]"] assms by (auto simp: at_instant_def serves_def)
  then show ?thesis using that by (simp add: commit_round_def and_then_def fetch_add_changes_def modify_def return_def)
qed

lemma write_commit:
  assumes "at_instant db view now" "cache_ok db view s" "batch \<noteq> []" "list_all plain_op batch"
  obtains s' where "write_batch_if_not_empty db batch s = (Inr (), s')" "committed db view batch s s'"
  using write_batch_run [of db view s batch] assms by (auto simp: at_instant_def serves_def)

lemma write_existing_commit:
  assumes "at_instant db view now" "cache_ok db view s" "batch \<noteq> []" "list_all plain_op batch"
  obtains s' where "write_existing_version_batch_if_not_empty db batch s = (Inr (), s')" "committed db view batch s s'"
proof -
  have k: "key_layout db = CURRENT" "engine_contract (kv db) view" using assms(1) by (auto simp: at_instant_def serves_def)
  obtain w' where w: "store_write_batch (kv db) batch (engine s) = (Inr (), w')" "view w' = apply_batch batch (view (engine s))"
    using k(2) assms(4) unfolding engine_contract_def by meson
  have "committed db view batch s (after_commit db (batch @ []) (s\<lparr>compaction := compaction s, engine := w'\<rparr>))"
    by (rule after_commit_committed [OF assms(2) k(1)]) (use w(2) in simp_all)
  then show ?thesis
    using that w(1) assms(3) by (simp add: write_existing_version_batch_if_not_empty_def and_then_def engine_call_def modify_apply)
qed

section \<open>Expiry and metadata\<close>

lemma expire_set_run:
  assumes "at_instant db view now" "cache_ok db view s" "valid_owner key" "set_in db view n s key x" "n < max_members" "versions_left db k s"
  obtains s' where "expire_if_needed db key s = (Inr (), s')" "set_step db view {key} k s s'" "set_in db view n s' key (set_live now x)"
proof -
  have u: "utf8_valid key" using assms(3) by (simp add: valid_owner_def)
  obtain s' where s': "expire_if_needed db key s = (Inr (), s')"
    "wrote db view s {key} (\<lambda>_. live now (view (engine s) key)) 0 s'"
    using expire_run [OF assms(1,2) u] .
  have c: "version_counter s' = version_counter s" using expire_counter [OF s'(1)] .
  have m: "view (engine s') (set_member_key (db_no db) key v y) = view (engine s) (set_member_key (db_no db) key v y)" for v y
    using s'(2) member_key_not_main(1) [OF u] member_key_not_side by (simp add: wrote_def)
  have v: "view (engine s') key = (if fst x = 0 \<or> now < fst x then view (engine s) key else None)"
    using s'(2) set_at_deadline [OF assms(4,5)] by (simp add: wrote_def live_def)
  have "set_in db view n s' key (set_live now x)"
  proof (cases "fst x = 0 \<or> now < fst x")
    case True
    then have "view (engine s') key = view (engine s) key" using v by simp
    then show ?thesis using True assms(4) c set_at_cong [of "view (engine s')" key "view (engine s)" "db_no db"] m by (simp add: set_live_def)
  next
    case False
    then show ?thesis
      using v m c assms(4) by (simp add: set_live_def) (rule set_gone [of "view (engine s)"], auto simp: set_at_def)
  qed
  moreover have "set_changed db view {key} s s'" using s'(2) c by (auto simp: set_changed_def wrote_def)
  ultimately show ?thesis using that s'(1) assms(6) versions_left_same [OF c] by (auto simp: set_step_def)
qed

text \<open>What the record of a set says.\<close>

definition describes_set :: "(bytes \<rightharpoonup> bytes) \<Rightarrow> u16 \<Rightarrow> u64 \<Rightarrow> bytes \<Rightarrow> set_entry \<Rightarrow> set_meta option \<Rightarrow> bool" where
  "describes_set m d c key x found \<longleftrightarrow>
     (case found of
        None \<Rightarrow> snd x = {} \<and> m key = None
      | Some meta \<Rightarrow> snd x \<noteq> {} \<and> stm_expire_ms meta = fst x \<and> stm_len meta = card (snd x) \<and>
          (if stm_packed meta then stm_version meta = 0 \<and> packed_set_at m key (fst x) (snd x)
           else split_set_at m d c key (fst x) (stm_version meta) (snd x)))"

lemma set_layout:
  assumes "set_at m d c n key e S" "n < max_members"
  obtains (absent) "S = {}" "e = 0" "m key = None"
  | (packed) raw where "S \<noteq> {}" "m key = Some raw" "packed_set_at m key e S" "decode_packed_set raw = Some (sorted_list_of_set S)"
      "decode_meta_header raw = Some \<lparr>mh_expire_ms = e, mh_version = 0, mh_type_tag = TYPE_SET\<rparr>"
      "decode_set_meta raw = Some \<lparr>stm_expire_ms = e, stm_version = 0, stm_len = card S, stm_packed = True\<rparr>"
  | (split) raw v where "S \<noteq> {}" "m key = Some raw" "split_set_at m d c key e v S" "decode_packed_set raw = None"
      "decode_meta_header raw = Some \<lparr>mh_expire_ms = e, mh_version = v, mh_type_tag = TYPE_SET\<rparr>"
      "decode_set_meta raw = Some \<lparr>stm_expire_ms = e, stm_version = v, stm_len = card S, stm_packed = False\<rparr>"
proof -
  have ok: "set_ok n e S" "card S < max_members" "plausible_expiry e" using assms by (auto simp: set_at_def set_ok_def)
  consider "S = {}" | "S \<noteq> {}" "packed_set_at m key e S" | v where "S \<noteq> {}" "split_set_at m d c key e v S"
    using assms(1) by (auto simp: set_at_def split: if_splits)
  then show ?thesis
  proof cases
    case 1
    then show ?thesis using absent assms(1) by (simp add: set_at_def set_ok_def)
  next
    case 2
    show ?thesis by (rule packed_set_at_read [OF 2(2) ok(1)]) (rule packed [OF 2(1) _ 2(2)])
  next
    case 3
    then have "m key = Some (encode_set_meta e v (card S))" by (simp add: split_set_at_def)
    then show ?thesis using split [OF 3(1) _ 3(2)] split_set_read [OF ok(3,2)] by blast
  qed
qed

lemma set_meta_run:
  assumes "at_instant db view now" "cache_ok db view s" "valid_owner key" "set_in db view n s key x" "n < max_members" "versions_left db k s"
  obtains s' found where "set_meta_of db key s = (Inr found, s')" "set_step db view {key} k s s'" "set_in db view n s' key (set_live now x)"
    "describes_set (view (engine s')) (db_no db) (version_counter s') key (set_live now x) found"
proof -
  obtain s' where s': "expire_if_needed db key s = (Inr (), s')" "set_step db view {key} k s s'" "set_in db view n s' key (set_live now x)"
    using expire_set_run [OF assms] .
  have r: "set_meta_of db key s = (case view (engine s') key of None \<Rightarrow> return None
      | Some raw \<Rightarrow>
          if (case decode_meta_header raw of Some header \<Rightarrow> mh_type_tag header \<noteq> TYPE_SET | None \<Rightarrow> False) then fail Wrong_type_error
          else (case decode_set_meta raw of None \<Rightarrow> fail Decode_failed | Some meta \<Rightarrow> return (Some meta))) s'"
    using s'(1) by (simp add: set_meta_of_def and_then_def db_get_run [OF at_instant_contract [OF assms(1)]] at_instant_key [OF assms(1)])
  show ?thesis
    by (rule set_layout [OF s'(3) assms(5)]) (use r s' in \<open>auto intro!: that simp: return_def describes_set_def\<close>)
qed

text \<open>A live set is read without a change.\<close>

lemma expire_live:
  assumes "at_instant db view now" "set_in db view n s key (e, S)" "n < max_members" "e = 0 \<or> now < e"
  shows "expire_if_needed db key s = (Inr (), s)"
proof -
  have "deadline_of (view (engine s) key) = e" using set_at_deadline [OF assms(2,3)] by simp
  then have "expire_round db key s = (Inr (Some ()), s)"
    using assms(4) by (auto simp: expire_round_def and_then_def db_get_run [OF at_instant_contract [OF assms(1)]] at_instant_key [OF assms(1)]
        at_instant_now [OF assms(1)] return_def deadline_of_def split: option.splits)
  then show ?thesis
    using rounds_done [of "expire_round db key" s "()" s 64] by (simp add: expire_if_needed_def and_then_def return_def)
qed

lemma set_meta_split:
  assumes "at_instant db view now" "set_in db view n s key (e, S)" "n < max_members" "e = 0 \<or> now < e"
    and "split_set_at (view (engine s)) (db_no db) (version_counter s) key e v S"
  shows "set_meta_of db key s = (Inr (Some \<lparr>stm_expire_ms = e, stm_version = v, stm_len = card S, stm_packed = False\<rparr>), s)"
proof -
  have ok: "plausible_expiry e" "card S < max_members" using assms(2,3) by (auto simp: set_at_def set_ok_def)
  show ?thesis
    using expire_live [OF assms(1-4)] split_set_read [OF ok] assms(5)
    by (simp add: set_meta_of_def and_then_def db_get_run [OF at_instant_contract [OF assms(1)]] at_instant_key [OF assms(1)] split_set_at_def
        return_def)
qed

end
