(* ===== verification/Set_Add.thy ===== *)
theory Set_Add
  imports Set_Run
begin

text \<open>SADD: the packed form, the split form, and the way from one to the other.\<close>

section \<open>Packed sets\<close>

lemma sorted_list_of_members: "sorted_wrt (<) xs \<Longrightarrow> sorted_list_of_set (set xs) = (xs :: bytes list)"
  by (rule sorted_list_of_set.idem_if_sorted_distinct) (simp_all add: strict_sorted_iff)

lemma insort_members: "sorted_wrt (<) xs \<Longrightarrow> x \<notin> set xs \<Longrightarrow> sorted_wrt (<) (insort x (xs :: bytes list))"
  by (simp add: strict_sorted_iff sorted_insort distinct_insort)

lemma insert_members_run:
  "sorted_wrt (<) xs \<Longrightarrow>
     insert_members ms a xs = (a + card (set ms - set xs), sorted_list_of_set (set xs \<union> set ms))"
proof (induction ms arbitrary: a xs)
  case (Cons y ms)
  show ?case
  proof (cases "y \<in> set xs")
    case True
    then have "insert y (set ms) - set xs = set ms - set xs" "set xs \<union> insert y (set ms) = set xs \<union> set ms" by auto
    then show ?thesis using Cons True by (simp add: set_insert_def)
  next
    case False
    have "insert y (set ms) - set xs = insert y (set ms - insert y (set xs))" using False by auto
    then have "card (insert y (set ms) - set xs) = Suc (card (set ms - insert y (set xs)))" by simp
    then show ?thesis
      using Cons.IH [OF insort_members [OF Cons.prems False]] False by (simp add: set_insert_def set_insort_key)
  qed
qed (simp add: sorted_list_of_members)

lemma set_ok_union:
  assumes "set_ok n e S" "\<forall>x \<in> set ms. utf8_valid x" "S \<union> set ms = {} \<longrightarrow> e = 0"
  shows "set_ok (n + length ms) e (S \<union> set ms)"
proof -
  have "card (S \<union> set ms) \<le> card S + card (set ms)" by (rule card_Un_le)
  then have "card (S \<union> set ms) \<le> n + length ms" using assms(1) card_length [of ms] by (simp add: set_ok_def)
  then show ?thesis using assms by (auto simp: set_ok_def)
qed

lemma split_set_writes_ops: "list_all (keep_op d key) ((Put, key, raw) # member_puts d key v xs)"
  by (auto simp: list_all_iff member_puts_def)

lemma keep_plain: "list_all (keep_op d key) batch \<Longrightarrow> list_all plain_op batch"
  by (auto simp: list_all_iff keep_op_def)

text \<open>The writes of a set in the layout that fits its size.\<close>

lemma packed_or_split_set_run:
  assumes "at_instant db view now" "cache_ok db view s" "valid_owner key" "unused_from (view (engine s)) (db_no db) (version_counter s) key"
    and "set_ok n e T" "T \<noteq> {}" "versions_left db (Suc k) s"
  obtains s' batch where "packed_or_split_set_writes db key e (sorted_list_of_set T) s = (Inr batch, s')" "set_step db view {key} k s s'"
    "engine s' = engine s" "version_counter s \<le> version_counter s'" "batch \<noteq> []" "list_all (keep_op (db_no db) key) batch"
    "set_at (apply_batch batch (view (engine s'))) (db_no db) (version_counter s') n key e T"
proof (cases "encode_packed_set e (sorted_list_of_set T)")
  case (Some raw)
  have "utf8_valid key" using assms(3) by (simp add: valid_owner_def)
  then have "set_at (apply_batch [(Put, key, raw)] (view (engine s))) (db_no db) (version_counter s) n key e T"
    using put_packed_at [OF _ assms(4-6) Some] by (simp add: apply_batch_single)
  moreover have "packed_or_split_set_writes db key e (sorted_list_of_set T) s = (Inr [(Put, key, raw)], s)"
    using Some by (simp add: packed_or_split_set_writes_def return_def at_instant_key [OF assms(1)])
  ultimately show ?thesis
    using that [of "[(Put, key, raw)]" s] set_step_refl [OF assms(2) versions_left_mono [OF assms(7)]] by simp
next
  case None
  obtain v where v: "next_version db s = (Inr v, s\<lparr>version_counter := v\<rparr>)" "version_counter s < v"
    "versions_left db k (s\<lparr>version_counter := v\<rparr>)"
    using next_version_above [OF assms(7)] .
  let ?s = "s\<lparr>version_counter := v\<rparr>" and ?xs = "sorted_list_of_set T"
  let ?batch = "(Put, key, encode_set_meta e v (length ?xs)) # member_puts (db_no db) key v ?xs"
  have "finite T" using assms(5) by (simp add: set_ok_def)
  then have "set_at (apply_batch ?batch (view (engine s))) (db_no db) v n key e T"
    using split_writes_at(2) [OF assms(3,4) v(2) assms(5,6), of ?xs] by simp
  moreover have "packed_or_split_set_writes db key e ?xs s = (Inr ?batch, ?s)"
    using None v(1)
    by (simp add: packed_or_split_set_writes_def split_set_writes_def and_then_def return_def at_instant_key [OF assms(1)])
  moreover have "list_all (keep_op (db_no db) key) ?batch" by (rule split_set_writes_ops)
  ultimately show ?thesis using that [of ?batch ?s] set_step_version [OF assms(2) v(2,3)] v(2) by simp
qed

lemma add_packed_write_run:
  assumes "at_instant db view now" "cache_ok db view s" "valid_owner key" "set_in db view n s key (e, S)"
    and "view (engine s) key = observed" "\<forall>x \<in> set ms. utf8_valid x" "n + length ms < max_members" "versions_left db (Suc k) s"
  obtains s' where "add_packed_write db key ms observed e (sorted_list_of_set S) s = (Inr (Some (Some (card (set ms - S)))), s')"
    "set_step db view {key} k s s'" "set_in db view (n + length ms) s' key (e, S \<union> set ms)"
proof -
  have fin: "finite S" and u: "utf8_valid key" and n: "n < max_members" and e: "S = {} \<longrightarrow> e = 0"
    and un: "unused_from (view (engine s)) (db_no db) (version_counter s) key"
    using assms(3,4,7) by (auto simp: set_at_def set_ok_def valid_owner_def)
  let ?T = "S \<union> set ms" and ?n = "n + length ms"
  have i: "insert_members ms 0 (sorted_list_of_set S) = (card (set ms - S), sorted_list_of_set ?T)"
    using insert_members_run [of "sorted_list_of_set S" ms 0] fin by simp
  show ?thesis
  proof (cases "set ms \<subseteq> S")
    case True
    then have c: "set ms - S = {}" "?T = S" by auto
    then have "card (set ms - S) = 0" by (simp only: card.empty)
    then have "add_packed_write db key ms observed e (sorted_list_of_set S) s = (Inr (Some (Some (card (set ms - S)))), s)"
      using i by (simp add: add_packed_write_def return_def)
    moreover have "set_in db view ?n s key (e, ?T)" using set_at_bound [OF assms(4), of ?n] c(2) by simp
    ultimately show ?thesis using that set_step_refl [OF assms(2) versions_left_mono [OF assms(8)]] by simp
  next
    case False
    then have c: "card (set ms - S) \<noteq> 0" "?T \<noteq> {}" by (auto simp: card_eq_0_iff)
    have ok: "set_ok ?n e ?T" using set_ok_union [OF _ assms(6)] assms(4) e c(2) by (auto simp: set_at_def)
    obtain s1 batch where s1: "packed_or_split_set_writes db key e (sorted_list_of_set ?T) s = (Inr batch, s1)" "set_step db view {key} k s s1"
      "engine s1 = engine s" "version_counter s \<le> version_counter s1" "batch \<noteq> []" "list_all (keep_op (db_no db) key) batch"
      "set_at (apply_batch batch (view (engine s1))) (db_no db) (version_counter s1) ?n key e ?T"
      using packed_or_split_set_run [OF assms(1-3) un ok c(2) assms(8)] .
    have obs: "view (engine s1) key = observed" using assms(5) s1(3) by simp
    obtain s' where s': "committed db view batch s1 s'"
      "\<And>x :: nat option. commit_round db [(key, observed)] batch 1 x s1 = (Inr (Some x), s'\<lparr>changes := changes s' + 1\<rparr>)"
      using compare_commit [where batch = batch and s = s1, OF assms(1) set_step_cache [OF s1(2)] s1(5) keep_plain [OF s1(6)] obs] by blast
    have old: "set_in db view n s1 key (e, S)" using set_at_mono [OF assms(4) s1(4)] s1(3) by simp
    note k = set_commit_keep [OF s'(1) s1(6) u old n s1(7) assms(7) set_step_left [OF s1(2)]]
    show ?thesis
      using that [of "s'\<lparr>changes := changes s' + 1\<rparr>"] k(2) set_step_trans [OF s1(2) k(1)] i c(1) s1(1) s'(2)
      by (simp add: add_packed_write_def and_then_def at_instant_key [OF assms(1)])
  qed
qed

text \<open>The round on the packed form: done, or handed over to the split form.\<close>

lemma add_packed_round_run:
  assumes "at_instant db view now" "cache_ok db view s" "valid_owner key" "set_in db view n s key x" "set_live now x = (e, S)"
    and "\<forall>x \<in> set ms. utf8_valid x" "n + length ms < max_members" "versions_left db (Suc k) s"
  obtains (finished) s' where "add_packed_round db key ms s = (Inr (Some (Some (card (set ms - S)))), s')"
      "set_step db view {key} k s s'" "set_in db view (n + length ms) s' key (e, S \<union> set ms)"
  | (split) s' v where "add_packed_round db key ms s = (Inr (Some None), s')" "set_step db view {key} (Suc k) s s'"
      "set_in db view n s' key (e, S)" "split_set_at (view (engine s')) (db_no db) (version_counter s') key e v S" "S \<noteq> {}"
proof -
  have n: "n < max_members" using assms(7) by simp
  obtain s1 where s1: "expire_if_needed db key s = (Inr (), s1)" "set_step db view {key} (Suc k) s s1" "set_in db view n s1 key (set_live now x)"
    using expire_set_run [OF assms(1-4) n assms(8)] .
  have at: "set_in db view n s1 key (e, S)" using s1(3) assms(5) by simp
  note c = at_instant_contract [OF assms(1)] and mk = at_instant_key [OF assms(1)] and c1 = set_step_cache [OF s1(2)]
  have r: "add_packed_round db key ms s = (case view (engine s1) key of
      None \<Rightarrow> add_packed_write db key ms None 0 []
    | Some raw \<Rightarrow>
        (case decode_meta_header raw of
           None \<Rightarrow> fail Decode_failed
         | Some header \<Rightarrow>
             if mh_type_tag header \<noteq> TYPE_SET then fail Wrong_type_error
             else (case decode_packed_set raw of
                 None \<Rightarrow> return (Some None)
               | Some packed \<Rightarrow> add_packed_write db key ms (Some raw) (mh_expire_ms header) packed))) s1"
    using s1(1) by (auto simp: add_packed_round_def and_then_def db_get_run [OF c] mk split: option.splits)
  have w: thesis if "add_packed_round db key ms s = add_packed_write db key ms (view (engine s1) key) e (sorted_list_of_set S) s1"
  proof -
    obtain s' where s': "add_packed_write db key ms (view (engine s1) key) e (sorted_list_of_set S) s1 = (Inr (Some (Some (card (set ms - S)))), s')"
      "set_step db view {key} k s1 s'" "set_in db view (n + length ms) s' key (e, S \<union> set ms)"
      using add_packed_write_run [OF assms(1) c1 assms(3) at refl assms(6,7) set_step_left [OF s1(2)]] .
    show thesis using finished [of s'] that s' set_step_trans [OF s1(2) s'(2)] by simp
  qed
  show thesis
    by (rule set_layout [OF at n]) (use r w split [of s1] s1(2) at in \<open>auto simp: return_def\<close>)
qed

section \<open>Split sets\<close>

lemma members_filter:
  assumes "members_at m d key v S"
  shows "map fst (filter (\<lambda>(_, old). old = None) (zip ms (map m (map (set_member_key d key v) ms)))) = filter (\<lambda>y. y \<notin> S) ms"
proof -
  have "m (set_member_key d key v y) = None \<longleftrightarrow> y \<notin> S" for y using assms unfolding members_at_def by blast
  then show ?thesis by (induction ms) simp_all
qed

lemma card_new: "length (filter (\<lambda>y. y \<notin> S) (distinct_keys ms)) = card (set ms - S)"
proof -
  have "set (filter (\<lambda>y. y \<notin> S) (distinct_keys ms)) = set ms - S" using distinct_keys_spec(2) [of ms] by auto
  then show ?thesis using distinct_card [of "filter (\<lambda>y. y \<notin> S) (distinct_keys ms)"] distinct_keys_spec(1) by simp
qed

lemma grow_at:
  assumes "valid_owner key" "split_set_at m d c key e v S" "unused_from m d c key" "set_ok n e (S \<union> set xs)" "finite S"
    and "distinct xs" "set xs \<inter> S = {}" "xs \<noteq> []"
  shows "set_at (apply_batch (member_puts d key v xs @ [(Put, key, encode_set_meta e v (card S + length xs))]) m) d c n key e (S \<union> set xs)"
proof (rule split_set_update [OF assms(1-4)])
  let ?m = "apply_batch (member_puts d key v xs @ [(Put, key, encode_set_meta e v (card S + length xs))]) m"
  have u: "utf8_valid key" using assms(1) by (simp add: valid_owner_def)
  have n: "card (S \<union> set xs) = card S + length xs"
    using card_Un_disjoint [of S "set xs"] assms(5,7) distinct_card [OF assms(6)] by (simp add: Int_commute)
  have k: "?m (set_member_key d key w y) = (if w = v \<and> y \<in> set xs then Some INDEX_MARKER_VALUE else m (set_member_key d key w y))" for w y
    using member_key_inject [OF assms(1,1)] member_key_not_main [OF u] by (auto simp: member_puts_apply)
  show "?m key = Some (encode_set_meta e v (card (S \<union> set xs)))" using n by simp
  show "S \<union> set xs \<noteq> {}" using assms(8) by simp
  show "?m (set_member_key d key v y) \<noteq> None \<longleftrightarrow> y \<in> S \<union> set xs" for y
    using k assms(2) by (auto simp: split_set_at_def members_at_def)
  show "?m (set_member_key d key w y) = m (set_member_key d key w y)" if "w \<noteq> v" for w y using k that by simp
qed

lemma set_add_split_run:
  assumes "at_instant db view now" "cache_ok db view s" "valid_owner key" "set_in db view n s key (e, S)" "e = 0 \<or> now < e"
    and "split_set_at (view (engine s)) (db_no db) (version_counter s) key e v S" "S \<noteq> {}"
    and "\<forall>x \<in> set ms. utf8_valid x" "n + length ms < max_members" "versions_left db k s"
  obtains s' where "set_add_split db key ms s = (Inr (card (set ms - S)), s')" "set_step db view {key} k s s'"
    "set_in db view (n + length ms) s' key (e, S \<union> set ms)"
proof -
  have ok: "set_ok n e S" "finite S" "plausible_expiry e" "card S < max_members" "utf8_valid key" "n < max_members"
    using assms(3,4,9) by (auto simp: set_at_def set_ok_def valid_owner_def)
  note c = at_instant_contract [OF assms(1)] and mk = at_instant_key [OF assms(1)] and now = at_instant_now [OF assms(1)]
  let ?d = "db_no db" and ?m = "view (engine s)" and ?n = "n + length ms"
  define new where "new = filter (\<lambda>y. y \<notin> S) (distinct_keys ms)"
  have new: "distinct new" "set new = set ms - S" "length new = card (set ms - S)"
    using distinct_keys_spec [of ms] card_new [of S ms] by (auto simp: new_def)
  let ?meta = "\<lparr>stm_expire_ms = e, stm_version = v, stm_len = card S, stm_packed = False\<rparr>"
  have key: "?m key = Some (encode_set_meta e v (card S))" and mem: "members_at ?m ?d key v S" using assms(6) by (simp_all add: split_set_at_def)
  have meta: "set_meta_to_extend db key s = (Inr (Some ?meta, None), s)"
    using key split_set_read [OF ok(3,4), of v] assms(5)
    by (auto simp: set_meta_to_extend_def and_then_def db_get_run [OF c] mk now return_def)
  have nm: "new_members db key (Some ?meta) v (distinct_keys ms) s = (Inr new, s)"
    using members_filter [OF mem, of "distinct_keys ms"] by (simp add: new_members_def and_then_def multi_get_run [OF assms(1)] return_def new_def)
  have len: "card S + length new \<le> usize_max"
  proof -
    have "card S \<le> n" using ok(1) by (simp add: set_ok_def)
    moreover have "length new \<le> length ms" using new(3) card_mono [of "set ms" "set ms - S"] card_length [of ms] by simp
    ultimately show ?thesis using assms(9) by (simp add: max_members_def)
  qed
  let ?batch = "member_puts ?d key v new @ [(Put, key, encode_set_meta e v (card S + length new))]"
  have run: "set_add_split db key ms s = (if new = [] then return (length new)
      else and_then (write_existing_version_batch_if_not_empty db ?batch) (\<lambda>_. and_then (fetch_add_changes 1) (\<lambda>_. return (length new)))) s"
    using meta nm len by (simp add: set_add_split_def and_then_def return_def Let_def mk member_puts_def)
  show ?thesis
  proof (cases "new = []")
    case True
    then have "S \<union> set ms = S" using new(2) by auto
    then have "set_in db view ?n s key (e, S \<union> set ms)" using set_at_bound [OF assms(4), of ?n] by simp
    moreover have "set_add_split db key ms s = (Inr (card (set ms - S)), s)"
      unfolding new(3) [symmetric] using run True by (simp add: return_def)
    ultimately show ?thesis using that set_step_refl [OF assms(2,10)] by blast
  next
    case False
    have ops: "list_all (keep_op ?d key) ?batch" by (auto simp: list_all_iff member_puts_def)
    obtain s' where s': "write_existing_version_batch_if_not_empty db ?batch s = (Inr (), s')" "committed db view ?batch s s'"
      using write_existing_commit [OF assms(1,2) _ keep_plain [OF ops]] by blast
    have un: "S \<union> set new = S \<union> set ms" using new(2) by auto
    have ok': "set_ok ?n e (S \<union> set new)" using set_ok_union [OF ok(1) assms(8)] assms(7) un by simp
    have "unused_from ?m ?d (version_counter s) key" using assms(4) by (simp add: set_at_def)
    then have at: "set_at (apply_batch ?batch ?m) ?d (version_counter s) ?n key e (S \<union> set new)"
      using grow_at [OF assms(3,6) _ ok' ok(2) new(1) _ False] new(2) by auto
    note k = set_commit_keep [OF s'(2) ops ok(5) assms(4) ok(6) at assms(9,10)]
    show ?thesis
      using that [of "s'\<lparr>changes := changes s' + 1\<rparr>"] k un run False s'(1) new(3)
      by (simp add: and_then_def fetch_add_changes_def modify_def return_def)
  qed
qed

lemma after_packed_run: "body s = (Inr (Some x), s') \<Longrightarrow> after_packed db key body s = (Inr x, s')"
  using rounds_done [of body s x s' SMALL_INLINE_CAS_ATTEMPTS]
  by (simp add: after_packed_def and_then_def return_def SMALL_INLINE_CAS_ATTEMPTS_def)

lemma set_live_fst: "set_live now x = (e, S) \<Longrightarrow> e = 0 \<or> now < e"
  by (auto simp: set_live_def split: if_splits)

lemma set_add_run:
  assumes "at_instant db view now" "cache_ok db view s" "valid_owner key" "set_in db view n s key x" "set_live now x = (e, S)"
    and "\<forall>x \<in> set ms. utf8_valid x" "n + length ms < max_members" "versions_left db (Suc k) s"
  obtains s' where "set_add_async db key ms s = (Inr (card (set ms - S)), s')" "set_step db view {key} k s s'"
    "set_in db view (n + length ms) s' key (e, S \<union> set ms)"
proof (rule add_packed_round_run [OF assms])
  fix s' assume s': "add_packed_round db key ms s = (Inr (Some (Some (card (set ms - S)))), s')"
    "set_step db view {key} k s s'" "set_in db view (n + length ms) s' key (e, S \<union> set ms)"
  show thesis
    using that [OF _ s'(2,3)] after_packed_run [where body = "add_packed_round db key ms", OF s'(1)]
    by (simp add: set_add_async_def try_set_add_packed_def and_then_def return_def)
next
  fix s1 v assume s1: "add_packed_round db key ms s = (Inr (Some None), s1)" "set_step db view {key} (Suc k) s s1"
    "set_in db view n s1 key (e, S)" "split_set_at (view (engine s1)) (db_no db) (version_counter s1) key e v S" "S \<noteq> {}"
  obtain s' where s': "set_add_split db key ms s1 = (Inr (card (set ms - S)), s')" "set_step db view {key} k s1 s'"
    "set_in db view (n + length ms) s' key (e, S \<union> set ms)"
    using set_add_split_run [OF assms(1) set_step_cache [OF s1(2)] assms(3) s1(3) set_live_fst [OF assms(5)] s1(4,5) assms(6,7)
        versions_left_mono [OF set_step_left [OF s1(2)], of k]] by auto
  show thesis
    using that [of s'] s'(1,3) set_step_trans [OF s1(2) s'(2)] after_packed_run [where body = "add_packed_round db key ms", OF s1(1)]
    by (simp add: set_add_async_def try_set_add_packed_def and_then_def)
qed

end
