(* ===== verification/Set_Remove.thy ===== *)
theory Set_Remove
  imports Set_Add
begin

text \<open>SREM, and the end of a set that has lost its last member.\<close>

section \<open>Packed sets\<close>

lemma remove_members_run:
  "distinct xs \<Longrightarrow> remove_members ms a xs = (a + card (set xs \<inter> set ms), filter (\<lambda>y. y \<notin> set ms) xs)"
proof (induction ms arbitrary: a xs)
  case (Cons y ms)
  show ?case
  proof (cases "y \<in> set xs")
    case True
    have "set xs \<inter> insert y (set ms) = insert y (set (remove1 y xs) \<inter> set ms)" "y \<notin> set (remove1 y xs)"
      using True Cons.prems by auto
    then have "card (set xs \<inter> insert y (set ms)) = Suc (card (set (remove1 y xs) \<inter> set ms))" by simp
    moreover have "filter (\<lambda>z. z \<notin> set ms) (remove1 y xs) = filter (\<lambda>z. z \<notin> insert y (set ms)) xs"
      using Cons.prems by (simp add: distinct_remove1_removeAll removeAll_filter_not_eq) (rule filter_cong, auto)
    ultimately show ?thesis using Cons.IH [of "remove1 y xs"] Cons.prems True by simp
  next
    case False
    then have "set xs \<inter> insert y (set ms) = set xs \<inter> set ms" "filter (\<lambda>z. z \<notin> insert y (set ms)) xs = filter (\<lambda>z. z \<notin> set ms) xs"
      by (auto intro: filter_cong)
    then show ?thesis using Cons False by simp
  qed
qed simp

lemma try_len_filter:
  "try_len f xs a = Some n \<Longrightarrow> b \<le> a \<Longrightarrow> \<exists>k \<le> n. try_len f (filter P xs) b = Some k"
proof (induction xs arbitrary: a b)
  case (Cons x xs)
  obtain m where m: "f x = Some m" "a + m \<le> usize_max" "try_len f xs (a + m) = Some n"
    using Cons.prems(1) by (auto simp: checked_add_def split: option.splits if_splits)
  show ?case using Cons.IH [OF m(3), of "b + m"] Cons.IH [OF m(3), of b] Cons.prems(2) m(1,2) by (auto simp: checked_add_def)
qed auto

text \<open>What is left of a packed set is a packed set again.\<close>

lemma packed_subset:
  assumes "encode_packed_set e xs = Some raw"
  obtains raw' where "encode_packed_set e (filter P xs) = Some raw'"
proof -
  obtain n where n: "length xs \<le> SMALL_SET_MAX_MEMBERS" "try_len item_size xs PACKED_SET_HEADER_LEN = Some n" "n \<le> SMALL_SET_MAX_ENCODED_BYTES"
    using assms by (auto simp: encode_packed_set_def split: if_splits option.splits)
  obtain k where "k \<le> n" "try_len item_size (filter P xs) PACKED_SET_HEADER_LEN = Some k" using try_len_filter [OF n(2)] by blast
  moreover have "length (filter P xs) \<le> SMALL_SET_MAX_MEMBERS" by (rule order_trans [OF length_filter_le n(1)])
  ultimately show ?thesis using that n(3) by (simp add: encode_packed_set_def)
qed

definition set_norm :: "u64 \<Rightarrow> bytes set \<Rightarrow> set_entry" where
  "set_norm e S = (if S = {} then 0 else e, S)"

lemma set_norm_simps [simp]: "set_norm e {} = (0, {})" "S \<noteq> {} \<Longrightarrow> set_norm e S = (e, S)" "snd (set_norm e S) = S"
  by (simp_all add: set_norm_def)

lemma drop_record_ops:
  "list_all (set_op d {key}) (remove_known_to_batch [(Delete, key, [])] e d key)"
  by (auto simp: remove_known_to_batch_def intro!: set_op_intros)

lemma drop_record_apply:
  assumes "utf8_valid key"
  shows "apply_batch (remove_known_to_batch [(Delete, key, [])] e d key) m x =
    (if x = key \<or> e \<noteq> 0 \<and> x = ttl_index_key e d key then None else m x)"
  using key_apart_index [OF assms] by (auto simp: remove_known_to_batch_def apply_batch_def)

lemma set_ok_diff: "set_ok n e S \<Longrightarrow> S - D \<noteq> {} \<Longrightarrow> set_ok n e (S - D)"
  using card_mono [of S "S - D"] by (auto simp: set_ok_def)

lemma remove_packed_write_run:
  assumes "at_instant db view now" "cache_ok db view s" "valid_owner key" "set_in db view n s key (e, S)" "n < max_members"
    and "view (engine s) key = observed" "packed_set_at (view (engine s)) key e S" "versions_left db k s"
  obtains s' where "\<And>r :: 'a. remove_packed_write db key observed e (sorted_list_of_set (S - D)) r s = (Inr (Some r), s')"
    "set_step db view {key} k s s'" "set_in db view n s' key (set_norm e (S - D))"
proof -
  have ok: "set_ok n e S" "finite S" "utf8_valid key" "unused_from (view (engine s)) (db_no db) (version_counter s) key"
    using assms(3,4) by (auto simp: set_at_def set_ok_def valid_owner_def)
  note mk = at_instant_key [OF assms(1)]
  let ?d = "db_no db"
  show ?thesis
  proof (cases "S - D = {}")
    case True
    let ?batch = "remove_known_to_batch [(Delete, key, [])] e ?d key"
    have b: "?batch \<noteq> []" "list_all plain_op ?batch" by (auto simp: remove_known_to_batch_def)
    obtain s' where s': "committed db view ?batch s s'"
      "\<And>x :: 'a. commit_round db [(key, observed)] ?batch 1 x s = (Inr (Some x), s'\<lparr>changes := changes s' + 1\<rparr>)"
      using compare_commit [where batch = ?batch, OF assms(1,2) b assms(6)] by blast
    have a: "apply_batch ?batch (view (engine s)) x = (if x = key \<or> e \<noteq> 0 \<and> x = ttl_index_key e ?d key then None else view (engine s) x)" for x
      using drop_record_apply [OF ok(3)] .
    have p: "apply_batch ?batch (view (engine s)) key = None"
      "\<And>w y. apply_batch ?batch (view (engine s)) (set_member_key ?d key w y) = None \<or>
        apply_batch ?batch (view (engine s)) (set_member_key ?d key w y) = view (engine s) (set_member_key ?d key w y)"
      "\<And>e'. apply_batch ?batch (view (engine s)) (ttl_index_key e' ?d key) = (if e' \<noteq> 0 \<and> e' = e then None else view (engine s) (ttl_index_key e' ?d key))"
      using a key_apart_index [OF ok(3)] ttl_index_key_inject [OF ok(3,3)] by auto
    note k = set_commit_drop [OF s'(1) drop_record_ops ok(3) assms(4,5) p assms(8)]
    show ?thesis
      using that [of "s'\<lparr>changes := changes s' + 1\<rparr>"] k s'(2) True
      by (simp add: remove_packed_write_def delete_main_key_with_ttl_to_batch_def mk del: Diff_eq_empty_iff)
  next
    case False
    obtain raw0 where "encode_packed_set e (sorted_list_of_set S) = Some raw0" using assms(7) by (auto simp: packed_set_at_def)
    then obtain raw where raw: "encode_packed_set e (filter (\<lambda>y. y \<notin> D) (sorted_list_of_set S)) = Some raw"
      by (rule packed_subset)
    have l: "filter (\<lambda>y. y \<notin> D) (sorted_list_of_set S) = sorted_list_of_set (S - D)"
      using sorted_list_of_members [of "filter (\<lambda>y. y \<notin> D) (sorted_list_of_set S)"] ok(2)
      by (simp add: sorted_wrt_filter set_diff_eq)
    have ops: "list_all (keep_op ?d key) [(Put, key, raw)]" by simp
    obtain s' where s': "committed db view [(Put, key, raw)] s s'"
      "\<And>x :: 'a. commit_round db [(key, observed)] [(Put, key, raw)] 1 x s = (Inr (Some x), s'\<lparr>changes := changes s' + 1\<rparr>)"
      using compare_commit [where batch = "[(Put, key, raw)]", OF assms(1,2) _ keep_plain [OF ops] assms(6)] by blast
    have at: "set_at (apply_batch [(Put, key, raw)] (view (engine s))) ?d (version_counter s) n key e (S - D)"
      using put_packed_at [OF ok(3,4) set_ok_diff [OF ok(1) False] False] raw l by (simp add: apply_batch_single)
    note k = set_commit_keep [OF s'(1) ops ok(3) assms(4,5) at assms(5,8)]
    have "sorted_list_of_set (S - D) \<noteq> []" using False ok(2) by (simp add: sorted_list_of_set_eq_Nil_iff)
    then show ?thesis
      using that [of "s'\<lparr>changes := changes s' + 1\<rparr>"] k s'(2) False raw l
      by (simp add: remove_packed_write_def mk del: Diff_eq_empty_iff)
  qed
qed

lemma remove_packed_round_run:
  assumes "at_instant db view now" "cache_ok db view s" "valid_owner key" "set_in db view n s key x" "set_live now x = (e, S)"
    and "n < max_members" "versions_left db k s"
  obtains (finished) s' where "remove_packed_round db key ms s = (Inr (Some (Some (card (S \<inter> set ms)))), s')"
      "set_step db view {key} k s s'" "set_in db view n s' key (set_norm e (S - set ms))"
  | (split) s' v where "remove_packed_round db key ms s = (Inr (Some None), s')" "set_step db view {key} k s s'"
      "set_in db view n s' key (e, S)" "split_set_at (view (engine s')) (db_no db) (version_counter s') key e v S" "S \<noteq> {}"
proof -
  obtain s1 where s1: "expire_if_needed db key s = (Inr (), s1)" "set_step db view {key} k s s1" "set_in db view n s1 key (set_live now x)"
    using expire_set_run [OF assms(1-4,6,7)] .
  have at: "set_in db view n s1 key (e, S)" and fin: "finite S" using s1(3) assms(5) by (auto simp: set_at_def set_ok_def)
  note c = at_instant_contract [OF assms(1)] and mk = at_instant_key [OF assms(1)] and c1 = set_step_cache [OF s1(2)]
  have rm: "remove_members ms 0 (sorted_list_of_set S) = (card (S \<inter> set ms), sorted_list_of_set (S - set ms))"
    using remove_members_run [of "sorted_list_of_set S" ms 0] fin
      sorted_list_of_members [of "filter (\<lambda>y. y \<notin> set ms) (sorted_list_of_set S)"]
    by (simp add: sorted_wrt_filter set_diff_eq)
  have r: "remove_packed_round db key ms s = (case view (engine s1) key of
      None \<Rightarrow> return (Some (Some 0))
    | Some raw \<Rightarrow>
        (case decode_meta_header raw of
           None \<Rightarrow> fail Decode_failed
         | Some header \<Rightarrow>
             if mh_type_tag header \<noteq> TYPE_SET then fail Wrong_type_error
             else (case decode_packed_set raw of
                 None \<Rightarrow> return (Some None)
               | Some packed0 \<Rightarrow>
                   (case remove_members ms 0 packed0 of (removed, packed) \<Rightarrow>
                      if removed = 0 then return (Some (Some 0))
                      else remove_packed_write db key (Some raw) (mh_expire_ms header) packed (Some removed))))) s1"
    using s1(1) by (auto simp: remove_packed_round_def and_then_def db_get_run [OF c] mk split: option.splits prod.splits)
  have "set_at (view (engine s1)) (db_no db) (version_counter s1) n key e S" using at by simp
  then show thesis
  proof (rule set_layout [OF _ assms(6)])
    assume a: "S = {}" "e = 0" "view (engine s1) key = None"
    then show thesis using finished [of s1] r s1(2) at by (simp add: return_def)
  next
    fix raw v assume a: "S \<noteq> {}" "view (engine s1) key = Some raw" "split_set_at (view (engine s1)) (db_no db) (version_counter s1) key e v S"
      "decode_packed_set raw = None" "decode_meta_header raw = Some \<lparr>mh_expire_ms = e, mh_version = v, mh_type_tag = TYPE_SET\<rparr>"
    then show thesis using split [of s1 v] r s1(2) at by (simp add: return_def)
  next
    fix raw assume a: "S \<noteq> {}" "view (engine s1) key = Some raw" "packed_set_at (view (engine s1)) key e S"
      "decode_packed_set raw = Some (sorted_list_of_set S)"
      "decode_meta_header raw = Some \<lparr>mh_expire_ms = e, mh_version = 0, mh_type_tag = TYPE_SET\<rparr>"
    show thesis
    proof (cases "S \<inter> set ms = {}")
      case True
      then have "S - set ms = S" by auto
      then show thesis using finished [of s1] r a rm True s1(2) at by (simp add: return_def)
    next
      case False
      then have nz: "card (S \<inter> set ms) \<noteq> 0" using fin by (simp add: card_eq_0_iff)
      obtain s' where s': "\<And>r :: nat option. remove_packed_write db key (Some raw) e (sorted_list_of_set (S - set ms)) r s1 = (Inr (Some r), s')"
        "set_step db view {key} k s1 s'" "set_in db view n s' key (set_norm e (S - set ms))"
        using remove_packed_write_run [where D = "set ms", OF assms(1) c1 assms(3) at assms(6) a(2,3) set_step_left [OF s1(2)]] by metis
      show thesis using finished [of s'] r a rm nz s' set_step_trans [OF s1(2) s'(2)] by simp
    qed
  qed
qed

section \<open>Split sets\<close>

text \<open>The records after the members \<open>D\<close> went.\<close>

definition shrunk :: "u16 \<Rightarrow> bytes \<Rightarrow> u64 \<Rightarrow> u64 \<Rightarrow> bytes set \<Rightarrow> bytes set \<Rightarrow> (bytes \<rightharpoonup> bytes) \<Rightarrow> (bytes \<rightharpoonup> bytes) \<Rightarrow> bool" where
  "shrunk d key e v S D m m' \<longleftrightarrow>
     (if S - D = {}
      then \<forall>x. m' x = (if x = key \<or> e \<noteq> 0 \<and> x = ttl_index_key e d key \<or> (\<exists>y. x = set_member_key d key v y) then None else m x)
      else \<forall>x. m' x = (if x = key then Some (encode_set_meta e v (card (S - D)))
                      else if \<exists>y \<in> D. x = set_member_key d key v y then None else m x))"

lemma shrunk_at:
  assumes "shrunk d key e v S D m m'" "valid_owner key" "set_at m d c n key e S" "n < max_members" "split_set_at m d c key e v S" "D \<subseteq> S"
  shows "set_at m' d c n key (fst (set_norm e (S - D))) (S - D)" "indexed d m key \<Longrightarrow> indexed d m' key"
proof -
  have ok: "set_ok n e S" "utf8_valid key" "unused_from m d c key"
    using assms(2,3) by (auto simp: set_at_def valid_owner_def)
  have dl: "deadline_of (m key) = e" using set_at_deadline [OF assms(3,4)] .
  have "set_at m' d c n key (fst (set_norm e (S - D))) (S - D) \<and> (indexed d m key \<longrightarrow> indexed d m' key)"
  proof (cases "S - D = {}")
    case True
    then have r: "m' x = (if x = key \<or> e \<noteq> 0 \<and> x = ttl_index_key e d key \<or> (\<exists>y. x = set_member_key d key v y) then None else m x)" for x
      using assms(1) by (simp add: shrunk_def)
    have "m' (set_member_key d key w y) = None \<or> m' (set_member_key d key w y) = m (set_member_key d key w y)" for w y
      using r [of "set_member_key d key w y"] by (auto split: if_splits)
    moreover have k: "m' key = None" using r by simp
    ultimately have "set_at m' d c n key 0 {}" using set_gone [OF ok(3)] by blast
    moreover have "m' (ttl_index_key e' d key) = (if e' \<noteq> 0 \<and> e' = deadline_of (m key) then None else m (ttl_index_key e' d key))" for e'
      using r [of "ttl_index_key e' d key"] dl member_key_not_index(2) key_apart_index(2) [OF ok(2)] ttl_index_key_inject [OF ok(2,2)] by auto
    ultimately show ?thesis unfolding True using index_dropped [of m' key d m] k by simp
  next
    case False
    then have r: "m' x = (if x = key then Some (encode_set_meta e v (card (S - D)))
        else if \<exists>y \<in> D. x = set_member_key d key v y then None else m x)" for x
      using assms(1) by (simp add: shrunk_def del: Diff_eq_empty_iff)
    have mem: "m (set_member_key d key v y) \<noteq> None \<longleftrightarrow> y \<in> S" for y using assms(5) by (simp only: split_set_at_def members_at_def)
    have at: "set_at m' d c n key e (S - D)"
    proof (rule split_set_update [OF assms(2,5) ok(3) set_ok_diff [OF ok(1) False] False])
      show "m' key = Some (encode_set_meta e v (card (S - D)))" using r by simp
      show "m' (set_member_key d key v y) \<noteq> None \<longleftrightarrow> y \<in> S - D" for y
        using r [of "set_member_key d key v y"] mem [of y] member_key_not_main(1) [OF ok(2)] member_key_inject [OF assms(2,2)] by auto
      show "m' (set_member_key d key w y) = m (set_member_key d key w y)" if "w \<noteq> v" for w y
        using r [of "set_member_key d key w y"] that member_key_not_main(1) [OF ok(2)] member_key_inject [OF assms(2,2)] by auto
    qed
    have "m' (ttl_index_key e' d key) = m (ttl_index_key e' d key)" for e'
      using r [of "ttl_index_key e' d key"] member_key_not_index(2) key_apart_index(2) [OF ok(2)] by auto
    then have "indexed d m key \<longrightarrow> indexed d m' key"
      using index_kept [of m' key m d] set_at_deadline [OF at assms(4)] dl by simp
    then show ?thesis using at False by (simp del: Diff_eq_empty_iff)
  qed
  then show "set_at m' d c n key (fst (set_norm e (S - D))) (S - D)" "indexed d m key \<Longrightarrow> indexed d m' key" by blast+
qed

lemma shrink_writes_run:
  assumes "at_instant db view now" "valid_owner key" "distinct ys" "set ys \<subseteq> S" "ys \<noteq> []" "finite S"
    and "meta = \<lparr>stm_expire_ms = e, stm_version = v, stm_len = card S, stm_packed = False\<rparr>"
  obtains batch where
    "shrink_writes db key meta (length ys) (map (\<lambda>k. (Delete, k, [])) (map (set_member_key (db_no db) key v) ys)) = Some batch"
    "batch \<noteq> []" "list_all (set_op (db_no db) {key}) batch" "\<And>m. shrunk (db_no db) key e v S (set ys) m (apply_batch batch m)"
proof -
  let ?d = "db_no db"
  define keys where "keys = map (set_member_key ?d key v) ys"
  define del :: "batch_op list" where "del = map (\<lambda>k. (Delete, k, [])) keys"
  have u: "utf8_valid key" using assms(2) by (simp add: valid_owner_def)
  have len: "card (S - set ys) = card S - length ys"
    using card_Diff_subset [of "set ys" S] assms(4) distinct_card [OF assms(3)] by simp
  note mk = at_instant_key [OF assms(1)]
  have dk: "apply_batch del m x = (if x \<in> set keys then None else m x)" for m x unfolding del_def by (rule deletes_apply)
  have sk: "x \<in> set keys \<longleftrightarrow> (\<exists>y \<in> set ys. x = set_member_key ?d key v y)" for x by (auto simp: keys_def)
  have del: "list_all (set_op ?d {key}) del"
    using keep_op_set [of ?d key del] by (auto simp: list_all_iff del_def keys_def)
  show ?thesis
  proof (cases "S - set ys = {}")
    case True
    obtain upper where up: "\<And>batch. delete_sub_keys_to_batch_bytes batch ?d key v TYPE_SET = Some (batch @ [(RangeDelete, set_member_prefix ?d key v, upper)])"
      "\<And>x. set_member_prefix ?d key v \<le> x \<and> x < upper \<longleftrightarrow> (\<exists>y. x = set_member_key ?d key v y)"
      using set_range_delete [of ?d key v] by metis
    let ?drop = "remove_known_to_batch [(Delete, key, [])] e ?d key" and ?range = "(RangeDelete, set_member_prefix ?d key v, upper)"
    have w: "shrink_writes db key meta (length ys) del = Some (del @ ?drop @ [?range])"
      using len up(1) by (simp only: True) (simp add: shrink_writes_def assms(7) delete_main_key_with_ttl_to_batch_def remove_known_to_batch_def mk)
    have "shrunk ?d key e v S (set ys) m (apply_batch (del @ ?drop @ [?range]) m)" for m
      unfolding shrunk_def if_P [OF True]
    proof (intro allI)
      fix x show "apply_batch (del @ ?drop @ [?range]) m x =
          (if x = key \<or> e \<noteq> 0 \<and> x = ttl_index_key e ?d key \<or> (\<exists>y. x = set_member_key ?d key v y) then None else m x)"
        using up(2) [of x] sk [of x] by (auto simp: apply_batch_append apply_batch_single drop_record_apply [OF u] dk)
    qed
    moreover have "set_op ?d {key} ?range" using up(2) by (auto simp: set_op_def)
    ultimately show ?thesis
      using that [OF w [unfolded del_def keys_def]] del drop_record_ops [of ?d key e] by (simp add: del_def keys_def)
  next
    case False
    let ?batch = "del @ [(Put, key, encode_set_meta e v (card S - length ys))]"
    have "card S - length ys \<noteq> 0" using False len assms(6) by (metis card_0_eq finite_Diff)
    then have w: "shrink_writes db key meta (length ys) del = Some ?batch"
      by (simp add: shrink_writes_def assms(7) Let_def mk)
    have "shrunk ?d key e v S (set ys) m (apply_batch ?batch m)" for m
      unfolding shrunk_def if_not_P [OF False] using sk by (simp add: dk len)
    moreover have "set_op ?d {key} (Put, key, raw)" for raw by (rule set_op_intros) simp_all
    ultimately show ?thesis
      using that [OF w [unfolded del_def keys_def]] del by (simp add: del_def keys_def)
  qed
qed

text \<open>A commit that only shrinks one set.\<close>

lemma shrunk_commit:
  assumes "committed db view batch s s'" "list_all (set_op (db_no db) {key}) batch" "shrunk (db_no db) key e v S D (view (engine s)) (apply_batch batch (view (engine s)))"
    and "valid_owner key" "set_in db view n s key (e, S)" "n < max_members"
    and "split_set_at (view (engine s)) (db_no db) (version_counter s) key e v S" "D \<subseteq> S" "versions_left db k s"
  shows "set_step db view {key} k s (s'\<lparr>changes := c\<rparr>)" "set_in db view n s' key (set_norm e (S - D))"
proof -
  have u: "\<forall>k \<in> {key}. utf8_valid k" using assms(4) by (simp add: valid_owner_def)
  have at: "set_at (view (engine s)) (db_no db) (version_counter s) n key e S" using assms(5) by simp
  note sh = shrunk_at [OF assms(3,4) at assms(6,7,8)]
  have i: "indexed (db_no db) (apply_batch batch (view (engine s))) k" if "k \<in> {key}" "indexed (db_no db) (view (engine s)) k" for k
    using sh(2) that by simp
  have "versions_left db k s'" using assms(1,9) by (simp add: versions_left_committed)
  then have "versions_left db k (s'\<lparr>changes := c\<rparr>)" using versions_left_same [of "s'\<lparr>changes := c\<rparr>" s' db k] by simp
  then show "set_step db view {key} k s (s'\<lparr>changes := c\<rparr>)" unfolding set_step_def using set_commit [OF assms(1,2) u i] by blast
  show "set_in db view n s' key (set_norm e (S - D))" using set_commit_at [OF assms(1,2) u i _ sh(1)] by simp
qed

lemma members_present:
  assumes "members_at m d key v S"
  shows "map fst (filter (\<lambda>(_, old). old \<noteq> None) (zip (map (set_member_key d key v) ms) (map m (map (set_member_key d key v) ms)))) =
    map (set_member_key d key v) (filter (\<lambda>y. y \<in> S) ms)"
proof -
  have "m (set_member_key d key v y) \<noteq> None \<longleftrightarrow> y \<in> S" for y using assms unfolding members_at_def by blast
  then show ?thesis by (induction ms) simp_all
qed

lemma set_remove_split_run:
  assumes "at_instant db view now" "cache_ok db view s" "valid_owner key" "set_in db view n s key (e, S)" "e = 0 \<or> now < e"
    and "n < max_members" "versions_left db k s"
    and "split_set_at (view (engine s)) (db_no db) (version_counter s) key e v S" "S \<noteq> {}"
  obtains s' where "set_remove_split db key ms s = (Inr (card (S \<inter> set ms)), s')" "set_step db view {key} k s s'"
    "set_in db view n s' key (set_norm e (S - set ms))"
proof -
  note mk = at_instant_key [OF assms(1)]
  let ?d = "db_no db" and ?meta = "\<lparr>stm_expire_ms = e, stm_version = v, stm_len = card S, stm_packed = False\<rparr>"
  define ys where "ys = filter (\<lambda>y. y \<in> S) (distinct_keys ms)"
  have ys: "distinct ys" "set ys = S \<inter> set ms" using distinct_keys_spec [of ms] by (auto simp: ys_def)
  have n: "length ys = card (S \<inter> set ms)" "S - set ys = S - set ms" using distinct_card [OF ys(1)] ys(2) by auto
  have mem: "members_at (view (engine s)) ?d key v S" using assms(8) by (simp add: split_set_at_def)
  define keys where "keys = map (set_member_key ?d key v) (distinct_keys ms)"
  have p: "map fst (filter (\<lambda>(_, old). old \<noteq> None) (zip keys (map (view (engine s)) keys))) = map (set_member_key ?d key v) ys"
    unfolding keys_def ys_def by (rule members_present [OF mem])
  have run: "set_remove_split db key ms s = remove_present db key ?meta (map (set_member_key ?d key v) ys) s"
    using set_meta_split [OF assms(1,4,6,5,8)]
    by (simp add: set_remove_split_def and_then_def multi_get_run [OF assms(1)] Let_def keys_def [symmetric] p del: not_None_eq)
  show ?thesis
  proof (cases "ys = []")
    case True
    then have "S \<inter> set ms = {}" "S - set ms = S" using ys(2) by auto
    then show ?thesis using that [of s] run True set_step_refl [OF assms(2,7)] assms(4,9) by (simp add: remove_present_def return_def)
  next
    case False
    have fin: "finite S" using assms(4) by (simp add: set_at_def set_ok_def)
    obtain batch where b: "shrink_writes db key ?meta (length ys) (map (\<lambda>k. (Delete, k, [])) (map (set_member_key ?d key v) ys)) = Some batch"
      "batch \<noteq> []" "list_all (set_op ?d {key}) batch" "\<And>m. shrunk ?d key e v S (set ys) m (apply_batch batch m)"
      using shrink_writes_run [OF assms(1,3) ys(1) _ False fin refl] ys(2) by blast
    have "list_all plain_op batch" using b(3) by (auto simp: list_all_iff set_op_def)
    then obtain s' where s': "write_batch_if_not_empty db batch s = (Inr (), s')" "committed db view batch s s'"
      using write_commit [OF assms(1,2) b(2)] by blast
    have sub: "set ys \<subseteq> S" using ys(2) by simp
    note sc = shrunk_commit [OF s'(2) b(3,4) assms(3,4,6,8) sub assms(7)]
    have st: "set_step db view {key} k s (s'\<lparr>changes := changes s' + 1\<rparr>)" "set_in db view n s' key (set_norm e (S - set ms))"
      using sc n(2) by simp_all
    show ?thesis
      using that [of "s'\<lparr>changes := changes s' + 1\<rparr>"] st run False b(1) s'(1) n(1)
      by (simp add: remove_present_def and_then_def fetch_add_changes_def modify_def return_def)
  qed
qed

lemma set_remove_run:
  assumes "at_instant db view now" "cache_ok db view s" "valid_owner key" "set_in db view n s key x" "set_live now x = (e, S)"
    and "n < max_members" "versions_left db k s"
  obtains s' where "set_remove_async db key ms s = (Inr (card (S \<inter> set ms)), s')" "set_step db view {key} k s s'"
    "set_in db view n s' key (set_norm e (S - set ms))"
proof (rule remove_packed_round_run [OF assms, of ms])
  fix s' assume s': "remove_packed_round db key ms s = (Inr (Some (Some (card (S \<inter> set ms)))), s')"
    "set_step db view {key} k s s'" "set_in db view n s' key (set_norm e (S - set ms))"
  show thesis
    using that [OF _ s'(2,3)] after_packed_run [where body = "remove_packed_round db key ms", OF s'(1)]
    by (simp add: set_remove_async_def try_set_remove_packed_def and_then_def return_def)
next
  fix s1 v assume s1: "remove_packed_round db key ms s = (Inr (Some None), s1)" "set_step db view {key} k s s1"
    "set_in db view n s1 key (e, S)" "split_set_at (view (engine s1)) (db_no db) (version_counter s1) key e v S" "S \<noteq> {}"
  obtain s' where s': "set_remove_split db key ms s1 = (Inr (card (S \<inter> set ms)), s')" "set_step db view {key} k s1 s'"
    "set_in db view n s' key (set_norm e (S - set ms))"
    using set_remove_split_run [OF assms(1) set_step_cache [OF s1(2)] assms(3) s1(3) set_live_fst [OF assms(5)] assms(6) set_step_left [OF s1(2)] s1(4,5)] .
  show thesis
    using that [of s'] s'(1,3) set_step_trans [OF s1(2) s'(2)] after_packed_run [where body = "remove_packed_round db key ms", OF s1(1)]
    by (simp add: set_remove_async_def try_set_remove_packed_def and_then_def)
qed

end
