(* ===== verification/Set_Read.thy ===== *)
theory Set_Read
  imports Set_Add
begin

text \<open>SISMEMBER, SMISMEMBER, SCARD, SMEMBERS and the members of a union.\<close>

section \<open>Scanning the member records\<close>

lemma members_scan:
  assumes "at_instant db view now" "members_at (view (engine s)) (db_no db) key v S" "finite S" "card S \<le> limit"
  obtains found where
    "scan_range_raw_limited (kv db) (set_member_prefix (db_no db) key v) (prefix_exclusive_upper_bound (set_member_prefix (db_no db) key v)) limit
       (engine s) = (Inr found, engine s)"
    "map fst found = map (set_member_key (db_no db) key v) (sorted_list_of_set S)"
proof -
  let ?p = "set_member_prefix (db_no db) key v" and ?m = "view (engine s)" and ?k = "set_member_key (db_no db) key v"
  obtain u where u: "prefix_exclusive_upper_bound ?p = Some u"
    using sub_key_range_end_exists [of CURRENT "db_no db" SET_MEMBER_NAMESPACE key v]
    by (auto simp: sub_key_range_end_bytes_def collection_prefixes)
  obtain l where l: "scan_range_raw_limited (kv db) ?p (Some u) limit (engine s) = (Inr (take limit l), engine s)"
    "sorted_wrt (<) (map fst l)" "set l = {(k, x). ?m k = Some x \<and> in_range ?p (Some u) k}"
    using at_instant_contract [OF assms(1)] unfolding engine_contract_def by blast
  have r: "in_range ?p (Some u) x \<longleftrightarrow> (\<exists>y. x = ?k y)" for x
    using prefix_exclusive_upper_bound_Some [OF u, of x] starts_member [of x "db_no db" key v] by (simp add: in_range_def)
  have mem: "?m (?k y) \<noteq> None \<longleftrightarrow> y \<in> S" for y using assms(2) unfolding members_at_def by blast
  have "fst ` set l = ?k ` S"
  proof (intro set_eqI iffI)
    fix x assume "x \<in> fst ` set l"
    then obtain z where "?m x = Some z" "in_range ?p (Some u) x" using l(3) by force
    then show "x \<in> ?k ` S" using r [of x] mem by auto
  next
    fix x assume "x \<in> ?k ` S"
    then obtain y where y: "x = ?k y" "y \<in> S" by blast
    then obtain z where "?m x = Some z" using mem [of y] by auto
    then show "x \<in> fst ` set l" using l(3) r [of x] y(1) by force
  qed
  moreover have sk: "sorted_wrt (<) (map ?k (sorted_list_of_set S))"
    using sorted_members [OF assms(3)] by (simp add: sorted_wrt_map set_member_key_def)
  ultimately have "map fst l = map ?k (sorted_list_of_set S)"
    using sorted_list_of_members [OF l(2)] sorted_list_of_members [OF sk] assms(3) by simp
  moreover from this have "length l = card S" using assms(3) by (metis length_map length_sorted_list_of_set)
  ultimately show ?thesis using that [of l] l(1) u assms(4) by simp
qed

lemma strip_members:
  "map fst found = map (set_member_key d key v) ys \<Longrightarrow>
     List.map_filter (\<lambda>(k, _). strip_prefix (set_member_prefix d key v) k) found = ys"
  by (induction found arbitrary: ys) (auto simp: List.map_filter_simps set_member_key_def)

section \<open>The size of a reply\<close>

definition reply_size :: "bytes list \<Rightarrow> nat" where
  "reply_size members = 32 + (\<Sum>y \<leftarrow> members. length y + 32)"

lemma add_member_size_eq:
  "0 < a \<Longrightarrow> add_member_size (Some a) y = (if a + (length y + 32) \<le> usize_max then Some (a + (length y + 32)) else None)"
  by (auto simp: add_member_size_def checked_add_def min_def)

lemma fold_member_size:
  "0 < a \<Longrightarrow> foldl add_member_size (Some a) ys =
     (if ys = [] \<or> a + (\<Sum>y \<leftarrow> ys. length y + 32) \<le> usize_max then Some (a + (\<Sum>y \<leftarrow> ys. length y + 32)) else None)"
proof (induction ys arbitrary: a)
  case (Cons y ys)
  have "foldl add_member_size None ys = None" by (induction ys) (simp_all add: add_member_size_def)
  then show ?case using Cons by (auto simp: add_member_size_eq add.assoc)
qed simp

lemma visit_members_run:
  assumes "map fst found = map (set_member_key d key v) ys" "list_all utf8_valid ys" "length acc + length ys \<le> max_count" "0 < a"
    and "max_bytes \<le> usize_max"
  shows "visit_members max_count max_bytes (set_member_prefix d key v) found a acc =
    (if ys = [] \<or> a + (\<Sum>y \<leftarrow> ys. length y + 32) \<le> max_bytes then Some (acc @ ys) else None)"
  using assms(1-4)
proof (induction found arbitrary: ys a acc)
  case (Cons f found)
  obtain y zs where y: "ys = y # zs" "fst f = set_member_key d key v y" "map fst found = map (set_member_key d key v) zs"
    using Cons.prems(1) by (cases ys) auto
  have p: "list_all utf8_valid zs" "length (acc @ [y]) + length zs \<le> max_count" "0 < a + (length y + 32)" "length acc < max_count"
    using Cons.prems(2-4) y(1) by auto
  note IH = Cons.IH [OF y(3) p(1-3)]
  show ?case
    using y(1,2) Cons.prems(2,4) p(4) IH assms(5)
    by (cases f) (auto simp: set_member_key_def add_member_size_eq add.assoc)
qed auto

section \<open>Reads\<close>

text \<open>After the metadata read: the set is absent, packed or split.\<close>

lemma set_meta_cases:
  assumes "at_instant db view now" "cache_ok db view s" "valid_owner key" "set_in db view n s key x" "set_live now x = (e, S)"
    and "n < max_members" "versions_left db k s"
  obtains (absent) s' where "set_meta_of db key s = (Inr None, s')" "set_step db view {key} k s s'" "set_in db view n s' key (e, S)" "S = {}"
  | (packed) s' raw where
      "set_meta_of db key s = (Inr (Some \<lparr>stm_expire_ms = e, stm_version = 0, stm_len = card S, stm_packed = True\<rparr>), s')"
      "set_step db view {key} k s s'" "set_in db view n s' key (e, S)" "S \<noteq> {}"
      "view (engine s') key = Some raw" "decode_packed_set raw = Some (sorted_list_of_set S)"
  | (split) s' v where
      "set_meta_of db key s = (Inr (Some \<lparr>stm_expire_ms = e, stm_version = v, stm_len = card S, stm_packed = False\<rparr>), s')"
      "set_step db view {key} k s s'" "set_in db view n s' key (e, S)" "S \<noteq> {}" "v \<noteq> 0"
      "split_set_at (view (engine s')) (db_no db) (version_counter s') key e v S"
      "members_at (view (engine s')) (db_no db) key v S"
proof -
  obtain s' found where s': "set_meta_of db key s = (Inr found, s')" "set_step db view {key} k s s'" "set_in db view n s' key (set_live now x)"
    "describes_set (view (engine s')) (db_no db) (version_counter s') key (set_live now x) found"
    using set_meta_run [OF assms(1-4,6,7)] .
  have at: "set_in db view n s' key (e, S)" and ok: "set_ok n e S"
    and d: "describes_set (view (engine s')) (db_no db) (version_counter s') key (e, S) found"
    using s'(3,4) assms(5) by (auto simp: set_at_def)
  show ?thesis
  proof (cases found)
    case None
    then show ?thesis using absent [of s'] s'(1,2) at d by (simp add: describes_set_def)
  next
    case (Some meta)
    then have meta: "S \<noteq> {}" "stm_expire_ms meta = e" "stm_len meta = card S"
      "if stm_packed meta then stm_version meta = 0 \<and> packed_set_at (view (engine s')) key e S
       else split_set_at (view (engine s')) (db_no db) (version_counter s') key e (stm_version meta) S"
      using d by (auto simp: describes_set_def)
    have m: "meta = \<lparr>stm_expire_ms = e, stm_version = stm_version meta, stm_len = card S, stm_packed = stm_packed meta\<rparr>"
      using meta(2,3) by (cases meta) simp
    show ?thesis
    proof (cases "stm_packed meta")
      case True
      then have "packed_set_at (view (engine s')) key e S" "stm_version meta = 0" using meta(4) by simp_all
      then show ?thesis
        by (elim packed_set_at_read [OF _ ok]) (rule packed [OF _ s'(2) at meta(1)], use s'(1) Some m True in auto)
    next
      case False
      then have sp: "split_set_at (view (engine s')) (db_no db) (version_counter s') key e (stm_version meta) S" using meta(4) by simp
      then show ?thesis
        using split [OF _ s'(2) at meta(1) _ sp] s'(1) Some m False by (simp add: split_set_at_def)
    qed
  qed
qed

lemma set_contains_run:
  assumes "at_instant db view now" "cache_ok db view s" "valid_owner key" "set_in db view n s key x" "set_live now x = (e, S)"
    and "n < max_members" "versions_left db k s"
  obtains s' where "set_contains_async db key y s = (Inr (y \<in> S), s')" "set_step db view {key} k s s'" "set_in db view n s' key (e, S)"
proof -
  note get = db_get_run [OF at_instant_contract [OF assms(1)]] and mk = at_instant_key [OF assms(1)]
  have fin: "set_in db view n s' key (e, S) \<Longrightarrow> finite S" for s' by (simp add: set_at_def set_ok_def)
  show ?thesis
  proof (rule set_meta_cases [OF assms])
    fix s' assume a: "set_meta_of db key s = (Inr None, s')" "set_step db view {key} k s s'" "set_in db view n s' key (e, S)" "S = {}"
    then show thesis using that [of s'] by (simp add: set_contains_async_def and_then_def return_def)
  next
    fix s' raw assume a: "set_meta_of db key s = (Inr (Some \<lparr>stm_expire_ms = e, stm_version = 0, stm_len = card S, stm_packed = True\<rparr>), s')"
      "set_step db view {key} k s s'" "set_in db view n s' key (e, S)"
      "view (engine s') key = Some raw" "decode_packed_set raw = Some (sorted_list_of_set S)"
    then show thesis
      using that [of s'] fin [OF a(3)] by (simp add: set_contains_async_def and_then_def return_def get mk packed_members_def)
  next
    fix s' v assume a: "set_meta_of db key s = (Inr (Some \<lparr>stm_expire_ms = e, stm_version = v, stm_len = card S, stm_packed = False\<rparr>), s')"
      "set_step db view {key} k s s'" "set_in db view n s' key (e, S)" "members_at (view (engine s')) (db_no db) key v S"
    have "view (engine s') (set_member_key (db_no db) key v y) \<noteq> None \<longleftrightarrow> y \<in> S" using a(4) unfolding members_at_def by blast
    then show thesis
      using that [of s'] a(1-3) by (simp add: set_contains_async_def and_then_def return_def get contains_key_def)
  qed
qed

lemma set_multi_contains_run:
  assumes "at_instant db view now" "cache_ok db view s" "valid_owner key" "set_in db view n s key x" "set_live now x = (e, S)"
    and "n < max_members" "versions_left db k s"
  obtains s' where "set_multi_contains_async db key ys s = (Inr (map (\<lambda>y. y \<in> S) ys), s')" "set_step db view {key} k s s'"
    "set_in db view n s' key (e, S)"
proof -
  note get = db_get_run [OF at_instant_contract [OF assms(1)]] and mk = at_instant_key [OF assms(1)]
  have fin: "set_in db view n s' key (e, S) \<Longrightarrow> finite S" for s' by (simp add: set_at_def set_ok_def)
  show ?thesis
  proof (rule set_meta_cases [OF assms])
    fix s' assume a: "set_meta_of db key s = (Inr None, s')" "set_step db view {key} k s s'" "set_in db view n s' key (e, S)" "S = {}"
    then show thesis using that [of s'] by (simp add: set_multi_contains_async_def and_then_def return_def map_replicate_const)
  next
    fix s' raw assume a: "set_meta_of db key s = (Inr (Some \<lparr>stm_expire_ms = e, stm_version = 0, stm_len = card S, stm_packed = True\<rparr>), s')"
      "set_step db view {key} k s s'" "set_in db view n s' key (e, S)"
      "view (engine s') key = Some raw" "decode_packed_set raw = Some (sorted_list_of_set S)"
    then show thesis
      using that [of s'] fin [OF a(3)] by (simp add: set_multi_contains_async_def and_then_def return_def get mk packed_members_def)
  next
    fix s' v assume a: "set_meta_of db key s = (Inr (Some \<lparr>stm_expire_ms = e, stm_version = v, stm_len = card S, stm_packed = False\<rparr>), s')"
      "set_step db view {key} k s s'" "set_in db view n s' key (e, S)" "members_at (view (engine s')) (db_no db) key v S"
    have "view (engine s') (set_member_key (db_no db) key v y) \<noteq> None \<longleftrightarrow> y \<in> S" for y using a(4) unfolding members_at_def by blast
    then show thesis
      using that [of s'] a(1-3) by (simp add: set_multi_contains_async_def and_then_def return_def multi_get_run [OF assms(1)])
  qed
qed

lemma set_len_run:
  assumes "at_instant db view now" "cache_ok db view s" "valid_owner key" "set_in db view n s key x" "set_live now x = (e, S)"
    and "n < max_members" "versions_left db k s"
  obtains s' where "set_len_async db key s = (Inr (card S), s')" "set_step db view {key} k s s'" "set_in db view n s' key (e, S)"
  by (rule set_meta_cases [OF assms]) (rule that, auto simp: set_len_async_def and_then_def return_def)

text \<open>The members, in order, without limits and within the limits of a reply.\<close>

lemma set_members_raw_split:
  assumes "at_instant db view now" "members_at (view (engine s)) (db_no db) key v S" "finite S" "card S \<le> usize_max" "v \<noteq> 0"
  shows "set_members_raw db key v s = (Inr (sorted_list_of_set S), s)"
proof (rule members_scan [OF assms(1-4)])
  fix found assume f: "scan_range_raw_limited (kv db) (set_member_prefix (db_no db) key v)
      (prefix_exclusive_upper_bound (set_member_prefix (db_no db) key v)) usize_max (engine s) = (Inr found, engine s)"
    "map fst found = map (set_member_key (db_no db) key v) (sorted_list_of_set S)"
  show ?thesis
    using assms(5) strip_members [OF f(2)] f(1)
    by (simp add: set_members_raw_def scan_prefix_raw_def engine_call_def and_then_def return_def Let_def)
qed

lemma set_member_set_run:
  assumes "at_instant db view now" "cache_ok db view s" "valid_owner key" "set_in db view n s key x" "set_live now x = (e, S)"
    and "n < max_members" "versions_left db k s"
  obtains s' where "set_member_set_async db key s = (Inr (if S = {} then None else Some (sorted_list_of_set S)), s')"
    "set_step db view {key} k s s'" "set_in db view n s' key (e, S)"
proof -
  note get = db_get_run [OF at_instant_contract [OF assms(1)]] and mk = at_instant_key [OF assms(1)]
  have ok: "finite S \<and> card S \<le> usize_max \<and> filter utf8_valid (sorted_list_of_set S) = sorted_list_of_set S"
    if "set_in db view n s' key (e, S)" for s'
    using that assms(6) by (auto simp: set_at_def set_ok_def max_members_def)
  show ?thesis
  proof (rule set_meta_cases [OF assms])
    fix s' assume a: "set_meta_of db key s = (Inr None, s')" "set_step db view {key} k s s'" "set_in db view n s' key (e, S)" "S = {}"
    then show thesis using that [of s'] by (simp add: set_member_set_async_def and_then_def return_def)
  next
    fix s' raw assume a: "set_meta_of db key s = (Inr (Some \<lparr>stm_expire_ms = e, stm_version = 0, stm_len = card S, stm_packed = True\<rparr>), s')"
      "set_step db view {key} k s s'" "set_in db view n s' key (e, S)" "S \<noteq> {}"
      "view (engine s') key = Some raw" "decode_packed_set raw = Some (sorted_list_of_set S)"
    then show thesis
      using that [of s'] ok [OF a(3)] by (simp add: set_member_set_async_def set_members_raw_def and_then_def return_def get mk packed_members_def)
  next
    fix s' v assume a: "set_meta_of db key s = (Inr (Some \<lparr>stm_expire_ms = e, stm_version = v, stm_len = card S, stm_packed = False\<rparr>), s')"
      "set_step db view {key} k s s'" "set_in db view n s' key (e, S)" "S \<noteq> {}" "v \<noteq> 0" "members_at (view (engine s')) (db_no db) key v S"
    then show thesis
      using that [of s'] ok [OF a(3)] set_members_raw_split [OF assms(1) a(6) _ _ a(5)]
      by (simp add: set_member_set_async_def and_then_def return_def)
  qed
qed

definition members_reply :: "nat \<Rightarrow> nat \<Rightarrow> bytes set \<Rightarrow> 'e db_error + bytes list" where
  "members_reply max_count max_bytes S =
     (if S \<noteq> {} \<and> (card S > max_count \<or> reply_size (sorted_list_of_set S) > max_bytes) then Inl Response_too_large
      else Inr (sorted_list_of_set S))"

lemma set_members_bounded_run:
  assumes "at_instant db view now" "cache_ok db view s" "valid_owner key" "set_in db view n s key x" "set_live now x = (e, S)"
    and "n < max_members" "versions_left db k s" "max_bytes \<le> usize_max"
  obtains s' where "set_members_bounded db key max_count max_bytes s = (members_reply max_count max_bytes S, s')"
    "set_step db view {key} k s s'" "set_in db view n s' key (e, S)"
proof -
  note get = db_get_run [OF at_instant_contract [OF assms(1)]] and mk = at_instant_key [OF assms(1)]
  let ?xs = "sorted_list_of_set S"
  have ok: "finite S \<and> card S \<le> usize_max \<and> list_all utf8_valid ?xs" if "set_in db view n s' key (e, S)" for s'
    using that assms(6) by (auto simp: set_at_def set_ok_def max_members_def list_all_iff)
  show ?thesis
  proof (rule set_meta_cases [OF assms(1-7)])
    fix s' assume a: "set_meta_of db key s = (Inr None, s')" "set_step db view {key} k s s'" "set_in db view n s' key (e, S)" "S = {}"
    then show thesis using that [of s'] by (simp add: set_members_bounded_def and_then_def return_def members_reply_def)
  next
    fix s' raw assume a: "set_meta_of db key s = (Inr (Some \<lparr>stm_expire_ms = e, stm_version = 0, stm_len = card S, stm_packed = True\<rparr>), s')"
      "set_step db view {key} k s s'" "set_in db view n s' key (e, S)" "S \<noteq> {}"
      "view (engine s') key = Some raw" "decode_packed_set raw = Some ?xs"
    have z: "foldl add_member_size (Some 32) ?xs = (if reply_size ?xs \<le> usize_max then Some (reply_size ?xs) else None)"
      using fold_member_size [of 32 ?xs] a(4) ok [OF a(3)] by (auto simp: reply_size_def)
    have r: "set_members_raw db key 0 s' = (Inr ?xs, s')"
      using a(5,6) by (simp add: set_members_raw_def and_then_def get mk return_def packed_members_def)
    show thesis
      using that [of s'] a(1-4) ok [OF a(3)] z r assms(8)
      by (auto simp: set_members_bounded_def and_then_def return_def fail_def members_reply_def)
  next
    fix s' v assume a: "set_meta_of db key s = (Inr (Some \<lparr>stm_expire_ms = e, stm_version = v, stm_len = card S, stm_packed = False\<rparr>), s')"
      "set_step db view {key} k s s'" "set_in db view n s' key (e, S)" "S \<noteq> {}" "members_at (view (engine s')) (db_no db) key v S"
    show thesis
    proof (cases "card S > max_count")
      case True
      then show thesis using that [of s'] a(1-4) by (simp add: set_members_bounded_def and_then_def fail_def members_reply_def)
    next
      case False
      then have lim: "card S \<le> min (max_count + 1) usize_max"
        using ok [OF a(3)] by (intro min.boundedI) simp_all
      obtain found where f: "scan_range_raw_limited (kv db) (set_member_prefix (db_no db) key v)
          (prefix_exclusive_upper_bound (set_member_prefix (db_no db) key v)) (min (max_count + 1) usize_max) (engine s') = (Inr found, engine s')"
        "map fst found = map (set_member_key (db_no db) key v) ?xs"
        using members_scan [OF assms(1) a(5) _ lim] ok [OF a(3)] by blast
      have vis: "visit_members max_count max_bytes (set_member_prefix (db_no db) key v) found 32 [] =
          (if reply_size ?xs \<le> max_bytes then Some ?xs else None)"
        using visit_members_run [OF f(2), of "[]" max_count 32 max_bytes] ok [OF a(3)] False a(4) assms(8) by (simp add: reply_size_def)
      show thesis
        using that [of s'] a(1-4) False f(1) vis
        by (auto simp: set_members_bounded_def and_then_def engine_call_def return_def fail_def members_reply_def Let_def)
    qed
  qed
qed

end
