(* ===== verification/Set_Move.thy ===== *)
theory Set_Move
  imports Set_Remove Set_Read
begin

text \<open>SMOVE takes both sets out of the packed form and moves the member in one batch.\<close>

section \<open>Promotion\<close>

lemma split_set_cong:
  "m' key = m key \<Longrightarrow> (\<And>v x. m' (set_member_key d key v x) = m (set_member_key d key v x)) \<Longrightarrow>
     split_set_at m' d c key e v S = split_set_at m d c key e v S"
  by (simp add: split_set_at_def members_at_def)

lemma promote_set_run:
  assumes "at_instant db view now" "cache_ok db view s" "valid_owner key" "set_in db view n s key (e, S)" "n < max_members"
    and "versions_left db (Suc k) s"
  obtains s' where "promote_packed_set db key s = (Inr (), s')" "set_step db view {key} k s s'" "set_in db view n s' key (e, S)"
    "S \<noteq> {} \<Longrightarrow> \<exists>v. split_set_at (view (engine s')) (db_no db) (version_counter s') key e v S"
proof -
  note get = db_get_run [OF at_instant_contract [OF assms(1)]] and mk = at_instant_key [OF assms(1)]
  have ret: "promote_set_round db key s = (Inr (Some ()), s') \<Longrightarrow> promote_packed_set db key s = (Inr (), s')" for s'
    unfolding promote_packed_set_def by (rule retry_done)
  have st: "set_step db view {key} k s s" using set_step_refl [OF assms(2) versions_left_mono [OF assms(6)]] by simp
  have ok: "set_ok n e S" "finite S" "utf8_valid key" "unused_from (view (engine s)) (db_no db) (version_counter s) key"
    using assms(3,4) by (auto simp: set_at_def set_ok_def valid_owner_def)
  have "set_at (view (engine s)) (db_no db) (version_counter s) n key e S" using assms(4) by simp
  then show ?thesis
  proof (rule set_layout [OF _ assms(5)])
    assume a: "S = {}" "view (engine s) key = None"
    then show thesis using that [of s] ret [of s] st assms(4) by (simp add: promote_set_round_def and_then_def get mk return_def)
  next
    fix raw v assume a: "view (engine s) key = Some raw" "split_set_at (view (engine s)) (db_no db) (version_counter s) key e v S"
      "decode_packed_set raw = None"
    then show thesis using that [of s] ret [of s] st assms(4) by (auto simp: promote_set_round_def and_then_def get mk return_def)
  next
    fix raw assume a: "S \<noteq> {}" "view (engine s) key = Some raw" "decode_packed_set raw = Some (sorted_list_of_set S)"
      "decode_meta_header raw = Some \<lparr>mh_expire_ms = e, mh_version = 0, mh_type_tag = TYPE_SET\<rparr>"
    obtain v where v: "next_version db s = (Inr v, s\<lparr>version_counter := v\<rparr>)" "version_counter s < v"
      "versions_left db k (s\<lparr>version_counter := v\<rparr>)"
      using next_version_above [OF assms(6)] .
    let ?s = "s\<lparr>version_counter := v\<rparr>" and ?xs = "sorted_list_of_set S"
    let ?batch = "(Put, key, encode_set_meta e v (length ?xs)) # member_puts (db_no db) key v ?xs"
    have ops: "list_all (keep_op (db_no db) key) ?batch" by (rule split_set_writes_ops)
    have b: "cache_ok db view ?s" "?batch \<noteq> []" "view (engine ?s) key = Some raw" using assms(2) a(2) by simp_all
    obtain s' where s': "compare_and_write_batch_if_not_empty db [(key, Some raw)] ?batch ?s = (Inr True, s')" "committed db view ?batch ?s s'"
      using compare_commit [where batch = ?batch and s = ?s, OF assms(1) b(1,2) keep_plain [OF ops] b(3)] by blast
    have sp: "split_set_at (apply_batch ?batch (view (engine ?s))) (db_no db) v key e v S"
      "set_at (apply_batch ?batch (view (engine ?s))) (db_no db) (version_counter ?s) n key e S"
      using split_writes_at [OF assms(3) ok(4) v(2) ok(1) a(1), of ?xs] ok(2) by simp_all
    have old: "set_in db view n ?s key (e, S)" using set_at_later [OF assms(4) v(2)] by simp
    note k1 = set_commit_keep(1) [OF s'(2) ops ok(3) old assms(5) sp(2) assms(5) v(3), of "changes s'"]
      and k2 = set_commit_keep(2) [OF s'(2) ops ok(3) old assms(5) sp(2) assms(5) v(3)]
    have "set_step db view {key} k s (s'\<lparr>changes := changes s'\<rparr>)"
      using set_step_trans [OF set_step_version [OF assms(2) v(2,3)] k1] by blast
    then have "set_step db view {key} k s s'" by simp
    moreover have "version_counter s' = v" using s'(2) by (simp add: committed_def)
    moreover from this have "split_set_at (view (engine s')) (db_no db) (version_counter s') key e v S"
      using sp(1) split_set_cong [of "view (engine s')" key "apply_batch ?batch (view (engine ?s))" "db_no db"] committed_view [OF s'(2)] ok(3)
      by simp
    moreover have "promote_set_round db key s = (Inr (Some ()), s')"
      using a(2-4) v(1) s'(1) by (simp add: promote_set_round_def and_then_def get mk return_def split_set_writes_def)
    ultimately show thesis using that [of s'] ret k2 by blast
  qed
qed

section \<open>The batch of a move\<close>

lemma move_source_writes:
  assumes "at_instant db view now" "valid_owner source" "y \<in> S" "finite S"
  obtains batch where
    "(if card S - 1 = 0
      then map_option (\<lambda>batch. remove_known_to_batch batch e (db_no db) source)
             (delete_sub_keys_to_batch_bytes ([(Delete, set_member_key (db_no db) source v y, [])] @ [(Delete, mk_key db source, [])])
                (db_no db) source v TYPE_SET)
      else Some ([(Delete, set_member_key (db_no db) source v y, [])] @
             [(Put, mk_key db source, encode_set_meta e v (card S - 1))])) = Some batch"
    "batch \<noteq> []" "list_all (set_op (db_no db) {source}) batch" "\<And>m. shrunk (db_no db) source e v S {y} m (apply_batch batch m)"
proof -
  let ?d = "db_no db" and ?del = "(Delete, set_member_key (db_no db) source v y, []) :: batch_op"
  have u: "utf8_valid source" using assms(2) by (simp add: valid_owner_def)
  note mk = at_instant_key [OF assms(1)]
  have len: "card (S - {y}) = card S - 1" using assms(3,4) by simp
  have op: "set_op ?d {source} ?del" "\<And>raw. set_op ?d {source} (Put, source, raw)" "set_op ?d {source} (Delete, source, [])"
    "set_op ?d {source} (Delete, ttl_index_key e ?d source, [])"
    by (rule set_op_intros; simp)+
  show ?thesis
  proof (cases "S - {y} = {}")
    case True
    then have z: "card S - 1 = 0" using len by (metis card.empty)
    obtain upper where up: "\<And>batch. delete_sub_keys_to_batch_bytes batch ?d source v TYPE_SET = Some (batch @ [(RangeDelete, set_member_prefix ?d source v, upper)])"
      "\<And>x. set_member_prefix ?d source v \<le> x \<and> x < upper \<longleftrightarrow> (\<exists>y. x = set_member_key ?d source v y)"
      using set_range_delete [of ?d source v] by metis
    let ?range = "(RangeDelete, set_member_prefix ?d source v, upper)"
    let ?batch = "remove_known_to_batch [?del, (Delete, source, []), ?range] e ?d source"
    have "shrunk ?d source e v S {y} m (apply_batch ?batch m)" for m
      unfolding shrunk_def if_P [OF True]
    proof (intro allI)
      fix x show "apply_batch ?batch m x =
          (if x = source \<or> e \<noteq> 0 \<and> x = ttl_index_key e ?d source \<or> (\<exists>y. x = set_member_key ?d source v y) then None else m x)"
        using up(2) [of x] by (auto simp: remove_known_to_batch_def apply_batch_def)
    qed
    moreover have "set_op ?d {source} ?range" using up(2) by (auto simp: set_op_def)
    then have "list_all (set_op ?d {source}) ?batch" using op by (simp add: remove_known_to_batch_def)
    ultimately show ?thesis using that [of ?batch] z up(1) by (simp add: mk remove_known_to_batch_def)
  next
    case False
    then have z: "card S - 1 \<noteq> 0" using len assms(4) by (metis card_0_eq finite_Diff)
    let ?batch = "[?del, (Put, source, encode_set_meta e v (card S - 1))]"
    have "shrunk ?d source e v S {y} m (apply_batch ?batch m)" for m
      unfolding shrunk_def if_not_P [OF False] using len by (auto simp: apply_batch_def)
    then show ?thesis using that [of ?batch] z op by (simp add: mk)
  qed
qed

text \<open>The destination takes the member in.\<close>

lemma move_target_at:
  assumes "valid_owner key" "set_at m d c n key e S" "utf8_valid y" "y \<notin> S"
    and "S \<noteq> {} \<Longrightarrow> split_set_at m d c key e v S" "S = {} \<Longrightarrow> c0 < v \<and> v = c \<and> unused_from m d c0 key"
  shows "set_at (apply_batch [(Put, set_member_key d key v y, INDEX_MARKER_VALUE), (Put, key, encode_set_meta e v (card S + 1))] m)
    d c (n + 1) key e (insert y S)"
proof -
  let ?m = "apply_batch [(Put, set_member_key d key v y, INDEX_MARKER_VALUE), (Put, key, encode_set_meta e v (card S + 1))] m"
  have ok: "set_ok n e S" "finite S" "utf8_valid key" "unused_from m d c key"
    using assms(1,2) by (auto simp: set_at_def set_ok_def valid_owner_def)
  have e: "plausible_expiry e" using ok(1) by (simp add: set_ok_def)
  have ok': "set_ok (n + 1) e (insert y S)" using ok(1) assms(3,4) by (auto simp: set_ok_def)
  have len: "card (insert y S) = card S + 1" using ok(2) assms(4) by simp
  show ?thesis
  proof (cases "S = {}")
    case True
    then have v: "c0 < v" "v = c" "unused_from m d c0 key" using assms(6) [OF True] by blast+
    have "?m key = Some (encode_set_meta e v (card (insert y S)))" using len by (simp add: apply_batch_def)
    moreover have "?m (set_member_key d key w z) \<noteq> None \<longleftrightarrow> w = v \<and> z \<in> insert y S \<or> m (set_member_key d key w z) \<noteq> None" for w z
      using member_key_inject [OF assms(1,1)] member_key_not_main [OF ok(3)] True by (auto simp: apply_batch_def)
    ultimately show ?thesis using new_split_at(2) [OF v(3,1) ok'] v(2) by simp
  next
    case False
    have "set_ok (n + 1) e (S \<union> set [y])" using ok' by simp
    then show ?thesis
      using grow_at [OF assms(1) assms(5) [OF False] ok(4) _ ok(2), of "n + 1" "[y]"] assms(4) by (simp add: member_puts_def)
  qed
qed

definition split_meta :: "u64 \<Rightarrow> u64 \<Rightarrow> bytes set \<Rightarrow> set_meta" where
  "split_meta e v S = \<lparr>stm_expire_ms = e, stm_version = v, stm_len = card S, stm_packed = False\<rparr>"

text \<open>The version of the destination: its own, or a new one.\<close>

lemma target_version:
  assumes "cache_ok db view s" "set_in db view n s key (e, S)" "versions_left db (Suc k) s"
    and "S \<noteq> {} \<Longrightarrow> split_set_at (view (engine s)) (db_no db) (version_counter s) key e v S"
  obtains s' w where "(case (if S = {} then None else Some (split_meta e v S)) of Some m \<Rightarrow> return (stm_version m) | None \<Rightarrow> next_version db) s = (Inr w, s')"
    "set_step db view K k s s'" "engine s' = engine s"
    "S \<noteq> {} \<Longrightarrow> split_set_at (view (engine s')) (db_no db) (version_counter s') key e w S"
    "S = {} \<Longrightarrow> version_counter s < w \<and> w = version_counter s' \<and> unused_from (view (engine s)) (db_no db) (version_counter s) key"
    "view (engine s) (set_member_key (db_no db) key w y) \<noteq> None \<longleftrightarrow> y \<in> S"
proof (cases "S = {}")
  case True
  obtain w where w: "next_version db s = (Inr w, s\<lparr>version_counter := w\<rparr>)" "version_counter s < w"
    "versions_left db k (s\<lparr>version_counter := w\<rparr>)"
    using next_version_above [OF assms(3)] .
  have un: "unused_from (view (engine s)) (db_no db) (version_counter s) key" using assms(2) by (simp add: set_at_def)
  then have "view (engine s) (set_member_key (db_no db) key w y) = None" using w(2) by (simp add: unused_from_def)
  then show ?thesis using that [of w "s\<lparr>version_counter := w\<rparr>"] w True un set_step_version [OF assms(1) w(2,3)] by simp
next
  case False
  then have sp: "split_set_at (view (engine s)) (db_no db) (version_counter s) key e v S" using assms(4) by blast
  then have "view (engine s) (set_member_key (db_no db) key v y) \<noteq> None \<longleftrightarrow> y \<in> S" by (simp only: split_set_at_def members_at_def)
  then show ?thesis
    using that [of v s] False sp set_step_refl [OF assms(1) versions_left_mono [OF assms(3)]] by (simp add: split_meta_def return_def)
qed

text \<open>The two halves of the batch: the member leaves the source and comes to the destination.\<close>

definition target_writes :: "u16 \<Rightarrow> bytes \<Rightarrow> u64 \<Rightarrow> u64 \<Rightarrow> bytes \<Rightarrow> bytes set \<Rightarrow> batch_op list" where
  "target_writes db_index target e w y S = (if y \<in> S then []
     else [(Put, set_member_key db_index target w y, INDEX_MARKER_VALUE), (Put, target, encode_set_meta e w (card S + 1))])"

lemma target_writes_at:
  assumes "valid_owner target" "set_at m d c n target e S" "utf8_valid y" "n + 1 < max_members"
    and "S \<noteq> {} \<Longrightarrow> split_set_at m d c target e w S" "S = {} \<Longrightarrow> c0 < w \<and> w = c \<and> unused_from m d c0 target"
  shows "set_at (apply_batch (target_writes d target e w y S) m) d c (n + 1) target e (insert y S)"
    "indexed d m target \<Longrightarrow> indexed d (apply_batch (target_writes d target e w y S) m) target"
proof -
  show at: "set_at (apply_batch (target_writes d target e w y S) m) d c (n + 1) target e (insert y S)"
  proof (cases "y \<in> S")
    case True
    then have "insert y S = S" by blast
    then show ?thesis using set_at_bound [OF assms(2), of "n + 1"] True by (simp add: target_writes_def)
  next
    case False
    then show ?thesis using move_target_at [OF assms(1-3) False assms(5,6)] by (simp add: target_writes_def)
  qed
  have "apply_batch (target_writes d target e w y S) m (ttl_index_key i d target) = m (ttl_index_key i d target)" for i
    using member_key_not_index(2) key_apart_index(2) [of target] assms(1) by (auto simp: target_writes_def apply_batch_def valid_owner_def)
  then show "indexed d m target \<Longrightarrow> indexed d (apply_batch (target_writes d target e w y S) m) target"
    using index_kept [of _ target m d] set_at_deadline [OF at assms(4)] set_at_deadline [OF assms(2)] assms(4) by auto
qed

lemma target_writes_ops: "list_all (set_op d {target}) (target_writes d target e w y S)"
  by (auto simp: target_writes_def intro!: set_op_intros)

lemma move_batch_at:
  assumes "valid_owner source" "valid_owner target" "source \<noteq> target" "n + 1 < max_members" "y \<in> Ss"
    and "set_at m d c n source es Ss" "split_set_at m d c source es vs Ss" "set_at m d c n target et St"
    and "St \<noteq> {} \<Longrightarrow> split_set_at m d c target et w St" "St = {} \<Longrightarrow> c0 < w \<and> w = c \<and> unused_from m d c0 target"
    and "list_all (set_op d {source}) a" "\<And>m. shrunk d source es vs Ss {y} m (apply_batch a m)"
  defines "batch \<equiv> a @ target_writes d target et w y St"
  shows "list_all (set_op d {source, target}) batch"
    "set_at (apply_batch batch m) d c (n + 1) source (fst (set_norm es (Ss - {y}))) (Ss - {y})"
    "set_at (apply_batch batch m) d c (n + 1) target et (insert y St)"
    "\<And>k. k \<in> {source, target} \<Longrightarrow> indexed d m k \<Longrightarrow> indexed d (apply_batch batch m) k"
proof -
  let ?b = "target_writes d target et w y St"
  let ?m1 = "apply_batch a m" and ?m2 = "apply_batch ?b (apply_batch a m)"
  have m2: "apply_batch batch m = ?m2" by (simp add: batch_def apply_batch_append)
  have n: "n < max_members" and uy: "utf8_valid y" using assms(4-6) by (auto simp: set_at_def set_ok_def)
  have "list_all (set_op d {source, target}) a" "list_all (set_op d {source, target}) ?b"
    using assms(11) target_writes_ops [of d target et w y St] unfolding list_all_iff set_op_def by blast+
  then show "list_all (set_op d {source, target}) batch" by (simp add: batch_def)
  have src1: "set_at ?m1 d c n source (fst (set_norm es (Ss - {y}))) (Ss - {y})" "indexed d m source \<Longrightarrow> indexed d ?m1 source"
    using shrunk_at [OF assms(12,1,6) n assms(7)] assms(5) by auto
  note ob = set_op_other [OF target_writes_ops _ assms(1)] and oa = set_op_other [OF assms(11) _ assms(2)]
  have "?m2 source = ?m1 source" "\<And>v x. ?m2 (set_member_key d source v x) = ?m1 (set_member_key d source v x)"
    "\<And>e. ?m2 (ttl_index_key e d source) = ?m1 (ttl_index_key e d source)"
    using ob assms(2,3) by simp_all
  then have src2: "set_at ?m2 d c (n + 1) source (fst (set_norm es (Ss - {y}))) (Ss - {y})" "indexed d m source \<Longrightarrow> indexed d ?m2 source"
    using src1 set_at_cong [of ?m2 source ?m1 d] set_at_bound [of ?m2 d c n source _ _ "n + 1"] by (auto simp: indexed_def)
  have t1: "?m1 target = m target" "\<And>v x. ?m1 (set_member_key d target v x) = m (set_member_key d target v x)"
    "\<And>e. ?m1 (ttl_index_key e d target) = m (ttl_index_key e d target)"
    using oa assms(1,3) by auto
  have tgt1: "set_at ?m1 d c n target et St" using set_at_cong [of ?m1 target m d, OF t1(1,2)] assms(8) by simp
  have sp1: "split_set_at ?m1 d c target et w St" if "St \<noteq> {}"
    using assms(9) [OF that] split_set_cong [of ?m1 target m d, OF t1(1,2)] by simp
  have un1: "c0 < w \<and> w = c \<and> unused_from ?m1 d c0 target" if "St = {}" using assms(10) [OF that] t1(2) by (auto simp: unused_from_def)
  note tgt2 = target_writes_at [OF assms(2) tgt1 uy assms(4) sp1 un1]
  show "set_at (apply_batch batch m) d c (n + 1) source (fst (set_norm es (Ss - {y}))) (Ss - {y})"
    "set_at (apply_batch batch m) d c (n + 1) target et (insert y St)"
    using src2(1) tgt2(1) m2 by simp_all
  have "indexed d ?m1 target" if "indexed d m target" using that t1(1,3) by (simp add: indexed_def)
  then show "indexed d (apply_batch batch m) k" if "k \<in> {source, target}" "indexed d m k" for k
    using that src2(2) tgt2(2) m2 by auto
qed

lemma move_writes_eq:
  assumes "at_instant db view now" "set_at m (db_no db) c n target et St" "n + 1 < max_members"
    and "(if card Ss - 1 = 0
      then map_option (\<lambda>batch. remove_known_to_batch batch es (db_no db) source)
             (delete_sub_keys_to_batch_bytes ([(Delete, set_member_key (db_no db) source vs y, [])] @ [(Delete, mk_key db source, [])])
               (db_no db) source vs TYPE_SET)
      else Some ([(Delete, set_member_key (db_no db) source vs y, [])] @ [(Put, mk_key db source, encode_set_meta es vs (card Ss - 1))])) = Some a"
  shows "set_move_writes db source target y (split_meta es vs Ss) (if St = {} then None else Some (split_meta et vt St)) w (y \<in> St) =
    Some (a @ target_writes (db_no db) target et w y St)"
proof -
  let ?meta = "if St = {} then None else Some (split_meta et vt St)"
  have len: "min (case ?meta of Some m \<Rightarrow> stm_len m + 1 | None \<Rightarrow> 1) usize_max = card St + 1"
    "(case ?meta of Some m \<Rightarrow> stm_expire_ms m | None \<Rightarrow> 0) = et"
    using assms(2,3) by (auto simp: split_meta_def set_at_def set_ok_def max_members_def)
  have sel: "stm_expire_ms (split_meta es vs Ss) = es" "stm_version (split_meta es vs Ss) = vs" "stm_len (split_meta es vs Ss) = card Ss"
    by (simp_all add: split_meta_def)
  show ?thesis unfolding set_move_writes_def Let_def len sel assms(4) by (simp add: target_writes_def at_instant_key [OF assms(1)])
qed

lemma set_move_found_run:
  assumes "at_instant db view now" "cache_ok db view s" "valid_owner source" "valid_owner target" "source \<noteq> target"
    and "set_in db view n s source (es, Ss)" "split_set_at (view (engine s)) (db_no db) (version_counter s) source es vs Ss" "y \<in> Ss"
    and "set_in db view n s target (et, St)" "St \<noteq> {} \<Longrightarrow> split_set_at (view (engine s)) (db_no db) (version_counter s) target et vt St"
    and "n + 1 < max_members" "versions_left db (Suc k) s"
  obtains s' where
    "set_move_found db source target y (split_meta es vs Ss) (if St = {} then None else Some (split_meta et vt St)) s = (Inr True, s')"
    "set_step db view {source, target} k s s'" "set_in db view (n + 1) s' source (set_norm es (Ss - {y}))"
    "set_in db view (n + 1) s' target (et, insert y St)"
proof -
  let ?d = "db_no db" and ?K = "{source, target}" and ?meta = "if St = {} then None else Some (split_meta et vt St)"
  obtain s1 w where s1: "(case ?meta of Some m \<Rightarrow> return (stm_version m) | None \<Rightarrow> next_version db) s = (Inr w, s1)"
    "set_step db view ?K k s s1" "engine s1 = engine s" "St \<noteq> {} \<Longrightarrow> split_set_at (view (engine s1)) ?d (version_counter s1) target et w St"
    "St = {} \<Longrightarrow> version_counter s < w \<and> w = version_counter s1 \<and> unused_from (view (engine s)) ?d (version_counter s) target"
    "view (engine s) (set_member_key ?d target w y) \<noteq> None \<longleftrightarrow> y \<in> St"
    using target_version [where K = ?K and y = y, OF assms(2,9,12,10)] by metis
  let ?m = "view (engine s1)" and ?c = "version_counter s1"
  have le: "version_counter s \<le> ?c" using s1(2) by (simp add: set_step_def set_changed_def)
  have fin: "finite Ss" using assms(6) by (simp add: set_at_def set_ok_def)
  have src: "set_at ?m ?d ?c n source es Ss" "split_set_at ?m ?d ?c source es vs Ss"
    using set_at_mono [OF assms(6) le] assms(7) le s1(3) by (auto simp: split_set_at_def)
  have tgt: "set_at ?m ?d ?c n target et St" using set_at_mono [OF assms(9) le] s1(3) by simp
  have un: "version_counter s < w \<and> w = ?c \<and> unused_from ?m ?d (version_counter s) target" if "St = {}" unfolding s1(3) by (rule s1(5) [OF that])
  obtain a where a: "(if card Ss - 1 = 0
      then map_option (\<lambda>batch. remove_known_to_batch batch es ?d source)
             (delete_sub_keys_to_batch_bytes ([(Delete, set_member_key ?d source vs y, [])] @ [(Delete, mk_key db source, [])]) ?d source vs TYPE_SET)
      else Some ([(Delete, set_member_key ?d source vs y, [])] @ [(Put, mk_key db source, encode_set_meta es vs (card Ss - 1))])) = Some a"
    "a \<noteq> []" "list_all (set_op ?d {source}) a" "\<And>m. shrunk ?d source es vs Ss {y} m (apply_batch a m)"
    using move_source_writes [OF assms(1,3,8) fin, of es vs] by metis
  let ?batch = "a @ target_writes ?d target et w y St"
  have at2: "list_all (set_op ?d ?K) ?batch"
    "set_at (apply_batch ?batch ?m) ?d ?c (n + 1) source (fst (set_norm es (Ss - {y}))) (Ss - {y})"
    "set_at (apply_batch ?batch ?m) ?d ?c (n + 1) target et (insert y St)"
    "\<And>k. k \<in> ?K \<Longrightarrow> indexed ?d ?m k \<Longrightarrow> indexed ?d (apply_batch ?batch ?m) k"
    by (rule move_batch_at [OF assms(3-5,11,8) src tgt s1(4) un a(3,4)]; assumption)+
  have uK: "\<forall>k \<in> ?K. utf8_valid k" using assms(3,4) by (simp add: valid_owner_def)
  have "list_all plain_op ?batch" using at2(1) by (auto simp: list_all_iff set_op_def)
  then obtain s2 where s2: "write_batch_if_not_empty db ?batch s1 = (Inr (), s2)" "committed db view ?batch s1 s2"
    using write_commit [OF assms(1) set_step_cache [OF s1(2)], of ?batch] a(2) by auto
  let ?s' = "s2\<lparr>changes := changes s2 + 1\<rparr>"
  have "set_changed db view ?K s1 ?s'" using set_commit [OF s2(2) at2(1) uK at2(4)] .
  moreover have "versions_left db k ?s'"
    using versions_left_committed [OF s2(2), of k] set_step_left [OF s1(2)] versions_left_same [of ?s' s2 db k] by simp
  ultimately have step: "set_step db view ?K k s ?s'" using set_step_trans [OF s1(2)] unfolding set_step_def by blast
  have at: "set_in db view (n + 1) ?s' source (set_norm es (Ss - {y}))" "set_in db view (n + 1) ?s' target (et, insert y St)"
    using set_commit_at [OF s2(2) at2(1) uK at2(4) _ at2(2)] set_commit_at [OF s2(2) at2(1) uK at2(4) _ at2(3)] by simp_all
  have "set_move_writes db source target y (split_meta es vs Ss) ?meta w (y \<in> St) = Some ?batch"
    by (rule move_writes_eq [OF assms(1) tgt assms(11) a(1)])
  moreover have "contains_key db (set_member_key ?d target w y) s1 = (Inr (y \<in> St), s1)"
    using s1(3,6) by (simp add: contains_key_def and_then_def db_get_run [OF at_instant_contract [OF assms(1)]] return_def)
  ultimately have "set_move_found db source target y (split_meta es vs Ss) ?meta s = (Inr True, ?s')"
    using s1(1) s2(1) by (simp add: set_move_found_def and_then_def fetch_add_changes_def modify_def return_def)
  then show ?thesis using that step at by blast
qed

section \<open>SMOVE\<close>

lemma set_changed_split:
  assumes "set_changed db view K s s'" "\<forall>k \<in> K. valid_owner k" "valid_owner key" "key \<notin> K"
    and "split_set_at (view (engine s)) (db_no db) (version_counter s) key e v S"
  shows "split_set_at (view (engine s')) (db_no db) (version_counter s') key e v S"
proof -
  have u: "utf8_valid key" "\<forall>k \<in> K. utf8_valid k" using assms(2,3) by (auto simp: valid_owner_def)
  have "view (engine s') key = view (engine s) key"
    using assms(1,4) utf8_not_side [OF u(1)] member_key_not_main(2) [OF u(1)] by (simp add: set_changed_def)
  moreover have "view (engine s') (set_member_key (db_no db) key v x) = view (engine s) (set_member_key (db_no db) key v x)" for v x
  proof -
    have "set_member_key (db_no db) key v x \<noteq> set_member_key (db_no db) k v' y" if "k \<in> K" for k v' y
      using member_key_inject [OF assms(3), of k] assms(2,4) that by blast
    moreover have "set_member_key (db_no db) key v x \<notin> K" using u(2) member_key_not_main(1) by blast
    ultimately show ?thesis using assms(1) member_key_not_side by (simp add: set_changed_def)
  qed
  moreover have "version_counter s \<le> version_counter s'" using assms(1) by (simp add: set_changed_def)
  ultimately show ?thesis using assms(5) by (auto simp: split_set_at_def members_at_def)
qed

text \<open>The destination after its metadata was read.\<close>

lemma target_meta:
  assumes "at_instant db view now" "cache_ok db view s" "valid_owner key" "set_in db view n s key x" "set_live now x = (e, S)"
    and "n < max_members" "versions_left db k s"
    and "snd x \<noteq> {} \<longrightarrow> (\<exists>v. split_set_at (view (engine s)) (db_no db) (version_counter s) key (fst x) v (snd x))"
  obtains s' v where "set_meta_of db key s = (Inr (if S = {} then None else Some (split_meta e v S)), s')"
    "set_step db view {key} k s s'" "set_in db view n s' key (e, S)"
    "S \<noteq> {} \<longrightarrow> split_set_at (view (engine s')) (db_no db) (version_counter s') key e v S"
proof (cases "S = {}")
  case True
  show ?thesis by (rule set_meta_cases [OF assms(1-7)]) (use that True in auto)
next
  case False
  then have x: "x = (e, S)" "e = 0 \<or> now < e" using assms(5) by (auto simp: set_live_def split: if_splits)
  then obtain v where v: "split_set_at (view (engine s)) (db_no db) (version_counter s) key e v S" using assms(8) False by auto
  have at: "set_in db view n s key (e, S)" using assms(4) x(1) by simp
  show ?thesis
    using that [of v s] set_meta_split [OF assms(1) at assms(6) x(2) v] False v at set_step_refl [OF assms(2,7)] by (simp add: split_meta_def)
qed

text \<open>Both keys leave the packed form, and the metadata of the source is read.\<close>

lemma move_prepare_run:
  assumes "at_instant db view now" "cache_ok db view s" "valid_owner source" "valid_owner target" "source \<noteq> target"
    and "set_in db view n s source xs" "set_live now xs = (es, Ss)" "set_in db view n s target xt"
    and "n < max_members" "versions_left db (Suc (Suc (Suc k))) s"
  obtains s1 s2 s3 v where "promote_packed_set db source s = (Inr (), s1)" "promote_packed_set db target s1 = (Inr (), s2)"
    "set_meta_of db source s2 = (Inr (if Ss = {} then None else Some (split_meta es v Ss)), s3)" "set_step db view {source, target} (Suc k) s s3"
    "set_in db view n s3 source (es, Ss)" "Ss \<noteq> {} \<longrightarrow> split_set_at (view (engine s3)) (db_no db) (version_counter s3) source es v Ss"
    "set_in db view n s3 target xt"
    "snd xt \<noteq> {} \<longrightarrow> (\<exists>v. split_set_at (view (engine s3)) (db_no db) (version_counter s3) target (fst xt) v (snd xt))"
proof -
  let ?d = "db_no db"
  obtain ex Sx where xs: "xs = (ex, Sx)" by force
  obtain ey Sy where xt: "xt = (ey, Sy)" by force
  have at0: "set_in db view n s source (ex, Sx)" "set_in db view n s target (ey, Sy)" using assms(6,8) xs xt by simp_all
  obtain s1 where s1: "promote_packed_set db source s = (Inr (), s1)" "set_step db view {source} (Suc (Suc k)) s s1" "set_in db view n s1 source (ex, Sx)"
    "Sx \<noteq> {} \<Longrightarrow> \<exists>v. split_set_at (view (engine s1)) ?d (version_counter s1) source ex v Sx"
    using promote_set_run [OF assms(1-3) at0(1) assms(9,10)] by metis
  have c1: "set_changed db view {source} s s1" using s1(2) by (simp add: set_step_def)
  have t1: "set_in db view n s1 target (ey, Sy)"
    using set_changed_other [OF c1 _ assms(4) _ at0(2)] assms(3,5) by simp
  obtain s2 where s2: "promote_packed_set db target s1 = (Inr (), s2)" "set_step db view {target} (Suc k) s1 s2" "set_in db view n s2 target (ey, Sy)"
    "Sy \<noteq> {} \<Longrightarrow> \<exists>v. split_set_at (view (engine s2)) ?d (version_counter s2) target ey v Sy"
    using promote_set_run [OF assms(1) set_step_cache [OF s1(2)] assms(4) t1 assms(9) set_step_left [OF s1(2)]] by metis
  have c2: "set_changed db view {target} s1 s2" using s2(2) by (simp add: set_step_def)
  have src2: "set_in db view n s2 source (ex, Sx)" "Sx \<noteq> {} \<Longrightarrow> \<exists>v. split_set_at (view (engine s2)) ?d (version_counter s2) source ex v Sx"
    using set_changed_other [OF c2 _ assms(3) _ s1(3)] set_changed_split [OF c2 _ assms(3)] s1(4) assms(4,5) by auto
  have st2: "set_step db view {source, target} (Suc k) s s2" using set_step_trans [OF s1(2) s2(2)] by blast
  have l: "set_live now (ex, Sx) = (es, Ss)" using assms(7) xs by simp
  have sp2: "snd (ex, Sx) \<noteq> {} \<longrightarrow> (\<exists>v. split_set_at (view (engine s2)) ?d (version_counter s2) source (fst (ex, Sx)) v (snd (ex, Sx)))"
    using src2(2) by simp
  obtain s3 v where s3: "set_meta_of db source s2 = (Inr (if Ss = {} then None else Some (split_meta es v Ss)), s3)"
    "set_step db view {source} (Suc k) s2 s3" "set_in db view n s3 source (es, Ss)"
    "Ss \<noteq> {} \<longrightarrow> split_set_at (view (engine s3)) ?d (version_counter s3) source es v Ss"
    by (rule target_meta [OF assms(1) set_step_cache [OF st2] assms(3) src2(1) l assms(9) set_step_left [OF st2] sp2]) (erule (3) that)
  have c3: "set_changed db view {source} s2 s3" using s3(2) by (simp add: set_step_def)
  have "set_in db view n s3 target (ey, Sy)" "Sy \<noteq> {} \<Longrightarrow> \<exists>v. split_set_at (view (engine s3)) ?d (version_counter s3) target ey v Sy"
    using set_changed_other [OF c3 _ assms(4) _ s2(3)] set_changed_split [OF c3 _ assms(4)] s2(4) assms(3,5) by auto
  moreover have "set_step db view {source, target} (Suc k) s s3" using set_step_trans [OF st2 s3(2)] by blast
  ultimately show ?thesis using that [OF s1(1) s2(1) s3(1) _ s3(3,4)] xt by simp
qed

lemma set_move_run:
  assumes "at_instant db view now" "cache_ok db view s" "valid_owner source" "valid_owner target" "source \<noteq> target"
    and "set_in db view n s source xs" "set_live now xs = (es, Ss)" "set_in db view n s target xt" "set_live now xt = (et, St)"
    and "n + 1 < max_members" "versions_left db (Suc (Suc (Suc k))) s"
  obtains s' where "set_move_async db source target y s = (Inr (y \<in> Ss), s')" "set_step db view {source, target} k s s'"
    "set_in db view (n + 1) s' source (if y \<in> Ss then set_norm es (Ss - {y}) else (es, Ss))"
    "set_in db view (n + 1) s' target (if y \<in> Ss then (et, insert y St) else if Ss = {} then xt else (et, St))"
proof -
  let ?K = "{source, target}" and ?d = "db_no db"
  have n: "n < max_members" using assms(10) by simp
  obtain s1 s2 s3 vs where s3: "promote_packed_set db source s = (Inr (), s1)" "promote_packed_set db target s1 = (Inr (), s2)"
    "set_meta_of db source s2 = (Inr (if Ss = {} then None else Some (split_meta es vs Ss)), s3)" "set_step db view ?K (Suc k) s s3"
    "set_in db view n s3 source (es, Ss)" "Ss \<noteq> {} \<longrightarrow> split_set_at (view (engine s3)) ?d (version_counter s3) source es vs Ss"
    "set_in db view n s3 target xt"
    "snd xt \<noteq> {} \<longrightarrow> (\<exists>v. split_set_at (view (engine s3)) ?d (version_counter s3) target (fst xt) v (snd xt))"
    by (rule move_prepare_run [OF assms(1-8) n assms(11)]) (erule (7) that)
  show ?thesis
  proof (cases "Ss = {}")
    case True
    have "set_move_async db source target y s = (Inr False, s3)"
      using s3(1-3) assms(5) True by (simp add: set_move_async_def and_then_def return_def)
    then show ?thesis
      using that [of s3] True set_step_mono [OF s3(4), of k] set_at_bound [OF s3(5), of "n + 1"] set_at_bound [OF s3(7), of "n + 1"] by simp
  next
    case False
    obtain s4 vt where s4: "set_meta_of db target s3 = (Inr (if St = {} then None else Some (split_meta et vt St)), s4)"
      "set_step db view {target} (Suc k) s3 s4" "set_in db view n s4 target (et, St)"
      "St \<noteq> {} \<longrightarrow> split_set_at (view (engine s4)) ?d (version_counter s4) target et vt St"
      by (rule target_meta [OF assms(1) set_step_cache [OF s3(4)] assms(4) s3(7) assms(9) n set_step_left [OF s3(4)] s3(8)]) (erule (3) that)
    have c4: "set_changed db view {target} s3 s4" using s4(2) by (simp add: set_step_def)
    have src4: "set_in db view n s4 source (es, Ss)" "split_set_at (view (engine s4)) ?d (version_counter s4) source es vs Ss"
      using set_changed_other [OF c4 _ assms(3) _ s3(5)] set_changed_split [OF c4 _ assms(3) _ s3(6) [rule_format, OF False]] assms(4,5) by simp_all
    have st4: "set_step db view ?K (Suc k) s s4" using set_step_trans [OF s3(4) s4(2)] by blast
    have "view (engine s4) (set_member_key ?d source vs y) \<noteq> None \<longleftrightarrow> y \<in> Ss" using src4(2) by (simp only: split_set_at_def members_at_def)
    then have here: "contains_key db (set_member_key ?d source vs y) s4 = (Inr (y \<in> Ss), s4)"
      by (simp add: contains_key_def and_then_def db_get_run [OF at_instant_contract [OF assms(1)]] return_def)
    have run: "set_move_async db source target y s = (if y \<in> Ss
        then set_move_found db source target y (split_meta es vs Ss) (if St = {} then None else Some (split_meta et vt St)) else return False) s4"
      using s3(1-3) assms(5) False s4(1) here by (simp add: set_move_async_def and_then_def split_meta_def)
    show ?thesis
    proof (cases "y \<in> Ss")
      case True
      obtain s' where s': "set_move_found db source target y (split_meta es vs Ss) (if St = {} then None else Some (split_meta et vt St)) s4 = (Inr True, s')"
        "set_step db view ?K k s4 s'" "set_in db view (n + 1) s' source (set_norm es (Ss - {y}))" "set_in db view (n + 1) s' target (et, insert y St)"
        using set_move_found_run [OF assms(1) set_step_cache [OF st4] assms(3-5) src4 True s4(3) s4(4) [rule_format] assms(10) set_step_left [OF st4]] by blast
      show ?thesis using that [of s'] run s' True set_step_trans [OF st4 s'(2)] by simp
    next
      case noty: False
      have "set_in db view (n + 1) s4 source (es, Ss)" "set_in db view (n + 1) s4 target (et, St)"
        using set_at_bound [OF src4(1), of "n + 1"] set_at_bound [OF s4(3), of "n + 1"] by simp_all
      then show ?thesis using that [of s4] run noty False set_step_mono [OF st4, of k] by (simp add: return_def)
    qed
  qed
qed

end
