(* ===== verification/Set_Union.thy ===== *)
theory Set_Union
  imports Set_Move
begin

text \<open>SUNION, SUNIONSTORE, and the deletion of a set that SUNIONSTORE begins with.\<close>

section \<open>Deletion\<close>

lemma delete_key_run:
  assumes "at_instant db view now" "cache_ok db view s" "valid_owner key" "set_in db view n s key x" "n < max_members" "versions_left db k s"
  obtains s' r where "delete_key_internal_async db key True s = (Inr r, s')" "set_step db view {key} k s s'" "set_in db view n s' key (0, {})"
proof -
  note finish = that
  obtain e S where x: "x = (e, S)" by force
  let ?d = "db_no db" and ?m = "view (engine s)"
  have at: "set_at ?m ?d (version_counter s) n key e S" and u: "utf8_valid key" using assms(3,4) x by (simp_all add: valid_owner_def)
  note get = db_get_run [OF at_instant_contract [OF assms(1)]] and mk = at_instant_key [OF assms(1)]
  have ret: "delete_key_round db key True s = (Inr (Some r), s') \<Longrightarrow> delete_key_internal_async db key True s = (Inr r, s')" for r s'
    unfolding delete_key_internal_async_def by (rule retry_done)
  have drop: thesis if h: "?m key = Some raw" "decode_meta_header raw = Some \<lparr>mh_expire_ms = e, mh_version = w, mh_type_tag = TYPE_SET\<rparr>" for raw w
  proof -
    obtain upper where up: "\<And>batch. delete_sub_keys_to_batch_bytes batch ?d key w TYPE_SET = Some (batch @ [(RangeDelete, set_member_prefix ?d key w, upper)])"
      "\<And>z. set_member_prefix ?d key w \<le> z \<and> z < upper \<longleftrightarrow> (\<exists>y. z = set_member_key ?d key w y)"
      using set_range_delete [of ?d key w] by metis
    let ?drop = "remove_known_to_batch [(Delete, key, [])] e ?d key" and ?range = "(RangeDelete, set_member_prefix ?d key w, upper)"
    let ?batch = "?drop @ [?range]"
    have wr: "delete_writes db key \<lparr>mh_expire_ms = e, mh_version = w, mh_type_tag = TYPE_SET\<rparr> = Inr ?batch"
      using up(1) by (simp add: delete_writes_def mk type_tag_defs)
    have a: "apply_batch ?batch ?m z =
        (if z = key \<or> e \<noteq> 0 \<and> z = ttl_index_key e ?d key \<or> (\<exists>y. z = set_member_key ?d key w y) then None else ?m z)" for z
      using up(2) [of z] by (auto simp: apply_batch_append apply_batch_single drop_record_apply [OF u])
    have p: "apply_batch ?batch ?m key = None"
      "\<And>v y. apply_batch ?batch ?m (set_member_key ?d key v y) = None \<or>
        apply_batch ?batch ?m (set_member_key ?d key v y) = ?m (set_member_key ?d key v y)"
      "\<And>e'. apply_batch ?batch ?m (ttl_index_key e' ?d key) = (if e' \<noteq> 0 \<and> e' = e then None else ?m (ttl_index_key e' ?d key))"
      using member_key_not_index(2) key_apart_index [OF u] ttl_index_key_inject [OF u u] unfolding a by auto
    have "set_op ?d {key} ?range" using up(2) by (auto simp: set_op_def)
    then have ops: "list_all (set_op ?d {key}) ?batch" using drop_record_ops [of ?d key e] by simp
    have b: "?batch \<noteq> []" "list_all plain_op ?batch" using ops by (auto simp: list_all_iff set_op_def)
    obtain s' where s': "committed db view ?batch s s'"
      "\<And>r :: bool. commit_round db [(key, Some raw)] ?batch 1 r s = (Inr (Some r), s'\<lparr>changes := changes s' + 1\<rparr>)"
      using compare_commit [where batch = ?batch, OF assms(1,2) b h(1)] by blast
    have old: "set_in db view n s key (e, S)" using at by simp
    note k1 = set_commit_drop(1) [OF s'(1) ops u old assms(5) p assms(6), of "changes s' + 1"]
      and k2 = set_commit_drop(2) [OF s'(1) ops u old assms(5) p assms(6), of n]
    have "delete_key_round db key True s = (Inr (Some True), s'\<lparr>changes := changes s' + 1\<rparr>)"
      using h wr s'(2) by (simp add: delete_key_round_def and_then_def get mk)
    then show thesis using finish [OF ret] k1 k2 by simp
  qed
  show ?thesis
  proof (rule set_layout [OF at assms(5)])
    assume "S = {}" "e = 0" "?m key = None"
    then show thesis
      using finish [of False s] ret [of False s] at set_step_refl [OF assms(2,6)] by (simp add: delete_key_round_def and_then_def get mk return_def)
  qed (use drop in blast)+
qed

section \<open>Families of sets\<close>

definition sets_in :: "('w, 'e) db \<Rightarrow> ('w \<Rightarrow> bytes \<rightharpoonup> bytes) \<Rightarrow> nat \<Rightarrow> 'w db_state \<Rightarrow> bytes set \<Rightarrow> (bytes \<Rightarrow> set_entry) \<Rightarrow> bool" where
  "sets_in db view n s U A \<longleftrightarrow> (\<forall>k \<in> U. valid_owner k \<and> set_in db view n s k (A k))"

lemma sets_in_step:
  assumes "sets_in db view n s U A" "set_step db view K k s s'" "K \<subseteq> U" "n \<le> n'"
    and "\<And>k. k \<in> K \<Longrightarrow> set_in db view n' s' k (A' k)" "\<And>k. k \<in> U \<Longrightarrow> k \<notin> K \<Longrightarrow> A' k = A k"
  shows "sets_in db view n' s' U A'"
  unfolding sets_in_def
proof (intro ballI conjI)
  fix k assume k: "k \<in> U"
  show v: "valid_owner k" using assms(1) k by (simp add: sets_in_def)
  show "set_in db view n' s' k (A' k)"
  proof (cases "k \<in> K")
    case False
    have c: "set_changed db view K s s'" "\<forall>j \<in> K. valid_owner j" using assms(1-3) by (auto simp: set_step_def sets_in_def)
    have "set_in db view n s k (A k)" using assms(1) k by (simp add: sets_in_def)
    then have "set_in db view n s' k (A k)" by (rule set_changed_other [OF c v False])
    then show ?thesis using set_at_bound [OF _ assms(4)] assms(6) [OF k False] by simp
  qed (use assms(5) in blast)
qed

lemma sets_in_step1:
  assumes "sets_in db view n s U A" "set_step db view {key} k s s'" "key \<in> U" "n \<le> n'" "set_in db view n' s' key x"
  shows "sets_in db view n' s' U (A(key := x))"
  using assms by (intro sets_in_step [OF assms(1,2)]) auto

section \<open>SUNION\<close>

definition live_sets :: "u64 \<Rightarrow> bytes set \<Rightarrow> (bytes \<Rightarrow> set_entry) \<Rightarrow> bytes \<Rightarrow> set_entry" where
  "live_sets now K A k = (if k \<in> K then set_live now (A k) else A k)"

lemma set_union_from_run:
  assumes "at_instant db view now" "n < max_members"
  shows "cache_ok db view s \<Longrightarrow> sets_in db view n s U A \<Longrightarrow> set ks \<subseteq> U \<Longrightarrow> versions_left db k s \<Longrightarrow> distinct r \<Longrightarrow>
    \<exists>s' r'. set_union_from db ks r s = (Inr r', s') \<and> distinct r' \<and> set r' = set r \<union> (\<Union>k \<in> set ks. snd (set_live now (A k))) \<and>
      set_step db view (set ks) k s s' \<and> sets_in db view n s' U (live_sets now (set ks) A)"
proof (induction ks arbitrary: s r A)
  case Nil
  have "live_sets now {} A = A" by (simp add: live_sets_def fun_eq_iff)
  then show ?case using Nil.prems by (simp add: return_def set_step_refl)
next
  case (Cons key ks)
  have key: "key \<in> U" "valid_owner key" "set_in db view n s key (A key)" using Cons.prems(2,3) by (auto simp: sets_in_def)
  obtain e S where l: "set_live now (A key) = (e, S)" by force
  obtain s1 where s1: "set_member_set_async db key s = (Inr (if S = {} then None else Some (sorted_list_of_set S)), s1)"
    "set_step db view {key} k s s1" "set_in db view n s1 key (e, S)"
    using set_member_set_run [OF assms(1) Cons.prems(1) key(2,3) l assms(2) Cons.prems(4)] .
  have fin: "finite S" using s1(3) by (simp add: set_at_def set_ok_def)
  have in1: "sets_in db view n s1 U (A(key := set_live now (A key)))"
    using sets_in_step1 [OF Cons.prems(2) s1(2) key(1) order_refl s1(3)] l by simp
  let ?r = "distinct_keys (r @ (if S = {} then [] else sorted_list_of_set S))"
  have r: "distinct ?r" "set ?r = set r \<union> S" using distinct_keys_spec [of "r @ (if S = {} then [] else sorted_list_of_set S)"] fin by auto
  have sub: "set ks \<subseteq> U" using Cons.prems(3) by simp
  obtain s' r' where s': "set_union_from db ks ?r s1 = (Inr r', s')" "distinct r'"
    "set r' = set ?r \<union> (\<Union>k \<in> set ks. snd (set_live now ((A(key := set_live now (A key))) k)))" "set_step db view (set ks) k s1 s'"
    "sets_in db view n s' U (live_sets now (set ks) (A(key := set_live now (A key))))"
    using Cons.IH [OF set_step_cache [OF s1(2)] in1 sub set_step_left [OF s1(2)] r(1)] by blast
  have "live_sets now (set ks) (A(key := set_live now (A key))) = live_sets now (set (key # ks)) A"
    by (auto simp: live_sets_def fun_eq_iff)
  moreover have "set r' = set r \<union> (\<Union>k \<in> set (key # ks). snd (set_live now (A k)))"
  proof -
    have "set_live now ((A(key := set_live now (A key))) j) = set_live now (A j)" for j by simp
    then have "set r' = set ?r \<union> (\<Union>k \<in> set ks. snd (set_live now (A k)))" using s'(3) by (simp only:)
    then show ?thesis using r(2) l by simp blast
  qed
  moreover have "set_union_from db (key # ks) r s = (Inr r', s')"
    using s1(1) s'(1) by (cases "S = {}") (simp_all add: and_then_def)
  moreover have "set_step db view (set (key # ks)) k s s'" using set_step_trans [OF s1(2) s'(4)] by auto
  ultimately show ?case using s'(2,5) by auto
qed

lemma card_union_bound:
  assumes "sets_in db view n s U A" "set ks \<subseteq> U"
  shows "card (\<Union>k \<in> set ks. snd (set_live now (A k))) \<le> n * length ks"
proof -
  have "card (\<Union>k \<in> set ks. snd (set_live now (A k))) \<le> (\<Sum>k \<in> set ks. card (snd (set_live now (A k))))"
    by (rule card_UN_le) simp
  also have "\<dots> \<le> (\<Sum>k \<in> set ks. n)"
    using assms by (intro sum_mono) (auto simp: sets_in_def set_at_def set_ok_def set_live_def)
  also have "\<dots> \<le> n * length ks" using card_length [of ks] by simp
  finally show ?thesis .
qed

lemma set_union_store_run:
  assumes "at_instant db view now" "n + n * length ks < max_members" "cache_ok db view s" "sets_in db view n s U A" "set ks \<subseteq> U" "target \<in> U"
    and "versions_left db (Suc k) s"
  defines "T \<equiv> (\<Union>k \<in> set ks. snd (set_live now (A k)))"
  shows "\<exists>s'. set_union_store_async db target ks s = (Inr (card T), s') \<and> set_step db view (insert target (set ks)) k s s' \<and>
    sets_in db view (n + n * length ks) s' U ((live_sets now (set ks) A)(target := (0, T)))"
proof -
  let ?A = "live_sets now (set ks) A" and ?n = "n + n * length ks"
  have n: "n < max_members" using assms(2) by simp
  obtain s1 ms where s1: "set_union_from db ks [] s = (Inr ms, s1)" "distinct ms" "set ms = T" "set_step db view (set ks) (Suc k) s s1"
    "sets_in db view n s1 U ?A"
    using set_union_from_run [OF assms(1) n assms(3-5,7), of "[]"] by (auto simp: T_def)
  have t1: "valid_owner target" "set_in db view n s1 target (?A target)" using s1(5) assms(6) by (auto simp: sets_in_def)
  obtain s2 b where s2: "delete_key_internal_async db target True s1 = (Inr b, s2)" "set_step db view {target} (Suc k) s1 s2" "set_in db view n s2 target (0, {})"
    by (rule delete_key_run [OF assms(1) set_step_cache [OF s1(4)] t1 n set_step_left [OF s1(4)]]) (erule (2) that)
  have len: "length ms = card T" "card T \<le> n * length ks"
    using distinct_card [OF s1(2)] s1(3) card_union_bound [OF assms(4,5), of now] by (simp_all add: T_def [symmetric])
  have st2: "set_step db view (insert target (set ks)) (Suc k) s s2" using set_step_trans [OF s1(4) s2(2)] by auto
  have in2: "sets_in db view n s2 U (?A(target := (0, {})))" using sets_in_step1 [OF s1(5) s2(2) assms(6) order_refl s2(3)] .
  show ?thesis
  proof (cases "ms = []")
    case True
    then have T: "T = {}" using s1(3) by simp
    have "sets_in db view ?n s2 U (?A(target := (0, T)))"
      using in2 T set_at_bound [of _ _ _ n _ _ _ ?n] by (auto simp: sets_in_def)
    moreover have "set_union_store_async db target ks s = (Inr (card T), s2)"
      using s1(1) s2(1) True T by (simp add: set_union_store_async_def set_union_async_def set_store_members_async_def and_then_def return_def)
    ultimately show ?thesis using set_step_mono [OF st2, of k] by auto
  next
    case False
    have u: "\<forall>y \<in> set ms. utf8_valid y"
    proof
      fix y assume "y \<in> set ms"
      then obtain j where j: "j \<in> set ks" "y \<in> snd (set_live now (A j))" using s1(3) by (auto simp: T_def)
      then have "set_in db view n s j (A j)" using assms(4,5) by (auto simp: sets_in_def)
      then show "utf8_valid y" using j(2) by (auto simp: set_at_def set_ok_def set_live_def split: if_splits)
    qed
    have lim: "n + length ms < max_members" using len assms(2) by simp
    obtain s' where s': "set_add_async db target ms s2 = (Inr (card (set ms - {})), s')" "set_step db view {target} k s2 s'"
      "set_in db view (n + length ms) s' target (0, {} \<union> set ms)"
      using set_add_run [OF assms(1) set_step_cache [OF st2] t1(1) s2(3) _ u lim set_step_left [OF st2], where e = 0 and S = "{}"]
      by (auto simp: set_live_def)
    have "set_in db view ?n s' target (0, T)" using set_at_bound [OF s'(3), of ?n] len s1(3) by simp
    then have "sets_in db view ?n s' U ((?A(target := (0, {})))(target := (0, T)))"
      by (intro sets_in_step1 [OF in2 s'(2) assms(6)]) simp_all
    moreover have "set_union_store_async db target ks s = (Inr (card T), s')"
      using s1(1) s2(1) s'(1) False len(1)
      by (simp add: set_union_store_async_def set_union_async_def set_store_members_async_def and_then_def return_def)
    moreover have "set_step db view (insert target (set ks)) k s s'" using set_step_trans [OF st2 s'(2)] by auto
    ultimately show ?thesis by auto
  qed
qed

end
