(* ===== verification/Set_Properties.thy ===== *)
theory Set_Properties
  imports Set_Union String_Model Assoc_Store
begin

text \<open>
  The set commands as operations on mathematical sets. A command runs at an instant; between two commands any time may pass.
\<close>

section \<open>Commands\<close>

datatype set_command =
    S_Add bytes "bytes list"
  | S_Rem bytes "bytes list"
  | S_IsMember bytes bytes
  | S_MIsMember bytes "bytes list"
  | S_Card bytes
  | S_Members bytes
  | S_Move bytes bytes bytes
  | S_Union "bytes list"
  | S_UnionStore bytes "bytes list"

text \<open>Replies; the union comes in no particular order.\<close>

datatype set_answer = Count nat | Flag bool | Flags "bool list" | Listing "bytes list" | Collection "bytes set"

definition answer_with :: "('a \<Rightarrow> 'b) \<Rightarrow> ('w, 'e, 'a) action \<Rightarrow> ('w, 'e, 'b) action" where
  "answer_with f a = and_then a (\<lambda>x. return (f x))"

fun run_set_command :: "('w, 'e) db \<Rightarrow> set_command \<Rightarrow> ('w, 'e, set_answer) action" where
  "run_set_command db (S_Add key members) = answer_with Count (set_add_async db key members)"
| "run_set_command db (S_Rem key members) = answer_with Count (set_remove_async db key members)"
| "run_set_command db (S_IsMember key member) = answer_with Flag (set_contains_async db key member)"
| "run_set_command db (S_MIsMember key members) = answer_with Flags (set_multi_contains_async db key members)"
| "run_set_command db (S_Card key) = answer_with Count (set_len_async db key)"
| "run_set_command db (S_Members key) = answer_with Listing (set_members_bounded db key MAX_ARRAY_ELEMENTS MAX_FRAME_BYTES)"
| "run_set_command db (S_Move source destination member) = answer_with Flag (set_move_async db source destination member)"
| "run_set_command db (S_Union keys) = answer_with (\<lambda>members. Collection (set members)) (set_union_async db keys)"
| "run_set_command db (S_UnionStore destination keys) = answer_with Count (set_union_store_async db destination keys)"

fun run_set_trace ::
  "('w, 'e) db \<Rightarrow> (u64 \<times> set_command) list \<Rightarrow> 'w db_state \<Rightarrow> ('e db_error + set_answer) list \<times> 'w db_state"
where
  "run_set_trace db [] s = ([], s)"
| "run_set_trace db ((now, c) # cs) s =
     (case run_set_command (at_time db now) c s of (reply, s') \<Rightarrow>
        case run_set_trace db cs s' of (replies, s'') \<Rightarrow> (reply # replies, s''))"

section \<open>The sets\<close>

fun set_spec :: "u64 \<Rightarrow> set_command \<Rightarrow> (bytes \<Rightarrow> set_entry) \<Rightarrow> ('e db_error + set_answer) \<times> (bytes \<Rightarrow> set_entry)" where
  "set_spec now (S_Add k ms) A =
     (case set_live now (A k) of (e, S) \<Rightarrow> (Inr (Count (card (set ms - S))), A(k := (e, S \<union> set ms))))"
| "set_spec now (S_Rem k ms) A =
     (case set_live now (A k) of (e, S) \<Rightarrow> (Inr (Count (card (S \<inter> set ms))), A(k := set_norm e (S - set ms))))"
| "set_spec now (S_IsMember k y) A = (Inr (Flag (y \<in> snd (set_live now (A k)))), A(k := set_live now (A k)))"
| "set_spec now (S_MIsMember k ys) A = (Inr (Flags (map (\<lambda>y. y \<in> snd (set_live now (A k))) ys)), A(k := set_live now (A k)))"
| "set_spec now (S_Card k) A = (Inr (Count (card (snd (set_live now (A k))))), A(k := set_live now (A k)))"
| "set_spec now (S_Members k) A =
     (case members_reply MAX_ARRAY_ELEMENTS MAX_FRAME_BYTES (snd (set_live now (A k))) of Inl e \<Rightarrow> Inl e | Inr l \<Rightarrow> Inr (Listing l),
      A(k := set_live now (A k)))"
| "set_spec now (S_Move source target y) A =
     (case (set_live now (A source), set_live now (A target)) of ((es, Ss), (et, St)) \<Rightarrow>
        if source = target then (Inr (Flag (y \<in> Ss)), A(source := (es, Ss)))
        else if y \<in> Ss then (Inr (Flag True), A(source := set_norm es (Ss - {y}), target := (et, insert y St)))
        else (Inr (Flag False), A(source := (es, Ss), target := if Ss = {} then A target else (et, St))))"
| "set_spec now (S_Union ks) A = (Inr (Collection (\<Union>k \<in> set ks. snd (set_live now (A k)))), live_sets now (set ks) A)"
| "set_spec now (S_UnionStore target ks) A =
     (let T = (\<Union>k \<in> set ks. snd (set_live now (A k))) in (Inr (Count (card T)), (live_sets now (set ks) A)(target := (0, T))))"

fun set_spec_trace ::
  "(u64 \<times> set_command) list \<Rightarrow> (bytes \<Rightarrow> set_entry) \<Rightarrow> ('e db_error + set_answer) list \<times> (bytes \<Rightarrow> set_entry)"
where
  "set_spec_trace [] A = ([], A)"
| "set_spec_trace ((now, c) # cs) A =
     (case set_spec now c A of (reply, A') \<Rightarrow> case set_spec_trace cs A' of (replies, A'') \<Rightarrow> (reply # replies, A''))"

text \<open>The keys of a command, its new members, and how far it can raise the number of members of a set.\<close>

fun set_command_keys :: "set_command \<Rightarrow> bytes set" where
  "set_command_keys (S_Add k _) = {k}"
| "set_command_keys (S_Rem k _) = {k}"
| "set_command_keys (S_IsMember k _) = {k}"
| "set_command_keys (S_MIsMember k _) = {k}"
| "set_command_keys (S_Card k) = {k}"
| "set_command_keys (S_Members k) = {k}"
| "set_command_keys (S_Move source target _) = {source, target}"
| "set_command_keys (S_Union ks) = set ks"
| "set_command_keys (S_UnionStore target ks) = insert target (set ks)"

fun set_command_ok :: "set_command \<Rightarrow> bool" where
  "set_command_ok (S_Add _ ms) = list_all utf8_valid ms"
| "set_command_ok _ = True"

fun members_bound :: "nat \<Rightarrow> set_command \<Rightarrow> nat" where
  "members_bound n (S_Add _ ms) = n + length ms"
| "members_bound n (S_Move _ _ _) = n + 1"
| "members_bound n (S_UnionStore _ ks) = n + n * length ks"
| "members_bound n _ = n"

lemma members_bound_ge: "n \<le> members_bound n c"
  by (cases c) simp_all

lemma members_bounds_ge: "n \<le> foldl members_bound n cs"
  by (induction cs rule: rev_induct) (auto intro: order_trans members_bound_ge)

section \<open>One command\<close>

lemmas answer_defs = answer_with_def and_then_def return_def

lemma set_step_widen: "set_step db view K k s s' \<Longrightarrow> K \<subseteq> U \<Longrightarrow> set_step db view U k s s'"
  using set_step_trans set_step_refl set_step_cache set_step_left by (metis order_refl)

definition set_simulates :: "('w, 'e) db \<Rightarrow> ('w \<Rightarrow> bytes \<rightharpoonup> bytes) \<Rightarrow> bytes set \<Rightarrow> nat \<Rightarrow> nat \<Rightarrow> set_command \<Rightarrow> 'w db_state \<Rightarrow>
    ('e db_error + set_answer) \<times> (bytes \<Rightarrow> set_entry) \<Rightarrow> bool" where
  "set_simulates db view U n k c s out \<longleftrightarrow>
     (\<exists>s'. run_set_command db c s = (fst out, s') \<and> set_step db view U k s s' \<and> sets_in db view n s' U (snd out))"

lemma simulates_one:
  assumes "sets_in db view n s U A" "key \<in> U" "n \<le> n'" "run_set_command db c s = (r, s')" "set_step db view {key} k s s'"
    and "set_in db view n' s' key x"
  shows "set_simulates db view U n' k c s (r, A(key := x))"
  using sets_in_step1 [OF assms(1,5,2,3,6)] assms(4) set_step_widen [OF assms(5), of U] assms(2)
  unfolding set_simulates_def by auto

lemma set_owner:
  assumes "sets_in db view n s U A" "key \<in> U"
  shows "valid_owner key" "set_in db view n s key (A key)"
  using assms by (auto simp: sets_in_def)

lemma set_writes_simulate:
  fixes db :: "('w, 'e) db"
  assumes "at_instant db view now" "cache_ok db view s" "sets_in db view n s U A" "key \<in> U" "versions_left db (Suc k) s"
  shows "\<lbrakk>list_all utf8_valid ms; n + length ms < max_members\<rbrakk> \<Longrightarrow>
      set_simulates db view U (n + length ms) k (S_Add key ms) s (set_spec now (S_Add key ms) A)"
    and "n < max_members \<Longrightarrow> set_simulates db view U n k (S_Rem key ms) s (set_spec now (S_Rem key ms) A)"
proof -
  note key = set_owner [OF assms(3,4)]
  obtain e S where l: "set_live now (A key) = (e, S)" by force
  show "set_simulates db view U (n + length ms) k (S_Add key ms) s (set_spec now (S_Add key ms) A)"
    if "list_all utf8_valid ms" and b: "n + length ms < max_members"
  proof -
    have u: "\<forall>x \<in> set ms. utf8_valid x" using that by (simp add: list_all_iff)
    obtain s' where s': "set_add_async db key ms s = (Inr (card (set ms - S)), s')" "set_step db view {key} k s s'"
      "set_in db view (n + length ms) s' key (e, S \<union> set ms)"
      using set_add_run [OF assms(1,2) key l u b assms(5)] .
    have "run_set_command db (S_Add key ms) s = (Inr (Count (card (set ms - S))), s')" using s'(1) by (simp add: answer_defs)
    then show ?thesis using simulates_one [OF assms(3,4) _ _ s'(2,3)] l by simp
  qed
  show "set_simulates db view U n k (S_Rem key ms) s (set_spec now (S_Rem key ms) A)" if n: "n < max_members"
  proof -
    obtain s' where s': "set_remove_async db key ms s = (Inr (card (S \<inter> set ms)), s')" "set_step db view {key} k s s'"
      "set_in db view n s' key (set_norm e (S - set ms))"
      using set_remove_run [OF assms(1,2) key l n versions_left_mono [OF assms(5), of k]] by auto
    have "run_set_command db (S_Rem key ms) s = (Inr (Count (card (S \<inter> set ms))), s')" using s'(1) by (simp add: answer_defs)
    then show ?thesis using simulates_one [OF assms(3,4) order_refl _ s'(2,3)] l by simp
  qed
qed

lemma set_reads_simulate:
  fixes db :: "('w, 'e) db"
  assumes "at_instant db view now" "cache_ok db view s" "sets_in db view n s U A" "key \<in> U" "n < max_members" "versions_left db k s"
    and c: "c = S_IsMember key y \<or> c = S_MIsMember key ys \<or> c = S_Card key \<or> c = S_Members key"
  shows "set_simulates db view U n k c s (set_spec now c A)"
proof -
  note key = set_owner [OF assms(3,4)]
  obtain e S where l: "set_live now (A key) = (e, S)" by force
  obtain s' where s': "run_set_command db c s = (fst (set_spec now c A :: ('e db_error + _) \<times> _), s')" "set_step db view {key} k s s'"
    "set_in db view n s' key (e, S)"
    using c
  proof (elim disjE)
    assume "c = S_IsMember key y"
    then show thesis
      using set_contains_run [OF assms(1,2) key l assms(5,6), of y thesis] that l by (simp add: answer_defs)
  next
    assume "c = S_MIsMember key ys"
    then show thesis
      using set_multi_contains_run [OF assms(1,2) key l assms(5,6), of ys thesis] that l by (simp add: answer_defs)
  next
    assume "c = S_Card key"
    then show thesis using set_len_run [OF assms(1,2) key l assms(5,6), of thesis] that l by (simp add: answer_defs)
  next
    assume c: "c = S_Members key"
    have "MAX_FRAME_BYTES \<le> usize_max" by (simp add: MAX_FRAME_BYTES_def)
    then obtain s' where s': "set_members_bounded db key MAX_ARRAY_ELEMENTS MAX_FRAME_BYTES s = (members_reply MAX_ARRAY_ELEMENTS MAX_FRAME_BYTES S, s')"
      "set_step db view {key} k s s'" "set_in db view n s' key (e, S)"
      using set_members_bounded_run [OF assms(1,2) key l assms(5,6)] by metis
    then show thesis using that [of s'] l c by (simp add: answer_defs split: sum.splits)
  qed
  have "snd (set_spec now c A :: ('e db_error + _) \<times> _) = A(key := (e, S))" using c l by auto
  then show ?thesis using simulates_one [OF assms(3,4) order_refl s'] by (metis prod.collapse)
qed

lemma set_move_simulates:
  fixes db :: "('w, 'e) db"
  assumes "at_instant db view now" "cache_ok db view s" "sets_in db view n s U A" "i \<in> U" "j \<in> U" "n + 1 < max_members"
    and "versions_left db (Suc (Suc (Suc k))) s"
  shows "set_simulates db view U (n + 1) k (S_Move i j y) s (set_spec now (S_Move i j y) A)"
proof -
  note key = set_owner [OF assms(3,4)] and key' = set_owner [OF assms(3,5)]
  have n: "n < max_members" using assms(6) by simp
  obtain es Ss where l: "set_live now (A i) = (es, Ss)" by force
  obtain et St where l': "set_live now (A j) = (et, St)" by force
  show ?thesis
  proof (cases "i = j")
    case True
    have "versions_left db k s" using versions_left_mono [OF assms(7), of k] by simp
    then obtain s' where s': "set_contains_async db i y s = (Inr (y \<in> Ss), s')" "set_step db view {i} k s s'" "set_in db view n s' i (es, Ss)"
      using set_contains_run [OF assms(1,2) key l n] by blast
    have "run_set_command db (S_Move i j y) s = (Inr (Flag (y \<in> Ss)), s')" using s'(1) True by (simp add: answer_defs set_move_async_def)
    moreover have "set_in db view (n + 1) s' i (es, Ss)" using set_at_bound [OF s'(3), of "n + 1"] by simp
    ultimately show ?thesis using simulates_one [OF assms(3,4) _ _ s'(2)] l True by simp
  next
    case False
    obtain s' where s': "set_move_async db i j y s = (Inr (y \<in> Ss), s')" "set_step db view {i, j} k s s'"
      "set_in db view (n + 1) s' i (if y \<in> Ss then set_norm es (Ss - {y}) else (es, Ss))"
      "set_in db view (n + 1) s' j (if y \<in> Ss then (et, insert y St) else if Ss = {} then A j else (et, St))"
      using set_move_run [OF assms(1,2) key(1) key'(1) False key(2) l key'(2) l' assms(6,7)] .
    have r: "run_set_command db (S_Move i j y) s = (Inr (Flag (y \<in> Ss)), s')" using s'(1) by (simp add: answer_defs)
    let ?A = "A(i := if y \<in> Ss then set_norm es (Ss - {y}) else (es, Ss), j := if y \<in> Ss then (et, insert y St) else if Ss = {} then A j else (et, St))"
    have "sets_in db view (n + 1) s' U ?A"
      by (rule sets_in_step [OF assms(3) s'(2)]) (use s'(3,4) False assms(4,5) in auto)
    moreover have "set_step db view U k s s'" using set_step_widen [OF s'(2), of U] assms(4,5) by simp
    moreover have "(set_spec now (S_Move i j y) A :: ('e db_error + _) \<times> _) = (Inr (Flag (y \<in> Ss)), ?A)" using l l' False by simp
    ultimately show ?thesis using r by (simp add: set_simulates_def)
  qed
qed

lemma set_unions_simulate:
  fixes db :: "('w, 'e) db"
  assumes "at_instant db view now" "cache_ok db view s" "sets_in db view n s U A" "set ks \<subseteq> U" "versions_left db (Suc k) s"
  shows "n < max_members \<Longrightarrow> set_simulates db view U n k (S_Union ks) s (set_spec now (S_Union ks) A)"
    and "\<lbrakk>j \<in> U; n + n * length ks < max_members\<rbrakk> \<Longrightarrow>
      set_simulates db view U (n + n * length ks) k (S_UnionStore j ks) s (set_spec now (S_UnionStore j ks) A)"
proof -
  let ?T = "\<Union>k \<in> set ks. snd (set_live now (A k))"
  show "set_simulates db view U n k (S_Union ks) s (set_spec now (S_Union ks) A)" if n: "n < max_members"
  proof -
    have "versions_left db k s" using versions_left_mono [OF assms(5), of k] by simp
    then obtain s' r where s': "set_union_from db ks [] s = (Inr r, s')" "set r = ?T"
      "set_step db view (set ks) k s s'" "sets_in db view n s' U (live_sets now (set ks) A)"
      using set_union_from_run [OF assms(1) n assms(2-4), of k "[]"] by auto
    then show ?thesis
      using set_step_widen [OF s'(3), of U] assms(4) by (simp add: set_simulates_def set_union_async_def answer_defs)
  qed
  show "set_simulates db view U (n + n * length ks) k (S_UnionStore j ks) s (set_spec now (S_UnionStore j ks) A)"
    if j: "j \<in> U" and b: "n + n * length ks < max_members"
  proof -
    obtain s' where s': "set_union_store_async db j ks s = (Inr (card ?T), s')" "set_step db view (insert j (set ks)) k s s'"
      "sets_in db view (n + n * length ks) s' U ((live_sets now (set ks) A)(j := (0, ?T)))"
      using set_union_store_run [OF assms(1) b assms(2-4) j assms(5)] by blast
    then show ?thesis
      using set_step_widen [OF s'(2), of U] assms(4) j by (simp add: set_simulates_def Let_def answer_defs)
  qed
qed

lemma set_command_simulates:
  fixes db :: "('w, 'e) db"
  assumes "at_instant db view now" "cache_ok db view s" "sets_in db view n s U A" "set_command_keys c \<subseteq> U" "set_command_ok c"
    and "members_bound n c < max_members" "versions_left db (k + 3) s"
  shows "set_simulates db view U (members_bound n c) k c s (set_spec now c A)"
proof -
  have vl: "versions_left db k s" "versions_left db (Suc k) s" "versions_left db (Suc (Suc (Suc k))) s"
    using versions_left_mono [OF assms(7)] by (simp_all add: eval_nat_numeral)
  have n: "n < max_members" using members_bound_ge [of n c] assms(6) by simp
  note writes = set_writes_simulate [OF assms(1-3) _ vl(2)] and reads = set_reads_simulate [OF assms(1-3) _ n vl(1)]
    and moves = set_move_simulates [OF assms(1-3) _ _ _ vl(3)] and unions = set_unions_simulate [OF assms(1-3) _ vl(2)]
  show ?thesis
  proof (cases c)
    case (S_Add key ms)
    then show ?thesis using writes(1) [of key ms] assms(4-6) by (simp del: set_spec.simps)
  next
    case (S_Rem key ms)
    then show ?thesis using writes(2) [of key ms] assms(4) n by (simp del: set_spec.simps)
  next
    case (S_Move i j y)
    then show ?thesis using moves [of i j y] assms(4,6) by (simp del: set_spec.simps)
  next
    case (S_Union ks)
    then show ?thesis using unions(1) [of ks] assms(4) n by (simp del: set_spec.simps)
  next
    case (S_UnionStore j ks)
    then show ?thesis using unions(2) [of ks j] assms(4,6) by (simp del: set_spec.simps)
  next
    case (S_IsMember key y)
    then show ?thesis using reads [of key c y] assms(4) by (simp del: set_spec.simps)
  next
    case (S_MIsMember key ys)
    then show ?thesis using reads [of key c _ ys] assms(4) by (simp del: set_spec.simps)
  next
    case (S_Card key)
    then show ?thesis using reads [of key c] assms(4) by (simp del: set_spec.simps)
  next
    case (S_Members key)
    then show ?thesis using reads [of key c] assms(4) by (simp del: set_spec.simps)
  qed
qed

section \<open>Sequences of commands\<close>

lemma set_at_time [simp]:
  "versions_left (at_time db now) k s = versions_left db k s" "set_changed (at_time db now) view K s s' = set_changed db view K s s'"
  "sets_in (at_time db now) view n s U A = sets_in db view n s U A" "cache_ok (at_time db now) view s = cache_ok db view s"
  by (simp_all add: at_time_def versions_left_def set_changed_def sets_in_def cache_ok_def)

text \<open>C9: The set commands refine mathematical sets with deadlines, in both layouts and across the changes between them. For every sequence of
  SADD, SREM, SISMEMBER, SMISMEMBER, SCARD, SMEMBERS, SMOVE, SUNION and SUNIONSTORE, each at an instant of its own, on keys that hold sets or
  nothing, the replies are those of the sets, the store afterwards has the sets that the operations give, records of other keys stay, and the
  index of deadlines stays exact. SMEMBERS answers an error exactly when the reply would exceed its limits.\<close>

theorem set_store_refines:
  fixes db :: "('w, 'e) db"
  assumes "serves db view" "fulltext_local (fulltext_delete db)" "cache_ok db view s" "sets_in db view n s U A"
    and "\<forall>(now, c) \<in> set cs. set_command_keys c \<subseteq> U \<and> set_command_ok c"
    and "foldl members_bound n (map snd cs) < max_members" "versions_left db (3 * length cs) s"
  shows "\<exists>s' A'. run_set_trace db cs s = (fst (set_spec_trace cs A), s') \<and> snd (set_spec_trace cs A :: ('e db_error + _) list \<times> _) = A' \<and>
    sets_in db view (foldl members_bound n (map snd cs)) s' U A' \<and> set_changed db view U s s'"
  using assms(3-)
proof (induction cs arbitrary: s n A)
  case Nil
  then show ?case by (simp add: set_changed_refl)
next
  case (Cons nc cs)
  obtain now c where nc: "nc = (now, c)" by force
  obtain reply :: "'e db_error + set_answer" and A1 where step: "set_spec now c A = (reply, A1)" by force
  have at: "at_instant (at_time db now) view now" using assms(1,2) by (simp add: at_time_def at_instant_def serves_def engine_contract_def)
  have c: "set_command_keys c \<subseteq> U" "set_command_ok c" using Cons.prems(3) nc by auto
  have b: "members_bound n c < max_members"
    using Cons.prems(4) members_bounds_ge [of "members_bound n c" "map snd cs"] by (simp add: nc)
  have v: "versions_left db (3 * length cs + 3) s" using Cons.prems(5) by (simp add: add.commute)
  have "set_simulates (at_time db now) view U (members_bound n c) (3 * length cs) c s (set_spec now c A)"
    using set_command_simulates [OF at _ _ c b, of s A "3 * length cs"] Cons.prems(1,2) v by simp
  then obtain s1 where s1: "run_set_command (at_time db now) c s = (reply, s1)" "set_step (at_time db now) view U (3 * length cs) s s1"
    "sets_in db view (members_bound n c) s1 U A1"
    using step by (auto simp: set_simulates_def)
  have s1': "cache_ok db view s1" "versions_left db (3 * length cs) s1" "set_changed db view U s s1"
    using s1(2) set_step_cache [OF s1(2)] by (simp_all add: set_step_def)
  have rest: "\<forall>(now, c) \<in> set cs. set_command_keys c \<subseteq> U \<and> set_command_ok c" "foldl members_bound (members_bound n c) (map snd cs) < max_members"
    using Cons.prems(3,4) nc by auto
  obtain s' where s': "run_set_trace db cs s1 = (fst (set_spec_trace cs A1), s')"
    "sets_in db view (foldl members_bound (members_bound n c) (map snd cs)) s' U (snd (set_spec_trace cs A1 :: ('e db_error + _) list \<times> _))"
    "set_changed db view U s1 s'"
    using Cons.IH [OF s1'(1) s1(3) rest s1'(2)] by blast
  have "set_changed db view U s s'" using set_changed_trans [OF s1'(3) s'(3)] by blast
  then show ?case using s1(1) step s'(1,2) by (auto simp: nc split: prod.splits)
qed

text \<open>Three sets in an empty store: SMOVE takes them out of the packed form, SREM ends one of them.\<close>

definition sample_set_commands :: "(u64 \<times> set_command) list" where
  "sample_set_commands =
     [(1000, S_Add ''s'' [''a'', ''b'', ''a'']), (1001, S_Move ''s'' ''t'' ''a''), (1002, S_UnionStore ''u'' [''s'', ''t'']), (1003, S_Rem ''s'' [''b'', ''c'']),
      (1004, S_MIsMember ''u'' [''b'', ''c'']), (1005, S_Members ''t''), (1006, S_Card ''s'')]"

theorem set_store_refines_witness:
  "\<exists>s'. run_set_trace assoc_db sample_set_commands (assoc_state []) =
     ([Inr (Count 2), Inr (Flag True), Inr (Count 2), Inr (Count 1), Inr (Flags [True, False]), Inr (Listing [''a'']), Inr (Count 0)], s')"
proof -
  let ?A = "\<lambda>_ :: bytes. (0, {}) :: set_entry" and ?U = "{''s'', ''t'', ''u''}"
  have f: "fulltext_local (fulltext_delete assoc_db)" by (simp add: fulltext_local_def assoc_db_def)
  have i: "sets_in assoc_db map_of 0 (assoc_state []) ?U ?A"
    by (simp add: sets_in_def set_at_def set_ok_def unused_from_def plausible_expiry_def valid_owner_def utf8_valid_ascii_Cons)
  have c: "\<forall>(now, c) \<in> set sample_set_commands. set_command_keys c \<subseteq> ?U \<and> set_command_ok c"
    by (simp add: sample_set_commands_def utf8_valid_ascii_Cons)
  have b: "foldl members_bound 0 (map snd sample_set_commands) < max_members" by (simp add: sample_set_commands_def max_members_def)
  have v: "versions_left assoc_db (3 * length sample_set_commands) (assoc_state [])"
    by (simp add: versions_left_def assoc_state_def assoc_db_def assoc_store_def version_timestamp_floor_def Let_def sample_set_commands_def)
  have "fst (set_spec_trace sample_set_commands ?A) =
      [Inr (Count 2), Inr (Flag True), Inr (Count 2), Inr (Count 1), Inr (Flags [True, False]), Inr (Listing [''a'']), Inr (Count 0) :: unit db_error + _]"
    by (simp add: sample_set_commands_def set_live_def live_sets_def set_norm_def members_reply_def reply_size_def MAX_ARRAY_ELEMENTS_def
        MAX_FRAME_BYTES_def Let_def insert_Diff_if card_insert_if)
  then show ?thesis using set_store_refines [OF assoc_serves f assoc_cache_ok i c b v] by auto
qed

end
