(* ===== verification/Spec2Isabelle.thy ===== *)
theory Spec2Isabelle
  imports Resp_Properties Watch_Properties Version_Properties Ttl_Properties Glob_Properties List_Properties
    Session_Properties Acl_Properties Transaction_Properties Bits_Properties String_Properties
    Set_Properties
begin

text \<open>
  OneDis is a server that speaks the Redis protocol and keeps its data in a log-structured key-value engine. This
  development models the parts of it that decide whether a client reads what was written: the protocol
  frames, the physical keys and values in the engine, the versions that separate the generations of an
  object, the tracking of changes for WATCH and for blocked readers, expiry, the commands on lists, sets, strings and
  whole keys from the command down to the batch that reaches the engine, sessions with their subscriptions and permissions, and
  transactions.

  \<^bold>\<open>Theories.\<close> File names are relative to \<^verbatim>\<open>src/src\<close>.

  \<^item> \<open>Onedis_Prelude\<close>: bytes, big-endian numbers, slices, UTF-8, decimal text, the byte-wise order.
  \<^item> \<open>Resp_Frame\<close>, \<open>Resp_Parse\<close>, \<open>Resp_Roundtrip\<close>, \<open>Resp_Stream\<close>, \<open>Resp_Properties\<close>: the protocol
    (\<^verbatim>\<open>frame/*.rs\<close>). A frame is read back from its encoding, frames back to back and cut by network
    reads are read as they were sent, the boundary scan and the parser agree, replies cannot be split.
  \<^item> \<open>Key_Encoding\<close>, \<open>Key_Properties\<close>: physical keys (\<^verbatim>\<open>store/db/key_encoding.rs\<close>). Objects do not share
    keys, user keys and internal keys are apart, deleting an object deletes exactly its keys. The locale
    \<open>owner_codec\<close> is the contract of the owner encoding.
  \<^item> \<open>Key_Watch\<close>, \<open>Watch_Properties\<close>: the mutation tracker, WATCH, waiters and the commit
    (\<^verbatim>\<open>store/db/types.rs\<close>, \<^verbatim>\<open>core_key_watch.rs\<close>, \<^verbatim>\<open>core_write_batch.rs\<close>, \<^verbatim>\<open>core_lifecycle.rs\<close>,
    \<^verbatim>\<open>server/transaction_state_watch.rs\<close>).
  \<^item> \<open>Collection_Keys\<close>, \<open>List_Ops\<close>: keys of list elements, members, fields and scores, score scans, list
    positions (\<^verbatim>\<open>collection_key_codec.rs\<close>, \<^verbatim>\<open>hash_key_codec.rs\<close>, \<^verbatim>\<open>native_list_helpers.rs\<close>,
    \<^verbatim>\<open>list_update_trim_remove.rs\<close>).
  \<^item> \<open>Value_Codec\<close>, \<open>Packed_Codec\<close>, \<open>Meta_Codec\<close>, \<open>Meta_Properties\<close>: stream records, packed collections,
    metadata records, deadlines (\<^verbatim>\<open>stream_key_codec.rs\<close>, \<^verbatim>\<open>value_meta_codec.rs\<close>,
    \<^verbatim>\<open>value_entry_codec.rs\<close>, \<^verbatim>\<open>ttl/meta_header.rs\<close>). The locale \<open>item_codec\<close> is the contract between the
    writer and the reader of one item; the loops over packed items rest on its five interpretations.
  \<^item> \<open>Version_Lifecycle\<close>, \<open>Version_Properties\<close>: the version counter, owner records, live versions and the
    compaction filter (\<^verbatim>\<open>ttl/version_counter.rs\<close>, \<^verbatim>\<open>version_compaction.rs\<close>).
  \<^item> \<open>Ttl_Index\<close>, \<open>Ttl_Properties\<close>: the index of deadlines, the startup scan and the sweeper (\<^verbatim>\<open>ttl/key_helpers.rs\<close>,
    \<^verbatim>\<open>manager_index.rs\<close>, \<^verbatim>\<open>manager_core.rs\<close>, \<^verbatim>\<open>manager_sweeper.rs\<close>). The index is exact, a sweep finds what is due
    and deletes only that, a restart makes every stored version live.
  \<^item> \<open>Session_Glob\<close>, \<open>Glob_Properties\<close>: patterns of channels and access rules (\<^verbatim>\<open>network/session_glob.rs\<close>). The
    backtracking matcher ends and agrees with the recursive definition of matching.
  \<^item> \<open>Entry_Codec\<close>, \<open>Db_State\<close>: whole values (\<^verbatim>\<open>value_entry_codec.rs\<close>) and the state of a database behind its
    commands: batches, owner records, the metadata cache, lazy expiry (\<^verbatim>\<open>core_write_batch.rs\<close>,
    \<^verbatim>\<open>core_lifecycle.rs\<close>, \<^verbatim>\<open>key_expiration_runtime.rs\<close>). A command is a function from the state to an error or a
    result, and the new state.
  \<^item> \<open>List_Store\<close>, \<open>List_Update\<close>: the list commands in the packed and the split layout (\<^verbatim>\<open>list_push_ops.rs\<close>,
    \<^verbatim>\<open>list_pop_ops.rs\<close>, \<^verbatim>\<open>list_read_range_ops.rs\<close>, \<^verbatim>\<open>list_update_trim_remove.rs\<close>, \<^verbatim>\<open>list_move_insert_ops.rs\<close>,
    \<^verbatim>\<open>native_list_helpers.rs\<close>).
  \<^item> \<open>Db_Contract\<close>, \<open>List_Refine\<close>, \<open>List_Push_Pop\<close>, \<open>List_Read\<close>, \<open>List_Change\<close>, \<open>List_Properties\<close>: the contract of
    the engine, the relation \<open>list_at\<close> between its records and an abstract list, and for each command the
    function on abstract lists that it refines. \<open>Assoc_Store\<close> is an engine that keeps the contract, for the witnesses.
  \<^item> \<open>String_Bits\<close>, \<open>Bits_Properties\<close>: bits of strings and BITFIELD (\<^verbatim>\<open>string_bitmap_ops.rs\<close>,
    \<^verbatim>\<open>cmds/bitmap/bitfield.rs\<close>). Counting, searching and combining agree with the list of the bits; an increment is exact at
    the width of its field.
  \<^item> \<open>String_Store\<close>, \<open>Key_Store\<close>, \<open>String_Pipeline\<close>: SET, the commands that read and change a string, EXPIRE, PERSIST, GETEX, DEL, and
    pipelines of such commands answered as one (\<^verbatim>\<open>string_*.rs\<close>, \<^verbatim>\<open>storage_*_helpers.rs\<close>,
    \<^verbatim>\<open>key_expire_persist_ops.rs\<close>).
  \<^item> \<open>Key_Refine\<close>, \<open>String_Refine\<close>, \<open>Pipeline_Properties\<close>, \<open>Expire_Properties\<close>: what a batch does to a record and to its entry in
    the index of deadlines (\<open>effect\<close>, \<open>wrote\<close>), and on it the commands: a pipeline is equivalent to its commands one by one, and the
    deadline commands change the deadline and nothing else.
  \<^item> \<open>String_Model\<close>, \<open>String_Properties\<close>: the commands as a map from keys to values with deadlines (\<open>spec_step\<close>), which every
    sequence of commands refines, and the behaviour on keys of other types.
  \<^item> \<open>Set_Store\<close>: the set commands in the packed and the split layout (\<^verbatim>\<open>native_set_meta.rs\<close>, \<^verbatim>\<open>set_member_writes.rs\<close>,
    \<^verbatim>\<open>set_member_reads.rs\<close>, \<^verbatim>\<open>native_set_member_scan.rs\<close>, the union of \<^verbatim>\<open>set_aggregate_ops.rs\<close>).
  \<^item> \<open>Set_Refine\<close>, \<open>Set_Run\<close>, \<open>Set_Add\<close>, \<open>Set_Remove\<close>, \<open>Set_Read\<close>, \<open>Set_Move\<close>, \<open>Set_Union\<close>, \<open>Set_Properties\<close>: the relation
    \<open>set_at\<close> between the records of a key and a set (absent, packed or split), what one command may change (\<open>set_step\<close>), each
    command on it, and the commands as operations on mathematical sets with deadlines (\<open>set_spec\<close>), which every sequence of set commands
    refines.
  \<^item> \<open>Session_Manager\<close>, \<open>Session_Publish\<close>, \<open>Session_Registry\<close>, \<open>Session_Runs\<close>, \<open>Session_Properties\<close>: the sessions, their
    subscriptions, PUBLISH, monitors, CLIENT LIST, KILL and UNBLOCK, and the bounded queues to the sockets
    (\<^verbatim>\<open>network/session_*.rs\<close>, the writers of \<^verbatim>\<open>network/connection.rs\<close>). The executions of all sessions are an inductive
    step relation; its invariant is an interpretation of the prelude's locale \<open>inductive_invariant\<close>.
  \<^item> \<open>Session_Acl\<close>, \<open>Acl_Properties\<close>: users, rules, authentication and permissions (\<^verbatim>\<open>network/session_acl.rs\<close>).
  \<^item> \<open>Transaction_Queue\<close>, \<open>Transaction_Properties\<close>: the queue of MULTI, EXEC, and the limits of the queue and of the reply
    (\<^verbatim>\<open>network/session.rs\<close>, \<^verbatim>\<open>server/transaction_*.rs\<close>). EXEC runs everything or nothing.

  \<^bold>\<open>How the code is modelled.\<close> Byte strings are lists of characters; a Rust string is a byte string that is valid
  UTF-8. Machine integers are 64-bit and 16-bit words or naturals with the bound written out. A write batch
  of the engine is the list of its operations. Reads that may fail are functions into a sum type. A panic is
  \<open>None\<close>. An atomic operation or an operation under a map entry's lock is one step, and an execution of
  several sessions is a sequence of steps. The concurrent maps of the session manager are association lists with one
  entry per key; a writer is its number in a store of writers, because several tables share it.

  \<^bold>\<open>Parameters.\<close> The decimal text of a double (\<open>f64_text\<close>), lazy expiry inside WATCH, the readers and writers of
  bincode and serde_json, the storage engine, and for EXEC the commands and their transactional view (\<open>exec_env\<close>) are
  arguments of the definitions. The engine is a record of
  functions on a world of its own (\<open>kv_store\<close>), so that it may fail, and change between two calls. The
  refinement theorems assume of it what its interface documents (\<open>engine_contract\<close>): a read returns the record,
  a range scan the records of the range in key order, a batch is applied as a whole, a compare-and-write whose
  conditions hold is applied. \<open>Assoc_Store\<close> instantiates it with association lists. The theorems on strings and keys describe a
  command at one instant (\<open>at_instant\<close>): the clock stands still while it runs, and the full-text subsystem, a parameter, writes
  only records of its own.

  \<^bold>\<open>Bounds.\<close> The loops over a compare-and-write have the rounds of the source (3 and 64). The list theorems bound
  the positions of a list by \<open>max_positions\<close> (\<^verbatim>\<open>2^56\<close>): with a head outside the bound the metadata record of a split
  list could be taken for a packed list, and a list needs as many pushes at one end to get there. For the same reason the
  set theorems bound the number of members by \<open>max_members\<close> (\<^verbatim>\<open>2^56\<close>); they ask for three unused versions per command, and no
  command allocates more. Deadlines are
  bounded by \<open>plausible_expiry\<close>, for the reason that \<open>far_deadline_changes_the_type\<close> shows.

  \<^bold>\<open>Not modelled.\<close> Socket input and output, the asynchronous runtime, the storage engine, full-text and vector
  search, scripting, metrics, and the commands on hashes, sorted sets, streams and JSON documents
  (their keys and records are modelled). Of the commands on strings the counters with their cache, MSET, HyperLogLog, RENAME and COPY
  are left out; of those on sets SPOP, SRANDMEMBER, SSCAN, SINTER, SDIFF, their stores, SINTERCARD and the pipelines. The
  asynchronous list operations run the steps of the synchronous ones
  under the write lock of the key; the queues that merge several of them into one batch are not modelled.
\<close>

end
